(* ===== verification/Nachos_Prelude.thy ===== *)
theory Nachos_Prelude
  imports Main "HOL-Library.Word" "HOL-Library.Signed_Division" "HOL-Library.Multiset"
begin

text \<open>
  What every component of the model shares: the faults a C++ operation can end in and the
  result type that carries them, bounds-checked array access, counting loops that may fail,
  the C division macros of \<open>lib/utility.h\<close> and the word types.

  A definition that models a C++ operation returns \<open>Inr\<close> of its result, or \<open>Inl\<close> of the
  first fault it runs into.  A failed \<open>ASSERT\<close> aborts NachOS; the other faults are accesses
  that C++ leaves undefined (a null or dangling pointer, an index outside an array, a division
  that traps), a \<open>new\<close> that throws, and a loop or a wait that never ends.
\<close>

unbundle bit_operations_syntax

section \<open>Faults and results\<close>

datatype fault =
    AssertionFailed
  | NullDereference
  | DanglingPointer
  | OutOfBounds
  | ArithmeticTrap
  | OutOfMemory
  | Diverges

type_synonym 'a res = "fault + 'a"

type_synonym u8 = "8 word"
type_synonym u16 = "16 word"
type_synonym u32 = "32 word"

named_theorems res_simps \<open>evaluation of the fault monad\<close>
named_theorems inv_intros \<open>preservation of component invariants\<close>

definition bindr :: "'a res \<Rightarrow> ('a \<Rightarrow> 'b res) \<Rightarrow> 'b res" where
  "bindr m f = (case m of Inl e \<Rightarrow> Inl e | Inr x \<Rightarrow> f x)"

definition ASSERT :: "bool \<Rightarrow> unit res" where
  "ASSERT c = (if c then Inr () else Inl AssertionFailed)"

lemma bindr_simps [simp, res_simps]:
  "bindr (Inl e) f = Inl e"
  "bindr (Inr x) f = f x"
  by (simp_all add: bindr_def)

lemma ASSERT_simps [simp, res_simps]:
  "ASSERT True = Inr ()"
  "ASSERT False = Inl AssertionFailed"
  by (simp_all add: ASSERT_def)

lemma ASSERT_bindr [res_simps]: "bindr (ASSERT c) f = (if c then f () else Inl AssertionFailed)"
  by simp

lemma bindr_Inr_iff: "bindr m f = Inr y \<longleftrightarrow> (\<exists>x. m = Inr x \<and> f x = Inr y)"
  by (cases m) auto

lemma bindr_Inl_iff:
  "bindr m f = Inl e \<longleftrightarrow> m = Inl e \<or> (\<exists>x. m = Inr x \<and> f x = Inl e)"
  by (cases m) auto

lemma bindr_assoc: "bindr (bindr m f) g = bindr m (\<lambda>x. bindr (f x) g)"
  by (cases m) simp_all

lemma bindr_cong [fundef_cong]:
  "m = m' \<Longrightarrow> (\<And>x. m' = Inr x \<Longrightarrow> f x = g x) \<Longrightarrow> bindr m f = bindr m' g"
  by (cases m') simp_all

lemma ASSERT_Inr_iff [simp]: "ASSERT c = Inr u \<longleftrightarrow> c"
  by (simp add: ASSERT_def)

lemma bindrE [elim]:
  assumes "bindr m f = Inr y"
  obtains x where "m = Inr x" and "f x = Inr y"
  using assms by (auto simp: bindr_Inr_iff)

section \<open>Arrays\<close>

text \<open>A C array is a list; an access outside it is the fault \<open>OutOfBounds\<close>.\<close>

definition aget :: "'a list \<Rightarrow> int \<Rightarrow> 'a res" where
  "aget xs i = (if 0 \<le> i \<and> i < int (length xs) then Inr (xs ! nat i) else Inl OutOfBounds)"

definition aset :: "'a list \<Rightarrow> int \<Rightarrow> 'a \<Rightarrow> 'a list res" where
  "aset xs i x =
     (if 0 \<le> i \<and> i < int (length xs) then Inr (xs[nat i := x]) else Inl OutOfBounds)"

lemma aget_in [simp]: "0 \<le> i \<Longrightarrow> i < int (length xs) \<Longrightarrow> aget xs i = Inr (xs ! nat i)"
  by (simp add: aget_def)

lemma aset_in [simp]: "0 \<le> i \<Longrightarrow> i < int (length xs) \<Longrightarrow> aset xs i x = Inr (xs[nat i := x])"
  by (simp add: aset_def)

section \<open>Counting loops\<close>

text \<open>\<open>for (i = 0; i < n; i++) body\<close>, for a body that may fail and never leaves early, is a fold.\<close>

primrec foldM :: "('x \<Rightarrow> 's \<Rightarrow> 's res) \<Rightarrow> 'x list \<Rightarrow> 's \<Rightarrow> 's res" where
  "foldM f [] s = Inr s"
| "foldM f (x # xs) s = bindr (f x s) (foldM f xs)"

lemma foldM_append [simp]: "foldM f (xs @ ys) s = bindr (foldM f xs s) (foldM f ys)"
proof (induction xs arbitrary: s)
  case (Cons x xs)
  then have "foldM f (xs @ ys) = (\<lambda>s. bindr (foldM f xs s) (foldM f ys))" by (rule ext)
  then show ?case by (simp add: bindr_assoc)
qed simp

text \<open>An invariant that every round keeps and that rules out a fault holds after the loop.\<close>

lemma foldM_invariant:
  assumes "P [] s"
    and "\<And>ys y s'. P ys s' \<Longrightarrow> (\<exists>zs. xs = ys @ y # zs) \<Longrightarrow> \<exists>t. f y s' = Inr t \<and> P (ys @ [y]) t"
  shows "\<exists>t. foldM f xs s = Inr t \<and> P xs t"
  using assms
proof (induction xs rule: rev_induct)
  case Nil
  then show ?case by simp
next
  case (snoc x xs)
  have "\<exists>t. foldM f xs s = Inr t \<and> P xs t"
  proof (rule snoc.IH)
    show "P [] s" by fact
    fix ys y s' assume "P ys s'" and "\<exists>zs. xs = ys @ y # zs"
    then have "\<exists>zs. xs @ [x] = ys @ y # zs" by auto
    with \<open>P ys s'\<close> show "\<exists>t. f y s' = Inr t \<and> P (ys @ [y]) t" by (rule snoc.prems(2))
  qed
  then obtain t where t: "foldM f xs s = Inr t" "P xs t" by blast
  from snoc.prems(2) [OF t(2)] obtain u where "f x t = Inr u" "P (xs @ [x]) u" by blast
  with t show ?case by simp
qed

definition upto_int :: "int \<Rightarrow> int list" where
  "upto_int n = map int [0..<nat n]"

lemma upto_int_simps [simp]:
  "set (upto_int n) = {0..<n}"
  "length (upto_int n) = nat n"
  "distinct (upto_int n)"
proof -
  have "x \<in> int ` {0..<nat n}" if "0 \<le> x" "x < n" for x
    using that by (intro image_eqI [where x = "nat x"]) auto
  then show "set (upto_int n) = {0..<n}" by (auto simp: upto_int_def)
qed (simp_all add: upto_int_def distinct_map)

lemma upto_int_Suc: "0 \<le> n \<Longrightarrow> upto_int (n + 1) = upto_int n @ [n]"
  by (simp add: upto_int_def nat_add_distrib)

lemma upto_int_nonpos [simp]: "n \<le> 0 \<Longrightarrow> upto_int n = []"
  by (simp add: upto_int_def)

section \<open>Refinement\<close>

text \<open>
  An operation refines its abstract version when both end in the same fault or both return and
  the results are related.  A component is a \<open>step\<close> function on its state that takes a request
  and returns a reply; \<open>run\<close> serves a sequence of requests.
\<close>

abbreviation refines :: "('c \<Rightarrow> 'd \<Rightarrow> bool) \<Rightarrow> 'c res \<Rightarrow> 'd res \<Rightarrow> bool" where
  "refines R \<equiv> rel_sum (=) R"

lemma refines_bindr:
  assumes "refines R m n" and "\<And>x y. R x y \<Longrightarrow> m = Inr x \<Longrightarrow> n = Inr y \<Longrightarrow> refines S (f x) (g y)"
  shows "refines S (bindr m f) (bindr n g)"
  using assms by (cases m; cases n) auto

lemma refines_Inr_right: "refines R m (Inr y) \<longleftrightarrow> (\<exists>x. m = Inr x \<and> R x y)"
  by (cases m) auto

lemma refines_Inl_right: "refines R m (Inl e) \<longleftrightarrow> m = Inl e"
  by (cases m) auto

primrec run :: "('o \<Rightarrow> 's \<Rightarrow> ('r \<times> 's) res) \<Rightarrow> 'o list \<Rightarrow> 's \<Rightarrow> ('r list \<times> 's) res" where
  "run f [] s = Inr ([], s)"
| "run f (x # xs) s =
     bindr (f x s) (\<lambda>(r, s). bindr (run f xs s) (\<lambda>(rs, s). Inr (r # rs, s)))"

locale simulation =
  fixes R :: "'c \<Rightarrow> 'a \<Rightarrow> bool"
    and step :: "'o \<Rightarrow> 'c \<Rightarrow> ('r \<times> 'c) res"
    and astep :: "'o \<Rightarrow> 'a \<Rightarrow> ('r \<times> 'a) res"
  assumes sim: "R c a \<Longrightarrow> refines (rel_prod (=) R) (step x c) (astep x a)"
begin

lemma run_refines: "R c a \<Longrightarrow> refines (rel_prod (=) R) (run step xs c) (run astep xs a)"
proof (induction xs arbitrary: c a)
  case (Cons x xs)
  show ?case unfolding run.simps
    by (rule refines_bindr [OF sim [OF Cons.prems]])
      (auto intro!: refines_bindr [OF Cons.IH])
qed simp

end

section \<open>C arithmetic\<close>

text \<open>
  \<open>int\<close> is 32 bits wide in every build of NachOS.  \<open>s32\<close> writes the wrap-around out for the sums that
  can leave the range: the clock and the times of interrupts, the statistics, and the arithmetic on
  values that a user program or a file chooses.
  Division truncates (\<open>sdiv\<close>, \<open>smod\<close>).
\<close>

definition s32 :: "int \<Rightarrow> int" where
  "s32 i = sint (word_of_int i :: u32)"

lemma s32_id: "- (2 ^ 31) \<le> i \<Longrightarrow> i < 2 ^ 31 \<Longrightarrow> s32 i = i"
  by (simp add: s32_def sint_sbintrunc' signed_take_bit_int_eq_self)

lemma s32_bounds: "- (2 ^ 31) \<le> s32 i" "s32 i < 2 ^ 31"
  using sint_range_size [of "word_of_int i :: u32"] by (simp_all add: s32_def word_size)

lemma s32_wrap:
  "s32 (s32 i + j) = s32 (i + j)" "s32 (i + s32 j) = s32 (i + j)"
  "s32 (s32 i - j) = s32 (i - j)" "s32 (i - s32 j) = s32 (i - j)" "s32 (s32 i) = s32 i"
  by (simp_all add: s32_def flip: wi_hom_add wi_hom_sub)

lemma s32_over:
  assumes "2 ^ 31 \<le> i" "i < 2 ^ 32"
  shows "s32 i = i - 2 ^ 32"
proof -
  have "(word_of_int i :: u32) = word_of_int (i - 2 ^ 32)"
    by (simp add: word_of_int_eq_iff take_bit_eq_mod)
  then have "s32 i = s32 (i - 2 ^ 32)" by (simp only: s32_def)
  also have "\<dots> = i - 2 ^ 32" by (rule s32_id) (use assms in simp_all)
  finally show ?thesis .
qed

definition divRoundDown :: "int \<Rightarrow> int \<Rightarrow> int" where
  "divRoundDown n s = n sdiv s"

definition divRoundUp :: "int \<Rightarrow> int \<Rightarrow> int" where
  "divRoundUp n s = (n sdiv s) + (if n smod s > 0 then 1 else 0)"

lemma sdiv_nonneg: "0 \<le> n \<Longrightarrow> 0 < s \<Longrightarrow> (n::int) sdiv s = n div s"
  by (simp add: signed_divide_int_def sgn_if)

lemma smod_nonneg: "0 \<le> n \<Longrightarrow> 0 < s \<Longrightarrow> (n::int) smod s = n mod s"
  using sdiv_nonneg [of n s] by (cases "n = 0") (simp_all add: signed_modulo_int_def)

lemma divRoundUp_bounds:
  assumes "0 \<le> n" "0 < s"
  shows "n \<le> divRoundUp n s * s" "divRoundUp n s * s < n + s" "0 \<le> divRoundUp n s"
proof -
  have eq: "n = n div s * s + n mod s" by simp
  have m: "0 \<le> n mod s" "n mod s < s" using assms by simp_all
  have d: "divRoundUp n s = n div s + (if n mod s > 0 then 1 else 0)"
    using assms by (simp add: divRoundUp_def sdiv_nonneg smod_nonneg)
  have x: "n mod s > 0 \<Longrightarrow> divRoundUp n s * s = n div s * s + s"
    and y: "n mod s \<le> 0 \<Longrightarrow> divRoundUp n s * s = n div s * s"
    by (simp_all add: d distrib_right)
  show "n \<le> divRoundUp n s * s"
    using eq m x y by linarith
  show "divRoundUp n s * s < n + s"
    using eq m x y assms(2) by linarith
  show "0 \<le> divRoundUp n s"
    using assms by (simp add: d pos_imp_zdiv_nonneg_iff)
qed

lemma divRoundUp_pos: "0 < n \<Longrightarrow> 0 < s \<Longrightarrow> 0 < divRoundUp n s"
  using divRoundUp_bounds(1) [of n s] by (smt (verit) mult_nonpos_nonneg)

end
