(* ===== verification/Bitmap.thy ===== *)
theory Bitmap
  imports Nachos_Prelude
begin

text \<open>
  \<open>code/lib/bitmap.h\<close> and \<open>code/lib/bitmap.cc\<close>: an array of bits kept in an array of
  \<open>unsigned int\<close>, the allocator behind the disk's free map.  A \<open>bitmap\<close> record is the object's
  three members.  \<open>bm_used\<close> is the abstraction, the set of bit numbers that are on, and the
  locale \<open>bit_allocator\<close> the contract clients rely on; it is interpreted on \<open>Bitmap\<close>.
\<close>

section \<open>The object and its operations\<close>

definition BitsInByte :: int where "BitsInByte = 8"
definition BitsInWord :: int where "BitsInWord = 4 * BitsInByte"

record bitmap =
  numBits :: int
  numWords :: int
  bmap :: "u32 list"

definition Bitmap_Test :: "bitmap \<Rightarrow> int \<Rightarrow> bool res" where
  "Bitmap_Test bm which =
     bindr (ASSERT (which \<ge> 0 \<and> which < numBits bm)) (\<lambda>_.
     bindr (aget (bmap bm) (which sdiv BitsInWord)) (\<lambda>w.
     Inr (w AND push_bit (nat (which smod BitsInWord)) 1 \<noteq> 0)))"

definition Bitmap_Mark :: "bitmap \<Rightarrow> int \<Rightarrow> bitmap res" where
  "Bitmap_Mark bm which =
     bindr (ASSERT (which \<ge> 0 \<and> which < numBits bm)) (\<lambda>_.
     bindr (aget (bmap bm) (which sdiv BitsInWord)) (\<lambda>w.
     bindr (aset (bmap bm) (which sdiv BitsInWord)
              (w OR push_bit (nat (which smod BitsInWord)) 1)) (\<lambda>m.
     let bm' = bm\<lparr>bmap := m\<rparr> in
     bindr (Bitmap_Test bm' which) (\<lambda>t.
     bindr (ASSERT t) (\<lambda>_. Inr bm')))))"

definition Bitmap_Clear :: "bitmap \<Rightarrow> int \<Rightarrow> bitmap res" where
  "Bitmap_Clear bm which =
     bindr (ASSERT (which \<ge> 0 \<and> which < numBits bm)) (\<lambda>_.
     bindr (aget (bmap bm) (which sdiv BitsInWord)) (\<lambda>w.
     bindr (aset (bmap bm) (which sdiv BitsInWord)
              (w AND NOT (push_bit (nat (which smod BitsInWord)) 1))) (\<lambda>m.
     let bm' = bm\<lparr>bmap := m\<rparr> in
     bindr (Bitmap_Test bm' which) (\<lambda>t.
     bindr (ASSERT (\<not> t)) (\<lambda>_. Inr bm')))))"

text \<open>\<open>new unsigned int[n]\<close> holds garbage until the first loop of the constructor clears it.\<close>

definition Bitmap_Bitmap :: "int \<Rightarrow> bitmap res" where
  "Bitmap_Bitmap numItems =
     bindr (ASSERT (numItems > 0)) (\<lambda>_.
     let n = divRoundUp numItems BitsInWord in
     foldM (\<lambda>i bm. Bitmap_Clear bm i) (upto_int numItems)
       \<lparr>numBits = numItems, numWords = n, bmap = replicate (nat n) 0\<rparr>)"

function Bitmap_FindAndSet_from :: "bitmap \<Rightarrow> int \<Rightarrow> (int \<times> bitmap) res" where
  "Bitmap_FindAndSet_from bm i =
     (if i < numBits bm then
        bindr (Bitmap_Test bm i) (\<lambda>t.
        if \<not> t then bindr (Bitmap_Mark bm i) (\<lambda>bm'. Inr (i, bm'))
        else Bitmap_FindAndSet_from bm (i + 1))
      else Inr (-1, bm))"
  by pat_completeness auto
termination
  by (relation "measure (\<lambda>(bm, i). nat (numBits bm - i))") auto

declare Bitmap_FindAndSet_from.simps [simp del]

definition Bitmap_FindAndSet :: "bitmap \<Rightarrow> (int \<times> bitmap) res" where
  "Bitmap_FindAndSet bm = Bitmap_FindAndSet_from bm 0"

definition Bitmap_NumClear :: "bitmap \<Rightarrow> int res" where
  "Bitmap_NumClear bm =
     foldM (\<lambda>i count. bindr (Bitmap_Test bm i) (\<lambda>t. Inr (if \<not> t then count + 1 else count)))
       (upto_int (numBits bm)) 0"

text \<open>\<open>Print\<close> writes the numbers of the bits that are on; the model returns them in order.\<close>

definition Bitmap_Print :: "bitmap \<Rightarrow> int list res" where
  "Bitmap_Print bm =
     foldM (\<lambda>i out. bindr (Bitmap_Test bm i) (\<lambda>t. Inr (if t then out @ [i] else out)))
       (upto_int (numBits bm)) []"

definition Bitmap_SelfTest :: "bitmap \<Rightarrow> bitmap res" where
  "Bitmap_SelfTest bm =
     bindr (ASSERT (numBits bm \<ge> BitsInWord)) (\<lambda>_.
     bindr (Bitmap_NumClear bm) (\<lambda>n. bindr (ASSERT (n = numBits bm)) (\<lambda>_.
     bindr (Bitmap_FindAndSet bm) (\<lambda>(r0, bm1). bindr (ASSERT (r0 = 0)) (\<lambda>_.
     bindr (Bitmap_Mark bm1 31) (\<lambda>bm2.
     bindr (Bitmap_Test bm2 0) (\<lambda>t0. bindr (Bitmap_Test bm2 31) (\<lambda>t31.
     bindr (ASSERT (t0 \<and> t31)) (\<lambda>_.
     bindr (Bitmap_FindAndSet bm2) (\<lambda>(r1, bm3). bindr (ASSERT (r1 = 1)) (\<lambda>_.
     bindr (Bitmap_Clear bm3 0) (\<lambda>bm4.
     bindr (Bitmap_Clear bm4 1) (\<lambda>bm5.
     bindr (Bitmap_Clear bm5 31) (\<lambda>bm6.
     bindr (foldM (\<lambda>i b. Bitmap_Mark b i) (upto_int (numBits bm6)) bm6) (\<lambda>bm7.
     bindr (Bitmap_FindAndSet bm7) (\<lambda>(r2, bm8). bindr (ASSERT (r2 = -1)) (\<lambda>_.
     foldM (\<lambda>i b. Bitmap_Clear b i) (upto_int (numBits bm8)) bm8)))))))))))))))))"

section \<open>Invariant and abstraction\<close>

definition bm_inv :: "bitmap \<Rightarrow> bool" where
  "bm_inv bm \<longleftrightarrow> 0 < numBits bm \<and> numWords bm = divRoundUp (numBits bm) BitsInWord \<and>
     int (length (bmap bm)) = numWords bm"

definition bm_word :: "int \<Rightarrow> nat" where "bm_word i = nat (i div 32)"
definition bm_pos :: "int \<Rightarrow> nat" where "bm_pos i = nat (i mod 32)"

definition bm_bit :: "bitmap \<Rightarrow> int \<Rightarrow> bool" where
  "bm_bit bm i = bit (bmap bm ! bm_word i) (bm_pos i)"

definition bm_used :: "bitmap \<Rightarrow> int set" where
  "bm_used bm = {i. 0 \<le> i \<and> i < numBits bm \<and> bm_bit bm i}"

lemma BitsInWord_eq [simp]: "BitsInWord = 32"
  by (simp add: BitsInWord_def BitsInByte_def)

lemma bm_used_range: "bm_used bm \<subseteq> {0..<numBits bm}"
  by (auto simp: bm_used_def)

lemma bm_pos_less [simp]: "bm_pos i < 32"
  by (simp add: bm_pos_def nat_less_iff)

lemma bm_word_less:
  assumes "bm_inv bm" "0 \<le> i" "i < numBits bm"
  shows "bm_word i < length (bmap bm)"
proof -
  have "numBits bm \<le> int (length (bmap bm)) * 32"
    using assms divRoundUp_bounds(1) [of "numBits bm" 32] by (simp add: bm_inv_def)
  then show ?thesis
    using assms by (simp add: bm_word_def nat_less_iff)
qed

lemma bm_access:
  assumes "bm_inv bm" "0 \<le> i" "i < numBits bm"
  shows "aget (bmap bm) (i sdiv 32) = Inr (bmap bm ! bm_word i)"
    "aset (bmap bm) (i sdiv 32) w = Inr ((bmap bm)[bm_word i := w])"
    "nat (i smod 32) = bm_pos i"
  using assms bm_word_less [OF assms]
  by (simp_all add: aget_def aset_def sdiv_nonneg smod_nonneg bm_word_def bm_pos_def nat_less_iff)

lemma Bitmap_Test_in:
  "bm_inv bm \<Longrightarrow> 0 \<le> i \<Longrightarrow> i < numBits bm \<Longrightarrow> Bitmap_Test bm i = Inr (i \<in> bm_used bm)"
  by (simp add: Bitmap_Test_def bm_access bm_used_def bm_bit_def bit_iff_and_push_bit_not_eq_0)

lemma Bitmap_out_of_range:
  assumes "\<not> (0 \<le> i \<and> i < numBits bm)"
  shows "Bitmap_Test bm i = Inl AssertionFailed" "Bitmap_Mark bm i = Inl AssertionFailed"
    "Bitmap_Clear bm i = Inl AssertionFailed"
  using assms by (auto simp: Bitmap_Test_def Bitmap_Mark_def Bitmap_Clear_def ASSERT_def)

text \<open>Two bit numbers share neither word nor position unless they are equal.\<close>

lemma bm_same_bit:
  "0 \<le> i \<Longrightarrow> 0 \<le> j \<Longrightarrow> bm_word j = bm_word i \<Longrightarrow> bm_pos j = bm_pos i \<longleftrightarrow> i = j"
  unfolding bm_word_def bm_pos_def
  by (metis div_mult_mod_eq eq_nat_nat_iff pos_imp_zdiv_nonneg_iff pos_mod_sign zero_less_numeral)

text \<open>Both updates rewrite one word; \<open>f\<close> is the change of that word.\<close>

definition bm_put :: "bitmap \<Rightarrow> int \<Rightarrow> (u32 \<Rightarrow> u32) \<Rightarrow> bitmap" where
  "bm_put bm i f = bm\<lparr>bmap := (bmap bm)[bm_word i := f (bmap bm ! bm_word i)]\<rparr>"

lemma bm_put:
  assumes bm: "bm_inv bm" "0 \<le> i" "i < numBits bm"
    and f: "\<And>w n. n < 32 \<Longrightarrow> bit (f w) n = (if n = bm_pos i then b else bit w n)"
  shows "bm_inv (bm_put bm i f)" "numBits (bm_put bm i f) = numBits bm"
    "bm_used (bm_put bm i f) = (if b then insert i (bm_used bm) else bm_used bm - {i})"
proof -
  show "bm_inv (bm_put bm i f)" "numBits (bm_put bm i f) = numBits bm"
    using bm by (simp_all add: bm_put_def bm_inv_def)
  note len = bm_word_less [OF bm]
  have "bm_bit (bm_put bm i f) j = (if j = i then b else bm_bit bm j)" if "0 \<le> j" for j
  proof (cases "bm_word j = bm_word i")
    case True
    with len bm_same_bit [OF bm(2) that True] show ?thesis
      by (simp add: bm_bit_def bm_put_def f eq_commute)
  next
    case False
    then show ?thesis by (auto simp: bm_bit_def bm_put_def)
  qed
  with bm show "bm_used (bm_put bm i f) = (if b then insert i (bm_used bm) else bm_used bm - {i})"
    by (auto simp: bm_used_def bm_put_def split: if_splits)
qed

lemma Bitmap_Mark_in:
  assumes bm: "bm_inv bm" "0 \<le> i" "i < numBits bm"
  shows "\<exists>bm'. Bitmap_Mark bm i = Inr bm' \<and> bm_inv bm' \<and> numBits bm' = numBits bm \<and>
    bm_used bm' = insert i (bm_used bm)"
proof -
  let ?f = "\<lambda>w::u32. w OR 2 ^ bm_pos i"
  have f: "bit (?f w) n = (if n = bm_pos i then True else bit w n)" if "n < 32" for w n
    using that by (auto simp: bit_or_iff bit_exp_iff)
  note u = bm_put [OF bm, where f = ?f and b = True, OF f]
  have "Bitmap_Mark bm i = Inr (bm_put bm i ?f)"
    using bm(2,3) u Bitmap_Test_in [OF u(1) bm(2)]
    by (simp add: Bitmap_Mark_def bm_access [OF bm] bm_put_def [of bm i ?f, symmetric])
  with u show ?thesis by simp
qed

lemma Bitmap_Clear_in:
  assumes bm: "bm_inv bm" "0 \<le> i" "i < numBits bm"
  shows "\<exists>bm'. Bitmap_Clear bm i = Inr bm' \<and> bm_inv bm' \<and> numBits bm' = numBits bm \<and>
    bm_used bm' = bm_used bm - {i}"
proof -
  let ?f = "\<lambda>w::u32. w AND NOT (2 ^ bm_pos i)"
  have f: "bit (?f w) n = (if n = bm_pos i then False else bit w n)" if "n < 32" for w n
    using that by (auto simp: bit_and_iff bit_not_iff bit_exp_iff)
  note u = bm_put [OF bm, where f = ?f and b = False, OF f]
  have "Bitmap_Clear bm i = Inr (bm_put bm i ?f)"
    using bm(2,3) u Bitmap_Test_in [OF u(1) bm(2)]
    by (simp add: Bitmap_Clear_def bm_access [OF bm] bm_put_def [of bm i ?f, symmetric])
  with u show ?thesis by simp
qed

section \<open>Searching and counting\<close>

lemma Bitmap_FindAndSet_from_free:
  assumes "bm_inv bm" "0 \<le> i" "i \<le> k" "k < numBits bm" "k \<notin> bm_used bm"
    "\<forall>j\<in>{i..<k}. j \<in> bm_used bm"
  shows "\<exists>bm'. Bitmap_FindAndSet_from bm i = Inr (k, bm') \<and> Bitmap_Mark bm k = Inr bm'"
  using assms
proof (induction bm i rule: Bitmap_FindAndSet_from.induct)
  case (1 bm i)
  note t = Bitmap_Test_in [OF "1.prems"(1,2)]
  show ?case
  proof (cases "i = k")
    case True
    with "1.prems" t Bitmap_Mark_in [of bm k] show ?thesis
      by (auto simp: Bitmap_FindAndSet_from.simps [of bm k])
  next
    case False
    with "1.prems" have used: "i \<in> bm_used bm" "i + 1 \<le> k" "i < numBits bm" by auto
    with "1.IH" [of True] "1.prems" t
    show ?thesis by (auto simp: Bitmap_FindAndSet_from.simps [of bm i])
  qed
qed

lemma Bitmap_FindAndSet_from_full:
  assumes "bm_inv bm" "0 \<le> i" "\<forall>j\<in>{i..<numBits bm}. j \<in> bm_used bm"
  shows "Bitmap_FindAndSet_from bm i = Inr (-1, bm)"
  using assms
proof (induction bm i rule: Bitmap_FindAndSet_from.induct)
  case (1 bm i)
  then show ?case
    by (cases "i < numBits bm")
      (auto simp: Bitmap_FindAndSet_from.simps [of bm i] Bitmap_Test_in)
qed

text \<open>A set of bit numbers that is not everything has a least number missing.\<close>

lemma least_free:
  assumes "S \<subseteq> {0..<n::int}" "S \<noteq> {0..<n}"
  shows "\<exists>k. 0 \<le> k \<and> k < n \<and> k \<notin> S \<and> (\<forall>j\<in>{0..<k}. j \<in> S)"
proof -
  obtain x where x: "0 \<le> x" "x < n" "x \<notin> S" using assms by fastforce
  define m where "m = (LEAST m. int m \<notin> S)"
  have "int (nat x) \<notin> S" using x by simp
  then have m: "int m \<notin> S" "m \<le> nat x"
    unfolding m_def by (rule LeastI, rule Least_le)
  have below: "int j \<in> S" if "j < m" for j
    using not_less_Least [of j "\<lambda>m. int m \<notin> S"] that by (simp add: m_def)
  have "j \<in> S" if "0 \<le> j" "j < int m" for j
    using below [of "nat j"] that by simp
  with m x show ?thesis by (intro exI [of _ "int m"]) auto
qed

lemma foldM_count:
  assumes "\<And>i. i \<in> set xs \<Longrightarrow> t i = Inr (i \<in> S)"
  shows "foldM (\<lambda>i c. bindr (t i) (\<lambda>b. Inr (if \<not> b then c + 1 else c))) xs (c::int)
    = Inr (c + int (length (filter (\<lambda>i. i \<notin> S) xs)))"
  using assms by (induction xs arbitrary: c) auto

lemma foldM_collect:
  assumes "\<And>i. i \<in> set xs \<Longrightarrow> t i = Inr (i \<in> S)"
  shows "foldM (\<lambda>i out. bindr (t i) (\<lambda>b. Inr (if b then out @ [i] else out))) xs out
    = Inr (out @ filter (\<lambda>i. i \<in> S) xs)"
  using assms by (induction xs arbitrary: out) auto

lemma length_filter_free:
  assumes "S \<subseteq> {0..<n}"
  shows "int (length (filter (\<lambda>i. i \<notin> S) (upto_int n))) = max 0 n - int (card S)"
proof -
  have "length (filter (\<lambda>i. i \<notin> S) (upto_int n)) = card ({0..<n} - S)"
    using distinct_card [of "filter (\<lambda>i. i \<notin> S) (upto_int n)"]
    by (simp add: set_diff_eq)
  also have "\<dots> = card {0..<n} - card S"
    using assms by (intro card_Diff_subset) (auto intro: finite_subset)
  finally show ?thesis
    using card_mono [OF _ assms] by simp
qed

lemma Bitmap_NumClear_eq:
  assumes "bm_inv bm"
  shows "Bitmap_NumClear bm = Inr (numBits bm - int (card (bm_used bm)))"
proof -
  have "Bitmap_Test bm i = Inr (i \<in> bm_used bm)" if "i \<in> set (upto_int (numBits bm))" for i
    using that assms by (simp add: Bitmap_Test_in)
  from foldM_count [of "upto_int (numBits bm)" "Bitmap_Test bm" "bm_used bm" 0, OF this] show ?thesis
    using assms length_filter_free [OF bm_used_range, of bm]
    by (simp add: Bitmap_NumClear_def bm_inv_def)
qed

lemma Bitmap_Print_eq:
  assumes "bm_inv bm"
  shows "Bitmap_Print bm = Inr (filter (\<lambda>i. i \<in> bm_used bm) (upto_int (numBits bm)))"
proof -
  have "Bitmap_Test bm i = Inr (i \<in> bm_used bm)" if "i \<in> set (upto_int (numBits bm))" for i
    using that assms by (simp add: Bitmap_Test_in)
  from foldM_collect [of "upto_int (numBits bm)" "Bitmap_Test bm" "bm_used bm" "[]", OF this] show ?thesis
    by (simp add: Bitmap_Print_def)
qed

section \<open>The contract of a bit allocator\<close>

locale bit_allocator =
  fixes inv :: "'b \<Rightarrow> bool"
    and cap :: "'b \<Rightarrow> int"
    and used :: "'b \<Rightarrow> int set"
    and test :: "'b \<Rightarrow> int \<Rightarrow> bool res"
    and mark :: "'b \<Rightarrow> int \<Rightarrow> 'b res"
    and clear :: "'b \<Rightarrow> int \<Rightarrow> 'b res"
    and find_and_set :: "'b \<Rightarrow> (int \<times> 'b) res"
    and num_clear :: "'b \<Rightarrow> int res"
  assumes used_range: "inv b \<Longrightarrow> used b \<subseteq> {0..<cap b}"
    and test_in: "inv b \<Longrightarrow> 0 \<le> i \<Longrightarrow> i < cap b \<Longrightarrow> test b i = Inr (i \<in> used b)"
    and mark_in: "inv b \<Longrightarrow> 0 \<le> i \<Longrightarrow> i < cap b \<Longrightarrow>
      \<exists>b'. mark b i = Inr b' \<and> inv b' \<and> cap b' = cap b \<and> used b' = insert i (used b)"
    and clear_in: "inv b \<Longrightarrow> 0 \<le> i \<Longrightarrow> i < cap b \<Longrightarrow>
      \<exists>b'. clear b i = Inr b' \<and> inv b' \<and> cap b' = cap b \<and> used b' = used b - {i}"
    and find_free: "inv b \<Longrightarrow> used b \<noteq> {0..<cap b} \<Longrightarrow>
      \<exists>i b'. find_and_set b = Inr (i, b') \<and> 0 \<le> i \<and> i < cap b \<and> i \<notin> used b \<and>
        (\<forall>j\<in>{0..<i}. j \<in> used b) \<and> inv b' \<and> cap b' = cap b \<and> used b' = insert i (used b)"
    and find_full: "inv b \<Longrightarrow> used b = {0..<cap b} \<Longrightarrow> find_and_set b = Inr (-1, b)"
    and num_clear_eq: "inv b \<Longrightarrow> num_clear b = Inr (cap b - int (card (used b)))"
begin

lemma find_at:
  assumes "inv b" "0 \<le> i" "i < cap b" "i \<notin> used b" "\<forall>j\<in>{0..<i}. j \<in> used b"
  shows "\<exists>b'. find_and_set b = Inr (i, b') \<and> inv b' \<and> cap b' = cap b \<and>
    used b' = insert i (used b)"
proof -
  have "used b \<noteq> {0..<cap b}" using assms by auto
  from find_free [OF assms(1) this] obtain k b' where
    k: "find_and_set b = Inr (k, b')" "0 \<le> k" "k < cap b" "k \<notin> used b"
      "\<forall>j\<in>{0..<k}. j \<in> used b" "inv b'" "cap b' = cap b" "used b' = insert k (used b)"
    by blast
  have "k = i" using assms k by (metis atLeastLessThan_iff linorder_neqE)
  with k show ?thesis by blast
qed

lemma mark_all:
  assumes "inv b" "set xs \<subseteq> {0..<cap b}"
  shows "\<exists>b'. foldM (\<lambda>i b. mark b i) xs b = Inr b' \<and> inv b' \<and> cap b' = cap b \<and>
    used b' = used b \<union> set xs"
  using assms
proof (induction xs arbitrary: b)
  case (Cons x xs)
  then obtain b1 where b1: "mark b x = Inr b1" "inv b1" "cap b1 = cap b"
    "used b1 = insert x (used b)" using mark_in [of b x] by auto
  with Cons.IH [of b1] Cons.prems show ?case by auto
qed simp

lemma clear_all:
  assumes "inv b" "set xs \<subseteq> {0..<cap b}"
  shows "\<exists>b'. foldM (\<lambda>i b. clear b i) xs b = Inr b' \<and> inv b' \<and> cap b' = cap b \<and>
    used b' = used b - set xs"
  using assms
proof (induction xs arbitrary: b)
  case (Cons x xs)
  then obtain b1 where b1: "clear b x = Inr b1" "inv b1" "cap b1 = cap b"
    "used b1 = used b - {x}" using clear_in [of b x] by auto
  with Cons.IH [of b1] Cons.prems show ?case by auto
qed simp

lemma card_used_le: "inv b \<Longrightarrow> int (card (used b)) \<le> max 0 (cap b)"
  using card_mono [OF _ used_range [of b]] by simp

end

interpretation bm: bit_allocator bm_inv numBits bm_used Bitmap_Test Bitmap_Mark Bitmap_Clear
  Bitmap_FindAndSet Bitmap_NumClear
proof (unfold_locales, goal_cases)
  case (5 b)
  from least_free [OF bm_used_range 5(2)] obtain k where
    k: "0 \<le> k" "k < numBits b" "k \<notin> bm_used b" "\<forall>j\<in>{0..<k}. j \<in> bm_used b" by blast
  with 5(1) Bitmap_FindAndSet_from_free [of b 0 k] Bitmap_Mark_in [of b k] show ?case
    by (auto simp: Bitmap_FindAndSet_def)
next
  case (6 b)
  then show ?case by (simp add: Bitmap_FindAndSet_def Bitmap_FindAndSet_from_full)
qed (simp_all add: bm_used_range Bitmap_Test_in Bitmap_Mark_in Bitmap_Clear_in Bitmap_NumClear_eq)

section \<open>Construction and the self test\<close>

lemma Bitmap_Bitmap_in:
  assumes "0 < n"
  shows "\<exists>bm. Bitmap_Bitmap n = Inr bm \<and> bm_inv bm \<and> numBits bm = n \<and> bm_used bm = {}"
proof -
  let ?bm = "\<lparr>numBits = n, numWords = divRoundUp n BitsInWord,
    bmap = replicate (nat (divRoundUp n BitsInWord)) 0\<rparr>"
  have inv: "bm_inv ?bm"
    using assms divRoundUp_bounds(3) [of n 32] by (simp add: bm_inv_def)
  have "bm_used ?bm = {}"
    using bm_word_less [OF inv] by (auto simp: bm_used_def bm_bit_def)
  with bm.clear_all [OF inv, of "upto_int n"] assms show ?thesis
    by (auto simp: Bitmap_Bitmap_def Let_def)
qed

lemma Bitmap_SelfTest_in:
  assumes "bm_inv bm" "bm_used bm = {}" "BitsInWord \<le> numBits bm"
  shows "\<exists>bm'. Bitmap_SelfTest bm = Inr bm' \<and> bm_inv bm' \<and> numBits bm' = numBits bm \<and>
    bm_used bm' = {}"
proof -
  let ?n = "numBits bm"
  have n: "32 \<le> ?n" using assms by simp
  obtain b1 where b1: "Bitmap_FindAndSet bm = Inr (0, b1)" "bm_inv b1" "numBits b1 = ?n"
    "bm_used b1 = {0}" using bm.find_at [of bm 0] assms n by auto
  obtain b2 where b2: "Bitmap_Mark b1 31 = Inr b2" "bm_inv b2" "numBits b2 = ?n"
    "bm_used b2 = {0, 31}" using bm.mark_in [of b1 31] b1 n by auto
  have t: "Bitmap_Test b2 0 = Inr True" "Bitmap_Test b2 31 = Inr True"
    using b2 n by (simp_all add: Bitmap_Test_in)
  obtain b3 where b3: "Bitmap_FindAndSet b2 = Inr (1, b3)" "bm_inv b3" "numBits b3 = ?n"
    "bm_used b3 = {0, 1, 31}" using bm.find_at [of b2 1] b2 n by auto
  obtain b4 where b4: "Bitmap_Clear b3 0 = Inr b4" "bm_inv b4" "numBits b4 = ?n"
    "bm_used b4 = {1, 31}" using bm.clear_in [of b3 0] b3 n by auto
  obtain b5 where b5: "Bitmap_Clear b4 1 = Inr b5" "bm_inv b5" "numBits b5 = ?n"
    "bm_used b5 = {31}" using bm.clear_in [of b4 1] b4 n by auto
  obtain b6 where b6: "Bitmap_Clear b5 31 = Inr b6" "bm_inv b6" "numBits b6 = ?n"
    "bm_used b6 = {}" using bm.clear_in [of b5 31] b5 n by auto
  obtain b7 where b7: "foldM (\<lambda>i b. Bitmap_Mark b i) (upto_int ?n) b6 = Inr b7" "bm_inv b7"
    "numBits b7 = ?n" "bm_used b7 = {0..<?n}" using bm.mark_all [of b6 "upto_int ?n"] b6 by auto
  have full: "Bitmap_FindAndSet b7 = Inr (-1, b7)" using bm.find_full [of b7] b7 by simp
  obtain b8 where b8: "foldM (\<lambda>i b. Bitmap_Clear b i) (upto_int ?n) b7 = Inr b8" "bm_inv b8"
    "numBits b8 = ?n" "bm_used b8 = {}" using bm.clear_all [of b7 "upto_int ?n"] b7 by auto
  have "Bitmap_NumClear bm = Inr ?n" using assms by (simp add: Bitmap_NumClear_eq)
  with n b1 b2 t b3 b4 b5 b6 b7 full b8 show ?thesis
    by (simp add: Bitmap_SelfTest_def)
qed

section \<open>Programs over bitmaps\<close>

datatype bm_op = OpTest int | OpMark int | OpClear int | OpFindAndSet | OpNumClear | OpPrint

datatype bm_reply = BUnit | BBool bool | BInt int | BInts "int list"

fun Bitmap_step :: "bm_op \<Rightarrow> bitmap \<Rightarrow> (bm_reply \<times> bitmap) res" where
  "Bitmap_step (OpTest i) bm = bindr (Bitmap_Test bm i) (\<lambda>t. Inr (BBool t, bm))"
| "Bitmap_step (OpMark i) bm = bindr (Bitmap_Mark bm i) (\<lambda>bm. Inr (BUnit, bm))"
| "Bitmap_step (OpClear i) bm = bindr (Bitmap_Clear bm i) (\<lambda>bm. Inr (BUnit, bm))"
| "Bitmap_step OpFindAndSet bm = bindr (Bitmap_FindAndSet bm) (\<lambda>(i, bm). Inr (BInt i, bm))"
| "Bitmap_step OpNumClear bm = bindr (Bitmap_NumClear bm) (\<lambda>n. Inr (BInt n, bm))"
| "Bitmap_step OpPrint bm = bindr (Bitmap_Print bm) (\<lambda>is. Inr (BInts is, bm))"

text \<open>The same requests served by a set of numbers below \<open>n\<close>.\<close>

fun set_step :: "int \<Rightarrow> bm_op \<Rightarrow> int set \<Rightarrow> (bm_reply \<times> int set) res" where
  "set_step n (OpTest i) S =
     bindr (ASSERT (0 \<le> i \<and> i < n)) (\<lambda>_. Inr (BBool (i \<in> S), S))"
| "set_step n (OpMark i) S = bindr (ASSERT (0 \<le> i \<and> i < n)) (\<lambda>_. Inr (BUnit, insert i S))"
| "set_step n (OpClear i) S = bindr (ASSERT (0 \<le> i \<and> i < n)) (\<lambda>_. Inr (BUnit, S - {i}))"
| "set_step n OpFindAndSet S =
     (case filter (\<lambda>i. i \<notin> S) (upto_int n) of
        [] \<Rightarrow> Inr (BInt (-1), S)
      | i # _ \<Rightarrow> Inr (BInt i, insert i S))"
| "set_step n OpNumClear S = Inr (BInt (n - int (card S)), S)"
| "set_step n OpPrint S = Inr (BInts (filter (\<lambda>i. i \<in> S) (upto_int n)), S)"

definition bm_rel :: "int \<Rightarrow> bitmap \<Rightarrow> int set \<Rightarrow> bool" where
  "bm_rel n bm S \<longleftrightarrow> bm_inv bm \<and> numBits bm = n \<and> S = bm_used bm"

lemma upto_int_split: "0 \<le> k \<Longrightarrow> k < n \<Longrightarrow> \<exists>ys. upto_int n = upto_int k @ k # ys"
proof -
  assume "0 \<le> k" "k < n"
  then have "[0..<nat n] = [0..<nat k] @ nat k # [Suc (nat k)..<nat n]"
    by (metis add.commute le_add1 less_imp_add_positive nat_mono_iff order.strict_trans1
        order_le_less upt_add_eq_append upt_conv_Cons zero_less_iff_neq_zero le0)
  with \<open>0 \<le> k\<close> show ?thesis by (simp add: upto_int_def)
qed

lemma filter_first_free:
  assumes "0 \<le> k" "k < n" "k \<notin> S" "\<forall>j\<in>{0..<k}. j \<in> S"
  shows "\<exists>ys. filter (\<lambda>i. i \<notin> S) (upto_int n) = k # ys"
proof -
  obtain ys where "upto_int n = upto_int k @ k # ys" using upto_int_split [OF assms(1,2)] by blast
  moreover have "filter (\<lambda>i. i \<notin> S) (upto_int k) = []"
    using assms(4) by (auto simp: filter_empty_conv)
  ultimately show ?thesis using assms(3) by simp
qed

lemma Bitmap_step_refines:
  assumes "bm_rel n bm S"
  shows "refines (rel_prod (=) (bm_rel n)) (Bitmap_step x bm) (set_step n x S)"
proof -
  have inv: "bm_inv bm" and n: "numBits bm = n" and S: "S = bm_used bm"
    using assms by (auto simp: bm_rel_def)
  have *: ?thesis if "x = OpTest i \<or> x = OpMark i \<or> x = OpClear i" for i
  proof (cases "0 \<le> i \<and> i < n")
    case True
    with that inv n S bm.mark_in [OF inv, of i] bm.clear_in [OF inv, of i] Bitmap_Test_in [OF inv, of i]
    show ?thesis by (auto simp: bm_rel_def)
  next
    case False
    with that n Bitmap_out_of_range [of i bm] show ?thesis by (auto simp: ASSERT_def)
  qed
  show ?thesis
  proof (cases x)
    case OpFindAndSet
    show ?thesis
    proof (cases "bm_used bm = {0..<numBits bm}")
      case True
      then have "filter (\<lambda>i. i \<notin> S) (upto_int n) = []" using n S by (auto simp: filter_empty_conv)
      with OpFindAndSet bm.find_full [OF inv True] assms show ?thesis by simp
    next
      case False
      from bm.find_free [OF inv False] obtain i b where i: "Bitmap_FindAndSet bm = Inr (i, b)"
        "0 \<le> i" "i < n" "i \<notin> S" "\<forall>j\<in>{0..<i}. j \<in> S" "bm_rel n b (insert i S)"
        using n S by (auto simp: bm_rel_def)
      from filter_first_free [OF i(2-5)] i OpFindAndSet show ?thesis by auto
    qed
  qed (use * assms inv n S in \<open>auto simp: Bitmap_NumClear_eq Bitmap_Print_eq\<close>)
qed

interpretation bs: simulation "bm_rel n" Bitmap_step "set_step n" for n
  by unfold_locales (rule Bitmap_step_refines)

section \<open>Properties\<close>

text \<open>
  C40: a bitmap of \<open>n\<close> bits is a set of numbers below \<open>n\<close>: any sequence of operations on a new
  \<open>Bitmap\<close> gives the replies of that set (\<open>FindAndSet\<close> the least number missing, or -1), fails an
  assertion exactly on a number outside the range and never leaves the word array.
\<close>

theorem Bitmap_programs_refine_sets:
  assumes "0 < n"
  shows "\<exists>bm. Bitmap_Bitmap n = Inr bm \<and>
    refines (rel_prod (=) (bm_rel n)) (run Bitmap_step ops bm) (run (set_step n) ops {})"
proof -
  obtain bm where bm: "Bitmap_Bitmap n = Inr bm" "bm_rel n bm {}"
    using Bitmap_Bitmap_in [OF assms] by (auto simp: bm_rel_def)
  with bs.run_refines [OF bm(2)] show ?thesis by blast
qed

theorem Bitmap_programs_refine_sets_witness:
  "\<exists>bm. Bitmap_Bitmap 40 = Inr bm \<and>
    refines (rel_prod (=) (bm_rel 40)) (run Bitmap_step [OpFindAndSet, OpMark 39, OpTest 40] bm)
      (Inl AssertionFailed)"
proof -
  have "run (set_step 40) [OpFindAndSet, OpMark 39, OpTest 40] {} = Inl AssertionFailed" by code_simp
  with Bitmap_programs_refine_sets [of 40 "[OpFindAndSet, OpMark 39, OpTest 40]"] show ?thesis
    by (simp del: run.simps)
qed

text \<open>
  \<open>Bitmap::SelfTest\<close> passes on every empty bitmap of at least one word and leaves it empty.
\<close>

theorem Bitmap_SelfTest_passes:
  assumes "bm_inv bm" "bm_used bm = {}" "BitsInWord \<le> numBits bm"
  shows "\<exists>bm'. Bitmap_SelfTest bm = Inr bm' \<and> bm_inv bm' \<and> numBits bm' = numBits bm \<and>
    bm_used bm' = {}"
  using assms by (rule Bitmap_SelfTest_in)

theorem Bitmap_SelfTest_passes_witness:
  "\<exists>bm bm'. Bitmap_Bitmap 200 = Inr bm \<and> Bitmap_SelfTest bm = Inr bm' \<and> bm_used bm' = {}"
proof -
  obtain bm where bm: "Bitmap_Bitmap 200 = Inr bm" "bm_inv bm" "numBits bm = 200" "bm_used bm = {}"
    using Bitmap_Bitmap_in [of 200] by auto
  have "BitsInWord \<le> numBits bm" by (simp add: bm(3))
  from Bitmap_SelfTest_passes [OF bm(2,4) this] bm show ?thesis by blast
qed

end
