(* ===== verification/Linked_List.thy ===== *)
theory Linked_List
  imports Nachos_Prelude
begin

text \<open>
  \<open>code/lib/list.h\<close> and \<open>code/lib/list.cc\<close> at the level of pointers.  A \<open>lst\<close> is a \<open>List<T>\<close>
  object together with the \<open>ListElement<T>\<close> cells that were ever allocated for it: an address is a
  position in \<open>l_heap\<close>, \<open>new\<close> appends a cell and \<open>delete\<close> turns it into \<open>None\<close>, so that a use
  after \<open>delete\<close> is the fault \<open>DanglingPointer\<close>.  Addresses are never reused; the code compares
  only addresses of live cells, which are different in either case.  A \<open>NULL\<close> pointer is \<open>None\<close>.

  A loop over the cells takes as fuel the number of cells ever allocated: a walk of more steps has
  visited a cell twice, follows the same pointers again and never ends (\<open>Diverges\<close>).

  \<open>lrep\<close> relates an object to the sequence it stands for.  The second half proves that every
  operation implements the same operation on sequences, failed assertions included, and states
  that as the locale \<open>list_adt\<close>.
\<close>

section \<open>Cells and pointers\<close>

record 'a list_element =
  le_item :: 'a
  le_next :: "nat option"

record 'a lst =
  l_heap :: "'a list_element option list"
  l_first :: "nat option"
  l_last :: "nat option"
  numInList :: int

definition new_element :: "'a \<Rightarrow> 'a lst \<Rightarrow> nat \<times> 'a lst" where
  "new_element x l =
     (length (l_heap l), l\<lparr>l_heap := l_heap l @ [Some \<lparr>le_item = x, le_next = None\<rparr>]\<rparr>)"

definition deref :: "'a lst \<Rightarrow> nat option \<Rightarrow> 'a list_element res" where
  "deref l p =
     (case p of None \<Rightarrow> Inl NullDereference
      | Some a \<Rightarrow>
          if a < length (l_heap l) then
            (case l_heap l ! a of None \<Rightarrow> Inl DanglingPointer | Some e \<Rightarrow> Inr e)
          else Inl DanglingPointer)"

definition set_next :: "'a lst \<Rightarrow> nat option \<Rightarrow> nat option \<Rightarrow> 'a lst res" where
  "set_next l p q =
     bindr (deref l p) (\<lambda>e. Inr (l\<lparr>l_heap := (l_heap l)[the p := Some (e\<lparr>le_next := q\<rparr>)]\<rparr>))"

definition delete_element :: "'a lst \<Rightarrow> nat option \<Rightarrow> 'a lst res" where
  "delete_element l p = bindr (deref l p) (\<lambda>e. Inr (l\<lparr>l_heap := (l_heap l)[the p := None]\<rparr>))"

section \<open>\<open>List<T>\<close>\<close>

definition List_List :: "'a lst" where
  "List_List = \<lparr>l_heap = [], l_first = None, l_last = None, numInList = 0\<rparr>"

definition List_IsEmpty :: "'a lst \<Rightarrow> bool" where
  "List_IsEmpty l \<longleftrightarrow> numInList l = 0"

definition List_NumInList :: "'a lst \<Rightarrow> int" where
  "List_NumInList l = numInList l"

definition List_Front :: "'a lst \<Rightarrow> 'a res" where
  "List_Front l = bindr (deref l (l_first l)) (\<lambda>e. Inr (le_item e))"

primrec List_IsInList_loop :: "nat \<Rightarrow> 'a lst \<Rightarrow> 'a \<Rightarrow> nat option \<Rightarrow> bool res" where
  "List_IsInList_loop 0 l x ptr = (if ptr = None then Inr False else Inl Diverges)"
| "List_IsInList_loop (Suc n) l x ptr =
     (if ptr = None then Inr False
      else bindr (deref l ptr) (\<lambda>e.
        if x = le_item e then Inr True else List_IsInList_loop n l x (le_next e)))"

definition List_IsInList :: "'a lst \<Rightarrow> 'a \<Rightarrow> bool res" where
  "List_IsInList l x = List_IsInList_loop (length (l_heap l)) l x (l_first l)"

definition List_Append :: "'a lst \<Rightarrow> 'a \<Rightarrow> 'a lst res" where
  "List_Append l x =
     (let (element, l) = new_element x l in
      bindr (List_IsInList l x) (\<lambda>b. bindr (ASSERT (\<not> b)) (\<lambda>_.
      bindr (if List_IsEmpty l then Inr (l\<lparr>l_first := Some element, l_last := Some element\<rparr>)
             else bindr (set_next l (l_last l) (Some element)) (\<lambda>l.
                  Inr (l\<lparr>l_last := Some element\<rparr>))) (\<lambda>l.
      let l = l\<lparr>numInList := numInList l + 1\<rparr> in
      bindr (List_IsInList l x) (\<lambda>b. bindr (ASSERT b) (\<lambda>_. Inr l))))))"

definition List_Prepend :: "'a lst \<Rightarrow> 'a \<Rightarrow> 'a lst res" where
  "List_Prepend l x =
     (let (element, l) = new_element x l in
      bindr (List_IsInList l x) (\<lambda>b. bindr (ASSERT (\<not> b)) (\<lambda>_.
      bindr (if List_IsEmpty l then Inr (l\<lparr>l_first := Some element, l_last := Some element\<rparr>)
             else bindr (set_next l (Some element) (l_first l)) (\<lambda>l.
                  Inr (l\<lparr>l_first := Some element\<rparr>))) (\<lambda>l.
      let l = l\<lparr>numInList := numInList l + 1\<rparr> in
      bindr (List_IsInList l x) (\<lambda>b. bindr (ASSERT b) (\<lambda>_. Inr l))))))"

definition List_RemoveFront :: "'a lst \<Rightarrow> ('a \<times> 'a lst) res" where
  "List_RemoveFront l =
     (let element = l_first l in
      bindr (ASSERT (\<not> List_IsEmpty l)) (\<lambda>_.
      bindr (deref l (l_first l)) (\<lambda>e.
      let thing = le_item e in
      bindr (if l_first l = l_last l then Inr (l\<lparr>l_first := None, l_last := None\<rparr>)
             else bindr (deref l element) (\<lambda>e. Inr (l\<lparr>l_first := le_next e\<rparr>))) (\<lambda>l.
      let l = l\<lparr>numInList := numInList l - 1\<rparr> in
      bindr (delete_element l element) (\<lambda>l. Inr (thing, l))))))"

primrec List_Remove_loop ::
    "nat \<Rightarrow> 'a lst \<Rightarrow> 'a \<Rightarrow> nat option \<Rightarrow> nat option \<Rightarrow> 'a lst res" where
  "List_Remove_loop 0 l x prev ptr = (if ptr = None then Inl AssertionFailed else Inl Diverges)"
| "List_Remove_loop (Suc n) l x prev ptr =
     (if ptr = None then Inl AssertionFailed
      else bindr (deref l ptr) (\<lambda>e.
        if x = le_item e then
          bindr (set_next l prev (le_next e)) (\<lambda>l.
          bindr (deref l prev) (\<lambda>pe.
          let l = (if le_next pe = None then l\<lparr>l_last := prev\<rparr> else l) in
          bindr (delete_element l ptr) (\<lambda>l.
          Inr (l\<lparr>numInList := numInList l - 1\<rparr>))))
        else List_Remove_loop n l x ptr (le_next e)))"

definition List_Remove :: "'a lst \<Rightarrow> 'a \<Rightarrow> 'a lst res" where
  "List_Remove l x =
     bindr (List_IsInList l x) (\<lambda>b. bindr (ASSERT b) (\<lambda>_.
     bindr (deref l (l_first l)) (\<lambda>e.
     bindr (if x = le_item e then
              bindr (List_RemoveFront l) (\<lambda>(removed, l). bindr (ASSERT (x = removed)) (\<lambda>_. Inr l))
            else List_Remove_loop (length (l_heap l)) l x (l_first l) (le_next e)) (\<lambda>l.
     bindr (List_IsInList l x) (\<lambda>b. bindr (ASSERT (\<not> b)) (\<lambda>_. Inr l))))))"

text \<open>\<open>Apply\<close> runs a function with side effects on each item; the state it works on is \<open>s\<close>.\<close>

primrec List_Apply_loop ::
    "nat \<Rightarrow> 'a lst \<Rightarrow> ('a \<Rightarrow> 's \<Rightarrow> 's res) \<Rightarrow> nat option \<Rightarrow> 's \<Rightarrow> 's res" where
  "List_Apply_loop 0 l func ptr s = (if ptr = None then Inr s else Inl Diverges)"
| "List_Apply_loop (Suc n) l func ptr s =
     (if ptr = None then Inr s
      else bindr (deref l ptr) (\<lambda>e.
        bindr (func (le_item e) s) (List_Apply_loop n l func (le_next e))))"

definition List_Apply :: "'a lst \<Rightarrow> ('a \<Rightarrow> 's \<Rightarrow> 's res) \<Rightarrow> 's \<Rightarrow> 's res" where
  "List_Apply l func s = List_Apply_loop (length (l_heap l)) l func (l_first l) s"

function List_SanityCheck_loop :: "'a lst \<Rightarrow> int \<Rightarrow> nat option \<Rightarrow> int res" where
  "List_SanityCheck_loop l numFound ptr =
     (if ptr = l_last l then Inr numFound
      else if numFound + 1 \<le> numInList l then
        bindr (deref l ptr) (\<lambda>e. List_SanityCheck_loop l (numFound + 1) (le_next e))
      else Inl AssertionFailed)"
  by pat_completeness auto
termination
  by (relation "measure (\<lambda>(l, n, p). nat (numInList l - n))") auto

declare List_SanityCheck_loop.simps [simp del]

definition List_SanityCheck :: "'a lst \<Rightarrow> unit res" where
  "List_SanityCheck l =
     (if l_first l = None then ASSERT (numInList l = 0 \<and> l_last l = None)
      else if l_first l = l_last l then
        bindr (deref l (l_last l)) (\<lambda>e. ASSERT (numInList l = 1 \<and> le_next e = None))
      else
        bindr (List_SanityCheck_loop l 1 (l_first l)) (\<lambda>numFound.
        bindr (ASSERT (numFound = numInList l)) (\<lambda>_.
        bindr (deref l (l_last l)) (\<lambda>e. ASSERT (le_next e = None)))))"

definition List_SelfTest :: "'a lst \<Rightarrow> 'a list \<Rightarrow> 'a lst res" where
  "List_SelfTest l p =
     bindr (List_SanityCheck l) (\<lambda>_.
     bindr (ASSERT (List_IsEmpty l \<and> l_first l = None)) (\<lambda>_.
     bindr (foldM (\<lambda>x l. bindr (List_Append l x) (\<lambda>l.
        bindr (List_IsInList l x) (\<lambda>b. bindr (ASSERT b) (\<lambda>_.
        bindr (ASSERT (\<not> List_IsEmpty l)) (\<lambda>_. Inr l))))) p l) (\<lambda>l.
     bindr (List_SanityCheck l) (\<lambda>_.
     bindr (foldM (\<lambda>x l. bindr (List_Remove l x) (\<lambda>l.
        bindr (List_IsInList l x) (\<lambda>b. bindr (ASSERT (\<not> b)) (\<lambda>_. Inr l)))) p l) (\<lambda>l.
     bindr (ASSERT (List_IsEmpty l)) (\<lambda>_.
     bindr (List_SanityCheck l) (\<lambda>_. Inr l)))))))"

section \<open>\<open>SortedList<T>\<close>\<close>

primrec SortedList_Insert_loop ::
    "nat \<Rightarrow> ('a \<Rightarrow> 'a \<Rightarrow> int) \<Rightarrow> 'a lst \<Rightarrow> 'a \<Rightarrow> nat \<Rightarrow> nat option \<Rightarrow> 'a lst res" where
  "SortedList_Insert_loop 0 compare l x element ptr = Inl Diverges"
| "SortedList_Insert_loop (Suc n) compare l x element ptr =
     bindr (deref l ptr) (\<lambda>e.
     if le_next e \<noteq> None then
       bindr (deref l (le_next e)) (\<lambda>ne.
       if compare x (le_item ne) < 0 then
         bindr (set_next l (Some element) (le_next e)) (\<lambda>l.
         bindr (set_next l ptr (Some element)) (\<lambda>l.
         Inr (l\<lparr>numInList := numInList l + 1\<rparr>)))
       else SortedList_Insert_loop n compare l x element (le_next e))
     else
       bindr (set_next l (l_last l) (Some element)) (\<lambda>l.
       let l = l\<lparr>l_last := Some element, numInList := numInList l + 1\<rparr> in
       bindr (List_IsInList l x) (\<lambda>b. bindr (ASSERT b) (\<lambda>_. Inr l))))"

definition SortedList_Insert :: "('a \<Rightarrow> 'a \<Rightarrow> int) \<Rightarrow> 'a lst \<Rightarrow> 'a \<Rightarrow> 'a lst res" where
  "SortedList_Insert compare l x =
     (let (element, l) = new_element x l;
          finish = (\<lambda>l. let l = l\<lparr>numInList := numInList l + 1\<rparr> in
            bindr (List_IsInList l x) (\<lambda>b. bindr (ASSERT b) (\<lambda>_. Inr l))) in
      bindr (List_IsInList l x) (\<lambda>b. bindr (ASSERT (\<not> b)) (\<lambda>_.
      if List_IsEmpty l then finish (l\<lparr>l_first := Some element, l_last := Some element\<rparr>)
      else
        bindr (deref l (l_first l)) (\<lambda>f.
        if compare x (le_item f) < 0 then
          bindr (set_next l (Some element) (l_first l)) (\<lambda>l. finish (l\<lparr>l_first := Some element\<rparr>))
        else SortedList_Insert_loop (length (l_heap l)) compare l x element (l_first l)))))"

primrec SortedList_SanityCheck_loop ::
    "nat \<Rightarrow> ('a \<Rightarrow> 'a \<Rightarrow> int) \<Rightarrow> 'a lst \<Rightarrow> nat option \<Rightarrow> nat option \<Rightarrow> unit res" where
  "SortedList_SanityCheck_loop 0 compare l prev ptr =
     (if ptr = None then Inr () else Inl Diverges)"
| "SortedList_SanityCheck_loop (Suc n) compare l prev ptr =
     (if ptr = None then Inr ()
      else bindr (deref l prev) (\<lambda>pe. bindr (deref l ptr) (\<lambda>e.
        bindr (ASSERT (compare (le_item pe) (le_item e) \<le> 0)) (\<lambda>_.
        SortedList_SanityCheck_loop n compare l ptr (le_next e)))))"

definition SortedList_SanityCheck :: "('a \<Rightarrow> 'a \<Rightarrow> int) \<Rightarrow> 'a lst \<Rightarrow> unit res" where
  "SortedList_SanityCheck compare l =
     bindr (List_SanityCheck l) (\<lambda>_.
     if l_first l \<noteq> l_last l then
       bindr (deref l (l_first l)) (\<lambda>e.
       SortedList_SanityCheck_loop (length (l_heap l)) compare l (l_first l) (le_next e))
     else Inr ())"

definition SortedList_SelfTest :: "('a \<Rightarrow> 'a \<Rightarrow> int) \<Rightarrow> 'a lst \<Rightarrow> 'a list \<Rightarrow> 'a lst res" where
  "SortedList_SelfTest compare l p =
     bindr (List_SelfTest l p) (\<lambda>l.
     bindr (foldM (\<lambda>x l. bindr (SortedList_Insert compare l x) (\<lambda>l.
        bindr (List_IsInList l x) (\<lambda>b. bindr (ASSERT b) (\<lambda>_. Inr l)))) p l) (\<lambda>l.
     bindr (SortedList_SanityCheck compare l) (\<lambda>_.
     bindr (foldM (\<lambda>i (q, l). bindr (List_RemoveFront l) (\<lambda>(x, l).
        bindr (List_IsInList l x) (\<lambda>b. bindr (ASSERT (\<not> b)) (\<lambda>_. Inr (q @ [x], l))))) p ([], l))
       (\<lambda>(q, l).
     bindr (ASSERT (List_IsEmpty l)) (\<lambda>_.
     bindr (foldM (\<lambda>i _. ASSERT (compare (q ! i) (q ! (i + 1)) \<le> 0)) [0..<length p - 1] ()) (\<lambda>_.
     bindr (SortedList_SanityCheck compare l) (\<lambda>_. Inr l)))))))"

section \<open>\<open>ListIterator<T>\<close>\<close>

text \<open>An iterator is the pointer \<open>current\<close>; the list it steps through is passed along.\<close>

definition ListIterator_ListIterator :: "'a lst \<Rightarrow> nat option" where
  "ListIterator_ListIterator l = l_first l"

definition ListIterator_IsDone :: "nat option \<Rightarrow> bool" where
  "ListIterator_IsDone current \<longleftrightarrow> current = None"

definition ListIterator_Item :: "'a lst \<Rightarrow> nat option \<Rightarrow> 'a res" where
  "ListIterator_Item l current =
     bindr (ASSERT (\<not> ListIterator_IsDone current)) (\<lambda>_.
     bindr (deref l current) (\<lambda>e. Inr (le_item e)))"

definition ListIterator_Next :: "'a lst \<Rightarrow> nat option \<Rightarrow> nat option res" where
  "ListIterator_Next l current = bindr (deref l current) (\<lambda>e. Inr (le_next e))"


section \<open>The sequence a list stands for\<close>

text \<open>\<open>lpath h p cs q\<close>: the cells \<open>cs\<close>, each an address with its item, lead from \<open>p\<close> to \<open>q\<close>.\<close>

primrec lpath ::
    "'a list_element option list \<Rightarrow> nat option \<Rightarrow> (nat \<times> 'a) list \<Rightarrow> nat option \<Rightarrow> bool" where
  "lpath h p [] q = (p = q)"
| "lpath h p (c # cs) q =
     (p = Some (fst c) \<and> fst c < length h \<and>
      (\<exists>n. h ! fst c = Some \<lparr>le_item = snd c, le_next = n\<rparr> \<and> lpath h n cs q))"

definition lrep :: "'a lst \<Rightarrow> (nat \<times> 'a) list \<Rightarrow> bool" where
  "lrep l cs \<longleftrightarrow>
     lpath (l_heap l) (l_first l) cs None \<and> distinct (map fst cs) \<and> distinct (map snd cs) \<and>
     l_last l = (if cs = [] then None else Some (fst (last cs))) \<and>
     numInList l = int (length cs)"

definition list_rel :: "'a lst \<Rightarrow> 'a list \<Rightarrow> bool" where
  "list_rel l xs \<longleftrightarrow> (\<exists>cs. lrep l cs \<and> xs = map snd cs)"

lemma lpath_append: "lpath h p (as @ bs) q \<longleftrightarrow> (\<exists>r. lpath h p as r \<and> lpath h r bs q)"
  by (induction as arbitrary: p) auto

lemma lpath_update: "a \<notin> fst ` set cs \<Longrightarrow> lpath (h[a := c]) p cs q \<longleftrightarrow> lpath h p cs q"
  by (induction cs arbitrary: p) auto

lemma lpath_extend: "lpath h p cs q \<Longrightarrow> lpath (h @ e) p cs q"
  by (induction cs arbitrary: p) (auto simp: nth_append)

lemma lpath_addresses: "lpath h p cs q \<Longrightarrow> fst ` set cs \<subseteq> {..<length h}"
  by (induction cs arbitrary: p) auto

lemma lpath_None: "lpath h None cs q \<Longrightarrow> cs = []"
  by (cases cs) auto

lemma lpath_fuel:
  assumes "lpath h p cs q" "distinct (map fst cs)"
  shows "length cs \<le> length h"
proof -
  have "length cs = card (fst ` set cs)"
    using assms(2) by (metis distinct_card length_map set_map)
  also have "\<dots> \<le> card {..<length h}"
    using lpath_addresses [OF assms(1)] by (intro card_mono) auto
  finally show ?thesis by simp
qed

lemma deref_Some:
  "a < length (l_heap l) \<Longrightarrow> l_heap l ! a = Some e \<Longrightarrow> deref l (Some a) = Inr e"
  by (simp add: deref_def)

lemma set_next_Some:
  "a < length (l_heap l) \<Longrightarrow> l_heap l ! a = Some e \<Longrightarrow>
   set_next l (Some a) q = Inr (l\<lparr>l_heap := (l_heap l)[a := Some (e\<lparr>le_next := q\<rparr>)]\<rparr>)"
  by (simp add: set_next_def deref_Some)

lemma delete_element_Some:
  "a < length (l_heap l) \<Longrightarrow> l_heap l ! a = Some e \<Longrightarrow>
   delete_element l (Some a) = Inr (l\<lparr>l_heap := (l_heap l)[a := None]\<rparr>)"
  by (simp add: delete_element_def deref_Some)

lemmas cell_simps = deref_Some set_next_Some delete_element_Some

lemma List_IsInList_loop_path:
  "lpath (l_heap l) p cs None \<Longrightarrow> length cs \<le> n \<Longrightarrow>
   List_IsInList_loop n l x p = Inr (x \<in> snd ` set cs)"
proof (induction n arbitrary: p cs)
  case (Suc n)
  then show ?case by (cases cs) (auto simp: deref_Some)
qed simp

lemma List_IsInList_path:
  assumes "lpath (l_heap l) (l_first l) cs None" "distinct (map fst cs)"
  shows "List_IsInList l x = Inr (x \<in> snd ` set cs)"
  using assms lpath_fuel [OF assms] by (simp add: List_IsInList_def List_IsInList_loop_path)

lemma lrep_IsInList: "lrep l cs \<Longrightarrow> List_IsInList l x = Inr (x \<in> snd ` set cs)"
  by (simp add: lrep_def List_IsInList_path)

lemma list_rel_IsInList: "list_rel l xs \<Longrightarrow> List_IsInList l x = Inr (x \<in> set xs)"
  by (auto simp: list_rel_def lrep_IsInList)

lemma list_rel_IsEmpty: "list_rel l xs \<Longrightarrow> List_IsEmpty l \<longleftrightarrow> xs = []"
  by (auto simp: list_rel_def lrep_def List_IsEmpty_def)

lemma list_rel_NumInList: "list_rel l xs \<Longrightarrow> List_NumInList l = int (length xs)"
  by (auto simp: list_rel_def lrep_def List_NumInList_def)

lemma list_rel_List: "list_rel List_List []"
  by (simp add: list_rel_def lrep_def List_List_def)

lemma list_rel_distinct: "list_rel l xs \<Longrightarrow> distinct xs"
  by (auto simp: list_rel_def lrep_def)

lemma list_rel_Front:
  "list_rel l xs \<Longrightarrow>
   List_Front l = (case xs of [] \<Rightarrow> Inl NullDereference | x # xs \<Rightarrow> Inr x)"
  by (auto simp: list_rel_def lrep_def List_Front_def deref_def split: list.split)

text \<open>Allocating a cell leaves the list alone; so each insertion starts from the list as it was.\<close>

lemma lrep_new_element:
  assumes "lrep l cs" "new_element x l = (a, l')"
  shows "lrep l' cs" "a = length (l_heap l)" "a \<notin> fst ` set cs" "a < length (l_heap l')"
    "l_heap l' ! a = Some \<lparr>le_item = x, le_next = None\<rparr>"
  using assms lpath_addresses [of "l_heap l" "l_first l" cs None]
  by (auto simp: new_element_def lrep_def lpath_extend)

text \<open>Linking a fresh cell \<open>a\<close> in: at the front, behind the last cell, or between two cells.\<close>

lemma lrep_first_cell:
  assumes "lrep l []" "a < length (l_heap l)" "l_heap l ! a = Some \<lparr>le_item = x, le_next = None\<rparr>"
  shows "lrep (l\<lparr>l_first := Some a, l_last := Some a, numInList := numInList l + 1\<rparr>) [(a, x)]"
  using assms by (simp add: lrep_def)

lemma lrep_link_front:
  assumes "lrep l cs" "cs \<noteq> []" "a \<notin> fst ` set cs" "x \<notin> snd ` set cs"
    "a < length (l_heap l)" "l_heap l ! a = Some \<lparr>le_item = x, le_next = None\<rparr>"
  shows "set_next l (Some a) (l_first l) =
      Inr (l\<lparr>l_heap := (l_heap l)[a := Some \<lparr>le_item = x, le_next = l_first l\<rparr>]\<rparr>)"
    and "lrep (l\<lparr>l_heap := (l_heap l)[a := Some \<lparr>le_item = x, le_next = l_first l\<rparr>],
                 l_first := Some a, numInList := numInList l + 1\<rparr>) ((a, x) # cs)"
  using assms by (auto simp: lrep_def lpath_update cell_simps)

lemma lrep_split_last:
  assumes "lrep l cs" "cs \<noteq> []"
  obtains ds b y where "cs = ds @ [(b, y)]" "l_last l = Some b" "b < length (l_heap l)"
    "l_heap l ! b = Some \<lparr>le_item = y, le_next = None\<rparr>"
    "lpath (l_heap l) (l_first l) ds (Some b)" "b \<notin> fst ` set ds"
proof -
  obtain ds b y where cs: "cs = ds @ [(b, y)]"
    using assms(2) by (metis prod.collapse rev_exhaust)
  with assms(1) that show thesis by (auto simp: lrep_def lpath_append)
qed

lemma lrep_link_last:
  assumes "lrep l cs" "cs \<noteq> []" "a \<notin> fst ` set cs" "x \<notin> snd ` set cs"
    "a < length (l_heap l)" "l_heap l ! a = Some \<lparr>le_item = x, le_next = None\<rparr>"
  obtains l' where "set_next l (l_last l) (Some a) = Inr l'" "l_first l' = l_first l"
    "numInList l' = numInList l" "length (l_heap l') = length (l_heap l)"
    "lrep (l'\<lparr>l_last := Some a, numInList := numInList l' + 1\<rparr>) (cs @ [(a, x)])"
proof -
  obtain ds b y where cs: "cs = ds @ [(b, y)]" and b: "l_last l = Some b" "b < length (l_heap l)"
      "l_heap l ! b = Some \<lparr>le_item = y, le_next = None\<rparr>"
      "lpath (l_heap l) (l_first l) ds (Some b)" "b \<notin> fst ` set ds"
    using lrep_split_last [OF assms(1,2)] by blast
  show thesis
  proof (rule that)
    show "set_next l (l_last l) (Some a) =
        Inr (l\<lparr>l_heap := (l_heap l)[b := Some \<lparr>le_item = y, le_next = Some a\<rparr>]\<rparr>)"
      using b by (simp add: cell_simps)
    show "lrep (l\<lparr>l_heap := (l_heap l)[b := Some \<lparr>le_item = y, le_next = Some a\<rparr>]\<rparr>
        \<lparr>l_last := Some a, numInList := numInList
          (l\<lparr>l_heap := (l_heap l)[b := Some \<lparr>le_item = y, le_next = Some a\<rparr>]\<rparr>) + 1\<rparr>)
        (cs @ [(a, x)])"
      using assms b by (auto simp: lrep_def lpath_append lpath_update cs)
  qed simp_all
qed


section \<open>The operations on sequences, and their refinement\<close>

definition seq_append :: "'a list \<Rightarrow> 'a \<Rightarrow> 'a list res" where
  "seq_append xs x = (if x \<in> set xs then Inl AssertionFailed else Inr (xs @ [x]))"

definition seq_prepend :: "'a list \<Rightarrow> 'a \<Rightarrow> 'a list res" where
  "seq_prepend xs x = (if x \<in> set xs then Inl AssertionFailed else Inr (x # xs))"

definition seq_remove_front :: "'a list \<Rightarrow> ('a \<times> 'a list) res" where
  "seq_remove_front xs = (case xs of [] \<Rightarrow> Inl AssertionFailed | x # xs \<Rightarrow> Inr (x, xs))"

definition seq_remove :: "'a list \<Rightarrow> 'a \<Rightarrow> 'a list res" where
  "seq_remove xs x = (if x \<in> set xs then Inr (remove1 x xs) else Inl AssertionFailed)"

definition seq_insert :: "('a \<Rightarrow> 'a \<Rightarrow> int) \<Rightarrow> 'a list \<Rightarrow> 'a \<Rightarrow> 'a list res" where
  "seq_insert compare xs x =
     (if x \<in> set xs then Inl AssertionFailed
      else Inr (takeWhile (\<lambda>y. \<not> compare x y < 0) xs @ x #
                dropWhile (\<lambda>y. \<not> compare x y < 0) xs))"

lemma list_relI: "lrep l cs \<Longrightarrow> xs = map snd cs \<Longrightarrow> list_rel l xs"
  by (auto simp: list_rel_def)

lemma lrep_IsEmpty: "lrep l cs \<Longrightarrow> List_IsEmpty l \<longleftrightarrow> cs = []"
  by (auto simp: lrep_def List_IsEmpty_def)

lemma list_rel_Append:
  assumes "list_rel l xs"
  shows "refines list_rel (List_Append l x) (seq_append xs x)"
proof -
  obtain cs where cs: "lrep l cs" "xs = map snd cs" using assms by (auto simp: list_rel_def)
  obtain a l' where new: "new_element x l = (a, l')" by fastforce
  note n = lrep_new_element [OF cs(1) new]
  show ?thesis
  proof (cases "x \<in> snd ` set cs")
    case True
    then show ?thesis
      using n(1) cs by (simp add: List_Append_def new seq_append_def lrep_IsInList)
  next
    case absent: False
    show ?thesis
    proof (cases "cs = []")
      case True
      with n have "lrep l' []" by simp
      from lrep_first_cell [OF this n(4,5)] lrep_IsInList [OF lrep_first_cell [OF this n(4,5)]]
        lrep_IsEmpty [OF this] lrep_IsInList [OF this]
      show ?thesis
        using True cs by (auto simp: List_Append_def new seq_append_def Let_def intro: list_relI)
    next
      case False
      obtain l'' where l'': "set_next l' (l_last l') (Some a) = Inr l''"
          "lrep (l''\<lparr>l_last := Some a, numInList := numInList l'' + 1\<rparr>) (cs @ [(a, x)])"
        using lrep_link_last [OF n(1) False n(3) absent n(4,5)] by blast
      from False absent l''(1) lrep_IsInList [OF n(1)] lrep_IsEmpty [OF n(1)]
        lrep_IsInList [OF l''(2)] l''(2) cs
      show ?thesis
        by (auto simp: List_Append_def new seq_append_def Let_def intro: list_relI)
    qed
  qed
qed

lemma list_rel_Prepend:
  assumes "list_rel l xs"
  shows "refines list_rel (List_Prepend l x) (seq_prepend xs x)"
proof -
  obtain cs where cs: "lrep l cs" "xs = map snd cs" using assms by (auto simp: list_rel_def)
  obtain a l' where new: "new_element x l = (a, l')" by fastforce
  note n = lrep_new_element [OF cs(1) new]
  show ?thesis
  proof (cases "x \<in> snd ` set cs")
    case True
    then show ?thesis
      using n(1) cs by (simp add: List_Prepend_def new seq_prepend_def lrep_IsInList)
  next
    case absent: False
    show ?thesis
    proof (cases "cs = []")
      case True
      with n have "lrep l' []" by simp
      from lrep_first_cell [OF this n(4,5)] lrep_IsInList [OF lrep_first_cell [OF this n(4,5)]]
        lrep_IsEmpty [OF this] lrep_IsInList [OF this]
      show ?thesis
        using True cs by (auto simp: List_Prepend_def new seq_prepend_def Let_def intro: list_relI)
    next
      case False
      note f = lrep_link_front [OF n(1) False n(3) absent n(4,5)]
      from False absent f lrep_IsInList [OF n(1)] lrep_IsEmpty [OF n(1)] lrep_IsInList [OF f(2)] cs
      show ?thesis
        by (auto simp: List_Prepend_def new seq_prepend_def Let_def intro: list_relI)
    qed
  qed
qed

lemma lrep_RemoveFront:
  assumes "lrep l (c # cs)"
  obtains l' where "List_RemoveFront l = Inr (snd c, l')" "lrep l' cs"
proof (cases cs)
  case Nil
  with assms that show thesis
    by (auto simp: lrep_def List_RemoveFront_def List_IsEmpty_def cell_simps)
next
  case (Cons d ds)
  have "fst (last cs) \<in> fst ` set cs" using Cons by auto
  with assms Cons have ne: "fst c \<noteq> fst (last cs)" by (auto simp: lrep_def)
  obtain e where e: "fst c < length (l_heap l)" "l_first l = Some (fst c)"
      "l_last l = Some (fst (last cs))" "numInList l = int (length cs) + 1"
      "l_heap l ! fst c = Some \<lparr>le_item = snd c, le_next = e\<rparr>" "lpath (l_heap l) e cs None"
    using assms Cons by (auto simp: lrep_def)
  let ?l = "l\<lparr>l_first := e, numInList := numInList l - 1, l_heap := (l_heap l)[fst c := None]\<rparr>"
  show thesis
  proof (rule that)
    show "List_RemoveFront l = Inr (snd c, ?l)"
      using e ne by (simp add: List_RemoveFront_def List_IsEmpty_def cell_simps)
    show "lrep ?l cs"
      using e Cons assms by (simp add: lrep_def lpath_update)
  qed
qed

lemma list_rel_RemoveFront:
  assumes "list_rel l xs"
  shows "refines (rel_prod (=) list_rel) (List_RemoveFront l) (seq_remove_front xs)"
proof -
  obtain cs where cs: "lrep l cs" "xs = map snd cs" using assms by (auto simp: list_rel_def)
  show ?thesis
  proof (cases cs)
    case Nil
    with cs lrep_IsEmpty [OF cs(1)] show ?thesis
      by (simp add: List_RemoveFront_def seq_remove_front_def Let_def)
  next
    case (Cons c ds)
    with cs(1) obtain l' where "List_RemoveFront l = Inr (snd c, l')" "lrep l' ds"
      by (metis lrep_RemoveFront)
    with cs(2) Cons show ?thesis by (simp add: seq_remove_front_def list_relI)
  qed
qed


text \<open>Taking a cell out from behind its predecessor.\<close>

lemma lrep_unlink:
  assumes "lrep l (ds @ (b, y) # (c, x) # es)"
  obtains e l1 l2 l3 pe where
    "l_heap l ! c = Some \<lparr>le_item = x, le_next = e\<rparr>" "c < length (l_heap l)"
    "set_next l (Some b) e = Inr l1" "deref l1 (Some b) = Inr pe" "le_next pe = e"
    "l2 = (if e = None then l1\<lparr>l_last := Some b\<rparr> else l1)"
    "delete_element l2 (Some c) = Inr l3"
    "lrep (l3\<lparr>numInList := numInList l3 - 1\<rparr>) (ds @ (b, y) # es)"
proof -
  obtain e where e: "lpath (l_heap l) (l_first l) ds (Some b)" "b < length (l_heap l)"
      "l_heap l ! b = Some \<lparr>le_item = y, le_next = Some c\<rparr>" "c < length (l_heap l)"
      "l_heap l ! c = Some \<lparr>le_item = x, le_next = e\<rparr>" "lpath (l_heap l) e es None"
    using assms by (auto simp: lrep_def lpath_append)
  have d: "c \<noteq> b" "b \<notin> fst ` set ds" "b \<notin> fst ` set es" "c \<notin> fst ` set ds" "c \<notin> fst ` set es"
    using assms by (auto simp: lrep_def)
  have last: "l_last l = Some (fst (last ((c, x) # es)))" using assms by (simp add: lrep_def)
  have es: "es = [] \<longleftrightarrow> e = None" using e(6) by (cases es) auto
  let ?h = "(l_heap l)[b := Some \<lparr>le_item = y, le_next = e\<rparr>]"
  let ?l1 = "l\<lparr>l_heap := ?h\<rparr>"
  let ?l2 = "if e = None then ?l1\<lparr>l_last := Some b\<rparr> else ?l1"
  let ?l3 = "?l2\<lparr>l_heap := ?h[c := None]\<rparr>"
  show thesis
  proof (rule that)
    show "l_heap l ! c = Some \<lparr>le_item = x, le_next = e\<rparr>" "c < length (l_heap l)"
      "set_next l (Some b) e = Inr ?l1" "deref ?l1 (Some b) = Inr \<lparr>le_item = y, le_next = e\<rparr>"
      using e d by (simp_all add: cell_simps)
    show "delete_element ?l2 (Some c) = Inr ?l3" using e d by (simp add: cell_simps)
    have "lpath (?h[c := None]) (l_first l) (ds @ (b, y) # es) None"
      using e d by (auto simp: lpath_append lpath_update)
    then show "lrep (?l3\<lparr>numInList := numInList ?l3 - 1\<rparr>) (ds @ (b, y) # es)"
      using assms es last by (auto simp: lrep_def)
  qed simp_all
qed

lemma List_Remove_loop_path:
  assumes "lrep l (ds @ (b, y) # es)" "x \<in> snd ` set es" "length es \<le> n"
  shows "\<exists>l' cs. List_Remove_loop n l x (Some b) (le_next (the (l_heap l ! b))) = Inr l' \<and>
    lrep l' cs \<and> map snd cs = map snd ds @ y # remove1 x (map snd es)"
  using assms
proof (induction n arbitrary: ds b y es)
  case (Suc n)
  then obtain c z fs where es: "es = (c, z) # fs" by (cases es) auto
  have nx: "le_next (the (l_heap l ! b)) = Some c"
    using Suc.prems(1) by (auto simp: lrep_def lpath_append es)
  obtain e where e: "c < length (l_heap l)" "l_heap l ! c = Some \<lparr>le_item = z, le_next = e\<rparr>"
    using Suc.prems(1) by (auto simp: lrep_def lpath_append es)
  show ?case
  proof (cases "x = z")
    case True
    obtain e l1 l2 l3 pe where u:
        "l_heap l ! c = Some \<lparr>le_item = x, le_next = e\<rparr>" "c < length (l_heap l)"
        "set_next l (Some b) e = Inr l1" "deref l1 (Some b) = Inr pe" "le_next pe = e"
        "l2 = (if e = None then l1\<lparr>l_last := Some b\<rparr> else l1)"
        "delete_element l2 (Some c) = Inr l3"
        "lrep (l3\<lparr>numInList := numInList l3 - 1\<rparr>) (ds @ (b, y) # fs)"
      using Suc.prems(1) True unfolding es by (blast elim: lrep_unlink)
    have "List_Remove_loop (Suc n) l x (Some b) (Some c) = Inr (l3\<lparr>numInList := numInList l3 - 1\<rparr>)"
      using u(1-5,7) unfolding u(6) by (simp add: deref_Some Let_def)
    moreover have "map snd (ds @ (b, y) # fs) = map snd ds @ y # remove1 x (map snd es)"
      using True by (simp add: es)
    ultimately show ?thesis using u(8) nx by (metis option.sel)
  next
    case False
    have "lrep l ((ds @ [(b, y)]) @ (c, z) # fs)" "x \<in> snd ` set fs" "length fs \<le> n"
      using Suc.prems False by (auto simp: es)
    from Suc.IH [OF this] e nx False show ?thesis by (simp add: es deref_Some)
  qed
qed simp

lemma list_rel_Remove:
  assumes "list_rel l xs"
  shows "refines list_rel (List_Remove l x) (seq_remove xs x)"
proof -
  obtain cs where cs: "lrep l cs" "xs = map snd cs" using assms by (auto simp: list_rel_def)
  show ?thesis
  proof (cases "x \<in> set xs")
    case False
    then show ?thesis using list_rel_IsInList [OF assms] by (simp add: List_Remove_def seq_remove_def)
  next
    case True
    then obtain c ds where c: "cs = c # ds" using cs by (cases cs) auto
    then obtain e where e: "l_first l = Some (fst c)" "fst c < length (l_heap l)"
        "l_heap l ! fst c = Some \<lparr>le_item = snd c, le_next = e\<rparr>"
      using cs(1) by (auto simp: lrep_def)
    have "\<exists>l' es. (if x = snd c
        then bindr (List_RemoveFront l) (\<lambda>(removed, l). bindr (ASSERT (x = removed)) (\<lambda>_. Inr l))
        else List_Remove_loop (length (l_heap l)) l x (l_first l) e) = Inr l' \<and>
        lrep l' es \<and> map snd es = remove1 x xs"
    proof (cases "x = snd c")
      case True
      obtain l' where "List_RemoveFront l = Inr (snd c, l')" "lrep l' ds"
        using cs(1) unfolding c by (metis lrep_RemoveFront)
      with True cs(2) c show ?thesis by auto
    next
      case False
      have "length cs \<le> length (l_heap l)"
        using cs(1) by (auto simp: lrep_def intro: lpath_fuel)
      with List_Remove_loop_path [of l "[]" "fst c" "snd c" ds x "length (l_heap l)"] False cs c e True
      show ?thesis by auto
    qed
    then obtain l' es where l': "(if x = snd c
        then bindr (List_RemoveFront l) (\<lambda>(removed, l). bindr (ASSERT (x = removed)) (\<lambda>_. Inr l))
        else List_Remove_loop (length (l_heap l)) l x (l_first l) e) = Inr l'"
        "lrep l' es" "map snd es = remove1 x xs" by blast
    have "x \<notin> set (map snd es)" using list_rel_distinct [OF assms] l'(3) by (simp add: set_remove1_eq)
    then have "List_IsInList l' x = Inr False" using lrep_IsInList [OF l'(2), of x] by simp
    with l'(1) True e list_rel_IsInList [OF assms, of x] have "List_Remove l x = Inr l'"
      by (cases "x = snd c") (auto simp: List_Remove_def deref_Some)
    with l'(2,3) True show ?thesis by (simp add: seq_remove_def list_relI)
  qed
qed

text \<open>Linking a fresh cell in between two cells.\<close>

lemma lrep_link_between:
  assumes "lrep l (ds @ (b, y) # (c, z) # es)" "a < length (l_heap l)"
    "l_heap l ! a = Some \<lparr>le_item = x, le_next = None\<rparr>"
    "a \<notin> fst ` set (ds @ (b, y) # (c, z) # es)" "x \<notin> snd ` set (ds @ (b, y) # (c, z) # es)"
  obtains l1 l2 where "set_next l (Some a) (Some c) = Inr l1" "set_next l1 (Some b) (Some a) = Inr l2"
    "lrep (l2\<lparr>numInList := numInList l2 + 1\<rparr>) (ds @ (b, y) # (a, x) # (c, z) # es)"
proof -
  let ?h1 = "(l_heap l)[a := Some \<lparr>le_item = x, le_next = Some c\<rparr>]"
  let ?h2 = "?h1[b := Some \<lparr>le_item = y, le_next = Some a\<rparr>]"
  have b: "b < length (l_heap l)" "l_heap l ! b = Some \<lparr>le_item = y, le_next = Some c\<rparr>"
    "lpath (l_heap l) (l_first l) ds (Some b)" "lpath (l_heap l) (Some c) ((c, z) # es) None"
    using assms(1) by (auto simp: lrep_def lpath_append)
  have d: "a \<noteq> b" "b \<noteq> c" "a \<noteq> c" "a \<notin> fst ` set ds" "b \<notin> fst ` set ds"
    "a \<notin> fst ` set ((c, z) # es)" "b \<notin> fst ` set ((c, z) # es)"
    using assms(1,4) by (auto simp: lrep_def)
  show thesis
  proof (rule that)
    show "set_next l (Some a) (Some c) = Inr (l\<lparr>l_heap := ?h1\<rparr>)"
      using assms(2,3) by (simp add: cell_simps)
    show "set_next (l\<lparr>l_heap := ?h1\<rparr>) (Some b) (Some a) = Inr (l\<lparr>l_heap := ?h2\<rparr>)"
      using b d by (simp add: cell_simps)
    have "lpath ?h2 (Some c) ((c, z) # es) None" "lpath ?h2 (l_first l) ds (Some b)"
      using b(3,4) d by (simp_all only: lpath_update not_False_eq_True)
    then have "lpath ?h2 (l_first l) (ds @ (b, y) # (a, x) # (c, z) # es) None"
      using b d assms(2) by (auto simp: lpath_append)
    then show "lrep (l\<lparr>l_heap := ?h2\<rparr>\<lparr>numInList := numInList (l\<lparr>l_heap := ?h2\<rparr>) + 1\<rparr>)
        (ds @ (b, y) # (a, x) # (c, z) # es)"
      using assms by (auto simp: lrep_def)
  qed
qed

lemma SortedList_Insert_loop_path:
  assumes "lrep l (ds @ (b, y) # es)" "a < length (l_heap l)"
    "l_heap l ! a = Some \<lparr>le_item = x, le_next = None\<rparr>"
    "a \<notin> fst ` set (ds @ (b, y) # es)" "x \<notin> snd ` set (ds @ (b, y) # es)" "length es < n"
  shows "\<exists>l' cs. SortedList_Insert_loop n compare l x a (Some b) = Inr l' \<and> lrep l' cs \<and>
    map snd cs = map snd ds @ y # takeWhile (\<lambda>y. \<not> compare x y < 0) (map snd es) @ x #
      dropWhile (\<lambda>y. \<not> compare x y < 0) (map snd es)"
  using assms
proof (induction n arbitrary: ds b y es)
  case (Suc n)
  show ?case
  proof (cases es)
    case Nil
    have b: "b < length (l_heap l)" "l_heap l ! b = Some \<lparr>le_item = y, le_next = None\<rparr>"
      using Suc.prems(1) Nil by (auto simp: lrep_def lpath_append)
    obtain l' where l': "set_next l (l_last l) (Some a) = Inr l'"
      "lrep (l'\<lparr>l_last := Some a, numInList := numInList l' + 1\<rparr>) ((ds @ (b, y) # es) @ [(a, x)])"
      using lrep_link_last [OF Suc.prems(1) _ Suc.prems(4,5,2,3)] by blast
    with b lrep_IsInList [OF l'(2), of x] Nil show ?thesis
      by (intro exI [of _ "l'\<lparr>l_last := Some a, numInList := numInList l' + 1\<rparr>"]
            exI [of _ "(ds @ (b, y) # es) @ [(a, x)]"])
        (simp add: deref_Some Let_def)
  next
    case (Cons c' fs)
    obtain c z where es: "es = (c, z) # fs" using Cons by (cases c') auto
    have b: "b < length (l_heap l)" "l_heap l ! b = Some \<lparr>le_item = y, le_next = Some c\<rparr>"
      using Suc.prems(1) es by (auto simp: lrep_def lpath_append)
    obtain e where c: "c < length (l_heap l)" "l_heap l ! c = Some \<lparr>le_item = z, le_next = e\<rparr>"
      using Suc.prems(1) es by (auto simp: lrep_def lpath_append)
    show ?thesis
    proof (cases "compare x z < 0")
      case True
      obtain l1 l2 where l2: "set_next l (Some a) (Some c) = Inr l1"
        "set_next l1 (Some b) (Some a) = Inr l2"
        "lrep (l2\<lparr>numInList := numInList l2 + 1\<rparr>) (ds @ (b, y) # (a, x) # (c, z) # fs)"
        using lrep_link_between [OF Suc.prems(1)[unfolded es] Suc.prems(2,3,4,5)[unfolded es]]
        by blast
      with b c True show ?thesis
        by (intro exI [of _ "l2\<lparr>numInList := numInList l2 + 1\<rparr>"]
              exI [of _ "ds @ (b, y) # (a, x) # (c, z) # fs"])
          (simp add: deref_Some es)
    next
      case False
      have "lrep l ((ds @ [(b, y)]) @ (c, z) # fs)" "a \<notin> fst ` set ((ds @ [(b, y)]) @ (c, z) # fs)"
        "x \<notin> snd ` set ((ds @ [(b, y)]) @ (c, z) # fs)" "length fs < n"
        using Suc.prems by (auto simp: es)
      from Suc.IH [OF this(1) Suc.prems(2,3) this(2-4)] b c False show ?thesis
        by (simp add: es deref_Some)
    qed
  qed
qed simp

lemma list_rel_Insert:
  assumes "list_rel l xs"
  shows "refines list_rel (SortedList_Insert compare l x) (seq_insert compare xs x)"
proof -
  obtain cs where cs: "lrep l cs" "xs = map snd cs" using assms by (auto simp: list_rel_def)
  obtain a l' where new: "new_element x l = (a, l')" by fastforce
  note n = lrep_new_element [OF cs(1) new]
  note i = lrep_IsInList [OF n(1)]
  show ?thesis
  proof (cases "x \<in> snd ` set cs")
    case True
    then show ?thesis
      using i cs by (simp add: SortedList_Insert_def new seq_insert_def Let_def)
  next
    case absent: False
    show ?thesis
    proof (cases cs)
      case Nil
      with n have e: "lrep l' []" by simp
      from lrep_first_cell [OF e n(4,5)] lrep_IsInList [OF lrep_first_cell [OF e n(4,5)], of x]
        lrep_IsEmpty [OF e] lrep_IsInList [OF e] Nil cs
      show ?thesis
        by (auto simp: SortedList_Insert_def new seq_insert_def Let_def intro: list_relI)
    next
      case (Cons c ds)
      then obtain e where c: "l_first l' = Some (fst c)" "fst c < length (l_heap l')"
          "l_heap l' ! fst c = Some \<lparr>le_item = snd c, le_next = e\<rparr>"
        using n(1) by (auto simp: lrep_def)
      have ne: "\<not> List_IsEmpty l'" using lrep_IsEmpty [OF n(1)] Cons by simp
      show ?thesis
      proof (cases "compare x (snd c) < 0")
        case True
        note f = lrep_link_front [OF n(1) _ n(3) absent n(4,5)]
        have "deref l' (l_first l') = Inr \<lparr>le_item = snd c, le_next = e\<rparr>"
          using c by (simp add: deref_Some)
        with Cons True absent f ne i lrep_IsInList [OF f(2), of x] cs show ?thesis
          by (auto simp: SortedList_Insert_def new seq_insert_def Let_def intro: list_relI)
      next
        case False
        have "length cs \<le> length (l_heap l')"
          using n(1) by (auto simp: lrep_def intro: lpath_fuel)
        with SortedList_Insert_loop_path [of l' "[]" "fst c" "snd c" ds a x "length (l_heap l')" compare]
          n(1,3-5) absent Cons
        obtain l'' es where l'': "SortedList_Insert_loop (length (l_heap l')) compare l' x a (Some (fst c)) = Inr l''"
          "lrep l'' es" "map snd es = snd c # takeWhile (\<lambda>y. \<not> compare x y < 0) (map snd ds) @ x #
             dropWhile (\<lambda>y. \<not> compare x y < 0) (map snd ds)"
          by auto
        have "SortedList_Insert compare l x = Inr l''"
          using absent ne i [of x] c False l''(1)
          by (simp add: SortedList_Insert_def new Let_def deref_Some)
        with l''(2,3) absent cs False Cons show ?thesis
          by (simp add: seq_insert_def list_relI)
      qed
    qed
  qed
qed

section \<open>Walking the whole list\<close>

lemma List_Apply_loop_path:
  "lpath (l_heap l) p cs None \<Longrightarrow> length cs \<le> n \<Longrightarrow>
   List_Apply_loop n l func p s = foldM func (map snd cs) s"
proof (induction n arbitrary: p cs s)
  case (Suc n)
  then show ?case by (cases cs) (auto simp: deref_Some intro!: bindr_cong)
qed simp

lemma list_rel_Apply: "list_rel l xs \<Longrightarrow> List_Apply l func s = foldM func xs s"
  by (auto simp: list_rel_def lrep_def List_Apply_def intro!: List_Apply_loop_path lpath_fuel)

lemma List_SanityCheck_loop_complete:
  assumes "lpath (l_heap l) p cs (l_last l)" "l_last l \<notin> Some ` fst ` set cs"
    "k + int (length cs) \<le> numInList l"
  shows "List_SanityCheck_loop l k p = Inr (k + int (length cs))"
  using assms
proof (induction cs arbitrary: p k)
  case Nil
  then show ?case by (simp add: List_SanityCheck_loop.simps)
next
  case (Cons c cs)
  obtain e where e: "p = Some (fst c)" "fst c < length (l_heap l)"
      "l_heap l ! fst c = Some \<lparr>le_item = snd c, le_next = e\<rparr>" "lpath (l_heap l) e cs (l_last l)"
    using Cons.prems(1) by auto
  with Cons.prems Cons.IH [of e "k + 1"] show ?case
    by (subst List_SanityCheck_loop.simps) (auto simp: deref_Some)
qed

lemma List_SanityCheck_loop_sound:
  "List_SanityCheck_loop l k p = Inr n \<Longrightarrow>
   \<exists>cs. lpath (l_heap l) p cs (l_last l) \<and> n = k + int (length cs)"
proof (induction l k p rule: List_SanityCheck_loop.induct)
  case (1 l k p)
  show ?case
  proof (cases "p = l_last l")
    case True
    then show ?thesis using "1.prems" by (intro exI [of _ "[]"]) (simp add: List_SanityCheck_loop.simps)
  next
    case False
    then obtain e where e: "k + 1 \<le> numInList l" "deref l p = Inr e"
        "List_SanityCheck_loop l (k + 1) (le_next e) = Inr n"
      using "1.prems" by (subst (asm) List_SanityCheck_loop.simps) (auto split: if_splits)
    from "1.IH" [OF False this] obtain cs where
      "lpath (l_heap l) (le_next e) cs (l_last l)" "n = k + 1 + int (length cs)" by blast
    with e(2) show ?thesis
      by (cases e) (auto simp: deref_def intro!: exI [of _ "(the p, le_item e) # cs"]
          split: option.splits if_splits)
  qed
qed

lemma lrep_SanityCheck:
  assumes "lrep l cs"
  shows "List_SanityCheck l = Inr ()"
proof (cases "cs = []")
  case True
  with assms show ?thesis by (simp add: lrep_def List_SanityCheck_def)
next
  case False
  obtain ds b y where d: "cs = ds @ [(b, y)]" "l_last l = Some b" "b < length (l_heap l)"
      "l_heap l ! b = Some \<lparr>le_item = y, le_next = None\<rparr>"
      "lpath (l_heap l) (l_first l) ds (Some b)" "b \<notin> fst ` set ds"
    using lrep_split_last [OF assms False] by blast
  have n: "numInList l = int (length ds) + 1" using assms d(1) by (simp add: lrep_def)
  show ?thesis
  proof (cases ds)
    case Nil
    with d n show ?thesis by (simp add: List_SanityCheck_def deref_Some)
  next
    case (Cons c es)
    with d have "l_first l = Some (fst c)" "fst c \<noteq> b" by auto
    moreover have "List_SanityCheck_loop l 1 (l_first l) = Inr (numInList l)"
      using d n by (subst List_SanityCheck_loop_complete [where cs = ds]) auto
    ultimately show ?thesis using d by (simp add: List_SanityCheck_def deref_Some)
  qed
qed

text \<open>Conversely a list that passes is a chain of \<open>numInList\<close> cells that ends in \<open>last\<close>.\<close>

lemma List_SanityCheck_chain:
  assumes "List_SanityCheck l = Inr ()"
  shows "\<exists>cs. lpath (l_heap l) (l_first l) cs None \<and> numInList l = int (length cs) \<and>
    l_last l = (if cs = [] then None else Some (fst (last cs)))"
proof (cases "l_first l = None")
  case True
  with assms show ?thesis by (intro exI [of _ "[]"]) (simp add: List_SanityCheck_def)
next
  case False
  have "\<exists>e ds. deref l (l_last l) = Inr e \<and> le_next e = None \<and>
      lpath (l_heap l) (l_first l) ds (l_last l) \<and> numInList l = int (length ds) + 1"
  proof (cases "l_first l = l_last l")
    case True
    with assms False show ?thesis
      by (cases "deref l (l_last l)") (auto simp: List_SanityCheck_def intro!: exI [of _ "[]"])
  next
    case ne: False
    with assms False obtain n e where
      "List_SanityCheck_loop l 1 (l_first l) = Inr n" "n = numInList l"
      "deref l (l_last l) = Inr e" "le_next e = None"
      by (auto simp: List_SanityCheck_def bindr_Inr_iff)
    with List_SanityCheck_loop_sound [of l 1 "l_first l" n] show ?thesis by auto
  qed
  then obtain e ds where e: "deref l (l_last l) = Inr e" "le_next e = None"
      "lpath (l_heap l) (l_first l) ds (l_last l)" "numInList l = int (length ds) + 1" by blast
  then show ?thesis
    by (intro exI [of _ "ds @ [(the (l_last l), le_item e)]"])
      (auto simp: lpath_append deref_def split: option.splits if_splits)
qed

lemma SortedList_SanityCheck_loop_path:
  assumes "lpath (l_heap l) (Some b) ((b, y) # cs) None" "length cs \<le> n"
  shows "SortedList_SanityCheck_loop n compare l (Some b) (le_next (the (l_heap l ! b))) =
    ASSERT (successively (\<lambda>x y. compare x y \<le> 0) (y # map snd cs))"
  using assms
proof (induction n arbitrary: b y cs)
  case (Suc n)
  show ?case
  proof (cases cs)
    case Nil
    with Suc.prems show ?thesis by auto
  next
    case (Cons c ds)
    obtain e where e: "b < length (l_heap l)"
        "l_heap l ! b = Some \<lparr>le_item = y, le_next = Some (fst c)\<rparr>" "fst c < length (l_heap l)"
        "l_heap l ! fst c = Some \<lparr>le_item = snd c, le_next = e\<rparr>"
        "lpath (l_heap l) (Some (fst c)) ((fst c, snd c) # ds) None"
      using Suc.prems(1) by (auto simp: Cons)
    from Suc.IH [OF e(5)] Suc.prems(2) e(1-4) show ?thesis
      by (simp add: Cons deref_Some ASSERT_def)
  qed
qed auto

lemma list_rel_SortedList_SanityCheck:
  assumes "list_rel l xs"
  shows "SortedList_SanityCheck compare l = ASSERT (successively (\<lambda>x y. compare x y \<le> 0) xs)"
proof -
  obtain cs where cs: "lrep l cs" "xs = map snd cs" using assms by (auto simp: list_rel_def)
  have fuel: "length cs \<le> length (l_heap l)"
    using cs(1) by (auto simp: lrep_def intro: lpath_fuel)
  show ?thesis
  proof (cases cs)
    case Nil
    with cs lrep_SanityCheck [OF cs(1)] show ?thesis
      by (simp add: SortedList_SanityCheck_def lrep_def)
  next
    case (Cons c ds)
    obtain e where e: "l_first l = Some (fst c)" "fst c < length (l_heap l)"
        "l_heap l ! fst c = Some \<lparr>le_item = snd c, le_next = e\<rparr>"
        "lpath (l_heap l) (Some (fst c)) ((fst c, snd c) # ds) None"
      using cs(1) by (auto simp: lrep_def Cons)
    have l: "ds = [] \<longleftrightarrow> l_first l = l_last l"
      using cs(1) by (auto simp: lrep_def Cons)
    show ?thesis
      using SortedList_SanityCheck_loop_path [OF e(4), of "length (l_heap l)" compare]
        lrep_SanityCheck [OF cs(1)] e(1-3) l fuel cs(2) Cons
      by (cases ds) (simp_all add: SortedList_SanityCheck_def deref_Some)
  qed
qed

section \<open>The interface the rest of the kernel uses\<close>

text \<open>
  The ready list, the waiting queues, the queues of the locks and mailboxes and the hash buckets
  only rely on these laws: a \<open>List<T>\<close> is a duplicate-free sequence, appended to at the end and
  taken from at the front.
\<close>

locale fifo =
  fixes rel :: "'q \<Rightarrow> 'a list \<Rightarrow> bool"
    and put :: "'q \<Rightarrow> 'a \<Rightarrow> 'q res"
    and take_front :: "'q \<Rightarrow> ('a \<times> 'q) res"
    and is_empty :: "'q \<Rightarrow> bool"
  assumes put_new: "rel q xs \<Longrightarrow> x \<notin> set xs \<Longrightarrow> \<exists>q'. put q x = Inr q' \<and> rel q' (xs @ [x])"
    and take_Cons: "rel q (x # xs) \<Longrightarrow> \<exists>q'. take_front q = Inr (x, q') \<and> rel q' xs"
    and is_empty: "rel q xs \<Longrightarrow> is_empty q \<longleftrightarrow> xs = []"
begin

lemma put_all:
  "rel q xs \<Longrightarrow> distinct (xs @ ys) \<Longrightarrow>
   \<exists>q'. foldM (\<lambda>y q. put q y) ys q = Inr q' \<and> rel q' (xs @ ys)"
proof (induction ys arbitrary: q xs)
  case (Cons y ys)
  then obtain q' where q': "put q y = Inr q'" "rel q' (xs @ [y])" using put_new [of q xs y] by auto
  from Cons.IH [OF q'(2)] Cons.prems(2) q'(1) show ?case by auto
qed simp

lemma drain:
  "rel q (xs @ ys) \<Longrightarrow> \<exists>q'. run (\<lambda>_. take_front) (replicate (length xs) ()) q = Inr (xs, q') \<and> rel q' ys"
proof (induction xs arbitrary: q)
  case (Cons x xs)
  then obtain q' where q': "take_front q = Inr (x, q')" "rel q' (xs @ ys)"
    using take_Cons [of q x "xs @ ys"] by auto
  from Cons.IH [OF q'(2)] q'(1) show ?case by auto
qed simp

text \<open>What goes in comes out in the same order.\<close>

lemma first_in_first_out:
  assumes "rel q []" "distinct xs"
  shows "\<exists>q' q''. foldM (\<lambda>y q. put q y) xs q = Inr q' \<and>
    run (\<lambda>_. take_front) (replicate (length xs) ()) q' = Inr (xs, q'') \<and> is_empty q''"
proof -
  obtain q' where q': "foldM (\<lambda>y q. put q y) xs q = Inr q'" "rel q' xs"
    using put_all [OF assms(1), of xs] assms(2) by auto
  with drain [of q' xs "[]"] is_empty show ?thesis by auto
qed

end

locale list_adt = fifo +
  fixes member :: "'q \<Rightarrow> 'a \<Rightarrow> bool res"
    and delete :: "'q \<Rightarrow> 'a \<Rightarrow> 'q res"
  assumes member: "rel q xs \<Longrightarrow> member q x = Inr (x \<in> set xs)"
    and put_old: "rel q xs \<Longrightarrow> x \<in> set xs \<Longrightarrow> put q x = Inl AssertionFailed"
    and delete_old: "rel q xs \<Longrightarrow> x \<in> set xs \<Longrightarrow> \<exists>q'. delete q x = Inr q' \<and> rel q' (remove1 x xs)"
    and delete_new: "rel q xs \<Longrightarrow> x \<notin> set xs \<Longrightarrow> delete q x = Inl AssertionFailed"
    and rel_distinct: "rel q xs \<Longrightarrow> distinct xs"
begin

lemma put_checked_all:
  assumes "rel q xs"
  shows "refines rel
    (foldM (\<lambda>x q. bindr (put q x) (\<lambda>q. bindr (member q x) (\<lambda>b. bindr (ASSERT b) (\<lambda>_.
       bindr (ASSERT (\<not> is_empty q)) (\<lambda>_. Inr q))))) ys q)
    (if distinct (xs @ ys) then Inr (xs @ ys) else Inl AssertionFailed)"
  using assms
proof (induction ys arbitrary: q xs)
  case Nil
  then show ?case by (simp add: rel_distinct)
next
  case (Cons y ys)
  show ?case
  proof (cases "y \<in> set xs")
    case True
    then show ?thesis using put_old [OF Cons.prems] by simp
  next
    case False
    then obtain q' where q': "put q y = Inr q'" "rel q' (xs @ [y])"
      using put_new [OF Cons.prems] by blast
    from Cons.IH [OF q'(2)] q'(1) member [OF q'(2), of y] is_empty [OF q'(2)] show ?thesis
      by (auto split: if_splits)
  qed
qed

lemma delete_checked_all:
  "rel q (xs @ ys) \<Longrightarrow>
   \<exists>q'. foldM (\<lambda>x q. bindr (delete q x) (\<lambda>q. bindr (member q x) (\<lambda>b.
      bindr (ASSERT (\<not> b)) (\<lambda>_. Inr q)))) xs q = Inr q' \<and> rel q' ys"
proof (induction xs arbitrary: q)
  case (Cons x xs)
  then obtain q' where q': "delete q x = Inr q'" "rel q' (xs @ ys)"
    using delete_old [OF Cons.prems, of x] by auto
  moreover have "x \<notin> set (xs @ ys)" using rel_distinct [OF Cons.prems] by simp
  ultimately show ?case using Cons.IH [OF q'(2)] member [OF q'(2), of x] by auto
qed simp

end

interpretation lq: list_adt list_rel List_Append List_RemoveFront List_IsEmpty List_IsInList List_Remove
proof unfold_locales
  fix q :: "'a lst" and xs :: "'a list" and x :: 'a
  assume r: "list_rel q xs"
  note a = list_rel_Append [OF r, of x] and d = list_rel_Remove [OF r, of x]
  show "x \<notin> set xs \<Longrightarrow> \<exists>q'. List_Append q x = Inr q' \<and> list_rel q' (xs @ [x])"
    using a by (simp add: seq_append_def refines_Inr_right)
  show "x \<in> set xs \<Longrightarrow> List_Append q x = Inl AssertionFailed"
    using a by (simp add: seq_append_def refines_Inl_right)
  show "x \<in> set xs \<Longrightarrow> \<exists>q'. List_Remove q x = Inr q' \<and> list_rel q' (remove1 x xs)"
    using d by (simp add: seq_remove_def refines_Inr_right)
  show "x \<notin> set xs \<Longrightarrow> List_Remove q x = Inl AssertionFailed"
    using d by (simp add: seq_remove_def refines_Inl_right)
next
  fix q :: "'a lst" and x :: 'a and xs :: "'a list"
  assume "list_rel q (x # xs)"
  from list_rel_RemoveFront [OF this]
  show "\<exists>q'. List_RemoveFront q = Inr (x, q') \<and> list_rel q' xs"
    by (auto simp: seq_remove_front_def refines_Inr_right)
qed (simp_all add: list_rel_IsEmpty list_rel_IsInList list_rel_distinct)

lemma list_rel_SelfTest:
  assumes "list_rel l xs"
  shows "refines list_rel (List_SelfTest l p)
    (if xs = [] \<and> distinct p then Inr [] else Inl AssertionFailed)"
proof -
  have s: "List_SanityCheck k = Inr ()" if "list_rel k ys" for k :: "'a lst" and ys
    using that by (auto simp: list_rel_def lrep_SanityCheck)
  have first: "l_first l = None" if "xs = []"
    using assms that by (auto simp: list_rel_def lrep_def)
  show ?thesis
  proof (cases "xs = [] \<and> distinct p")
    case True
    then obtain l1 where l1: "foldM (\<lambda>x l. bindr (List_Append l x) (\<lambda>l.
        bindr (List_IsInList l x) (\<lambda>b. bindr (ASSERT b) (\<lambda>_.
        bindr (ASSERT (\<not> List_IsEmpty l)) (\<lambda>_. Inr l))))) p l = Inr l1" "list_rel l1 p"
      using lq.put_checked_all [OF assms, of p] by (auto simp: refines_Inr_right)
    moreover obtain l2 where l2: "foldM (\<lambda>x l. bindr (List_Remove l x) (\<lambda>l.
        bindr (List_IsInList l x) (\<lambda>b. bindr (ASSERT (\<not> b)) (\<lambda>_. Inr l)))) p l1 = Inr l2"
        "list_rel l2 []"
      using lq.delete_checked_all [of l1 p "[]"] l1(2) by auto
    ultimately show ?thesis
      using True first s [OF assms] s [OF l1(2)] s [OF l2(2)] list_rel_IsEmpty [OF assms]
        list_rel_IsEmpty [OF l2(2)]
      by (simp add: List_SelfTest_def)
  next
    case False
    with s [OF assms] first list_rel_IsEmpty [OF assms] lq.put_checked_all [OF assms, of p]
    show ?thesis by (cases "xs = []") (auto simp: List_SelfTest_def refines_Inl_right)
  qed
qed

section \<open>Sorted lists\<close>

text \<open>A comparison function orders its items when it is a total preorder.\<close>

definition total_preorder :: "('a \<Rightarrow> 'a \<Rightarrow> int) \<Rightarrow> bool" where
  "total_preorder compare \<longleftrightarrow>
     (\<forall>x y. compare x y < 0 \<longleftrightarrow> compare y x > 0) \<and>
     (\<forall>x y z. compare x y \<le> 0 \<longrightarrow> compare y z \<le> 0 \<longrightarrow> compare x z \<le> 0)"

definition ordered_by :: "('a \<Rightarrow> 'a \<Rightarrow> int) \<Rightarrow> 'a list \<Rightarrow> bool" where
  "ordered_by compare = sorted_wrt (\<lambda>x y. compare x y \<le> 0)"

lemma total_preorder_total: "total_preorder compare \<Longrightarrow> \<not> compare x y < 0 \<Longrightarrow> compare y x \<le> 0"
  unfolding total_preorder_def by (metis not_less)

lemma total_preorder_trans:
  "total_preorder compare \<Longrightarrow> compare x y \<le> 0 \<Longrightarrow> compare y z \<le> 0 \<Longrightarrow> compare x z \<le> 0"
  unfolding total_preorder_def by blast

lemma seq_insert_mset: "seq_insert compare xs x = Inr ys \<Longrightarrow> mset ys = add_mset x (mset xs)"
proof -
  assume "seq_insert compare xs x = Inr ys"
  then have ys: "ys = takeWhile (\<lambda>y. \<not> compare x y < 0) xs @ x # dropWhile (\<lambda>y. \<not> compare x y < 0) xs"
    by (simp add: seq_insert_def split: if_splits)
  have "mset xs = mset (takeWhile (\<lambda>y. \<not> compare x y < 0) xs) + mset (dropWhile (\<lambda>y. \<not> compare x y < 0) xs)"
    by (metis mset_append takeWhile_dropWhile_id)
  then show ?thesis by (simp add: ys)
qed

lemma ordered_by_dropWhile:
  assumes "total_preorder compare" "ordered_by compare xs"
  shows "\<forall>y \<in> set (dropWhile (\<lambda>y. \<not> compare x y < 0) xs). compare x y < 0"
  using assms(2)
proof (induction xs)
  case (Cons z zs)
  show ?case
  proof (cases "compare x z < 0")
    case True
    have "compare x y < 0" if "y \<in> set zs" for y
    proof (rule ccontr)
      assume "\<not> compare x y < 0"
      then have "compare y x \<le> 0" using assms(1) unfolding total_preorder_def by (metis not_less)
      moreover have "compare z y \<le> 0" using Cons.prems that by (simp add: ordered_by_def)
      ultimately have "compare z x \<le> 0" using assms(1) unfolding total_preorder_def by blast
      with True assms(1) show False unfolding total_preorder_def by (metis not_less)
    qed
    with True show ?thesis by simp
  next
    case False
    have "ordered_by compare zs" using Cons.prems by (simp add: ordered_by_def)
    then have "\<forall>y \<in> set (dropWhile (\<lambda>y. \<not> compare x y < 0) zs). compare x y < 0" by (rule Cons.IH)
    moreover have "dropWhile (\<lambda>y. \<not> compare x y < 0) (z # zs) = dropWhile (\<lambda>y. \<not> compare x y < 0) zs"
      using False by (simp only: dropWhile.simps simp_thms if_True)
    ultimately show ?thesis by (simp only:)
  qed
qed simp

lemma seq_insert_ordered:
  assumes "total_preorder compare" "ordered_by compare xs" "seq_insert compare xs x = Inr ys"
  shows "ordered_by compare ys"
proof -
  have ys: "ys = takeWhile (\<lambda>y. \<not> compare x y < 0) xs @ x # dropWhile (\<lambda>y. \<not> compare x y < 0) xs"
    using assms(3) by (simp add: seq_insert_def split: if_splits)
  have below: "\<forall>y \<in> set (takeWhile (\<lambda>y. \<not> compare x y < 0) xs). compare y x \<le> 0"
    using total_preorder_total [OF assms(1)] set_takeWhileD by fastforce
  have "sorted_wrt (\<lambda>x y. compare x y \<le> 0)
      (takeWhile (\<lambda>y. \<not> compare x y < 0) xs @ dropWhile (\<lambda>y. \<not> compare x y < 0) xs)"
    using assms(2) by (simp add: ordered_by_def)
  moreover have "\<forall>y \<in> set (dropWhile (\<lambda>y. \<not> compare x y < 0) xs). compare x y \<le> 0"
    using ordered_by_dropWhile [OF assms(1,2), of x] by fastforce
  moreover have "\<forall>y \<in> set (takeWhile (\<lambda>y. \<not> compare x y < 0) xs).
      \<forall>z \<in> set (dropWhile (\<lambda>y. \<not> compare x y < 0) xs). compare y z \<le> 0"
    using below calculation(2) total_preorder_trans [OF assms(1)] by blast
  ultimately show ?thesis using below by (simp add: ys ordered_by_def sorted_wrt_append)
qed

text \<open>Items that compare equal leave in the order they came: \<open>Insert\<close> is stable.\<close>

lemma seq_insert_stable:
  assumes "total_preorder compare" "ordered_by compare xs" "seq_insert compare xs x = Inr ys"
  shows "filter (\<lambda>y. compare x y = 0) ys = filter (\<lambda>y. compare x y = 0) xs @ filter (\<lambda>y. compare x y = 0) [x]"
proof -
  let ?P = "\<lambda>y. compare x y = 0" and ?Q = "\<lambda>y. \<not> compare x y < 0"
  have ys: "ys = takeWhile ?Q xs @ x # dropWhile ?Q xs"
    using assms(3) by (simp add: seq_insert_def split: if_splits)
  have above: "\<forall>y \<in> set (dropWhile ?Q xs). compare x y < 0"
    by (rule ordered_by_dropWhile [OF assms(1,2)])
  have no: "filter ?P (dropWhile ?Q xs) = []"
    unfolding filter_empty_conv using above by (metis less_irrefl)
  have "filter ?P xs = filter ?P (takeWhile ?Q xs @ dropWhile ?Q xs)"
    by (rule arg_cong [OF takeWhile_dropWhile_id [symmetric]])
  then have xs: "filter ?P xs = filter ?P (takeWhile ?Q xs)"
    unfolding filter_append no by (rule trans) (rule append_Nil2)
  show ?thesis unfolding xs ys filter_append filter.simps no by (rule refl)
qed

lemma ordered_by_successively:
  "ordered_by compare xs \<Longrightarrow> successively (\<lambda>x y. compare x y \<le> 0) xs"
  unfolding ordered_by_def by (induction xs rule: induct_list012) auto

lemma ordered_by_nth: "ordered_by compare q \<Longrightarrow> n \<le> length q - 1 \<Longrightarrow>
   foldM (\<lambda>i _. ASSERT (compare (q ! i) (q ! (i + 1)) \<le> 0)) [0..<n] () = Inr ()"
proof (induction n)
  case (Suc n)
  then have "compare (q ! n) (q ! (n + 1)) \<le> 0"
    unfolding ordered_by_def by (intro sorted_wrt_nth_less [of "\<lambda>x y. compare x y \<le> 0"]) auto
  with Suc show ?case by simp
qed simp

text \<open>A priority queue: whatever was inserted comes out in the order of \<open>compare\<close>.\<close>

locale priority_queue =
  fixes rel :: "'q \<Rightarrow> 'a list \<Rightarrow> bool"
    and insert_in :: "'q \<Rightarrow> 'a \<Rightarrow> 'q res"
    and take_front :: "'q \<Rightarrow> ('a \<times> 'q) res"
    and compare :: "'a \<Rightarrow> 'a \<Rightarrow> int"
  assumes insert_new: "total_preorder compare \<Longrightarrow> rel q xs \<Longrightarrow> ordered_by compare xs \<Longrightarrow> x \<notin> set xs \<Longrightarrow>
      \<exists>q' ys. insert_in q x = Inr q' \<and> rel q' ys \<and> ordered_by compare ys \<and> mset ys = add_mset x (mset xs)"
    and take_least: "rel q (x # xs) \<Longrightarrow> \<exists>q'. take_front q = Inr (x, q') \<and> rel q' xs"
begin

lemma insert_all:
  assumes "total_preorder compare" "rel q xs" "ordered_by compare xs" "distinct (xs @ ys)"
  shows "\<exists>q' zs. foldM (\<lambda>y q. insert_in q y) ys q = Inr q' \<and> rel q' zs \<and>
    ordered_by compare zs \<and> mset zs = mset (xs @ ys)"
  using assms(2-4)
proof (induction ys arbitrary: q xs)
  case (Cons y ys)
  then obtain q' zs where q': "insert_in q y = Inr q'" "rel q' zs" "ordered_by compare zs"
      "mset zs = add_mset y (mset xs)"
    using insert_new [OF assms(1) Cons.prems(1,2), of y] by auto
  then have "distinct (zs @ ys)"
    using Cons.prems(3) by (metis Un_iff distinct_append mset_append mset_eq_imp_distinct_iff
        mset.simps(2) append_Cons union_mset_add_mset_right)
  from Cons.IH [OF q'(2,3) this] q'(1,4) show ?case by auto
qed auto

end

interpretation pq: priority_queue list_rel "SortedList_Insert compare" List_RemoveFront compare
  for compare :: "'a \<Rightarrow> 'a \<Rightarrow> int"
proof unfold_locales
  fix q :: "'a lst" and xs x
  assume "total_preorder compare" "list_rel q xs" "ordered_by compare xs" "x \<notin> set xs"
  moreover obtain ys where ys: "seq_insert compare xs x = Inr ys"
    using \<open>x \<notin> set xs\<close> by (simp add: seq_insert_def)
  ultimately show "\<exists>q' ys. SortedList_Insert compare q x = Inr q' \<and> list_rel q' ys \<and>
      ordered_by compare ys \<and> mset ys = add_mset x (mset xs)"
    using list_rel_Insert [of q xs compare x] seq_insert_ordered [OF _ _ ys] seq_insert_mset [OF ys]
    by (auto simp: refines_Inr_right)
qed (rule lq.take_Cons)

lemma SortedList_insert_checked_all:
  assumes "total_preorder compare" "list_rel l xs" "ordered_by compare xs" "distinct (xs @ p)"
  shows "\<exists>l' ys. foldM (\<lambda>x l. bindr (SortedList_Insert compare l x) (\<lambda>l.
      bindr (List_IsInList l x) (\<lambda>b. bindr (ASSERT b) (\<lambda>_. Inr l)))) p l = Inr l' \<and>
    list_rel l' ys \<and> ordered_by compare ys \<and> mset ys = mset (xs @ p)"
  using assms(2-4)
proof (induction p arbitrary: l xs)
  case (Cons x p)
  then obtain l' ys where l': "SortedList_Insert compare l x = Inr l'" "list_rel l' ys"
      "ordered_by compare ys" "mset ys = add_mset x (mset xs)"
    using pq.insert_new [OF assms(1) Cons.prems(1,2), of x] by auto
  have "mset (ys @ p) = mset (xs @ x # p)" using l'(4) by simp
  then have "distinct (ys @ p)" using Cons.prems(3) mset_eq_imp_distinct_iff by blast
  moreover have "x \<in> set ys" using l'(4) by (metis mset_eq_setD list.set_intros(1) mset.simps(2))
  ultimately show ?case
    using Cons.IH [OF l'(2,3)] l'(1,4) list_rel_IsInList [OF l'(2), of x] by auto
qed auto

lemma List_drain_checked:
  "list_rel l ys \<Longrightarrow> length ys = length p \<Longrightarrow>
   \<exists>l'. foldM (\<lambda>i (q, l). bindr (List_RemoveFront l) (\<lambda>(x, l).
      bindr (List_IsInList l x) (\<lambda>b. bindr (ASSERT (\<not> b)) (\<lambda>_. Inr (q @ [x], l))))) p (q, l) =
      Inr (q @ ys, l') \<and> list_rel l' []"
proof (induction p arbitrary: l ys q)
  case (Cons i p)
  then obtain y zs where ys: "ys = y # zs" by (cases ys) auto
  obtain l' where l': "List_RemoveFront l = Inr (y, l')" "list_rel l' zs"
    using lq.take_Cons [OF Cons.prems(1)[unfolded ys]] by blast
  with list_rel_distinct [OF Cons.prems(1)] list_rel_IsInList [OF l'(2), of y]
    Cons.IH [OF l'(2), of "q @ [y]"] Cons.prems(2)
  show ?case by (simp add: ys)
qed simp

lemma list_rel_SortedList_SelfTest:
  assumes "total_preorder compare" "list_rel l []" "distinct p"
  shows "\<exists>l'. SortedList_SelfTest compare l p = Inr l' \<and> list_rel l' []"
proof -
  obtain l1 where l1: "List_SelfTest l p = Inr l1" "list_rel l1 []"
    using list_rel_SelfTest [OF assms(2), of p] assms(3) by (auto simp: refines_Inr_right)
  obtain l2 ys where l2: "foldM (\<lambda>x l. bindr (SortedList_Insert compare l x) (\<lambda>l.
      bindr (List_IsInList l x) (\<lambda>b. bindr (ASSERT b) (\<lambda>_. Inr l)))) p l1 = Inr l2"
      "list_rel l2 ys" "ordered_by compare ys" "mset ys = mset p"
    using SortedList_insert_checked_all [OF assms(1) l1(2), of p] assms(3)
    by (auto simp: ordered_by_def)
  have len: "length ys = length p" using l2(4) by (metis size_mset)
  obtain l3 where l3: "foldM (\<lambda>i (q, l). bindr (List_RemoveFront l) (\<lambda>(x, l).
      bindr (List_IsInList l x) (\<lambda>b. bindr (ASSERT (\<not> b)) (\<lambda>_. Inr (q @ [x], l))))) p ([], l2) =
      Inr (ys, l3)" "list_rel l3 []"
    using List_drain_checked [OF l2(2) len, of "[]"] by auto
  have "successively (\<lambda>x y. compare x y \<le> 0) ys" by (rule ordered_by_successively [OF l2(3)])
  moreover have "foldM (\<lambda>i _. ASSERT (compare (ys ! i) (ys ! (i + 1)) \<le> 0)) [0..<length p - 1] () = Inr ()"
    using ordered_by_nth [OF l2(3), of "length p - 1"] len by simp
  ultimately have "SortedList_SelfTest compare l p = Inr l3"
    using list_rel_SortedList_SanityCheck [OF l2(2), of compare] list_rel_IsEmpty [OF l3(2)]
      list_rel_SortedList_SanityCheck [OF l3(2), of compare]
    unfolding SortedList_SelfTest_def l1(1) bindr_simps l2(1) by (simp only: bindr_simps ASSERT_simps l3(1) prod.case successively.simps simp_thms)
  with l3(2) show ?thesis by blast
qed

section \<open>Programs over lists\<close>

text \<open>A client of a list is a sequence of requests; each has a reply.\<close>

datatype 'a list_op =
    OpAppend 'a | OpPrepend 'a | OpInsert 'a | OpRemoveFront | OpRemove 'a
  | OpIsInList 'a | OpIsEmpty | OpNumInList | OpSanityCheck

datatype 'a list_reply = RNone | RItem 'a | RBool bool | RNum int

fun List_step :: "('a \<Rightarrow> 'a \<Rightarrow> int) \<Rightarrow> 'a list_op \<Rightarrow> 'a lst \<Rightarrow> ('a list_reply \<times> 'a lst) res" where
  "List_step compare (OpAppend x) l = bindr (List_Append l x) (\<lambda>l. Inr (RNone, l))"
| "List_step compare (OpPrepend x) l = bindr (List_Prepend l x) (\<lambda>l. Inr (RNone, l))"
| "List_step compare (OpInsert x) l = bindr (SortedList_Insert compare l x) (\<lambda>l. Inr (RNone, l))"
| "List_step compare OpRemoveFront l = bindr (List_RemoveFront l) (\<lambda>(x, l). Inr (RItem x, l))"
| "List_step compare (OpRemove x) l = bindr (List_Remove l x) (\<lambda>l. Inr (RNone, l))"
| "List_step compare (OpIsInList x) l = bindr (List_IsInList l x) (\<lambda>b. Inr (RBool b, l))"
| "List_step compare OpIsEmpty l = Inr (RBool (List_IsEmpty l), l)"
| "List_step compare OpNumInList l = Inr (RNum (List_NumInList l), l)"
| "List_step compare OpSanityCheck l = bindr (List_SanityCheck l) (\<lambda>_. Inr (RNone, l))"

fun seq_step :: "('a \<Rightarrow> 'a \<Rightarrow> int) \<Rightarrow> 'a list_op \<Rightarrow> 'a list \<Rightarrow> ('a list_reply \<times> 'a list) res" where
  "seq_step compare (OpAppend x) xs = bindr (seq_append xs x) (\<lambda>xs. Inr (RNone, xs))"
| "seq_step compare (OpPrepend x) xs = bindr (seq_prepend xs x) (\<lambda>xs. Inr (RNone, xs))"
| "seq_step compare (OpInsert x) xs = bindr (seq_insert compare xs x) (\<lambda>xs. Inr (RNone, xs))"
| "seq_step compare OpRemoveFront xs = bindr (seq_remove_front xs) (\<lambda>(x, xs). Inr (RItem x, xs))"
| "seq_step compare (OpRemove x) xs = bindr (seq_remove xs x) (\<lambda>xs. Inr (RNone, xs))"
| "seq_step compare (OpIsInList x) xs = Inr (RBool (x \<in> set xs), xs)"
| "seq_step compare OpIsEmpty xs = Inr (RBool (xs = []), xs)"
| "seq_step compare OpNumInList xs = Inr (RNum (int (length xs)), xs)"
| "seq_step compare OpSanityCheck xs = Inr (RNone, xs)"

lemmas list_rel_ops = list_rel_Append list_rel_Prepend list_rel_Insert list_rel_RemoveFront
  list_rel_Remove

lemma List_step_refines:
  assumes "list_rel l xs"
  shows "refines (rel_prod (=) list_rel) (List_step compare x l) (seq_step compare x xs)"
proof (cases x)
  case OpSanityCheck
  then show ?thesis using assms by (auto simp: list_rel_def lrep_SanityCheck)
qed (use assms in \<open>auto simp: list_rel_IsInList list_rel_IsEmpty list_rel_NumInList
       intro!: list_rel_ops [OF assms, THEN refines_bindr]\<close>)

interpretation ls: simulation list_rel "List_step compare" "seq_step compare"
  for compare :: "'a \<Rightarrow> 'a \<Rightarrow> int"
  by unfold_locales (rule List_step_refines)

section \<open>Properties\<close>

text \<open>
  C29: whatever sequence of \<open>Append\<close>, \<open>Prepend\<close>, \<open>Insert\<close>, \<open>RemoveFront\<close>, \<open>Remove\<close>, \<open>IsInList\<close>,
  \<open>IsEmpty\<close>, \<open>NumInList\<close> and \<open>SanityCheck\<close> runs on a new list, the pointer structure gives the
  replies of the plain sequence of items, fails an assertion exactly when the sequence does,
  and never follows a null or dangling pointer or loops.
\<close>

theorem List_programs_refine_sequences:
  "refines (rel_prod (=) list_rel) (run (List_step compare) ops List_List) (run (seq_step compare) ops [])"
  by (rule ls.run_refines [OF list_rel_List])

text \<open>
  C38: \<open>SortedList<T>::Insert\<close> keeps a sorted list sorted, adds exactly the item, and puts it behind
  the items that compare equal, so equal items come out in the order they went in.
\<close>

theorem SortedList_Insert_sorts:
  assumes "total_preorder compare" "list_rel l xs" "ordered_by compare xs" "x \<notin> set xs"
  shows "\<exists>l' ys. SortedList_Insert compare l x = Inr l' \<and> list_rel l' ys \<and> ordered_by compare ys \<and>
    mset ys = add_mset x (mset xs) \<and>
    filter (\<lambda>y. compare x y = 0) ys = filter (\<lambda>y. compare x y = 0) xs @ filter (\<lambda>y. compare x y = 0) [x]"
proof -
  obtain ys where ys: "seq_insert compare xs x = Inr ys" using assms(4) by (simp add: seq_insert_def)
  with list_rel_Insert [OF assms(2), of compare x]
  obtain l' where "SortedList_Insert compare l x = Inr l'" "list_rel l' ys"
    by (auto simp: refines_Inr_right)
  with seq_insert_ordered [OF assms(1,3) ys] seq_insert_stable [OF assms(1,3) ys] seq_insert_mset [OF ys]
  show ?thesis by blast
qed

lemma list_rel_singleton: "\<exists>l. List_Append List_List x = Inr l \<and> list_rel l [x]"
  using lq.put_new [OF list_rel_List, of x] by simp

theorem SortedList_Insert_sorts_witness:
  "\<exists>l l' ys. list_rel l [5::int] \<and> SortedList_Insert (\<lambda>a b. a - b) l 3 = Inr l' \<and> list_rel l' ys \<and>
     ordered_by (\<lambda>a b. a - b) ys \<and> mset ys = {#3, 5#}"
proof -
  obtain l where l: "list_rel l [5::int]" using list_rel_singleton [of "5::int"] by blast
  have "total_preorder (\<lambda>a b. a - b :: int)" "ordered_by (\<lambda>a b. a - b) [5::int]" "3 \<notin> set [5::int]"
    by (auto simp: total_preorder_def ordered_by_def)
  from SortedList_Insert_sorts [OF this(1) l this(2,3)] obtain l' ys where
    "SortedList_Insert (\<lambda>a b. a - b) l 3 = Inr l'" "list_rel l' ys"
    "ordered_by (\<lambda>a b. a - b) ys" "mset ys = add_mset 3 (mset [5])"
    by blast
  moreover have "add_mset 3 (mset [5]) = {#3, 5::int#}" by simp
  ultimately show ?thesis using l by metis
qed

text \<open>
  the module's own tests pass: on an empty list \<open>List<T>::SelfTest\<close> followed by the sorted
  list's part returns and leaves the list empty, for any distinct items and any comparison
  function that orders them.
\<close>

theorem SortedList_SelfTest_passes:
  assumes "total_preorder compare" "list_rel l []" "distinct p"
  shows "\<exists>l'. SortedList_SelfTest compare l p = Inr l' \<and> list_rel l' []"
  using assms by (rule list_rel_SortedList_SelfTest)

theorem SortedList_SelfTest_passes_witness:
  "\<exists>l'. SortedList_SelfTest (\<lambda>a b. a - b) List_List [9, 5, 7 :: int] = Inr l' \<and> list_rel l' []"
  by (rule SortedList_SelfTest_passes [OF _ list_rel_List]) (auto simp: total_preorder_def)

text \<open>
  \<open>List<T>::SanityCheck\<close> ends on every list, and it passes only if following \<open>next\<close> from
  \<open>first\<close> visits exactly \<open>numInList\<close> cells, the one \<open>last\<close> points to being the final one.
\<close>

theorem List_SanityCheck_sound:
  assumes "List_SanityCheck l = Inr ()"
  shows "\<exists>cs. lpath (l_heap l) (l_first l) cs None \<and> numInList l = int (length cs) \<and>
    l_last l = (if cs = [] then None else Some (fst (last cs)))"
  using assms by (rule List_SanityCheck_chain)

theorem List_SanityCheck_sound_witness:
  "\<exists>cs. lpath [Some \<lparr>le_item = 7::int, le_next = Some 1\<rparr>, Some \<lparr>le_item = 8, le_next = None\<rparr>]
      (Some 0) cs None \<and> int (length cs) = 2"
  using List_SanityCheck_sound [of "\<lparr>l_heap = [Some \<lparr>le_item = 7::int, le_next = Some 1\<rparr>,
      Some \<lparr>le_item = 8, le_next = None\<rparr>], l_first = Some 0, l_last = Some 1, numInList = 2\<rparr>"]
  by (force simp: List_SanityCheck_def List_SanityCheck_loop.simps deref_def)

end
