(* ===== verification/Machine.thy ===== *)
theory Machine
  imports Nachos_Prelude
begin

text \<open>
  The simulated workstation as the kernel and user programs see it: \<open>code/machine/machine.h\<close>,
  \<open>machine.cc\<close>, \<open>translate.h\<close> and \<open>translate.cc\<close>.  A \<open>machine\<close> record holds the CPU registers,
  main memory and the page table or TLB.  C \<open>int\<close>s of the hardware are 32-bit words; the host is
  little endian (\<open>HOST_IS_BIG_ENDIAN\<close> is off), so the byte-order conversions are the identity.

  Memory is a function on physical addresses; an access outside \<open>MemorySize\<close> is the fault
  \<open>OutOfBounds\<close>.  The lemmas show that translation keeps every access inside main memory, that
  a write touches only frames mapped writable, and that a read returns what was written.
\<close>

section \<open>Constants and types\<close>

definition PageSize :: nat where "PageSize = 128"
definition NumPhysPages :: nat where "NumPhysPages = 128"
definition MemorySize :: nat where "MemorySize = NumPhysPages * PageSize"
definition TLBSize :: nat where "TLBSize = 4"

datatype exception =
    NoException
  | SyscallException
  | PageFaultException
  | ReadOnlyException
  | BusErrorException
  | AddressErrorException
  | OverflowException
  | IllegalInstrException

definition StackReg :: nat where "StackReg = 29"
definition RetAddrReg :: nat where "RetAddrReg = 31"
definition NumGPRegs :: nat where "NumGPRegs = 32"
definition HiReg :: nat where "HiReg = 32"
definition LoReg :: nat where "LoReg = 33"
definition PCReg :: nat where "PCReg = 34"
definition NextPCReg :: nat where "NextPCReg = 35"
definition PrevPCReg :: nat where "PrevPCReg = 36"
definition LoadReg :: nat where "LoadReg = 37"
definition LoadValueReg :: nat where "LoadValueReg = 38"
definition BadVAddrReg :: nat where "BadVAddrReg = 39"
definition NumTotalRegs :: nat where "NumTotalRegs = 40"

lemmas reg_numbers = StackReg_def RetAddrReg_def NumGPRegs_def HiReg_def LoReg_def PCReg_def
  NextPCReg_def PrevPCReg_def LoadReg_def LoadValueReg_def BadVAddrReg_def NumTotalRegs_def

lemmas mem_sizes = PageSize_def NumPhysPages_def MemorySize_def

record translation_entry =
  te_virtualPage :: u32
  te_physicalPage :: u32
  te_valid :: bool
  te_readOnly :: bool
  te_use :: bool
  te_dirty :: bool

record machine =
  registers :: "nat \<Rightarrow> u32"
  mainMemory :: "nat \<Rightarrow> u8"
  tlb :: "translation_entry list option"
  pageTable :: "translation_entry list option"
  pageTableSize :: u32

definition Machine_Machine :: "u32 \<Rightarrow> machine" where
  "Machine_Machine garbage =
     \<lparr>registers = (\<lambda>_. 0), mainMemory = (\<lambda>_. 0), tlb = None, pageTable = None,
      pageTableSize = garbage\<rparr>"

definition set_reg :: "nat \<Rightarrow> u32 \<Rightarrow> machine \<Rightarrow> machine" where
  "set_reg n v m = m\<lparr>registers := (registers m)(n := v)\<rparr>"

definition Machine_ReadRegister :: "machine \<Rightarrow> int \<Rightarrow> u32 res" where
  "Machine_ReadRegister m num =
     bindr (ASSERT (num \<ge> 0 \<and> num < int NumTotalRegs)) (\<lambda>_. Inr (registers m (nat num)))"

definition Machine_WriteRegister :: "machine \<Rightarrow> int \<Rightarrow> u32 \<Rightarrow> machine res" where
  "Machine_WriteRegister m num value =
     bindr (ASSERT (num \<ge> 0 \<and> num < int NumTotalRegs)) (\<lambda>_. Inr (set_reg (nat num) value m))"

text \<open>The target of a delayed load is a register number that itself lies in a register.\<close>

definition DelayedLoad :: "machine \<Rightarrow> u32 \<Rightarrow> u32 \<Rightarrow> machine res" where
  "DelayedLoad m nextReg nextValue =
     (let target = sint (registers m LoadReg) in
      if 0 \<le> target \<and> target < int NumTotalRegs then
        Inr (set_reg 0 0 (set_reg LoadValueReg nextValue (set_reg LoadReg nextReg
          (set_reg (nat target) (registers m LoadValueReg) m))))
      else Inl OutOfBounds)"

text \<open>
  A trap: what the kernel does (\<open>setStatus(SystemMode)\<close>, \<open>ExceptionHandler\<close>, \<open>setStatus(UserMode)\<close>)
  is the argument \<open>handler\<close>.
\<close>

definition RaiseException ::
    "(exception \<Rightarrow> machine \<Rightarrow> machine res) \<Rightarrow> machine \<Rightarrow> exception \<Rightarrow> u32 \<Rightarrow> machine res" where
  "RaiseException handler m which badVAddr =
     bindr (DelayedLoad (set_reg BadVAddrReg badVAddr m) 0 0) (handler which)"

section \<open>Byte order\<close>

definition WordToHost :: "u32 \<Rightarrow> u32" where "WordToHost word = word"
definition ShortToHost :: "u16 \<Rightarrow> u16" where "ShortToHost shortword = shortword"
definition WordToMachine :: "u32 \<Rightarrow> u32" where "WordToMachine word = WordToHost word"
definition ShortToMachine :: "u16 \<Rightarrow> u16" where "ShortToMachine shortword = ShortToHost shortword"

text \<open>The host's little-endian view of \<open>n\<close> bytes of memory.\<close>

primrec load_bytes :: "(nat \<Rightarrow> u8) \<Rightarrow> nat \<Rightarrow> nat \<Rightarrow> u32" where
  "load_bytes mem 0 p = 0"
| "load_bytes mem (Suc n) p = ucast (mem p) OR push_bit 8 (load_bytes mem n (Suc p))"

primrec store_bytes :: "nat \<Rightarrow> nat \<Rightarrow> u32 \<Rightarrow> (nat \<Rightarrow> u8) \<Rightarrow> nat \<Rightarrow> u8" where
  "store_bytes 0 p v mem = mem"
| "store_bytes (Suc n) p v mem = store_bytes n (Suc p) (drop_bit 8 v) (mem(p := ucast v))"

section \<open>Address translation\<close>

primrec tlb_find :: "translation_entry list \<Rightarrow> u32 \<Rightarrow> nat \<Rightarrow> int \<Rightarrow> int option res" where
  "tlb_find t vpn 0 i = Inr None"
| "tlb_find t vpn (Suc n) i =
     bindr (aget t i) (\<lambda>e.
     if te_valid e \<and> te_virtualPage e = vpn then Inr (Some i) else tlb_find t vpn n (i + 1))"

text \<open>
  \<open>entry\<close> of the code is a pointer into the table; here it is the index and the table is written
  back.  The first component is the exception code, the second \<open>*physAddr\<close>.
\<close>

definition mark_used :: "translation_entry \<Rightarrow> bool \<Rightarrow> translation_entry" where
  "mark_used e writing =
     (if writing then e\<lparr>te_use := True, te_dirty := True\<rparr> else e\<lparr>te_use := True\<rparr>)"

definition Translate_entry ::
    "machine \<Rightarrow> translation_entry list \<Rightarrow> int \<Rightarrow> u32 \<Rightarrow> int \<Rightarrow> bool \<Rightarrow>
     (translation_entry list \<Rightarrow> machine) \<Rightarrow> ((exception \<times> u32) \<times> machine) res" where
  "Translate_entry m table i offset sz writing write_back =
     bindr (aget table i) (\<lambda>e.
     if te_readOnly e \<and> writing then Inr ((ReadOnlyException, 0), m)
     else if te_physicalPage e \<ge> word_of_nat NumPhysPages then Inr ((BusErrorException, 0), m)
     else
       bindr (aset table i (mark_used e writing)) (\<lambda>table'.
       let physAddr = te_physicalPage e * word_of_nat PageSize + offset in
       bindr (ASSERT (sint physAddr \<ge> 0 \<and> sint physAddr + sz \<le> int MemorySize)) (\<lambda>_.
       Inr ((NoException, physAddr), write_back table'))))"

definition Translate ::
    "machine \<Rightarrow> u32 \<Rightarrow> int \<Rightarrow> bool \<Rightarrow> ((exception \<times> u32) \<times> machine) res" where
  "Translate m virtAddr sz writing =
     (if sz = 4 \<and> virtAddr AND 3 \<noteq> 0 \<or> sz = 2 \<and> virtAddr AND 1 \<noteq> 0
      then Inr ((AddressErrorException, 0), m)
      else
        bindr (ASSERT (tlb m = None \<or> pageTable m = None)) (\<lambda>_.
        bindr (ASSERT (tlb m \<noteq> None \<or> pageTable m \<noteq> None)) (\<lambda>_.
        let vpn = virtAddr div word_of_nat PageSize;
            offset = virtAddr mod word_of_nat PageSize in
        case tlb m of
          None \<Rightarrow>
            if vpn \<ge> pageTableSize m then Inr ((AddressErrorException, 0), m)
            else
              bindr (aget (the (pageTable m)) (uint vpn)) (\<lambda>e.
              if \<not> te_valid e then Inr ((PageFaultException, 0), m)
              else Translate_entry m (the (pageTable m)) (uint vpn) offset sz writing
                     (\<lambda>t. m\<lparr>pageTable := Some t\<rparr>))
        | Some t \<Rightarrow>
            bindr (tlb_find t vpn TLBSize 0) (\<lambda>entry.
            case entry of
              None \<Rightarrow> Inr ((PageFaultException, 0), m)
            | Some i \<Rightarrow> Translate_entry m t i offset sz writing (\<lambda>t. m\<lparr>tlb := Some t\<rparr>)))))"

section \<open>Reading and writing user memory\<close>

text \<open>
  \<open>ReadMem\<close> and \<open>WriteMem\<close> trap on a failed translation and return \<open>FALSE\<close>; every caller returns
  at once then.  So a failed access is a value, \<open>Trap\<close> with the arguments of \<open>RaiseException\<close>, and
  the caller raises it.
\<close>

datatype 'a access = Access 'a machine | Trap exception u32 machine

definition in_memory :: "u32 \<Rightarrow> nat \<Rightarrow> bool" where
  "in_memory p n \<longleftrightarrow> unat p + n \<le> MemorySize"

definition ReadMem :: "machine \<Rightarrow> u32 \<Rightarrow> int \<Rightarrow> u32 access res" where
  "ReadMem m addr sz =
     bindr (Translate m addr sz False) (\<lambda>((exc, pa), m).
     if exc \<noteq> NoException then Inr (Trap exc addr m)
     else if sz = 1 then
       (if in_memory pa 1 then Inr (Access (scast (mainMemory m (unat pa))) m) else Inl OutOfBounds)
     else if sz = 2 then
       (if in_memory pa 2
        then Inr (Access (ucast (ShortToHost (ucast (load_bytes (mainMemory m) 2 (unat pa))))) m)
        else Inl OutOfBounds)
     else if sz = 4 then
       (if in_memory pa 4 then Inr (Access (WordToHost (load_bytes (mainMemory m) 4 (unat pa))) m)
        else Inl OutOfBounds)
     else Inl AssertionFailed)"

definition WriteMem :: "machine \<Rightarrow> u32 \<Rightarrow> int \<Rightarrow> u32 \<Rightarrow> unit access res" where
  "WriteMem m addr sz value =
     bindr (Translate m addr sz True) (\<lambda>((exc, pa), m).
     if exc \<noteq> NoException then Inr (Trap exc addr m)
     else if sz = 1 then
       (if in_memory pa 1
        then Inr (Access () (m\<lparr>mainMemory := store_bytes 1 (unat pa) (value AND 0xff) (mainMemory m)\<rparr>))
        else Inl OutOfBounds)
     else if sz = 2 then
       (if in_memory pa 2
        then Inr (Access () (m\<lparr>mainMemory := store_bytes 2 (unat pa)
               (ucast (ShortToMachine (ucast (value AND 0xffff)))) (mainMemory m)\<rparr>))
        else Inl OutOfBounds)
     else if sz = 4 then
       (if in_memory pa 4
        then Inr (Access () (m\<lparr>mainMemory := store_bytes 4 (unat pa) (WordToMachine value) (mainMemory m)\<rparr>))
        else Inl OutOfBounds)
     else Inl AssertionFailed)"

section \<open>What a successful translation means\<close>

definition first_match :: "translation_entry list \<Rightarrow> u32 \<Rightarrow> nat option" where
  "first_match t vpn =
     (case filter (\<lambda>i. te_valid (t ! i) \<and> te_virtualPage (t ! i) = vpn) [0..<length t] of
        [] \<Rightarrow> None | i # _ \<Rightarrow> Some i)"

text \<open>The entry that maps a virtual page, if any, and the well-formed shape of the tables.\<close>

definition mapping :: "machine \<Rightarrow> u32 \<Rightarrow> translation_entry option" where
  "mapping m vpn =
     (case tlb m of
        None \<Rightarrow>
          (case pageTable m of None \<Rightarrow> None
           | Some t \<Rightarrow> if vpn < pageTableSize m \<and> te_valid (t ! unat vpn) then Some (t ! unat vpn) else None)
      | Some t \<Rightarrow> map_option ((!) t) (first_match t vpn))"

definition tables_ok :: "machine \<Rightarrow> bool" where
  "tables_ok m \<longleftrightarrow>
     (case (tlb m, pageTable m) of
        (None, Some t) \<Rightarrow> unat (pageTableSize m) \<le> length t
      | (Some t, None) \<Rightarrow> length t = TLBSize
      | _ \<Rightarrow> False)"

text \<open>The part of the tables that protection depends on is never changed by the hardware.\<close>

definition protection :: "translation_entry \<Rightarrow> u32 \<times> u32 \<times> bool \<times> bool" where
  "protection e = (te_virtualPage e, te_physicalPage e, te_valid e, te_readOnly e)"

lemma protection_mark_used [simp]: "protection (mark_used e w) = protection e"
  by (simp add: protection_def mark_used_def)

lemma map_protection_update:
  "i < length t \<Longrightarrow> map protection (t[i := mark_used (t ! i) w]) = map protection t"
  unfolding map_update protection_mark_used by (metis list_update_id nth_map)

definition same_protection :: "machine \<Rightarrow> machine \<Rightarrow> bool" where
  "same_protection m m' \<longleftrightarrow>
     map_option (map protection) (tlb m') = map_option (map protection) (tlb m) \<and>
     map_option (map protection) (pageTable m') = map_option (map protection) (pageTable m) \<and>
     pageTableSize m' = pageTableSize m"

lemma same_protection_refl [simp]: "same_protection m m"
  by (simp add: same_protection_def)

lemma same_protection_trans: "same_protection a b \<Longrightarrow> same_protection b c \<Longrightarrow> same_protection a c"
  by (simp add: same_protection_def)

lemma same_protection_tables_ok:
  assumes "same_protection m m'" shows "tables_ok m' \<longleftrightarrow> tables_ok m"
proof -
  have "map_option length (map_option (map protection) x) = map_option length x"
    for x :: "translation_entry list option" by (cases x) simp_all
  then have "map_option length (tlb m') = map_option length (tlb m)"
    "map_option length (pageTable m') = map_option length (pageTable m)"
    using assms unfolding same_protection_def by metis+
  then show ?thesis using assms
    by (auto simp: tables_ok_def same_protection_def split: option.splits)
qed

lemma tlb_find_first:
  assumes "k + n = length t"
  shows "tlb_find t vpn n (int k) =
    Inr (case filter (\<lambda>i. te_valid (t ! i) \<and> te_virtualPage (t ! i) = vpn) [k..<length t] of
           [] \<Rightarrow> None | i # _ \<Rightarrow> Some (int i))"
  using assms
proof (induction n arbitrary: k)
  case (Suc n)
  then have "[k..<length t] = k # [Suc k..<length t]" by (simp add: upt_conv_Cons)
  moreover have "int k + 1 = int (Suc k)" by simp
  ultimately show ?case using Suc.IH [of "Suc k"] Suc.prems
    by (simp only: tlb_find.simps) (simp add: aget_def)
qed simp

lemma first_match_bound: "first_match t vpn = Some i \<Longrightarrow> i < length t \<and> te_valid (t ! i)"
proof -
  assume a: "first_match t vpn = Some i"
  let ?xs = "filter (\<lambda>i. te_valid (t ! i) \<and> te_virtualPage (t ! i) = vpn) [0..<length t]"
  from a obtain ys where "?xs = i # ys" by (auto simp: first_match_def split: list.splits)
  then have "i \<in> set ?xs" by (metis list.set_intros(1))
  then show ?thesis by simp
qed

text \<open>The physical address of a translation that succeeds is exact and inside the frame.\<close>

lemma physical_address:
  fixes frame va :: u32
  assumes "frame < word_of_nat NumPhysPages"
  shows "unat (frame * word_of_nat PageSize + va mod word_of_nat PageSize) =
    unat frame * PageSize + unat va mod PageSize"
proof -
  have f: "unat frame < 128" using assms by (simp add: mem_sizes word_less_nat_alt)
  have v: "unat (va mod 128) = unat va mod 128" by (simp add: unat_mod)
  have "unat va mod 128 < 128" by simp
  with f have "unat frame * 128 + unat va mod 128 < 2 ^ 32" by (simp add: field_simps)
  then show ?thesis
    using f by (simp add: mem_sizes unat_word_ariths v)
qed

lemma aligned_offset:
  fixes va :: u32
  assumes "sz = 4 \<longrightarrow> va AND 3 = 0" "sz = 2 \<longrightarrow> va AND 1 = 0" "sz \<in> {1, 2, 4}"
  shows "int (unat va mod PageSize) + sz \<le> int PageSize"
proof -
  have m: "unat (va AND mask k) = unat va mod 2 ^ k" for k
    unfolding take_bit_eq_mask [symmetric] unsigned_take_bit_eq by (rule take_bit_eq_mod)
  define a where "a = unat va mod 128"
  have "a mod 4 = unat va mod 4" "a mod 2 = unat va mod 2" "a < 128"
    by (simp_all add: a_def mod_mod_cancel)
  moreover have "sz = 4 \<Longrightarrow> unat va mod 4 = 0" "sz = 2 \<Longrightarrow> unat va mod 2 = 0"
    using assms m [of 2] m [of 1] by (auto simp: mask_eq_exp_minus_1)
  moreover have "a mod 4 = 0 \<Longrightarrow> a < 128 \<Longrightarrow> a + 4 \<le> 128" "a mod 2 = 0 \<Longrightarrow> a < 128 \<Longrightarrow> a + 2 \<le> 128"
    by presburger+
  ultimately have "int a + sz \<le> 128" using assms(3) by fastforce
  then show ?thesis by (simp add: a_def PageSize_def)
qed

lemma signed_small:
  fixes w :: u32
  assumes "unat w < 2147483648"
  shows "sint w = int (unat w)"
proof -
  have u: "uint w = int (unat w)" by (rule uint_nat)
  have "sint w = s32 (uint w)" by (simp add: s32_def)
  also have "\<dots> = uint w"
  proof (rule s32_id)
    have "0 \<le> uint w" "uint w < 2147483648" using assms u by linarith+
    moreover have "(2::int) ^ 31 = 2147483648" by simp
    ultimately show "- (2 ^ 31) \<le> uint w" "uint w < 2 ^ 31" by linarith+
  qed
  finally show ?thesis unfolding u .
qed

text \<open>The exception code and physical address, as a function of the mapping alone.\<close>

definition entry_result :: "translation_entry \<Rightarrow> u32 \<Rightarrow> bool \<Rightarrow> exception \<times> u32" where
  "entry_result e va w =
     (if te_readOnly e \<and> w then (ReadOnlyException, 0)
      else if te_physicalPage e \<ge> word_of_nat NumPhysPages then (BusErrorException, 0)
      else (NoException, te_physicalPage e * word_of_nat PageSize + va mod word_of_nat PageSize))"

definition translate_result :: "machine \<Rightarrow> u32 \<Rightarrow> int \<Rightarrow> bool \<Rightarrow> exception \<times> u32" where
  "translate_result m va sz w =
     (if sz = 4 \<and> va AND 3 \<noteq> 0 \<or> sz = 2 \<and> va AND 1 \<noteq> 0 then (AddressErrorException, 0)
      else case mapping m (va div word_of_nat PageSize) of
        Some e \<Rightarrow> entry_result e va w
      | None \<Rightarrow> (if tlb m = None \<and> va div word_of_nat PageSize \<ge> pageTableSize m
                then AddressErrorException else PageFaultException, 0))"

text \<open>\<open>m'\<close> is \<open>m\<close> except for use and dirty bits.\<close>

definition touched :: "machine \<Rightarrow> machine \<Rightarrow> bool" where
  "touched m m' \<longleftrightarrow> same_protection m m' \<and> registers m' = registers m \<and> mainMemory m' = mainMemory m"

lemma touched_refl [simp]: "touched m m"
  by (simp add: touched_def)

lemma Translate_entry_spec:
  fixes va :: u32
  assumes i: "i < length table" and al: "int (unat va mod PageSize) + sz \<le> int PageSize"
    and wb: "touched m (wb (table[i := mark_used (table ! i) w]))"
  defines "r \<equiv> entry_result (table ! i) va w"
  shows "\<exists>m'. Translate_entry m table (int i) (va mod word_of_nat PageSize) sz w wb = Inr (r, m') \<and>
    touched m m' \<and> (fst r \<noteq> NoException \<longrightarrow> m' = m) \<and>
    (fst r = NoException \<longrightarrow> int (unat (snd r)) + sz \<le> int MemorySize)"
proof (cases "te_readOnly (table ! i) \<and> w \<or> te_physicalPage (table ! i) \<ge> word_of_nat NumPhysPages")
  case True
  then show ?thesis using i by (auto simp: Translate_entry_def r_def entry_result_def)
next
  case False
  let ?pa = "te_physicalPage (table ! i) * word_of_nat PageSize + va mod word_of_nat PageSize"
  have f: "te_physicalPage (table ! i) < word_of_nat NumPhysPages" using False by (simp add: not_le)
  have "unat ?pa = unat (te_physicalPage (table ! i)) * PageSize + unat va mod PageSize"
    by (rule physical_address [OF f])
  moreover have "unat (te_physicalPage (table ! i)) < 128"
    using f by (simp add: mem_sizes word_less_nat_alt)
  ultimately have b: "int (unat ?pa) + sz \<le> int MemorySize" "unat ?pa < 2147483648"
    using al unfolding mem_sizes by (simp_all only: of_nat_add of_nat_mult of_nat_numeral)
  have r: "r = (NoException, ?pa)" using False by (simp add: r_def entry_result_def)
  have "Translate_entry m table (int i) (va mod word_of_nat PageSize) sz w wb =
      Inr (r, wb (table[i := mark_used (table ! i) w]))"
    using False i b(1) signed_small [OF b(2)] unfolding r by (simp add: Translate_entry_def Let_def)
  with wb b(1) r show ?thesis by simp
qed

lemma Translate_spec:
  fixes va :: u32 and w :: bool
  assumes ok: "tables_ok m" and sz: "sz \<in> {1, 2, 4}"
  defines "r \<equiv> translate_result m va sz w"
  shows "\<exists>m'. Translate m va sz w = Inr (r, m') \<and> touched m m' \<and>
    (fst r \<noteq> NoException \<longrightarrow> m' = m) \<and> (fst r = NoException \<longrightarrow> in_memory (snd r) (nat sz))"
proof (cases "sz = 4 \<and> va AND 3 \<noteq> 0 \<or> sz = 2 \<and> va AND 1 \<noteq> 0")
  case True
  then show ?thesis by (simp add: r_def Translate_def translate_result_def)
next
  case aligned: False
  let ?vpn = "va div word_of_nat PageSize"
  have al: "int (unat va mod PageSize) + sz \<le> int PageSize"
    using sz aligned by (intro aligned_offset) auto
  have "int (nat sz) = sz" using sz by auto
  then have im: "in_memory p (nat sz)" if "int (unat p) + sz \<le> int MemorySize" for p
    using that unfolding in_memory_def by linarith
  have r: "r = (case mapping m ?vpn of Some e \<Rightarrow> entry_result e va w
      | None \<Rightarrow> (if tlb m = None \<and> ?vpn \<ge> pageTableSize m
                then AddressErrorException else PageFaultException, 0))"
    unfolding r_def translate_result_def using aligned by (rule if_not_P)
  show ?thesis
  proof (cases "tlb m")
    case None
    then obtain t where t: "pageTable m = Some t" "unat (pageTableSize m) \<le> length t"
      using ok by (auto simp: tables_ok_def split: option.splits)
    show ?thesis
    proof (cases "?vpn < pageTableSize m")
      case False
      with None t aligned have "Translate m va sz w = Inr ((AddressErrorException, 0), m)"
        by (auto simp: Translate_def Let_def)
      moreover have "r = (AddressErrorException, 0)" using None t(1) False r by (auto simp: mapping_def)
      ultimately show ?thesis by simp
    next
      case True
      then have v: "unat ?vpn < length t" using t(2) by (simp add: word_less_nat_alt)
      have "uint ?vpn < int (length t)" using v unfolding uint_nat by (rule iffD2 [OF of_nat_less_iff])
      then have get: "aget t (uint ?vpn) = Inr (t ! unat ?vpn)" by (simp add: aget_def)
      have T: "Translate m va sz w =
          (if \<not> te_valid (t ! unat ?vpn) then Inr ((PageFaultException, 0), m)
           else Translate_entry m t (uint ?vpn) (va mod word_of_nat PageSize) sz w
             (\<lambda>t. m\<lparr>pageTable := Some t\<rparr>))"
        using None t(1) True get aligned by (auto simp: Translate_def Let_def)
      have same: "touched m (m\<lparr>pageTable := Some (t[unat ?vpn := mark_used (t ! unat ?vpn) w])\<rparr>)"
        using t v by (simp add: touched_def same_protection_def map_protection_update)
      show ?thesis
      proof (cases "te_valid (t ! unat ?vpn)")
        case False
        with T None t True r show ?thesis by (simp add: mapping_def not_less)
      next
        case valid: True
        then have "r = entry_result (t ! unat ?vpn) va w" using None t True r by (simp add: mapping_def)
        with Translate_entry_spec [OF v al, folded uint_nat,
            where wb = "\<lambda>t. m\<lparr>pageTable := Some t\<rparr>", OF same] T valid im
        show ?thesis by auto
      qed
    qed
  next
    case (Some t)
    then have t: "pageTable m = None" "length t = TLBSize"
      using ok by (auto simp: tables_ok_def split: option.splits)
    have find: "tlb_find t ?vpn TLBSize 0 = Inr (map_option int (first_match t ?vpn))"
      using tlb_find_first [of 0 TLBSize t ?vpn] t(2) by (simp add: first_match_def split: list.split)
    show ?thesis
    proof (cases "first_match t ?vpn")
      case None
      with Some t find aligned have "Translate m va sz w = Inr ((PageFaultException, 0), m)"
        by (auto simp: Translate_def Let_def)
      with Some None r show ?thesis by (simp add: mapping_def)
    next
      case i: (Some i)
      then have v: "i < length t" by (simp add: first_match_bound)
      have T: "Translate m va sz w = Translate_entry m t (int i) (va mod word_of_nat PageSize) sz w
          (\<lambda>t. m\<lparr>tlb := Some t\<rparr>)"
        using Some t find i aligned by (auto simp: Translate_def Let_def)
      have same: "touched m (m\<lparr>tlb := Some (t[i := mark_used (t ! i) w])\<rparr>)"
        using Some v by (simp add: touched_def same_protection_def map_protection_update)
      have "r = entry_result (t ! i) va w" using Some i r by (simp add: mapping_def)
      with Translate_entry_spec [OF v al, where wb = "\<lambda>t. m\<lparr>tlb := Some t\<rparr>", OF same] T im show ?thesis by auto
    qed
  qed
qed

section \<open>Bytes in memory\<close>

lemma store_bytes_other: "a \<notin> {p..<p + n} \<Longrightarrow> store_bytes n p v mem a = mem a"
  by (induction n arbitrary: p v mem) auto

lemma store_bytes_at:
  "k < n \<Longrightarrow> store_bytes n p v mem (p + k) = ucast (drop_bit (8 * k) v)"
proof (induction n arbitrary: p v mem k)
  case (Suc n)
  show ?case
  proof (cases k)
    case 0
    then show ?thesis by (simp add: store_bytes_other)
  next
    case (Suc j)
    with Suc.prems Suc.IH [of j "Suc p" "drop_bit 8 v" "mem(p := ucast v)"] show ?thesis
      by (simp add: add.commute del: fun_upd_apply)
  qed
qed simp

lemma load_bytes_cong:
  "(\<And>a. a \<in> {p..<p + n} \<Longrightarrow> mem a = mem' a) \<Longrightarrow> load_bytes mem n p = load_bytes mem' n p"
  by (induction n arbitrary: p) auto

lemma ucast_byte: "ucast (ucast (v :: u32) :: u8) = take_bit 8 v"
  by (rule bit_word_eqI) (auto simp: bit_simps)

lemma load_store_bytes:
  "load_bytes (store_bytes n p v mem) n p = take_bit (8 * n) (v :: u32)"
proof (induction n arbitrary: p v mem)
  case (Suc n)
  have "store_bytes (Suc n) p v mem p = ucast v" using store_bytes_at [of 0 "Suc n" p v mem] by simp
  moreover have "load_bytes (store_bytes n (Suc p) (drop_bit 8 v) (mem(p := ucast v))) n (Suc p) =
      take_bit (8 * n) (drop_bit 8 v)" by (rule Suc.IH)
  moreover have "take_bit 8 v OR push_bit 8 (take_bit (8 * n) (drop_bit 8 v)) = take_bit (8 * Suc n) v"
    by (rule bit_word_eqI) (auto simp: bit_simps)
  ultimately show ?case by (simp add: ucast_byte)
qed simp

lemma load_bytes_small: "take_bit (8 * n) (load_bytes mem n p) = load_bytes mem n p"
proof (induction n arbitrary: p)
  case (Suc n)
  have "take_bit (8 * Suc n) (ucast (mem p) OR push_bit 8 (load_bytes mem n (Suc p))) =
      ucast (mem p) OR push_bit 8 (take_bit (8 * n) (load_bytes mem n (Suc p)))"
    by (rule bit_word_eqI) (auto simp: bit_simps dest: bit_imp_le_length)
  with Suc.IH show ?case by simp
qed simp

lemma store_bytes_low: "store_bytes n p (take_bit (8 * n) v) mem = store_bytes n p v mem"
proof (rule ext)
  fix a
  show "store_bytes n p (take_bit (8 * n) v) mem a = store_bytes n p v mem a"
  proof (cases "a \<in> {p..<p + n}")
    case True
    then obtain k where k: "a = p + k" "k < n" by (metis add_less_cancel_left atLeastLessThan_iff le_Suc_ex)
    have "ucast (drop_bit (8 * k) (take_bit (8 * n) v)) = (ucast (drop_bit (8 * k) v) :: u8)"
      using k(2) by (intro bit_word_eqI) (auto simp: bit_simps)
    with k show ?thesis by (simp add: store_bytes_at)
  qed (simp add: store_bytes_other)
qed

section \<open>What a user access does\<close>

text \<open>The value \<open>ReadMem\<close> delivers: one byte comes sign-extended, as \<open>char\<close> is signed.\<close>

definition read_value :: "(nat \<Rightarrow> u8) \<Rightarrow> u32 \<Rightarrow> int \<Rightarrow> u32" where
  "read_value mem pa sz = (if sz = 1 then scast (mem (unat pa)) else load_bytes mem (nat sz) (unat pa))"

lemma ReadMem_spec:
  assumes "tables_ok m" "sz \<in> {1, 2, 4}" "translate_result m va sz False = (exc, pa)"
  shows "\<exists>m'. touched m m' \<and> (exc \<noteq> NoException \<longrightarrow> m' = m) \<and>
    (exc = NoException \<longrightarrow> in_memory pa (nat sz)) \<and>
    ReadMem m va sz =
      Inr (if exc \<noteq> NoException then Trap exc va m' else Access (read_value (mainMemory m) pa sz) m')"
proof -
  obtain m' where m': "Translate m va sz False = Inr ((exc, pa), m')" "touched m m'"
      "exc \<noteq> NoException \<longrightarrow> m' = m" "exc = NoException \<longrightarrow> in_memory pa (nat sz)"
    using Translate_spec [OF assms(1,2), of va False] assms(3) by auto
  have half: "ucast (ucast (load_bytes mem 2 p) :: u16) = load_bytes mem 2 p" for mem p
  proof -
    have "ucast (ucast w :: u16) = take_bit 16 w" for w :: u32
      by (rule bit_word_eqI) (auto simp: bit_simps)
    then show ?thesis using load_bytes_small [of 2 mem p] by simp
  qed
  have "ReadMem m va sz =
      Inr (if exc \<noteq> NoException then Trap exc va m' else Access (read_value (mainMemory m) pa sz) m')"
    using m' assms(2) half
    by (elim insertE emptyE)
      (auto simp: ReadMem_def read_value_def ShortToHost_def WordToHost_def touched_def)
  with m' show ?thesis by blast
qed

lemma WriteMem_spec:
  assumes "tables_ok m" "sz \<in> {1, 2, 4}" "translate_result m va sz True = (exc, pa)"
  shows "\<exists>m'. touched m m' \<and> (exc \<noteq> NoException \<longrightarrow> m' = m) \<and>
    (exc = NoException \<longrightarrow> in_memory pa (nat sz)) \<and>
    WriteMem m va sz v =
      Inr (if exc \<noteq> NoException then Trap exc va m'
           else Access () (m'\<lparr>mainMemory := store_bytes (nat sz) (unat pa) v (mainMemory m)\<rparr>))"
proof -
  obtain m' where m': "Translate m va sz True = Inr ((exc, pa), m')" "touched m m'"
      "exc \<noteq> NoException \<longrightarrow> m' = m" "exc = NoException \<longrightarrow> in_memory pa (nat sz)"
    using Translate_spec [OF assms(1,2), of va True] assms(3) by auto
  have byte: "store_bytes 1 p (v AND 0xff) mem = store_bytes 1 p v mem" for p mem
    using store_bytes_low [of 1 p v mem] by (simp add: take_bit_eq_mask mask_eq_exp_minus_1)
  have half: "store_bytes 2 p (ucast (ucast (v AND 0xffff) :: u16)) mem = store_bytes 2 p v mem" for p mem
  proof -
    have "(0xffff :: u32) = mask 16" by (simp add: mask_eq_exp_minus_1)
    then have "v AND 0xffff = take_bit 16 v" by (simp add: take_bit_eq_mask)
    moreover have "ucast (ucast (take_bit 16 v) :: u16) = take_bit 16 v"
      by (rule bit_word_eqI) (auto simp: bit_simps)
    ultimately show ?thesis using store_bytes_low [of 2 p v mem] by simp
  qed
  have "WriteMem m va sz v =
      Inr (if exc \<noteq> NoException then Trap exc va m'
           else Access () (m'\<lparr>mainMemory := store_bytes (nat sz) (unat pa) v (mainMemory m)\<rparr>))"
    using m' assms(2) byte half
    by (elim insertE emptyE)
      (auto simp: WriteMem_def ShortToMachine_def ShortToHost_def WordToMachine_def WordToHost_def touched_def)
  with m' show ?thesis by blast
qed

text \<open>Translation depends on the tables only through what the hardware never changes.\<close>

lemma protection_nth_eq:
  "map protection t' = map protection t \<Longrightarrow> i < length t \<Longrightarrow> protection (t' ! i) = protection (t ! i)"
  by (metis length_map nth_map)

lemma protection_nth:
  assumes "map protection t' = map protection t" "i < length t"
  shows "te_valid (t' ! i) = te_valid (t ! i)" "te_virtualPage (t' ! i) = te_virtualPage (t ! i)"
    "te_physicalPage (t' ! i) = te_physicalPage (t ! i)" "te_readOnly (t' ! i) = te_readOnly (t ! i)"
proof -
  have "protection (t' ! i) = protection (t ! i)"
    using assms by (metis length_map nth_map)
  then show "te_valid (t' ! i) = te_valid (t ! i)" "te_virtualPage (t' ! i) = te_virtualPage (t ! i)"
    "te_physicalPage (t' ! i) = te_physicalPage (t ! i)" "te_readOnly (t' ! i) = te_readOnly (t ! i)"
    by (simp_all add: protection_def)
qed

lemma first_match_same:
  assumes "map protection t' = map protection t"
  shows "first_match t' vpn = first_match t vpn"
proof -
  have "filter (\<lambda>i. te_valid (t' ! i) \<and> te_virtualPage (t' ! i) = vpn) [0..<length t] =
      filter (\<lambda>i. te_valid (t ! i) \<and> te_virtualPage (t ! i) = vpn) [0..<length t]"
    using protection_nth [OF assms] by (intro filter_cong) auto
  moreover have "length t' = length t" using assms by (rule map_eq_imp_length_eq)
  ultimately show ?thesis by (simp add: first_match_def)
qed

lemma mapping_same:
  assumes "same_protection m m'" "tables_ok m"
  shows "map_option protection (mapping m' vpn) = map_option protection (mapping m vpn)"
proof (cases "tlb m")
  case None
  then obtain t where t: "pageTable m = Some t" "unat (pageTableSize m) \<le> length t" "tlb m' = None"
    using assms by (auto simp: tables_ok_def same_protection_def split: option.splits)
  then obtain t' where t': "pageTable m' = Some t'" "map protection t' = map protection t"
      "pageTableSize m' = pageTableSize m"
    using assms(1) by (auto simp: same_protection_def)
  have "vpn < pageTableSize m \<Longrightarrow> unat vpn < length t" using t(2) by (simp add: word_less_nat_alt)
  with None t t' protection_nth [OF t'(2), of "unat vpn"] show ?thesis
    by (auto simp: mapping_def protection_def)
next
  case (Some t)
  then obtain t' where t': "tlb m' = Some t'" "map protection t' = map protection t"
    using assms(1) by (auto simp: same_protection_def)
  have f: "first_match t' vpn = first_match t vpn" by (rule first_match_same [OF t'(2)])
  show ?thesis
  proof (cases "first_match t vpn")
    case None
    with Some t'(1) f show ?thesis by (simp add: mapping_def)
  next
    case i: (Some i)
    then have "i < length t" by (simp add: first_match_bound)
    then have "protection (t' ! i) = protection (t ! i)" by (rule protection_nth_eq [OF t'(2)])
    then show ?thesis by (simp add: mapping_def Some t'(1) f i)
  qed
qed

lemma entry_result_protection:
  "protection e' = protection e \<Longrightarrow> entry_result e' va w = entry_result e va w"
  by (simp add: entry_result_def protection_def)

lemma translate_result_same:
  assumes "same_protection m m'" "tables_ok m"
  shows "translate_result m' va sz w = translate_result m va sz w"
proof -
  let ?vpn = "va div word_of_nat PageSize"
  have t: "tlb m' = None \<longleftrightarrow> tlb m = None" "pageTableSize m' = pageTableSize m"
    using assms(1) by (auto simp: same_protection_def)
  have "map_option protection (mapping m' ?vpn) = map_option protection (mapping m ?vpn)"
    by (rule mapping_same [OF assms])
  then have "(case mapping m' ?vpn of Some e \<Rightarrow> entry_result e va w | None \<Rightarrow> x) =
      (case mapping m ?vpn of Some e \<Rightarrow> entry_result e va w | None \<Rightarrow> x)" for x
    by (cases "mapping m ?vpn"; cases "mapping m' ?vpn")
      (simp_all only: option.map option.case option.distinct option.inject, rule entry_result_protection)
  then show ?thesis unfolding translate_result_def t by (simp only:)
qed

lemma translate_result_read:
  "translate_result m va sz True = (NoException, pa) \<Longrightarrow> translate_result m va sz False = (NoException, pa)"
  by (auto simp: translate_result_def entry_result_def split: if_splits option.splits)

lemma translate_result_NoException:
  assumes "translate_result m va sz w = (NoException, pa)"
  obtains e where "mapping m (va div word_of_nat PageSize) = Some e" "\<not> (te_readOnly e \<and> w)"
    "te_physicalPage e < word_of_nat NumPhysPages"
    "unat pa = unat (te_physicalPage e) * PageSize + unat va mod PageSize"
    "sz = 4 \<longrightarrow> va AND 3 = 0" "sz = 2 \<longrightarrow> va AND 1 = 0"
proof -
  from assms obtain e where e: "mapping m (va div word_of_nat PageSize) = Some e"
      "\<not> (te_readOnly e \<and> w)" "te_physicalPage e < word_of_nat NumPhysPages"
      "pa = te_physicalPage e * word_of_nat PageSize + va mod word_of_nat PageSize"
      "sz = 4 \<longrightarrow> va AND 3 = 0" "sz = 2 \<longrightarrow> va AND 1 = 0"
    by (auto simp: translate_result_def entry_result_def not_le split: if_splits option.splits)
  with physical_address [OF e(3), of va] that show thesis by blast
qed

lemma same_frame:
  fixes a f :: nat
  assumes "a \<in> {p..<p + n}" "p = f * s + k" "k + n \<le> s"
  shows "a div s = f"
  using assms by (intro div_nat_eqI) (auto simp: mult.commute)

section \<open>Properties\<close>

text \<open>
  C37: \<open>Machine::Translate\<close> never fails an assertion or leaves its tables when the tables are well
  formed; the exception code and the physical address are those of \<open>translate_result\<close>, the
  address lies in main memory, and nothing but use and dirty bits changes.
\<close>

theorem Translate_correct:
  assumes "tables_ok m" "sz \<in> {1, 2, 4}"
  shows "\<exists>m'. Translate m va sz w = Inr (translate_result m va sz w, m') \<and> touched m m' \<and>
    (fst (translate_result m va sz w) \<noteq> NoException \<longrightarrow> m' = m) \<and>
    (fst (translate_result m va sz w) = NoException \<longrightarrow>
       in_memory (snd (translate_result m va sz w)) (nat sz))"
  using assms by (rule Translate_spec)

text \<open>A machine with one writable and one read-only page, for the witnesses.\<close>

definition two_pages :: machine where
  "two_pages = (Machine_Machine 2)\<lparr>pageTable := Some
     [\<lparr>te_virtualPage = 0, te_physicalPage = 5, te_valid = True, te_readOnly = False,
       te_use = False, te_dirty = False\<rparr>,
      \<lparr>te_virtualPage = 1, te_physicalPage = 3, te_valid = True, te_readOnly = True,
       te_use = False, te_dirty = False\<rparr>]\<rparr>"

lemma two_pages_ok: "tables_ok two_pages"
  by (simp add: two_pages_def tables_ok_def Machine_Machine_def)

lemma two_pages_result:
  "translate_result two_pages 8 4 True = (NoException, 648)"
  "translate_result two_pages 132 4 True = (ReadOnlyException, 0)"
  by (simp_all add: translate_result_def mapping_def two_pages_def Machine_Machine_def
      entry_result_def mem_sizes)

theorem Translate_correct_witness:
  "\<exists>m'. Translate two_pages 8 4 True = Inr ((NoException, 648), m') \<and> touched two_pages m'"
  using Translate_correct [OF two_pages_ok, of 4 8 True] by (auto simp: two_pages_result)

lemma WriteMem_frame:
  assumes "tables_ok m" "sz \<in> {1, 2, 4}"
  shows "\<exists>r. WriteMem m va sz v = Inr r \<and>
    (case r of
       Trap exc bad m' \<Rightarrow> exc \<noteq> NoException \<and> bad = va \<and> m' = m
     | Access _ m' \<Rightarrow>
         registers m' = registers m \<and> same_protection m m' \<and>
         (\<exists>e. mapping m (va div word_of_nat PageSize) = Some e \<and> \<not> te_readOnly e \<and>
            (\<forall>a. mainMemory m' a \<noteq> mainMemory m a \<longrightarrow> a div PageSize = unat (te_physicalPage e))))"
proof -
  obtain exc pa where r: "translate_result m va sz True = (exc, pa)" by fastforce
  from WriteMem_spec [OF assms r, of v] obtain m' where m': "touched m m'" "exc \<noteq> NoException \<longrightarrow> m' = m"
    "WriteMem m va sz v = Inr (if exc \<noteq> NoException then Trap exc va m'
           else Access () (m'\<lparr>mainMemory := store_bytes (nat sz) (unat pa) v (mainMemory m)\<rparr>))"
    by blast
  show ?thesis
  proof (cases "exc = NoException")
    case False
    with m' show ?thesis by simp
  next
    case True
    with r have "translate_result m va sz True = (NoException, pa)" by simp
    then obtain e where e: "mapping m (va div word_of_nat PageSize) = Some e" "\<not> te_readOnly e"
        "unat pa = unat (te_physicalPage e) * PageSize + unat va mod PageSize"
        "sz = 4 \<longrightarrow> va AND 3 = 0" "sz = 2 \<longrightarrow> va AND 1 = 0"
      by (elim translate_result_NoException) auto
    have al: "int (unat va mod PageSize) + sz \<le> int PageSize"
      using aligned_offset [OF e(4,5) assms(2)] .
    have "a div PageSize = unat (te_physicalPage e)"
      if "store_bytes (nat sz) (unat pa) v (mainMemory m) a \<noteq> mainMemory m a" for a
    proof -
      have "a \<in> {unat pa..<unat pa + nat sz}" using that store_bytes_other by metis
      moreover have "int (nat sz) = sz" using assms(2) by auto
      then have "unat va mod PageSize + nat sz \<le> PageSize" using al by linarith
      ultimately show ?thesis using e(3) by (intro same_frame)
    qed
    with True m' e show ?thesis by (auto simp: touched_def same_protection_def)
  qed
qed

lemma two_pages_mapping: "mapping two_pages (8 div word_of_nat PageSize) =
   Some \<lparr>te_virtualPage = 0, te_physicalPage = 5, te_valid = True, te_readOnly = False,
       te_use = False, te_dirty = False\<rparr>"
  by (simp add: mapping_def two_pages_def Machine_Machine_def mem_sizes)

text \<open>
  C26: memory protection.  A user-level store never fails the simulator, and the bytes it changes
  all lie in the frame of a page that is mapped valid and writable; every other byte of main
  memory and every register keeps its value.
\<close>

theorem WriteMem_isolation:
  assumes "tables_ok m" "sz \<in> {1, 2, 4}"
  shows "\<exists>r. WriteMem m va sz v = Inr r \<and>
    (case r of
       Trap exc bad m' \<Rightarrow> exc \<noteq> NoException \<and> bad = va \<and> m' = m
     | Access _ m' \<Rightarrow>
         registers m' = registers m \<and> same_protection m m' \<and>
         (\<exists>e. mapping m (va div word_of_nat PageSize) = Some e \<and> \<not> te_readOnly e \<and>
            (\<forall>a. mainMemory m' a \<noteq> mainMemory m a \<longrightarrow> a div PageSize = unat (te_physicalPage e))))"
  by (rule WriteMem_frame [OF assms])

theorem WriteMem_isolation_witness:
  "\<exists>m'. WriteMem two_pages 8 4 7 = Inr (Access () m') \<and>
     (\<forall>a. mainMemory m' a \<noteq> 0 \<longrightarrow> a div PageSize = 5)"
proof -
  have z: "mainMemory two_pages a = 0" for a by (simp add: two_pages_def Machine_Machine_def)
  obtain m' where m': "WriteMem two_pages 8 4 7 = Inr (Access () m')"
    using WriteMem_spec [OF two_pages_ok _ two_pages_result(1), of 7] by auto
  with WriteMem_isolation [OF two_pages_ok, of 4 8 7] two_pages_mapping z show ?thesis by auto
qed

text \<open>
  what a user program stores it reads back: after a successful \<open>WriteMem\<close> of 1, 2 or 4 bytes
  a \<open>ReadMem\<close> at the same virtual address and size succeeds and delivers the stored bytes, a
  single byte sign-extended, two bytes zero-extended.
\<close>

theorem ReadMem_after_WriteMem:
  assumes "tables_ok m" "sz \<in> {1, 2, 4}" "WriteMem m va sz v = Inr (Access () m1)"
  shows "\<exists>m2. ReadMem m1 va sz = Inr (Access
    (if sz = 1 then scast (ucast v :: u8) else take_bit (8 * nat sz) v) m2) \<and> touched m1 m2"
proof -
  obtain exc pa where r: "translate_result m va sz True = (exc, pa)" by fastforce
  from WriteMem_spec [OF assms(1,2) r, of v] assms(3) obtain m' where m': "touched m m'" "exc = NoException"
    "m1 = m'\<lparr>mainMemory := store_bytes (nat sz) (unat pa) v (mainMemory m)\<rparr>"
    by (auto split: if_splits)
  have same: "same_protection m m1" using m' by (simp add: touched_def same_protection_def)
  have "translate_result m1 va sz False = (NoException, pa)"
    using translate_result_read r m'(2) translate_result_same [OF same assms(1)] by simp
  from ReadMem_spec [OF _ assms(2) this] same_protection_tables_ok [OF same] assms(1)
  obtain m2 where m2: "touched m1 m2" "ReadMem m1 va sz = Inr (Access (read_value (mainMemory m1) pa sz) m2)"
    by auto
  have "read_value (mainMemory m1) pa sz = (if sz = 1 then scast (ucast v :: u8) else take_bit (8 * nat sz) v)"
    using m'(3) assms(2) store_bytes_at [of 0 1 "unat pa" v "mainMemory m"]
      load_store_bytes [of "nat sz" "unat pa" v "mainMemory m"]
    by (auto simp: read_value_def)
  with m2 show ?thesis by auto
qed

theorem ReadMem_after_WriteMem_witness:
  "\<exists>m1 m2. WriteMem two_pages 8 2 0x1FFFE = Inr (Access () m1) \<and>
     ReadMem m1 8 2 = Inr (Access 0xFFFE m2)"
proof -
  have r: "translate_result two_pages 8 2 True = (NoException, 648)"
    by (simp add: translate_result_def mapping_def two_pages_def Machine_Machine_def entry_result_def mem_sizes)
  obtain m1 where m1: "WriteMem two_pages 8 2 0x1FFFE = Inr (Access () m1)"
    using WriteMem_spec [OF two_pages_ok _ r, of "0x1FFFE"] by auto
  from ReadMem_after_WriteMem [OF two_pages_ok _ m1] have
    "\<exists>m2. ReadMem m1 8 2 = Inr (Access (take_bit 16 0x1FFFE) m2)" by force
  moreover have "take_bit 16 0x1FFFE = (0xFFFE :: u32)" by simp
  ultimately show ?thesis using m1 by metis
qed

section \<open>The register file\<close>

text \<open>
  Register 0 reads as zero and the pending delayed load names one of the general registers.  The
  kernel and the instructions keep this; it makes the dynamic register access of \<open>DelayedLoad\<close> safe.
\<close>

definition machine_ok :: "machine \<Rightarrow> bool" where
  "machine_ok m \<longleftrightarrow> tables_ok m \<and> registers m 0 = 0 \<and> registers m LoadReg < 32"

lemma set_reg_simps [simp]:
  "registers (set_reg n v m) = (registers m)(n := v)"
  "mainMemory (set_reg n v m) = mainMemory m"
  "tlb (set_reg n v m) = tlb m"
  "pageTable (set_reg n v m) = pageTable m"
  "pageTableSize (set_reg n v m) = pageTableSize m"
  by (simp_all add: set_reg_def)

lemma set_reg_tables_ok [simp]: "tables_ok (set_reg n v m) = tables_ok m"
  by (simp add: tables_ok_def split: option.split)

lemma load_target:
  assumes "(r :: u32) < 32"
  shows "sint r = int (unat r)" "unat r < 32" "uint r < 32"
proof -
  show "uint r < 32" using assms by (simp add: word_less_def)
  show "unat r < 32" using assms by (simp add: word_less_nat_alt)
  then show "sint r = int (unat r)" by (intro signed_small) simp
qed

lemma DelayedLoad_ok:
  assumes "registers m LoadReg < 32"
  shows "DelayedLoad m nextReg nextValue =
    Inr (set_reg 0 0 (set_reg LoadValueReg nextValue (set_reg LoadReg nextReg
      (set_reg (unat (registers m LoadReg)) (registers m LoadValueReg) m))))"
  using load_target [OF assms] by (simp add: DelayedLoad_def reg_numbers Let_def)

lemma DelayedLoad_machine_ok:
  assumes "tables_ok m" "registers m LoadReg < 32" "nextReg < 32"
  shows "\<exists>m'. DelayedLoad m nextReg nextValue = Inr m' \<and> machine_ok m' \<and>
    mainMemory m' = mainMemory m \<and> tlb m' = tlb m \<and> pageTable m' = pageTable m \<and>
    pageTableSize m' = pageTableSize m"
  using assms by (simp add: DelayedLoad_ok machine_ok_def reg_numbers)

end
