(* ===== verification/Mips.thy ===== *)
theory Mips
  imports Machine
begin

text \<open>
  The instruction set simulator, \<open>code/machine/mipssim.h\<close> and \<open>mipssim.cc\<close>: the decoding tables,
  \<open>Instruction::Decode\<close>, \<open>Machine::OneInstruction\<close> and \<open>Mult\<close>, as built with \<open>SIM_FIX\<close> for a
  little-endian host.

  The switch of \<open>OneInstruction\<close> is cut into groups of neighbouring cases; a group answers
  \<open>None\<close> for an opcode that is not one of its cases.  Signed overflow wraps, as the compilers the
  program is built with do it for these expressions; the one operation the host CPU refuses is the
  division of the least integer by -1, which is the fault \<open>ArithmeticTrap\<close>.  The instruction
  trace that debug flag 'm' prints is not modelled.
\<close>

section \<open>Opcodes and decoding tables\<close>

datatype (plugins only: code) opcode =
    OP_ADD | OP_ADDI | OP_ADDIU | OP_ADDU | OP_AND | OP_ANDI | OP_BEQ | OP_BGEZ | OP_BGEZAL | OP_BGTZ
  | OP_BLEZ | OP_BLTZ | OP_BLTZAL | OP_BNE | OP_DIV | OP_DIVU | OP_J | OP_JAL | OP_JALR | OP_JR
  | OP_LB | OP_LBU | OP_LH | OP_LHU | OP_LUI | OP_LW | OP_LWL | OP_LWR | OP_MFHI | OP_MFLO
  | OP_MTHI | OP_MTLO | OP_MULT | OP_MULTU | OP_NOR | OP_OR | OP_ORI | OP_RFE | OP_SB | OP_SH
  | OP_SLL | OP_SLLV | OP_SLT | OP_SLTI | OP_SLTIU | OP_SLTU | OP_SRA | OP_SRAV | OP_SRL | OP_SRLV
  | OP_SUB | OP_SUBU | OP_SW | OP_SWL | OP_SWR | OP_XOR | OP_XORI | OP_SYSCALL | OP_UNIMP | OP_RES

datatype op_entry = Op opcode | SPECIAL | BCOND

datatype op_format = IFMT | JFMT | RFMT

definition R31 :: nat where "R31 = 31"

definition SIGN_BIT :: u32 where "SIGN_BIT = 0x80000000"

definition IndexToAddr :: "u32 \<Rightarrow> u32" where "IndexToAddr x = push_bit 2 x"

definition opTable :: "(op_entry \<times> op_format) list" where
  "opTable =
    [(SPECIAL, RFMT), (BCOND, IFMT), (Op OP_J, JFMT), (Op OP_JAL, JFMT),
     (Op OP_BEQ, IFMT), (Op OP_BNE, IFMT), (Op OP_BLEZ, IFMT), (Op OP_BGTZ, IFMT),
     (Op OP_ADDI, IFMT), (Op OP_ADDIU, IFMT), (Op OP_SLTI, IFMT), (Op OP_SLTIU, IFMT),
     (Op OP_ANDI, IFMT), (Op OP_ORI, IFMT), (Op OP_XORI, IFMT), (Op OP_LUI, IFMT),
     (Op OP_UNIMP, IFMT), (Op OP_UNIMP, IFMT), (Op OP_UNIMP, IFMT), (Op OP_UNIMP, IFMT),
     (Op OP_RES, IFMT), (Op OP_RES, IFMT), (Op OP_RES, IFMT), (Op OP_RES, IFMT),
     (Op OP_RES, IFMT), (Op OP_RES, IFMT), (Op OP_RES, IFMT), (Op OP_RES, IFMT),
     (Op OP_RES, IFMT), (Op OP_RES, IFMT), (Op OP_RES, IFMT), (Op OP_RES, IFMT),
     (Op OP_LB, IFMT), (Op OP_LH, IFMT), (Op OP_LWL, IFMT), (Op OP_LW, IFMT),
     (Op OP_LBU, IFMT), (Op OP_LHU, IFMT), (Op OP_LWR, IFMT), (Op OP_RES, IFMT),
     (Op OP_SB, IFMT), (Op OP_SH, IFMT), (Op OP_SWL, IFMT), (Op OP_SW, IFMT),
     (Op OP_RES, IFMT), (Op OP_RES, IFMT), (Op OP_SWR, IFMT), (Op OP_RES, IFMT),
     (Op OP_UNIMP, IFMT), (Op OP_UNIMP, IFMT), (Op OP_UNIMP, IFMT), (Op OP_UNIMP, IFMT),
     (Op OP_RES, IFMT), (Op OP_RES, IFMT), (Op OP_RES, IFMT), (Op OP_RES, IFMT),
     (Op OP_UNIMP, IFMT), (Op OP_UNIMP, IFMT), (Op OP_UNIMP, IFMT), (Op OP_UNIMP, IFMT),
     (Op OP_RES, IFMT), (Op OP_RES, IFMT), (Op OP_RES, IFMT), (Op OP_RES, IFMT)]"

definition specialTable :: "opcode list" where
  "specialTable =
    [OP_SLL, OP_RES, OP_SRL, OP_SRA, OP_SLLV, OP_RES,
     OP_SRLV, OP_SRAV, OP_JR, OP_JALR, OP_RES, OP_RES,
     OP_SYSCALL, OP_UNIMP, OP_RES, OP_RES, OP_MFHI, OP_MTHI,
     OP_MFLO, OP_MTLO, OP_RES, OP_RES, OP_RES, OP_RES,
     OP_MULT, OP_MULTU, OP_DIV, OP_DIVU, OP_RES, OP_RES,
     OP_RES, OP_RES, OP_ADD, OP_ADDU, OP_SUB, OP_SUBU,
     OP_AND, OP_OR, OP_XOR, OP_NOR, OP_RES, OP_RES,
     OP_SLT, OP_SLTU, OP_RES, OP_RES, OP_RES, OP_RES,
     OP_RES, OP_RES, OP_RES, OP_RES, OP_RES, OP_RES,
     OP_RES, OP_RES, OP_RES, OP_RES, OP_RES, OP_RES,
     OP_RES, OP_RES, OP_RES, OP_RES]"

record instruction =
  i_value :: u32
  opCode :: opcode
  i_rs :: nat
  i_rt :: nat
  i_rd :: nat
  i_extra :: u32

definition Decode_BCOND :: "u32 \<Rightarrow> opcode" where
  "Decode_BCOND v =
     (let i = v AND 0x1f0000 in
      if i = 0 then OP_BLTZ
      else if i = 0x10000 then OP_BGEZ
      else if i = 0x100000 then OP_BLTZAL
      else if i = 0x110000 then OP_BGEZAL
      else OP_UNIMP)"

definition Decode :: "u32 \<Rightarrow> instruction" where
  "Decode v =
     (let (entry, format) = opTable ! unat (drop_bit 26 v AND 0x3f) in
      \<lparr>i_value = v,
       opCode = (case entry of
           Op oper \<Rightarrow> oper
         | SPECIAL \<Rightarrow> specialTable ! unat (v AND 0x3f)
         | BCOND \<Rightarrow> Decode_BCOND v),
       i_rs = unat (drop_bit 21 v AND 0x1f),
       i_rt = unat (drop_bit 16 v AND 0x1f),
       i_rd = unat (drop_bit 11 v AND 0x1f),
       i_extra = (case format of
           IFMT \<Rightarrow> (let e = v AND 0xffff in if e AND 0x8000 \<noteq> 0 then e OR 0xffff0000 else e)
         | RFMT \<Rightarrow> drop_bit 6 v AND 0x1f
         | JFMT \<Rightarrow> v AND 0x3ffffff)\<rparr>)"

section \<open>Multiplication\<close>

text \<open>The loop looks at one bit of \<open>a\<close> per round, lowest first, and adds a shifted \<open>b\<close>.\<close>

primrec Mult_loop :: "nat \<Rightarrow> u32 \<Rightarrow> u32 \<Rightarrow> u32 \<Rightarrow> u32 \<Rightarrow> u32 \<Rightarrow> u32 \<times> u32" where
  "Mult_loop 0 a bLo bHi lo hi = (hi, lo)"
| "Mult_loop (Suc n) a bLo bHi lo hi =
     (let lo' = lo + bLo;
          hi' = (if lo' < bLo then hi + 1 else hi) + bHi;
          bHi' = push_bit 1 bHi;
          bHi'' = (if bLo AND 0x80000000 \<noteq> 0 then bHi' OR 1 else bHi');
          bLo' = push_bit 1 bLo;
          a' = signed_drop_bit 1 a in
      if a AND 1 \<noteq> 0 then
        if a AND 0xfffffffe = 0 then (hi', lo')
        else Mult_loop n a' bLo' bHi'' lo' hi'
      else Mult_loop n a' bLo' bHi'' lo hi)"

definition Mult :: "u32 \<Rightarrow> u32 \<Rightarrow> bool \<Rightarrow> u32 \<times> u32" where
  "Mult a b signedArith =
     (if a = 0 \<or> b = 0 then (0, 0)
      else
        let a_negative = signedArith \<and> sint a < 0;
            b_negative = signedArith \<and> sint b < 0;
            a' = (if a_negative then - a else a);
            b' = (if b_negative then - b else b);
            (hi, lo) = Mult_loop 32 a' b' 0 0 0 in
        if a_negative \<noteq> b_negative then
          let hi = NOT hi; lo = NOT lo + 1 in (if lo = 0 then hi + 1 else hi, lo)
        else (hi, lo))"

section \<open>One instruction\<close>

text \<open>
  How the switch is left: with \<open>break\<close> (the machine, \<open>pcAfter\<close> and the delayed load to set up) or
  with \<open>RaiseException(which, badVAddr); return\<close>.
\<close>

datatype exec = Advance machine u32 u32 u32 | Raise exception u32 machine

definition advance :: "machine \<Rightarrow> u32 \<Rightarrow> exec res" where
  "advance m pcAfter = Inr (Advance m pcAfter 0 0)"

definition on_access :: "'a access res \<Rightarrow> ('a \<Rightarrow> machine \<Rightarrow> exec res) \<Rightarrow> exec res" where
  "on_access r f =
     bindr r (\<lambda>a. case a of Trap exc bad m \<Rightarrow> Inr (Raise exc bad m) | Access x m \<Rightarrow> f x m)"

definition exec_add_and :: "instruction \<Rightarrow> machine \<Rightarrow> u32 \<Rightarrow> exec res option" where
  "exec_add_and i m pcAfter =
     (let RS = registers m (i_rs i); RT = registers m (i_rt i); extra = i_extra i; oper = opCode i in
      if oper = OP_ADD then Some (
        let sum = RS + RT in
        if (RS XOR RT) AND SIGN_BIT = 0 \<and> (RS XOR sum) AND SIGN_BIT \<noteq> 0
        then Inr (Raise OverflowException 0 m)
        else advance (set_reg (i_rd i) sum m) pcAfter)
      else if oper = OP_ADDI then Some (
        let sum = RS + extra in
        if (RS XOR extra) AND SIGN_BIT = 0 \<and> (extra XOR sum) AND SIGN_BIT \<noteq> 0
        then Inr (Raise OverflowException 0 m)
        else advance (set_reg (i_rt i) sum m) pcAfter)
      else if oper = OP_ADDIU then Some (advance (set_reg (i_rt i) (RS + extra) m) pcAfter)
      else if oper = OP_ADDU then Some (advance (set_reg (i_rd i) (RS + RT) m) pcAfter)
      else if oper = OP_AND then Some (advance (set_reg (i_rd i) (RS AND RT) m) pcAfter)
      else if oper = OP_ANDI then Some (advance (set_reg (i_rt i) (RS AND (extra AND 0xffff)) m) pcAfter)
      else None)"

definition exec_branch :: "instruction \<Rightarrow> machine \<Rightarrow> u32 \<Rightarrow> exec res option" where
  "exec_branch i m pcAfter =
     (let RS = registers m (i_rs i); RT = registers m (i_rt i); oper = opCode i;
          next_pc = registers m NextPCReg;
          target = next_pc + IndexToAddr (i_extra i);
          link = set_reg R31 (next_pc + 4) m in
      if oper = OP_BEQ then Some (advance m (if RS = RT then target else pcAfter))
      else if oper = OP_BGEZAL then Some (
        advance link (if registers link (i_rs i) AND SIGN_BIT = 0 then target else pcAfter))
      else if oper = OP_BGEZ then Some (advance m (if RS AND SIGN_BIT = 0 then target else pcAfter))
      else if oper = OP_BGTZ then Some (advance m (if sint RS > 0 then target else pcAfter))
      else if oper = OP_BLEZ then Some (advance m (if sint RS \<le> 0 then target else pcAfter))
      else if oper = OP_BLTZAL then Some (
        advance link (if registers link (i_rs i) AND SIGN_BIT \<noteq> 0 then target else pcAfter))
      else if oper = OP_BLTZ then Some (advance m (if RS AND SIGN_BIT \<noteq> 0 then target else pcAfter))
      else if oper = OP_BNE then Some (advance m (if RS \<noteq> RT then target else pcAfter))
      else None)"

definition exec_div_jump :: "instruction \<Rightarrow> machine \<Rightarrow> u32 \<Rightarrow> exec res option" where
  "exec_div_jump i m pcAfter =
     (let RS = registers m (i_rs i); RT = registers m (i_rt i); oper = opCode i;
          next_pc = registers m NextPCReg;
          jump = (pcAfter AND 0xf0000000) OR IndexToAddr (i_extra i) in
      if oper = OP_DIV then Some (
        if RT = 0 then advance (set_reg HiReg 0 (set_reg LoReg 0 m)) pcAfter
        else if RS = SIGN_BIT \<and> RT = - 1 then Inl ArithmeticTrap
        else advance (set_reg HiReg (word_of_int (sint RS smod sint RT))
               (set_reg LoReg (word_of_int (sint RS sdiv sint RT)) m)) pcAfter)
      else if oper = OP_DIVU then Some (
        if RT = 0 then advance (set_reg HiReg 0 (set_reg LoReg 0 m)) pcAfter
        else advance (set_reg HiReg (RS mod RT) (set_reg LoReg (RS div RT) m)) pcAfter)
      else if oper = OP_JAL then Some (advance (set_reg R31 (next_pc + 4) m) jump)
      else if oper = OP_J then Some (advance m jump)
      else if oper = OP_JALR then Some (
        let m = set_reg (i_rd i) (next_pc + 4) m in advance m (registers m (i_rs i)))
      else if oper = OP_JR then Some (advance m RS)
      else None)"

definition exec_load :: "instruction \<Rightarrow> machine \<Rightarrow> u32 \<Rightarrow> exec res option" where
  "exec_load i m pcAfter =
     (let tmp = registers m (i_rs i) + i_extra i; oper = opCode i; rt = word_of_nat (i_rt i) in
      if oper = OP_LB \<or> oper = OP_LBU then Some (
        on_access (ReadMem m tmp 1) (\<lambda>v m.
        Inr (Advance m pcAfter rt
          (if v AND 0x80 \<noteq> 0 \<and> oper = OP_LB then v OR 0xffffff00 else v AND 0xff))))
      else if oper = OP_LH \<or> oper = OP_LHU then Some (
        if tmp AND 1 \<noteq> 0 then Inr (Raise AddressErrorException tmp m)
        else on_access (ReadMem m tmp 2) (\<lambda>v m.
        Inr (Advance m pcAfter rt
          (if v AND 0x8000 \<noteq> 0 \<and> oper = OP_LH then v OR 0xffff0000 else v AND 0xffff))))
      else if oper = OP_LUI then Some (advance (set_reg (i_rt i) (push_bit 16 (i_extra i)) m) pcAfter)
      else if oper = OP_LW then Some (
        if tmp AND 3 \<noteq> 0 then Inr (Raise AddressErrorException tmp m)
        else on_access (ReadMem m tmp 4) (\<lambda>v m. Inr (Advance m pcAfter rt v)))
      else None)"

text \<open>What \<open>LWL\<close> and \<open>LWR\<close> merge of an aligned word \<open>v\<close> into the old register value.\<close>

definition merge_lwl :: "u32 \<Rightarrow> u32 \<Rightarrow> u32 \<Rightarrow> u32" where
  "merge_lwl byte old v =
     (if 3 - byte = 0 then v
      else if 3 - byte = 1 then (old AND 0xff) OR push_bit 8 v
      else if 3 - byte = 2 then (old AND 0xffff) OR push_bit 16 v
      else (old AND 0xffffff) OR push_bit 24 v)"

definition merge_lwr :: "u32 \<Rightarrow> u32 \<Rightarrow> u32 \<Rightarrow> u32" where
  "merge_lwr byte old v =
     (if 3 - byte = 0 then (old AND 0xffffff00) OR (signed_drop_bit 24 v AND 0xff)
      else if 3 - byte = 1 then (old AND 0xffff0000) OR (signed_drop_bit 16 v AND 0xffff)
      else if 3 - byte = 2 then (old AND 0xff000000) OR (signed_drop_bit 8 v AND 0xffffff)
      else v)"

definition exec_lwl_lwr :: "instruction \<Rightarrow> machine \<Rightarrow> u32 \<Rightarrow> exec res option" where
  "exec_lwl_lwr i m pcAfter =
     (let tmp = registers m (i_rs i) + i_extra i; oper = opCode i; rt = word_of_nat (i_rt i);
          byte = tmp AND 3;
          load = (\<lambda>merge. on_access (ReadMem m (tmp - byte) 4) (\<lambda>v m.
            let old = (if registers m LoadReg = rt then registers m LoadValueReg
                       else registers m (i_rt i)) in
            Inr (Advance m pcAfter rt (merge byte old v)))) in
      if oper = OP_LWL then Some (load merge_lwl)
      else if oper = OP_LWR then Some (load merge_lwr)
      else None)"

definition exec_hilo_or :: "instruction \<Rightarrow> machine \<Rightarrow> u32 \<Rightarrow> exec res option" where
  "exec_hilo_or i m pcAfter =
     (let RS = registers m (i_rs i); RT = registers m (i_rt i); oper = opCode i;
          mult = (\<lambda>signedArith. let (hi, lo) = Mult RS RT signedArith in
            advance (set_reg LoReg lo (set_reg HiReg hi m)) pcAfter) in
      if oper = OP_MFHI then Some (advance (set_reg (i_rd i) (registers m HiReg) m) pcAfter)
      else if oper = OP_MFLO then Some (advance (set_reg (i_rd i) (registers m LoReg) m) pcAfter)
      else if oper = OP_MTHI then Some (advance (set_reg HiReg RS m) pcAfter)
      else if oper = OP_MTLO then Some (advance (set_reg LoReg RS m) pcAfter)
      else if oper = OP_MULT then Some (mult True)
      else if oper = OP_MULTU then Some (mult False)
      else if oper = OP_NOR then Some (advance (set_reg (i_rd i) (NOT (RS OR RT)) m) pcAfter)
      else if oper = OP_OR then Some (advance (set_reg (i_rd i) (RS OR RT) m) pcAfter)
      else if oper = OP_ORI then Some (
        advance (set_reg (i_rt i) (RS OR (i_extra i AND 0xffff)) m) pcAfter)
      else None)"

definition exec_store_set :: "instruction \<Rightarrow> machine \<Rightarrow> u32 \<Rightarrow> exec res option" where
  "exec_store_set i m pcAfter =
     (let RS = registers m (i_rs i); RT = registers m (i_rt i); extra = i_extra i; oper = opCode i;
          flag = (\<lambda>r b. advance (set_reg r (if b then 1 else 0) m) pcAfter) in
      if oper = OP_SB then Some (on_access (WriteMem m (RS + extra) 1 RT) (\<lambda>_ m. advance m pcAfter))
      else if oper = OP_SH then Some (on_access (WriteMem m (RS + extra) 2 RT) (\<lambda>_ m. advance m pcAfter))
      else if oper = OP_SLL then Some (advance (set_reg (i_rd i) (push_bit (unat extra) RT) m) pcAfter)
      else if oper = OP_SLLV then Some (
        advance (set_reg (i_rd i) (push_bit (unat (RS AND 0x1f)) RT) m) pcAfter)
      else if oper = OP_SLT then Some (flag (i_rd i) (sint RS < sint RT))
      else if oper = OP_SLTI then Some (flag (i_rt i) (sint RS < sint extra))
      else if oper = OP_SLTIU then Some (flag (i_rt i) (RS < extra))
      else if oper = OP_SLTU then Some (flag (i_rd i) (RS < RT))
      else None)"

definition exec_shift_sub :: "instruction \<Rightarrow> machine \<Rightarrow> u32 \<Rightarrow> exec res option" where
  "exec_shift_sub i m pcAfter =
     (let RS = registers m (i_rs i); RT = registers m (i_rt i); extra = i_extra i; oper = opCode i in
      if oper = OP_SRA then Some (
        advance (set_reg (i_rd i) (signed_drop_bit (unat extra) RT) m) pcAfter)
      else if oper = OP_SRAV then Some (
        advance (set_reg (i_rd i) (signed_drop_bit (unat (RS AND 0x1f)) RT) m) pcAfter)
      else if oper = OP_SRL then Some (
        let tmp = signed_drop_bit (unat extra) RT in advance (set_reg (i_rd i) tmp m) pcAfter)
      else if oper = OP_SRLV then Some (
        let tmp = signed_drop_bit (unat (RS AND 0x1f)) RT in advance (set_reg (i_rd i) tmp m) pcAfter)
      else if oper = OP_SUB then Some (
        let diff = RS - RT in
        if (RS XOR RT) AND SIGN_BIT \<noteq> 0 \<and> (RS XOR diff) AND SIGN_BIT \<noteq> 0
        then Inr (Raise OverflowException 0 m)
        else advance (set_reg (i_rd i) diff m) pcAfter)
      else if oper = OP_SUBU then Some (advance (set_reg (i_rd i) (RS - RT) m) pcAfter)
      else if oper = OP_SW then Some (on_access (WriteMem m (RS + extra) 4 RT) (\<lambda>_ m. advance m pcAfter))
      else None)"

text \<open>What \<open>SWL\<close> and \<open>SWR\<close> make of the aligned word \<open>v\<close> in memory and the register \<open>r\<close>.\<close>

definition merge_swl :: "u32 \<Rightarrow> u32 \<Rightarrow> u32 \<Rightarrow> u32" where
  "merge_swl byte v r =
     (if 3 - byte = 0 then r
      else if 3 - byte = 1 then (v AND 0xff000000) OR (signed_drop_bit 8 r AND 0xffffff)
      else if 3 - byte = 2 then (v AND 0xffff0000) OR (signed_drop_bit 16 r AND 0xffff)
      else (v AND 0xffffff00) OR (signed_drop_bit 24 r AND 0xff))"

definition merge_swr :: "u32 \<Rightarrow> u32 \<Rightarrow> u32 \<Rightarrow> u32" where
  "merge_swr byte v r =
     (if 3 - byte = 0 then (v AND 0xffffff) OR push_bit 24 r
      else if 3 - byte = 1 then (v AND 0xffff) OR push_bit 16 r
      else if 3 - byte = 2 then (v AND 0xff) OR push_bit 8 r
      else r)"

definition exec_swl_swr :: "instruction \<Rightarrow> machine \<Rightarrow> u32 \<Rightarrow> exec res option" where
  "exec_swl_swr i m pcAfter =
     (let tmp = registers m (i_rs i) + i_extra i; oper = opCode i; byte = tmp AND 3;
          store = (\<lambda>merge. on_access (ReadMem m (tmp - byte) 4) (\<lambda>v m.
            on_access (WriteMem m (tmp - byte) 4 (merge byte v (registers m (i_rt i)))) (\<lambda>_ m.
            advance m pcAfter))) in
      if oper = OP_SWL then Some (store merge_swl)
      else if oper = OP_SWR then Some (store merge_swr)
      else None)"

definition exec_system_xor :: "instruction \<Rightarrow> machine \<Rightarrow> u32 \<Rightarrow> exec res option" where
  "exec_system_xor i m pcAfter =
     (let RS = registers m (i_rs i); RT = registers m (i_rt i); oper = opCode i in
      if oper = OP_SYSCALL then Some (Inr (Raise SyscallException 0 m))
      else if oper = OP_XOR then Some (advance (set_reg (i_rd i) (RS XOR RT) m) pcAfter)
      else if oper = OP_XORI then Some (
        advance (set_reg (i_rt i) (RS XOR (i_extra i AND 0xffff)) m) pcAfter)
      else if oper = OP_RES \<or> oper = OP_UNIMP then Some (Inr (Raise IllegalInstrException 0 m))
      else None)"

primrec first_case :: "exec res option list \<Rightarrow> exec res" where
  "first_case [] = Inl AssertionFailed"
| "first_case (r # rs) = (case r of None \<Rightarrow> first_case rs | Some x \<Rightarrow> x)"

definition exec_switch :: "instruction \<Rightarrow> machine \<Rightarrow> u32 \<Rightarrow> exec res" where
  "exec_switch i m pcAfter =
     first_case
       [exec_add_and i m pcAfter, exec_branch i m pcAfter, exec_div_jump i m pcAfter,
        exec_load i m pcAfter, exec_lwl_lwr i m pcAfter, exec_hilo_or i m pcAfter,
        exec_store_set i m pcAfter, exec_shift_sub i m pcAfter, exec_swl_swr i m pcAfter,
        exec_system_xor i m pcAfter]"

text \<open>Fetch, decode and execute; then the delayed load and the program counters.\<close>

definition fetch_execute :: "machine \<Rightarrow> exec res" where
  "fetch_execute m =
     on_access (ReadMem m (registers m PCReg) 4) (\<lambda>raw m.
     exec_switch (Decode raw) m (registers m NextPCReg + 4))"

definition OneInstruction :: "(exception \<Rightarrow> machine \<Rightarrow> machine res) \<Rightarrow> machine \<Rightarrow> machine res" where
  "OneInstruction handler m =
     bindr (fetch_execute m) (\<lambda>r.
     case r of
       Raise which badVAddr m \<Rightarrow> RaiseException handler m which badVAddr
     | Advance m pcAfter nextLoadReg nextLoadValue \<Rightarrow>
         bindr (DelayedLoad m nextLoadReg nextLoadValue) (\<lambda>m.
         let m = set_reg PrevPCReg (registers m PCReg) m;
             m = set_reg PCReg (registers m NextPCReg) m in
         Inr (set_reg NextPCReg pcAfter m)))"

end
