(* ===== verification/Mips_Correct.thy ===== *)
theory Mips_Correct
  imports Mips
begin

text \<open>
  What the instruction set simulator guarantees: the multiplication loop computes the 64-bit
  product, \<open>LWL\<close>/\<open>LWR\<close> and \<open>SWL\<close>/\<open>SWR\<close> pairs move unaligned words, an instruction can neither
  corrupt the simulator nor reach memory that is not mapped, and a trapped instruction leaves the
  machine as it was.
\<close>

section \<open>Decoding\<close>

lemma unat_and_mask: "unat ((v :: u32) AND mask k) = unat v mod 2 ^ k"
  unfolding take_bit_eq_mask [symmetric] unsigned_take_bit_eq by (rule take_bit_eq_mod)

lemma mask_numerals: "0x1f = (mask 5 :: u32)" "0x3f = (mask 6 :: u32)" "3 = (mask 2 :: u32)"
  "1 = (mask 1 :: u32)"
  by (simp_all add: mask_eq_exp_minus_1)

lemma and_small: "unat ((v :: u32) AND 0x1f) < 32" "unat (v AND 0x3f) < 64"
  unfolding mask_numerals unat_and_mask by simp_all

definition instr_ok :: "instruction \<Rightarrow> bool" where
  "instr_ok i \<longleftrightarrow> i_rs i < 32 \<and> i_rt i < 32 \<and> i_rd i < 32 \<and> opCode i \<noteq> OP_RFE"

lemma special_no_RFE: "OP_RFE \<notin> set specialTable"
  by (simp add: specialTable_def)

lemma opTable_no_RFE: "Op OP_RFE \<notin> fst ` set opTable"
  by (simp add: opTable_def)

lemma Decode_ok: "instr_ok (Decode v)"
proof -
  have r: "unat (w AND 0x1f) < 32" for w :: u32
    by (rule and_small)
  have s: "specialTable ! unat (v AND 0x3f) \<noteq> OP_RFE"
    using special_no_RFE and_small(2) [of v] nth_mem [of "unat (v AND 0x3f)" specialTable]
    by (auto simp: specialTable_def)
  obtain entry format where e: "opTable ! unat (drop_bit 26 v AND 0x3f) = (entry, format)" by fastforce
  have "length opTable = 64" by (simp add: opTable_def)
  then have "opTable ! unat (drop_bit 26 v AND 0x3f) \<in> set opTable"
    using and_small(2) [of "drop_bit 26 v"] by (intro nth_mem) simp
  then have "entry \<noteq> Op OP_RFE" using opTable_no_RFE e by force
  with r s e show ?thesis
    by (auto simp: instr_ok_def Decode_def Decode_BCOND_def Let_def split: op_entry.split)
qed

section \<open>Every instruction stays inside the machine\<close>

text \<open>Memory may change only in frames that \<open>m\<close> maps writable.\<close>

definition writable :: "machine \<Rightarrow> nat \<Rightarrow> bool" where
  "writable m a \<longleftrightarrow> (\<exists>vpn e. mapping m vpn = Some e \<and> \<not> te_readOnly e \<and>
     a div PageSize = unat (te_physicalPage e))"

definition mem_frame :: "machine \<Rightarrow> machine \<Rightarrow> bool" where
  "mem_frame m m' \<longleftrightarrow> (\<forall>a. mainMemory m' a \<noteq> mainMemory m a \<longrightarrow> writable m a)"

lemma writable_same:
  assumes "same_protection m m'" "tables_ok m" "writable m' a" shows "writable m a"
proof -
  from assms(3) obtain vpn e where e: "mapping m' vpn = Some e" "\<not> te_readOnly e"
    "a div PageSize = unat (te_physicalPage e)" by (auto simp: writable_def)
  from mapping_same [OF assms(1,2), of vpn] e(1) obtain e' where
    "mapping m vpn = Some e'" "protection e' = protection e" by (cases "mapping m vpn") auto
  with e(2,3) have "\<not> te_readOnly e'" "a div PageSize = unat (te_physicalPage e')"
    by (auto simp: protection_def)
  with \<open>mapping m vpn = Some e'\<close> show ?thesis unfolding writable_def by blast
qed

lemma mem_frame_refl [simp]: "mainMemory m' = mainMemory m \<Longrightarrow> mem_frame m m'"
  by (simp add: mem_frame_def)

lemma mem_frame_trans:
  "mem_frame a b \<Longrightarrow> same_protection a b \<Longrightarrow> tables_ok a \<Longrightarrow> mem_frame b c \<Longrightarrow> mem_frame a c"
  unfolding mem_frame_def by (metis writable_same)

text \<open>
  What the execution of an instruction that does not fault may do: an advance changes only general
  registers, \<open>Hi\<close> and \<open>Lo\<close>; a trap leaves registers and memory alone.
\<close>

definition exec_fine :: "bool \<Rightarrow> machine \<Rightarrow> exec res \<Rightarrow> bool" where
  "exec_fine d m r = (case r of
     Inl f \<Rightarrow> d \<and> f = ArithmeticTrap
   | Inr (Advance m' pcAfter nl nv) \<Rightarrow>
       same_protection m m' \<and> mem_frame m m' \<and> nl < 32 \<and>
       (\<forall>n \<ge> PCReg. registers m' n = registers m n)
   | Inr (Raise exc bad m') \<Rightarrow> exc \<noteq> NoException \<and> touched m m')"

lemma exec_fine_touched:
  assumes "touched m m'" "tables_ok m" "exec_fine d m' r" shows "exec_fine d m r"
  using assms mem_frame_trans [OF mem_frame_refl _ assms(2), of m']
  by (auto simp: exec_fine_def touched_def split: sum.splits exec.splits
      intro: same_protection_trans)

lemma exec_fine_advance [simp]:
  "same_protection m m' \<Longrightarrow> mem_frame m m' \<Longrightarrow> (\<forall>n \<ge> PCReg. registers m' n = registers m n) \<Longrightarrow>
   exec_fine d m (advance m' pcAfter)"
  by (simp add: exec_fine_def advance_def)

lemma exec_fine_simps [simp]:
  "exec_fine d m (Inr (Raise exc bad m')) \<longleftrightarrow> exc \<noteq> NoException \<and> touched m m'"
  "exec_fine d m (Inl f) \<longleftrightarrow> d \<and> f = ArithmeticTrap"
  "exec_fine d m (Inr (Advance m' pcAfter nl nv)) \<longleftrightarrow>
     same_protection m m' \<and> mem_frame m m' \<and> nl < 32 \<and> (\<forall>n \<ge> PCReg. registers m' n = registers m n)"
  by (simp_all add: exec_fine_def)

lemma ReadMem_fine:
  assumes "tables_ok m" "sz \<in> {1, 2, 4}" "\<And>v m'. touched m m' \<Longrightarrow> tables_ok m' \<Longrightarrow> exec_fine d m' (f v m')"
  shows "exec_fine d m (on_access (ReadMem m va sz) f)"
proof -
  obtain exc pa where r: "translate_result m va sz False = (exc, pa)" by fastforce
  from ReadMem_spec [OF assms(1,2) r] obtain m' where m': "touched m m'"
    "ReadMem m va sz =
      Inr (if exc \<noteq> NoException then Trap exc va m' else Access (read_value (mainMemory m) pa sz) m')"
    by blast
  then have "tables_ok m'" using assms(1) same_protection_tables_ok [of m m'] by (simp add: touched_def)
  with m' assms(1) exec_fine_touched [OF m'(1) assms(1)] assms(3) [OF m'(1)]
  show ?thesis by (simp add: on_access_def)
qed

lemma WriteMem_fine:
  assumes "tables_ok m" "sz \<in> {1, 2, 4}"
    "\<And>m'. same_protection m m' \<Longrightarrow> mem_frame m m' \<Longrightarrow> registers m' = registers m \<Longrightarrow> exec_fine d m (f () m')"
  shows "exec_fine d m (on_access (WriteMem m va sz v) f)"
proof -
  from WriteMem_frame [OF assms(1,2), of va v] obtain r where r: "WriteMem m va sz v = Inr r"
    "case r of
       Trap exc bad m' \<Rightarrow> exc \<noteq> NoException \<and> bad = va \<and> m' = m
     | Access _ m' \<Rightarrow>
         registers m' = registers m \<and> same_protection m m' \<and>
         (\<exists>e. mapping m (va div word_of_nat PageSize) = Some e \<and> \<not> te_readOnly e \<and>
            (\<forall>a. mainMemory m' a \<noteq> mainMemory m a \<longrightarrow> a div PageSize = unat (te_physicalPage e)))"
    by blast
  show ?thesis
  proof (cases r)
    case (Trap exc bad m')
    with r show ?thesis by (simp add: on_access_def)
  next
    case (Access u m')
    with r have "mem_frame m m'" by (auto simp: mem_frame_def writable_def)
    with r Access assms(3) [of m'] show ?thesis by (simp add: on_access_def)
  qed
qed

lemma same_protection_set_reg [simp]: "same_protection m (set_reg n v m') \<longleftrightarrow> same_protection m m'"
  by (simp add: same_protection_def)

lemma mem_frame_set_reg [simp]: "mem_frame m (set_reg n v m') \<longleftrightarrow> mem_frame m m'"
  by (simp add: mem_frame_def)

lemma rt_small: "r < 32 \<Longrightarrow> (word_of_nat r :: u32) < 32"
  by (simp add: word_less_nat_alt unat_of_nat)

lemmas exec_groups = exec_add_and_def exec_branch_def exec_div_jump_def exec_load_def
  exec_lwl_lwr_def exec_hilo_or_def exec_store_set_def exec_shift_sub_def exec_swl_swr_def
  exec_system_xor_def

text \<open>The one division the host CPU refuses.\<close>

definition div_overflow :: "instruction \<Rightarrow> machine \<Rightarrow> bool" where
  "div_overflow i m \<longleftrightarrow>
     opCode i = OP_DIV \<and> registers m (i_rs i) = SIGN_BIT \<and> registers m (i_rt i) = - 1"

lemmas fine_simps = div_overflow_def Let_def instr_ok_def reg_numbers R31_def rt_small

lemma exec_add_and_fine:
  assumes "instr_ok i" "tables_ok m" "exec_add_and i m pc = Some r"
  shows "exec_fine (div_overflow i m) m r"
  using assms by (auto simp: exec_add_and_def fine_simps split: if_splits)

lemma exec_branch_fine:
  assumes "instr_ok i" "tables_ok m" "exec_branch i m pc = Some r"
  shows "exec_fine (div_overflow i m) m r"
  using assms by (auto simp: exec_branch_def fine_simps split: if_splits)

lemma exec_div_jump_fine:
  assumes "instr_ok i" "tables_ok m" "exec_div_jump i m pc = Some r"
  shows "exec_fine (div_overflow i m) m r"
  using assms by (auto simp: exec_div_jump_def fine_simps split: if_splits)

lemma exec_hilo_or_fine:
  assumes "instr_ok i" "tables_ok m" "exec_hilo_or i m pc = Some r"
  shows "exec_fine (div_overflow i m) m r"
  using assms by (auto simp: exec_hilo_or_def fine_simps split: if_splits prod.splits)

lemma exec_system_xor_fine:
  assumes "instr_ok i" "tables_ok m" "exec_system_xor i m pc = Some r"
  shows "exec_fine (div_overflow i m) m r"
  using assms by (auto simp: exec_system_xor_def fine_simps split: if_splits)

lemma exec_load_fine:
  assumes "instr_ok i" "tables_ok m" "exec_load i m pc = Some r"
  shows "exec_fine (div_overflow i m) m r"
  using assms by (auto simp: exec_load_def fine_simps split: if_splits intro!: ReadMem_fine)

lemma exec_lwl_lwr_fine:
  assumes "instr_ok i" "tables_ok m" "exec_lwl_lwr i m pc = Some r"
  shows "exec_fine (div_overflow i m) m r"
  using assms by (auto simp: exec_lwl_lwr_def fine_simps split: if_splits intro!: ReadMem_fine)

lemma exec_store_set_fine:
  assumes "instr_ok i" "tables_ok m" "exec_store_set i m pc = Some r"
  shows "exec_fine (div_overflow i m) m r"
  using assms by (auto simp: exec_store_set_def fine_simps split: if_splits intro!: WriteMem_fine)

lemma exec_shift_sub_fine:
  assumes "instr_ok i" "tables_ok m" "exec_shift_sub i m pc = Some r"
  shows "exec_fine (div_overflow i m) m r"
  using assms by (auto simp: exec_shift_sub_def fine_simps split: if_splits intro!: WriteMem_fine)

lemma exec_swl_swr_fine:
  assumes "instr_ok i" "tables_ok m" "exec_swl_swr i m pc = Some r"
  shows "exec_fine (div_overflow i m) m r"
  using assms by (auto simp: exec_swl_swr_def fine_simps split: if_splits intro!: ReadMem_fine WriteMem_fine)

lemmas exec_groups_fine = exec_add_and_fine exec_branch_fine exec_div_jump_fine exec_hilo_or_fine
  exec_system_xor_fine exec_load_fine exec_lwl_lwr_fine exec_store_set_fine exec_shift_sub_fine
  exec_swl_swr_fine

text \<open>Every opcode \<open>Decode\<close> can produce is a case of the switch.\<close>

lemma exec_switch_covers:
  assumes "opCode i \<noteq> OP_RFE"
  shows "\<exists>g \<in> {exec_add_and, exec_branch, exec_div_jump, exec_load, exec_lwl_lwr, exec_hilo_or,
      exec_store_set, exec_shift_sub, exec_swl_swr, exec_system_xor}.
    g i m pc \<noteq> None"
  using assms by (cases "opCode i") (simp_all add: exec_groups Let_def)

lemma first_case_Some:
  "\<exists>r \<in> set rs. r \<noteq> None \<Longrightarrow> \<exists>x. Some x \<in> set rs \<and> first_case rs = x"
  by (induction rs) (auto split: option.split)

lemma exec_switch_fine:
  assumes "instr_ok i" "tables_ok m"
  shows "exec_fine (div_overflow i m) m (exec_switch i m pc)"
proof -
  let ?rs = "[exec_add_and i m pc, exec_branch i m pc, exec_div_jump i m pc,
        exec_load i m pc, exec_lwl_lwr i m pc, exec_hilo_or i m pc,
        exec_store_set i m pc, exec_shift_sub i m pc, exec_swl_swr i m pc, exec_system_xor i m pc]"
  have "\<exists>r \<in> set ?rs. r \<noteq> None"
    using exec_switch_covers [of i m pc] assms(1) by (auto simp: instr_ok_def)
  then obtain x where "Some x \<in> set ?rs" "exec_switch i m pc = x"
    using first_case_Some unfolding exec_switch_def by blast
  then show ?thesis using exec_groups_fine [OF assms] by auto
qed

lemma fetch_execute_fine:
  assumes "tables_ok m"
  shows "exec_fine (\<exists>raw m'. ReadMem m (registers m PCReg) 4 = Inr (Access raw m') \<and>
    div_overflow (Decode raw) m) m (fetch_execute m)"
proof -
  obtain exc pa where r: "translate_result m (registers m PCReg) 4 False = (exc, pa)" by fastforce
  from ReadMem_spec [OF assms _ r] obtain m' where m': "touched m m'"
    "ReadMem m (registers m PCReg) 4 = Inr (if exc \<noteq> NoException then Trap exc (registers m PCReg) m'
       else Access (read_value (mainMemory m) pa 4) m')" by blast
  let ?raw = "read_value (mainMemory m) pa 4"
  have "tables_ok m'" using m'(1) assms same_protection_tables_ok [of m m'] by (simp add: touched_def)
  then have "exec_fine (div_overflow (Decode ?raw) m') m' (exec_switch (Decode ?raw) m' (registers m' NextPCReg + 4))"
    by (rule exec_switch_fine [OF Decode_ok])
  from exec_fine_touched [OF m'(1) assms this] m' show ?thesis
    by (cases "exc = NoException")
      (auto simp: fetch_execute_def on_access_def touched_def div_overflow_def
        exec_fine_def split: sum.splits exec.splits)
qed

section \<open>Multiplication\<close>

text \<open>The register pair as one 64-bit word.\<close>

definition hilo :: "u32 \<Rightarrow> u32 \<Rightarrow> 64 word" where
  "hilo hi lo = ucast hi * 4294967296 + ucast lo"

lemma uint_hilo: "uint (hilo hi lo) = uint hi * 2 ^ 32 + uint lo"
proof -
  have "uint hi < 4294967296" "uint lo < 4294967296" "0 \<le> uint hi" "0 \<le> uint lo"
    using uint_lt2p [of hi] uint_lt2p [of lo] by simp_all
  moreover have "uint (ucast w :: 64 word) = uint w" for w :: u32
    by (simp add: unsigned_ucast_eq take_bit_int_eq_self order.strict_trans2 [OF uint_lt2p])
  ultimately show ?thesis
    by (simp add: hilo_def uint_word_ariths)
qed

text \<open>A carry out of the low word is \<open>lo + b < b\<close>.\<close>

lemma ucast_add_carry:
  "(ucast (x + y :: u32) :: 64 word) = ucast x + ucast y - (if x + y < y then 4294967296 else 0)"
proof -
  have b: "uint x < 4294967296" "uint y < 4294967296" "0 \<le> uint x" "0 \<le> uint y"
    using uint_lt2p [of x] uint_lt2p [of y] by simp_all
  have s: "uint (x + y) = (if uint x + uint y < 4294967296 then uint x + uint y
      else uint x + uint y - 4294967296)"
    using uint_plus_if' [of x y] by simp
  then have "x + y < y \<longleftrightarrow> \<not> uint x + uint y < 4294967296"
    using b by (simp add: word_less_def)
  with s have "uint (x + y) = uint x + uint y - (if x + y < y then 4294967296 else 0)" by simp
  then have "(of_int (uint (x + y)) :: 64 word) =
      of_int (uint x + uint y - (if x + y < y then 4294967296 else 0))" by (rule arg_cong)
  then show ?thesis by (cases "x + y < y") simp_all
qed

text \<open>In the high word only the value modulo $2^{32}$ counts.\<close>

lemma ucast_add_high:
  "(ucast (x + y :: u32) :: 64 word) * 4294967296 = ucast x * 4294967296 + ucast y * 4294967296"
  by (simp add: ucast_add_carry distrib_right left_diff_distrib)

lemma hilo_add:
  "hilo ((if lo + bLo < bLo then hi + 1 else hi) + bHi) (lo + bLo) = hilo hi lo + hilo bHi bLo"
  by (simp add: hilo_def ucast_add_high ucast_add_carry [of lo bLo])

text \<open>Shifting the pair \<open>b\<close> left, the top bit of the low word moving over, doubles it.\<close>

lemma hilo_double:
  "hilo (if bLo AND 0x80000000 \<noteq> 0 then push_bit 1 bHi OR 1 else push_bit 1 bHi) (push_bit 1 bLo) =
    2 * hilo bHi bLo"
proof -
  have p31: "push_bit 31 1 = (0x80000000 :: u32)" by simp
  have range: "uint bLo < 4294967296" "0 \<le> uint bLo" using uint_lt2p [of bLo] by simp_all
  have "bLo AND 0x80000000 \<noteq> 0 \<longleftrightarrow> bit bLo 31"
    unfolding bit_iff_and_push_bit_not_eq_0 p31 ..
  also have "\<dots> \<longleftrightarrow> odd (uint bLo div 2147483648)"
    using bit_uint_iff [of bLo 31] by (simp add: bit_iff_odd [of "uint bLo"])
  also have "\<dots> \<longleftrightarrow> 2147483648 \<le> uint bLo"
  proof (cases "2147483648 \<le> uint bLo")
    case True
    with range have "uint bLo div 2147483648 = 1"
      by (intro int_div_pos_eq [of _ _ _ "uint bLo - 2147483648"]) simp_all
    with True show ?thesis by simp
  qed (use range in \<open>simp add: div_pos_pos_trivial\<close>)
  also have "\<dots> \<longleftrightarrow> bLo + bLo < bLo"
    using range uint_plus_if' [of bLo bLo] by (simp add: word_less_def split: if_splits)
  finally have top: "bLo AND 0x80000000 \<noteq> 0 \<longleftrightarrow> bLo + bLo < bLo" .
  have "push_bit 1 bHi AND 1 = 0" by (simp add: and_one_eq mod_2_eq_odd)
  then have "push_bit 1 bHi OR 1 = push_bit 1 bHi + 1" by (simp only: disjunctive_add_eq_or)
  moreover have pb: "push_bit 1 x = x + x" for x :: u32 by (simp add: push_bit_eq_mult)
  ultimately have "(bHi + bHi) OR 1 = (bHi + bHi) + 1" by (simp only: pb)
  then have eqs: "(bHi + bHi) OR 1 = bHi + 1 + bHi" "push_bit 1 bHi = bHi + bHi" "push_bit 1 bLo = bLo + bLo"
    by (simp_all only: pb add.assoc add.commute add.left_commute)
  have "(if bLo AND 0x80000000 \<noteq> 0 then push_bit 1 bHi OR 1 else push_bit 1 bHi) =
      (if bLo + bLo < bLo then bHi + 1 else bHi) + bHi"
    unfolding top eqs(1,2) by (cases "bLo + bLo < bLo") (simp_all only: if_True if_False)
  then show ?thesis unfolding eqs(3) by (simp only: hilo_add) (rule mult_2 [symmetric])
qed


text \<open>The value of the bits of \<open>a\<close> still to come, lowest first.\<close>

lemma take_bit_shift:
  assumes "n < 32"
  shows "(ucast (take_bit (Suc n) a :: u32) :: 64 word) =
    (if a AND 1 \<noteq> 0 then 1 else 0) + 2 * ucast (take_bit n (signed_drop_bit 1 a))"
proof -
  have "(ucast (take_bit (Suc n) a) :: 64 word) = take_bit (Suc n) (ucast a)"
    using assms by (intro bit_word_eqI) (auto simp: bit_simps)
  also have "\<dots> = take_bit n (ucast a div 2) * 2 + ucast a mod 2" by (rule take_bit_Suc)
  also have "take_bit n (ucast a div 2) = take_bit n (drop_bit 1 (ucast a :: 64 word))"
    by (simp add: drop_bit_eq_div)
  also have "\<dots> = ucast (take_bit n (signed_drop_bit 1 a))"
    using assms by (intro bit_word_eqI) (auto simp: bit_simps)
  also have "(ucast a :: 64 word) mod 2 = (if a AND 1 \<noteq> 0 then 1 else 0)"
  proof -
    have "bit (ucast a :: 64 word) 0 \<longleftrightarrow> bit a 0" by (simp only: bit_ucast_iff) simp
    then show ?thesis by (simp add: mod_2_eq_odd and_one_eq bit_0)
  qed
  finally show ?thesis by (simp add: mult.commute add.commute)
qed

lemma Mult_loop_correct:
  assumes "n \<le> 32" "Mult_loop n a bLo bHi lo hi = (h, l)"
  shows "hilo h l = hilo hi lo + ucast (take_bit n a) * hilo bHi bLo"
  using assms
proof (induction n arbitrary: a bLo bHi lo hi)
  case 0
  then show ?case by simp
next
  case (Suc n)
  note tb = take_bit_shift [of n a] 
  have ones: "ucast (take_bit (Suc n) a) = (1 :: 64 word)" if "a AND 1 \<noteq> 0" "a AND 0xfffffffe = 0"
  proof -
    have "\<not> bit a k" if "0 < k" "k < 32" for k
    proof -
      have "\<not> bit (a AND 0xfffffffe) k" using \<open>a AND 0xfffffffe = 0\<close> by simp
      moreover have "(0xfffffffe :: u32) = NOT 1" by simp
      ultimately show ?thesis using that by (simp add: bit_simps)
    qed
    moreover have "bit a 0" using \<open>a AND 1 \<noteq> 0\<close> by (simp add: and_one_eq bit_0 mod_2_eq_odd)
    ultimately have "bit a k = bit 1 k" if "k < 32" for k
      using that by (cases "k = 0") (simp_all add: bit_1_iff)
    then have "a = 1" by (intro bit_word_eqI) simp
    then show ?thesis by simp
  qed
  let ?lo = "lo + bLo" and ?hi = "(if lo + bLo < bLo then hi + 1 else hi) + bHi"
  let ?bHi = "if bLo AND 0x80000000 \<noteq> 0 then push_bit 1 bHi OR 1 else push_bit 1 bHi"
  consider "a AND 1 \<noteq> 0" "a AND 0xfffffffe = 0" "(h, l) = (?hi, ?lo)"
    | "a AND 1 \<noteq> 0" "Mult_loop n (signed_drop_bit 1 a) (push_bit 1 bLo) ?bHi ?lo ?hi = (h, l)"
    | "a AND 1 = 0" "Mult_loop n (signed_drop_bit 1 a) (push_bit 1 bLo) ?bHi lo hi = (h, l)"
    using Suc.prems(2) unfolding Mult_loop.simps Let_def
    by (cases "a AND 1 = 0"; cases "a AND 0xfffffffe = 0")
      (simp_all only: if_True if_False not_True_eq_False not_False_eq_True simp_thms)
  then show ?case
  proof cases
    case 1
    with ones [OF 1(1,2)] show ?thesis by (simp add: hilo_add)
  next
    case 2
    have ih: "hilo h l = (hilo hi lo + hilo bHi bLo) +
        ucast (take_bit n (signed_drop_bit 1 a)) * (2 * hilo bHi bLo)"
      using Suc.IH [OF _ 2(2)] Suc.prems(1) unfolding hilo_add hilo_double by simp
    have t: "ucast (take_bit (Suc n) a) = (1 :: 64 word) + 2 * ucast (take_bit n (signed_drop_bit 1 a))"
      using tb 2(1) Suc.prems(1) by simp
    show ?thesis unfolding ih t by (simp only: distrib_right distrib_left mult_1 add.assoc mult.assoc mult.left_commute)
  next
    case 3
    have ih: "hilo h l = hilo hi lo + ucast (take_bit n (signed_drop_bit 1 a)) * (2 * hilo bHi bLo)"
      using Suc.IH [OF _ 3(2)] Suc.prems(1) unfolding hilo_double by simp
    have t: "ucast (take_bit (Suc n) a) = (2 :: 64 word) * ucast (take_bit n (signed_drop_bit 1 a))"
      using tb 3(1) Suc.prems(1) by simp
    show ?thesis unfolding ih t by (simp only: mult.assoc mult.left_commute)
  qed
qed


lemma Mult_loop_32:
  assumes "Mult_loop 32 a b 0 0 0 = (h, l)"
  shows "hilo h l = ucast a * ucast b"
proof -
  have "take_bit 32 a = a" by (rule bit_word_eqI) (auto simp: bit_simps)
  with Mult_loop_correct [OF _ assms] show ?thesis by (simp add: hilo_def)
qed

lemma hilo_negate:
  "hilo (if NOT l + 1 = 0 then NOT h + 1 else NOT h) (NOT l + 1) = - hilo h l"
proof -
  have low: "(ucast (- l) :: 64 word) = (if l = 0 then 0 else 4294967296) - ucast l"
    using ucast_add_carry [of "- l" l] by (cases "l = 0") (auto simp: word_gt_0 algebra_simps)
  have high: "(ucast (- h) :: 64 word) * 4294967296 = - (ucast h * 4294967296)"
    using ucast_add_high [of "- h" h] by (simp add: eq_neg_iff_add_eq_0)
  have high1: "(ucast (- h - 1) :: 64 word) * 4294967296 = - (ucast h * 4294967296) - 4294967296"
    using ucast_add_high [of "- h - 1" 1] high by (simp add: algebra_simps)
  have n: "NOT w + 1 = - w" "NOT w = - w - 1" for w :: u32 by (simp_all add: not_eq_complement)
  show ?thesis
  proof (cases "l = 0")
    case True
    then show ?thesis unfolding n(1) by (simp add: hilo_def high)
  next
    case False
    then show ?thesis unfolding n by (simp add: hilo_def high1 low)
  qed
qed

lemma ucast_eq_of_int: "(ucast (w :: u32) :: 64 word) = of_int (uint w)"
  by simp

lemma sint_range: "- 2147483648 \<le> sint (w :: u32)" "sint w < 2147483648"
  using sint_greater_eq [of w] sint_less [of w] by simp_all

lemma uint_neg:
  assumes "sint (w :: u32) < 0"
  shows "uint (- w) = - sint w"
proof -
  have "- w = word_of_int (- sint w)" by simp
  moreover have "0 \<le> - sint w" "- sint w < 4294967296" using assms sint_range [of w] by simp_all
  ultimately show ?thesis by (simp only: uint_word_of_int) simp
qed

lemma uint_nonneg:
  assumes "\<not> sint (w :: u32) < 0"
  shows "uint w = sint w"
proof -
  have "0 \<le> sint w" "sint w < 4294967296" using assms sint_range [of w] by simp_all
  moreover have "uint w = sint w mod 4294967296"
    using uint_word_of_int [of "sint w", where ?'a = 32] by simp
  ultimately show ?thesis by simp
qed

text \<open>The signed value modulo $2^{64}$, through the absolute value the loop works on.\<close>

definition mult_value :: "bool \<Rightarrow> u32 \<Rightarrow> int" where
  "mult_value sgd w = (if sgd then sint w else uint w)"

lemma Mult_absolute:
  "(ucast (if sgd \<and> sint w < 0 then - w else w) :: 64 word) =
    (if sgd \<and> sint w < 0 then - of_int (mult_value sgd w) else of_int (mult_value sgd w))"
proof (cases "sgd \<and> sint w < 0")
  case True
  have "(ucast (- w) :: 64 word) = of_int (uint (- w))" by (rule ucast_eq_of_int)
  with True show ?thesis by (simp only: uint_neg mult_value_def if_True) simp
next
  case False
  then have "uint w = mult_value sgd w" by (auto simp: mult_value_def uint_nonneg)
  with False show ?thesis by (simp only: ucast_eq_of_int if_False)
qed

lemma Mult_hilo:
  "(case Mult a b sgd of (h, l) \<Rightarrow> hilo h l) = of_int (mult_value sgd a * mult_value sgd b)"
proof (cases "a = 0 \<or> b = 0")
  case True
  then show ?thesis by (auto simp: Mult_def hilo_def mult_value_def)
next
  case False
  let ?an = "sgd \<and> sint a < 0" and ?bn = "sgd \<and> sint b < 0"
  let ?a = "if ?an then - a else a" and ?b = "if ?bn then - b else b"
  obtain h l where hl: "Mult_loop 32 ?a ?b 0 0 0 = (h, l)" by fastforce
  have p: "hilo h l = ucast ?a * ucast ?b" by (rule Mult_loop_32 [OF hl])
  have "Mult a b sgd = (if ?an \<noteq> ?bn then (if NOT l + 1 = 0 then NOT h + 1 else NOT h, NOT l + 1) else (h, l))"
    unfolding Mult_def Let_def if_not_P [OF False] hl prod.case ..
  then have M: "(case Mult a b sgd of (h, l) \<Rightarrow> hilo h l) = (if ?an \<noteq> ?bn then - hilo h l else hilo h l)"
    using hilo_negate [of l h] by (cases "?an \<noteq> ?bn") (simp_all only: if_True if_False prod.case not_False_eq_True not_True_eq_False)
  show ?thesis
    unfolding M p Mult_absolute of_int_mult
    by (cases ?an; cases ?bn)
      (simp_all only: if_True if_False simp_thms minus_mult_minus mult_minus_left mult_minus_right minus_minus)
qed

lemma sint_of_int_64:
  assumes "- (2 ^ 63) \<le> i" "i < 2 ^ 63"
  shows "sint (of_int i :: 64 word) = i"
  using assms by (simp add: sint_sbintrunc' signed_take_bit_int_eq_self)

text \<open>
  C27: \<open>Mult\<close> computes the double-length product: the pair \<open>Hi\<close>, \<open>Lo\<close> read as one 64-bit number is
  exactly the product of the operands, signed for \<open>MULT\<close> and unsigned for \<open>MULTU\<close>, the least
  integer included.
\<close>

theorem Mult_correct:
  "(case Mult a b True of (h, l) \<Rightarrow> sint (hilo h l) = sint a * sint b) \<and>
   (case Mult a b False of (h, l) \<Rightarrow> uint h * 2 ^ 32 + uint l = uint a * uint b)"
proof (intro conjI)
  obtain h l where hl: "Mult a b True = (h, l)" by fastforce
  have ab: "\<bar>sint a\<bar> \<le> 2 ^ 31" "\<bar>sint b\<bar> \<le> 2 ^ 31" using sint_range [of a] sint_range [of b] by auto
  have "\<bar>sint a * sint b\<bar> \<le> 2 ^ 31 * 2 ^ 31" unfolding abs_mult by (rule mult_mono [OF ab]) simp_all
  then have "sint (of_int (sint a * sint b) :: 64 word) = sint a * sint b"
    by (intro sint_of_int_64) auto
  with Mult_hilo [of a b True] hl show "case Mult a b True of (h, l) \<Rightarrow> sint (hilo h l) = sint a * sint b"
    by (simp add: mult_value_def)
next
  obtain h l where hl: "Mult a b False = (h, l)" by fastforce
  have "uint a * uint b \<le> (2 ^ 32 - 1) * (2 ^ 32 - 1)"
    using uint_lt2p [of a] uint_lt2p [of b] by (intro mult_mono) simp_all
  then have "uint (of_int (uint a * uint b) :: 64 word) = uint a * uint b"
    using uint_word_of_int [of "uint a * uint b", where ?'a = 64] by simp
  with Mult_hilo [of a b False] hl uint_hilo [of h l]
  show "case Mult a b False of (h, l) \<Rightarrow> uint h * 2 ^ 32 + uint l = uint a * uint b"
    by (simp add: mult_value_def)
qed

section \<open>Overflow detection\<close>

lemma sign_bit: "(w AND SIGN_BIT = 0) \<longleftrightarrow> \<not> sint w < 0" for w :: u32
proof -
  have "push_bit 31 1 = SIGN_BIT" by (simp add: SIGN_BIT_def)
  then have "w AND SIGN_BIT \<noteq> 0 \<longleftrightarrow> bit w 31"
    using bit_iff_and_push_bit_not_eq_0 [of w 31] by metis
  moreover have "bit w 31 \<longleftrightarrow> sint w < 0" using bit_last_iff [of w] by simp
  ultimately show ?thesis by blast
qed

lemma sign_xor: "((v XOR w) AND SIGN_BIT = 0) \<longleftrightarrow> (sint v < 0 \<longleftrightarrow> sint w < 0)" for v w :: u32
proof -
  have b: "bit x 31 \<longleftrightarrow> sint x < 0" for x :: u32 using bit_last_iff [of x] by simp
  have "((v XOR w) AND SIGN_BIT = 0) \<longleftrightarrow> \<not> bit (v XOR w) 31" using b sign_bit by blast
  also have "bit (v XOR w) 31 \<longleftrightarrow> bit v 31 \<noteq> bit w 31" by (rule bit_xor_iff)
  finally show ?thesis unfolding b by blast
qed

definition fits32 :: "int \<Rightarrow> bool" where
  "fits32 i \<longleftrightarrow> - 2147483648 \<le> i \<and> i < 2147483648"

lemma sint_wrap:
  assumes "w = word_of_int i" "- 4294967296 \<le> i" "i < 4294967296"
  shows "sint (w :: u32) = (if i < - 2147483648 then i + 4294967296
    else if i < 2147483648 then i else i - 4294967296)"
proof -
  have id: "sint (word_of_int j :: u32) = j" if "fits32 j" for j
    using s32_id [of j] that by (simp add: s32_def fits32_def)
  have up: "word_of_int i = (word_of_int (i + 4294967296) :: u32)"
    and down: "word_of_int i = (word_of_int (i - 4294967296) :: u32)"
    by (simp_all add: wi_hom_add [symmetric] wi_hom_sub [symmetric])
  have "i < - 2147483648 \<or> fits32 i \<or> 2147483648 \<le> i" unfolding fits32_def by linarith
  then consider "i < - 2147483648" | "fits32 i" | "2147483648 \<le> i" by blast
  then show ?thesis
  proof cases
    case 1
    then have "fits32 (i + 4294967296)" using assms(2) by (simp add: fits32_def)
    then have "sint w = i + 4294967296" unfolding assms(1) up by (rule id)
    then show ?thesis using 1 by simp
  next
    case 2
    then show ?thesis using id [OF 2] unfolding assms(1) by (simp add: fits32_def)
  next
    case 3
    then have "fits32 (i - 4294967296)" using assms(3) by (simp add: fits32_def)
    then have "sint w = i - 4294967296" unfolding assms(1) down by (rule id)
    then show ?thesis using 3 by simp
  qed
qed

text \<open>The sign tests of \<open>OP_ADD\<close>, \<open>OP_ADDI\<close> and \<open>OP_SUB\<close> decide whether the result fits.\<close>

lemma add_overflow:
  fixes x y :: u32
  shows "((x XOR y) AND SIGN_BIT = 0 \<and> (x XOR (x + y)) AND SIGN_BIT \<noteq> 0) \<longleftrightarrow> \<not> fits32 (sint x + sint y)"
    and "((x XOR y) AND SIGN_BIT = 0 \<and> (y XOR (x + y)) AND SIGN_BIT \<noteq> 0) \<longleftrightarrow> \<not> fits32 (sint x + sint y)"
    and "fits32 (sint x + sint y) \<Longrightarrow> sint (x + y) = sint x + sint y"
proof -
  have w: "x + y = word_of_int (sint x + sint y)" by simp
  note r = sint_range [of x] sint_range [of y]
  have s: "sint (x + y) = (if sint x + sint y < - 2147483648 then sint x + sint y + 4294967296
    else if sint x + sint y < 2147483648 then sint x + sint y else sint x + sint y - 4294967296)"
    using r by (intro sint_wrap [OF w]) linarith+
  show "((x XOR y) AND SIGN_BIT = 0 \<and> (x XOR (x + y)) AND SIGN_BIT \<noteq> 0) \<longleftrightarrow> \<not> fits32 (sint x + sint y)"
    "((x XOR y) AND SIGN_BIT = 0 \<and> (y XOR (x + y)) AND SIGN_BIT \<noteq> 0) \<longleftrightarrow> \<not> fits32 (sint x + sint y)"
    "fits32 (sint x + sint y) \<Longrightarrow> sint (x + y) = sint x + sint y"
    unfolding sign_xor s fits32_def using r by (auto split: if_splits)
qed

lemma sub_overflow:
  fixes x y :: u32
  shows "((x XOR y) AND SIGN_BIT \<noteq> 0 \<and> (x XOR (x - y)) AND SIGN_BIT \<noteq> 0) \<longleftrightarrow> \<not> fits32 (sint x - sint y)"
    and "fits32 (sint x - sint y) \<Longrightarrow> sint (x - y) = sint x - sint y"
proof -
  have w: "x - y = word_of_int (sint x - sint y)" by simp
  note r = sint_range [of x] sint_range [of y]
  have s: "sint (x - y) = (if sint x - sint y < - 2147483648 then sint x - sint y + 4294967296
    else if sint x - sint y < 2147483648 then sint x - sint y else sint x - sint y - 4294967296)"
    using r by (intro sint_wrap [OF w]) linarith+
  show "((x XOR y) AND SIGN_BIT \<noteq> 0 \<and> (x XOR (x - y)) AND SIGN_BIT \<noteq> 0) \<longleftrightarrow> \<not> fits32 (sint x - sint y)"
    "fits32 (sint x - sint y) \<Longrightarrow> sint (x - y) = sint x - sint y"
    unfolding sign_xor s fits32_def using r by (auto split: if_splits)
qed

section \<open>Unaligned words\<close>

text \<open>Byte \<open>k\<close> of a word in memory order.\<close>

definition byte_of :: "u32 \<Rightarrow> nat \<Rightarrow> u8" where "byte_of w k = ucast (drop_bit (8 * k) w)"

lemma bit_byte_of: "bit (byte_of w k) n \<longleftrightarrow> n < 8 \<and> bit w (8 * k + n)"
  by (auto simp: byte_of_def bit_simps)

definition word_of_bytes :: "u8 \<Rightarrow> u8 \<Rightarrow> u8 \<Rightarrow> u8 \<Rightarrow> u32" where
  "word_of_bytes a b c d = ucast a OR push_bit 8 (ucast b) OR push_bit 16 (ucast c) OR push_bit 24 (ucast d)"

lemma high_masks:
  "(4294967040 :: u32) = - 256" "(4294901760 :: u32) = - 65536" "(4278190080 :: u32) = - 16777216"
  by simp_all

lemma merge_cases:
  "merge_lwl 0 old v = (old AND mask 24) OR push_bit 24 v"
  "merge_lwl 1 old v = (old AND mask 16) OR push_bit 16 v"
  "merge_lwl 2 old v = (old AND mask 8) OR push_bit 8 v"
  "merge_lwl 3 old v = v"
  "merge_lwr 0 old v = v"
  "merge_lwr 1 old v = (old AND NOT (mask 24)) OR (signed_drop_bit 8 v AND mask 24)"
  "merge_lwr 2 old v = (old AND NOT (mask 16)) OR (signed_drop_bit 16 v AND mask 16)"
  "merge_lwr 3 old v = (old AND NOT (mask 8)) OR (signed_drop_bit 24 v AND mask 8)"
  by (simp_all add: merge_lwl_def merge_lwr_def mask_eq_exp_minus_1 high_masks)

lemma store_merge_cases:
  "merge_swl 0 v r = (v AND NOT (mask 8)) OR (signed_drop_bit 24 r AND mask 8)"
  "merge_swl 1 v r = (v AND NOT (mask 16)) OR (signed_drop_bit 16 r AND mask 16)"
  "merge_swl 2 v r = (v AND NOT (mask 24)) OR (signed_drop_bit 8 r AND mask 24)"
  "merge_swl 3 v r = r"
  "merge_swr 0 v r = r"
  "merge_swr 1 v r = (v AND mask 8) OR push_bit 8 r"
  "merge_swr 2 v r = (v AND mask 16) OR push_bit 16 r"
  "merge_swr 3 v r = (v AND mask 24) OR push_bit 24 r"
  by (simp_all add: merge_swl_def merge_swr_def mask_eq_exp_minus_1 high_masks)

lemma byte_cases: "b < 4 \<Longrightarrow> b = 0 \<or> b = 1 \<or> b = 2 \<or> b = (3 :: u32)"
proof -
  assume "b < 4"
  then have "unat b < 4" by (simp add: word_less_nat_alt)
  then have "unat b = 0 \<or> unat b = 1 \<or> unat b = 2 \<or> unat b = 3" by auto
  then show ?thesis by (auto simp: word_unat_eq_iff)
qed

text \<open>The four bytes from offset \<open>b\<close> on, of two neighbouring aligned words.\<close>

definition straddle :: "nat \<Rightarrow> u32 \<Rightarrow> u32 \<Rightarrow> nat \<Rightarrow> u8" where
  "straddle b w0 w1 k = (if b + k < 4 then byte_of w0 (b + k) else byte_of w1 (b + k - 4))"

lemma bit_word_of_bytes:
  "bit (word_of_bytes a b c d) n \<longleftrightarrow>
     (if n < 8 then bit a n else if n < 16 then bit b (n - 8) else if n < 24 then bit c (n - 16)
      else n < 32 \<and> bit d (n - 24))"
  by (auto simp: word_of_bytes_def bit_simps dest: bit_imp_le_length)

lemma merge_bits:
  "bit (merge_lwl 0 old v) n \<longleftrightarrow> (if n < 24 then bit old n else n < 32 \<and> bit v (n - 24))"
  "bit (merge_lwl 1 old v) n \<longleftrightarrow> (if n < 16 then bit old n else n < 32 \<and> bit v (n - 16))"
  "bit (merge_lwl 2 old v) n \<longleftrightarrow> (if n < 8 then bit old n else n < 32 \<and> bit v (n - 8))"
  "merge_lwl 3 old v = v"
  "merge_lwr 0 old v = v"
  "bit (merge_lwr 1 old v) n \<longleftrightarrow> (if n < 24 then bit v (n + 8) else bit old n)"
  "bit (merge_lwr 2 old v) n \<longleftrightarrow> (if n < 16 then bit v (n + 16) else bit old n)"
  "bit (merge_lwr 3 old v) n \<longleftrightarrow> (if n < 8 then bit v (n + 24) else bit old n)"
  unfolding merge_cases
  by (auto simp: bit_simps add.commute dest: bit_imp_le_length)

lemma store_merge_bits:
  "bit (merge_swl 0 v r) n \<longleftrightarrow> (if n < 8 then bit r (n + 24) else bit v n)"
  "bit (merge_swl 1 v r) n \<longleftrightarrow> (if n < 16 then bit r (n + 16) else bit v n)"
  "bit (merge_swl 2 v r) n \<longleftrightarrow> (if n < 24 then bit r (n + 8) else bit v n)"
  "merge_swl 3 v r = r"
  "merge_swr 0 v r = r"
  "bit (merge_swr 1 v r) n \<longleftrightarrow> (if n < 8 then bit v n else n < 32 \<and> bit r (n - 8))"
  "bit (merge_swr 2 v r) n \<longleftrightarrow> (if n < 16 then bit v n else n < 32 \<and> bit r (n - 16))"
  "bit (merge_swr 3 v r) n \<longleftrightarrow> (if n < 24 then bit v n else n < 32 \<and> bit r (n - 24))"
  unfolding store_merge_cases
  by (auto simp: bit_simps add.commute dest: bit_imp_le_length)

text \<open>
  unaligned words.  \<open>LWL\<close> at the last byte and \<open>LWR\<close> at the first byte of an unaligned word,
  each merging one aligned word into the register, leave exactly the four bytes there in the
  register, whatever it held before; \<open>SWL\<close> and \<open>SWR\<close> put the four bytes of the register there and
  keep the other bytes of both aligned words.
\<close>

theorem unaligned_pair_correct:
  assumes "b < 4" "b = 0 \<longrightarrow> w1 = w0"
  shows "merge_lwr (word_of_nat b) (merge_lwl (word_of_nat ((b + 3) mod 4)) old w1) w0 =
      word_of_bytes (straddle b w0 w1 0) (straddle b w0 w1 1) (straddle b w0 w1 2) (straddle b w0 w1 3) \<and>
    (\<forall>k < 4. byte_of (merge_swr (word_of_nat b) w0 r) k =
      (if k < b then byte_of w0 k else byte_of r (k - b))) \<and>
    (\<forall>k < 4. byte_of (merge_swl (word_of_nat ((b + 3) mod 4)) w1 r) k =
      (if b = 0 then byte_of r k else if k < b then byte_of r (4 - b + k) else byte_of w1 k))"
proof (intro conjI allI impI)
  have b: "b = 0 \<or> b = 1 \<or> b = 2 \<or> b = 3" using assms(1) by auto
  have eq: "x = y" if "\<And>n. n < 32 \<Longrightarrow> bit x n = bit y n" for x y :: u32
    using that by (intro bit_word_eqI) simp
  have eq8: "x = y" if "\<And>n. n < 8 \<Longrightarrow> bit x n = bit y n" for x y :: u8
    using that by (intro bit_word_eqI) simp
  show "merge_lwr (word_of_nat b) (merge_lwl (word_of_nat ((b + 3) mod 4)) old w1) w0 =
      word_of_bytes (straddle b w0 w1 0) (straddle b w0 w1 1) (straddle b w0 w1 2) (straddle b w0 w1 3)"
    using b assms(2)
    by (elim disjE; hypsubst; intro eq)
      (auto simp: merge_bits bit_word_of_bytes straddle_def bit_byte_of add.commute)
  fix k :: nat assume "k < 4"
  then have k: "k = 0 \<or> k = 1 \<or> k = 2 \<or> k = 3" by auto
  show "byte_of (merge_swr (word_of_nat b) w0 r) k = (if k < b then byte_of w0 k else byte_of r (k - b))"
    using b k by (elim disjE; hypsubst; intro eq8)
      (auto simp: store_merge_bits bit_byte_of add.commute)
  show "byte_of (merge_swl (word_of_nat ((b + 3) mod 4)) w1 r) k =
      (if b = 0 then byte_of r k else if k < b then byte_of r (4 - b + k) else byte_of w1 k)"
    using b k by (elim disjE; hypsubst; intro eq8)
      (auto simp: store_merge_bits bit_byte_of add.commute)
qed

theorem unaligned_pair_correct_witness:
  "merge_lwr 1 (merge_lwl 0 0xFFFFFFFF 0x88776655) 0x44332211 = 0x55443322 \<and>
   byte_of (merge_swr 1 0x44332211 0xDDCCBBAA) 0 = 0x11"
proof -
  note u = unaligned_pair_correct [of 1 "0x88776655" "0x44332211" "0xFFFFFFFF" "0xDDCCBBAA"]
  have "merge_lwr 1 (merge_lwl 0 0xFFFFFFFF 0x88776655) 0x44332211 = 0x55443322"
    using u by (simp add: straddle_def word_of_bytes_def byte_of_def)
  moreover from u have "\<forall>k < 4. byte_of (merge_swr (word_of_nat 1) 0x44332211 0xDDCCBBAA) k =
      (if k < 1 then byte_of 0x44332211 k else byte_of 0xDDCCBBAA (k - 1))" by simp
  then have "byte_of (merge_swr 1 0x44332211 0xDDCCBBAA) 0 = byte_of 0x44332211 0" by simp
  ultimately show ?thesis by (simp add: byte_of_def)
qed

section \<open>Shifts\<close>

lemma exec_SRL:
  "exec_switch (i\<lparr>opCode := OP_SRL\<rparr>) m pc =
    advance (set_reg (i_rd i) (signed_drop_bit (unat (i_extra i)) (registers m (i_rt i))) m) pc"
  by (simp add: exec_switch_def exec_groups Let_def)

lemma exec_SRLV:
  "exec_switch (i\<lparr>opCode := OP_SRLV\<rparr>) m pc =
    advance (set_reg (i_rd i) (signed_drop_bit (unat (registers m (i_rs i) AND 0x1f)) (registers m (i_rt i))) m) pc"
  by (simp add: exec_switch_def exec_groups Let_def)

lemma signed_shift_is_division: "sint (signed_drop_bit k (v :: u32)) = sint v div 2 ^ k"
  by (simp add: sint_signed_drop_bit_eq drop_bit_eq_div)

lemma signed_shift_is_logical:
  assumes "k < 32"
  shows "signed_drop_bit k (v :: u32) = drop_bit k v \<longleftrightarrow> 0 \<le> sint v \<or> k = 0"
proof (cases "k = 0")
  case False
  have sign: "bit w 31 \<longleftrightarrow> sint w < 0" for w :: u32 using bit_last_iff [of w] by simp
  show ?thesis
  proof (cases "bit v 31")
    case True
    then have "bit (signed_drop_bit k v) 31"
      using sign by (simp add: signed_shift_is_division pos_imp_zdiv_neg_iff)
    moreover have "\<not> bit (drop_bit k v) 31"
      using False bit_imp_le_length [of v "k + 31"] by (auto simp: bit_drop_bit_eq)
    ultimately have "signed_drop_bit k v \<noteq> drop_bit k v" by metis
    then show ?thesis using True sign False by simp
  next
    case positive: False
    then have "signed_drop_bit k v = drop_bit k v"
      by (intro bit_word_eqI) (auto simp: bit_signed_drop_bit_iff bit_drop_bit_eq dest: bit_imp_le_length)
    then show ?thesis using positive sign by simp
  qed
qed simp

text \<open>
  C28: The logical right shifts of the MIPS copy the sign.  \<open>SRL\<close> and \<open>SRLV\<close> put into the destination register the signed
  quotient of the operand by the power of two, because the operand is shifted as a signed \<open>int\<close>; that is the word with
  zeros shifted in, as the instruction demands, exactly when the operand is not negative or the distance is 0.
  Nothing but the destination register changes.
\<close>

theorem logical_shifts_copy_sign:
  assumes "op \<in> {OP_SRL, OP_SRLV}" "unat (i_extra i) < 32"
    and "distance = unat (if op = OP_SRL then i_extra i else registers m (i_rs i) AND 0x1f)"
  shows "\<exists>r. exec_switch (i\<lparr>opCode := op\<rparr>) m pc = advance (set_reg (i_rd i) r m) pc \<and>
    sint r = sint (registers m (i_rt i)) div 2 ^ distance \<and>
    (r = drop_bit distance (registers m (i_rt i)) \<longleftrightarrow> 0 \<le> sint (registers m (i_rt i)) \<or> distance = 0)"
proof -
  have "unat (registers m (i_rs i) AND 0x1f) \<le> unat (0x1f :: u32)"
    using word_and_le1 [of "registers m (i_rs i)" "0x1f"] unfolding word_le_nat_alt by (simp only: and.commute)
  then have "distance < 32" using assms(2,3) by simp
  moreover have "exec_switch (i\<lparr>opCode := op\<rparr>) m pc =
      advance (set_reg (i_rd i) (signed_drop_bit distance (registers m (i_rt i))) m) pc"
    using assms(1,3) exec_SRL exec_SRLV by auto
  ultimately show ?thesis using signed_shift_is_division signed_shift_is_logical by blast
qed

text \<open>Shifting 0xFFFFFFF8 right by one leaves 0xFFFFFFFC in the register, where zeros would give 0x7FFFFFFC.\<close>

theorem logical_shifts_copy_sign_witness:
  "\<exists>r. exec_switch ((Decode 0)\<lparr>i_rd := 2, i_rt := 1, i_extra := 1, opCode := OP_SRL\<rparr>) (set_reg 1 0xFFFFFFF8 two_pages) 4 =
      advance (set_reg 2 r (set_reg 1 0xFFFFFFF8 two_pages)) 4 \<and>
    sint r = - 4 \<and> r \<noteq> drop_bit 1 0xFFFFFFF8"
  using logical_shifts_copy_sign [of OP_SRL "(Decode 0)\<lparr>i_rd := 2, i_rt := 1, i_extra := 1\<rparr>" 1 "set_reg 1 0xFFFFFFF8 two_pages" 4]
  by simp

text \<open>
  \<open>ADD\<close>, \<open>ADDI\<close> and \<open>SUB\<close> trap with \<open>OverflowException\<close> exactly when the mathematical result
  does not fit into 32 bits, and otherwise deliver exactly that result.
\<close>

theorem overflow_exact:
  "(case exec_switch (i\<lparr>opCode := OP_ADD\<rparr>) m pc of
      Inr (Raise exc _ m') \<Rightarrow> exc = OverflowException \<and> m' = m \<and>
        \<not> fits32 (sint (registers m (i_rs i)) + sint (registers m (i_rt i)))
    | Inr (Advance m' pc' _ _) \<Rightarrow> pc' = pc \<and>
        sint (registers m' (i_rd i)) = sint (registers m (i_rs i)) + sint (registers m (i_rt i))
    | Inl _ \<Rightarrow> False) \<and>
   (case exec_switch (i\<lparr>opCode := OP_ADDI\<rparr>) m pc of
      Inr (Raise exc _ m') \<Rightarrow> exc = OverflowException \<and> m' = m \<and>
        \<not> fits32 (sint (registers m (i_rs i)) + sint (i_extra i))
    | Inr (Advance m' pc' _ _) \<Rightarrow> pc' = pc \<and>
        sint (registers m' (i_rt i)) = sint (registers m (i_rs i)) + sint (i_extra i)
    | Inl _ \<Rightarrow> False) \<and>
   (case exec_switch (i\<lparr>opCode := OP_SUB\<rparr>) m pc of
      Inr (Raise exc _ m') \<Rightarrow> exc = OverflowException \<and> m' = m \<and>
        \<not> fits32 (sint (registers m (i_rs i)) - sint (registers m (i_rt i)))
    | Inr (Advance m' pc' _ _) \<Rightarrow> pc' = pc \<and>
        sint (registers m' (i_rd i)) = sint (registers m (i_rs i)) - sint (registers m (i_rt i))
    | Inl _ \<Rightarrow> False)"
proof (intro conjI)
  let ?x = "registers m (i_rs i)" and ?y = "registers m (i_rt i)" and ?e = "i_extra i"
  show "case exec_switch (i\<lparr>opCode := OP_ADD\<rparr>) m pc of
      Inr (Raise exc _ m') \<Rightarrow> exc = OverflowException \<and> m' = m \<and> \<not> fits32 (sint ?x + sint ?y)
    | Inr (Advance m' pc' _ _) \<Rightarrow> pc' = pc \<and> sint (registers m' (i_rd i)) = sint ?x + sint ?y
    | Inl _ \<Rightarrow> False"
    using add_overflow(1,3) [of ?x ?y]
    by (cases "fits32 (sint ?x + sint ?y)") (auto simp: exec_switch_def exec_add_and_def Let_def advance_def)
  show "case exec_switch (i\<lparr>opCode := OP_ADDI\<rparr>) m pc of
      Inr (Raise exc _ m') \<Rightarrow> exc = OverflowException \<and> m' = m \<and> \<not> fits32 (sint ?x + sint ?e)
    | Inr (Advance m' pc' _ _) \<Rightarrow> pc' = pc \<and> sint (registers m' (i_rt i)) = sint ?x + sint ?e
    | Inl _ \<Rightarrow> False"
    using add_overflow(2,3) [of ?x ?e]
    by (cases "fits32 (sint ?x + sint ?e)") (auto simp: exec_switch_def exec_add_and_def Let_def advance_def)
  show "case exec_switch (i\<lparr>opCode := OP_SUB\<rparr>) m pc of
      Inr (Raise exc _ m') \<Rightarrow> exc = OverflowException \<and> m' = m \<and> \<not> fits32 (sint ?x - sint ?y)
    | Inr (Advance m' pc' _ _) \<Rightarrow> pc' = pc \<and> sint (registers m' (i_rd i)) = sint ?x - sint ?y
    | Inl _ \<Rightarrow> False"
    using sub_overflow [of ?x ?y]
    by (cases "fits32 (sint ?x - sint ?y)")
      (auto simp: exec_switch_def exec_groups Let_def advance_def)
qed

section \<open>The instruction cycle\<close>

text \<open>What the kernel must guarantee about its exception handler.\<close>

definition good_handler :: "(exception \<Rightarrow> machine \<Rightarrow> machine res) \<Rightarrow> bool" where
  "good_handler handler \<longleftrightarrow>
     (\<forall>exc m. exc \<noteq> NoException \<longrightarrow> machine_ok m \<longrightarrow> (\<exists>m'. handler exc m = Inr m' \<and> machine_ok m'))"

lemma RaiseException_ok:
  assumes "good_handler handler" "exc \<noteq> NoException" "machine_ok m" "touched m m'"
  shows "\<exists>m''. RaiseException handler m' exc bad = Inr m'' \<and> machine_ok m''"
proof -
  have "tables_ok (set_reg BadVAddrReg bad m')" "registers (set_reg BadVAddrReg bad m') LoadReg < 32"
    using assms(3,4) same_protection_tables_ok [of m m']
    by (auto simp: touched_def machine_ok_def reg_numbers)
  from DelayedLoad_machine_ok [OF this, of 0 0] assms(1,2) show ?thesis
    by (auto simp: RaiseException_def good_handler_def)
qed

lemma OneInstruction_returns:
  assumes "machine_ok m" "good_handler handler"
  shows "(\<exists>m'. OneInstruction handler m = Inr m' \<and> machine_ok m') \<or>
    (OneInstruction handler m = Inl ArithmeticTrap \<and>
     (\<exists>raw m'. ReadMem m (registers m PCReg) 4 = Inr (Access raw m') \<and> div_overflow (Decode raw) m))"
proof -
  have t: "tables_ok m" and l: "registers m LoadReg < 32" using assms(1) by (simp_all add: machine_ok_def)
  note f = fetch_execute_fine [OF t]
  show ?thesis
  proof (cases "fetch_execute m")
    case (Inl e)
    with f show ?thesis by (simp add: OneInstruction_def)
  next
    case (Inr r)
    show ?thesis
    proof (cases r)
      case (Raise exc bad m')
      with f Inr RaiseException_ok [OF assms(2) _ assms(1)] show ?thesis by (simp add: OneInstruction_def)
    next
      case (Advance m' pc nl nv)
      with f Inr have "same_protection m m'" "nl < 32" "registers m' LoadReg < 32"
        using l by (auto simp: reg_numbers)
      moreover from this have "tables_ok m'" using t same_protection_tables_ok by blast
      ultimately obtain m2 where "DelayedLoad m' nl nv = Inr m2" "machine_ok m2"
        using DelayedLoad_machine_ok [of m' nl nv] by blast
      with Inr Advance show ?thesis by (simp add: OneInstruction_def Let_def machine_ok_def reg_numbers)
    qed
  qed
qed

lemma two_pages_machine_ok: "machine_ok two_pages"
  using two_pages_ok by (simp add: machine_ok_def two_pages_def Machine_Machine_def)

lemma two_pages_fetch:
  assumes "ReadMem two_pages 0 4 = Inr (Access raw m')" shows "raw = 0"
proof -
  have "translate_result two_pages 0 4 False = (NoException, 640)"
    by (simp add: translate_result_def mapping_def two_pages_def Machine_Machine_def entry_result_def mem_sizes)
  from ReadMem_spec [OF two_pages_ok _ this] assms have "raw = read_value (mainMemory two_pages) 640 4"
    by auto
  also have "\<dots> = 0"
    by (simp add: read_value_def two_pages_def Machine_Machine_def eval_nat_numeral)
  finally show ?thesis .
qed

lemma two_pages_step:
  "\<exists>m'. OneInstruction (\<lambda>_ m. Inr m) two_pages = Inr m' \<and> machine_ok m'"
proof -
  have g: "good_handler (\<lambda>_ m. Inr m)" by (simp add: good_handler_def)
  have pc: "registers two_pages PCReg = 0" by (simp add: two_pages_def Machine_Machine_def)
  have "\<not> div_overflow (Decode 0) two_pages"
    by (simp add: div_overflow_def two_pages_def Machine_Machine_def SIGN_BIT_def)
  then show ?thesis using OneInstruction_returns [OF two_pages_machine_ok g] two_pages_fetch unfolding pc by blast
qed

text \<open>The state the kernel is entered with, or the next instruction starts from.\<close>

definition hardware_step :: "machine \<Rightarrow> machine res" where
  "hardware_step = OneInstruction (\<lambda>_ m. Inr m)"

lemma hardware_step_frame:
  assumes "machine_ok m" "hardware_step m = Inr m'"
  shows "machine_ok m' \<and> mem_frame m m' \<and> same_protection m m'"
proof -
  have t: "tables_ok m" and l: "registers m LoadReg < 32" using assms(1) by (simp_all add: machine_ok_def)
  have g: "good_handler (\<lambda>_ m. Inr m)" by (simp add: good_handler_def)
  have ok: "machine_ok m'" using OneInstruction_returns [OF assms(1) g] assms(2) by (auto simp: hardware_step_def)
  obtain r where r: "fetch_execute m = Inr r"
    using assms(2) by (auto simp: hardware_step_def OneInstruction_def bindr_Inr_iff)
  note f = fetch_execute_fine [OF t, unfolded r]
  show ?thesis
  proof (cases r)
    case (Raise exc bad m1)
    with f have m1: "touched m m1" by simp
    then have "registers (set_reg BadVAddrReg bad m1) LoadReg < 32" using l by (simp add: touched_def reg_numbers)
    from DelayedLoad_ok [OF this, of 0 0] assms(2) r Raise
    have "m' = set_reg 0 0 (set_reg LoadValueReg 0 (set_reg LoadReg 0 (set_reg
      (unat (registers (set_reg BadVAddrReg bad m1) LoadReg))
      (registers (set_reg BadVAddrReg bad m1) LoadValueReg) (set_reg BadVAddrReg bad m1))))"
      by (simp only: hardware_step_def OneInstruction_def RaiseException_def bindr_simps exec.case) simp
    with m1 ok show ?thesis by (simp add: touched_def)
  next
    case (Advance m1 pc nl nv)
    with f have m1: "same_protection m m1" "mem_frame m m1" "registers m1 LoadReg < 32"
      using l by (auto simp: reg_numbers)
    from DelayedLoad_ok [OF m1(3), of nl nv] assms(2) r Advance
    obtain m2 where "m' = set_reg NextPCReg pc (set_reg PCReg (registers m2 NextPCReg)
        (set_reg PrevPCReg (registers m2 PCReg) m2))"
      and "m2 = set_reg 0 0 (set_reg LoadValueReg nv (set_reg LoadReg nl
        (set_reg (unat (registers m1 LoadReg)) (registers m1 LoadValueReg) m1)))"
      by (simp only: hardware_step_def OneInstruction_def Let_def bindr_simps exec.case) (simp add: reg_numbers)
    with m1 ok show ?thesis by simp
  qed
qed

primrec hardware_steps :: "nat \<Rightarrow> machine \<Rightarrow> machine res" where
  "hardware_steps 0 m = Inr m"
| "hardware_steps (Suc n) m = bindr (hardware_step m) (hardware_steps n)"

lemma hardware_steps_frame:
  "machine_ok m \<Longrightarrow> hardware_steps n m = Inr m' \<Longrightarrow>
   machine_ok m' \<and> mem_frame m m' \<and> same_protection m m'"
proof (induction n arbitrary: m)
  case (Suc n)
  then obtain m1 where m1: "hardware_step m = Inr m1" "hardware_steps n m1 = Inr m'"
    by (auto simp: bindr_Inr_iff)
  note a = hardware_step_frame [OF Suc.prems(1) m1(1)]
  with Suc.IH [OF _ m1(2)] have b: "machine_ok m'" "mem_frame m1 m'" "same_protection m1 m'" by auto
  have "tables_ok m" using Suc.prems(1) by (simp add: machine_ok_def)
  with a b show ?case using mem_frame_trans same_protection_trans by blast
qed simp

text \<open>
  C24: address spaces are isolated.  Whatever a user program does in any number of instructions
  between two entries into the kernel, a byte of main memory that changed lies in a frame that the
  page table or TLB maps valid and writable, and the mapping itself has not changed.
\<close>

theorem user_program_isolation:
  assumes "machine_ok m" "hardware_steps n m = Inr m'"
  shows "(\<forall>a. mainMemory m' a \<noteq> mainMemory m a \<longrightarrow>
      (\<exists>vpn e. mapping m vpn = Some e \<and> \<not> te_readOnly e \<and> a div PageSize = unat (te_physicalPage e))) \<and>
    same_protection m m' \<and> machine_ok m'"
  using hardware_steps_frame [OF assms] by (auto simp: mem_frame_def writable_def)

theorem user_program_isolation_witness:
  "\<exists>m'. hardware_steps 1 two_pages = Inr m' \<and> same_protection two_pages m'"
proof -
  obtain m' where "hardware_steps 1 two_pages = Inr m'"
    using two_pages_step by (auto simp: hardware_step_def)
  with user_program_isolation [OF two_pages_machine_ok this] show ?thesis by blast
qed

text \<open>
  C25: exceptions are precise.  An instruction that traps, whatever the cause and however far it
  got, hands the kernel the machine as it was before the instruction: memory is unchanged and so is
  every register, the program counters included, except that the bad address is recorded and a
  pending delayed load has been carried out.  So the kernel can restart it from the beginning.
\<close>

theorem exceptions_precise:
  assumes "machine_ok m" "fetch_execute m = Inr (Raise exc bad m1)"
  shows "\<exists>m2. OneInstruction handler m = handler exc m2 \<and> exc \<noteq> NoException \<and>
    mainMemory m2 = mainMemory m \<and> same_protection m m2 \<and>
    registers m2 = (registers m)(BadVAddrReg := bad,
      unat (registers m LoadReg) := registers m LoadValueReg,
      LoadReg := 0, LoadValueReg := 0, 0 := 0)"
proof -
  have t: "tables_ok m" and l: "registers m LoadReg < 32" using assms(1) by (simp_all add: machine_ok_def)
  have m1: "touched m m1" "exc \<noteq> NoException" using fetch_execute_fine [OF t, unfolded assms(2)] by simp_all
  then have "registers (set_reg BadVAddrReg bad m1) LoadReg < 32" using l by (simp add: touched_def reg_numbers)
  from DelayedLoad_ok [OF this, of 0 0]
  have "OneInstruction handler m = handler exc (set_reg 0 0 (set_reg LoadValueReg 0 (set_reg LoadReg 0
      (set_reg (unat (registers m LoadReg)) (registers m LoadValueReg) (set_reg BadVAddrReg bad m1)))))"
    (is "_ = handler exc ?m2")
    using assms(2) m1(1) by (simp add: OneInstruction_def RaiseException_def touched_def reg_numbers)
  moreover have "registers ?m2 = (registers m)(BadVAddrReg := bad,
      unat (registers m LoadReg) := registers m LoadValueReg, LoadReg := 0, LoadValueReg := 0, 0 := 0)"
    "mainMemory ?m2 = mainMemory m" "same_protection m ?m2"
    using m1(1) by (simp_all add: touched_def)
  ultimately show ?thesis using m1(2) by blast
qed

text \<open>
  the instruction cycle.  An instruction that completes moves the program counter to the next
  program counter, so a branch takes effect after the instruction in its delay slot; a value loaded
  from memory waits in the load registers for one instruction; the load that was pending arrives
  after the instruction's own result; register 0 stays zero.
\<close>

theorem instruction_cycle:
  assumes "machine_ok m" "fetch_execute m = Inr (Advance m1 pcAfter nl nv)"
  shows "\<exists>m'. OneInstruction handler m = Inr m' \<and>
    registers m' PCReg = registers m NextPCReg \<and> registers m' NextPCReg = pcAfter \<and>
    registers m' PrevPCReg = registers m PCReg \<and>
    registers m' LoadReg = nl \<and> registers m' LoadValueReg = nv \<and> registers m' 0 = 0 \<and>
    (\<forall>r < 32. 0 < r \<longrightarrow> registers m' r =
       (if r = unat (registers m LoadReg) then registers m LoadValueReg else registers m1 r))"
proof -
  have t: "tables_ok m" and l: "registers m LoadReg < 32" using assms(1) by (simp_all add: machine_ok_def)
  have keep: "\<forall>n \<ge> PCReg. registers m1 n = registers m n"
    using fetch_execute_fine [OF t, unfolded assms(2)] by simp
  then have k: "registers m1 LoadReg = registers m LoadReg" "registers m1 LoadValueReg = registers m LoadValueReg"
    "registers m1 PCReg = registers m PCReg" "registers m1 NextPCReg = registers m NextPCReg"
    by (simp_all add: reg_numbers)
  have u: "unat (registers m LoadReg) < 32" using l by (simp add: word_less_nat_alt)
  have "registers m1 LoadReg < 32" using l k by simp
  from DelayedLoad_ok [OF this, of nl nv]
  have "OneInstruction handler m = Inr (set_reg NextPCReg pcAfter (set_reg PCReg (registers m NextPCReg)
      (set_reg PrevPCReg (registers m PCReg) (set_reg 0 0 (set_reg LoadValueReg nv (set_reg LoadReg nl
      (set_reg (unat (registers m LoadReg)) (registers m LoadValueReg) m1)))))))"
    (is "_ = Inr ?m'")
    using assms(2) k u by (simp add: OneInstruction_def Let_def reg_numbers)
  moreover have "registers ?m' PCReg = registers m NextPCReg" "registers ?m' NextPCReg = pcAfter"
    "registers ?m' PrevPCReg = registers m PCReg" "registers ?m' LoadReg = nl"
    "registers ?m' LoadValueReg = nv" "registers ?m' 0 = 0"
    by (simp_all add: reg_numbers)
  moreover have "\<forall>r < 32. 0 < r \<longrightarrow> registers ?m' r =
       (if r = unat (registers m LoadReg) then registers m LoadValueReg else registers m1 r)"
    by (simp add: reg_numbers)
  ultimately show ?thesis by blast
qed

theorem exceptions_precise_witness:
  "\<exists>m2. OneInstruction (\<lambda>_ m. Inr m) (set_reg PCReg 1 two_pages) = Inr m2 \<and>
     registers m2 PCReg = 1 \<and> registers m2 BadVAddrReg = 1"
proof -
  have ok: "machine_ok (set_reg PCReg 1 two_pages)"
    using two_pages_machine_ok by (simp add: machine_ok_def reg_numbers)
  have "fetch_execute (set_reg PCReg 1 two_pages) =
      Inr (Raise AddressErrorException 1 (set_reg PCReg 1 two_pages))"
    by (simp add: fetch_execute_def on_access_def ReadMem_def Translate_def)
  from exceptions_precise [OF ok this, of "\<lambda>_ m. Inr m"] show ?thesis
    by (auto simp: reg_numbers two_pages_def Machine_Machine_def)
qed

theorem instruction_cycle_witness:
  "\<exists>m'. OneInstruction (\<lambda>_ m. Inr m) (set_reg LoadValueReg 9 (set_reg LoadReg 3 two_pages)) = Inr m' \<and>
     registers m' 3 = 9 \<and> registers m' NextPCReg = 4"
proof -
  let ?m = "set_reg LoadValueReg 9 (set_reg LoadReg 3 two_pages)"
  have ok: "machine_ok ?m" using two_pages_machine_ok by (simp add: machine_ok_def reg_numbers)
  have pc: "registers ?m PCReg = 0" "registers ?m NextPCReg = 0"
    by (simp_all add: two_pages_def Machine_Machine_def reg_numbers)
  have tr: "translate_result ?m 0 4 False = (NoException, 640)"
    by (simp add: translate_result_def mapping_def two_pages_def Machine_Machine_def entry_result_def mem_sizes)
  have "tables_ok ?m" using ok by (simp add: machine_ok_def)
  from ReadMem_spec [OF this _ tr] obtain m1 where m1: "touched ?m m1"
    "ReadMem ?m 0 4 = Inr (Access (read_value (mainMemory ?m) 640 4) m1)" by auto
  have z: "read_value (mainMemory ?m) 640 4 = 0"
    by (simp add: read_value_def two_pages_def Machine_Machine_def eval_nat_numeral)
  have d: "opCode (Decode 0) = OP_SLL" "i_rd (Decode 0) = 0"
    by (simp_all add: Decode_def opTable_def specialTable_def)
  have e: "exec_switch i m pc = advance (set_reg (i_rd i) (push_bit (unat (i_extra i)) (registers m (i_rt i))) m) pc"
    if "opCode i = OP_SLL" for i m pc
    using that by (simp add: exec_switch_def exec_groups Let_def)
  have "registers m1 = registers ?m" using m1(1) by (simp add: touched_def)
  then have n: "registers m1 NextPCReg = 0" using pc by simp
  have "fetch_execute ?m = Inr (Advance (set_reg 0 (push_bit (unat (i_extra (Decode 0))) (registers m1 (i_rt (Decode 0)))) m1) 4 0 0)"
    unfolding fetch_execute_def pc m1(2) z on_access_def bindr_simps access.case e [OF d(1)] d(2) n pc(2)
    by (simp add: advance_def)
  from instruction_cycle [OF ok this, of "\<lambda>_ m. Inr m"] show ?thesis
    by (auto simp: reg_numbers two_pages_def Machine_Machine_def)
qed

section \<open>Division\<close>

lemma sdiv_smod_abs:
  fixes x y :: int
  shows "\<bar>x sdiv y\<bar> = \<bar>x\<bar> div \<bar>y\<bar>" "\<bar>x smod y\<bar> = \<bar>x\<bar> mod \<bar>y\<bar>" "x = x sdiv y * y + x smod y"
    "x smod y \<noteq> 0 \<Longrightarrow> sgn (x smod y) = sgn x"
proof -
  show q: "\<bar>x sdiv y\<bar> = \<bar>x\<bar> div \<bar>y\<bar>"
    by (simp add: signed_divide_int_def abs_mult sgn_if pos_imp_zdiv_nonneg_iff)
  show "x = x sdiv y * y + x smod y" by (simp only: sdiv_mult_smod_eq)
  show "\<bar>x smod y\<bar> = \<bar>x\<bar> mod \<bar>y\<bar>"
    by (cases "x = 0"; cases "y = 0") (simp_all add: abs_mult signed_modulo_int_def)
  show "sgn (x smod y) = sgn x" if "x smod y \<noteq> 0"
  proof -
    have "0 \<le> \<bar>x\<bar> mod \<bar>y\<bar>" by (cases "y = 0") simp_all
    with that show ?thesis by (auto simp: signed_modulo_int_def sgn_mult)
  qed
qed

lemma sdiv_fits:
  assumes "fits32 x" "fits32 y" "y \<noteq> 0" "\<not> (x = - 2147483648 \<and> y = - 1)"
  shows "fits32 (x sdiv y)" "fits32 (x smod y)" "\<bar>x smod y\<bar> < \<bar>y\<bar>"
proof -
  show m: "\<bar>x smod y\<bar> < \<bar>y\<bar>" using assms(3) by (simp add: sdiv_smod_abs)
  with assms(2) show "fits32 (x smod y)" by (auto simp: fits32_def)
  have x: "\<bar>x\<bar> \<le> 2147483648" using assms(1) by (auto simp: fits32_def)
  have le: "\<bar>x sdiv y\<bar> \<le> \<bar>x\<bar>" using assms(3) zdiv_mono2 [of "\<bar>x\<bar>" 1 "\<bar>y\<bar>"] by (simp add: sdiv_smod_abs(1))
  show "fits32 (x sdiv y)"
  proof (rule ccontr)
    assume "\<not> fits32 (x sdiv y)"
    with le x have q: "x sdiv y = 2147483648" "\<bar>x\<bar> = 2147483648" by (auto simp: fits32_def)
    then have xm: "x = - 2147483648" using assms(1) by (auto simp: fits32_def)
    have "2147483648 div \<bar>y\<bar> = 2147483648" using sdiv_smod_abs(1) [of x y] q by simp
    moreover have "2147483648 div \<bar>y\<bar> \<le> 2147483648 div 2" if "2 \<le> \<bar>y\<bar>"
      using that by (intro zdiv_mono2) simp_all
    ultimately have "\<bar>y\<bar> < 2" by fastforce
    with assms(3) have "y = 1 \<or> y = - 1" by auto
    with assms(4) xm have "y = 1" by simp
    with q(1) xm show False by (simp add: signed_divide_int_def)
  qed
qed

text \<open>
  \<open>DIV\<close> truncates towards zero with the remainder taking the sign of the dividend, and a
  division by zero clears both registers; the only operands that fault are the least integer and
  -1, for which the host's division instruction traps and takes the whole simulator down.
\<close>

theorem DIV_correct:
  "case exec_switch (i\<lparr>opCode := OP_DIV\<rparr>) m pc of
     Inl f \<Rightarrow> f = ArithmeticTrap \<and> sint (registers m (i_rs i)) = - (2 ^ 31) \<and> sint (registers m (i_rt i)) = - 1
   | Inr (Raise _ _ _) \<Rightarrow> False
   | Inr (Advance m' pc' _ _) \<Rightarrow>
       (let x = sint (registers m (i_rs i)); y = sint (registers m (i_rt i));
            q = sint (registers m' LoReg); r = sint (registers m' HiReg) in
        pc' = pc \<and> (if y = 0 then q = 0 \<and> r = 0
        else x = q * y + r \<and> \<bar>r\<bar> < \<bar>y\<bar> \<and> \<bar>q\<bar> = \<bar>x\<bar> div \<bar>y\<bar> \<and> (r \<noteq> 0 \<longrightarrow> sgn r = sgn x)))"
proof -
  let ?X = "registers m (i_rs i)" and ?Y = "registers m (i_rt i)"
  have e: "exec_switch (i\<lparr>opCode := OP_DIV\<rparr>) m pc =
      (if ?Y = 0 then advance (set_reg HiReg 0 (set_reg LoReg 0 m)) pc
       else if ?X = SIGN_BIT \<and> ?Y = - 1 then Inl ArithmeticTrap
       else advance (set_reg HiReg (word_of_int (sint ?X smod sint ?Y))
              (set_reg LoReg (word_of_int (sint ?X sdiv sint ?Y)) m)) pc)"
    by (simp add: exec_switch_def exec_groups Let_def)
  have z: "?Y = 0 \<longleftrightarrow> sint ?Y = 0" by (metis signed_0 signed_word_eqI)
  have t: "?X = SIGN_BIT \<and> ?Y = - 1 \<longleftrightarrow> sint ?X = - 2147483648 \<and> sint ?Y = - 1"
  proof -
    have "sint SIGN_BIT = - 2147483648" "sint (- 1 :: u32) = - 1" by (simp_all add: SIGN_BIT_def)
    then show ?thesis by (metis signed_word_eqI)
  qed
  have id: "sint (word_of_int j :: u32) = j" if "fits32 j" for j
    using s32_id [of j] that by (simp add: s32_def fits32_def)
  have f: "fits32 (sint w)" for w :: u32 using sint_range [of w] by (simp add: fits32_def)
  note d = sdiv_smod_abs [of "sint ?X" "sint ?Y"]
  show ?thesis
  proof (cases "?Y = 0 \<or> ?X = SIGN_BIT \<and> ?Y = - 1")
    case True
    then show ?thesis unfolding e using t z
      by (cases "?Y = 0") (simp_all add: advance_def reg_numbers)
  next
    case False
    then have y: "sint ?Y \<noteq> 0" "\<not> (sint ?X = - 2147483648 \<and> sint ?Y = - 1)" using z t by auto
    note q = sdiv_fits [OF f f y]
    have "exec_switch (i\<lparr>opCode := OP_DIV\<rparr>) m pc =
       advance (set_reg HiReg (word_of_int (sint ?X smod sint ?Y))
              (set_reg LoReg (word_of_int (sint ?X sdiv sint ?Y)) m)) pc"
      unfolding e using False by argo
    then show ?thesis using y(1) q(3) d id [OF q(1)] id [OF q(2)]
      by (simp add: advance_def reg_numbers Let_def)
  qed
qed

text \<open>Registers 1 and 2 hold the least integer and -1.\<close>

theorem DIV_correct_witness:
  "exec_switch \<lparr>i_value = 0, opCode = OP_DIV, i_rs = 1, i_rt = 2, i_rd = 0, i_extra = 0\<rparr>
     (set_reg 2 (- 1) (set_reg 1 0x80000000 two_pages)) 4 = Inl ArithmeticTrap \<and>
   sint (registers (set_reg 2 (- 1) (set_reg 1 0x80000000 two_pages)) 1) = - (2 ^ 31)"
proof -
  let ?i = "\<lparr>i_value = 0, opCode = OP_DIV, i_rs = 1, i_rt = 2, i_rd = 0, i_extra = 0\<rparr>"
  let ?m = "set_reg 2 (- 1) (set_reg 1 0x80000000 two_pages)"
  have e: "exec_switch ?i ?m 4 = Inl ArithmeticTrap"
    by (simp add: exec_switch_def exec_groups Let_def SIGN_BIT_def)
  from DIV_correct [where i = ?i and m = ?m and pc = 4] have "sint (registers ?m 1) = - (2 ^ 31)"
    by (simp only: instruction.update_convs e sum.case) simp
  with e show ?thesis by blast
qed

end
