(* ===== verification/Interrupt.thy ===== *)
theory Interrupt
  imports Nachos_Prelude Linked_List Machine "HOL-Library.While_Combinator"
begin

text \<open>
  The interrupt hardware of \<open>machine/interrupt.{h,cc}\<close> and the clock of \<open>machine/stats.{h,cc}\<close>.
  Time passes in ticks; a device asks to be called back at a later tick, and the callbacks that
  are due run when the clock is advanced.

  The kernel's global objects that the hardware touches are the record \<open>hardware\<close>, which the
  device and thread theories extend.  The queue \<open>pending\<close> is the sequence a \<open>SortedList\<close> holds:
  its operations are the \<open>seq_\<close> operations that the pointer structure of \<open>lib/list\<close> refines.
  A list item is a pointer, so a \<open>PendingInterrupt\<close> carries the address \<open>pi_address\<close> it was
  allocated at.  The object to call is a value of \<open>'cb\<close>; what calling it does is a parameter.

  The clock and the times of interrupts are C \<open>int\<close>s and wrap around.  Once the clock is close to
  the largest one, an interrupt that is scheduled lies in the past, and the loop that serves the
  interrupts may go on for ever: the fault \<open>Diverges\<close>.
\<close>

section \<open>State\<close>

datatype IntStatus = IntOff | IntOn

datatype MachineStatus = IdleMode | SystemMode | UserMode

datatype IntType = TimerInt | DiskInt | ConsoleWriteInt | ConsoleReadInt | NetworkSendInt | NetworkRecvInt

record statistics =
  totalTicks :: int
  idleTicks :: int
  systemTicks :: int
  userTicks :: int
  numDiskReads :: int
  numDiskWrites :: int
  numConsoleCharsRead :: int
  numConsoleCharsWritten :: int
  numPageFaults :: int
  numPacketsSent :: int
  numPacketsRecvd :: int

definition Statistics_Statistics :: statistics where
  "Statistics_Statistics =
     \<lparr>totalTicks = 0, idleTicks = 0, systemTicks = 0, userTicks = 0, numDiskReads = 0,
      numDiskWrites = 0, numConsoleCharsRead = 0, numConsoleCharsWritten = 0, numPageFaults = 0,
      numPacketsSent = 0, numPacketsRecvd = 0\<rparr>"

definition UserTick :: int where "UserTick = 1"
definition SystemTick :: int where "SystemTick = 10"
definition RotationTime :: int where "RotationTime = 500"
definition SeekTime :: int where "SeekTime = 500"
definition ConsoleTime :: int where "ConsoleTime = 100"
definition NetworkTime :: int where "NetworkTime = 100"
definition TimerTicks :: int where "TimerTicks = 100"

lemmas tick_constants = UserTick_def SystemTick_def RotationTime_def SeekTime_def ConsoleTime_def
  NetworkTime_def TimerTicks_def

record 'cb pending_interrupt =
  pi_address :: nat
  callOnInterrupt :: 'cb
  pi_when :: int
  pi_type :: IntType

definition PendingCompare :: "'cb pending_interrupt \<Rightarrow> 'cb pending_interrupt \<Rightarrow> int" where
  "PendingCompare x y = (if pi_when x < pi_when y then -1 else if pi_when x > pi_when y then 1 else 0)"

record 'cb hardware =
  stats :: statistics
  level :: IntStatus
  pending :: "'cb pending_interrupt list"
  inHandler :: bool
  yieldOnReturn :: bool
  mstatus :: MachineStatus
  kmachine :: "machine option"
  next_address :: nat

abbreviation now :: "('cb, 'z) hardware_scheme \<Rightarrow> int" where
  "now s \<equiv> totalTicks (stats s)"

definition Interrupt_Interrupt :: "'cb hardware" where
  "Interrupt_Interrupt =
     \<lparr>stats = Statistics_Statistics, level = IntOff, pending = [], inHandler = False,
      yieldOnReturn = False, mstatus = SystemMode, kmachine = None, next_address = 0\<rparr>"

section \<open>Operations\<close>

definition ChangeLevel :: "IntStatus \<Rightarrow> ('cb, 'z) hardware_scheme \<Rightarrow> ('cb, 'z) hardware_scheme" where
  "ChangeLevel l s = s\<lparr>level := l\<rparr>"

definition YieldOnReturn :: "('cb, 'z) hardware_scheme \<Rightarrow> ('cb, 'z) hardware_scheme res" where
  "YieldOnReturn s = bindr (ASSERT (inHandler s)) (\<lambda>_. Inr (s\<lparr>yieldOnReturn := True\<rparr>))"

definition Schedule ::
  "'cb \<Rightarrow> int \<Rightarrow> IntType \<Rightarrow> ('cb, 'z) hardware_scheme \<Rightarrow> ('cb, 'z) hardware_scheme res" where
  "Schedule toCall fromNow type s =
     (let when = s32 (now s + fromNow);
          toOccur = \<lparr>pi_address = next_address s, callOnInterrupt = toCall, pi_when = when,
                     pi_type = type\<rparr> in
      bindr (ASSERT (fromNow > 0)) (\<lambda>_.
      bindr (seq_insert PendingCompare (pending s) toOccur) (\<lambda>q.
      Inr (s\<lparr>pending := q, next_address := next_address s + 1\<rparr>))))"

text \<open>
  \<open>do { RemoveFront; CallBack } while (something is due)\<close>.  The loop ends with the first fault of a
  handler, and it may not end at all.
\<close>

definition CheckIfDue_round ::
  "('cb \<Rightarrow> ('cb, 'z) hardware_scheme \<Rightarrow> ('cb, 'z) hardware_scheme res) \<Rightarrow>
   ('cb, 'z) hardware_scheme \<Rightarrow> ('cb, 'z) hardware_scheme res" where
  "CheckIfDue_round CallBack s =
     bindr (seq_remove_front (pending s)) (\<lambda>(next, q). CallBack (callOnInterrupt next) (s\<lparr>pending := q\<rparr>))"

definition more_due :: "('cb, 'z) hardware_scheme \<Rightarrow> bool" where
  "more_due s = (case pending s of [] \<Rightarrow> False | front # _ \<Rightarrow> pi_when front \<le> now s)"

definition CheckIfDue_loop ::
  "('cb \<Rightarrow> ('cb, 'z) hardware_scheme \<Rightarrow> ('cb, 'z) hardware_scheme res) \<Rightarrow>
   ('cb, 'z) hardware_scheme \<Rightarrow> ('cb, 'z) hardware_scheme res" where
  "CheckIfDue_loop CallBack s =
     (case while_option (\<lambda>r. case r of Inl _ \<Rightarrow> False | Inr s \<Rightarrow> more_due s)
             (\<lambda>r. bindr r (CheckIfDue_round CallBack)) (CheckIfDue_round CallBack s) of
        None \<Rightarrow> Inl Diverges
      | Some r \<Rightarrow> r)"

definition CheckIfDue ::
  "('cb \<Rightarrow> ('cb, 'z) hardware_scheme \<Rightarrow> ('cb, 'z) hardware_scheme res) \<Rightarrow> bool \<Rightarrow>
   ('cb, 'z) hardware_scheme \<Rightarrow> (bool \<times> ('cb, 'z) hardware_scheme) res" where
  "CheckIfDue CallBack advanceClock s =
     bindr (ASSERT (level s = IntOff)) (\<lambda>_.
     case pending s of
       [] \<Rightarrow> Inr (False, s)
     | next # _ \<Rightarrow>
         if pi_when next > now s \<and> \<not> advanceClock then Inr (False, s)
         else
           let s = (if pi_when next > now s
                    then s\<lparr>stats := (stats s)\<lparr>idleTicks := s32 (idleTicks (stats s) + (pi_when next - now s)),
                                             totalTicks := pi_when next\<rparr>\<rparr>
                    else s) in
           bindr (case kmachine s of
                    None \<Rightarrow> Inr s
                  | Some m \<Rightarrow> bindr (DelayedLoad m 0 0) (\<lambda>m. Inr (s\<lparr>kmachine := Some m\<rparr>))) (\<lambda>s.
           bindr (CheckIfDue_loop CallBack (s\<lparr>inHandler := True\<rparr>)) (\<lambda>s.
           Inr (True, s\<lparr>inHandler := False\<rparr>))))"

text \<open>
  \<open>OneTick\<close> up to the point where interrupts are enabled again.  The rest of it, which yields the
  processor when a handler asked for that, belongs to the thread that was interrupted and is part of
  the thread model.
\<close>

definition advance :: "MachineStatus \<Rightarrow> statistics \<Rightarrow> statistics" where
  "advance st t =
     (if st = SystemMode
      then t\<lparr>totalTicks := s32 (totalTicks t + SystemTick), systemTicks := s32 (systemTicks t + SystemTick)\<rparr>
      else t\<lparr>totalTicks := s32 (totalTicks t + UserTick), userTicks := s32 (userTicks t + UserTick)\<rparr>)"

definition OneTick_handlers ::
  "('cb \<Rightarrow> ('cb, 'z) hardware_scheme \<Rightarrow> ('cb, 'z) hardware_scheme res) \<Rightarrow>
   ('cb, 'z) hardware_scheme \<Rightarrow> ('cb, 'z) hardware_scheme res" where
  "OneTick_handlers CallBack s =
     (let s = s\<lparr>stats := advance (mstatus s) (stats s)\<rparr> in
      bindr (CheckIfDue CallBack False (ChangeLevel IntOff s)) (\<lambda>(_, s).
      Inr (ChangeLevel IntOn s)))"

text \<open>\<open>Idle\<close> returns when a handler ran, and otherwise halts the machine, which never returns.\<close>

definition Idle ::
  "('cb \<Rightarrow> ('cb, 'z) hardware_scheme \<Rightarrow> ('cb, 'z) hardware_scheme res) \<Rightarrow>
   ('cb, 'z) hardware_scheme \<Rightarrow> (bool \<times> ('cb, 'z) hardware_scheme) res" where
  "Idle CallBack s =
     bindr (CheckIfDue CallBack True (s\<lparr>mstatus := IdleMode\<rparr>)) (\<lambda>(fired, s).
     if fired then Inr (True, s\<lparr>mstatus := SystemMode\<rparr>) else Inr (False, s))"

section \<open>The queue of pending interrupts\<close>

lemma PendingCompare_preorder: "total_preorder PendingCompare"
  unfolding total_preorder_def PendingCompare_def by (auto split: if_splits)

lemma PendingCompare_le [simp]: "PendingCompare x y \<le> 0 \<longleftrightarrow> pi_when x \<le> pi_when y"
  by (simp add: PendingCompare_def)

text \<open>
  The queue is in time order and its items are at distinct addresses below the next fresh one; the
  clock is the sum of the time spent idle, in the kernel and in user programs, up to wrap-around.
\<close>

definition regs_ok :: "machine \<Rightarrow> bool" where
  "regs_ok m \<longleftrightarrow> registers m 0 = 0 \<and> registers m LoadReg < 32"

definition hardware_ok :: "('cb, 'z) hardware_scheme \<Rightarrow> bool" where
  "hardware_ok s \<longleftrightarrow>
     ordered_by PendingCompare (pending s) \<and>
     (\<forall>p \<in> set (pending s). pi_address p < next_address s) \<and>
     distinct (map pi_address (pending s)) \<and>
     s32 (now s) = s32 (idleTicks (stats s) + systemTicks (stats s) + userTicks (stats s)) \<and>
     (case kmachine s of None \<Rightarrow> True | Some m \<Rightarrow> regs_ok m)"

lemma ordered_PendingCompare: "ordered_by PendingCompare ps \<longleftrightarrow> sorted (map pi_when ps)"
  by (simp add: ordered_by_def sorted_wrt_map)

definition new_interrupt ::
  "'cb \<Rightarrow> int \<Rightarrow> IntType \<Rightarrow> ('cb, 'z) hardware_scheme \<Rightarrow> 'cb pending_interrupt" where
  "new_interrupt cb d ty s = \<lparr>pi_address = next_address s, callOnInterrupt = cb, pi_when = s32 (now s + d),
     pi_type = ty\<rparr>"

lemma Schedule_pending:
  assumes "hardware_ok s" "d > 0"
  obtains q where "Schedule cb d ty s = Inr (s\<lparr>pending := q, next_address := next_address s + 1\<rparr>)"
    and "mset q = add_mset (new_interrupt cb d ty s) (mset (pending s))"
    and "hardware_ok (s\<lparr>pending := q, next_address := next_address s + 1\<rparr>)"
proof -
  let ?p = "new_interrupt cb d ty s"
  have new: "?p \<notin> set (pending s)"
    using assms(1) by (auto simp: hardware_ok_def new_interrupt_def)
  then obtain q where q: "seq_insert PendingCompare (pending s) ?p = Inr q"
    by (simp add: seq_insert_def)
  have ms: "mset q = add_mset ?p (mset (pending s))" by (rule seq_insert_mset [OF q])
  then have elems: "set q = insert ?p (set (pending s))"
    by (metis set_mset_add_mset_insert set_mset_mset)
  have "ordered_by PendingCompare q"
    using seq_insert_ordered [OF PendingCompare_preorder _ q] assms(1) by (simp add: hardware_ok_def)
  moreover have "distinct (map pi_address q)"
  proof -
    have "mset (map pi_address q) = add_mset (next_address s) (mset (map pi_address (pending s)))"
      using ms by (simp add: new_interrupt_def)
    moreover have "next_address s \<notin> set (map pi_address (pending s))"
      using assms(1) by (auto simp: hardware_ok_def)
    then have "distinct (next_address s # map pi_address (pending s))"
      using assms(1) by (simp add: hardware_ok_def)
    ultimately show ?thesis
      by (metis mset.simps(2) mset_eq_imp_distinct_iff)
  qed
  moreover have "\<forall>p \<in> set q. pi_address p < next_address s + 1"
    using elems assms(1) by (auto simp: hardware_ok_def new_interrupt_def intro: less_SucI)
  ultimately have "hardware_ok (s\<lparr>pending := q, next_address := next_address s + 1\<rparr>)"
    using assms(1) by (simp add: hardware_ok_def)
  moreover have "Schedule cb d ty s = Inr (s\<lparr>pending := q, next_address := next_address s + 1\<rparr>)"
    using q assms(2) by (simp add: Schedule_def new_interrupt_def Let_def)
  ultimately show ?thesis using ms that by blast
qed


section \<open>The range of the clock\<close>

text \<open>
  No device asks to be called back later than \<open>horizon\<close> ticks from now.  While the clock is below
  \<open>clock_limit\<close> and the interrupts pending lie within the horizon, one step of the machine can move
  the clock by at most the horizon, and there is still room for what the handlers schedule then.
\<close>

definition horizon :: int where "horizon = 2 ^ 15"
definition clock_limit :: int where "clock_limit = 2 ^ 31 - 2 ^ 16"

definition roomy :: "('cb, 'z) hardware_scheme \<Rightarrow> bool" where
  "roomy s \<longleftrightarrow> 0 \<le> now s \<and> now s < clock_limit + horizon"

definition near :: "('cb, 'z) hardware_scheme \<Rightarrow> bool" where
  "near s \<longleftrightarrow> 0 \<le> now s \<and> (\<forall>p \<in> set (pending s). pi_when p \<le> now s + horizon)"

definition timely :: "('cb, 'z) hardware_scheme \<Rightarrow> bool" where
  "timely s \<longleftrightarrow> near s \<and> now s < clock_limit"

lemmas clock_defs = horizon_def clock_limit_def roomy_def near_def timely_def

lemma timely_roomy: "timely s \<Longrightarrow> roomy s"
  by (simp add: clock_defs)

lemma roomy_when: "roomy s \<Longrightarrow> 0 \<le> d \<Longrightarrow> d \<le> horizon \<Longrightarrow> s32 (now s + d) = now s + d"
  by (rule s32_id) (simp_all add: clock_defs)

section \<open>What a handler may do\<close>

text \<open>
  A handler runs with interrupts off.  It leaves the clock alone and removes no interrupt from the
  queue; and as long as the clock has room, it makes no interrupt due: whatever it schedules lies in
  the future.
\<close>

definition is_due :: "('cb, 'z) hardware_scheme \<Rightarrow> 'cb pending_interrupt \<Rightarrow> bool" where
  "is_due s p \<longleftrightarrow> pi_when p \<le> now s"

definition handler_effect :: "('cb, 'z) hardware_scheme \<Rightarrow> ('cb, 'z) hardware_scheme \<Rightarrow> bool" where
  "handler_effect s s' \<longleftrightarrow>
     now s' = now s \<and> level s' = level s \<and> inHandler s' = inHandler s \<and> mstatus s' = mstatus s \<and>
     kmachine s' = kmachine s \<and> set (pending s) \<subseteq> set (pending s') \<and>
     (roomy s \<longrightarrow> takeWhile (is_due s) (pending s') = takeWhile (is_due s) (pending s) \<and>
        (\<forall>p \<in> set (pending s'). p \<in> set (pending s) \<or> pi_when p \<le> now s + horizon))"

definition due :: "('cb, 'z) hardware_scheme \<Rightarrow> 'cb pending_interrupt list" where
  "due s = takeWhile (is_due s) (pending s)"

definition fire ::
  "('cb \<Rightarrow> ('cb, 'z) hardware_scheme \<Rightarrow> ('cb, 'z) hardware_scheme res) \<Rightarrow>
   'cb pending_interrupt \<Rightarrow> ('cb, 'z) hardware_scheme \<Rightarrow> ('cb, 'z) hardware_scheme res" where
  "fire CallBack p s = CallBack (callOnInterrupt p) (s\<lparr>pending := tl (pending s)\<rparr>)"

text \<open>
  \<open>CheckIfDue\<close> runs handlers when something is due, or when it may advance the clock to the first
  pending interrupt; \<open>advanced\<close> is the state it runs them in.
\<close>

definition will_fire :: "bool \<Rightarrow> ('cb, 'z) hardware_scheme \<Rightarrow> bool" where
  "will_fire advanceClock s \<longleftrightarrow> pending s \<noteq> [] \<and> (advanceClock \<or> is_due s (hd (pending s)))"

definition clock_after :: "bool \<Rightarrow> ('cb, 'z) hardware_scheme \<Rightarrow> int" where
  "clock_after advanceClock s =
     (case pending s of [] \<Rightarrow> now s | p # _ \<Rightarrow> if advanceClock then max (now s) (pi_when p) else now s)"

definition advanced :: "bool \<Rightarrow> ('cb, 'z) hardware_scheme \<Rightarrow> ('cb, 'z) hardware_scheme" where
  "advanced advanceClock s =
     s\<lparr>stats := (if clock_after advanceClock s = now s then stats s
                else (stats s)\<lparr>idleTicks := s32 (idleTicks (stats s) + (clock_after advanceClock s - now s)),
                               totalTicks := clock_after advanceClock s\<rparr>),
       kmachine := map_option (\<lambda>m. set_reg 0 0 (set_reg LoadValueReg 0 (set_reg LoadReg 0
          (set_reg (unat (registers m LoadReg)) (registers m LoadValueReg) m)))) (kmachine s),
       inHandler := True\<rparr>"

lemma takeWhile_due:
  "sorted (map pi_when ps) \<Longrightarrow> takeWhile (is_due s) ps = filter (is_due s) ps"
proof (induction ps)
  case (Cons p ps)
  show ?case
  proof (cases "is_due s p")
    case False
    then have "\<forall>x \<in> set ps. \<not> is_due s x"
      using Cons.prems by (auto simp: is_due_def)
    with False show ?thesis by (simp add: filter_empty_conv)
  qed (use Cons in simp)
qed simp

lemma handler_effect_refl [simp]: "handler_effect s s"
  by (simp add: handler_effect_def)

lemma handler_effect_trans: "handler_effect s t \<Longrightarrow> handler_effect t u \<Longrightarrow> handler_effect s u"
  unfolding handler_effect_def is_due_def roomy_def by auto

lemma handler_effectI:
  assumes "now s' = now s" "level s' = level s" "inHandler s' = inHandler s" "mstatus s' = mstatus s"
    and "kmachine s' = kmachine s" "pending s' = pending s"
  shows "handler_effect s s'"
  using assms by (simp add: handler_effect_def)

text \<open>
  The outcome of \<open>Schedule\<close> on a state in order: it succeeds and, for a time within the horizon, is
  harmless to a running handler.
\<close>

lemma Schedule_effect:
  assumes "hardware_ok s" "d > 0"
  obtains q where "Schedule cb d ty s = Inr (s\<lparr>pending := q, next_address := next_address s + 1\<rparr>)"
    and "mset q = add_mset (new_interrupt cb d ty s) (mset (pending s))"
    and "hardware_ok (s\<lparr>pending := q, next_address := next_address s + 1\<rparr>)"
    and "d \<le> horizon \<Longrightarrow> handler_effect s (s\<lparr>pending := q, next_address := next_address s + 1\<rparr>)"
proof (rule Schedule_pending [OF assms, of cb ty])
  fix q
  assume run: "Schedule cb d ty s = Inr (s\<lparr>pending := q, next_address := next_address s + 1\<rparr>)"
    and ms: "mset q = add_mset (new_interrupt cb d ty s) (mset (pending s))"
    and ok: "hardware_ok (s\<lparr>pending := q, next_address := next_address s + 1\<rparr>)"
  let ?p = "new_interrupt cb d ty s"
  have sorted: "sorted (map pi_when q)" "sorted (map pi_when (pending s))"
    using ok assms(1) by (simp_all add: hardware_ok_def ordered_PendingCompare)
  have "seq_insert PendingCompare (pending s) ?p = Inr q"
    using run by (auto simp: Schedule_def new_interrupt_def Let_def bindr_Inr_iff
      dest!: arg_cong [of _ _ pending])
  then have q: "q = takeWhile (\<lambda>y. \<not> PendingCompare ?p y < 0) (pending s) @ ?p #
      dropWhile (\<lambda>y. \<not> PendingCompare ?p y < 0) (pending s)"
    by (simp add: seq_insert_def split: if_splits)
  have split: "filter (is_due s) (takeWhile Q xs) @ filter (is_due s) (dropWhile Q xs) = filter (is_due s) xs"
    for Q xs by (metis filter_append takeWhile_dropWhile_id)
  have elems: "set q = insert ?p (set (pending s))"
    using arg_cong [OF ms, of set_mset] by simp
  have "handler_effect s (s\<lparr>pending := q, next_address := next_address s + 1\<rparr>)" if d: "d \<le> horizon"
  proof -
    have room: "takeWhile (is_due s) q = takeWhile (is_due s) (pending s) \<and> pi_when ?p \<le> now s + horizon" if "roomy s"
    proof -
      have later: "pi_when ?p = now s + d" using roomy_when [OF that _ d] assms(2) by (simp add: new_interrupt_def)
      then have "\<not> is_due s ?p" using assms(2) by (simp add: is_due_def)
      then have "filter (is_due s) q = filter (is_due s) (pending s)" unfolding q by (simp add: split)
      with later d show ?thesis by (simp add: takeWhile_due sorted)
    qed
    with elems show ?thesis by (auto simp: handler_effect_def)
  qed
  with run ms ok show ?thesis by (rule that)
qed

lemma no_machine: "kmachine s = None \<Longrightarrow> s\<lparr>kmachine := None\<rparr> = s"
  by simp

section \<open>The loop\<close>

lemma more_due_iff: "more_due s \<longleftrightarrow> pending s \<noteq> [] \<and> is_due s (hd (pending s))"
  by (cases "pending s") (simp_all add: more_due_def is_due_def)

lemma not_more_due: "\<not> more_due s \<longleftrightarrow> due s = []"
  by (cases "pending s") (simp_all add: more_due_def due_def is_due_def)

lemma CheckIfDue_loop_unfold:
  "CheckIfDue_loop CallBack s =
     bindr (CheckIfDue_round CallBack s) (\<lambda>t. if more_due t then CheckIfDue_loop CallBack t else Inr t)"
proof (cases "CheckIfDue_round CallBack s")
  case (Inl e)
  then show ?thesis unfolding CheckIfDue_loop_def by (subst while_option_unfold) simp
next
  case (Inr t)
  then show ?thesis
    unfolding CheckIfDue_loop_def by (cases "more_due t"; subst while_option_unfold) simp_all
qed

lemma CheckIfDue_round_fire:
  "pending s \<noteq> [] \<Longrightarrow> CheckIfDue_round CallBack s = fire CallBack (hd (pending s)) s"
  by (cases "pending s") (simp_all add: CheckIfDue_round_def fire_def seq_remove_front_def)

text \<open>A loop whose every round succeeds and leaves more to do does not end.\<close>

lemma CheckIfDue_loop_hangs:
  assumes "P s" and round: "\<And>s. P s \<Longrightarrow> \<exists>t. CheckIfDue_round CallBack s = Inr t \<and> P t \<and> more_due t"
  shows "CheckIfDue_loop CallBack s = Inl Diverges"
proof -
  let ?b = "\<lambda>r. case r of Inl _ \<Rightarrow> False | Inr s \<Rightarrow> more_due s" and ?c = "\<lambda>r. bindr r (CheckIfDue_round CallBack)"
  have "while_option ?b ?c (CheckIfDue_round CallBack s) = None"
  proof (rule ccontr)
    assume "while_option ?b ?c (CheckIfDue_round CallBack s) \<noteq> None"
    then obtain r where r: "while_option ?b ?c (CheckIfDue_round CallBack s) = Some r" by blast
    have "\<exists>t. r = Inr t \<and> P t \<and> more_due t"
      by (rule while_option_rule [OF _ r]) (use round assms(1) in auto)
    with while_option_stop [OF r] show False by auto
  qed
  then show ?thesis by (simp add: CheckIfDue_loop_def)
qed

locale interrupt_handlers =
  fixes CallBack :: "'cb \<Rightarrow> ('cb, 'z) hardware_scheme \<Rightarrow> ('cb, 'z) hardware_scheme res"
    and I :: "('cb, 'z) hardware_scheme \<Rightarrow> bool"
  assumes ok: "I s \<Longrightarrow> hardware_ok s"
    and callback: "I s \<Longrightarrow> level s = IntOff \<Longrightarrow> inHandler s \<Longrightarrow> pending s = p # q \<Longrightarrow> is_due s p \<Longrightarrow>
      \<exists>s'. CallBack (callOnInterrupt p) (s\<lparr>pending := q\<rparr>) = Inr s' \<and> I s' \<and>
           handler_effect (s\<lparr>pending := q\<rparr>) s'"
    and frame_level: "I s \<Longrightarrow> I (s\<lparr>level := l\<rparr>)"
    and frame_inHandler: "I s \<Longrightarrow> I (s\<lparr>inHandler := b\<rparr>)"
    and frame_mstatus: "I s \<Longrightarrow> I (s\<lparr>mstatus := st\<rparr>)"
    and frame_stats: "I s \<Longrightarrow> hardware_ok (s\<lparr>stats := t\<rparr>) \<Longrightarrow> I (s\<lparr>stats := t\<rparr>)"
    and frame_kmachine: "I s \<Longrightarrow> kmachine s = Some m \<Longrightarrow> regs_ok m' \<Longrightarrow> I (s\<lparr>kmachine := Some m'\<rparr>)"
begin

text \<open>
  Whatever the clock says: if the loop ends, it has kept the invariant and left nothing that is due.
\<close>

lemma round_ok:
  assumes "I s" "level s = IntOff" "inHandler s" "more_due s"
  obtains t where "CheckIfDue_round CallBack s = Inr t" "I t" "handler_effect (s\<lparr>pending := tl (pending s)\<rparr>) t"
    "level t = IntOff" "inHandler t" "mstatus t = mstatus s" "now t = now s" "kmachine t = kmachine s"
proof -
  obtain p q where pq: "pending s = p # q" "is_due s p"
    using assms(4) by (cases "pending s") (simp_all add: more_due_def is_due_def)
  from callback [OF assms(1-3) pq] obtain t where
    t: "CallBack (callOnInterrupt p) (s\<lparr>pending := q\<rparr>) = Inr t" "I t" "handler_effect (s\<lparr>pending := q\<rparr>) t" by blast
  have "CheckIfDue_round CallBack s = Inr t" using t(1) pq(1) by (simp add: CheckIfDue_round_def seq_remove_front_def)
  then show thesis
    by (rule that) (use t assms pq in \<open>simp_all add: handler_effect_def\<close>)
qed

lemma loop_safe:
  assumes "I s" "level s = IntOff" "inHandler s" "more_due s"
  shows "CheckIfDue_loop CallBack s = Inl Diverges \<or>
    (\<exists>s'. CheckIfDue_loop CallBack s = Inr s' \<and> I s' \<and> level s' = IntOff \<and> inHandler s' \<and>
       mstatus s' = mstatus s \<and> kmachine s' = kmachine s \<and> now s' = now s \<and> due s' = [])"
proof -
  let ?b = "\<lambda>r. case r of Inl _ \<Rightarrow> False | Inr s \<Rightarrow> more_due s" and ?c = "\<lambda>r. bindr r (CheckIfDue_round CallBack)"
  let ?P = "\<lambda>t. I t \<and> level t = IntOff \<and> inHandler t \<and> mstatus t = mstatus s \<and> kmachine t = kmachine s \<and> now t = now s"
  have round: "\<exists>t'. CheckIfDue_round CallBack t = Inr t' \<and> ?P t'" if "?P t" "more_due t" for t
    using round_ok [of t] that by metis
  show ?thesis
  proof (cases "while_option ?b ?c (CheckIfDue_round CallBack s)")
    case None
    then show ?thesis by (simp add: CheckIfDue_loop_def)
  next
    case (Some r)
    have "\<exists>t. r = Inr t \<and> ?P t"
      by (rule while_option_rule [OF _ Some]) (use round assms in auto)
    then obtain t where t: "r = Inr t" "?P t" by blast
    with while_option_stop [OF Some] have "due t = []" by (simp add: not_more_due)
    with t Some show ?thesis by (simp add: CheckIfDue_loop_def)
  qed
qed

text \<open>While the clock has room, the loop ends: it runs the handlers of what is due, in order, and nothing else.\<close>

lemma loop_fires_due:
  assumes "I s" "level s = IntOff" "inHandler s" "more_due s" "roomy s"
  shows "CheckIfDue_loop CallBack s = foldM (fire CallBack) (due s) s \<and>
    (\<exists>s'. foldM (fire CallBack) (due s) s = Inr s' \<and> I s' \<and> level s' = IntOff \<and> inHandler s' \<and>
          mstatus s' = mstatus s \<and> kmachine s' = kmachine s \<and> now s' = now s \<and> due s' = [] \<and>
          set (pending s) - set (due s) \<subseteq> set (pending s') \<and>
          (\<forall>p \<in> set (pending s'). p \<in> set (pending s) \<or> pi_when p \<le> now s + horizon))"
  using assms
proof (induction "length (due s)" arbitrary: s rule: less_induct)
  case less
  note prems = less.prems
  obtain p q where pq: "pending s = p # q" "is_due s p"
    using prems(4) by (cases "pending s") (simp_all add: more_due_def is_due_def)
  from round_ok [OF prems(1-4)] obtain t where
    t: "CheckIfDue_round CallBack s = Inr t" "I t" "handler_effect (s\<lparr>pending := q\<rparr>) t"
    and eff: "level t = IntOff" "inHandler t" "mstatus t = mstatus s" "now t = now s" "kmachine t = kmachine s"
    using pq(1) by auto
  have is_due: "is_due t = is_due s" "is_due (s\<lparr>pending := q\<rparr>) = is_due s"
    using eff by (simp_all add: is_due_def fun_eq_iff)
  have room: "roomy (s\<lparr>pending := q\<rparr>)" "roomy t" using prems(5) eff by (simp_all add: roomy_def)
  have due: "due s = p # due t"
    using t(3) pq room by (simp add: due_def handler_effect_def is_due)
  have new: "\<forall>x \<in> set (pending t). x \<in> set (pending s) \<or> pi_when x \<le> now s + horizon"
    and kept: "set q \<subseteq> set (pending t)"
    using t(3) pq(1) room(1) by (auto simp: handler_effect_def)
  have step: "CheckIfDue_loop CallBack s = (if more_due t then CheckIfDue_loop CallBack t else Inr t)"
    by (subst CheckIfDue_loop_unfold) (simp add: t(1))
  have "fire CallBack p s = Inr t" using t(1) CheckIfDue_round_fire [of s CallBack] pq(1) by simp
  then have fold: "foldM (fire CallBack) (due s) s = foldM (fire CallBack) (due t) t" by (simp add: due)
  have sub: "set (pending s) - set (due s) \<subseteq> set (pending t) - set (due t)"
    using kept pq(1) due by auto
  show ?case
  proof (cases "more_due t")
    case False
    then have "due t = []" by (simp add: not_more_due)
    with False t eff sub new show ?thesis by (simp add: fold step)
  next
    case True
    have less: "length (due t) < length (due s)" by (simp add: due)
    note rest = less.hyps [OF less t(2) eff(1,2) True room(2)]
    then obtain s' where s': "foldM (fire CallBack) (due t) t = Inr s'" "I s'"
      "level s' = IntOff" "inHandler s'" "mstatus s' = mstatus t" "kmachine s' = kmachine t" "now s' = now t" "due s' = []"
      "set (pending t) - set (due t) \<subseteq> set (pending s')"
      "\<forall>x \<in> set (pending s'). x \<in> set (pending t) \<or> pi_when x \<le> now t + horizon" by blast
    have "set (pending s) - set (due s) \<subseteq> set (pending s')" using sub s'(9) by (rule subset_trans)
    moreover have "\<forall>x \<in> set (pending s'). x \<in> set (pending s) \<or> pi_when x \<le> now s + horizon"
      using s'(10) new eff(4) by auto
    ultimately show ?thesis using s' eff rest True by (simp add: fold step)
  qed
qed

lemma advanced_ok:
  assumes "I s"
  shows "I (advanced advanceClock s)"
proof -
  have ok_s: "hardware_ok s" using assms by (rule ok)
  let ?c = "clock_after advanceClock s"
  let ?t = "if ?c = now s then stats s else (stats s)\<lparr>idleTicks := s32 (idleTicks (stats s) + (?c - now s)),
    totalTicks := ?c\<rparr>"
  have clock: "s32 (now s) = s32 (idleTicks (stats s) + systemTicks (stats s) + userTicks (stats s))"
    using ok_s by (simp add: hardware_ok_def)
  have "s32 (s32 (idleTicks (stats s) + (?c - now s)) + systemTicks (stats s) + userTicks (stats s)) =
      s32 (?c - s32 (now s) + s32 (idleTicks (stats s) + systemTicks (stats s) + userTicks (stats s)))"
    by (simp add: s32_def algebra_simps flip: wi_hom_add wi_hom_sub)
  then have "s32 ?c = s32 (s32 (idleTicks (stats s) + (?c - now s)) + systemTicks (stats s) + userTicks (stats s))"
    unfolding clock by simp
  then have "hardware_ok (s\<lparr>stats := ?t\<rparr>)"
    using ok_s by (auto simp: hardware_ok_def split: option.split)
  then have a: "I (s\<lparr>stats := ?t\<rparr>)" using frame_stats [OF assms] by simp
  show ?thesis
  proof (cases "kmachine s")
    case None
    then have "advanced advanceClock s = s\<lparr>stats := ?t\<rparr>\<lparr>inHandler := True\<rparr>"
      by (simp add: advanced_def)
    with frame_inHandler [OF a] show ?thesis by simp
  next
    case (Some m)
    have m: "regs_ok m" using ok_s Some by (simp add: hardware_ok_def)
    let ?m = "set_reg 0 0 (set_reg LoadValueReg 0 (set_reg LoadReg 0
          (set_reg (unat (registers m LoadReg)) (registers m LoadValueReg) m)))"
    have "regs_ok ?m" using m by (simp add: regs_ok_def reg_numbers)
    then have "I (s\<lparr>stats := ?t\<rparr>\<lparr>kmachine := Some ?m\<rparr>\<lparr>inHandler := True\<rparr>)"
      using frame_kmachine [OF a] Some by (intro frame_inHandler) simp
    then show ?thesis using Some by (simp add: advanced_def)
  qed
qed

lemma CheckIfDue_quiet:
  assumes "level s = IntOff" "\<not> will_fire advanceClock s"
  shows "CheckIfDue CallBack advanceClock s = Inr (False, s)"
  using assms by (cases "pending s") (auto simp: CheckIfDue_def will_fire_def is_due_def)

lemma advanced_fields:
  "pending (advanced a s) = pending s" "level (advanced a s) = level s" "inHandler (advanced a s)"
  "mstatus (advanced a s) = mstatus s" "now (advanced a s) = clock_after a s"
  by (simp_all add: advanced_def)

lemma advanced_due: "will_fire a s \<Longrightarrow> more_due (advanced a s)"
  by (cases "pending s") (auto simp: will_fire_def more_due_iff is_due_def advanced_fields clock_after_def)

lemma CheckIfDue_run:
  assumes "I s" "level s = IntOff" "will_fire advanceClock s"
  shows "CheckIfDue CallBack advanceClock s =
    bindr (CheckIfDue_loop CallBack (advanced advanceClock s)) (\<lambda>s. Inr (True, s\<lparr>inHandler := False\<rparr>))"
proof -
  obtain p q where pq: "pending s = p # q" using assms(3) by (cases "pending s") (auto simp: will_fire_def)
  have m: "(case kmachine s of None \<Rightarrow> True | Some m \<Rightarrow> registers m LoadReg < 32)"
    using ok [OF assms(1)] by (simp add: hardware_ok_def regs_ok_def split: option.splits)
  have "\<not> (pi_when p > now s \<and> \<not> advanceClock)"
    using assms(3) pq by (auto simp: will_fire_def is_due_def)
  moreover have "clock_after advanceClock s = (if pi_when p > now s then pi_when p else now s)"
    using assms(3) pq by (auto simp: clock_after_def will_fire_def is_due_def)
  ultimately show ?thesis
    using assms(2) m
    by (cases "kmachine s")
      (auto simp: CheckIfDue_def pq advanced_def DelayedLoad_ok no_machine Let_def)
qed

lemma CheckIfDue_safe:
  assumes "I s" "level s = IntOff" "will_fire advanceClock s"
  shows "CheckIfDue CallBack advanceClock s = Inl Diverges \<or>
    (\<exists>s'. CheckIfDue CallBack advanceClock s = Inr (True, s'\<lparr>inHandler := False\<rparr>) \<and>
      I (s'\<lparr>inHandler := False\<rparr>) \<and> level s' = IntOff \<and> mstatus s' = mstatus s \<and>
      kmachine s' = kmachine (advanced advanceClock s) \<and> now s' = clock_after advanceClock s \<and> due s' = [])"
  using loop_safe [OF advanced_ok [OF assms(1)] _ _ advanced_due [OF assms(3)]] assms(2) frame_inHandler
  unfolding CheckIfDue_run [OF assms] by (fastforce simp: advanced_fields)

lemma CheckIfDue_fires:
  assumes "I s" "level s = IntOff" "will_fire advanceClock s" "roomy (advanced advanceClock s)"
  shows "\<exists>s'. foldM (fire CallBack) (due (advanced advanceClock s)) (advanced advanceClock s) = Inr s' \<and>
    CheckIfDue CallBack advanceClock s = Inr (True, s'\<lparr>inHandler := False\<rparr>) \<and>
    I (s'\<lparr>inHandler := False\<rparr>) \<and> level s' = IntOff \<and> mstatus s' = mstatus s \<and>
    kmachine s' = kmachine (advanced advanceClock s) \<and>
    now s' = clock_after advanceClock s \<and> due s' = [] \<and>
    set (pending s) - set (due (advanced advanceClock s)) \<subseteq> set (pending s') \<and>
    (\<forall>p \<in> set (pending s'). p \<in> set (pending s) \<or> pi_when p \<le> now s' + horizon)"
  using loop_fires_due [OF advanced_ok [OF assms(1)] _ _ advanced_due [OF assms(3)] assms(4)] assms(2) frame_inHandler
  unfolding CheckIfDue_run [OF assms(1-3)] by (fastforce simp: advanced_fields)

text \<open>The clock that has room and the horizon are kept.\<close>

lemma CheckIfDue_near:
  assumes "I s" "level s = IntOff" "near s" "clock_after advanceClock s < clock_limit + horizon"
  shows "\<exists>fired s'. CheckIfDue CallBack advanceClock s = Inr (fired, s') \<and> near s'"
proof (cases "will_fire advanceClock s")
  case False
  then show ?thesis using CheckIfDue_quiet [OF assms(2)] assms(3) by blast
next
  case True
  have after: "now s \<le> clock_after advanceClock s"
    by (simp add: clock_after_def split: list.split)
  then have "roomy (advanced advanceClock s)"
    using assms(3,4) by (simp add: roomy_def near_def advanced_fields)
  from CheckIfDue_fires [OF assms(1,2) True this] obtain s' where s':
    "CheckIfDue CallBack advanceClock s = Inr (True, s'\<lparr>inHandler := False\<rparr>)"
    "now s' = clock_after advanceClock s"
    "\<forall>p \<in> set (pending s'). p \<in> set (pending s) \<or> pi_when p \<le> now s' + horizon" by blast
  have "near (s'\<lparr>inHandler := False\<rparr>)" using s'(2,3) after assms(3) by (force simp: near_def)
  with s'(1) show ?thesis by blast
qed

end

end
