(* ===== verification/Bytes.thy ===== *)
theory Bytes
  imports Nachos_Prelude
begin

text \<open>
  Objects as the bytes they are copied as.  The simulator runs on a little-endian 32-bit host, and a
  structure of \<open>int\<close> and \<open>unsigned\<close> fields is the concatenation of their words.
\<close>

definition word_bytes :: "u32 \<Rightarrow> u8 list" where
  "word_bytes w = [ucast w, ucast (drop_bit 8 w), ucast (drop_bit 16 w), ucast (drop_bit 24 w)]"

definition bytes_word :: "u8 list \<Rightarrow> u32" where
  "bytes_word bs =
     ucast (bs ! 0) OR push_bit 8 (ucast (bs ! 1)) OR push_bit 16 (ucast (bs ! 2)) OR
     push_bit 24 (ucast (bs ! 3))"

text \<open>\<open>bcopy\<close> of \<open>n\<close> bytes from an offset of a buffer.\<close>

definition bytes_at :: "u8 list \<Rightarrow> int \<Rightarrow> int \<Rightarrow> u8 list res" where
  "bytes_at bs i n =
     (if 0 \<le> n \<and> 0 \<le> i \<and> i + n \<le> int (length bs) then Inr (take (nat n) (drop (nat i) bs))
      else Inl OutOfBounds)"

text \<open>\<open>bcopy\<close> of \<open>bs\<close> to an offset of a buffer.\<close>

definition bytes_put :: "u8 list \<Rightarrow> int \<Rightarrow> u8 list \<Rightarrow> u8 list res" where
  "bytes_put buf i bs =
     (if 0 \<le> i \<and> i + int (length bs) \<le> int (length buf)
      then Inr (take (nat i) buf @ bs @ drop (nat i + length bs) buf) else Inl OutOfBounds)"

text \<open>What C's string functions see of an array of characters: they read up to the first zero.\<close>

definition c_string :: "u8 list \<Rightarrow> u8 list res" where
  "c_string a = (if 0 \<in> set a then Inr (takeWhile (\<lambda>c. c \<noteq> 0) a) else Inl OutOfBounds)"

lemma bytes_at_in:
  "0 \<le> n \<Longrightarrow> 0 \<le> i \<Longrightarrow> i + n \<le> int (length bs) \<Longrightarrow> bytes_at bs i n = Inr (take (nat n) (drop (nat i) bs))"
  by (simp add: bytes_at_def)

lemma word_bytes_length [simp]: "length (word_bytes w) = 4"
  by (simp add: word_bytes_def)

lemma bytes_word_bytes [simp]: "bytes_word (word_bytes w) = w"
proof (rule bit_word_eqI)
  fix n assume "n < LENGTH(32)"
  then consider "n < 8" | "8 \<le> n" "n < 16" | "16 \<le> n" "n < 24" | "24 \<le> n" "n < 32"
    by force
  then show "bit (bytes_word (word_bytes w)) n \<longleftrightarrow> bit w n"
    by cases (simp_all add: bytes_word_def word_bytes_def bit_or_iff bit_push_bit_iff
      bit_ucast_iff bit_drop_bit_eq, auto)
qed

lemma bytes_word_nth: "bytes_word (take 4 bs) = bytes_word bs"
  by (simp add: bytes_word_def)

lemma bytes_word_append [simp]: "bytes_word (word_bytes w @ bs) = w"
  using bytes_word_nth [of "word_bytes w @ bs"] by simp

text \<open>Consecutive words: the image of an array of integers, and of a structure of them.\<close>

definition words_bytes :: "u32 list \<Rightarrow> u8 list" where
  "words_bytes ws = concat (map word_bytes ws)"

primrec bytes_words :: "nat \<Rightarrow> u8 list \<Rightarrow> u32 list" where
  "bytes_words 0 bs = []"
| "bytes_words (Suc n) bs = bytes_word bs # bytes_words n (drop 4 bs)"

lemma words_bytes_length [simp]: "length (words_bytes ws) = 4 * length ws"
  by (induction ws) (simp_all add: words_bytes_def)

lemma bytes_words_length [simp]: "length (bytes_words n bs) = n"
  by (induction n arbitrary: bs) simp_all

lemma bytes_words_bytes [simp]: "bytes_words (length ws) (words_bytes ws @ bs) = ws"
  by (induction ws) (simp_all add: words_bytes_def)

lemma bytes_words_bytes_n: "length ws = n \<Longrightarrow> bytes_words n (words_bytes ws @ bs) = ws"
  using bytes_words_bytes by blast

end
