(* ===== verification/Devices.thy ===== *)
theory Devices
  imports Complex_Main Interrupt Bytes
begin

text \<open>
  The simulated devices of \<open>machine/\<close>: the timer with the software alarm it drives
  (\<open>threads/alarm.cc\<close>), the disk, the console and the network.

  Each class is a record and every method takes and returns the kernel state, since a method reaches
  the clock, the statistics and the interrupt queue through the global \<open>kernel\<close>.  The outside
  world is part of the state: the outcomes of polling the keyboard and the socket in the order they
  will be observed, what was written to the display and to the network, the sectors of the disk
  file, and the values \<open>RandomNumber\<close> will return.  A device calls the software that owns it through
  \<open>callWhenDone\<close>, a parameter of its \<open>CallBack\<close>.
\<close>

section \<open>State\<close>

datatype device = TimerDevice | DiskDevice | ConsoleInputDevice | ConsoleOutputDevice |
  NetworkInputDevice | NetworkOutputDevice

definition SectorSize :: nat where "SectorSize = 128"
definition SectorsPerTrack :: nat where "SectorsPerTrack = 32"
definition NumTracks :: nat where "NumTracks = 32"
definition NumSectors :: nat where "NumSectors = SectorsPerTrack * NumTracks"

lemmas disk_constants = SectorSize_def SectorsPerTrack_def NumTracks_def NumSectors_def

record timer =
  randomize :: bool
  disable :: bool

record disk =
  sectors :: "nat \<Rightarrow> u8 list"
  active :: bool
  lastSector :: int
  bufferInit :: int

text \<open>One poll of the keyboard: nothing to read, end of file, a character, or a failing \<open>read\<close>.\<close>

datatype key_event = NoKey | EndOfFile | Key u8 | ReadError

text \<open>\<open>EOF\<close> is \<open>-1\<close>, and a \<open>char\<close> is signed.\<close>

definition EOF_char :: u8 where "EOF_char = 0xFF"

record console_input =
  keyboard :: "key_event list"
  incoming :: u8

record console_output =
  display :: "u8 list"
  putBusy :: bool

record packet_header =
  pkt_to :: u32
  pkt_from :: u32
  pkt_length :: u32

definition sizeof_PacketHeader :: nat where "sizeof_PacketHeader = 12"
definition MaxWireSize :: nat where "MaxWireSize = 64"
definition MaxPacketSize :: nat where "MaxPacketSize = MaxWireSize - sizeof_PacketHeader"

lemmas network_constants = sizeof_PacketHeader_def MaxWireSize_def MaxPacketSize_def

text \<open>One poll of the socket: nothing, or the bytes of a packet.\<close>

record network_input =
  arriving :: "u8 list option list"
  inHdr :: packet_header
  inbox :: "u8 list"

record network_output =
  wire :: "(u32 \<times> u8 list) list"
  chanceToWork :: rat
  sendBusy :: bool

record devices = "device hardware" +
  hostName :: u32
  random_numbers :: "nat \<Rightarrow> int"
  random_used :: nat
  timer :: timer
  disk :: disk
  consoleInput :: console_input
  consoleOutput :: console_output
  networkInput :: network_input
  networkOutput :: network_output

definition RandomNumber :: "'z devices_scheme \<Rightarrow> int \<times> 'z devices_scheme" where
  "RandomNumber s = (random_numbers s (random_used s), s\<lparr>random_used := random_used s + 1\<rparr>)"

section \<open>Timer and alarm\<close>

definition Timer_SetInterrupt :: "'z devices_scheme \<Rightarrow> 'z devices_scheme res" where
  "Timer_SetInterrupt s =
     (if \<not> disable (timer s) then
        let (delay, s) = (if randomize (timer s)
                          then (let (r, s) = RandomNumber s in (1 + r smod (TimerTicks * 2), s))
                          else (TimerTicks, s)) in
        Schedule TimerDevice delay TimerInt s
      else Inr s)"

definition Timer_Timer :: "bool \<Rightarrow> 'z devices_scheme \<Rightarrow> 'z devices_scheme res" where
  "Timer_Timer doRandom s = Timer_SetInterrupt (s\<lparr>timer := \<lparr>randomize = doRandom, disable = False\<rparr>\<rparr>)"

definition Alarm_CallBack :: "'z devices_scheme \<Rightarrow> 'z devices_scheme res" where
  "Alarm_CallBack s = (if mstatus s \<noteq> IdleMode then YieldOnReturn s else Inr s)"

definition Timer_CallBack ::
  "('z devices_scheme \<Rightarrow> 'z devices_scheme res) \<Rightarrow> 'z devices_scheme \<Rightarrow> 'z devices_scheme res" where
  "Timer_CallBack callPeriodically s = bindr (callPeriodically s) Timer_SetInterrupt"

section \<open>Disk\<close>

definition Disk_Disk :: "(nat \<Rightarrow> u8 list) \<Rightarrow> disk" where
  "Disk_Disk contents = \<lparr>sectors = contents, active = False, lastSector = 0, bufferInit = 0\<rparr>"

text \<open>Returns the seek time and, as the second component, \<open>*rotation\<close>.\<close>

definition TimeToSeek :: "int \<Rightarrow> 'z devices_scheme \<Rightarrow> int \<times> int" where
  "TimeToSeek newSector s =
     (let newTrack = newSector sdiv int SectorsPerTrack;
          oldTrack = lastSector (disk s) sdiv int SectorsPerTrack;
          seek = \<bar>newTrack - oldTrack\<bar> * SeekTime;
          over = s32 (now s + seek) smod RotationTime in
      (seek, if over > 0 then RotationTime - over else 0))"

definition ModuloDiff :: "int \<Rightarrow> int \<Rightarrow> int" where
  "ModuloDiff to from =
     (let toOffset = to smod int SectorsPerTrack; fromOffset = from smod int SectorsPerTrack in
      (toOffset - fromOffset + int SectorsPerTrack) smod int SectorsPerTrack)"

definition ComputeLatency :: "int \<Rightarrow> bool \<Rightarrow> 'z devices_scheme \<Rightarrow> int" where
  "ComputeLatency newSector writing s =
     (let (seek, rotation) = TimeToSeek newSector s;
          timeAfter = s32 (now s + seek + rotation) in
      if \<not> writing \<and> seek = 0 \<and>
         s32 (timeAfter - bufferInit (disk s)) sdiv RotationTime >
           ModuloDiff newSector (bufferInit (disk s) sdiv RotationTime)
      then RotationTime
      else seek + (rotation + ModuloDiff newSector (timeAfter sdiv RotationTime) * RotationTime) +
           RotationTime)"

definition UpdateLast :: "int \<Rightarrow> 'z devices_scheme \<Rightarrow> 'z devices_scheme" where
  "UpdateLast newSector s =
     (let (seek, rotate) = TimeToSeek newSector s;
          d = (if seek \<noteq> 0 then (disk s)\<lparr>bufferInit := s32 (now s + seek + rotate)\<rparr> else disk s) in
      s\<lparr>disk := d\<lparr>lastSector := newSector\<rparr>\<rparr>)"

definition Disk_ReadRequest :: "int \<Rightarrow> 'z devices_scheme \<Rightarrow> (u8 list \<times> 'z devices_scheme) res" where
  "Disk_ReadRequest sectorNumber s =
     (let ticks = ComputeLatency sectorNumber False s in
      bindr (ASSERT (\<not> active (disk s))) (\<lambda>_.
      bindr (ASSERT (sectorNumber \<ge> 0 \<and> sectorNumber < int NumSectors)) (\<lambda>_.
      let data = sectors (disk s) (nat sectorNumber);
          s = UpdateLast sectorNumber (s\<lparr>disk := (disk s)\<lparr>active := True\<rparr>\<rparr>);
          s = s\<lparr>stats := (stats s)\<lparr>numDiskReads := s32 (numDiskReads (stats s) + 1)\<rparr>\<rparr> in
      bindr (Schedule DiskDevice ticks DiskInt s) (\<lambda>s. Inr (data, s)))))"

definition Disk_WriteRequest :: "int \<Rightarrow> u8 list \<Rightarrow> 'z devices_scheme \<Rightarrow> 'z devices_scheme res" where
  "Disk_WriteRequest sectorNumber data s =
     (let ticks = ComputeLatency sectorNumber True s in
      bindr (ASSERT (\<not> active (disk s))) (\<lambda>_.
      bindr (ASSERT (sectorNumber \<ge> 0 \<and> sectorNumber < int NumSectors)) (\<lambda>_.
      bindr (bytes_at data 0 (int SectorSize)) (\<lambda>data.
      let d = disk s;
          s = s\<lparr>disk := d\<lparr>sectors := (sectors d)(nat sectorNumber := data), active := True\<rparr>\<rparr>;
          s = UpdateLast sectorNumber s;
          s = s\<lparr>stats := (stats s)\<lparr>numDiskWrites := s32 (numDiskWrites (stats s) + 1)\<rparr>\<rparr> in
      Schedule DiskDevice ticks DiskInt s))))"

definition Disk_CallBack ::
  "('z devices_scheme \<Rightarrow> 'z devices_scheme res) \<Rightarrow> 'z devices_scheme \<Rightarrow> 'z devices_scheme res" where
  "Disk_CallBack callWhenDone s = callWhenDone (s\<lparr>disk := (disk s)\<lparr>active := False\<rparr>\<rparr>)"

section \<open>Console\<close>

definition ConsoleInput_ConsoleInput :: "key_event list \<Rightarrow> 'z devices_scheme \<Rightarrow> 'z devices_scheme res" where
  "ConsoleInput_ConsoleInput readFile s =
     Schedule ConsoleInputDevice ConsoleTime ConsoleReadInt
       (s\<lparr>consoleInput := \<lparr>keyboard = readFile, incoming = EOF_char\<rparr>\<rparr>)"

definition ConsoleInput_CallBack ::
  "('z devices_scheme \<Rightarrow> 'z devices_scheme res) \<Rightarrow> 'z devices_scheme \<Rightarrow> 'z devices_scheme res" where
  "ConsoleInput_CallBack callWhenAvail s =
     bindr (ASSERT (incoming (consoleInput s) = EOF_char)) (\<lambda>_.
     let events = keyboard (consoleInput s);
         event = (case events of [] \<Rightarrow> NoKey | e # _ \<Rightarrow> e);
         s = s\<lparr>consoleInput := (consoleInput s)\<lparr>keyboard := tl events\<rparr>\<rparr> in
     case event of
       NoKey \<Rightarrow> Schedule ConsoleInputDevice ConsoleTime ConsoleReadInt s
     | EndOfFile \<Rightarrow> callWhenAvail s
     | ReadError \<Rightarrow> Inl AssertionFailed
     | Key c \<Rightarrow>
         callWhenAvail
           (s\<lparr>consoleInput := (consoleInput s)\<lparr>incoming := c\<rparr>,
              stats := (stats s)\<lparr>numConsoleCharsRead := s32 (numConsoleCharsRead (stats s) + 1)\<rparr>\<rparr>))"

definition ConsoleInput_GetChar :: "'z devices_scheme \<Rightarrow> (u8 \<times> 'z devices_scheme) res" where
  "ConsoleInput_GetChar s =
     (let ch = incoming (consoleInput s) in
      bindr (if ch \<noteq> EOF_char then Schedule ConsoleInputDevice ConsoleTime ConsoleReadInt s else Inr s) (\<lambda>s.
      Inr (ch, s\<lparr>consoleInput := (consoleInput s)\<lparr>incoming := EOF_char\<rparr>\<rparr>)))"

definition ConsoleOutput_ConsoleOutput :: console_output where
  "ConsoleOutput_ConsoleOutput = \<lparr>display = [], putBusy = False\<rparr>"

definition ConsoleOutput_CallBack ::
  "('z devices_scheme \<Rightarrow> 'z devices_scheme res) \<Rightarrow> 'z devices_scheme \<Rightarrow> 'z devices_scheme res" where
  "ConsoleOutput_CallBack callWhenDone s =
     callWhenDone
       (s\<lparr>consoleOutput := (consoleOutput s)\<lparr>putBusy := False\<rparr>,
          stats := (stats s)\<lparr>numConsoleCharsWritten := s32 (numConsoleCharsWritten (stats s) + 1)\<rparr>\<rparr>)"

definition ConsoleOutput_PutChar :: "u8 \<Rightarrow> 'z devices_scheme \<Rightarrow> 'z devices_scheme res" where
  "ConsoleOutput_PutChar ch s =
     bindr (ASSERT (putBusy (consoleOutput s) = False)) (\<lambda>_.
     let c = consoleOutput s in
     Schedule ConsoleOutputDevice ConsoleTime ConsoleWriteInt
       (s\<lparr>consoleOutput := c\<lparr>display := display c @ [ch], putBusy := True\<rparr>\<rparr>))"

section \<open>Network\<close>

definition header_bytes :: "packet_header \<Rightarrow> u8 list" where
  "header_bytes hdr = words_bytes [pkt_to hdr, pkt_from hdr, pkt_length hdr]"

definition bytes_header :: "u8 list \<Rightarrow> packet_header" where
  "bytes_header bs =
     (let ws = bytes_words 3 bs in \<lparr>pkt_to = ws ! 0, pkt_from = ws ! 1, pkt_length = ws ! 2\<rparr>)"

text \<open>\<open>bcopy (from, to, n)\<close> into a buffer: the first \<open>n\<close> bytes of \<open>from\<close> replace those at \<open>i\<close>.\<close>

definition copy_into :: "u8 list \<Rightarrow> int \<Rightarrow> int \<Rightarrow> u8 list \<Rightarrow> u8 list res" where
  "copy_into from i n to =
     bindr (bytes_at from 0 n) (\<lambda>bs.
     if i + n \<le> int (length to) then Inr (take (nat i) to @ bs @ drop (nat (i + n)) to)
     else Inl OutOfBounds)"

definition NetworkInput_NetworkInput ::
  "u8 list option list \<Rightarrow> packet_header \<Rightarrow> u8 list \<Rightarrow> 'z devices_scheme \<Rightarrow> 'z devices_scheme res" where
  "NetworkInput_NetworkInput socket garbage_hdr garbage s =
     Schedule NetworkInputDevice NetworkTime NetworkRecvInt
       (s\<lparr>networkInput := \<lparr>arriving = socket, inHdr = garbage_hdr\<lparr>pkt_length := 0\<rparr>,
                            inbox = take MaxPacketSize garbage\<rparr>\<rparr>)"

definition NetworkInput_CallBack ::
  "('z devices_scheme \<Rightarrow> 'z devices_scheme res) \<Rightarrow> 'z devices_scheme \<Rightarrow> 'z devices_scheme res" where
  "NetworkInput_CallBack callWhenAvail s =
     bindr (Schedule NetworkInputDevice NetworkTime NetworkRecvInt s) (\<lambda>s.
     let n = networkInput s in
     if pkt_length (inHdr n) \<noteq> 0 then Inr s
     else
       case arriving n of
         [] \<Rightarrow> Inr s
       | None # rest \<Rightarrow> Inr (s\<lparr>networkInput := n\<lparr>arriving := rest\<rparr>\<rparr>)
       | Some buffer # rest \<Rightarrow>
           let hdr = bytes_header buffer in
           bindr (ASSERT (pkt_to hdr = hostName s \<and> pkt_length hdr \<le> of_nat MaxPacketSize)) (\<lambda>_.
           bindr (copy_into (drop sizeof_PacketHeader buffer) 0 (uint (pkt_length hdr)) (inbox n)) (\<lambda>box.
           callWhenAvail
             (s\<lparr>networkInput := n\<lparr>arriving := rest, inHdr := hdr, inbox := box\<rparr>,
                stats := (stats s)\<lparr>numPacketsRecvd := s32 (numPacketsRecvd (stats s) + 1)\<rparr>\<rparr>))))"

definition NetworkInput_Receive ::
  "u8 list \<Rightarrow> 'z devices_scheme \<Rightarrow> (packet_header \<times> u8 list \<times> 'z devices_scheme) res" where
  "NetworkInput_Receive data s =
     (let n = networkInput s; hdr = inHdr n;
          s = s\<lparr>networkInput := n\<lparr>inHdr := hdr\<lparr>pkt_length := 0\<rparr>\<rparr>\<rparr> in
      bindr (if pkt_length hdr \<noteq> 0 then copy_into (inbox n) 0 (uint (pkt_length hdr)) data else Inr data) (\<lambda>data.
      Inr (hdr, data, s)))"

definition NetworkOutput_NetworkOutput :: "rat \<Rightarrow> network_output" where
  "NetworkOutput_NetworkOutput reliability =
     \<lparr>wire = [],
      chanceToWork = (if reliability < 0 then 0 else if reliability > 1 then 1 else reliability),
      sendBusy = False\<rparr>"

definition NetworkOutput_CallBack ::
  "('z devices_scheme \<Rightarrow> 'z devices_scheme res) \<Rightarrow> 'z devices_scheme \<Rightarrow> 'z devices_scheme res" where
  "NetworkOutput_CallBack callWhenDone s =
     callWhenDone
       (s\<lparr>networkOutput := (networkOutput s)\<lparr>sendBusy := False\<rparr>,
          stats := (stats s)\<lparr>numPacketsSent := s32 (numPacketsSent (stats s) + 1)\<rparr>\<rparr>)"

text \<open>\<open>garbage\<close> is the uninitialised buffer of \<open>MaxWireSize\<close> bytes that the packet is built in.\<close>

definition NetworkOutput_Send ::
  "u8 list \<Rightarrow> packet_header \<Rightarrow> u8 list \<Rightarrow> 'z devices_scheme \<Rightarrow> 'z devices_scheme res" where
  "NetworkOutput_Send garbage hdr data s =
     bindr (ASSERT (sendBusy (networkOutput s) = False \<and> pkt_length hdr > 0 \<and>
                    pkt_length hdr \<le> of_nat MaxPacketSize \<and> pkt_from hdr = hostName s)) (\<lambda>_.
     bindr (Schedule NetworkOutputDevice NetworkTime NetworkSendInt s) (\<lambda>s.
     let (r, s) = RandomNumber s in
     if of_int (r smod 100) \<ge> chanceToWork (networkOutput s) * 100 then Inr s
     else
       bindr (copy_into (header_bytes hdr) 0 (int sizeof_PacketHeader) garbage) (\<lambda>buffer.
       bindr (copy_into data (int sizeof_PacketHeader) (uint (pkt_length hdr)) buffer) (\<lambda>buffer.
       let n = networkOutput s in
       Inr (s\<lparr>networkOutput := n\<lparr>wire := wire n @ [(pkt_to hdr, buffer)]\<rparr>\<rparr>)))))"

section \<open>Delivery of an interrupt\<close>

text \<open>
  \<open>callOnInterrupt->CallBack()\<close>.  \<open>software d\<close> is the object that device \<open>d\<close> calls when it is done;
  the timer's is the alarm.
\<close>

primrec device_CallBack ::
  "(device \<Rightarrow> 'z devices_scheme \<Rightarrow> 'z devices_scheme res) \<Rightarrow>
   device \<Rightarrow> 'z devices_scheme \<Rightarrow> 'z devices_scheme res" where
  "device_CallBack software TimerDevice = Timer_CallBack Alarm_CallBack"
| "device_CallBack software DiskDevice = Disk_CallBack (software DiskDevice)"
| "device_CallBack software ConsoleInputDevice = ConsoleInput_CallBack (software ConsoleInputDevice)"
| "device_CallBack software ConsoleOutputDevice = ConsoleOutput_CallBack (software ConsoleOutputDevice)"
| "device_CallBack software NetworkInputDevice = NetworkInput_CallBack (software NetworkInputDevice)"
| "device_CallBack software NetworkOutputDevice = NetworkOutput_CallBack (software NetworkOutputDevice)"

end
