(* ===== verification/Devices_Correct.thy ===== *)
theory Devices_Correct
  imports Devices
begin

text \<open>
  What the devices guarantee: an invariant that ties each device to the interrupts it has pending,
  the proof that every interrupt handler runs without a fault and keeps it, and the timing of the disk.
\<close>

section \<open>The invariant\<close>

definition waiting :: "device \<Rightarrow> 'z devices_scheme \<Rightarrow> nat" where
  "waiting d s = count (image_mset callOnInterrupt (mset (pending s))) d"

definition packet_ok :: "u32 \<Rightarrow> u8 list \<Rightarrow> bool" where
  "packet_ok host buffer \<longleftrightarrow>
     length buffer = MaxWireSize \<and> pkt_to (bytes_header buffer) = host \<and>
     pkt_length (bytes_header buffer) \<le> of_nat MaxPacketSize"

definition disk_ok :: "'z devices_scheme \<Rightarrow> bool" where
  "disk_ok s \<longleftrightarrow>
     (\<forall>n < NumSectors. length (sectors (disk s) n) = SectorSize) \<and>
     0 \<le> lastSector (disk s) \<and> lastSector (disk s) < int NumSectors"

definition network_ok :: "'z devices_scheme \<Rightarrow> bool" where
  "network_ok s \<longleftrightarrow>
     length (inbox (networkInput s)) = MaxPacketSize \<and>
     (\<forall>b. Some b \<in> set (arriving (networkInput s)) \<longrightarrow> packet_ok (hostName s) b)"

text \<open>The model does not rule out that the \<open>read\<close> of a key fails; the invariant does.\<close>

definition keyboard_ok :: "'z devices_scheme \<Rightarrow> bool" where
  "keyboard_ok s \<longleftrightarrow> ReadError \<notin> set (keyboard (consoleInput s))"

definition devices_ok :: "'z devices_scheme \<Rightarrow> bool" where
  "devices_ok s \<longleftrightarrow>
     hardware_ok s \<and> (\<forall>n. 0 \<le> random_numbers s n) \<and> disk_ok s \<and> keyboard_ok s \<and> network_ok s \<and>
     waiting TimerDevice s \<le> 1 \<and>
     waiting DiskDevice s = (if active (disk s) then 1 else 0) \<and>
     waiting ConsoleInputDevice s \<le> 1 \<and>
     (0 < waiting ConsoleInputDevice s \<longrightarrow> incoming (consoleInput s) = EOF_char) \<and>
     waiting ConsoleOutputDevice s = (if putBusy (consoleOutput s) then 1 else 0) \<and>
     waiting NetworkInputDevice s \<le> 1"

lemma waiting_frame [simp]:
  "waiting d (s\<lparr>stats := t\<rparr>) = waiting d s"
  "waiting d (s\<lparr>level := l\<rparr>) = waiting d s"
  "waiting d (s\<lparr>inHandler := b\<rparr>) = waiting d s"
  "waiting d (s\<lparr>yieldOnReturn := b\<rparr>) = waiting d s"
  "waiting d (s\<lparr>mstatus := st\<rparr>) = waiting d s"
  "waiting d (s\<lparr>kmachine := m\<rparr>) = waiting d s"
  "waiting d (s\<lparr>random_used := n\<rparr>) = waiting d s"
  "waiting d (s\<lparr>disk := dk\<rparr>) = waiting d s"
  "waiting d (s\<lparr>consoleInput := ci\<rparr>) = waiting d s"
  "waiting d (s\<lparr>consoleOutput := co\<rparr>) = waiting d s"
  "waiting d (s\<lparr>networkInput := ni\<rparr>) = waiting d s"
  "waiting d (s\<lparr>networkOutput := no\<rparr>) = waiting d s"
  "waiting d (s\<lparr>devices.more := z\<rparr>) = waiting d s"
  by (simp_all add: waiting_def)

lemma waiting_pop:
  "pending s = p # q \<Longrightarrow> waiting d s = waiting d (s\<lparr>pending := q\<rparr>) + (if callOnInterrupt p = d then 1 else 0)"
  by (simp add: waiting_def)

lemma waiting_Schedule:
  assumes "mset q = add_mset (new_interrupt cb n ty s0) (mset (pending s))"
  shows "waiting d (s'\<lparr>pending := q, next_address := a\<rparr>) = waiting d s + (if cb = d then 1 else 0)"
  using assms by (simp add: waiting_def new_interrupt_def)

lemma hardware_ok_pop:
  "hardware_ok s \<Longrightarrow> pending s = p # q \<Longrightarrow> hardware_ok (s\<lparr>pending := q\<rparr>)"
  by (auto simp: hardware_ok_def ordered_PendingCompare)

lemma hardware_ok_cong:
  "hardware_ok s \<Longrightarrow> pending s' = pending s \<Longrightarrow> next_address s' = next_address s \<Longrightarrow> kmachine s' = kmachine s \<Longrightarrow>
   totalTicks (stats s') = totalTicks (stats s) \<Longrightarrow> idleTicks (stats s') = idleTicks (stats s) \<Longrightarrow>
   systemTicks (stats s') = systemTicks (stats s) \<Longrightarrow> userTicks (stats s') = userTicks (stats s) \<Longrightarrow>
   hardware_ok s'"
  by (simp add: hardware_ok_def)

text \<open>
  While a handler runs, its interrupt is off the queue and its device is about to be told.
  \<open>devices_in d\<close> is the invariant of that moment for the device \<open>d\<close>.
\<close>

definition devices_in :: "device \<Rightarrow> 'z devices_scheme \<Rightarrow> bool" where
  "devices_in d s \<longleftrightarrow>
     hardware_ok s \<and> (\<forall>n. 0 \<le> random_numbers s n) \<and> disk_ok s \<and> keyboard_ok s \<and> network_ok s \<and>
     waiting TimerDevice s + (if d = TimerDevice then 1 else 0) \<le> 1 \<and>
     waiting DiskDevice s + (if d = DiskDevice then 1 else 0) = (if active (disk s) then 1 else 0) \<and>
     waiting ConsoleInputDevice s + (if d = ConsoleInputDevice then 1 else 0) \<le> 1 \<and>
     (0 < waiting ConsoleInputDevice s + (if d = ConsoleInputDevice then 1 else 0) \<longrightarrow>
        incoming (consoleInput s) = EOF_char) \<and>
     waiting ConsoleOutputDevice s + (if d = ConsoleOutputDevice then 1 else 0) =
       (if putBusy (consoleOutput s) then 1 else 0) \<and>
     waiting NetworkInputDevice s + (if d = NetworkInputDevice then 1 else 0) \<le> 1"

lemma devices_pop:
  assumes "devices_ok s" "pending s = p # q"
  shows "devices_in (callOnInterrupt p) (s\<lparr>pending := q\<rparr>)"
  using assms(1) hardware_ok_pop [OF _ assms(2)]
  by (simp add: devices_in_def devices_ok_def disk_ok_def keyboard_ok_def network_ok_def waiting_pop [OF assms(2)])

section \<open>Words and packets\<close>

lemma header_bytes_length [simp]: "length (header_bytes hdr) = sizeof_PacketHeader"
  by (simp add: header_bytes_def sizeof_PacketHeader_def)

lemma bytes_header_bytes [simp]: "bytes_header (header_bytes hdr @ bs) = hdr"
  using bytes_words_bytes [of "[pkt_to hdr, pkt_from hdr, pkt_length hdr]" bs]
  by (simp add: bytes_header_def header_bytes_def Let_def eval_nat_numeral)

lemma copy_into_ok:
  assumes "0 \<le> n" "n \<le> int (length from)" "0 \<le> i" "i + n \<le> int (length to)"
  shows "copy_into from i n to =
    Inr (take (nat i) to @ take (nat n) from @ drop (nat (i + n)) to)"
    and "length (take (nat i) to @ take (nat n) from @ drop (nat (i + n)) to) = length to"
proof -
  have "bytes_at from 0 n = Inr (take (nat n) from)"
    using assms(1,2) bytes_at_in [of n 0 "from"] by simp
  then show "copy_into from i n to =
      Inr (take (nat i) to @ take (nat n) from @ drop (nat (i + n)) to)"
    using assms(4) by (simp add: copy_into_def)
  have "length (take (nat i) to) = nat i" "length (take (nat n) from) = nat n"
    "length (drop (nat (i + n)) to) = length to - nat (i + n)"
    using assms by simp_all
  then show "length (take (nat i) to @ take (nat n) from @ drop (nat (i + n)) to) = length to"
    using assms unfolding length_append by linarith
qed

section \<open>The handlers\<close>

lemmas devices_unfold = devices_in_def devices_ok_def disk_ok_def keyboard_ok_def network_ok_def

lemma frame_hardware:
  "hardware_ok s \<Longrightarrow> hardware_ok (s\<lparr>consoleInput := ci\<rparr>)"
  "hardware_ok s \<Longrightarrow> hardware_ok (s\<lparr>consoleOutput := co\<rparr>)"
  "hardware_ok s \<Longrightarrow> hardware_ok (s\<lparr>disk := dk\<rparr>)"
  "hardware_ok s \<Longrightarrow> hardware_ok (s\<lparr>networkInput := ni\<rparr>)"
  "hardware_ok s \<Longrightarrow> hardware_ok (s\<lparr>networkOutput := no\<rparr>)"
  "hardware_ok s \<Longrightarrow> hardware_ok (s\<lparr>random_used := n\<rparr>)"
  "hardware_ok s \<Longrightarrow> hardware_ok (s\<lparr>yieldOnReturn := b\<rparr>)"
  "hardware_ok s \<Longrightarrow> hardware_ok (s\<lparr>level := l\<rparr>)"
  "hardware_ok s \<Longrightarrow> hardware_ok (s\<lparr>inHandler := b\<rparr>)"
  "hardware_ok s \<Longrightarrow> hardware_ok (s\<lparr>mstatus := st\<rparr>)"
  by (simp_all add: hardware_ok_def)

text \<open>
  The software above the devices keeps to its own part of the kernel state.  What it maintains, \<open>J\<close>,
  may depend on whether the disk and the display are busy: the object that a device calls when it
  is done finds the device idle and the rest as it was while the device was busy.
\<close>

locale device_software =
  fixes software :: "device \<Rightarrow> 'z devices_scheme \<Rightarrow> 'z devices_scheme res"
    and J :: "bool \<Rightarrow> bool \<Rightarrow> 'z \<Rightarrow> bool"
  assumes software: "d \<noteq> TimerDevice \<Longrightarrow> level s = IntOff \<Longrightarrow> inHandler s \<Longrightarrow>
    (d = DiskDevice \<Longrightarrow> \<not> active (disk s)) \<Longrightarrow> (d = ConsoleOutputDevice \<Longrightarrow> \<not> putBusy (consoleOutput s)) \<Longrightarrow>
    J (active (disk s) \<or> d = DiskDevice) (putBusy (consoleOutput s) \<or> d = ConsoleOutputDevice) (devices.more s) \<Longrightarrow>
    \<exists>z. software d s = Inr (s\<lparr>devices.more := z\<rparr>) \<and> J (active (disk s)) (putBusy (consoleOutput s)) z"
begin

definition I :: "'z devices_scheme \<Rightarrow> bool" where
  "I s \<longleftrightarrow> devices_ok s \<and> J (active (disk s)) (putBusy (consoleOutput s)) (devices.more s)"

lemma more_frame [simp]:
  "devices_ok (s\<lparr>devices.more := z\<rparr>) = devices_ok s"
  "handler_effect t (s\<lparr>devices.more := z\<rparr>) = handler_effect t s"
  by (simp_all add: devices_ok_def hardware_ok_def disk_ok_def keyboard_ok_def network_ok_def waiting_def handler_effect_def)

text \<open>A handler that only updates its device and then calls the software.\<close>

lemma finish_with_software:
  assumes "devices_ok s" "handler_effect t s" "d \<noteq> TimerDevice" "level s = IntOff" "inHandler s"
    and "d = DiskDevice \<Longrightarrow> \<not> active (disk s)" "d = ConsoleOutputDevice \<Longrightarrow> \<not> putBusy (consoleOutput s)"
    and "J (active (disk s) \<or> d = DiskDevice) (putBusy (consoleOutput s) \<or> d = ConsoleOutputDevice) (devices.more s)"
  shows "\<exists>s'. software d s = Inr s' \<and> I s' \<and> handler_effect t s'"
  using software [OF assms(3-8)] assms(1,2) by (auto simp: I_def)

lemma schedule_in:
  assumes "hardware_ok s" "0 < n" "n \<le> horizon"
    and "\<And>q. mset q = add_mset (new_interrupt cb n ty s) (mset (pending s)) \<Longrightarrow>
      hardware_ok (s\<lparr>pending := q, next_address := next_address s + 1\<rparr>) \<Longrightarrow>
      handler_effect s (s\<lparr>pending := q, next_address := next_address s + 1\<rparr>) \<Longrightarrow>
      P (s\<lparr>pending := q, next_address := next_address s + 1\<rparr>)"
  shows "\<exists>s'. Schedule cb n ty s = Inr s' \<and> P s'"
  using Schedule_effect [OF assms(1,2), of cb ty] assms(3,4) by metis

lemma Timer_handler:
  assumes "devices_in TimerDevice s" "level s = IntOff" "inHandler s" "J (active (disk s)) (putBusy (consoleOutput s)) (devices.more s)"
  shows "\<exists>s'. Timer_CallBack Alarm_CallBack s = Inr s' \<and> I s' \<and> handler_effect s s'"
proof -
  define a where "a = (if mstatus s \<noteq> IdleMode then s\<lparr>yieldOnReturn := True\<rparr> else s)"
  have run: "Timer_CallBack Alarm_CallBack s = Timer_SetInterrupt a"
    using assms(3) by (simp add: Timer_CallBack_def Alarm_CallBack_def YieldOnReturn_def a_def)
  have a: "devices_in TimerDevice a" "J (active (disk a)) (putBusy (consoleOutput a)) (devices.more a)" "handler_effect s a"
    using assms by (auto simp: a_def devices_unfold frame_hardware intro: handler_effectI)
  show ?thesis
  proof (cases "disable (timer a)")
    case True
    with a show ?thesis unfolding run by (simp add: Timer_SetInterrupt_def I_def devices_unfold)
  next
    case False
    define delay where
      "delay = (if randomize (timer a) then 1 + random_numbers a (random_used a) smod (TimerTicks * 2) else TimerTicks)"
    define b where "b = (if randomize (timer a) then a\<lparr>random_used := random_used a + 1\<rparr> else a)"
    have run': "Timer_SetInterrupt a = Schedule TimerDevice delay TimerInt b"
      using False by (simp add: Timer_SetInterrupt_def delay_def b_def RandomNumber_def Let_def)
    have "0 \<le> random_numbers a (random_used a)" using a(1) by (simp add: devices_in_def)
    moreover have "0 < 1 + random_numbers a (random_used a) mod 200" "1 + random_numbers a (random_used a) mod 200 \<le> 200"
      using pos_mod_sign [of 200 "random_numbers a (random_used a)"] pos_mod_bound [of 200 "random_numbers a (random_used a)"]
      by linarith+
    ultimately have "0 < delay" "delay \<le> horizon"
      by (simp_all add: delay_def smod_nonneg tick_constants horizon_def)
    moreover have b: "devices_in TimerDevice b" "J (active (disk b)) (putBusy (consoleOutput b)) (devices.more b)"
      using a by (auto simp: b_def devices_unfold frame_hardware)
    moreover have "handler_effect s b"
      by (rule handler_effect_trans [OF a(3)]) (simp add: b_def handler_effect_def)
    moreover have "hardware_ok b" using b(1) by (simp add: devices_in_def)
    ultimately show ?thesis unfolding run run'
      by (intro schedule_in)
        (auto simp: I_def devices_unfold waiting_Schedule intro: handler_effect_trans)
  qed
qed

lemma Disk_handler:
  assumes "devices_in DiskDevice s" "level s = IntOff" "inHandler s" "J (active (disk s)) (putBusy (consoleOutput s)) (devices.more s)"
  shows "\<exists>s'. Disk_CallBack (software DiskDevice) s = Inr s' \<and> I s' \<and> handler_effect s s'"
  unfolding Disk_CallBack_def
  by (rule finish_with_software)
    (use assms in \<open>auto simp: devices_unfold frame_hardware intro: handler_effectI split: if_splits\<close>)

lemma ConsoleOutput_handler:
  assumes "devices_in ConsoleOutputDevice s" "level s = IntOff" "inHandler s" "J (active (disk s)) (putBusy (consoleOutput s)) (devices.more s)"
  shows "\<exists>s'. ConsoleOutput_CallBack (software ConsoleOutputDevice) s = Inr s' \<and> I s' \<and> handler_effect s s'"
  unfolding ConsoleOutput_CallBack_def
  by (rule finish_with_software)
    (use assms in \<open>auto simp: devices_unfold hardware_ok_def intro: handler_effectI split: if_splits\<close>)

lemma NetworkOutput_handler:
  assumes "devices_in NetworkOutputDevice s" "level s = IntOff" "inHandler s" "J (active (disk s)) (putBusy (consoleOutput s)) (devices.more s)"
  shows "\<exists>s'. NetworkOutput_CallBack (software NetworkOutputDevice) s = Inr s' \<and> I s' \<and> handler_effect s s'"
  unfolding NetworkOutput_CallBack_def
  by (rule finish_with_software)
    (use assms in \<open>auto simp: devices_unfold hardware_ok_def intro: handler_effectI split: if_splits\<close>)

lemma ConsoleInput_handler:
  assumes "devices_in ConsoleInputDevice s" "level s = IntOff" "inHandler s" "J (active (disk s)) (putBusy (consoleOutput s)) (devices.more s)"
  shows "\<exists>s'. ConsoleInput_CallBack (software ConsoleInputDevice) s = Inr s' \<and> I s' \<and> handler_effect s s'"
proof -
  let ?es = "keyboard (consoleInput s)"
  let ?s = "s\<lparr>consoleInput := (consoleInput s)\<lparr>keyboard := tl ?es\<rparr>\<rparr>"
  have in1: "incoming (consoleInput s) = EOF_char" using assms(1) by (simp add: devices_in_def)
  have none: "waiting ConsoleInputDevice s = 0" using assms(1) by (simp add: devices_in_def)
  have "set (tl ?es) \<subseteq> set ?es" by (cases ?es) auto
  then have t: "devices_in ConsoleInputDevice ?s" "hardware_ok ?s" "handler_effect s ?s"
    using assms(1) by (auto simp: devices_unfold frame_hardware intro: handler_effectI)
  have no_error: "(case ?es of [] \<Rightarrow> NoKey | e # _ \<Rightarrow> e) \<noteq> ReadError"
    using assms(1) by (cases ?es) (auto simp: devices_unfold)
  show ?thesis
  proof (cases "case ?es of [] \<Rightarrow> NoKey | e # _ \<Rightarrow> e")
    case NoKey
    then have "ConsoleInput_CallBack (software ConsoleInputDevice) s =
        Schedule ConsoleInputDevice ConsoleTime ConsoleReadInt ?s"
      using in1 by (simp add: ConsoleInput_CallBack_def Let_def)
    moreover have "\<exists>s'. Schedule ConsoleInputDevice ConsoleTime ConsoleReadInt ?s = Inr s' \<and>
        I s' \<and> handler_effect s s'"
      using t assms(4) in1
      by (intro schedule_in)
        (auto simp: I_def devices_unfold waiting_Schedule tick_constants horizon_def intro: handler_effect_trans)
    ultimately show ?thesis by simp
  next
    case EndOfFile
    then have "ConsoleInput_CallBack (software ConsoleInputDevice) s = software ConsoleInputDevice ?s"
      using in1 by (simp add: ConsoleInput_CallBack_def Let_def)
    then show ?thesis
      using t assms by (auto intro!: finish_with_software simp: devices_unfold)
  next
    case (Key c)
    let ?u = "?s\<lparr>consoleInput := (consoleInput ?s)\<lparr>incoming := c\<rparr>,
      stats := (stats s)\<lparr>numConsoleCharsRead := s32 (numConsoleCharsRead (stats s) + 1)\<rparr>\<rparr>"
    have "ConsoleInput_CallBack (software ConsoleInputDevice) s = software ConsoleInputDevice ?u"
      using in1 Key by (simp add: ConsoleInput_CallBack_def Let_def)
    moreover have "devices_ok ?u"
      using t(1) none by (auto simp: devices_unfold hardware_ok_def)
    moreover have "handler_effect s ?u" by (auto intro: handler_effectI)
    ultimately show ?thesis
      using finish_with_software [of ?u s ConsoleInputDevice] assms(2-4) by simp
  qed (use no_error in simp)
qed

lemma NetworkInput_handler:
  assumes "devices_in NetworkInputDevice s" "level s = IntOff" "inHandler s" "J (active (disk s)) (putBusy (consoleOutput s)) (devices.more s)"
  shows "\<exists>s'. NetworkInput_CallBack (software NetworkInputDevice) s = Inr s' \<and> I s' \<and> handler_effect s s'"
proof -
  have hw: "hardware_ok s" using assms(1) by (simp add: devices_in_def)
  obtain q where q: "Schedule NetworkInputDevice NetworkTime NetworkRecvInt s =
        Inr (s\<lparr>pending := q, next_address := next_address s + 1\<rparr>)"
      "mset q = add_mset (new_interrupt NetworkInputDevice NetworkTime NetworkRecvInt s) (mset (pending s))"
      "hardware_ok (s\<lparr>pending := q, next_address := next_address s + 1\<rparr>)"
      "handler_effect s (s\<lparr>pending := q, next_address := next_address s + 1\<rparr>)"
    by (rule Schedule_effect [OF hw, of NetworkTime NetworkInputDevice NetworkRecvInt])
      (auto simp: tick_constants horizon_def)
  define t where "t = s\<lparr>pending := q, next_address := next_address s + 1\<rparr>"
  let ?n = "networkInput t"
  have t: "devices_ok t" "level t = IntOff" "inHandler t" "J (active (disk t)) (putBusy (consoleOutput t)) (devices.more t)" "handler_effect s t"
    using assms q by (auto simp: t_def devices_unfold waiting_Schedule)
  have update: "devices_ok (t\<lparr>networkInput := n\<rparr>)" if "network_ok (t\<lparr>networkInput := n\<rparr>)" for n
    using t(1) that by (simp add: devices_unfold frame_hardware)
  have run: "NetworkInput_CallBack (software NetworkInputDevice) s =
     (if pkt_length (inHdr ?n) \<noteq> 0 then Inr t
     else
       case arriving ?n of
         [] \<Rightarrow> Inr t
       | None # rest \<Rightarrow> Inr (t\<lparr>networkInput := ?n\<lparr>arriving := rest\<rparr>\<rparr>)
       | Some buffer # rest \<Rightarrow>
           let hdr = bytes_header buffer in
           bindr (ASSERT (pkt_to hdr = hostName t \<and> pkt_length hdr \<le> of_nat MaxPacketSize)) (\<lambda>_.
           bindr (copy_into (drop sizeof_PacketHeader buffer) 0 (uint (pkt_length hdr)) (inbox ?n)) (\<lambda>box.
           software NetworkInputDevice
             (t\<lparr>networkInput := ?n\<lparr>arriving := rest, inHdr := hdr, inbox := box\<rparr>,
                stats := (stats t)\<lparr>numPacketsRecvd := s32 (numPacketsRecvd (stats t) + 1)\<rparr>\<rparr>))))"
    by (simp add: NetworkInput_CallBack_def q(1) [folded t_def] Let_def)
  consider "pkt_length (inHdr ?n) \<noteq> 0 \<or> arriving ?n = []"
    | rest where "pkt_length (inHdr ?n) = 0" "arriving ?n = None # rest"
    | buffer rest where "pkt_length (inHdr ?n) = 0" "arriving ?n = Some buffer # rest"
    by (metis list.exhaust option.exhaust)
  then show ?thesis
  proof cases
    case 1
    then show ?thesis using t unfolding run by (auto simp: I_def)
  next
    case 2
    have "network_ok (t\<lparr>networkInput := ?n\<lparr>arriving := rest\<rparr>\<rparr>)"
      using t(1) 2 by (auto simp: devices_unfold)
    then have "I (t\<lparr>networkInput := ?n\<lparr>arriving := rest\<rparr>\<rparr>)" using update t(4) by (simp add: I_def)
    moreover have "handler_effect s (t\<lparr>networkInput := ?n\<lparr>arriving := rest\<rparr>\<rparr>)"
      by (rule handler_effect_trans [OF t(5)]) (auto intro: handler_effectI)
    ultimately show ?thesis using 2 unfolding run by simp
  next
    case 3
    let ?hdr = "bytes_header buffer"
    have pkt: "packet_ok (hostName t) buffer" "length (inbox ?n) = MaxPacketSize"
      using t(1) 3 by (auto simp: devices_unfold)
    have len: "uint (pkt_length ?hdr) \<le> 52"
      using pkt(1) by (simp add: packet_ok_def network_constants word_le_def)
    have lens: "length (drop sizeof_PacketHeader buffer) = 52" "length (inbox ?n) = 52"
      using pkt by (simp_all add: packet_ok_def network_constants)
    obtain box where box: "copy_into (drop sizeof_PacketHeader buffer) 0 (uint (pkt_length ?hdr)) (inbox ?n) = Inr box"
        "length box = MaxPacketSize"
      using copy_into_ok [of "uint (pkt_length ?hdr)" "drop sizeof_PacketHeader buffer" 0 "inbox ?n"]
        len lens pkt(2) by simp
    let ?u = "t\<lparr>networkInput := ?n\<lparr>arriving := rest, inHdr := ?hdr, inbox := box\<rparr>,
                stats := (stats t)\<lparr>numPacketsRecvd := s32 (numPacketsRecvd (stats t) + 1)\<rparr>\<rparr>"
    have "NetworkInput_CallBack (software NetworkInputDevice) s = software NetworkInputDevice ?u"
      using pkt(1) 3 box(1) unfolding run by (simp add: packet_ok_def Let_def)
    moreover have "devices_ok ?u"
      using t(1) 3 box(2) by (auto simp: devices_unfold hardware_ok_def)
    moreover have "handler_effect s ?u"
      by (rule handler_effect_trans [OF t(5)]) (auto intro: handler_effectI)
    ultimately show ?thesis using finish_with_software [of ?u s NetworkInputDevice] t(2-4) by simp
  qed
qed

lemmas handlers = Timer_handler Disk_handler ConsoleInput_handler ConsoleOutput_handler
  NetworkInput_handler NetworkOutput_handler

lemma device_handler:
  assumes "devices_in d s" "level s = IntOff" "inHandler s" "J (active (disk s)) (putBusy (consoleOutput s)) (devices.more s)"
  shows "\<exists>s'. device_CallBack software d s = Inr s' \<and> I s' \<and> handler_effect s s'"
  using assms by (cases d) (simp_all add: handlers)

end

sublocale device_software \<subseteq> dev: interrupt_handlers "device_CallBack software" I
proof
  fix s :: "'z devices_scheme" and p q
  show "I s \<Longrightarrow> hardware_ok s" by (simp add: I_def devices_ok_def)
  show "I (s\<lparr>level := l\<rparr>)" if "I s" for l
    using that by (simp add: I_def devices_unfold frame_hardware)
  show "I (s\<lparr>inHandler := b\<rparr>)" if "I s" for b
    using that by (simp add: I_def devices_unfold frame_hardware)
  show "I (s\<lparr>mstatus := st\<rparr>)" if "I s" for st
    using that by (simp add: I_def devices_unfold frame_hardware)
  show "I (s\<lparr>stats := t\<rparr>)" if "I s" "hardware_ok (s\<lparr>stats := t\<rparr>)" for t
    using that by (simp add: I_def devices_unfold)
  show "I (s\<lparr>kmachine := Some m'\<rparr>)" if "I s" "kmachine s = Some m" "regs_ok m'" for m m'
    using that by (simp add: I_def devices_unfold hardware_ok_def)
  show "\<exists>s'. device_CallBack software (callOnInterrupt p) (s\<lparr>pending := q\<rparr>) = Inr s' \<and> I s' \<and>
      handler_effect (s\<lparr>pending := q\<rparr>) s'"
    if "I s" "level s = IntOff" "inHandler s" "pending s = p # q" "is_due s p"
    using that devices_pop [of s p q] by (intro device_handler) (simp_all add: I_def)
qed

section \<open>The clock at its end\<close>

text \<open>
  When the timer fires within \<open>TimerTicks\<close> of the largest \<open>int\<close>, the time of its next interrupt wraps around: it is
  negative, comes first in the queue and is due at once.  \<open>CheckIfDue\<close> then serves the timer for ever.
\<close>

definition timer_overflows :: "'z devices_scheme \<Rightarrow> bool" where
  "timer_overflows s \<longleftrightarrow>
     hardware_ok s \<and> \<not> randomize (timer s) \<and> \<not> disable (timer s) \<and> 2 ^ 31 - TimerTicks \<le> now s \<and> now s < 2 ^ 31 \<and>
     (\<exists>p q. pending s = p # q \<and> callOnInterrupt p = TimerDevice \<and> pi_when p \<le> now s \<and> (\<forall>x \<in> set q. 0 \<le> pi_when x))"

lemma timer_again:
  assumes "timer_overflows s" "inHandler s"
  shows "\<exists>t. CheckIfDue_round (device_CallBack software) s = Inr t \<and> (timer_overflows t \<and> inHandler t) \<and> more_due t"
proof -
  obtain p q where s: "hardware_ok s" "\<not> randomize (timer s)" "\<not> disable (timer s)" "2 ^ 31 - TimerTicks \<le> now s"
    "now s < 2 ^ 31" "pending s = p # q" "callOnInterrupt p = TimerDevice" "\<forall>x \<in> set q. 0 \<le> pi_when x"
    using assms(1) by (auto simp: timer_overflows_def)
  define a where "a = (if mstatus s \<noteq> IdleMode then s\<lparr>pending := q, yieldOnReturn := True\<rparr> else s\<lparr>pending := q\<rparr>)"
  have a: "hardware_ok a" "pending a = q" "now a = now s" "timer a = timer s" "inHandler a"
    using hardware_ok_pop [OF s(1,6)] assms(2) by (simp_all add: a_def frame_hardware)
  have run: "CheckIfDue_round (device_CallBack software) s = Schedule TimerDevice TimerTicks TimerInt a"
    using s(2,3,6,7) assms(2)
    by (auto simp: CheckIfDue_round_def seq_remove_front_def Timer_CallBack_def Alarm_CallBack_def YieldOnReturn_def
        Timer_SetInterrupt_def a_def)
  let ?n = "new_interrupt TimerDevice TimerTicks TimerInt a"
  obtain r where r: "Schedule TimerDevice TimerTicks TimerInt a = Inr (a\<lparr>pending := r, next_address := next_address a + 1\<rparr>)"
      "mset r = add_mset ?n (mset q)" "hardware_ok (a\<lparr>pending := r, next_address := next_address a + 1\<rparr>)"
    using Schedule_pending [OF a(1), of TimerTicks TimerDevice TimerInt] a(2) by (auto simp: tick_constants)
  have "s32 (now s + TimerTicks) = now s + TimerTicks - 2 ^ 32"
    by (rule s32_over) (use s(4,5) in \<open>simp_all add: tick_constants\<close>)
  then have neg: "pi_when ?n < 0" using s(5) a(3) by (simp add: new_interrupt_def tick_constants)
  have set: "set r = insert ?n (set q)" using arg_cong [OF r(2), of set_mset] by simp
  then obtain x r' where x: "r = x # r'" by (cases r) auto
  have "sorted (map pi_when r)" using r(3) by (simp add: hardware_ok_def ordered_PendingCompare)
  then have "pi_when x \<le> pi_when ?n" using set x by auto
  then have "x = ?n" using neg s(8) set x by (metis insert_iff leD le_less_trans list.set_intros(1))
  then have "mset r' = mset q" using r(2) x by simp
  then have "set r' = set q" by (metis set_mset_mset)
  moreover have "pi_when ?n \<le> now s" using neg s(4) by (simp add: tick_constants)
  ultimately have "timer_overflows (a\<lparr>pending := r, next_address := next_address a + 1\<rparr>)"
    "more_due (a\<lparr>pending := r, next_address := next_address a + 1\<rparr>)"
    using s a r(3) x \<open>x = ?n\<close> by (auto simp: timer_overflows_def more_due_def new_interrupt_def)
  then show ?thesis using a(5) unfolding run r(1) by simp
qed

theorem clock_overflow_hangs:
  assumes "timer_overflows s" "level s = IntOff"
  shows "CheckIfDue (device_CallBack software) advanceClock s = Inl Diverges"
proof -
  have loop: "CheckIfDue_loop (device_CallBack software) (t\<lparr>inHandler := True\<rparr>) = Inl Diverges" if "timer_overflows t" for t
    by (rule CheckIfDue_loop_hangs [where P = "\<lambda>t. timer_overflows t \<and> inHandler t", OF _ timer_again])
      (use that in \<open>auto simp: timer_overflows_def frame_hardware\<close>)
  obtain p q where pq: "pending s = p # q" "pi_when p \<le> now s" and hw: "hardware_ok s"
    using assms(1) by (auto simp: timer_overflows_def)
  show ?thesis
  proof (cases "kmachine s")
    case None
    then show ?thesis using assms(2) pq loop [OF assms(1)] by (simp add: CheckIfDue_def)
  next
    case (Some m)
    then have m: "regs_ok m" using hw by (simp add: hardware_ok_def)
    then obtain m' where m': "DelayedLoad m 0 0 = Inr m'" "regs_ok m'"
      by (simp add: regs_ok_def DelayedLoad_ok reg_numbers)
    have "timer_overflows (s\<lparr>kmachine := Some m'\<rparr>)"
      using assms(1) m'(2) by (auto simp: timer_overflows_def hardware_ok_def)
    from loop [OF this] show ?thesis using assms(2) pq Some m'(1) by (simp add: CheckIfDue_def)
  qed
qed

section \<open>The timing of the disk\<close>

text \<open>
  The head is over the start of a sector every \<open>RotationTime\<close> ticks.  \<open>under_head\<close> says that the
  transfer of a sector can start at a time: the seek is over and its sector is coming by.
\<close>

definition under_head :: "int \<Rightarrow> int \<Rightarrow> bool" where
  "under_head sector time \<longleftrightarrow>
     time mod RotationTime = 0 \<and>
     time div RotationTime mod int SectorsPerTrack = sector mod int SectorsPerTrack"

lemma ModuloDiff_eq:
  assumes "0 \<le> a" "0 \<le> b"
  shows "ModuloDiff a b = (a - b) mod 32"
proof -
  have "0 \<le> a mod 32" "b mod 32 < 32" by simp_all
  then have "0 \<le> a mod 32 - b mod 32 + 32" by linarith
  then have "ModuloDiff a b = (a mod 32 - b mod 32 + 32) mod 32"
    using assms by (simp add: ModuloDiff_def disk_constants smod_nonneg Let_def)
  also have "\<dots> = (a - b) mod 32" by (simp add: mod_diff_eq)
  finally show ?thesis .
qed

lemma round_up_500:
  assumes "(t::int) \<ge> 0" "r = (if t mod 500 > 0 then 500 - t mod 500 else 0)"
  shows "(t + r) mod 500 = 0" "0 \<le> r" "r < 500" "\<And>u. t \<le> u \<Longrightarrow> u mod 500 = 0 \<Longrightarrow> t + r \<le> u"
proof -
  define k m where "k = t div 500" and "m = t mod 500"
  have t: "t = 500 * k + m" "0 \<le> m" "m < 500" by (simp_all add: k_def m_def)
  have r: "r = (if m > 0 then 500 - m else 0)" using assms(2) by (simp add: m_def)
  have sum: "t + r = 500 * (if m > 0 then k + 1 else k)" using t r by simp
  then show "(t + r) mod 500 = 0" by simp
  show "0 \<le> r" "r < 500" using t r by (simp_all split: if_splits)
  show "t + r \<le> u" if "t \<le> u" "u mod 500 = 0" for u
  proof -
    define j where "j = u div 500"
    have u: "u = 500 * j" using that(2) mult_div_mod_eq [of 500 u] by (simp add: j_def)
    show ?thesis
    proof (cases "m > 0")
      case True
      then have "k < j" using that(1) t u by linarith
      with True show ?thesis using sum u by simp
    next
      case False
      then show ?thesis using that(1) t sum u by simp
    qed
  qed
qed

definition seek_time :: "int \<Rightarrow> 'z devices_scheme \<Rightarrow> int" where
  "seek_time sector s =
     \<bar>sector div int SectorsPerTrack - lastSector (disk s) div int SectorsPerTrack\<bar> * SeekTime"

lemma seek_time_bounds:
  assumes "disk_ok s" "0 \<le> n" "n < int NumSectors"
  shows "0 \<le> seek_time n s" "seek_time n s \<le> 31 * SeekTime"
proof -
  have l: "0 \<le> lastSector (disk s)" "lastSector (disk s) < 1024"
    using assms(1) by (simp_all add: disk_ok_def disk_constants)
  have "0 \<le> n div 32" "n div 32 < 32" "0 \<le> lastSector (disk s) div 32" "lastSector (disk s) div 32 < 32"
    using l assms(2,3) by (simp_all add: disk_constants)
  then have "\<bar>n div 32 - lastSector (disk s) div 32\<bar> \<le> 31" by linarith
  then show "0 \<le> seek_time n s" "seek_time n s \<le> 31 * SeekTime"
    by (simp_all add: seek_time_def tick_constants disk_constants)
qed

lemma smod_bounds:
  assumes "0 < (m::int)"
  shows "i smod m < m" "- m < i smod m"
proof -
  have "\<bar>i\<bar> mod m < m" "0 \<le> \<bar>i\<bar> mod m" using assms by simp_all
  then show "i smod m < m" "- m < i smod m"
    using assms by (auto simp: signed_modulo_int_def signed_divide_int_def sgn_if abs_if minus_div_mult_eq_mod [symmetric]
      split: if_splits)
qed

definition rotation_time :: "int \<Rightarrow> 'z devices_scheme \<Rightarrow> int" where
  "rotation_time sector s = (let over = s32 (now s + seek_time sector s) smod 500 in if over > 0 then 500 - over else 0)"

lemma rotation_time_bounds: "0 \<le> rotation_time n s" "rotation_time n s \<le> 500"
  using smod_bounds [of 500 "s32 (now s + seek_time n s)"] by (simp_all add: rotation_time_def Let_def)

lemma TimeToSeek_eq:
  assumes "disk_ok s" "0 \<le> n" "n < int NumSectors"
  shows "TimeToSeek n s = (seek_time n s, rotation_time n s)"
  using assms
  by (simp add: TimeToSeek_def seek_time_def rotation_time_def disk_constants disk_ok_def sdiv_nonneg
      tick_constants Let_def)

text \<open>Whatever the clock says, a request takes at least one \<open>RotationTime\<close>, and ends within the horizon.\<close>

lemma ModuloDiff_bounds:
  assumes "0 \<le> a"
  shows "0 \<le> ModuloDiff a b" "ModuloDiff a b \<le> 31"
proof -
  have "0 \<le> a smod 32 - b smod 32 + 32"
    using assms smod_bounds [of 32 b] smod_nonneg [of a 32] pos_mod_sign [of 32 a] by linarith
  then have "ModuloDiff a b = (a smod 32 - b smod 32 + 32) mod 32"
    by (simp add: ModuloDiff_def disk_constants smod_nonneg Let_def)
  then show "0 \<le> ModuloDiff a b" "ModuloDiff a b \<le> 31"
    using pos_mod_bound [of 32 "a smod 32 - b smod 32 + 32"] by simp_all
qed

lemma read_latency:
  assumes "disk_ok s" "0 \<le> n" "n < int NumSectors"
  shows "ComputeLatency n False s = ComputeLatency n True s \<or>
    (ComputeLatency n False s = RotationTime \<and> seek_time n s = 0)"
  by (simp add: ComputeLatency_def TimeToSeek_eq [OF assms] Let_def)

lemma latency_cases:
  assumes "disk_ok s" "0 \<le> n" "n < int NumSectors"
  shows "RotationTime \<le> ComputeLatency n writing s"
    "ComputeLatency n writing s \<le> 31 * SeekTime + 32 * RotationTime + RotationTime"
proof -
  have "ComputeLatency n True s = seek_time n s + (rotation_time n s +
      ModuloDiff n (s32 (now s + seek_time n s + rotation_time n s) sdiv 500) * 500) + 500"
    by (simp add: ComputeLatency_def TimeToSeek_eq [OF assms] tick_constants Let_def)
  then have w: "RotationTime \<le> ComputeLatency n True s"
    "ComputeLatency n True s \<le> 31 * SeekTime + 32 * RotationTime + RotationTime"
    using seek_time_bounds [OF assms] rotation_time_bounds [of n s]
      ModuloDiff_bounds [OF assms(2), of "s32 (now s + seek_time n s + rotation_time n s) sdiv 500"]
    by (simp_all add: tick_constants)
  then show "RotationTime \<le> ComputeLatency n writing s"
    "ComputeLatency n writing s \<le> 31 * SeekTime + 32 * RotationTime + RotationTime"
    using read_latency [OF assms] by (cases writing; auto simp: tick_constants)+
qed

lemma latency_horizon:
  assumes "disk_ok s" "0 \<le> n" "n < int NumSectors"
  shows "0 < ComputeLatency n writing s" "ComputeLatency n writing s \<le> horizon"
  using latency_cases [OF assms, of writing] by (simp_all add: tick_constants horizon_def)

text \<open>As long as the clock does not wrap, the latency is that of the geometry of the disk.\<close>

lemma write_latency:
  assumes "disk_ok s" "0 \<le> now s" "now s + horizon < 2 ^ 31" "0 \<le> n" "n < int NumSectors"
  defines "t \<equiv> now s + ComputeLatency n True s - RotationTime"
  shows "under_head n t" "now s + seek_time n s \<le> t"
    "now s + seek_time n s \<le> u \<Longrightarrow> under_head n u \<Longrightarrow> t \<le> u"
proof -
  define b where "b = now s + seek_time n s"
  define r where "r = (if b mod 500 > 0 then 500 - b mod 500 else 0)"
  note seek = seek_time_bounds [OF assms(1,4,5)]
  have b: "0 \<le> b" "b + 500 < 2 ^ 31" using seek assms(2,3) by (simp_all add: b_def tick_constants horizon_def)
  have s32: "s32 b = b" by (rule s32_id) (use b in simp_all)
  then have rot: "rotation_time n s = r"
    using b by (simp add: rotation_time_def r_def smod_nonneg flip: b_def)
  note up = round_up_500 [OF b(1) r_def]
  define q where "q = (b + r) div 500"
  have T: "b + r = 500 * q" using up(1) mult_div_mod_eq [of 500 "b + r"] by (simp add: q_def)
  have q: "0 \<le> q" using b(1) up(2) by (simp add: q_def)
  have s32': "s32 (b + r) = b + r" by (rule s32_id) (use b up(2,3) in simp_all)
  define w where "w = (n - q) mod 32"
  have w: "0 \<le> w" "w < 32" by (simp_all add: w_def)
  have "ComputeLatency n True s = seek_time n s + (r + ModuloDiff n ((b + r) sdiv 500) * 500) + 500"
    by (simp add: ComputeLatency_def TimeToSeek_eq [OF assms(1,4,5)] rot s32' tick_constants Let_def flip: b_def)
  also have "ModuloDiff n ((b + r) sdiv 500) = w"
    using assms(4) q b(1) up(2) by (simp add: ModuloDiff_eq sdiv_nonneg q_def w_def)
  finally have lat: "ComputeLatency n True s = seek_time n s + (r + w * 500) + 500" .
  then have t: "t = 500 * (q + w)" using T by (simp add: t_def b_def tick_constants)
  have "(q + w) mod 32 = n mod 32" by (simp add: w_def mod_simps)
  then show "under_head n t" by (simp add: under_head_def t tick_constants disk_constants)
  show "now s + seek_time n s \<le> t" using T t w up(2) by (simp add: b_def)
  show "t \<le> u" if "now s + seek_time n s \<le> u" "under_head n u" for u
  proof -
    have u: "u mod 500 = 0" "u div 500 mod 32 = n mod 32"
      using that(2) by (simp_all add: under_head_def tick_constants disk_constants)
    define j where "j = u div 500"
    have j: "u = 500 * j" using u(1) mult_div_mod_eq [of 500 u] by (simp add: j_def)
    have "b + r \<le> u" using up(4) that(1) u(1) by (simp add: b_def)
    then have "q \<le> j" using T j by simp
    moreover have "(j - q) mod 32 = w" unfolding w_def by (rule mod_diff_cong) (use u(2) in \<open>simp_all add: j_def\<close>)
    ultimately have "w \<le> j - q"
      by (metis diff_ge_0_iff_ge zmod_le_nonneg_dividend)
    then show ?thesis by (simp add: t j)
  qed
qed

text \<open>
  The latency that \<open>Disk::ComputeLatency\<close> charges for a request is exact.  For a write it is the
  time (as long as the clock does not wrap) until the requested sector is under the head for the first time after the seek, plus the
  transfer of one sector; for a read it is the same, unless the track is the current one and the
  track buffer already holds the sector, when only the transfer is charged.
\<close>

theorem Disk_latency_exact:
  assumes "disk_ok s" "0 \<le> now s" "now s + horizon < 2 ^ 31" "0 \<le> n" "n < int NumSectors"
  shows "(let start = now s + ComputeLatency n writing s - RotationTime in
      (\<not> writing \<and> seek_time n s = 0 \<and> start = now s) \<or>
      (under_head n start \<and> now s + seek_time n s \<le> start \<and>
       (\<forall>u. now s + seek_time n s \<le> u \<and> under_head n u \<longrightarrow> start \<le> u))) \<and>
    RotationTime \<le> ComputeLatency n writing s \<and>
    ComputeLatency n writing s \<le> 31 * SeekTime + 32 * RotationTime + RotationTime"
proof (cases "writing \<or> ComputeLatency n False s = ComputeLatency n True s")
  case True
  then have eq: "ComputeLatency n writing s = ComputeLatency n True s" by (cases writing) auto
  then show ?thesis using write_latency [OF assms] latency_cases [OF assms(1,4,5), of True] unfolding eq Let_def by blast
next
  case False
  with read_latency [OF assms(1,4,5)] show ?thesis by (simp add: tick_constants Let_def)
qed

section \<open>Requests from the kernel\<close>

lemma UpdateLast_shape:
  assumes "disk_ok s" "0 \<le> n" "n < int NumSectors"
  obtains b where "UpdateLast n s = s\<lparr>disk := (disk s)\<lparr>lastSector := n, bufferInit := b\<rparr>\<rparr>"
proof (cases "seek_time n s = 0")
  case True
  then have "UpdateLast n s = s\<lparr>disk := (disk s)\<lparr>lastSector := n, bufferInit := bufferInit (disk s)\<rparr>\<rparr>"
    by (simp add: UpdateLast_def TimeToSeek_eq [OF assms] Let_def)
  then show ?thesis by (rule that)
next
  case False
  then have "UpdateLast n s = s\<lparr>disk := (disk s)\<lparr>lastSector := n,
      bufferInit := s32 (now s + seek_time n s + rotation_time n s)\<rparr>\<rparr>"
    by (simp add: UpdateLast_def TimeToSeek_eq [OF assms] Let_def)
  then show ?thesis by (rule that)
qed

lemma disk_request:
  assumes "devices_ok s" "\<not> active (disk s)" "n > 0"
    and "disk_ok (s\<lparr>disk := d, stats := t\<rparr>)" "active d" "hardware_ok (s\<lparr>disk := d, stats := t\<rparr>)"
    and "totalTicks t = now s"
  shows "\<exists>s'. Schedule DiskDevice n DiskInt (s\<lparr>disk := d, stats := t\<rparr>) = Inr s' \<and> devices_ok s' \<and>
    disk s' = d \<and> now s' = now s \<and> devices.more s' = devices.more s"
proof -
  let ?s = "s\<lparr>disk := d, stats := t\<rparr>"
  obtain q where q: "Schedule DiskDevice n DiskInt ?s = Inr (?s\<lparr>pending := q, next_address := next_address ?s + 1\<rparr>)"
      "mset q = add_mset (new_interrupt DiskDevice n DiskInt ?s) (mset (pending s))"
      "hardware_ok (?s\<lparr>pending := q, next_address := next_address ?s + 1\<rparr>)"
    using Schedule_effect [OF assms(6,3), of DiskDevice DiskInt] by auto
  have "devices_ok (?s\<lparr>pending := q, next_address := next_address ?s + 1\<rparr>)"
    using assms(1,2,4,5,7) q by (auto simp: devices_ok_def disk_ok_def keyboard_ok_def network_ok_def waiting_Schedule)
  with q(1) assms(7) show ?thesis by simp
qed

text \<open>A request succeeds on an idle disk, keeps the invariant and leaves the disk busy.\<close>

lemma Disk_ReadRequest_ok:
  assumes "devices_ok s" "\<not> active (disk s)" "0 \<le> n" "n < int NumSectors"
  shows "\<exists>s'. Disk_ReadRequest n s = Inr (sectors (disk s) (nat n), s') \<and> devices_ok s' \<and>
    active (disk s') \<and> sectors (disk s') = sectors (disk s) \<and> devices.more s' = devices.more s"
proof -
  have ok: "disk_ok s" "hardware_ok s" using assms(1) by (simp_all add: devices_ok_def)
  let ?a = "s\<lparr>disk := (disk s)\<lparr>active := True\<rparr>\<rparr>"
  have "disk_ok ?a" using ok by (simp_all add: disk_ok_def)
  then obtain b where b: "UpdateLast n ?a = ?a\<lparr>disk := (disk ?a)\<lparr>lastSector := n, bufferInit := b\<rparr>\<rparr>"
    using assms(3,4) by (rule UpdateLast_shape)
  let ?d = "(disk s)\<lparr>active := True, lastSector := n, bufferInit := b\<rparr>"
  let ?t = "(stats s)\<lparr>numDiskReads := s32 (numDiskReads (stats s) + 1)\<rparr>"
  have "disk_ok (s\<lparr>disk := ?d, stats := ?t\<rparr>)" "hardware_ok (s\<lparr>disk := ?d, stats := ?t\<rparr>)"
    using ok assms(3,4) by (simp_all add: disk_ok_def hardware_ok_def)
  moreover have "0 < ComputeLatency n False s"
    by (rule latency_horizon(1) [OF ok(1) assms(3,4)])
  ultimately show ?thesis
    using disk_request [OF assms(1,2), where n = "ComputeLatency n False s" and d = ?d and t = ?t] assms(2-4)
    by (force simp: Disk_ReadRequest_def b Let_def)
qed

lemma Disk_WriteRequest_ok:
  assumes "devices_ok s" "\<not> active (disk s)" "0 \<le> n" "n < int NumSectors" "length data = SectorSize"
  shows "\<exists>s'. Disk_WriteRequest n data s = Inr s' \<and> devices_ok s' \<and>
    active (disk s') \<and> sectors (disk s') = (sectors (disk s))(nat n := data) \<and>
    devices.more s' = devices.more s"
proof -
  have ok: "disk_ok s" "hardware_ok s" using assms(1) by (simp_all add: devices_ok_def)
  let ?a = "s\<lparr>disk := (disk s)\<lparr>sectors := (sectors (disk s))(nat n := data), active := True\<rparr>\<rparr>"
  have "disk_ok ?a" using ok assms(5) by (simp_all add: disk_ok_def)
  then obtain b where b: "UpdateLast n ?a = ?a\<lparr>disk := (disk ?a)\<lparr>lastSector := n, bufferInit := b\<rparr>\<rparr>"
    using assms(3,4) by (rule UpdateLast_shape)
  let ?d = "(disk s)\<lparr>sectors := (sectors (disk s))(nat n := data), active := True, lastSector := n, bufferInit := b\<rparr>"
  let ?t = "(stats s)\<lparr>numDiskWrites := s32 (numDiskWrites (stats s) + 1)\<rparr>"
  have "disk_ok (s\<lparr>disk := ?d, stats := ?t\<rparr>)" "hardware_ok (s\<lparr>disk := ?d, stats := ?t\<rparr>)"
    using ok assms(3-5) by (simp_all add: disk_ok_def hardware_ok_def)
  moreover have "0 < ComputeLatency n True s"
    by (rule latency_horizon(1) [OF ok(1) assms(3,4)])
  moreover have "bytes_at data 0 (int SectorSize) = Inr data"
    using assms(5) by (simp add: bytes_at_in)
  ultimately show ?thesis
    using disk_request [OF assms(1,2), where n = "ComputeLatency n True s" and d = ?d and t = ?t] assms(2-4)
    by (force simp: Disk_WriteRequest_def b Let_def)
qed

lemma schedule_device:
  assumes "devices_ok s" "n > 0"
    and "\<And>q. hardware_ok (s\<lparr>pending := q, next_address := next_address s + 1\<rparr>) \<Longrightarrow>
      (\<And>d'. waiting d' (s\<lparr>pending := q, next_address := next_address s + 1\<rparr>) =
        waiting d' s + (if d = d' then 1 else 0)) \<Longrightarrow>
      set q = insert (new_interrupt d n ty s) (set (pending s)) \<Longrightarrow>
      P (s\<lparr>pending := q, next_address := next_address s + 1\<rparr>)"
  shows "\<exists>s'. Schedule d n ty s = Inr s' \<and> P s'"
proof -
  have hw: "hardware_ok s" using assms(1) by (simp add: devices_ok_def)
  obtain q where q: "Schedule d n ty s = Inr (s\<lparr>pending := q, next_address := next_address s + 1\<rparr>)"
    "mset q = add_mset (new_interrupt d n ty s) (mset (pending s))"
    "hardware_ok (s\<lparr>pending := q, next_address := next_address s + 1\<rparr>)"
    using Schedule_effect [OF hw assms(2), of d ty] by auto
  have "set q = insert (new_interrupt d n ty s) (set (pending s))" using arg_cong [OF q(2), of set_mset] by simp
  with q show ?thesis using assms(3) by (auto simp: waiting_Schedule)
qed

lemma ConsoleOutput_PutChar_ok:
  assumes "devices_ok s" "\<not> putBusy (consoleOutput s)"
  shows "\<exists>s'. ConsoleOutput_PutChar ch s = Inr s' \<and> devices_ok s' \<and> putBusy (consoleOutput s') \<and>
    display (consoleOutput s') = display (consoleOutput s) @ [ch] \<and> devices.more s' = devices.more s"
proof -
  let ?s = "s\<lparr>consoleOutput := (consoleOutput s)\<lparr>display := display (consoleOutput s) @ [ch], putBusy := True\<rparr>\<rparr>"
  have hw: "hardware_ok ?s" using assms(1) by (simp add: devices_ok_def frame_hardware)
  obtain q where q: "Schedule ConsoleOutputDevice ConsoleTime ConsoleWriteInt ?s =
        Inr (?s\<lparr>pending := q, next_address := next_address ?s + 1\<rparr>)"
      "mset q = add_mset (new_interrupt ConsoleOutputDevice ConsoleTime ConsoleWriteInt ?s) (mset (pending s))"
      "hardware_ok (?s\<lparr>pending := q, next_address := next_address ?s + 1\<rparr>)"
    using Schedule_effect [OF hw, of ConsoleTime ConsoleOutputDevice ConsoleWriteInt]
    by (auto simp: tick_constants)
  have "devices_ok (?s\<lparr>pending := q, next_address := next_address ?s + 1\<rparr>)"
    using assms q by (auto simp: devices_ok_def disk_ok_def keyboard_ok_def network_ok_def waiting_Schedule)
  then show ?thesis using q(1) assms(2) by (simp add: ConsoleOutput_PutChar_def Let_def)
qed

lemma ConsoleInput_GetChar_ok:
  assumes "devices_ok s" "incoming (consoleInput s) \<noteq> EOF_char \<longrightarrow> waiting ConsoleInputDevice s = 0"
  shows "\<exists>s'. ConsoleInput_GetChar s = Inr (incoming (consoleInput s), s') \<and> devices_ok s' \<and>
    incoming (consoleInput s') = EOF_char \<and> devices.more s' = devices.more s \<and>
    waiting ConsoleInputDevice s' =
      (if incoming (consoleInput s) = EOF_char then waiting ConsoleInputDevice s else 1)"
proof (cases "incoming (consoleInput s) = EOF_char")
  case True
  then have "ConsoleInput_GetChar s = Inr (incoming (consoleInput s), s)"
    by (simp add: ConsoleInput_GetChar_def Let_def)
  with True assms show ?thesis by auto
next
  case False
  have "\<exists>s'. Schedule ConsoleInputDevice ConsoleTime ConsoleReadInt s = Inr s' \<and>
     (devices_ok (s'\<lparr>consoleInput := (consoleInput s')\<lparr>incoming := EOF_char\<rparr>\<rparr>) \<and>
      devices.more s' = devices.more s \<and> waiting ConsoleInputDevice s' = 1)"
    using assms False
    by (intro schedule_device [OF assms(1)])
      (auto simp: devices_ok_def disk_ok_def keyboard_ok_def network_ok_def tick_constants frame_hardware)
  then obtain t where "Schedule ConsoleInputDevice ConsoleTime ConsoleReadInt s = Inr t"
    "devices_ok (t\<lparr>consoleInput := (consoleInput t)\<lparr>incoming := EOF_char\<rparr>\<rparr>)"
    "devices.more t = devices.more s" "waiting ConsoleInputDevice t = 1" by blast
  with False show ?thesis by (simp add: ConsoleInput_GetChar_def Let_def)
qed

text \<open>
  A device serves one request at a time: while a disk transfer or a character is in progress,
  another request fails its assertion and changes nothing, and when the device is idle a valid
  request succeeds, keeps the invariant of the devices and makes the device busy.
\<close>

theorem one_request_at_a_time:
  assumes "devices_ok s" "0 \<le> n" "n < int NumSectors" "length data = SectorSize"
  shows "(if active (disk s)
     then Disk_ReadRequest n s = Inl AssertionFailed \<and> Disk_WriteRequest n data s = Inl AssertionFailed
     else (\<exists>s'. Disk_ReadRequest n s = Inr (sectors (disk s) (nat n), s') \<and> devices_ok s' \<and> active (disk s')) \<and>
          (\<exists>s'. Disk_WriteRequest n data s = Inr s' \<and> devices_ok s' \<and> active (disk s') \<and>
             sectors (disk s') = (sectors (disk s))(nat n := data))) \<and>
    (if putBusy (consoleOutput s)
     then ConsoleOutput_PutChar ch s = Inl AssertionFailed
     else \<exists>s'. ConsoleOutput_PutChar ch s = Inr s' \<and> devices_ok s' \<and> putBusy (consoleOutput s') \<and>
          display (consoleOutput s') = display (consoleOutput s) @ [ch])"
proof -
  have "active (disk s) \<Longrightarrow> Disk_ReadRequest n s = Inl AssertionFailed \<and> Disk_WriteRequest n data s = Inl AssertionFailed"
    and "putBusy (consoleOutput s) \<Longrightarrow> ConsoleOutput_PutChar ch s = Inl AssertionFailed"
    by (simp_all add: Disk_ReadRequest_def Disk_WriteRequest_def ConsoleOutput_PutChar_def)
  then show ?thesis
    using Disk_ReadRequest_ok [OF assms(1) _ assms(2,3)] Disk_WriteRequest_ok [OF assms(1) _ assms(2-4)]
      ConsoleOutput_PutChar_ok [OF assms(1), of ch]
    by (cases "active (disk s)"; cases "putBusy (consoleOutput s)") auto
qed

text \<open>
  A key press reaches the kernel: the interrupt handler reads it and \<open>GetChar\<close> returns it and
  asks for the next poll of the keyboard.  The byte \<open>0xFF\<close> is the exception: it is taken for
  \<open>EOF\<close>, no further poll is scheduled, and the keyboard is never read again.
\<close>

theorem ConsoleInput_reads_key:
  assumes "devices_ok s" "pending s = p # q" "callOnInterrupt p = ConsoleInputDevice"
    and "keyboard (consoleInput s) = Key c # keys"
  shows "\<exists>t u. ConsoleInput_CallBack Inr (s\<lparr>pending := q\<rparr>) = Inr t \<and>
    ConsoleInput_GetChar t = Inr (c, u) \<and> devices_ok u \<and> keyboard (consoleInput t) = keys \<and>
    waiting ConsoleInputDevice u = (if c = 0xFF then 0 else 1)"
proof -
  let ?s = "s\<lparr>pending := q\<rparr>"
  have pre: "devices_in ConsoleInputDevice ?s" using devices_pop [OF assms(1,2)] assms(3) by simp
  define t where "t = ?s\<lparr>consoleInput := (consoleInput s)\<lparr>keyboard := keys, incoming := c\<rparr>,
      stats := (stats s)\<lparr>numConsoleCharsRead := s32 (numConsoleCharsRead (stats s) + 1)\<rparr>\<rparr>"
  have run: "ConsoleInput_CallBack Inr ?s = Inr t"
    using pre assms(4) by (simp add: ConsoleInput_CallBack_def devices_in_def t_def Let_def)
  have none: "waiting ConsoleInputDevice t = 0" using pre by (simp add: devices_in_def t_def)
  have "devices_ok t"
    using pre none assms(4)
    by (auto simp: devices_in_def devices_ok_def disk_ok_def keyboard_ok_def network_ok_def hardware_ok_def t_def)
  from ConsoleInput_GetChar_ok [OF this] none obtain u where
    "ConsoleInput_GetChar t = Inr (c, u)" "devices_ok u"
    "waiting ConsoleInputDevice u = (if c = EOF_char then 0 else 1)"
    by (auto simp: t_def)
  moreover have "keyboard (consoleInput t) = keys" by (simp add: t_def)
  ultimately show ?thesis using run by (auto simp: EOF_char_def)
qed

lemma copy_front:
  "m \<le> length from \<Longrightarrow> m \<le> length to \<Longrightarrow> copy_into from 0 (int m) to = Inr (take m from @ drop m to)"
  using copy_into_ok(1) [of "int m" "from" 0 to] by simp

lemma packet_built:
  assumes "pkt_length hdr \<le> 52" "unat (pkt_length hdr) \<le> length data" "length garbage = MaxWireSize"
  defines "n \<equiv> unat (pkt_length hdr)"
  defines "buffer \<equiv> header_bytes hdr @ take n data @ drop (12 + n) garbage"
  shows "bindr (copy_into (header_bytes hdr) 0 (int sizeof_PacketHeader) garbage)
      (copy_into data (int sizeof_PacketHeader) (uint (pkt_length hdr))) = Inr buffer"
    and "length buffer = MaxWireSize" "bytes_header buffer = hdr" "drop 12 buffer = take n data @ drop (12 + n) garbage"
proof -
  have n: "n \<le> 52" "uint (pkt_length hdr) = int n"
    using assms(1) by (simp_all add: n_def word_le_nat_alt)
  have g: "length garbage = 64" using assms(3) by (simp add: network_constants)
  have "copy_into (header_bytes hdr) 0 (int sizeof_PacketHeader) garbage =
      Inr (header_bytes hdr @ drop 12 garbage)"
    using copy_into_ok(1) [of 12 "header_bytes hdr" 0 garbage] g by (simp add: network_constants)
  moreover have "copy_into data 12 (int m) (header_bytes hdr @ drop 12 garbage) =
      Inr (header_bytes hdr @ take m data @ drop (12 + m) garbage)" if "m \<le> 52" "m \<le> length data" for m
    using copy_into_ok(1) [of "int m" data 12 "header_bytes hdr @ drop 12 garbage"] g that
    by (simp add: network_constants nat_add_distrib add.commute)
  then have "copy_into data 12 (int n) (header_bytes hdr @ drop 12 garbage) = Inr buffer"
    using n(1) assms(2) unfolding buffer_def n_def by blast
  ultimately show "bindr (copy_into (header_bytes hdr) 0 (int sizeof_PacketHeader) garbage)
      (copy_into data (int sizeof_PacketHeader) (uint (pkt_length hdr))) = Inr buffer"
    unfolding n(2) by (simp add: network_constants)
  show "length buffer = MaxWireSize"
    using g n(1) assms(2) by (simp add: buffer_def n_def network_constants)
  show "bytes_header buffer = hdr" "drop 12 buffer = take n data @ drop (12 + n) garbage"
    by (simp_all add: buffer_def network_constants)
qed

lemma packet_sent:
  assumes "devices_ok s" "pkt_from hdr = hostName s" "0 < pkt_length hdr" "pkt_length hdr \<le> 52"
    and "unat (pkt_length hdr) \<le> length data" "length garbage = MaxWireSize" "sendBusy (networkOutput s) = False"
    and "of_int (random_numbers s (random_used s) smod 100) < chanceToWork (networkOutput s) * 100"
  defines "buffer \<equiv> header_bytes hdr @ take (unat (pkt_length hdr)) data @ drop (12 + unat (pkt_length hdr)) garbage"
  shows "\<exists>s'. NetworkOutput_Send garbage hdr data s = Inr s' \<and>
      wire (networkOutput s') = wire (networkOutput s) @ [(pkt_to hdr, buffer)]"
    and "packet_ok (pkt_to hdr) buffer"
proof -
  note built = packet_built [OF assms(4-6), folded buffer_def]
  show "packet_ok (pkt_to hdr) buffer"
    using built assms(4) by (simp add: packet_ok_def network_constants)
  have "hardware_ok s" using assms(1) by (simp add: devices_ok_def)
  then obtain q where q: "Schedule NetworkOutputDevice NetworkTime NetworkSendInt s =
      Inr (s\<lparr>pending := q, next_address := next_address s + 1\<rparr>)"
    by (rule Schedule_effect [of s NetworkTime NetworkOutputDevice NetworkSendInt]) (simp_all add: tick_constants)
  show "\<exists>s'. NetworkOutput_Send garbage hdr data s = Inr s' \<and>
      wire (networkOutput s') = wire (networkOutput s) @ [(pkt_to hdr, buffer)]"
    using assms(2-4,7,8) built(1) q
    by (auto simp: NetworkOutput_Send_def RandomNumber_def network_constants Let_def bindr_Inr_iff)
qed

lemma packet_arrives:
  assumes "devices_ok r" "hostName r = pkt_to hdr" "pkt_length (inHdr (networkInput r)) = 0"
    and "pkt_length hdr \<le> 52" "unat (pkt_length hdr) \<le> length data" "length garbage = MaxWireSize"
  defines "buffer \<equiv> header_bytes hdr @ take (unat (pkt_length hdr)) data @ drop (12 + unat (pkt_length hdr)) garbage"
  defines "new \<equiv> take (unat (pkt_length hdr)) data @ drop (unat (pkt_length hdr)) (inbox (networkInput r))"
  shows "\<exists>q. NetworkInput_CallBack software (r\<lparr>networkInput := (networkInput r)\<lparr>arriving := Some buffer # rest\<rparr>\<rparr>) =
      software (r\<lparr>pending := q, next_address := next_address r + 1,
        networkInput := (networkInput r)\<lparr>arriving := rest, inHdr := hdr, inbox := new\<rparr>,
        stats := (stats r)\<lparr>numPacketsRecvd := s32 (numPacketsRecvd (stats r) + 1)\<rparr>\<rparr>)"
    and "length new = 52"
proof -
  let ?n = "unat (pkt_length hdr)" and ?r = "r\<lparr>networkInput := (networkInput r)\<lparr>arriving := Some buffer # rest\<rparr>\<rparr>"
  note built = packet_built [OF assms(4-6), folded buffer_def]
  have n: "?n \<le> 52" "uint (pkt_length hdr) = int ?n" using assms(4) by (simp_all add: word_le_nat_alt)
  have "hardware_ok ?r" using assms(1) by (simp add: devices_ok_def frame_hardware)
  then obtain q where q: "Schedule NetworkInputDevice NetworkTime NetworkRecvInt ?r =
      Inr (?r\<lparr>pending := q, next_address := next_address ?r + 1\<rparr>)"
    by (rule Schedule_effect [of ?r NetworkTime NetworkInputDevice NetworkRecvInt]) (simp_all add: tick_constants)
  have box: "length (inbox (networkInput r)) = 52"
    using assms(1) by (simp_all add: devices_ok_def network_ok_def network_constants)
  have drop12: "take ?n (drop 12 buffer) = take ?n data" "?n \<le> length (drop 12 buffer)"
    using built(4) assms(5) n(1) by (simp_all add: min_def)
  have "copy_into (drop sizeof_PacketHeader buffer) 0 (int ?n) (inbox (networkInput r)) = Inr new"
    using copy_front [OF drop12(2), of "inbox (networkInput r)"] drop12 box n(1)
    by (simp only: new_def network_constants)
  then have c: "copy_into (drop sizeof_PacketHeader buffer) 0 (uint (pkt_length hdr)) (inbox (networkInput r)) = Inr new"
    unfolding n(2) .
  have "word_of_nat MaxPacketSize = (52 :: u32)" by (simp add: network_constants)
  then have "NetworkInput_CallBack software ?r =
      software (r\<lparr>pending := q, next_address := next_address r + 1,
        networkInput := (networkInput r)\<lparr>arriving := rest, inHdr := hdr, inbox := new\<rparr>,
        stats := (stats r)\<lparr>numPacketsRecvd := s32 (numPacketsRecvd (stats r) + 1)\<rparr>\<rparr>)"
    unfolding NetworkInput_CallBack_def q using assms(2-4) c by (simp add: built(3) Let_def)
  then show "\<exists>q. NetworkInput_CallBack software ?r =
      software (r\<lparr>pending := q, next_address := next_address r + 1,
        networkInput := (networkInput r)\<lparr>arriving := rest, inHdr := hdr, inbox := new\<rparr>,
        stats := (stats r)\<lparr>numPacketsRecvd := s32 (numPacketsRecvd (stats r) + 1)\<rparr>\<rparr>)" ..
  show "length new = 52" using box n(1) assms(5) by (simp add: new_def)
qed

lemma packet_taken:
  assumes "pkt_length (inHdr (networkInput r)) = len" "0 < len" "len \<le> 52" "length (inbox (networkInput r)) = 52" "length room = 52"
  shows "NetworkInput_Receive room r = Inr (inHdr (networkInput r),
    take (unat len) (inbox (networkInput r)) @ drop (unat len) room,
    r\<lparr>networkInput := (networkInput r)\<lparr>inHdr := (inHdr (networkInput r))\<lparr>pkt_length := 0\<rparr>\<rparr>\<rparr>)"
proof -
  have n: "unat len \<le> 52" "uint len = int (unat len)" using assms(3) by (simp_all add: word_le_nat_alt)
  have "copy_into (inbox (networkInput r)) 0 (int (unat len)) room = Inr (take (unat len) (inbox (networkInput r)) @ drop (unat len) room)"
    using copy_front [of "unat len" "inbox (networkInput r)" room] assms(4,5) n(1) by simp
  then show ?thesis using assms(1,2) unfolding NetworkInput_Receive_def
    by (simp add: n(2) [symmetric] word_neq_0_conv Let_def)
qed

text \<open>
  A packet that the network does not lose arrives as it was sent: what \<open>NetworkOutput::Send\<close>
  puts on the wire, the receiving host's interrupt handler accepts, and \<open>NetworkInput::Receive\<close>
  returns the same header and the same data.
\<close>

theorem packet_roundtrip:
  assumes "devices_ok s" "pkt_from hdr = hostName s" "0 < pkt_length hdr" "pkt_length hdr \<le> 52"
    and "unat (pkt_length hdr) \<le> length data" "length garbage = MaxWireSize"
    and "sendBusy (networkOutput s) = False"
    and "of_int (random_numbers s (random_used s) smod 100) < chanceToWork (networkOutput s) * 100"
    and "devices_ok r" "hostName r = pkt_to hdr" "pkt_length (inHdr (networkInput r)) = 0"
    and "length room = MaxPacketSize"
  shows "\<exists>s' buffer. NetworkOutput_Send garbage hdr data s = Inr s' \<and>
    wire (networkOutput s') = wire (networkOutput s) @ [(pkt_to hdr, buffer)] \<and>
    packet_ok (pkt_to hdr) buffer \<and>
    (\<forall>rest. \<exists>r' r'' out. NetworkInput_CallBack Inr
         (r\<lparr>networkInput := (networkInput r)\<lparr>arriving := Some buffer # rest\<rparr>\<rparr>) = Inr r' \<and>
       NetworkInput_Receive room r' = Inr (hdr, out, r'') \<and>
       take (unat (pkt_length hdr)) out = take (unat (pkt_length hdr)) data)"
proof -
  let ?n = "unat (pkt_length hdr)"
  let ?buffer = "header_bytes hdr @ take ?n data @ drop (12 + ?n) garbage"
  note sent = packet_sent [OF assms(1-8)]
  have room: "length room = 52" using assms(12) by (simp add: network_constants)
  have "\<exists>r' r'' out. NetworkInput_CallBack Inr
         (r\<lparr>networkInput := (networkInput r)\<lparr>arriving := Some ?buffer # rest\<rparr>\<rparr>) = Inr r' \<and>
       NetworkInput_Receive room r' = Inr (hdr, out, r'') \<and> take ?n out = take ?n data" for rest
  proof -
    note arr = packet_arrives [OF assms(9-11,4-6)]
    obtain q where q: "NetworkInput_CallBack Inr (r\<lparr>networkInput := (networkInput r)\<lparr>arriving := Some ?buffer # rest\<rparr>\<rparr>) =
      Inr (r\<lparr>pending := q, next_address := next_address r + 1,
        networkInput := (networkInput r)\<lparr>arriving := rest, inHdr := hdr,
          inbox := take ?n data @ drop ?n (inbox (networkInput r))\<rparr>,
        stats := (stats r)\<lparr>numPacketsRecvd := s32 (numPacketsRecvd (stats r) + 1)\<rparr>\<rparr>)" (is "_ = Inr ?r'")
      using arr(1) by blast
    have "NetworkInput_Receive room ?r' = Inr (hdr, take ?n (take ?n data @ drop ?n (inbox (networkInput r))) @ drop ?n room,
        ?r'\<lparr>networkInput := (networkInput ?r')\<lparr>inHdr := hdr\<lparr>pkt_length := 0\<rparr>\<rparr>\<rparr>)"
      using packet_taken [of ?r' "pkt_length hdr" room] assms(3,4) arr(2) room by simp
    with q show ?thesis using assms(5) by fastforce
  qed
  then show ?thesis using sent by blast
qed

text \<open>
  The busy flag of the network is never raised: a successful \<open>Send\<close> leaves \<open>sendBusy\<close> false
  although its completion interrupt is still to come, so the assertion at its head cannot reject a
  second packet that is sent too early.
\<close>

theorem NetworkOutput_never_busy:
  assumes "devices_ok s" "NetworkOutput_Send garbage hdr data s = Inr s'"
  shows "\<not> sendBusy (networkOutput s') \<and> waiting NetworkOutputDevice s' = waiting NetworkOutputDevice s + 1"
proof -
  have "hardware_ok s" using assms(1) by (simp add: devices_ok_def)
  then obtain q where q: "Schedule NetworkOutputDevice NetworkTime NetworkSendInt s =
        Inr (s\<lparr>pending := q, next_address := next_address s + 1\<rparr>)"
      "mset q = add_mset (new_interrupt NetworkOutputDevice NetworkTime NetworkSendInt s) (mset (pending s))"
    by (rule Schedule_effect [of s NetworkTime NetworkOutputDevice NetworkSendInt]) (simp_all add: tick_constants)
  have "waiting NetworkOutputDevice (s\<lparr>pending := q, next_address := next_address s + 1\<rparr>) =
      waiting NetworkOutputDevice s + 1"
    using q(2) by (simp add: waiting_Schedule)
  then show ?thesis
    using assms(2) by (auto simp: NetworkOutput_Send_def q(1) RandomNumber_def Let_def bindr_Inr_iff
        ASSERT_bindr split: if_splits)
qed

section \<open>A machine with its devices idle\<close>

definition idle_devices :: devices where
  "idle_devices =
     \<lparr>stats = Statistics_Statistics, level = IntOff, pending = [], inHandler = False, yieldOnReturn = False,
      mstatus = SystemMode, kmachine = None, next_address = 0,
      hostName = 0, random_numbers = (\<lambda>_. 0), random_used = 0,
      timer = \<lparr>randomize = False, disable = False\<rparr>, disk = Disk_Disk (\<lambda>_. replicate 128 0),
      consoleInput = \<lparr>keyboard = [], incoming = EOF_char\<rparr>, consoleOutput = ConsoleOutput_ConsoleOutput,
      networkInput = \<lparr>arriving = [], inHdr = \<lparr>pkt_to = 0, pkt_from = 0, pkt_length = 0\<rparr>,
                      inbox = replicate 52 0\<rparr>,
      networkOutput = NetworkOutput_NetworkOutput 1\<rparr>"

lemma idle_devices_ok: "devices_ok idle_devices" "disk_ok idle_devices" "\<not> active (disk idle_devices)"
  "\<not> putBusy (consoleOutput idle_devices)" "0 \<le> now idle_devices" "now idle_devices + horizon < 2 ^ 31"
  "timely idle_devices"
  by (simp_all add: devices_ok_def disk_ok_def keyboard_ok_def network_ok_def hardware_ok_def waiting_def ordered_by_def
      idle_devices_def Disk_Disk_def Statistics_Statistics_def ConsoleOutput_ConsoleOutput_def
      disk_constants network_constants clock_defs)

text \<open>The clock can get there: a timer interrupt at the last moment, and nothing else to do.\<close>

theorem clock_overflow_hangs_witness:
  "CheckIfDue (device_CallBack (\<lambda>_. Inr)) False
     (idle_devices\<lparr>stats := Statistics_Statistics\<lparr>totalTicks := 2 ^ 31 - 1, idleTicks := 2 ^ 31 - 1\<rparr>,
        pending := [\<lparr>pi_address = 0, callOnInterrupt = TimerDevice, pi_when = 2 ^ 31 - 1, pi_type = TimerInt\<rparr>],
        next_address := 1\<rparr>) = Inl Diverges"
  by (rule clock_overflow_hangs)
    (simp_all add: timer_overflows_def hardware_ok_def idle_devices_def ordered_by_def Statistics_Statistics_def tick_constants)

theorem Disk_latency_exact_witness:
  "RotationTime \<le> ComputeLatency 40 True idle_devices \<and>
   ComputeLatency 40 True idle_devices \<le> 31 * SeekTime + 32 * RotationTime + RotationTime"
  using Disk_latency_exact [OF idle_devices_ok(2,5,6), of 40 True] by (simp add: disk_constants Let_def)

theorem one_request_at_a_time_witness:
  "(\<exists>s'. Disk_ReadRequest 7 idle_devices = Inr (sectors (disk idle_devices) 7, s') \<and> active (disk s')) \<and>
   (\<exists>s'. ConsoleOutput_PutChar 65 idle_devices = Inr s' \<and> putBusy (consoleOutput s'))"
  using one_request_at_a_time [OF idle_devices_ok(1), of 7 "replicate 128 0" 65] idle_devices_ok
  by (auto simp: disk_constants)

definition key_pressed :: devices where
  "key_pressed = idle_devices
     \<lparr>pending := [\<lparr>pi_address = 0, callOnInterrupt = ConsoleInputDevice, pi_when = 100, pi_type = ConsoleReadInt\<rparr>],
      next_address := 1, consoleInput := \<lparr>keyboard = [Key 0xFF], incoming = EOF_char\<rparr>\<rparr>"

lemma key_pressed_ok: "devices_ok key_pressed"
  by (simp add: devices_ok_def disk_ok_def keyboard_ok_def network_ok_def hardware_ok_def waiting_def ordered_by_def
      key_pressed_def idle_devices_def Disk_Disk_def Statistics_Statistics_def ConsoleOutput_ConsoleOutput_def
      disk_constants network_constants)

theorem ConsoleInput_reads_key_witness:
  "\<exists>t u. ConsoleInput_CallBack Inr (key_pressed\<lparr>pending := []\<rparr>) = Inr t \<and>
    ConsoleInput_GetChar t = Inr (0xFF, u) \<and> waiting ConsoleInputDevice u = 0"
  using ConsoleInput_reads_key [OF key_pressed_ok, of
      "\<lparr>pi_address = 0, callOnInterrupt = ConsoleInputDevice, pi_when = 100, pi_type = ConsoleReadInt\<rparr>" "[]" "0xFF" "[]"]
  by (auto simp: key_pressed_def)

abbreviation hello_header :: packet_header where
  "hello_header \<equiv> \<lparr>pkt_to = 0, pkt_from = 0, pkt_length = 3\<rparr>"

theorem packet_roundtrip_witness:
  "\<exists>s' buffer. NetworkOutput_Send (replicate 64 0) hello_header [1, 2, 3] idle_devices = Inr s' \<and>
    wire (networkOutput s') = [(0, buffer)] \<and> packet_ok 0 buffer"
  using packet_roundtrip [OF idle_devices_ok(1), of hello_header "[1, 2, 3]" "replicate 64 0" idle_devices
      "replicate 52 0"] idle_devices_ok(1)
  by (auto simp: idle_devices_def NetworkOutput_NetworkOutput_def network_constants)

theorem NetworkOutput_never_busy_witness:
  "\<exists>s'. NetworkOutput_Send (replicate 64 0) hello_header [1, 2, 3] idle_devices = Inr s' \<and>
    \<not> sendBusy (networkOutput s')"
proof -
  obtain s' where "NetworkOutput_Send (replicate 64 0) hello_header [1, 2, 3] idle_devices = Inr s'"
    by (simp add: NetworkOutput_Send_def idle_devices_def NetworkOutput_NetworkOutput_def Schedule_def
        seq_insert_def RandomNumber_def network_constants tick_constants copy_into_def bytes_at_def
        Statistics_Statistics_def Let_def)
  with NetworkOutput_never_busy [OF idle_devices_ok(1)] show ?thesis by blast
qed

end
