(* ===== verification/Threads.thy ===== *)
theory Threads
  imports Devices_Correct
begin

text \<open>
  Kernel threads: the scheduler and context switch (\<open>threads/scheduler.cc\<close>, \<open>threads/thread.cc\<close>),
  semaphores, locks and condition variables (\<open>threads/synch.cc\<close>), synchronized lists
  (\<open>threads/synchlist.cc\<close>) and the synchronized devices (\<open>filesys/synchdisk.cc\<close>,
  \<open>userprog/synchconsole.cc\<close>).

  A thread that gives up the processor in the middle of a method resumes there later, on its own
  stack.  A stack is a list of frames; a frame is a piece of kernel code that runs without any
  possibility of a context switch, and a method that calls another pushes the frame of the callee
  above the frame of its own rest.  The processor executes the top frame of the current thread.
  Context switches happen where the code has them: in \<open>Scheduler::Run\<close>, called when a thread
  sleeps, yields or finishes, and in \<open>OneTick\<close> when a timer interrupt has asked for one.

  Objects that the code allocates with \<open>new\<close> are entries of a table under a fresh number; a
  deleted object is absent from its table and its use is the fault \<open>DanglingPointer\<close>.
\<close>

section \<open>State\<close>

datatype ThreadStatus = JUST_CREATED | RUNNING | READY | BLOCKED

type_synonym tid = nat

datatype (plugins only: code size) operand = Const nat | Returned

datatype (plugins only: code size) frame =
    F_SetLevel IntStatus          \<comment> \<open>\<open>interrupt->SetLevel(l)\<close>\<close>
  | F_OneTick                     \<comment> \<open>\<open>interrupt->OneTick()\<close>\<close>
  | F_setStatus MachineStatus     \<comment> \<open>the end of \<open>OneTick\<close>: \<open>status = oldStatus\<close>\<close>
  | F_Begin | F_Finish | F_Yield
  | F_Fork "u32 list" "frame list" \<comment> \<open>\<open>t = new Thread(...); t->Fork(func, arg)\<close>\<close>
  | F_Sleep_loop bool             \<comment> \<open>\<open>Sleep\<close> from its loop on\<close>
  | F_Run_back                    \<comment> \<open>\<open>Scheduler::Run\<close> after \<open>SWITCH\<close>\<close>
  | F_P nat | F_P_loop nat        \<comment> \<open>\<open>P\<close>; \<open>P\<close> from its loop on\<close>
  | F_V nat
  | F_Acquire nat | F_Acquired nat \<comment> \<open>\<open>Acquire\<close>; \<open>lockHolder = currentThread\<close>\<close>
  | F_Release nat
  | F_Wait nat nat | F_delete_semaphore nat
  | F_Signal nat nat | F_Broadcast nat nat
  | F_SynchAppend nat operand | F_ListAppend nat operand
  | F_SynchRemove nat | F_SynchRemove_loop nat
  | F_ASSERT_returned nat         \<comment> \<open>\<open>ASSERT(val == ...)\<close> on the value just returned\<close>
  | F_ReadSector int | F_ReadRequest int
  | F_WriteSector int "u8 list" | F_WriteRequest int "u8 list"
  | F_PutChar u8 | F_ConsolePutChar u8
  | F_GetChar | F_ConsoleGetChar

record address_space =
  as_pageTable :: "translation_entry list"
  as_numPages :: u32

definition STACK_FENCEPOST :: u32 where "STACK_FENCEPOST = 0xdedbeef"

text \<open>\<open>stack\<close> is the word at the bottom of the stack, or \<open>None\<close> for the main thread, whose stack is not its own.\<close>

record thread =
  status :: ThreadStatus
  frames :: "frame list"
  stack :: "u32 option"
  userRegisters :: "u32 list"
  space :: "address_space option"
  returned :: nat
  sector_data :: "u8 list"

record semaphore =
  sem_value :: int
  queue :: "tid list"

record lock =
  lockHolder :: "tid option"
  lock_semaphore :: nat

record condition =
  waitQueue :: "nat list"

record synch_list =
  items :: "nat list"
  sl_lock :: nat
  sl_listEmpty :: nat

record kernel = devices +
  threads :: "tid \<Rightarrow> thread option"
  currentThread :: tid
  readyList :: "tid list"
  toBeDestroyed :: "tid option"
  semaphores :: "nat \<Rightarrow> semaphore option"
  locks :: "nat \<Rightarrow> lock option"
  conditions :: "nat \<Rightarrow> condition option"
  synch_lists :: "nat \<Rightarrow> synch_list option"
  next_object :: nat
  device_semaphore :: "device \<Rightarrow> nat"   \<comment> \<open>what the \<open>CallBack\<close> of a synchronized device signals\<close>
  device_lock :: "device \<Rightarrow> nat"
  halted :: bool

definition the_object :: "'a option \<Rightarrow> 'a res" where
  "the_object x = (case x of None \<Rightarrow> Inl DanglingPointer | Some y \<Rightarrow> Inr y)"

lemma the_object_simps [simp]:
  "the_object (Some x) = Inr x" "the_object None = Inl DanglingPointer"
  by (simp_all add: the_object_def)

definition put_thread :: "tid \<Rightarrow> thread \<Rightarrow> kernel \<Rightarrow> kernel" where
  "put_thread t th k = k\<lparr>threads := (threads k)(t \<mapsto> th)\<rparr>"

definition put_semaphore :: "nat \<Rightarrow> semaphore \<Rightarrow> kernel \<Rightarrow> kernel" where
  "put_semaphore s sem k = k\<lparr>semaphores := (semaphores k)(s \<mapsto> sem)\<rparr>"

definition setStatus :: "tid \<Rightarrow> ThreadStatus \<Rightarrow> kernel \<Rightarrow> kernel res" where
  "setStatus t st k =
     bindr (the_object (threads k t)) (\<lambda>th. Inr (put_thread t (th\<lparr>status := st\<rparr>) k))"

text \<open>The current thread calls: the frames run, the first one first, before what is below them.\<close>

definition call :: "frame list \<Rightarrow> kernel \<Rightarrow> kernel res" where
  "call fs k =
     bindr (the_object (threads k (currentThread k))) (\<lambda>th.
     Inr (put_thread (currentThread k) (th\<lparr>frames := fs @ frames th\<rparr>) k))"

definition return_value :: "nat \<Rightarrow> kernel \<Rightarrow> kernel res" where
  "return_value v k =
     bindr (the_object (threads k (currentThread k))) (\<lambda>th.
     Inr (put_thread (currentThread k) (th\<lparr>returned := v\<rparr>) k))"

section \<open>The scheduler\<close>

definition ReadyToRun :: "tid \<Rightarrow> kernel \<Rightarrow> kernel res" where
  "ReadyToRun t k =
     bindr (ASSERT (level k = IntOff)) (\<lambda>_.
     bindr (setStatus t READY k) (\<lambda>k.
     bindr (seq_append (readyList k) t) (\<lambda>l.
     Inr (k\<lparr>readyList := l\<rparr>))))"

definition FindNextToRun :: "kernel \<Rightarrow> (tid option \<times> kernel) res" where
  "FindNextToRun k =
     bindr (ASSERT (level k = IntOff)) (\<lambda>_.
     if readyList k = [] then Inr (None, k)
     else bindr (seq_remove_front (readyList k)) (\<lambda>(t, l). Inr (Some t, k\<lparr>readyList := l\<rparr>)))"

definition CheckToBeDestroyed :: "kernel \<Rightarrow> kernel res" where
  "CheckToBeDestroyed k =
     (case toBeDestroyed k of
        None \<Rightarrow> Inr k
      | Some t \<Rightarrow>
          bindr (ASSERT (t \<noteq> currentThread k)) (\<lambda>_.
          Inr (k\<lparr>threads := (threads k)(t := None), toBeDestroyed := None\<rparr>)))"

definition CheckOverflow :: "thread \<Rightarrow> unit res" where
  "CheckOverflow th =
     (case stack th of None \<Rightarrow> Inr () | Some fence \<Rightarrow> ASSERT (fence = STACK_FENCEPOST))"

text \<open>
  \<open>SaveUserState\<close> and \<open>AddrSpace::SaveState\<close>.  The page table is an array that the machine uses
  through a pointer; in the model the machine holds its entries, so they are put back into the
  address space when the machine is about to get another table.
\<close>

definition SaveUserState :: "kernel \<Rightarrow> thread \<Rightarrow> thread res" where
  "SaveUserState k th =
     (case kmachine k of
        None \<Rightarrow> Inl NullDereference
      | Some m \<Rightarrow> Inr (th\<lparr>userRegisters := map (registers m) [0..<NumTotalRegs]\<rparr>))"

definition SaveState :: "kernel \<Rightarrow> address_space \<Rightarrow> address_space" where
  "SaveState k sp =
     (case kmachine k of
        None \<Rightarrow> sp
      | Some m \<Rightarrow> (case pageTable m of None \<Rightarrow> sp | Some t \<Rightarrow> sp\<lparr>as_pageTable := t\<rparr>))"

definition RestoreUserState :: "thread \<Rightarrow> kernel \<Rightarrow> kernel res" where
  "RestoreUserState th k =
     (case kmachine k of
        None \<Rightarrow> Inl NullDereference
      | Some m \<Rightarrow>
          Inr (k\<lparr>kmachine := Some (m\<lparr>registers :=
             (\<lambda>r. if r < NumTotalRegs then userRegisters th ! r else registers m r)\<rparr>)\<rparr>))"

definition RestoreState :: "address_space \<Rightarrow> kernel \<Rightarrow> kernel res" where
  "RestoreState sp k =
     (case kmachine k of
        None \<Rightarrow> Inl NullDereference
      | Some m \<Rightarrow>
          Inr (k\<lparr>kmachine := Some (m\<lparr>pageTable := Some (as_pageTable sp),
                                      pageTableSize := as_numPages sp\<rparr>)\<rparr>))"

definition Run :: "tid \<Rightarrow> bool \<Rightarrow> kernel \<Rightarrow> kernel res" where
  "Run nextThread finishing k =
     (let oldThread = currentThread k in
      bindr (ASSERT (level k = IntOff)) (\<lambda>_.
      bindr (if finishing
             then bindr (ASSERT (toBeDestroyed k = None)) (\<lambda>_. Inr (k\<lparr>toBeDestroyed := Some oldThread\<rparr>))
             else Inr k) (\<lambda>k.
      bindr (the_object (threads k oldThread)) (\<lambda>th.
      bindr (case space th of
               None \<Rightarrow> Inr th
             | Some sp \<Rightarrow>
                 bindr (SaveUserState k th) (\<lambda>th. Inr (th\<lparr>space := Some (SaveState k sp)\<rparr>))) (\<lambda>th.
      bindr (CheckOverflow th) (\<lambda>_.
      let k = put_thread oldThread (th\<lparr>frames := F_Run_back # frames th\<rparr>) k in
      setStatus nextThread RUNNING (k\<lparr>currentThread := nextThread\<rparr>)))))))"

definition Run_back :: "kernel \<Rightarrow> kernel res" where
  "Run_back k =
     bindr (ASSERT (level k = IntOff)) (\<lambda>_.
     bindr (CheckToBeDestroyed k) (\<lambda>k.
     bindr (the_object (threads k (currentThread k))) (\<lambda>th.
     case space th of
       None \<Rightarrow> Inr k
     | Some sp \<Rightarrow> bindr (RestoreUserState th k) (RestoreState sp))))"

section \<open>Semaphores, and the interrupts that signal them\<close>

text \<open>
  Up to its last call; the result is the interrupt level that \<open>SetLevel\<close> then restores.
\<close>

definition Semaphore_V :: "nat \<Rightarrow> kernel \<Rightarrow> (IntStatus \<times> kernel) res" where
  "Semaphore_V s k =
     (let oldLevel = level k; k = k\<lparr>level := IntOff\<rparr> in
      bindr (the_object (semaphores k s)) (\<lambda>sem.
      bindr (if queue sem \<noteq> []
             then bindr (seq_remove_front (queue sem)) (\<lambda>(t, q).
                  ReadyToRun t (put_semaphore s (sem\<lparr>queue := q\<rparr>) k))
             else Inr k) (\<lambda>k.
      bindr (the_object (semaphores k s)) (\<lambda>sem.
      Inr (oldLevel, put_semaphore s (sem\<lparr>sem_value := sem_value sem + 1\<rparr>) k)))))"

text \<open>
  \<open>SynchDisk::CallBack\<close> and its like.  Inside a handler \<open>SetLevel\<close> may not enable interrupts.
\<close>

definition synch_CallBack :: "device \<Rightarrow> kernel \<Rightarrow> kernel res" where
  "synch_CallBack d k =
     bindr (Semaphore_V (device_semaphore k d) k) (\<lambda>(oldLevel, k).
     bindr (ASSERT (oldLevel = IntOff \<or> \<not> inHandler k)) (\<lambda>_.
     Inr (k\<lparr>level := oldLevel\<rparr>)))"

abbreviation CallBack :: "device \<Rightarrow> kernel \<Rightarrow> kernel res" where
  "CallBack \<equiv> device_CallBack synch_CallBack"

definition OneTick :: "kernel \<Rightarrow> kernel res" where
  "OneTick k =
     (let oldStatus = mstatus k in
      bindr (OneTick_handlers CallBack k) (\<lambda>k.
      if yieldOnReturn k
      then call [F_Yield, F_setStatus oldStatus] (k\<lparr>yieldOnReturn := False, mstatus := SystemMode\<rparr>)
      else Inr k))"

definition SetLevel :: "IntStatus \<Rightarrow> kernel \<Rightarrow> kernel res" where
  "SetLevel l k =
     bindr (ASSERT (l = IntOff \<or> inHandler k = False)) (\<lambda>_.
     let old = level k; k = ChangeLevel l k in
     if l = IntOn \<and> old = IntOff then OneTick k else Inr k)"

definition Semaphore_P :: "nat \<Rightarrow> kernel \<Rightarrow> kernel res" where
  "Semaphore_P s k =
     (let oldLevel = level k in
      bindr (SetLevel IntOff k) (call [F_P_loop s, F_SetLevel oldLevel]))"

section \<open>Threads\<close>

text \<open>\<open>Sleep\<close> up to its loop.\<close>

definition Sleep :: "bool \<Rightarrow> kernel \<Rightarrow> kernel res" where
  "Sleep finishing k =
     bindr (ASSERT (level k = IntOff)) (\<lambda>_.
     bindr (setStatus (currentThread k) BLOCKED k) (call [F_Sleep_loop finishing]))"

text \<open>One round of the loop: run the next thread, or idle until an interrupt and look again.\<close>

definition Sleep_loop :: "bool \<Rightarrow> kernel \<Rightarrow> kernel res" where
  "Sleep_loop finishing k =
     bindr (FindNextToRun k) (\<lambda>(next, k).
     case next of
       Some t \<Rightarrow> Run t finishing k
     | None \<Rightarrow>
         bindr (Idle CallBack k) (\<lambda>(fired, k).
         if fired then call [F_Sleep_loop finishing] k else Inr (k\<lparr>halted := True\<rparr>)))"

definition P_loop :: "nat \<Rightarrow> kernel \<Rightarrow> kernel res" where
  "P_loop s k =
     bindr (the_object (semaphores k s)) (\<lambda>sem.
     if sem_value sem = 0 then
       bindr (seq_append (queue sem) (currentThread k)) (\<lambda>q.
       bindr (call [F_P_loop s] (put_semaphore s (sem\<lparr>queue := q\<rparr>) k)) (Sleep False))
     else Inr (put_semaphore s (sem\<lparr>sem_value := sem_value sem - 1\<rparr>) k))"

definition Yield :: "kernel \<Rightarrow> kernel res" where
  "Yield k =
     (let oldLevel = level k in
      bindr (SetLevel IntOff k) (\<lambda>k.
      bindr (call [F_SetLevel oldLevel] k) (\<lambda>k.
      bindr (FindNextToRun k) (\<lambda>(next, k).
      case next of
        None \<Rightarrow> Inr k
      | Some t \<Rightarrow> bindr (ReadyToRun (currentThread k) k) (Run t False)))))"

definition Begin :: "kernel \<Rightarrow> kernel res" where
  "Begin k = bindr (CheckToBeDestroyed k) (SetLevel IntOn)"

definition Finish :: "kernel \<Rightarrow> kernel res" where
  "Finish k = bindr (SetLevel IntOff k) (Sleep True)"

text \<open>\<open>new Thread\<close>; \<open>garbage\<close> is what its uninitialised register array holds.\<close>

definition Thread_Thread :: "u32 list \<Rightarrow> thread" where
  "Thread_Thread garbage =
     \<lparr>status = JUST_CREATED, frames = [], stack = None, userRegisters = garbage, space = None,
      returned = 0, sector_data = []\<rparr>"

definition new_Thread :: "u32 list \<Rightarrow> kernel \<Rightarrow> tid \<times> kernel" where
  "new_Thread garbage k =
     (next_object k,
      put_thread (next_object k) (Thread_Thread garbage) (k\<lparr>next_object := next_object k + 1\<rparr>))"

text \<open>\<open>ThreadRoot\<close> runs \<open>Begin\<close>, the forked function and \<open>Finish\<close>.\<close>

definition StackAllocate :: "frame list \<Rightarrow> thread \<Rightarrow> thread" where
  "StackAllocate func th = th\<lparr>stack := Some STACK_FENCEPOST, frames := F_Begin # func @ [F_Finish]\<rparr>"

definition Fork :: "tid \<Rightarrow> frame list \<Rightarrow> kernel \<Rightarrow> kernel res" where
  "Fork t func k =
     bindr (the_object (threads k t)) (\<lambda>th.
     let k = put_thread t (StackAllocate func th) k; oldLevel = level k in
     bindr (SetLevel IntOff k) (\<lambda>k.
     bindr (ReadyToRun t k) (call [F_SetLevel oldLevel])))"

section \<open>Locks and condition variables\<close>

definition new_Semaphore :: "int \<Rightarrow> kernel \<Rightarrow> nat \<times> kernel" where
  "new_Semaphore initialValue k =
     (next_object k,
      put_semaphore (next_object k) \<lparr>sem_value = initialValue, queue = []\<rparr>
        (k\<lparr>next_object := next_object k + 1\<rparr>))"

definition new_Lock :: "kernel \<Rightarrow> nat \<times> kernel" where
  "new_Lock k =
     (let (s, k) = new_Semaphore 1 k in
      (next_object k,
       k\<lparr>locks := (locks k)(next_object k \<mapsto> \<lparr>lockHolder = None, lock_semaphore = s\<rparr>),
         next_object := next_object k + 1\<rparr>))"

definition new_Condition :: "kernel \<Rightarrow> nat \<times> kernel" where
  "new_Condition k =
     (next_object k,
      k\<lparr>conditions := (conditions k)(next_object k \<mapsto> \<lparr>waitQueue = []\<rparr>),
        next_object := next_object k + 1\<rparr>)"

definition new_SynchList :: "kernel \<Rightarrow> nat \<times> kernel" where
  "new_SynchList k =
     (let (l, k) = new_Lock k; (c, k) = new_Condition k in
      (next_object k,
       k\<lparr>synch_lists := (synch_lists k)(next_object k \<mapsto> \<lparr>items = [], sl_lock = l, sl_listEmpty = c\<rparr>),
         next_object := next_object k + 1\<rparr>))"

definition IsHeldByCurrentThread :: "lock \<Rightarrow> kernel \<Rightarrow> bool" where
  "IsHeldByCurrentThread l k \<longleftrightarrow> lockHolder l = Some (currentThread k)"

definition Acquire :: "nat \<Rightarrow> kernel \<Rightarrow> kernel res" where
  "Acquire l k =
     bindr (the_object (locks k l)) (\<lambda>lk. call [F_P (lock_semaphore lk), F_Acquired l] k)"

definition Acquired :: "nat \<Rightarrow> kernel \<Rightarrow> kernel res" where
  "Acquired l k =
     bindr (the_object (locks k l)) (\<lambda>lk.
     Inr (k\<lparr>locks := (locks k)(l \<mapsto> lk\<lparr>lockHolder := Some (currentThread k)\<rparr>)\<rparr>))"

definition Release :: "nat \<Rightarrow> kernel \<Rightarrow> kernel res" where
  "Release l k =
     bindr (the_object (locks k l)) (\<lambda>lk.
     bindr (ASSERT (IsHeldByCurrentThread lk k)) (\<lambda>_.
     call [F_V (lock_semaphore lk)] (k\<lparr>locks := (locks k)(l \<mapsto> lk\<lparr>lockHolder := None\<rparr>)\<rparr>)))"

definition Condition_Wait :: "nat \<Rightarrow> nat \<Rightarrow> kernel \<Rightarrow> kernel res" where
  "Condition_Wait c conditionLock k =
     bindr (the_object (locks k conditionLock)) (\<lambda>lk.
     bindr (ASSERT (IsHeldByCurrentThread lk k)) (\<lambda>_.
     let (waiter, k) = new_Semaphore 0 k in
     bindr (the_object (conditions k c)) (\<lambda>cond.
     bindr (seq_append (waitQueue cond) waiter) (\<lambda>q.
     call [F_Release conditionLock, F_P waiter, F_Acquire conditionLock, F_delete_semaphore waiter]
       (k\<lparr>conditions := (conditions k)(c \<mapsto> cond\<lparr>waitQueue := q\<rparr>)\<rparr>)))))"

definition Condition_Signal :: "nat \<Rightarrow> nat \<Rightarrow> kernel \<Rightarrow> kernel res" where
  "Condition_Signal c conditionLock k =
     bindr (the_object (locks k conditionLock)) (\<lambda>lk.
     bindr (ASSERT (IsHeldByCurrentThread lk k)) (\<lambda>_.
     bindr (the_object (conditions k c)) (\<lambda>cond.
     if waitQueue cond \<noteq> [] then
       bindr (seq_remove_front (waitQueue cond)) (\<lambda>(waiter, q).
       call [F_V waiter] (k\<lparr>conditions := (conditions k)(c \<mapsto> cond\<lparr>waitQueue := q\<rparr>)\<rparr>))
     else Inr k)))"

definition Condition_Broadcast :: "nat \<Rightarrow> nat \<Rightarrow> kernel \<Rightarrow> kernel res" where
  "Condition_Broadcast c conditionLock k =
     bindr (the_object (conditions k c)) (\<lambda>cond.
     if waitQueue cond \<noteq> [] then call [F_Signal c conditionLock, F_Broadcast c conditionLock] k
     else Inr k)"

definition delete_semaphore :: "nat \<Rightarrow> kernel \<Rightarrow> kernel res" where
  "delete_semaphore s k =
     bindr (the_object (semaphores k s)) (\<lambda>_. Inr (k\<lparr>semaphores := (semaphores k)(s := None)\<rparr>))"

section \<open>Synchronized lists\<close>

definition operand_value :: "operand \<Rightarrow> kernel \<Rightarrow> nat res" where
  "operand_value x k =
     (case x of
        Const v \<Rightarrow> Inr v
      | Returned \<Rightarrow> bindr (the_object (threads k (currentThread k))) (\<lambda>th. Inr (returned th)))"

definition SynchList_Append :: "nat \<Rightarrow> operand \<Rightarrow> kernel \<Rightarrow> kernel res" where
  "SynchList_Append sl x k =
     bindr (the_object (synch_lists k sl)) (\<lambda>l.
     call [F_Acquire (sl_lock l), F_ListAppend sl x, F_Signal (sl_listEmpty l) (sl_lock l),
           F_Release (sl_lock l)] k)"

definition ListAppend :: "nat \<Rightarrow> operand \<Rightarrow> kernel \<Rightarrow> kernel res" where
  "ListAppend sl x k =
     bindr (operand_value x k) (\<lambda>v.
     bindr (the_object (synch_lists k sl)) (\<lambda>l.
     bindr (seq_append (items l) v) (\<lambda>vs.
     Inr (k\<lparr>synch_lists := (synch_lists k)(sl \<mapsto> l\<lparr>items := vs\<rparr>)\<rparr>))))"

definition SynchList_RemoveFront :: "nat \<Rightarrow> kernel \<Rightarrow> kernel res" where
  "SynchList_RemoveFront sl k =
     bindr (the_object (synch_lists k sl)) (\<lambda>l.
     call [F_Acquire (sl_lock l), F_SynchRemove_loop sl, F_Release (sl_lock l)] k)"

definition SynchRemove_loop :: "nat \<Rightarrow> kernel \<Rightarrow> kernel res" where
  "SynchRemove_loop sl k =
     bindr (the_object (synch_lists k sl)) (\<lambda>l.
     if items l = [] then call [F_Wait (sl_listEmpty l) (sl_lock l), F_SynchRemove_loop sl] k
     else
       bindr (seq_remove_front (items l)) (\<lambda>(v, vs).
       return_value v (k\<lparr>synch_lists := (synch_lists k)(sl \<mapsto> l\<lparr>items := vs\<rparr>)\<rparr>)))"

section \<open>Synchronized devices\<close>

definition ReadSector :: "int \<Rightarrow> kernel \<Rightarrow> kernel res" where
  "ReadSector n k =
     call [F_Acquire (device_lock k DiskDevice), F_ReadRequest n,
           F_P (device_semaphore k DiskDevice), F_Release (device_lock k DiskDevice)] k"

definition ReadRequest :: "int \<Rightarrow> kernel \<Rightarrow> kernel res" where
  "ReadRequest n k =
     bindr (Disk_ReadRequest n k) (\<lambda>(data, k).
     bindr (the_object (threads k (currentThread k))) (\<lambda>th.
     Inr (put_thread (currentThread k) (th\<lparr>sector_data := data\<rparr>) k)))"

definition WriteSector :: "int \<Rightarrow> u8 list \<Rightarrow> kernel \<Rightarrow> kernel res" where
  "WriteSector n data k =
     call [F_Acquire (device_lock k DiskDevice), F_WriteRequest n data,
           F_P (device_semaphore k DiskDevice), F_Release (device_lock k DiskDevice)] k"

definition SynchConsoleOutput_PutChar :: "u8 \<Rightarrow> kernel \<Rightarrow> kernel res" where
  "SynchConsoleOutput_PutChar ch k =
     call [F_Acquire (device_lock k ConsoleOutputDevice), F_ConsolePutChar ch,
           F_P (device_semaphore k ConsoleOutputDevice), F_Release (device_lock k ConsoleOutputDevice)] k"

definition SynchConsoleInput_GetChar :: "kernel \<Rightarrow> kernel res" where
  "SynchConsoleInput_GetChar k =
     call [F_Acquire (device_lock k ConsoleInputDevice), F_P (device_semaphore k ConsoleInputDevice),
           F_ConsoleGetChar, F_Release (device_lock k ConsoleInputDevice)] k"

definition ConsoleGetChar :: "kernel \<Rightarrow> kernel res" where
  "ConsoleGetChar k =
     bindr (ConsoleInput_GetChar k) (\<lambda>(ch, k). return_value (unat ch) k)"

section \<open>Execution\<close>

primrec exec :: "frame \<Rightarrow> kernel \<Rightarrow> kernel res" where
  "exec (F_SetLevel l) k = SetLevel l k"
| "exec F_OneTick k = OneTick k"
| "exec (F_setStatus st) k = Inr (k\<lparr>mstatus := st\<rparr>)"
| "exec F_Begin k = Begin k"
| "exec F_Finish k = Finish k"
| "exec F_Yield k = Yield k"
| "exec (F_Fork garbage func) k = (let (t, k) = new_Thread garbage k in Fork t func k)"
| "exec (F_Sleep_loop finishing) k = Sleep_loop finishing k"
| "exec F_Run_back k = Run_back k"
| "exec (F_P s) k = Semaphore_P s k"
| "exec (F_P_loop s) k = P_loop s k"
| "exec (F_V s) k = bindr (Semaphore_V s k) (\<lambda>(oldLevel, k). call [F_SetLevel oldLevel] k)"
| "exec (F_Acquire l) k = Acquire l k"
| "exec (F_Acquired l) k = Acquired l k"
| "exec (F_Release l) k = Release l k"
| "exec (F_Wait c l) k = Condition_Wait c l k"
| "exec (F_delete_semaphore s) k = delete_semaphore s k"
| "exec (F_Signal c l) k = Condition_Signal c l k"
| "exec (F_Broadcast c l) k = Condition_Broadcast c l k"
| "exec (F_SynchAppend sl x) k = SynchList_Append sl x k"
| "exec (F_ListAppend sl x) k = ListAppend sl x k"
| "exec (F_SynchRemove sl) k = SynchList_RemoveFront sl k"
| "exec (F_SynchRemove_loop sl) k = SynchRemove_loop sl k"
| "exec (F_ASSERT_returned v) k =
     bindr (operand_value Returned k) (\<lambda>x. bindr (ASSERT (v = x)) (\<lambda>_. Inr k))"
| "exec (F_ReadSector n) k = ReadSector n k"
| "exec (F_ReadRequest n) k = ReadRequest n k"
| "exec (F_WriteSector n data) k = WriteSector n data k"
| "exec (F_WriteRequest n data) k = Disk_WriteRequest n data k"
| "exec (F_PutChar ch) k = SynchConsoleOutput_PutChar ch k"
| "exec (F_ConsolePutChar ch) k = ConsoleOutput_PutChar ch k"
| "exec F_GetChar k = SynchConsoleInput_GetChar k"
| "exec F_ConsoleGetChar k = ConsoleGetChar k"

text \<open>The processor: the top frame of the current thread is popped and executed.\<close>

inductive kernel_step :: "kernel \<Rightarrow> kernel res \<Rightarrow> bool" where
  kernel_step: "\<not> halted k \<Longrightarrow> threads k (currentThread k) = Some th \<Longrightarrow> frames th = f # fs \<Longrightarrow>
    kernel_step k (exec f (put_thread (currentThread k) (th\<lparr>frames := fs\<rparr>) k))"

inductive_cases kernel_stepE: "kernel_step k r"

inductive reachable :: "kernel \<Rightarrow> kernel \<Rightarrow> bool" for k where
  start: "reachable k k"
| step: "reachable k k' \<Longrightarrow> kernel_step k' (Inr k'') \<Longrightarrow> reachable k k''"

text \<open>The same as a function, to run a kernel for a number of steps.\<close>

definition run_step :: "kernel \<Rightarrow> kernel res" where
  "run_step k =
     (if halted k then Inr k
      else bindr (the_object (threads k (currentThread k))) (\<lambda>th.
        case frames th of
          [] \<Rightarrow> Inr k
        | f # fs \<Rightarrow> exec f (put_thread (currentThread k) (th\<lparr>frames := fs\<rparr>) k)))"

primrec run_steps :: "nat \<Rightarrow> kernel \<Rightarrow> kernel res" where
  "run_steps 0 k = Inr k"
| "run_steps (Suc n) k = bindr (run_step k) (run_steps n)"

section \<open>Start-up\<close>

text \<open>
  \<open>Kernel::Initialize\<close> up to its last call, without the file system and the thread of the post
  office: the \<open>world\<close> gives the contents of the disk, the keyboard, the network, the random numbers
  and the values of uninitialised memory.  The main thread then enables interrupts, runs \<open>program\<close>
  and finishes.
\<close>

definition new_device_semaphore :: "device \<Rightarrow> kernel \<Rightarrow> kernel" where
  "new_device_semaphore d k =
     (let (s, k) = new_Semaphore 0 k in k\<lparr>device_semaphore := (device_semaphore k)(d := s)\<rparr>)"

definition new_synch_device :: "device \<Rightarrow> kernel \<Rightarrow> kernel" where
  "new_synch_device d k =
     (let (l, k) = new_Lock k in
      new_device_semaphore d (k\<lparr>device_lock := (device_lock k)(d := l)\<rparr>))"

definition Kernel_Kernel :: "devices \<Rightarrow> frame list \<Rightarrow> kernel" where
  "Kernel_Kernel world program =
     devices.extend
       (world\<lparr>stats := Statistics_Statistics, level := IntOff, pending := [], inHandler := False,
          yieldOnReturn := False, mstatus := SystemMode, kmachine := None\<rparr>)
       \<lparr>threads = [0 \<mapsto> (Thread_Thread (replicate NumTotalRegs 0))
          \<lparr>status := RUNNING, frames := F_SetLevel IntOn # program @ [F_Finish]\<rparr>],
        currentThread = 0, readyList = [], toBeDestroyed = None, semaphores = Map.empty,
        locks = Map.empty, conditions = Map.empty, synch_lists = Map.empty, next_object = 1,
        device_semaphore = (\<lambda>_. 0), device_lock = (\<lambda>_. 0), halted = False\<rparr>"

definition Kernel_Initialize :: "bool \<Rightarrow> u32 \<Rightarrow> devices \<Rightarrow> frame list \<Rightarrow> kernel res" where
  "Kernel_Initialize randomSlice garbage world program =
     (let k = Kernel_Kernel world program in
      bindr (Timer_Timer randomSlice k) (\<lambda>k.
      let k = k\<lparr>kmachine := Some (Machine_Machine garbage)\<rparr> in
      bindr (ConsoleInput_ConsoleInput (keyboard (consoleInput world)) k) (\<lambda>k.
      let k = new_synch_device ConsoleInputDevice k;
          k = new_synch_device ConsoleOutputDevice (k\<lparr>consoleOutput := ConsoleOutput_ConsoleOutput\<rparr>);
          k = new_synch_device DiskDevice (k\<lparr>disk := Disk_Disk (sectors (disk world))\<rparr>);
          k = new_device_semaphore NetworkInputDevice k in
      bindr (NetworkInput_NetworkInput (arriving (networkInput world)) (inHdr (networkInput world))
               (inbox (networkInput world)) k) (\<lambda>k.
      Inr (new_synch_device NetworkOutputDevice k)))))"

end
