(* ===== verification/Thread_Stacks.thy ===== *)
theory Thread_Stacks
  imports Threads
begin

text \<open>
  Which stacks a thread may have.  \<open>typed\<close> checks a stack against the interrupt level and the locks
  held; the weights of frames count, for each lock, device and waiting thread, the token that its
  semaphore passes around.
\<close>

section \<open>Stacks and context\<close>

text \<open>
  The objects that live as long as the kernel.  \<open>users\<close> are the semaphores that threads may use
  freely; the other semaphores belong to a lock, to a device or to one waiting thread.
\<close>

record ctx =
  users :: "nat set"
  c_locks :: "nat \<Rightarrow> nat option"
  c_conds :: "nat set"
  c_lists :: "nat \<Rightarrow> (nat \<times> nat) option"
  c_dlock :: "device \<Rightarrow> nat"
  c_dsem :: "device \<Rightarrow> nat"

definition busy_devices :: "device set" where
  "busy_devices = {DiskDevice, ConsoleOutputDevice}"

text \<open>The timer signals no semaphore: it has neither lock nor semaphore.\<close>

definition device_semaphores :: "ctx \<Rightarrow> nat set" where
  "device_semaphores \<Gamma> = c_dsem \<Gamma> ` (- {TimerDevice})"

definition statics :: "ctx \<Rightarrow> nat set" where
  "statics \<Gamma> = users \<Gamma> \<union> ran (c_locks \<Gamma>) \<union> c_dsem \<Gamma> ` busy_devices"

definition ctx_ok :: "ctx \<Rightarrow> bool" where
  "ctx_ok \<Gamma> \<longleftrightarrow>
     (\<forall>x y s. c_locks \<Gamma> x = Some s \<longrightarrow> c_locks \<Gamma> y = Some s \<longrightarrow> x = y) \<and>
     users \<Gamma> \<inter> ran (c_locks \<Gamma>) = {} \<and>
     c_dsem \<Gamma> ` busy_devices \<inter> (users \<Gamma> \<union> ran (c_locks \<Gamma>)) = {} \<and>
     c_dsem \<Gamma> DiskDevice \<noteq> c_dsem \<Gamma> ConsoleOutputDevice \<and>
     (\<forall>d. d \<notin> busy_devices \<longrightarrow> d \<noteq> TimerDevice \<longrightarrow> c_dsem \<Gamma> d \<in> users \<Gamma>) \<and>
     (\<forall>d \<in> insert ConsoleInputDevice busy_devices. c_dlock \<Gamma> d \<in> dom (c_locks \<Gamma>)) \<and>
     c_dlock \<Gamma> DiskDevice \<noteq> c_dlock \<Gamma> ConsoleOutputDevice \<and>
     c_dlock \<Gamma> ConsoleInputDevice \<notin> c_dlock \<Gamma> ` busy_devices \<and>
     (\<forall>sl x c. c_lists \<Gamma> sl = Some (x, c) \<longrightarrow>
        x \<in> dom (c_locks \<Gamma>) \<and> x \<notin> range (c_dlock \<Gamma>) \<and> c \<in> c_conds \<Gamma>)"

section \<open>Tokens\<close>

text \<open>
  A semaphore holds tokens.  A frame that will take one counts \<open>-1\<close>, a frame that will bring one
  counts \<open>1\<close>: a pending \<open>V\<close>, an \<open>Acquire\<close> whose \<open>P\<close> has to be made up for, a device request
  whose interrupt will come.
\<close>

fun w_sem :: "nat \<Rightarrow> frame \<Rightarrow> int" where
  "w_sem s (F_P s') = (if s' = s then -1 else 0)"
| "w_sem s (F_P_loop s') = (if s' = s then -1 else 0)"
| "w_sem s (F_V s') = (if s' = s then 1 else 0)"
| "w_sem s f = 0"

fun w_acq :: "nat \<Rightarrow> frame \<Rightarrow> int" where
  "w_acq x (F_Acquired y) = (if y = x then 1 else 0)"
| "w_acq x f = 0"

fun w_req :: "device \<Rightarrow> frame \<Rightarrow> int" where
  "w_req d (F_ReadRequest n) = (if d = DiskDevice then 1 else 0)"
| "w_req d (F_WriteRequest n data) = (if d = DiskDevice then 1 else 0)"
| "w_req d (F_ConsolePutChar ch) = (if d = ConsoleOutputDevice then 1 else 0)"
| "w_req d f = 0"

fun w_del :: "nat \<Rightarrow> frame \<Rightarrow> int" where
  "w_del s (F_delete_semaphore s') = (if s' = s then 1 else 0)"
| "w_del s f = 0"

definition w_lock :: "nat \<Rightarrow> nat \<Rightarrow> frame \<Rightarrow> int" where
  "w_lock x s f = w_sem s f + w_acq x f"

definition w_dev :: "device \<Rightarrow> nat \<Rightarrow> frame \<Rightarrow> int" where
  "w_dev d s f = w_sem s f + w_req d f"

lemmas w_defs = w_lock_def w_dev_def

fun mentions :: "frame \<Rightarrow> nat \<Rightarrow> bool" where
  "mentions (F_P s') s \<longleftrightarrow> s' = s"
| "mentions (F_P_loop s') s \<longleftrightarrow> s' = s"
| "mentions (F_V s') s \<longleftrightarrow> s' = s"
| "mentions (F_delete_semaphore s') s \<longleftrightarrow> s' = s"
| "mentions f s \<longleftrightarrow> False"

definition weight :: "(frame \<Rightarrow> int) \<Rightarrow> frame list \<Rightarrow> int" where
  "weight w fs = sum_list (map w fs)"

lemma weight_simps [simp]:
  "weight w [] = 0"
  "weight w (fs @ gs) = weight w fs + weight w gs"
  "weight (w_sem s) (f # fs) = w_sem s f + weight (w_sem s) fs"
  "weight (w_del s) (f # fs) = w_del s f + weight (w_del s) fs"
  "weight (w_lock x s) (f # fs) = w_sem s f + w_acq x f + weight (w_lock x s) fs"
  "weight (w_dev d s) (f # fs) = w_sem s f + w_req d f + weight (w_dev d s) fs"
  by (simp_all add: weight_def w_defs)

section \<open>Stacks\<close>

text \<open>The frames that a program is made of: calls of the public methods.\<close>

fun call_frame :: "ctx \<Rightarrow> frame \<Rightarrow> bool" where
  "call_frame \<Gamma> (F_P s) \<longleftrightarrow> s \<in> users \<Gamma>"
| "call_frame \<Gamma> (F_V s) \<longleftrightarrow> s \<in> users \<Gamma>"
| "call_frame \<Gamma> (F_Acquire x) \<longleftrightarrow> x \<notin> range (c_dlock \<Gamma>)"
| "call_frame \<Gamma> (F_P_loop s) \<longleftrightarrow> False"
| "call_frame \<Gamma> (F_Acquired x) \<longleftrightarrow> False"
| "call_frame \<Gamma> (F_delete_semaphore s) \<longleftrightarrow> False"
| "call_frame \<Gamma> (F_ReadRequest n) \<longleftrightarrow> False"
| "call_frame \<Gamma> (F_WriteRequest n d) \<longleftrightarrow> False"
| "call_frame \<Gamma> (F_ConsolePutChar c) \<longleftrightarrow> False"
| "call_frame \<Gamma> f \<longleftrightarrow> True"

text \<open>What has to follow the frame of a \<open>P\<close>, by the owner of the semaphore.\<close>

definition P_owner :: "ctx \<Rightarrow> nat set \<Rightarrow> nat \<Rightarrow> frame list \<Rightarrow> bool" where
  "P_owner \<Gamma> H s fs \<longleftrightarrow>
     s \<in> users \<Gamma> \<or>
     (\<exists>x gs. c_locks \<Gamma> x = Some s \<and> fs = F_Acquired x # gs) \<or>
     (\<exists>d gs. d \<in> busy_devices \<and> s = c_dsem \<Gamma> d \<and> c_dlock \<Gamma> d \<in> H \<and> fs = F_Release (c_dlock \<Gamma> d) # gs) \<or>
     (s \<notin> statics \<Gamma> \<and> (\<exists>x gs. fs = F_Acquire x # F_delete_semaphore s # gs))"

definition V_owner :: "ctx \<Rightarrow> nat \<Rightarrow> bool" where
  "V_owner \<Gamma> s \<longleftrightarrow> s \<in> users \<Gamma> \<or> s \<in> ran (c_locks \<Gamma>) \<or> s \<notin> statics \<Gamma>"

text \<open>A thread that is about to take the lock of a device owes the device nothing.\<close>

definition settled :: "ctx \<Rightarrow> nat \<Rightarrow> frame list \<Rightarrow> bool" where
  "settled \<Gamma> x fs \<longleftrightarrow>
     (\<forall>d \<in> busy_devices. x = c_dlock \<Gamma> d \<longrightarrow> weight (w_dev d (c_dsem \<Gamma> d)) fs = 0)"

text \<open>
  \<open>typed \<Gamma> l H fs\<close>: a thread that runs at interrupt level \<open>l\<close> and holds the locks \<open>H\<close> can run the
  stack \<open>fs\<close>.  It releases only what it holds, does not take a lock twice, waits and signals under
  the lock of the condition, and finishes holding nothing.
\<close>

function (sequential) typed :: "ctx \<Rightarrow> IntStatus \<Rightarrow> nat set \<Rightarrow> frame list \<Rightarrow> bool" where
  "typed \<Gamma> l H [] \<longleftrightarrow> False"
| "typed \<Gamma> l H (F_SetLevel l' # fs) \<longleftrightarrow> typed \<Gamma> l' H fs"
| "typed \<Gamma> l H (F_OneTick # fs) \<longleftrightarrow> typed \<Gamma> IntOn H fs"
| "typed \<Gamma> l H (F_setStatus st # fs) \<longleftrightarrow> typed \<Gamma> l H fs"
| "typed \<Gamma> l H (F_Begin # fs) \<longleftrightarrow> False"
| "typed \<Gamma> l H (F_Finish # fs) \<longleftrightarrow> H = {} \<and> fs = []"
| "typed \<Gamma> l H (F_Yield # fs) \<longleftrightarrow> typed \<Gamma> l H fs"
| "typed \<Gamma> l H (F_Fork g func # fs) \<longleftrightarrow>
     list_all (call_frame \<Gamma>) func \<and> typed \<Gamma> IntOn {} (func @ [F_Finish]) \<and> typed \<Gamma> l H fs"
| "typed \<Gamma> l H (F_Sleep_loop b # fs) \<longleftrightarrow> False"
| "typed \<Gamma> l H (F_Run_back # fs) \<longleftrightarrow> False"
| "typed \<Gamma> l H (F_P s # fs) \<longleftrightarrow> P_owner \<Gamma> H s fs \<and> typed \<Gamma> l H fs"
| "typed \<Gamma> l H (F_P_loop s # F_SetLevel l' # fs) \<longleftrightarrow> l = IntOff \<and> P_owner \<Gamma> H s fs \<and> typed \<Gamma> l' H fs"
| "typed \<Gamma> l H (F_P_loop s # fs) \<longleftrightarrow> False"
| "typed \<Gamma> l H (F_V s # fs) \<longleftrightarrow> V_owner \<Gamma> s \<and> typed \<Gamma> l H fs"
| "typed \<Gamma> l H (F_Acquire x # fs) \<longleftrightarrow>
     x \<in> dom (c_locks \<Gamma>) \<and> x \<notin> H \<and> settled \<Gamma> x fs \<and> typed \<Gamma> l (insert x H) fs"
| "typed \<Gamma> l H (F_Acquired x # fs) \<longleftrightarrow>
     x \<in> dom (c_locks \<Gamma>) \<and> x \<notin> H \<and> settled \<Gamma> x fs \<and> typed \<Gamma> l (insert x H) fs"
| "typed \<Gamma> l H (F_Release x # fs) \<longleftrightarrow> x \<in> H \<and> typed \<Gamma> l (H - {x}) fs"
| "typed \<Gamma> l H (F_Wait c x # fs) \<longleftrightarrow>
     c \<in> c_conds \<Gamma> \<and> x \<in> H \<and> x \<notin> range (c_dlock \<Gamma>) \<and> typed \<Gamma> l H fs"
| "typed \<Gamma> l H (F_delete_semaphore s # fs) \<longleftrightarrow> s \<notin> statics \<Gamma> \<and> typed \<Gamma> l H fs"
| "typed \<Gamma> l H (F_Signal c x # fs) \<longleftrightarrow> c \<in> c_conds \<Gamma> \<and> x \<in> H \<and> typed \<Gamma> l H fs"
| "typed \<Gamma> l H (F_Broadcast c x # fs) \<longleftrightarrow> c \<in> c_conds \<Gamma> \<and> x \<in> H \<and> typed \<Gamma> l H fs"
| "typed \<Gamma> l H (F_SynchAppend sl v # fs) \<longleftrightarrow>
     (\<exists>x c. c_lists \<Gamma> sl = Some (x, c) \<and> x \<notin> H) \<and> typed \<Gamma> l H fs"
| "typed \<Gamma> l H (F_ListAppend sl v # fs) \<longleftrightarrow>
     (\<exists>x c. c_lists \<Gamma> sl = Some (x, c) \<and> x \<in> H) \<and> typed \<Gamma> l H fs"
| "typed \<Gamma> l H (F_SynchRemove sl # fs) \<longleftrightarrow>
     (\<exists>x c. c_lists \<Gamma> sl = Some (x, c) \<and> x \<notin> H) \<and> typed \<Gamma> l H fs"
| "typed \<Gamma> l H (F_SynchRemove_loop sl # fs) \<longleftrightarrow>
     (\<exists>x c. c_lists \<Gamma> sl = Some (x, c) \<and> x \<in> H) \<and> typed \<Gamma> l H fs"
| "typed \<Gamma> l H (F_ASSERT_returned v # fs) \<longleftrightarrow> typed \<Gamma> l H fs"
| "typed \<Gamma> l H (F_ReadSector n # fs) \<longleftrightarrow>
     0 \<le> n \<and> n < int NumSectors \<and> c_dlock \<Gamma> DiskDevice \<notin> H \<and> typed \<Gamma> l H fs"
| "typed \<Gamma> l H (F_WriteSector n data # fs) \<longleftrightarrow>
     0 \<le> n \<and> n < int NumSectors \<and> length data = SectorSize \<and> c_dlock \<Gamma> DiskDevice \<notin> H \<and> typed \<Gamma> l H fs"
| "typed \<Gamma> l H (F_ReadRequest n # fs) \<longleftrightarrow>
     0 \<le> n \<and> n < int NumSectors \<and> c_dlock \<Gamma> DiskDevice \<in> H \<and>
     (\<exists>gs. fs = F_P (c_dsem \<Gamma> DiskDevice) # gs) \<and> typed \<Gamma> l H fs"
| "typed \<Gamma> l H (F_WriteRequest n data # fs) \<longleftrightarrow>
     0 \<le> n \<and> n < int NumSectors \<and> length data = SectorSize \<and> c_dlock \<Gamma> DiskDevice \<in> H \<and>
     (\<exists>gs. fs = F_P (c_dsem \<Gamma> DiskDevice) # gs) \<and> typed \<Gamma> l H fs"
| "typed \<Gamma> l H (F_PutChar ch # fs) \<longleftrightarrow> c_dlock \<Gamma> ConsoleOutputDevice \<notin> H \<and> typed \<Gamma> l H fs"
| "typed \<Gamma> l H (F_ConsolePutChar ch # fs) \<longleftrightarrow>
     c_dlock \<Gamma> ConsoleOutputDevice \<in> H \<and> (\<exists>gs. fs = F_P (c_dsem \<Gamma> ConsoleOutputDevice) # gs) \<and> typed \<Gamma> l H fs"
| "typed \<Gamma> l H (F_GetChar # fs) \<longleftrightarrow> c_dlock \<Gamma> ConsoleInputDevice \<notin> H \<and> typed \<Gamma> l H fs"
| "typed \<Gamma> l H (F_ConsoleGetChar # fs) \<longleftrightarrow> typed \<Gamma> l H fs"
  by pat_completeness auto
termination by (relation "measure (\<lambda>(\<Gamma>, l, H, fs). size_list size fs)") (auto simp: size_list_append)

lemmas typed_elims = typed.elims(2)

text \<open>A program has no token under way.\<close>

lemma call_frame_weights:
  assumes "call_frame \<Gamma> f"
  shows "s \<notin> users \<Gamma> \<Longrightarrow> w_sem s f = 0" "w_acq x f = 0" "w_req d f = 0" "w_del s f = 0"
    "s \<notin> users \<Gamma> \<Longrightarrow> \<not> mentions f s"
  using assms by (cases f; auto)+

lemma call_frames_weight:
  assumes "list_all (call_frame \<Gamma>) fs"
  shows "s \<notin> users \<Gamma> \<Longrightarrow> weight (w_sem s) fs = 0" "s \<notin> users \<Gamma> \<Longrightarrow> weight (w_lock x s) fs = 0"
    "s \<notin> users \<Gamma> \<Longrightarrow> weight (w_dev d s) fs = 0" "weight (w_del s) fs = 0"
    "s \<notin> users \<Gamma> \<Longrightarrow> f \<in> set fs \<Longrightarrow> \<not> mentions f s"
  using assms by (induction fs) (auto simp: call_frame_weights)

text \<open>The three kinds of owned semaphores are disjoint.\<close>

lemma lock_semaphore_owner:
  assumes "ctx_ok \<Gamma>" "c_locks \<Gamma> x = Some s"
  shows "s \<notin> users \<Gamma>" "s \<in> statics \<Gamma>" "d \<in> busy_devices \<Longrightarrow> s \<noteq> c_dsem \<Gamma> d"
    "c_locks \<Gamma> y = Some s \<Longrightarrow> y = x"
  using assms ranI [of "c_locks \<Gamma>" x s] unfolding ctx_ok_def statics_def by blast+

lemma dev_semaphore_owner:
  assumes "ctx_ok \<Gamma>" "d \<in> busy_devices"
  shows "c_dsem \<Gamma> d \<notin> users \<Gamma>" "c_dsem \<Gamma> d \<in> statics \<Gamma>" "c_locks \<Gamma> x \<noteq> Some (c_dsem \<Gamma> d)"
    "d' \<in> busy_devices \<Longrightarrow> c_dsem \<Gamma> d' = c_dsem \<Gamma> d \<Longrightarrow> d' = d"
  using assms lock_semaphore_owner(3) [OF assms(1) _ assms(2)]
  unfolding ctx_ok_def statics_def busy_devices_def by auto

lemma waiter_owner:
  assumes "s \<notin> statics \<Gamma>"
  shows "s \<notin> users \<Gamma>" "c_locks \<Gamma> x \<noteq> Some s" "d \<in> busy_devices \<Longrightarrow> s \<noteq> c_dsem \<Gamma> d"
  using assms ranI [of "c_locks \<Gamma>" x s] unfolding statics_def by auto

lemma P_owner_lock:
  "ctx_ok \<Gamma> \<Longrightarrow> c_locks \<Gamma> x = Some s \<Longrightarrow> P_owner \<Gamma> H s fs \<Longrightarrow> \<exists>gs. fs = F_Acquired x # gs"
  unfolding P_owner_def using lock_semaphore_owner by metis

lemma P_owner_dev:
  "ctx_ok \<Gamma> \<Longrightarrow> d \<in> busy_devices \<Longrightarrow> P_owner \<Gamma> H (c_dsem \<Gamma> d) fs \<Longrightarrow>
    c_dlock \<Gamma> d \<in> H \<and> (\<exists>gs. fs = F_Release (c_dlock \<Gamma> d) # gs)"
  unfolding P_owner_def using dev_semaphore_owner by metis

lemma P_owner_waiter:
  "s \<notin> statics \<Gamma> \<Longrightarrow> P_owner \<Gamma> H s fs \<Longrightarrow> \<exists>x gs. fs = F_Acquire x # F_delete_semaphore s # gs"
  unfolding P_owner_def using waiter_owner by metis

lemma V_owner_dev: "ctx_ok \<Gamma> \<Longrightarrow> d \<in> busy_devices \<Longrightarrow> V_owner \<Gamma> s \<Longrightarrow> s \<noteq> c_dsem \<Gamma> d"
  unfolding V_owner_def using dev_semaphore_owner by (auto simp: ran_def)

text \<open>A stack never owes a token of a lock.\<close>

lemma typed_w_lock':
  assumes "typed \<Gamma> l H fs" "ctx_ok \<Gamma>" "c_locks \<Gamma> x = Some s"
  shows "0 \<le> weight (w_lock x s) fs \<and> (\<forall>gs. fs = F_Acquired x # gs \<longrightarrow> 0 \<le> weight (w_lock x s) gs)"
  using assms
proof (induction \<Gamma> l H fs rule: typed.induct)
  case (11 \<Gamma> l H s' fs)
  then show ?case using P_owner_lock [of \<Gamma> x s H fs] by auto
next
  case (12 \<Gamma> l H s' l' fs)
  then show ?case using P_owner_lock [of \<Gamma> x s H fs] by auto
qed auto

lemma typed_w_lock: "typed \<Gamma> l H fs \<Longrightarrow> ctx_ok \<Gamma> \<Longrightarrow> c_locks \<Gamma> x = Some s \<Longrightarrow> 0 \<le> weight (w_lock x s) fs"
  using typed_w_lock' by blast

lemma settledD:
  "settled \<Gamma> (c_dlock \<Gamma> d) fs \<Longrightarrow> d \<in> busy_devices \<Longrightarrow> weight (w_dev d (c_dsem \<Gamma> d)) fs = 0"
  by (simp add: settled_def)

text \<open>A stack owes a device at most the one interrupt it waits for, and only under the lock of the device.\<close>

lemma typed_w_dev':
  assumes "typed \<Gamma> l H fs" "ctx_ok \<Gamma>" "d \<in> busy_devices"
  shows "(weight (w_dev d (c_dsem \<Gamma> d)) fs = 0 \<or>
      weight (w_dev d (c_dsem \<Gamma> d)) fs = -1 \<and> c_dlock \<Gamma> d \<in> H) \<and>
    (\<forall>gs. fs = F_Release (c_dlock \<Gamma> d) # gs \<longrightarrow> weight (w_dev d (c_dsem \<Gamma> d)) fs = 0) \<and>
    (\<forall>gs. fs = F_P (c_dsem \<Gamma> d) # gs \<longrightarrow> weight (w_dev d (c_dsem \<Gamma> d)) fs = -1)"
  using assms
proof (induction \<Gamma> l H fs rule: typed.induct)
  case (11 \<Gamma> l H s' fs)
  then show ?case using P_owner_dev [of \<Gamma> d H fs] by auto
next
  case (12 \<Gamma> l H s' l' fs)
  then show ?case using P_owner_dev [of \<Gamma> d H fs] by auto
next
  case (14 \<Gamma> l H s' fs)
  then show ?case using V_owner_dev [of \<Gamma> d s'] by auto
next
  case (15 \<Gamma> l H x fs)
  then show ?case using settledD [of \<Gamma> d fs] by auto
next
  case (16 \<Gamma> l H x fs)
  then show ?case using settledD [of \<Gamma> d fs] by auto
next
  case (17 \<Gamma> l H x fs)
  then show ?case by (cases "x = c_dlock \<Gamma> d") auto
next
  case (29 \<Gamma> l H n fs)
  then show ?case by (cases "d = DiskDevice") auto
next
  case (30 \<Gamma> l H n data fs)
  then show ?case by (cases "d = DiskDevice") auto
next
  case (32 \<Gamma> l H ch fs)
  then show ?case by (cases "d = ConsoleOutputDevice") auto
qed simp_all

lemma typed_w_dev:
  "typed \<Gamma> l H fs \<Longrightarrow> ctx_ok \<Gamma> \<Longrightarrow> d \<in> busy_devices \<Longrightarrow>
    weight (w_dev d (c_dsem \<Gamma> d)) fs = 0 \<or> weight (w_dev d (c_dsem \<Gamma> d)) fs = -1 \<and> c_dlock \<Gamma> d \<in> H"
  using typed_w_dev' by blast

lemma typed_w_dev_free:
  "typed \<Gamma> l H fs \<Longrightarrow> ctx_ok \<Gamma> \<Longrightarrow> x \<notin> H \<Longrightarrow> settled \<Gamma> x fs"
  unfolding settled_def using typed_w_dev by blast

lemma typed_request:
  "typed \<Gamma> l H (F_P (c_dsem \<Gamma> d) # gs) \<Longrightarrow> ctx_ok \<Gamma> \<Longrightarrow> d \<in> busy_devices \<Longrightarrow>
    weight (w_dev d (c_dsem \<Gamma> d)) (F_P (c_dsem \<Gamma> d) # gs) = -1"
  using typed_w_dev' by blast

lemma weight_del_nonneg: "0 \<le> weight (w_del s) fs"
proof (induction fs)
  case (Cons f fs)
  then show ?case by (cases f) auto
qed simp

text \<open>The semaphore of a waiting thread is mentioned only as long as its deletion is still to come,
  except by the thread that signals it.\<close>

lemma typed_waiter:
  assumes "typed \<Gamma> l H fs" "ctx_ok \<Gamma>" "s \<notin> statics \<Gamma>"
  shows "weight (w_del s) fs = 0 \<longrightarrow> 0 \<le> weight (w_sem s) fs \<and>
      (weight (w_sem s) fs = 0 \<longrightarrow> (\<forall>f \<in> set fs. \<not> mentions f s))"
  using assms
proof (induction \<Gamma> l H fs rule: typed.induct)
  case (11 \<Gamma> l H s' fs)
  then show ?case using P_owner_waiter [of s \<Gamma> H fs] weight_del_nonneg [of s "tl (tl fs)"] by auto
next
  case (12 \<Gamma> l H s' l' fs)
  then show ?case using P_owner_waiter [of s \<Gamma> H fs] weight_del_nonneg [of s "tl (tl fs)"] by auto
next
  case (19 \<Gamma> l H s' fs)
  then show ?case using weight_del_nonneg [of s fs] by auto
qed auto

end
