(* ===== verification/Threads_Inv.thy ===== *)
theory Threads_Inv
  imports Thread_Stacks
begin

text \<open>
  The invariant of the thread system: how the lists of the scheduler and of the semaphores agree
  with the state of each thread (\<open>sched_ok\<close>), where the token of each lock, device and waiting thread
  is (\<open>tokens_ok\<close>), and which stack each thread has (\<open>thread_ok\<close>).
\<close>

section \<open>The invariant\<close>

definition fr :: "kernel \<Rightarrow> tid \<Rightarrow> frame list" where
  "fr k t = (case threads k t of None \<Rightarrow> [] | Some th \<Rightarrow> frames th)"

definition st :: "kernel \<Rightarrow> tid \<Rightarrow> ThreadStatus option" where
  "st k t = map_option status (threads k t)"

definition frame_total :: "(frame \<Rightarrow> int) \<Rightarrow> kernel \<Rightarrow> int" where
  "frame_total w k = (\<Sum>t < next_object k. weight w (fr k t))"

definition held :: "kernel \<Rightarrow> tid \<Rightarrow> nat set" where
  "held k t = {x. \<exists>lk. locks k x = Some lk \<and> lockHolder lk = Some t}"

text \<open>The semaphore that a sleeping thread sleeps on.\<close>

fun waits_for :: "frame list \<Rightarrow> nat option" where
  "waits_for (F_P_loop s # fs) = Some s"
| "waits_for (F_Run_back # F_P_loop s # fs) = Some s"
| "waits_for (F_Sleep_loop False # F_P_loop s # fs) = Some s"
| "waits_for fs = None"

definition finished :: "frame list \<Rightarrow> bool" where
  "finished fs \<longleftrightarrow> fs = [] \<or> fs = [F_Sleep_loop True] \<or> fs = [F_Run_back]"

definition matches :: "ctx \<Rightarrow> kernel \<Rightarrow> bool" where
  "matches \<Gamma> k \<longleftrightarrow>
     (\<forall>x. c_locks \<Gamma> x = map_option lock_semaphore (locks k x)) \<and>
     c_conds \<Gamma> = dom (conditions k) \<and>
     (\<forall>sl. c_lists \<Gamma> sl = map_option (\<lambda>l. (sl_lock l, sl_listEmpty l)) (synch_lists k sl)) \<and>
     c_dlock \<Gamma> = device_lock k \<and> c_dsem \<Gamma> = device_semaphore k \<and>
     (\<forall>s \<in> statics \<Gamma>. semaphores k s \<noteq> None)"

definition sleeps_in :: "kernel \<Rightarrow> tid \<Rightarrow> nat \<Rightarrow> bool" where
  "sleeps_in k t s \<longleftrightarrow> (\<exists>sem. semaphores k s = Some sem \<and> t \<in> set (queue sem))"

definition ids_ok :: "kernel \<Rightarrow> bool" where
  "ids_ok k \<longleftrightarrow>
     (\<forall>t. threads k t \<noteq> None \<longrightarrow> t < next_object k) \<and> (\<forall>s. semaphores k s \<noteq> None \<longrightarrow> s < next_object k)"

definition ready_ok :: "kernel \<Rightarrow> bool" where
  "ready_ok k \<longleftrightarrow>
     distinct (readyList k) \<and>
     (\<forall>t. t \<in> set (readyList k) \<longleftrightarrow> st k t = Some READY)"

definition queues_ok :: "kernel \<Rightarrow> bool" where
  "queues_ok k \<longleftrightarrow>
     (\<forall>s sem. semaphores k s = Some sem \<longrightarrow> 0 \<le> sem_value sem \<and> distinct (queue sem)) \<and>
     (\<forall>t s. sleeps_in k t s \<longrightarrow>
        st k t = Some BLOCKED \<and> waits_for (fr k t) = Some s)"

definition blocked_ok :: "kernel \<Rightarrow> bool" where
  "blocked_ok k \<longleftrightarrow>
     (\<forall>t. st k t = Some BLOCKED \<longrightarrow>
        finished (fr k t) \<or> (\<exists>s. waits_for (fr k t) = Some s \<and> sleeps_in k t s))"

definition sched_ok :: "kernel \<Rightarrow> bool" where
  "sched_ok k \<longleftrightarrow> ids_ok k \<and> ready_ok k \<and> queues_ok k \<and> blocked_ok k"

lemmas sched_defs = sched_ok_def ids_ok_def ready_ok_def queues_ok_def blocked_ok_def

definition queued :: "kernel \<Rightarrow> nat \<Rightarrow> bool" where
  "queued k s \<longleftrightarrow> (\<exists>c cond. conditions k c = Some cond \<and> s \<in> set (waitQueue cond))"

definition lock_tokens :: "ctx \<Rightarrow> kernel \<Rightarrow> bool" where
  "lock_tokens \<Gamma> k \<longleftrightarrow>
     (\<forall>x lk sem. locks k x = Some lk \<longrightarrow> semaphores k (lock_semaphore lk) = Some sem \<longrightarrow>
        sem_value sem + (if lockHolder lk = None then 0 else 1) + frame_total (w_lock x (lock_semaphore lk)) k = 1)"

definition dev_busy :: "bool \<Rightarrow> bool \<Rightarrow> device \<Rightarrow> int" where
  "dev_busy a p d = (if d = DiskDevice \<and> a \<or> d = ConsoleOutputDevice \<and> p then 1 else 0)"

definition dev_tokens :: "ctx \<Rightarrow> bool \<Rightarrow> bool \<Rightarrow> kernel \<Rightarrow> bool" where
  "dev_tokens \<Gamma> a p k \<longleftrightarrow>
     (\<forall>d \<in> busy_devices. \<forall>sem. semaphores k (c_dsem \<Gamma> d) = Some sem \<longrightarrow>
        sem_value sem + dev_busy a p d + frame_total (w_dev d (c_dsem \<Gamma> d)) k = 0)"

definition waiter_tokens :: "ctx \<Rightarrow> kernel \<Rightarrow> bool" where
  "waiter_tokens \<Gamma> k \<longleftrightarrow>
     (\<forall>s sem. s \<notin> statics \<Gamma> \<longrightarrow> semaphores k s = Some sem \<longrightarrow>
        sem_value sem + (if queued k s then 1 else 0) + frame_total (w_sem s) k = 0 \<and> frame_total (w_del s) k = 1) \<and>
     (\<forall>t f s. f \<in> set (fr k t) \<longrightarrow> mentions f s \<longrightarrow> s \<notin> statics \<Gamma> \<longrightarrow> semaphores k s \<noteq> None) \<and>
     (\<forall>c cond. conditions k c = Some cond \<longrightarrow> distinct (waitQueue cond) \<and>
        (\<forall>s \<in> set (waitQueue cond). s \<notin> statics \<Gamma> \<and> semaphores k s \<noteq> None \<and>
           (\<forall>c' cond'. conditions k c' = Some cond' \<longrightarrow> s \<in> set (waitQueue cond') \<longrightarrow> c' = c)))"

definition thread_ok :: "ctx \<Rightarrow> kernel \<Rightarrow> tid \<Rightarrow> thread \<Rightarrow> bool" where
  "thread_ok \<Gamma> k t th \<longleftrightarrow>
     (let H = held k t; cur = (t = currentThread k) in
      (stack th = None \<or> stack th = Some STACK_FENCEPOST) \<and>
      (case frames th of
         F_Begin # fs \<Rightarrow>
           H = {} \<and> (if cur then level k = IntOff \<and> status th = RUNNING else status th = READY) \<and>
           typed \<Gamma> IntOn {} fs
       | F_Run_back # fs \<Rightarrow>
           (if cur then level k = IntOff \<and> status th = RUNNING else status th \<in> {READY, BLOCKED}) \<and>
           (if fs = [] then toBeDestroyed k = Some t \<and> \<not> cur \<and> status th = BLOCKED \<and> H = {}
            else typed \<Gamma> IntOff H fs)
       | F_Sleep_loop finishing # fs \<Rightarrow>
           cur \<and> level k = IntOff \<and> toBeDestroyed k = None \<and> status th \<in> {READY, BLOCKED} \<and>
           (if finishing then fs = [] \<and> status th = BLOCKED \<and> H = {}
            else waits_for fs \<noteq> None \<and> typed \<Gamma> IntOff H fs)
       | fs \<Rightarrow> cur \<and> status th = RUNNING \<and> toBeDestroyed k = None \<and> typed \<Gamma> (level k) H fs))"

text \<open>Only threads that exist hold locks.\<close>

definition holders_ok :: "kernel \<Rightarrow> bool" where
  "holders_ok k \<longleftrightarrow> (\<forall>t. held k t \<noteq> {} \<longrightarrow> threads k t \<noteq> None)"

definition user_regs_ok :: "thread \<Rightarrow> bool" where
  "user_regs_ok th \<longleftrightarrow>
     (space th \<noteq> None \<longrightarrow>
        length (userRegisters th) = NumTotalRegs \<and> userRegisters th ! 0 = 0 \<and> userRegisters th ! LoadReg < 32)"

definition Inv :: "ctx \<Rightarrow> kernel \<Rightarrow> bool" where
  "Inv \<Gamma> k \<longleftrightarrow>
     devices_ok k \<and> \<not> inHandler k \<and> kmachine k \<noteq> None \<and> ctx_ok \<Gamma> \<and> matches \<Gamma> k \<and> sched_ok k \<and>
     lock_tokens \<Gamma> k \<and> dev_tokens \<Gamma> (active (disk k)) (putBusy (consoleOutput k)) k \<and> waiter_tokens \<Gamma> k \<and>
     holders_ok k \<and> threads k (currentThread k) \<noteq> None \<and>
     (\<forall>t th. threads k t = Some th \<longrightarrow> thread_ok \<Gamma> k t th \<and> user_regs_ok th) \<and>
     (\<forall>t. toBeDestroyed k = Some t \<longrightarrow> t \<noteq> currentThread k \<and> fr k t = [F_Run_back])"

lemma sched_sleeps: "sched_ok k \<Longrightarrow> sleeps_in k t s \<Longrightarrow> st k t = Some BLOCKED \<and> waits_for (fr k t) = Some s"
  by (simp only: sched_ok_def queues_ok_def)

lemma sched_blocked: "sched_ok k \<Longrightarrow> st k t = Some BLOCKED \<Longrightarrow>
    finished (fr k t) \<or> (\<exists>s. waits_for (fr k t) = Some s \<and> sleeps_in k t s)"
  by (simp only: sched_ok_def blocked_ok_def)

lemma sched_ready: "sched_ok k \<Longrightarrow> t \<in> set (readyList k) \<longleftrightarrow> st k t = Some READY" "sched_ok k \<Longrightarrow> distinct (readyList k)"
  by (simp_all only: sched_ok_def ready_ok_def)

lemma sched_sem: "sched_ok k \<Longrightarrow> semaphores k s = Some sem \<Longrightarrow> 0 \<le> sem_value sem \<and> distinct (queue sem)"
  by (simp only: sched_ok_def queues_ok_def)

lemma sched_ids: "sched_ok k \<Longrightarrow> threads k t = Some th \<Longrightarrow> t < next_object k"
  "sched_ok k \<Longrightarrow> semaphores k s = Some sem \<Longrightarrow> s < next_object k"
  unfolding sched_ok_def ids_ok_def by blast+

section \<open>Sums over the threads\<close>

lemma fr_simps: "threads k t = Some th \<Longrightarrow> fr k t = frames th"
  "threads k t = None \<Longrightarrow> fr k t = []"
  by (simp_all add: fr_def)

lemma st_simps: "threads k t = Some th \<Longrightarrow> st k t = Some (status th)"
  "threads k t = None \<Longrightarrow> st k t = None"
  by (simp_all add: st_def)

lemma st_Some: "st k t = Some x \<Longrightarrow> \<exists>th. threads k t = Some th \<and> status th = x \<and> fr k t = frames th"
  by (auto simp: st_def fr_def)

lemma total_cong:
  "next_object k' = next_object k \<Longrightarrow> (\<And>t. fr k' t = fr k t) \<Longrightarrow> frame_total w k' = frame_total w k"
  by (simp add: frame_total_def)

lemma total_update:
  assumes "next_object k' = next_object k" "t < next_object k" "\<And>u. u \<noteq> t \<Longrightarrow> fr k' u = fr k u"
  shows "frame_total w k' = frame_total w k - weight w (fr k t) + weight w (fr k' t)"
proof -
  have "(\<Sum>u \<in> {..<next_object k} - {t}. weight w (fr k' u)) = (\<Sum>u \<in> {..<next_object k} - {t}. weight w (fr k u))"
    by (rule sum.cong) (simp_all add: assms(3))
  moreover have "(\<Sum>u < next_object k. weight w (fr k' u)) =
      weight w (fr k' t) + (\<Sum>u \<in> {..<next_object k} - {t}. weight w (fr k' u))"
    and "(\<Sum>u < next_object k. weight w (fr k u)) =
      weight w (fr k t) + (\<Sum>u \<in> {..<next_object k} - {t}. weight w (fr k u))"
    using assms(2) by (simp_all add: sum.remove)
  ultimately show ?thesis by (simp add: frame_total_def assms(1))
qed

text \<open>All terms but one are bounded below, so the sum bounds that one.\<close>

lemma total_split:
  assumes "t < next_object k" "\<And>u. u \<noteq> t \<Longrightarrow> 0 \<le> weight w (fr k u)"
  shows "weight w (fr k t) \<le> frame_total w k"
proof -
  have "0 \<le> (\<Sum>u \<in> {..<next_object k} - {t}. weight w (fr k u))"
    by (rule sum_nonneg) (simp add: assms(2))
  then show ?thesis using assms(1) by (simp add: frame_total_def sum.remove)
qed

section \<open>Waking a thread\<close>

text \<open>What \<open>V\<close> does to the scheduler and the semaphore.\<close>

definition V_effect :: "nat \<Rightarrow> semaphore \<Rightarrow> kernel \<Rightarrow> kernel" where
  "V_effect s sem k =
     (case queue sem of
        [] \<Rightarrow> put_semaphore s (sem\<lparr>sem_value := sem_value sem + 1\<rparr>) k
      | t # q \<Rightarrow>
          put_semaphore s (sem\<lparr>queue := q, sem_value := sem_value sem + 1\<rparr>)
            (put_thread t ((the (threads k t))\<lparr>status := READY\<rparr>) (k\<lparr>readyList := readyList k @ [t]\<rparr>)))"

lemma sched_ok_queue:
  assumes "sched_ok k" "semaphores k s = Some sem" "t \<in> set (queue sem)"
  obtains th where "threads k t = Some th" "status th = BLOCKED" "waits_for (frames th) = Some s"
    "t \<notin> set (readyList k)"
proof -
  have "sleeps_in k t s" using assms(2,3) by (auto simp: sleeps_in_def)
  then have t: "st k t = Some BLOCKED" "waits_for (fr k t) = Some s"
    using assms(1) by (simp_all add: sched_defs)
  then obtain th where "threads k t = Some th" "status th = BLOCKED" using st_Some by blast
  moreover have "t \<notin> set (readyList k)" using assms(1) t by (simp add: sched_defs)
  ultimately show ?thesis using t(2) by (intro that) (simp_all add: fr_simps)
qed

lemma Semaphore_V_ok:
  assumes "sched_ok k" "semaphores k s = Some sem"
  shows "Semaphore_V s k = Inr (level k, V_effect s sem (k\<lparr>level := IntOff\<rparr>))"
proof (cases "queue sem")
  case Nil
  then show ?thesis using assms(2) by (simp add: Semaphore_V_def V_effect_def Let_def)
next
  case (Cons t q)
  then obtain th where "threads k t = Some th" "t \<notin> set (readyList k)"
    using sched_ok_queue [OF assms] by (metis list.set_intros(1))
  with Cons assms(2) show ?thesis
    by (simp add: Semaphore_V_def V_effect_def ReadyToRun_def setStatus_def put_semaphore_def put_thread_def
        seq_remove_front_def seq_append_def Let_def)
qed

lemma V_effect_fields [simp]:
  "currentThread (V_effect s sem k) = currentThread k"
  "toBeDestroyed (V_effect s sem k) = toBeDestroyed k"
  "locks (V_effect s sem k) = locks k"
  "conditions (V_effect s sem k) = conditions k"
  "synch_lists (V_effect s sem k) = synch_lists k"
  "next_object (V_effect s sem k) = next_object k"
  "device_semaphore (V_effect s sem k) = device_semaphore k"
  "device_lock (V_effect s sem k) = device_lock k"
  "halted (V_effect s sem k) = halted k"
  "level (V_effect s sem k) = level k"
  by (simp_all add: V_effect_def put_semaphore_def put_thread_def split: list.split)

lemma V_effect_semaphores:
  "semaphores (V_effect s sem k) =
     (semaphores k)(s \<mapsto> sem\<lparr>sem_value := sem_value sem + 1, queue := tl (queue sem)\<rparr>)"
proof (cases "queue sem")
  case Nil
  then show ?thesis by (intro ext) (simp add: V_effect_def put_semaphore_def)
qed (intro ext, simp add: V_effect_def put_semaphore_def put_thread_def)

lemma V_effect_more: "V_effect s sem k = k\<lparr>devices.more := devices.more (V_effect s sem k)\<rparr>"
  by (cases k) (simp add: V_effect_def put_semaphore_def put_thread_def split: list.split)

text \<open>A wake-up changes nothing of a thread but its status, from \<open>BLOCKED\<close> to \<open>READY\<close>.\<close>

definition woken :: "thread option \<Rightarrow> thread option \<Rightarrow> bool" where
  "woken x y \<longleftrightarrow> y = x \<or>
     (\<exists>th. x = Some th \<and> status th = BLOCKED \<and> waits_for (frames th) \<noteq> None \<and>
        y = Some (th\<lparr>status := READY\<rparr>))"

lemma V_effect_threads:
  assumes "sched_ok k" "semaphores k s = Some sem"
  shows "woken (threads k t) (threads (V_effect s sem k) t)"
proof (cases "queue sem")
  case (Cons u q)
  then obtain th where "threads k u = Some th" "status th = BLOCKED" "waits_for (frames th) = Some s"
    using sched_ok_queue [OF assms] by (metis list.set_intros(1))
  with Cons show ?thesis by (simp add: V_effect_def put_semaphore_def put_thread_def woken_def)
qed (simp add: V_effect_def put_semaphore_def woken_def)

lemma woken_fr: "(\<And>t. woken (threads k t) (threads k' t)) \<Longrightarrow> fr k' t = fr k t"
  unfolding woken_def fr_def by (metis (no_types, lifting) option.simps(5) thread.select_convs(2)
      thread.surjective thread.update_convs(1))

lemma V_effect_fr: "sched_ok k \<Longrightarrow> semaphores k s = Some sem \<Longrightarrow> fr (V_effect s sem k) t = fr k t"
  by (rule woken_fr) (rule V_effect_threads)

lemma V_effect_status:
  assumes "sched_ok k" "semaphores k s = Some sem"
  shows "st (V_effect s sem k) t =
    (if queue sem \<noteq> [] \<and> t = hd (queue sem) then Some READY else st k t)"
    and "readyList (V_effect s sem k) = readyList k @ take 1 (queue sem)"
proof -
  have "threads k (hd (queue sem)) \<noteq> None" if "queue sem \<noteq> []"
    by (rule sched_ok_queue [OF assms, of "hd (queue sem)", OF hd_in_set [OF that]]) simp
  then show "st (V_effect s sem k) t =
    (if queue sem \<noteq> [] \<and> t = hd (queue sem) then Some READY else st k t)"
    by (auto simp: V_effect_def put_semaphore_def put_thread_def st_def split: list.split)
  show "readyList (V_effect s sem k) = readyList k @ take 1 (queue sem)"
    by (simp add: V_effect_def put_semaphore_def put_thread_def split: list.split)
qed

lemma V_effect_sleeps:
  assumes "semaphores k s = Some sem" "distinct (queue sem)"
  shows "sleeps_in (V_effect s sem k) t s' \<longleftrightarrow>
    sleeps_in k t s' \<and> \<not> (s' = s \<and> queue sem \<noteq> [] \<and> t = hd (queue sem))"
  using assms by (cases "queue sem") (auto simp: sleeps_in_def V_effect_semaphores)

lemma V_effect_sched:
  assumes "sched_ok k" "semaphores k s = Some sem"
  shows "sched_ok (V_effect s sem k)"
proof -
  let ?k = "V_effect s sem k" and ?t = "hd (queue sem)"
  note st = V_effect_status [OF assms] and fr = V_effect_fr [OF assms]
  have q: "distinct (queue sem)" "0 \<le> sem_value sem" using assms by (simp_all add: sched_defs)
  note sl = V_effect_sleeps [OF assms(2) q(1)]
  have first: "?t \<notin> set (readyList k)" "waits_for (fr k ?t) = Some s" "st k ?t = Some BLOCKED"
      if ne: "queue sem \<noteq> []"
  proof -
    obtain th where th: "threads k ?t = Some th" "status th = BLOCKED" "waits_for (frames th) = Some s"
        "?t \<notin> set (readyList k)"
      by (rule sched_ok_queue [OF assms hd_in_set [OF ne]])
    then show "?t \<notin> set (readyList k)" "waits_for (fr k ?t) = Some s" "st k ?t = Some BLOCKED"
      by (simp_all add: fr_simps st_simps)
  qed
  have "ids_ok ?k"
  proof -
    have "threads ?k t \<noteq> None \<longleftrightarrow> threads k t \<noteq> None" for t
      using V_effect_threads [OF assms, of t] unfolding woken_def by (metis option.distinct(1))
    moreover have "semaphores ?k s' \<noteq> None \<longleftrightarrow> semaphores k s' \<noteq> None" for s'
      using assms(2) by (simp add: V_effect_semaphores)
    ultimately show ?thesis using assms(1) by (simp add: sched_ok_def ids_ok_def)
  qed
  moreover have "ready_ok ?k"
  proof -
    have r: "distinct (readyList k)" "\<And>t. t \<in> set (readyList k) \<longleftrightarrow> st k t = Some READY"
      using assms(1) by (simp_all add: sched_ok_def ready_ok_def)
    show ?thesis
      unfolding ready_ok_def st using r first(1) by (cases "queue sem") auto
  qed
  moreover have "queues_ok ?k"
    unfolding queues_ok_def st fr sl
  proof (intro conjI allI impI)
    fix s' sem' assume "semaphores ?k s' = Some sem'"
    with assms q show "0 \<le> sem_value sem'" "distinct (queue sem')"
      by (auto simp: V_effect_semaphores sched_defs distinct_tl split: if_splits)
  next
    fix t s' assume a: "sleeps_in k t s' \<and> \<not> (s' = s \<and> queue sem \<noteq> [] \<and> t = ?t)"
    then have b: "st k t = Some BLOCKED" "waits_for (fr k t) = Some s'"
      using sched_sleeps [OF assms(1)] by blast+
    with a first(2) show "(if queue sem \<noteq> [] \<and> t = ?t then Some READY else st k t) = Some BLOCKED"
      by auto
    show "waits_for (fr k t) = Some s'" by (rule b)
  qed
  moreover have "blocked_ok ?k"
    unfolding blocked_ok_def st fr sl
  proof (intro allI impI)
    fix t assume "(if queue sem \<noteq> [] \<and> t = ?t then Some READY else st k t) = Some BLOCKED"
    then have ne: "\<not> (queue sem \<noteq> [] \<and> t = ?t)" and "st k t = Some BLOCKED"
      by (auto split: if_splits)
    then have "finished (fr k t) \<or> (\<exists>s. waits_for (fr k t) = Some s \<and> sleeps_in k t s)"
      by (intro sched_blocked [OF assms(1)])
    with ne show "finished (fr k t) \<or> (\<exists>s'. waits_for (fr k t) = Some s' \<and> sleeps_in k t s' \<and>
        \<not> (s' = s \<and> queue sem \<noteq> [] \<and> t = ?t))" by blast
  qed
  ultimately show ?thesis by (simp add: sched_ok_def)
qed

end
