(* ===== verification/Kernel_Interrupts.thy ===== *)
theory Kernel_Interrupts
  imports Threads_Inv
begin

text \<open>
  The interrupts of the running kernel.  The software above the devices is the \<open>V\<close> of the
  synchronized devices; it meets the contract \<open>device_software\<close>, so the clock, the queue of pending
  interrupts and the handlers work together without a fault.  What an interrupt may do to the
  threads is to wake some of them (\<open>disturbed\<close>).
\<close>

section \<open>What an interrupt changes\<close>

lemma woken_refl [simp]: "woken x x"
  by (simp add: woken_def)

lemma woken_trans: "woken x y \<Longrightarrow> woken y z \<Longrightarrow> woken x z"
  unfolding woken_def by auto

definition disturbed :: "ctx \<Rightarrow> kernel \<Rightarrow> kernel \<Rightarrow> bool" where
  "disturbed \<Gamma> k0 k \<longleftrightarrow>
     currentThread k = currentThread k0 \<and> toBeDestroyed k = toBeDestroyed k0 \<and> locks k = locks k0 \<and>
     conditions k = conditions k0 \<and> synch_lists k = synch_lists k0 \<and> next_object k = next_object k0 \<and>
     device_semaphore k = device_semaphore k0 \<and> device_lock k = device_lock k0 \<and> halted k = halted k0 \<and>
     (\<forall>t. woken (threads k0 t) (threads k t)) \<and>
     (\<forall>s. s \<notin> device_semaphores \<Gamma> \<longrightarrow> semaphores k s = semaphores k0 s) \<and>
     (\<forall>s. semaphores k s = None \<longleftrightarrow> semaphores k0 s = None)"

definition K :: "ctx \<Rightarrow> kernel \<Rightarrow> bool \<Rightarrow> bool \<Rightarrow> kernel \<Rightarrow> bool" where
  "K \<Gamma> k0 a p k \<longleftrightarrow>
     ctx_ok \<Gamma> \<and> matches \<Gamma> k0 \<and> disturbed \<Gamma> k0 k \<and> sched_ok k \<and> dev_tokens \<Gamma> a p k"

lemma more_fields:
  assumes "devices.more k' = devices.more (k :: kernel)"
  shows "threads k' = threads k" "currentThread k' = currentThread k" "readyList k' = readyList k"
    "toBeDestroyed k' = toBeDestroyed k" "semaphores k' = semaphores k" "locks k' = locks k"
    "conditions k' = conditions k" "synch_lists k' = synch_lists k" "next_object k' = next_object k"
    "device_semaphore k' = device_semaphore k" "device_lock k' = device_lock k" "halted k' = halted k"
  using assms by (cases k, cases k', simp)+

lemma more_sched:
  assumes "devices.more k' = devices.more (k :: kernel)"
  shows "fr k' = fr k" "st k' = st k" "sleeps_in k' = sleeps_in k" "frame_total w k' = frame_total w k"
  using more_fields [OF assms] by (simp_all add: fr_def st_def sleeps_in_def frame_total_def fun_eq_iff)

lemma more_sched_ok:
  assumes "devices.more k' = devices.more (k :: kernel)"
  shows "sched_ok k' = sched_ok k"
  unfolding sched_defs more_fields [OF assms] more_sched [OF assms] by (rule refl)

lemma K_frame:
  assumes "devices.more k' = devices.more (k :: kernel)"
  shows "K \<Gamma> k0 a p k' = K \<Gamma> k0 a p k"
  unfolding K_def disturbed_def dev_tokens_def more_fields [OF assms] more_sched [OF assms]
    more_sched_ok [OF assms] by (rule refl)

lemma dsem_static: "ctx_ok \<Gamma> \<Longrightarrow> d \<noteq> TimerDevice \<Longrightarrow> c_dsem \<Gamma> d \<in> statics \<Gamma>"
  by (cases "d \<in> busy_devices") (auto simp: ctx_ok_def statics_def)

lemma V_effect_disturbed:
  assumes "sched_ok k" "d \<noteq> TimerDevice" "semaphores k (c_dsem \<Gamma> d) = Some sem"
  shows "disturbed \<Gamma> k (V_effect (c_dsem \<Gamma> d) sem k)"
  using assms(2,3) V_effect_threads [OF assms(1,3)]
  by (auto simp: disturbed_def V_effect_semaphores device_semaphores_def)

lemma disturbed_trans: "disturbed \<Gamma> k0 k1 \<Longrightarrow> disturbed \<Gamma> k1 k2 \<Longrightarrow> disturbed \<Gamma> k0 k2"
  unfolding disturbed_def by (metis woken_trans)

lemma total_fr: "next_object k' = next_object k \<Longrightarrow> fr k' = fr k \<Longrightarrow> frame_total w k' = frame_total w k"
  by (simp add: frame_total_def)

text \<open>The \<open>V\<close> of a device moves the token of the interrupt into the semaphore.\<close>

lemma V_effect_dev_tokens:
  assumes "ctx_ok \<Gamma>" "sched_ok k" and timer: "d \<noteq> TimerDevice" and "semaphores k (c_dsem \<Gamma> d) = Some sem"
    and "dev_tokens \<Gamma> (a \<or> d = DiskDevice) (p \<or> d = ConsoleOutputDevice) k"
    and "d = DiskDevice \<longrightarrow> \<not> a" "d = ConsoleOutputDevice \<longrightarrow> \<not> p"
  shows "dev_tokens \<Gamma> a p (V_effect (c_dsem \<Gamma> d) sem k)"
proof -
  have tot: "frame_total w (V_effect (c_dsem \<Gamma> d) sem k) = frame_total w k" for w
    by (rule total_fr) (simp_all add: V_effect_fr [OF assms(2,4)] fun_eq_iff)
  have "(if e = d then sem_value sem + 1 else sem_value sem') + dev_busy a p e + frame_total (w_dev e (c_dsem \<Gamma> e)) k = 0"
    if e: "e \<in> busy_devices" "semaphores k (c_dsem \<Gamma> e) = Some sem'" for e sem'
  proof -
    have "sem_value sem' + dev_busy (a \<or> d = DiskDevice) (p \<or> d = ConsoleOutputDevice) e +
        frame_total (w_dev e (c_dsem \<Gamma> e)) k = 0"
      using assms(5) e by (simp add: dev_tokens_def)
    then show ?thesis using assms(4,6,7) e by (auto simp: dev_busy_def busy_devices_def)
  qed
  moreover have "e \<in> busy_devices \<Longrightarrow> c_dsem \<Gamma> e = c_dsem \<Gamma> d \<longleftrightarrow> e = d" for e
    using dev_semaphore_owner [OF assms(1)] assms(1) timer by (cases "d \<in> busy_devices") (auto simp: ctx_ok_def)
  ultimately show ?thesis
    unfolding dev_tokens_def tot V_effect_semaphores using assms(4) by (intro ballI allI impI) (force split: if_splits)
qed

section \<open>The contract of the device software\<close>

lemma synch_CallBack_ok:
  assumes timer: "d \<noteq> TimerDevice" and "level k = IntOff" "K \<Gamma> k0 (a \<or> d = DiskDevice) (p \<or> d = ConsoleOutputDevice) k"
    and "d = DiskDevice \<longrightarrow> \<not> a" "d = ConsoleOutputDevice \<longrightarrow> \<not> p"
  shows "\<exists>z. synch_CallBack d k = Inr (k\<lparr>devices.more := z\<rparr>) \<and> K \<Gamma> k0 a p (k\<lparr>devices.more := z\<rparr>)"
proof -
  let ?s = "device_semaphore k d"
  have ctx: "ctx_ok \<Gamma>" "matches \<Gamma> k0" "disturbed \<Gamma> k0 k" "sched_ok k" using assms(3) by (simp_all add: K_def)
  then have s: "?s = c_dsem \<Gamma> d" by (simp add: matches_def disturbed_def)
  have "semaphores k0 ?s \<noteq> None" using ctx(2) dsem_static [OF ctx(1) timer] by (auto simp: s matches_def)
  then have "semaphores k ?s \<noteq> None" using ctx(3) by (simp add: disturbed_def)
  then obtain sem where sem: "semaphores k ?s = Some sem" by blast
  let ?k = "V_effect ?s sem k"
  have off: "k\<lparr>level := IntOff\<rparr> = k" using assms(2) by simp
  have "level ?k = IntOff" using assms(2) by simp
  then have "?k\<lparr>level := IntOff\<rparr> = ?k" by simp
  then have run: "synch_CallBack d k = Inr ?k"
    using assms(2) by (simp add: synch_CallBack_def Semaphore_V_ok [OF ctx(4) sem, unfolded off])
  have "K \<Gamma> k0 a p ?k"
    using ctx V_effect_sched [OF ctx(4) sem] V_effect_disturbed [OF ctx(4) timer, of \<Gamma> sem] sem
      V_effect_dev_tokens [OF ctx(1,4) timer, of sem a p] assms
    by (simp add: K_def s disturbed_trans)
  with run V_effect_more [of ?s sem k] show ?thesis by metis
qed

interpretation ks: device_software synch_CallBack
  "\<lambda>a p z. \<exists>k. devices.more k = z \<and> K \<Gamma> k0 a p k" for \<Gamma> k0
proof
  fix s :: kernel and d
  assume timer: "d \<noteq> TimerDevice" and off: "level s = IntOff"
    and idle: "d = DiskDevice \<Longrightarrow> \<not> active (disk s)" "d = ConsoleOutputDevice \<Longrightarrow> \<not> putBusy (consoleOutput s)"
    and "\<exists>k. devices.more k = devices.more s \<and>
      K \<Gamma> k0 (active (disk s) \<or> d = DiskDevice) (putBusy (consoleOutput s) \<or> d = ConsoleOutputDevice) k"
  then have "K \<Gamma> k0 (active (disk s) \<or> d = DiskDevice) (putBusy (consoleOutput s) \<or> d = ConsoleOutputDevice) s"
    using K_frame by metis
  from synch_CallBack_ok [OF timer off this] idle obtain z where
    "synch_CallBack d s = Inr (s\<lparr>devices.more := z\<rparr>)"
    "K \<Gamma> k0 (active (disk s)) (putBusy (consoleOutput s)) (s\<lparr>devices.more := z\<rparr>)" by blast
  then show "\<exists>z. synch_CallBack d s = Inr (s\<lparr>devices.more := z\<rparr>) \<and>
      (\<exists>k. devices.more k = z \<and> K \<Gamma> k0 (active (disk s)) (putBusy (consoleOutput s)) k)"
    by (intro exI [of _ z] conjI exI [of _ "s\<lparr>devices.more := z\<rparr>"]) simp_all
qed

lemma ks_I: "ks.I \<Gamma> k0 k \<longleftrightarrow> devices_ok k \<and> K \<Gamma> k0 (active (disk k)) (putBusy (consoleOutput k)) k"
  unfolding ks.I_def using K_frame by metis

section \<open>Advancing the clock of the kernel\<close>

definition interruptible :: "ctx \<Rightarrow> kernel \<Rightarrow> bool" where
  "interruptible \<Gamma> k \<longleftrightarrow>
     devices_ok k \<and> \<not> inHandler k \<and> ctx_ok \<Gamma> \<and> matches \<Gamma> k \<and> sched_ok k \<and>
     dev_tokens \<Gamma> (active (disk k)) (putBusy (consoleOutput k)) k"

text \<open>The state after the interrupts of some moment have been served.\<close>

definition served :: "ctx \<Rightarrow> kernel \<Rightarrow> kernel \<Rightarrow> bool" where
  "served \<Gamma> k k' \<longleftrightarrow>
     devices_ok k' \<and> \<not> inHandler k' \<and> disturbed \<Gamma> k k' \<and> sched_ok k' \<and>
     dev_tokens \<Gamma> (active (disk k')) (putBusy (consoleOutput k')) k' \<and>
     (kmachine k' = None \<longleftrightarrow> kmachine k = None)"

lemma ks_served:
  assumes "ks.I \<Gamma> k k'" "\<not> inHandler k'" "kmachine k' = None \<longleftrightarrow> kmachine k = None"
  shows "served \<Gamma> k k'"
  using assms unfolding ks_I by (simp add: served_def K_def)

lemma interruptible_I: "interruptible \<Gamma> k \<Longrightarrow> ks.I \<Gamma> k k"
  unfolding ks_I by (simp add: interruptible_def K_def disturbed_def)

lemma due_frame [simp]:
  "due (s\<lparr>inHandler := b\<rparr>) = due s" "due (s\<lparr>mstatus := ms\<rparr>) = due s" "due (ChangeLevel l s) = due s"
proof -
  have "is_due (s\<lparr>inHandler := b\<rparr>) = is_due s" "is_due (s\<lparr>mstatus := ms\<rparr>) = is_due s"
    "is_due (ChangeLevel l s) = is_due s"
    by (simp_all add: is_due_def ChangeLevel_def fun_eq_iff)
  then show "due (s\<lparr>inHandler := b\<rparr>) = due s" "due (s\<lparr>mstatus := ms\<rparr>) = due s" "due (ChangeLevel l s) = due s"
    by (simp_all add: due_def) (simp add: ChangeLevel_def)
qed

text \<open>
  \<open>CheckIfDue\<close> keeps the invariant if it returns, and afterwards nothing that is pending is due.  That it may not
  return is possible only for a clock without room.
\<close>

lemma CheckIfDue_kernel:
  assumes "ks.I \<Gamma> k0 k" "\<not> inHandler k" "level k = IntOff"
  obtains (hangs) "CheckIfDue CallBack adv k = Inl Diverges"
  | (serves) fired k' where "CheckIfDue CallBack adv k = Inr (fired, k')" "fired \<longleftrightarrow> will_fire adv k"
    "ks.I \<Gamma> k0 k'" "\<not> inHandler k'" "level k' = IntOff" "mstatus k' = mstatus k"
    "kmachine k' = None \<longleftrightarrow> kmachine k = None"
    "now k' = (if will_fire adv k then clock_after adv k else now k)" "due k' = []"
proof (cases "will_fire adv k")
  case False
  then have "CheckIfDue CallBack adv k = Inr (False, k)"
    by (rule ks.dev.CheckIfDue_quiet [OF assms(3)])
  moreover have "due k = []"
    using False by (cases "pending k") (auto simp: will_fire_def due_def)
  ultimately show ?thesis using serves [of False k] assms False by simp
next
  case True
  have "kmachine (advanced adv k) = None \<longleftrightarrow> kmachine k = None" by (simp add: advanced_def)
  with ks.dev.CheckIfDue_safe [OF assms(1,3) True] hangs serves [of True] True show ?thesis
    by (force simp: due_frame)
qed

definition tick :: "MachineStatus \<Rightarrow> int" where
  "tick ms = (if ms = SystemMode then SystemTick else UserTick)"

lemma advance_ok:
  assumes "hardware_ok k"
  shows "hardware_ok (k\<lparr>stats := advance ms (stats k)\<rparr>)" "totalTicks (advance ms (stats k)) = s32 (now k + tick ms)"
proof -
  have clock: "s32 (now k) = s32 (idleTicks (stats k) + systemTicks (stats k) + userTicks (stats k))"
    using assms by (simp add: hardware_ok_def)
  have add: "s32 (now k + n) = s32 (idleTicks (stats k) + (systemTicks (stats k) + n) + userTicks (stats k))"
    "s32 (now k + n) = s32 (idleTicks (stats k) + systemTicks (stats k) + (userTicks (stats k) + n))" for n
    using s32_wrap(1) [of "now k" n] unfolding clock s32_wrap(1) by (simp_all add: algebra_simps)
  show "hardware_ok (k\<lparr>stats := advance ms (stats k)\<rparr>)"
    using assms add(1) [of SystemTick] add(2) [of UserTick]
      s32_wrap(1) [of "systemTicks (stats k) + SystemTick" "idleTicks (stats k) + userTicks (stats k)"]
      s32_wrap(1) [of "userTicks (stats k) + UserTick" "idleTicks (stats k) + systemTicks (stats k)"]
    by (simp add: hardware_ok_def advance_def s32_wrap ac_simps split: option.splits)
  show "totalTicks (advance ms (stats k)) = s32 (now k + tick ms)" by (simp add: advance_def tick_def)
qed

text \<open>The state in which \<open>OneTick\<close> looks for interrupts: the clock has moved and interrupts are off.\<close>

definition ticked :: "kernel \<Rightarrow> kernel" where
  "ticked k = ChangeLevel IntOff (k\<lparr>stats := advance (mstatus k) (stats k)\<rparr>)"

lemma ticked_fields [simp]:
  "pending (ticked k) = pending k" "level (ticked k) = IntOff" "inHandler (ticked k) = inHandler k"
  "mstatus (ticked k) = mstatus k" "kmachine (ticked k) = kmachine k"
  by (simp_all add: ticked_def ChangeLevel_def)

lemma OneTick_handlers_ticked:
  "OneTick_handlers CallBack k = bindr (CheckIfDue CallBack False (ticked k)) (\<lambda>(_, k). Inr (ChangeLevel IntOn k))"
  by (simp add: OneTick_handlers_def ticked_def)

lemma ticked_I:
  assumes "interruptible \<Gamma> k"
  shows "ks.I \<Gamma> k (ticked k)" "now (ticked k) = s32 (now k + tick (mstatus k))"
proof -
  have hw: "hardware_ok k" using assms by (simp add: interruptible_def devices_ok_def)
  have "ks.I \<Gamma> k (k\<lparr>stats := advance (mstatus k) (stats k)\<rparr>)"
    by (rule ks.dev.frame_stats [OF interruptible_I [OF assms] advance_ok(1) [OF hw]])
  then show "ks.I \<Gamma> k (ticked k)" unfolding ticked_def ChangeLevel_def by (rule ks.dev.frame_level)
  show "now (ticked k) = s32 (now k + tick (mstatus k))"
    using advance_ok(2) [OF hw] by (simp add: ticked_def ChangeLevel_def)
qed

lemma OneTick_handlers_kernel:
  assumes "interruptible \<Gamma> k"
  obtains (hangs) "OneTick_handlers CallBack k = Inl Diverges"
  | (serves) k' where "OneTick_handlers CallBack k = Inr k'" "served \<Gamma> k k'" "level k' = IntOn"
    "mstatus k' = mstatus k" "now k' = s32 (now k + tick (mstatus k))" "due k' = []"
proof -
  note t = ticked_I [OF assms]
  have noh: "\<not> inHandler (ticked k)" using assms by (simp add: interruptible_def)
  show ?thesis
  proof (rule CheckIfDue_kernel [OF t(1) noh ticked_fields(2), of False, unfolded ticked_fields])
    assume "CheckIfDue CallBack False (ticked k) = Inl Diverges"
    then show ?thesis by (intro hangs) (simp add: OneTick_handlers_ticked)
  next
    fix fired k1
    assume k1: "CheckIfDue CallBack False (ticked k) = Inr (fired, k1)" "ks.I \<Gamma> k k1" "\<not> inHandler k1"
      "mstatus k1 = mstatus k" "kmachine k1 = None \<longleftrightarrow> kmachine k = None"
      "now k1 = (if will_fire False (ticked k) then clock_after False (ticked k) else now (ticked k))" "due k1 = []"
    have "now k1 = s32 (now k + tick (mstatus k))"
      using k1(6) t(2) by (simp add: clock_after_def split: list.splits)
    moreover have "ks.I \<Gamma> k (ChangeLevel IntOn k1)"
      using ks.dev.frame_level [OF k1(2)] unfolding ChangeLevel_def .
    then have "served \<Gamma> k (ChangeLevel IntOn k1)"
      by (rule ks_served) (use k1 in \<open>simp_all add: ChangeLevel_def\<close>)
    ultimately show ?thesis
      using k1 by (intro serves [of "ChangeLevel IntOn k1"])
        (simp_all add: ChangeLevel_def OneTick_handlers_ticked due_frame [unfolded ChangeLevel_def])
  qed
qed

lemma Idle_kernel:
  assumes "interruptible \<Gamma> k" "level k = IntOff"
  obtains (hangs) "Idle CallBack k = Inl Diverges"
  | (serves) fired k' where "Idle CallBack k = Inr (fired, k')" "served \<Gamma> k k'" "level k' = IntOff"
    "fired \<longleftrightarrow> pending k \<noteq> []" "due k' = []"
    "now k' = (if fired then max (now k) (pi_when (hd (pending k))) else now k)"
proof -
  let ?k = "k\<lparr>mstatus := IdleMode\<rparr>"
  have I: "ks.I \<Gamma> k k" and noh: "\<not> inHandler k"
    using assms interruptible_I by (auto simp: interruptible_def)
  have I': "ks.I \<Gamma> k ?k" by (rule ks.dev.frame_mstatus [OF I])
  have noh': "\<not> inHandler ?k" and off: "level ?k = IntOff" and km: "kmachine ?k = kmachine k"
    using noh assms(2) by simp_all
  show ?thesis
  proof (rule CheckIfDue_kernel [OF I' noh' off, of True, unfolded km])
    assume "CheckIfDue CallBack True ?k = Inl Diverges"
    then show ?thesis by (intro hangs) (simp add: Idle_def)
  next
    fix fired k1
    assume k1: "CheckIfDue CallBack True ?k = Inr (fired, k1)" "fired \<longleftrightarrow> will_fire True ?k" "ks.I \<Gamma> k k1"
      "\<not> inHandler k1" "level k1 = IntOff" "mstatus k1 = mstatus ?k" "kmachine k1 = None \<longleftrightarrow> kmachine k = None"
      "now k1 = (if will_fire True ?k then clock_after True ?k else now ?k)" "due k1 = []"
    have fired: "fired \<longleftrightarrow> pending k \<noteq> []" using k1(2) by (simp add: will_fire_def)
    have now: "now k1 = (if fired then max (now k) (pi_when (hd (pending k))) else now k)"
      using k1(8) fired by (auto simp: will_fire_def clock_after_def split: list.splits)
    have "ks.I \<Gamma> k (k1\<lparr>mstatus := SystemMode\<rparr>)" by (rule ks.dev.frame_mstatus [OF k1(3)])
    then have sv: "served \<Gamma> k (k1\<lparr>mstatus := SystemMode\<rparr>)"
      by (rule ks_served) (use k1 in simp_all)
    show ?thesis
    proof (cases fired)
      case True
      have "Idle CallBack k = Inr (True, k1\<lparr>mstatus := SystemMode\<rparr>)" using k1(1) True by (simp add: Idle_def)
      then show ?thesis by (rule serves) (use sv k1(5,9) fired now True in simp_all)
    next
      case False
      have "Idle CallBack k = Inr (False, k1)" using k1(1) False by (simp add: Idle_def)
      moreover have "served \<Gamma> k k1" by (rule ks_served [OF k1(3,4,7)])
      ultimately show ?thesis by (rule serves) (use k1(5,9) fired now False in simp_all)
    qed
  qed
qed

section \<open>While the clock is in its range\<close>

lemma near_frame [simp]:
  "near (s\<lparr>level := l\<rparr>) = near s" "near (s\<lparr>mstatus := ms\<rparr>) = near s" "near (ChangeLevel l s) = near s"
  by (simp_all add: near_def ChangeLevel_def)

lemma tick_pos: "0 < tick ms" "tick ms \<le> 10"
  by (simp_all add: tick_def tick_constants)

lemma ticked_timely:
  assumes "interruptible \<Gamma> k" "timely k"
  shows "now (ticked k) = now k + tick (mstatus k)" "near (ticked k)" "roomy (ticked k)"
    "clock_after False (ticked k) < clock_limit + horizon"
proof -
  have "0 \<le> tick (mstatus k)" "tick (mstatus k) \<le> horizon" using tick_pos [of "mstatus k"] by (simp_all add: horizon_def)
  then show t: "now (ticked k) = now k + tick (mstatus k)"
    using roomy_when [OF timely_roomy [OF assms(2)]] ticked_I(2) [OF assms(1)] by simp
  show "near (ticked k)" using assms(2) tick_pos [of "mstatus k"] t by (fastforce simp: timely_def near_def)
  show "roomy (ticked k)" using assms(2) tick_pos [of "mstatus k"] t by (simp add: clock_defs)
  then show "clock_after False (ticked k) < clock_limit + horizon"
    by (simp add: roomy_def clock_after_def split: list.split)
qed

lemma OneTick_handlers_timely:
  assumes "interruptible \<Gamma> k" "timely k"
  shows "\<exists>k'. OneTick_handlers CallBack k = Inr k' \<and> near k'"
  using ks.dev.CheckIfDue_near [OF ticked_I(1) [OF assms(1)] _ ticked_timely(2,4) [OF assms]]
  by (auto simp: OneTick_handlers_ticked)

lemma Idle_timely:
  assumes "interruptible \<Gamma> k" "level k = IntOff" "timely k"
  shows "\<exists>fired k'. Idle CallBack k = Inr (fired, k') \<and> near k'"
proof -
  let ?k = "k\<lparr>mstatus := IdleMode\<rparr>"
  have "ks.I \<Gamma> k ?k" by (rule ks.dev.frame_mstatus [OF interruptible_I [OF assms(1)]])
  moreover have "clock_after True ?k < clock_limit + horizon"
    using assms(3) by (auto simp: clock_after_def timely_def near_def horizon_def split: list.split)
  ultimately obtain fired k' where k': "CheckIfDue CallBack True ?k = Inr (fired, k')" "near k'"
    using ks.dev.CheckIfDue_near [of \<Gamma> k ?k True] assms(2,3) by (auto simp: timely_def)
  then show ?thesis by (cases fired) (auto simp: Idle_def)
qed

text \<open>\<open>OneTick\<close> runs the handlers of the interrupts that are due, in the order of the queue, and no others.\<close>

lemma OneTick_handlers_exact:
  assumes "interruptible \<Gamma> k" "timely k"
  shows "due (ticked k) = [] \<Longrightarrow> OneTick_handlers CallBack k = Inr (ChangeLevel IntOn (ticked k))"
    and "due (ticked k) \<noteq> [] \<Longrightarrow> \<exists>h. foldM (fire CallBack) (due (ticked k)) (advanced False (ticked k)) = Inr h \<and>
      OneTick_handlers CallBack k = Inr (ChangeLevel IntOn (h\<lparr>inHandler := False\<rparr>))"
proof -
  note t = ticked_I(1) [OF assms(1)]
  have fire: "will_fire False (ticked k) \<longleftrightarrow> due (ticked k) \<noteq> []"
    by (cases "pending k") (simp_all add: will_fire_def due_def)
  show "OneTick_handlers CallBack k = Inr (ChangeLevel IntOn (ticked k))" if "due (ticked k) = []"
    using ks.dev.CheckIfDue_quiet [of "ticked k" False] that by (simp add: OneTick_handlers_ticked fire)
  have now: "now (advanced False (ticked k)) = now (ticked k)"
    by (simp add: ks.dev.advanced_fields clock_after_def split: list.split)
  then have "is_due (advanced False (ticked k)) = is_due (ticked k)" by (simp add: is_due_def fun_eq_iff)
  then have due: "due (advanced False (ticked k)) = due (ticked k)" by (simp add: due_def ks.dev.advanced_fields)
  have "roomy (advanced False (ticked k))" using ticked_timely(3) [OF assms] now by (simp add: roomy_def)
  then show "\<exists>h. foldM (fire CallBack) (due (ticked k)) (advanced False (ticked k)) = Inr h \<and>
      OneTick_handlers CallBack k = Inr (ChangeLevel IntOn (h\<lparr>inHandler := False\<rparr>))" if "due (ticked k) \<noteq> []"
    using ks.dev.CheckIfDue_fires [OF t ticked_fields(2), of False] that
    by (auto simp: OneTick_handlers_ticked fire due)
qed

end
