(* ===== verification/Thread_Steps.thy ===== *)
theory Thread_Steps
  imports Kernel_Interrupts
begin

text \<open>
  How the invariant is kept.  Most steps leave the running thread running, with another stack:
  \<open>Inv_stay\<close> reduces them to the scheduler, the stack and the balance of the tokens (\<open>shift\<close>).
\<close>

section \<open>Tokens that move\<close>

text \<open>The value of a semaphore, whether a lock is held, and whether a waiter is still queued, as numbers.\<close>

definition sv :: "kernel \<Rightarrow> nat \<Rightarrow> int" where
  "sv k s = (case semaphores k s of None \<Rightarrow> 0 | Some sem \<Rightarrow> sem_value sem)"

definition hb :: "kernel \<Rightarrow> nat \<Rightarrow> int" where
  "hb k x = (case locks k x of None \<Rightarrow> 0 | Some lk \<Rightarrow> if lockHolder lk = None then 0 else 1)"

definition qb :: "kernel \<Rightarrow> nat \<Rightarrow> int" where
  "qb k s = (if queued k s then 1 else 0)"

abbreviation db :: "kernel \<Rightarrow> device \<Rightarrow> int" where
  "db k \<equiv> dev_busy (active (disk k)) (putBusy (consoleOutput k))"

definition tokens_ok :: "ctx \<Rightarrow> kernel \<Rightarrow> bool" where
  "tokens_ok \<Gamma> k \<longleftrightarrow>
     lock_tokens \<Gamma> k \<and> dev_tokens \<Gamma> (active (disk k)) (putBusy (consoleOutput k)) k \<and> waiter_tokens \<Gamma> k"

lemma tokens_lock:
  assumes "tokens_ok \<Gamma> k" "matches \<Gamma> k" "c_locks \<Gamma> x = Some s"
  shows "sv k s + hb k x + frame_total (w_lock x s) k = 1"
proof -
  obtain lk where lk: "locks k x = Some lk" "lock_semaphore lk = s" using assms(2,3) by (auto simp: matches_def)
  moreover have "s \<in> statics \<Gamma>" using assms(3) by (auto simp: statics_def ran_def)
  then obtain sem where "semaphores k s = Some sem" using assms(2) by (auto simp: matches_def)
  moreover have "lock_tokens \<Gamma> k" using assms(1) by (simp only: tokens_ok_def)
  ultimately have "sem_value sem + (if lockHolder lk = None then 0 else 1) + frame_total (w_lock x s) k = 1"
    unfolding lock_tokens_def by blast
  with lk \<open>semaphores k s = Some sem\<close> show ?thesis by (simp add: sv_def hb_def)
qed

lemma tokens_dev:
  assumes "tokens_ok \<Gamma> k" "matches \<Gamma> k" "d \<in> busy_devices"
  shows "sv k (c_dsem \<Gamma> d) + db k d + frame_total (w_dev d (c_dsem \<Gamma> d)) k = 0"
proof -
  have "c_dsem \<Gamma> d \<in> statics \<Gamma>" using assms(3) by (auto simp: statics_def)
  then obtain sem where "semaphores k (c_dsem \<Gamma> d) = Some sem" using assms(2) by (auto simp: matches_def)
  then show ?thesis using assms(1,3) by (auto simp: tokens_ok_def dev_tokens_def sv_def)
qed

lemma tokens_waiter:
  assumes "tokens_ok \<Gamma> k" "s \<notin> statics \<Gamma>" "semaphores k s \<noteq> None"
  shows "sv k s + qb k s + frame_total (w_sem s) k = 0" "frame_total (w_del s) k = 1"
  using assms by (auto simp: tokens_ok_def waiter_tokens_def sv_def qb_def)

lemma tokens_mention:
  assumes "tokens_ok \<Gamma> k" "f \<in> set (fr k t)" "mentions f s" "s \<notin> statics \<Gamma>"
  shows "semaphores k s \<noteq> None"
  using assms unfolding tokens_ok_def waiter_tokens_def by blast

definition queues_wf :: "ctx \<Rightarrow> kernel \<Rightarrow> bool" where
  "queues_wf \<Gamma> k \<longleftrightarrow>
     (\<forall>c cond. conditions k c = Some cond \<longrightarrow> distinct (waitQueue cond) \<and>
        (\<forall>s \<in> set (waitQueue cond). s \<notin> statics \<Gamma> \<and> semaphores k s \<noteq> None \<and>
           (\<forall>c' cond'. conditions k c' = Some cond' \<longrightarrow> s \<in> set (waitQueue cond') \<longrightarrow> c' = c)))"

lemma tokens_queues: "tokens_ok \<Gamma> k \<Longrightarrow> queues_wf \<Gamma> k"
  unfolding tokens_ok_def waiter_tokens_def queues_wf_def by (elim conjE)

lemma tokens_okI:
  assumes "\<And>x s. c_locks \<Gamma> x = Some s \<Longrightarrow> sv k s + hb k x + frame_total (w_lock x s) k = 1"
    and "\<And>d. d \<in> busy_devices \<Longrightarrow> sv k (c_dsem \<Gamma> d) + db k d + frame_total (w_dev d (c_dsem \<Gamma> d)) k = 0"
    and "\<And>s. s \<notin> statics \<Gamma> \<Longrightarrow> semaphores k s \<noteq> None \<Longrightarrow>
      sv k s + qb k s + frame_total (w_sem s) k = 0 \<and> frame_total (w_del s) k = 1"
    and "\<And>t f s. f \<in> set (fr k t) \<Longrightarrow> mentions f s \<Longrightarrow> s \<notin> statics \<Gamma> \<Longrightarrow> semaphores k s \<noteq> None"
    and "queues_wf \<Gamma> k" and "matches \<Gamma> k"
  shows "tokens_ok \<Gamma> k"
proof -
  have "lock_tokens \<Gamma> k"
    unfolding lock_tokens_def
  proof (intro allI impI)
    fix x lk sem assume a: "locks k x = Some lk" "semaphores k (lock_semaphore lk) = Some sem"
    then have "c_locks \<Gamma> x = Some (lock_semaphore lk)" using assms(6) by (simp add: matches_def)
    from assms(1) [OF this] a show "sem_value sem + (if lockHolder lk = None then 0 else 1) +
        frame_total (w_lock x (lock_semaphore lk)) k = 1" by (simp add: sv_def hb_def)
  qed
  moreover have "dev_tokens \<Gamma> (active (disk k)) (putBusy (consoleOutput k)) k"
    unfolding dev_tokens_def
  proof (intro ballI allI impI)
    fix d sem assume "d \<in> busy_devices" "semaphores k (c_dsem \<Gamma> d) = Some sem"
    with assms(2) [OF this(1)] show "sem_value sem + db k d + frame_total (w_dev d (c_dsem \<Gamma> d)) k = 0"
      by (simp add: sv_def)
  qed
  moreover have "waiter_tokens \<Gamma> k"
    unfolding waiter_tokens_def
  proof (intro conjI)
    show "\<forall>s sem. s \<notin> statics \<Gamma> \<longrightarrow> semaphores k s = Some sem \<longrightarrow>
        sem_value sem + (if queued k s then 1 else 0) + frame_total (w_sem s) k = 0 \<and> frame_total (w_del s) k = 1"
    proof (intro allI impI)
      fix s sem assume "s \<notin> statics \<Gamma>" "semaphores k s = Some sem"
      with assms(3) [OF this(1)]
      show "sem_value sem + (if queued k s then 1 else 0) + frame_total (w_sem s) k = 0 \<and> frame_total (w_del s) k = 1"
        by (simp add: sv_def qb_def)
    qed
    show "\<forall>t f s. f \<in> set (fr k t) \<longrightarrow> mentions f s \<longrightarrow> s \<notin> statics \<Gamma> \<longrightarrow> semaphores k s \<noteq> None"
      using assms(4) by blast
  qed (use assms(5) in \<open>simp only: queues_wf_def\<close>)
  ultimately show ?thesis by (simp only: tokens_ok_def)
qed

text \<open>
  \<open>shift \<Gamma> k k' fs gs\<close>: what the semaphores, locks, devices and condition variables of \<open>k'\<close> have more
  than those of \<open>k\<close> is what the stack \<open>gs\<close> has less than \<open>fs\<close>.
\<close>

definition shift :: "ctx \<Rightarrow> kernel \<Rightarrow> kernel \<Rightarrow> frame list \<Rightarrow> frame list \<Rightarrow> bool" where
  "shift \<Gamma> k k' fs gs \<longleftrightarrow>
     (\<forall>x s. c_locks \<Gamma> x = Some s \<longrightarrow>
        sv k' s + hb k' x + weight (w_lock x s) gs = sv k s + hb k x + weight (w_lock x s) fs) \<and>
     (\<forall>d \<in> busy_devices.
        sv k' (c_dsem \<Gamma> d) + db k' d + weight (w_dev d (c_dsem \<Gamma> d)) gs =
        sv k (c_dsem \<Gamma> d) + db k d + weight (w_dev d (c_dsem \<Gamma> d)) fs) \<and>
     (\<forall>s. s \<notin> statics \<Gamma> \<longrightarrow> semaphores k s \<noteq> None \<longrightarrow>
        sv k' s + qb k' s + weight (w_sem s) gs = sv k s + qb k s + weight (w_sem s) fs \<and>
        weight (w_del s) gs = weight (w_del s) fs)"

lemma tokens_shift:
  assumes "tokens_ok \<Gamma> k" "matches \<Gamma> k" "matches \<Gamma> k'" "shift \<Gamma> k k' (fr k c) gs"
    and "\<And>w. frame_total w k' = frame_total w k - weight w (fr k c) + weight w gs"
    and "\<And>t. fr k' t = (if t = c then gs else fr k t)"
    and "\<And>s. semaphores k' s = None \<longleftrightarrow> semaphores k s = None"
    and "\<And>f s. f \<in> set gs \<Longrightarrow> mentions f s \<Longrightarrow> s \<notin> statics \<Gamma> \<Longrightarrow> semaphores k s \<noteq> None"
    and "queues_wf \<Gamma> k'"
  shows "tokens_ok \<Gamma> k'"
proof (rule tokens_okI)
  show "sv k' s + hb k' x + frame_total (w_lock x s) k' = 1" if "c_locks \<Gamma> x = Some s" for x s
    using tokens_lock [OF assms(1,2) that] assms(4) that unfolding assms(5) shift_def by force
  show "sv k' (c_dsem \<Gamma> d) + db k' d + frame_total (w_dev d (c_dsem \<Gamma> d)) k' = 0" if "d \<in> busy_devices" for d
    using tokens_dev [OF assms(1,2) that] assms(4) that unfolding assms(5) shift_def by force
  show "sv k' s + qb k' s + frame_total (w_sem s) k' = 0 \<and> frame_total (w_del s) k' = 1"
    if "s \<notin> statics \<Gamma>" "semaphores k' s \<noteq> None" for s
    using tokens_waiter [OF assms(1) that(1)] assms(4) that unfolding assms(5,7) shift_def by force
  show "semaphores k' s \<noteq> None" if "f \<in> set (fr k' t)" "mentions f s" "s \<notin> statics \<Gamma>" for t f s
    using that assms(8) tokens_mention [OF assms(1), of f t s] unfolding assms(6,7) by (auto split: if_splits)
qed (fact assms)+

section \<open>The stack of the running thread\<close>

text \<open>The stacks of a thread that is not switching.\<close>

fun ordinary :: "frame list \<Rightarrow> bool" where
  "ordinary [] \<longleftrightarrow> False"
| "ordinary (F_Begin # fs) \<longleftrightarrow> False"
| "ordinary (F_Run_back # fs) \<longleftrightarrow> False"
| "ordinary (F_Sleep_loop b # fs) \<longleftrightarrow> False"
| "ordinary fs \<longleftrightarrow> True"

lemma typed_ordinary: "typed \<Gamma> l H fs \<Longrightarrow> ordinary fs"
  by (cases fs rule: ordinary.cases) auto

lemma thread_ok_ordinary:
  assumes "ordinary (frames th)"
  shows "thread_ok \<Gamma> k t th \<longleftrightarrow>
    (stack th = None \<or> stack th = Some STACK_FENCEPOST) \<and> t = currentThread k \<and> status th = RUNNING \<and>
    toBeDestroyed k = None \<and> typed \<Gamma> (level k) (held k t) (frames th)"
  using assms by (cases "frames th" rule: ordinary.cases) (simp_all add: thread_ok_def Let_def)

text \<open>The stacks of the others: not started, switched out, or asleep in the idle loop.\<close>

lemma thread_ok_cases:
  assumes "thread_ok \<Gamma> k t th"
  obtains (ordinary) "ordinary (frames th)"
  | (F_Begin) fs where "frames th = F_Begin # fs"
  | (F_Run_back) fs where "frames th = F_Run_back # fs"
  | (F_Sleep_loop) b fs where "frames th = F_Sleep_loop b # fs"
proof (cases "frames th")
  case Nil
  then have False using assms by (simp add: thread_ok_def Let_def)
  then show ?thesis ..
next
  case (Cons f fs)
  then show ?thesis using that by (cases f) auto
qed

lemma thread_ok_simps:
  "frames th = F_Begin # fs \<Longrightarrow> thread_ok \<Gamma> k t th \<longleftrightarrow>
     (stack th = None \<or> stack th = Some STACK_FENCEPOST) \<and> held k t = {} \<and>
     (if t = currentThread k then level k = IntOff \<and> status th = RUNNING else status th = READY) \<and>
     typed \<Gamma> IntOn {} fs"
  "frames th = F_Run_back # fs \<Longrightarrow> thread_ok \<Gamma> k t th \<longleftrightarrow>
     (stack th = None \<or> stack th = Some STACK_FENCEPOST) \<and>
     (if t = currentThread k then level k = IntOff \<and> status th = RUNNING else status th \<in> {READY, BLOCKED}) \<and>
     (if fs = [] then toBeDestroyed k = Some t \<and> t \<noteq> currentThread k \<and> status th = BLOCKED \<and> held k t = {}
      else typed \<Gamma> IntOff (held k t) fs)"
  "frames th = F_Sleep_loop b # fs \<Longrightarrow> thread_ok \<Gamma> k t th \<longleftrightarrow>
     (stack th = None \<or> stack th = Some STACK_FENCEPOST) \<and> t = currentThread k \<and> level k = IntOff \<and>
     toBeDestroyed k = None \<and> status th \<in> {READY, BLOCKED} \<and>
     (if b then fs = [] \<and> status th = BLOCKED \<and> held k t = {}
      else waits_for fs \<noteq> None \<and> typed \<Gamma> IntOff (held k t) fs)"
  by (simp_all add: thread_ok_def Let_def)

lemma ordinary_awake: "ordinary fs \<Longrightarrow> waits_for fs \<noteq> None \<Longrightarrow> \<exists>s gs. fs = F_P_loop s # gs"
  by (cases fs rule: ordinary.cases) auto

text \<open>A thread stays well-formed when it is woken, and when the running thread does something else.\<close>

lemma thread_ok_woken:
  assumes "thread_ok \<Gamma> k t th" "woken (Some th) (Some th')" "currentThread k' = currentThread k"
    "held k' t = held k t" "toBeDestroyed k' = toBeDestroyed k" "t = currentThread k \<Longrightarrow> level k' = level k"
  shows "thread_ok \<Gamma> k' t th'"
proof (cases "th' = th")
  case True
  from assms(1) show ?thesis
  proof (cases rule: thread_ok_cases)
    case ordinary
    then show ?thesis using assms True by (auto simp: thread_ok_ordinary)
  qed (use assms True in \<open>auto simp: thread_ok_simps split: if_splits\<close>)
next
  case False
  then have th': "th' = th\<lparr>status := READY\<rparr>" "status th = BLOCKED" "waits_for (frames th) \<noteq> None"
    using assms(2) by (auto simp: woken_def)
  from assms(1) show ?thesis
  proof (cases rule: thread_ok_cases)
    case ordinary
    then show ?thesis using assms(1) th' by (simp add: thread_ok_ordinary)
  next
    case (F_Run_back fs)
    then show ?thesis
      using assms th' thread_ok_simps(2) [of th' fs] thread_ok_simps(2) [of th fs] by (cases fs) auto
  next
    case (F_Sleep_loop b fs)
    then show ?thesis
      using assms th' thread_ok_simps(3) [of th' b fs] thread_ok_simps(3) [of th b fs] by auto
  qed (use assms th' in \<open>auto simp: thread_ok_simps split: if_splits\<close>)
qed

lemma woken_fields: "woken (Some th) (Some th') \<Longrightarrow>
    userRegisters th' = userRegisters th \<and> space th' = space th \<and> frames th' = frames th"
  by (auto simp: woken_def)

lemma woken_user_regs: "user_regs_ok th \<Longrightarrow> woken (Some th) (Some th') \<Longrightarrow> user_regs_ok th'"
  using woken_fields by (simp add: user_regs_ok_def)

lemma woken_None: "woken x y \<Longrightarrow> y = None \<longleftrightarrow> x = None"
  unfolding woken_def by auto

section \<open>Steps that keep the thread running\<close>

definition stays :: "kernel \<Rightarrow> kernel \<Rightarrow> thread \<Rightarrow> bool" where
  "stays k k' th' \<longleftrightarrow>
     currentThread k' = currentThread k \<and> toBeDestroyed k' = toBeDestroyed k \<and> next_object k' = next_object k \<and>
     threads k' (currentThread k) = Some th' \<and>
     (\<forall>t. t \<noteq> currentThread k \<longrightarrow> woken (threads k t) (threads k' t)) \<and>
     (\<forall>s. semaphores k' s = None \<longleftrightarrow> semaphores k s = None) \<and>
     (\<forall>x. map_option lock_semaphore (locks k' x) = map_option lock_semaphore (locks k x)) \<and>
     dom (conditions k') = dom (conditions k) \<and>
     (\<forall>sl. map_option (\<lambda>l. (sl_lock l, sl_listEmpty l)) (synch_lists k' sl) =
           map_option (\<lambda>l. (sl_lock l, sl_listEmpty l)) (synch_lists k sl)) \<and>
     device_lock k' = device_lock k \<and> device_semaphore k' = device_semaphore k"

lemma stays_matches: "matches \<Gamma> k \<Longrightarrow> stays k k' th' \<Longrightarrow> matches \<Gamma> k'"
  by (simp add: matches_def stays_def)

lemma woken_fr1: "woken (threads k t) (threads k' t) \<Longrightarrow> fr k' t = fr k t"
  unfolding woken_def fr_def by (auto split: option.splits)

lemma stays_fr: "stays k k' th' \<Longrightarrow> fr k' t = (if t = currentThread k then frames th' else fr k t)"
  by (cases "t = currentThread k") (simp_all add: stays_def fr_simps woken_fr1)

lemma stays_total:
  assumes "stays k k' th'" "sched_ok k" "threads k (currentThread k) = Some th"
  shows "frame_total w k' = frame_total w k - weight w (fr k (currentThread k)) + weight w (frames th')"
proof -
  have "currentThread k < next_object k" by (rule sched_ids(1) [OF assms(2,3)])
  moreover have "next_object k' = next_object k" using assms(1) by (simp add: stays_def)
  ultimately have "frame_total w k' = frame_total w k - weight w (fr k (currentThread k)) +
      weight w (fr k' (currentThread k))"
    by (intro total_update) (simp_all add: stays_fr [OF assms(1)])
  then show ?thesis by (simp add: stays_fr [OF assms(1)])
qed

lemma Inv_parts:
  assumes "Inv \<Gamma> k"
  shows "devices_ok k" "\<not> inHandler k" "kmachine k \<noteq> None" "ctx_ok \<Gamma>" "matches \<Gamma> k" "sched_ok k" "tokens_ok \<Gamma> k"
    "threads k t = Some th \<Longrightarrow> thread_ok \<Gamma> k t th" "threads k t = Some th \<Longrightarrow> user_regs_ok th" "holders_ok k"
  using assms unfolding Inv_def tokens_ok_def by blast+

lemma Inv_ordinary:
  assumes "Inv \<Gamma> k" "threads k t = Some th" "ordinary (frames th)"
  shows "status th = RUNNING" "toBeDestroyed k = None" "stack th = None \<or> stack th = Some STACK_FENCEPOST"
    "typed \<Gamma> (level k) (held k t) (frames th)" "t = currentThread k"
  using Inv_parts(8) [OF assms(1,2)] unfolding thread_ok_ordinary [OF assms(3)] by blast+

lemma Inv_stay:
  assumes inv: "Inv \<Gamma> k" and th: "threads k (currentThread k) = Some th" "ordinary (frames th)"
    and stays: "stays k k' th'" and th': "status th' = RUNNING" "stack th' = stack th" "user_regs_ok th'"
    and dev: "devices_ok k'" "\<not> inHandler k'" "kmachine k' \<noteq> None" and sched: "sched_ok k'"
    and shift: "shift \<Gamma> k k' (frames th) (frames th')"
    and mentions: "\<And>f s. f \<in> set (frames th') \<Longrightarrow> mentions f s \<Longrightarrow> s \<notin> statics \<Gamma> \<Longrightarrow> semaphores k s \<noteq> None"
    and queues: "queues_wf \<Gamma> k'"
    and typed: "typed \<Gamma> (level k') (held k' (currentThread k)) (frames th')"
    and held: "\<And>t. t \<noteq> currentThread k \<Longrightarrow> held k' t = held k t"
  shows "Inv \<Gamma> k'"
proof -
  have eqs: "currentThread k' = currentThread k" "toBeDestroyed k' = toBeDestroyed k"
    "threads k' (currentThread k) = Some th'" using stays by (simp_all add: stays_def)
  note tbd = Inv_ordinary(2) [OF inv th]
  note m = stays_matches [OF Inv_parts(5) [OF inv] stays]
  have "tokens_ok \<Gamma> k'"
  proof (rule tokens_shift [OF Inv_parts(7,5) [OF inv] m, of "currentThread k" "frames th'"])
    show "shift \<Gamma> k k' (fr k (currentThread k)) (frames th')" using shift th(1) by (simp add: fr_simps)
    show "frame_total w k' = frame_total w k - weight w (fr k (currentThread k)) + weight w (frames th')" for w
      by (rule stays_total [OF stays Inv_parts(6) [OF inv] th(1)])
    show "fr k' t = (if t = currentThread k then frames th' else fr k t)" for t by (rule stays_fr [OF stays])
    show "semaphores k' s = None \<longleftrightarrow> semaphores k s = None" for s using stays by (simp add: stays_def)
  qed (fact mentions queues)+
  moreover have "thread_ok \<Gamma> k' t u \<and> user_regs_ok u" if u: "threads k' t = Some u" for t u
  proof (cases "t = currentThread k")
    case True
    then have "u = th'" using u eqs by simp
    with th' tbd typed True eqs Inv_ordinary(3) [OF inv th] typed_ordinary [OF typed] show ?thesis
      by (simp add: thread_ok_ordinary)
  next
    case False
    then have w: "woken (threads k t) (Some u)" using stays u by (metis stays_def)
    then obtain v where v: "threads k t = Some v" using woken_None by fastforce
    show ?thesis
      using thread_ok_woken [OF Inv_parts(8) [OF inv v] w [unfolded v] eqs(1) held [OF False] eqs(2)] False
        woken_user_regs [OF Inv_parts(9) [OF inv v] w [unfolded v]] by blast
  qed
  moreover have "holders_ok k'"
    unfolding holders_ok_def
  proof (intro allI impI)
    fix t assume a: "held k' t \<noteq> {}"
    show "threads k' t \<noteq> None"
    proof (cases "t = currentThread k")
      case False
      then have "threads k t \<noteq> None" using Inv_parts(10) [OF inv] held a by (simp add: holders_ok_def)
      moreover have "woken (threads k t) (threads k' t)" using stays False by (simp add: stays_def)
      ultimately show ?thesis using woken_None [of "threads k t" "threads k' t"] by metis
    qed (simp add: eqs)
  qed
  ultimately show ?thesis
    using dev sched m Inv_parts(4) [OF inv] tbd eqs by (simp add: Inv_def tokens_ok_def)
qed

section \<open>Steps on the stack only\<close>

text \<open>The scheduler and the queues of the semaphores stay as they are.\<close>

definition local_step :: "kernel \<Rightarrow> kernel \<Rightarrow> thread \<Rightarrow> bool" where
  "local_step k k' th' \<longleftrightarrow>
     threads k' = (threads k)(currentThread k \<mapsto> th') \<and> currentThread k' = currentThread k \<and>
     readyList k' = readyList k \<and> toBeDestroyed k' = toBeDestroyed k \<and> next_object k' = next_object k \<and>
     (\<forall>s. map_option queue (semaphores k' s) = map_option queue (semaphores k s)) \<and>
     (\<forall>s sem. semaphores k' s = Some sem \<longrightarrow> 0 \<le> sem_value sem) \<and>
     (\<forall>x. map_option lock_semaphore (locks k' x) = map_option lock_semaphore (locks k x)) \<and>
     dom (conditions k') = dom (conditions k) \<and>
     (\<forall>sl. map_option (\<lambda>l. (sl_lock l, sl_listEmpty l)) (synch_lists k' sl) =
           map_option (\<lambda>l. (sl_lock l, sl_listEmpty l)) (synch_lists k sl)) \<and>
     device_lock k' = device_lock k \<and> device_semaphore k' = device_semaphore k"

lemma local_queue:
  assumes "local_step k k' th'"
  shows "map_option queue (semaphores k' s) = map_option queue (semaphores k s)"
  using assms by (simp add: local_step_def)

lemma local_stays:
  assumes "local_step k k' th'"
  shows "stays k k' th'"
proof -
  have "semaphores k' s = None \<longleftrightarrow> semaphores k s = None" for s
    using local_queue [OF assms, of s] by (metis map_option_is_None)
  then show ?thesis using assms by (simp add: local_step_def stays_def)
qed

lemma local_sleeps:
  assumes "local_step k k' th'"
  shows "sleeps_in k' t s \<longleftrightarrow> sleeps_in k t s"
  using local_queue [OF assms, of s]
  by (cases "semaphores k s"; cases "semaphores k' s") (simp_all add: sleeps_in_def)

lemma local_st: "local_step k k' th' \<Longrightarrow> st k' t = (if t = currentThread k then Some (status th') else st k t)"
  by (simp add: local_step_def st_def)

lemma local_sched:
  assumes "sched_ok k" "local_step k k' th'" "threads k (currentThread k) = Some th" "status th' = status th"
    and awake: "status th = BLOCKED \<Longrightarrow> waits_for (frames th') = waits_for (frames th) \<and>
      (finished (frames th) \<longrightarrow> finished (frames th'))"
  shows "sched_ok k'"
proof -
  have st: "st k' t = st k t" for t
    using local_st [OF assms(2)] assms(3,4) by (simp add: st_simps)
  have blk: "st k t = Some BLOCKED \<Longrightarrow> waits_for (fr k' t) = waits_for (fr k t)"
    "st k t = Some BLOCKED \<Longrightarrow> finished (fr k t) \<longrightarrow> finished (fr k' t)" for t
    using awake assms(3) by (auto simp: stays_fr [OF local_stays [OF assms(2)]] fr_simps st_simps)
  note sl = local_sleeps [OF assms(2)]
  have eqs: "readyList k' = readyList k" "next_object k' = next_object k"
    "threads k' = (threads k)(currentThread k \<mapsto> th')"
    using assms(2) by (simp_all add: local_step_def)
  have sems: "semaphores k' s = None \<longleftrightarrow> semaphores k s = None" for s
    using local_stays [OF assms(2)] by (simp add: stays_def)
  have "ids_ok k'"
    unfolding ids_ok_def sems eqs using assms(1,3) by (auto simp: sched_ok_def ids_ok_def)
  moreover have "ready_ok k'"
    unfolding ready_ok_def st eqs using sched_ready [OF assms(1)] by blast
  moreover have "queues_ok k'"
    unfolding queues_ok_def sl st
  proof (intro conjI allI impI)
    fix s sem assume a: "semaphores k' s = Some sem"
    then show "0 \<le> sem_value sem" using assms(2) by (simp add: local_step_def)
    obtain z where "semaphores k s = Some z" "queue z = queue sem"
      using local_queue [OF assms(2), of s] a by (cases "semaphores k s") auto
    then show "distinct (queue sem)" using sched_sem [OF assms(1), of s z] by simp
  next
    fix t s assume "sleeps_in k t s"
    from sched_sleeps [OF assms(1) this] blk(1) [of t]
    show "st k t = Some BLOCKED" "waits_for (fr k' t) = Some s" by auto
  qed
  moreover have "blocked_ok k'"
    unfolding blocked_ok_def sl st
  proof (intro allI impI)
    fix t assume "st k t = Some BLOCKED"
    with sched_blocked [OF assms(1) this] blk [of t]
    show "finished (fr k' t) \<or> (\<exists>s. waits_for (fr k' t) = Some s \<and> sleeps_in k t s)" by auto
  qed
  ultimately show ?thesis by (simp add: sched_ok_def)
qed

text \<open>\<open>quiet k k'\<close>: nothing that the tokens and the scheduler depend on has changed.\<close>

definition quiet :: "kernel \<Rightarrow> kernel \<Rightarrow> bool" where
  "quiet k k' \<longleftrightarrow>
     currentThread k' = currentThread k \<and> threads k' = threads k \<and>
     readyList k' = readyList k \<and> toBeDestroyed k' = toBeDestroyed k \<and> next_object k' = next_object k \<and>
     semaphores k' = semaphores k \<and> locks k' = locks k \<and> conditions k' = conditions k \<and>
     (\<forall>sl. map_option (\<lambda>l. (sl_lock l, sl_listEmpty l)) (synch_lists k' sl) =
           map_option (\<lambda>l. (sl_lock l, sl_listEmpty l)) (synch_lists k sl)) \<and>
     device_lock k' = device_lock k \<and> device_semaphore k' = device_semaphore k \<and>
     active (disk k') = active (disk k) \<and> putBusy (consoleOutput k') = putBusy (consoleOutput k) \<and>
     devices_ok k' \<and> \<not> inHandler k' \<and> kmachine k' \<noteq> None"

definition balanced :: "ctx \<Rightarrow> frame list \<Rightarrow> frame list \<Rightarrow> bool" where
  "balanced \<Gamma> fs gs \<longleftrightarrow>
     (\<forall>x s. c_locks \<Gamma> x = Some s \<longrightarrow> weight (w_lock x s) gs = weight (w_lock x s) fs) \<and>
     (\<forall>d \<in> busy_devices. weight (w_dev d (c_dsem \<Gamma> d)) gs = weight (w_dev d (c_dsem \<Gamma> d)) fs) \<and>
     (\<forall>s. s \<notin> statics \<Gamma> \<longrightarrow> weight (w_sem s) gs = weight (w_sem s) fs \<and> weight (w_del s) gs = weight (w_del s) fs) \<and>
     (\<forall>f \<in> set gs. \<forall>s. mentions f s \<longrightarrow> s \<notin> statics \<Gamma> \<longrightarrow> (\<exists>g \<in> set fs. mentions g s))"

lemma held_put_thread [simp]: "held (put_thread u th k) t = held k t"
  by (simp add: held_def put_thread_def)

lemma devices_ok_frame [simp]:
  "devices_ok (put_thread u th k) = devices_ok (k :: kernel)"
  "devices_ok (put_semaphore s sem k) = devices_ok (k :: kernel)"
  "devices_ok (k\<lparr>level := l\<rparr>) = devices_ok (k :: kernel)"
  "devices_ok (k\<lparr>mstatus := ms\<rparr>) = devices_ok (k :: kernel)"
  "devices_ok (k\<lparr>yieldOnReturn := b\<rparr>) = devices_ok (k :: kernel)"
  "devices_ok (k\<lparr>locks := lk\<rparr>) = devices_ok (k :: kernel)"
  "devices_ok (k\<lparr>conditions := cs\<rparr>) = devices_ok (k :: kernel)"
  "devices_ok (k\<lparr>synch_lists := sls\<rparr>) = devices_ok (k :: kernel)"
  "devices_ok (k\<lparr>semaphores := ss\<rparr>) = devices_ok (k :: kernel)"
  "devices_ok (k\<lparr>readyList := r\<rparr>) = devices_ok (k :: kernel)"
  "devices_ok (k\<lparr>toBeDestroyed := d\<rparr>) = devices_ok (k :: kernel)"
  "devices_ok (k\<lparr>currentThread := t\<rparr>) = devices_ok (k :: kernel)"
  "devices_ok (k\<lparr>next_object := n\<rparr>) = devices_ok (k :: kernel)"
  "devices_ok (k\<lparr>threads := ts\<rparr>) = devices_ok (k :: kernel)"
  by (simp_all add: devices_ok_def hardware_ok_def disk_ok_def keyboard_ok_def network_ok_def waiting_def put_thread_def
      put_semaphore_def)

lemma quiet_local:
  assumes "quiet k k1" "sched_ok k"
  shows "local_step k (put_thread (currentThread k) th' k1) th'"
  using assms sched_sem [OF assms(2)] by (auto simp: quiet_def local_step_def put_thread_def)

lemma quiet_shift: "quiet k k1 \<Longrightarrow> balanced \<Gamma> fs gs \<Longrightarrow> shift \<Gamma> k (put_thread c th' k1) fs gs"
  by (simp add: quiet_def balanced_def shift_def sv_def hb_def qb_def queued_def put_thread_def)

lemma queues_wf_cong:
  "conditions k' = conditions k \<Longrightarrow> semaphores k' = semaphores k \<Longrightarrow> queues_wf \<Gamma> k' = queues_wf \<Gamma> k"
  by (simp only: queues_wf_def)

lemma quiet_queues: "quiet k k1 \<Longrightarrow> queues_wf \<Gamma> k \<Longrightarrow> queues_wf \<Gamma> (put_thread c th' k1)"
  by (subst queues_wf_cong [of _ k]) (simp_all add: quiet_def put_thread_def)

lemma Inv_mention:
  assumes "Inv \<Gamma> k" "threads k t = Some th" "f \<in> set (frames th)" "mentions f s" "s \<notin> statics \<Gamma>"
  shows "semaphores k s \<noteq> None"
  using tokens_mention [OF Inv_parts(7) [OF assms(1)] _ assms(4,5), of t] assms(2,3) by (simp add: fr_simps)

lemma Inv_push:
  assumes inv: "Inv \<Gamma> k" and th: "threads k (currentThread k) = Some th" "ordinary (frames th)"
    and quiet: "quiet k k1"
    and th': "status th' = status th" "stack th' = stack th" "userRegisters th' = userRegisters th"
      "space th' = space th"
    and balanced: "balanced \<Gamma> (frames th) (frames th')"
    and typed: "typed \<Gamma> (level k1) (held k (currentThread k)) (frames th')"
  shows "Inv \<Gamma> (put_thread (currentThread k) th' k1)"
proof (rule Inv_stay [OF inv th])
  note sched = Inv_parts(6) [OF inv] and run = Inv_ordinary(1) [OF inv th]
  note lo = quiet_local [OF quiet sched, of th']
  show "stays k (put_thread (currentThread k) th' k1) th'" by (rule local_stays [OF lo])
  show "sched_ok (put_thread (currentThread k) th' k1)"
    by (rule local_sched [OF sched lo th(1) th'(1)]) (use run in simp)
  show "status th' = RUNNING" "stack th' = stack th" using run th' by simp_all
  show "user_regs_ok th'" using Inv_parts(9) [OF inv th(1)] th' by (simp add: user_regs_ok_def)
  show "devices_ok (put_thread (currentThread k) th' k1)" "\<not> inHandler (put_thread (currentThread k) th' k1)"
    "kmachine (put_thread (currentThread k) th' k1) \<noteq> None"
    using quiet by (simp_all add: quiet_def) (simp_all add: put_thread_def)
  show "shift \<Gamma> k (put_thread (currentThread k) th' k1) (frames th) (frames th')"
    by (rule quiet_shift [OF quiet balanced])
  show "queues_wf \<Gamma> (put_thread (currentThread k) th' k1)"
    by (rule quiet_queues [OF quiet tokens_queues [OF Inv_parts(7) [OF inv]]])
  show "semaphores k s \<noteq> None" if m: "f \<in> set (frames th')" "mentions f s" "s \<notin> statics \<Gamma>" for f s
  proof -
    obtain g where "g \<in> set (frames th)" "mentions g s" using m balanced unfolding balanced_def by blast
    with Inv_mention [OF inv th(1)] m(3) show ?thesis by blast
  qed
  have held: "held k1 t = held k t" for t using quiet by (simp add: quiet_def held_def)
  then show "held (put_thread (currentThread k) th' k1) t = held k t" for t by simp
  show "typed \<Gamma> (level (put_thread (currentThread k) th' k1))
      (held (put_thread (currentThread k) th' k1) (currentThread k)) (frames th')"
    using typed held by simp (simp add: put_thread_def)
qed

end
