(* ===== verification/Kernel_Steps.thy ===== *)
theory Kernel_Steps
  imports Thread_Steps
begin

text \<open>
  Every piece of kernel code keeps the invariant and runs without a fault, except that the handlers
  may never return when the clock has come to its end.
\<close>

section \<open>Ticks\<close>

definition runs :: "ctx \<Rightarrow> kernel res \<Rightarrow> bool" where
  "runs \<Gamma> r \<longleftrightarrow> r = Inl Diverges \<or> (\<exists>k'. r = Inr k' \<and> Inv \<Gamma> k')"

lemma runs_Diverges [simp]: "runs \<Gamma> (Inl Diverges)"
  by (simp add: runs_def)

lemma runs_Inr [simp]: "runs \<Gamma> (Inr k) \<longleftrightarrow> Inv \<Gamma> k"
  by (simp add: runs_def)

lemma runs_bindr: "runs \<Gamma> r \<Longrightarrow> (\<And>k. Inv \<Gamma> k \<Longrightarrow> runs \<Gamma> (f k)) \<Longrightarrow> runs \<Gamma> (bindr r f)"
  by (force simp: runs_def)

lemma disturbed_level: "disturbed \<Gamma> (k\<lparr>level := l\<rparr>) k' = disturbed \<Gamma> k k'"
  by (simp add: disturbed_def)

lemma disturbed_fr: "disturbed \<Gamma> k k' \<Longrightarrow> fr k' = fr k"
  by (intro ext woken_fr1) (simp add: disturbed_def)

lemma disturbed_total: "disturbed \<Gamma> k k' \<Longrightarrow> frame_total w k' = frame_total w k"
  using disturbed_fr [of \<Gamma> k k'] by (intro total_fr) (simp_all add: disturbed_def)

lemma disturbed_matches: "matches \<Gamma> k \<Longrightarrow> disturbed \<Gamma> k k' \<Longrightarrow> matches \<Gamma> k'"
  by (simp add: matches_def disturbed_def)

lemma disturbed_thread: "disturbed \<Gamma> k k' \<Longrightarrow> threads k t = Some th \<Longrightarrow> status th = RUNNING \<Longrightarrow> threads k' t = Some th"
proof -
  assume a: "disturbed \<Gamma> k k'" "threads k t = Some th" "status th = RUNNING"
  then have "woken (Some th) (threads k' t)" unfolding disturbed_def by metis
  then show ?thesis using a(3) by (simp add: woken_def)
qed

lemma lock_not_device: "ctx_ok \<Gamma> \<Longrightarrow> c_locks \<Gamma> x = Some s \<Longrightarrow> s \<notin> device_semaphores \<Gamma>"
  using ranI [of "c_locks \<Gamma>" x s] unfolding ctx_ok_def device_semaphores_def by blast

lemma served_tokens:
  assumes "tokens_ok \<Gamma> k" "matches \<Gamma> k" "ctx_ok \<Gamma>" "served \<Gamma> k k'"
  shows "tokens_ok \<Gamma> k'"
proof -
  have d: "disturbed \<Gamma> k k'" and dev: "dev_tokens \<Gamma> (active (disk k')) (putBusy (consoleOutput k')) k'"
    using assms(4) by (simp_all add: served_def)
  note tot = disturbed_total [OF d] and m = disturbed_matches [OF assms(2) d]
  have sems: "semaphores k' s = semaphores k s" if "s \<notin> device_semaphores \<Gamma>" for s
    using d that by (simp add: disturbed_def)
  have none: "semaphores k' s = None \<longleftrightarrow> semaphores k s = None" for s using d by (simp add: disturbed_def)
  have eqs: "locks k' = locks k" "conditions k' = conditions k" using d by (simp_all add: disturbed_def)
  show ?thesis
  proof (rule tokens_okI)
    show "sv k' s + hb k' x + frame_total (w_lock x s) k' = 1" if "c_locks \<Gamma> x = Some s" for x s
      using tokens_lock [OF assms(1,2) that] sems [OF lock_not_device [OF assms(3) that]]
      by (simp add: tot sv_def hb_def eqs)
    show "sv k' (c_dsem \<Gamma> d) + db k' d + frame_total (w_dev d (c_dsem \<Gamma> d)) k' = 0" if "d \<in> busy_devices" for d
    proof -
      have "c_dsem \<Gamma> d \<in> statics \<Gamma>" using that by (auto simp: statics_def)
      then obtain sem where "semaphores k' (c_dsem \<Gamma> d) = Some sem" using m by (auto simp: matches_def)
      with dev that show ?thesis by (simp add: dev_tokens_def sv_def)
    qed
    show "sv k' s + qb k' s + frame_total (w_sem s) k' = 0 \<and> frame_total (w_del s) k' = 1"
      if "s \<notin> statics \<Gamma>" "semaphores k' s \<noteq> None" for s
    proof -
      have "s \<notin> device_semaphores \<Gamma>" using that(1) dsem_static [OF assms(3)] by (auto simp: device_semaphores_def)
      then show ?thesis
        using tokens_waiter [OF assms(1) that(1)] that(2) sems [of s]
        by (simp add: tot sv_def qb_def queued_def eqs)
    qed
    show "semaphores k' s \<noteq> None" if "f \<in> set (fr k' t)" "mentions f s" "s \<notin> statics \<Gamma>" for t f s
      using that tokens_mention [OF assms(1), of f t s] unfolding none disturbed_fr [OF d] by blast
    show "queues_wf \<Gamma> k'"
      using tokens_queues [OF assms(1)] unfolding queues_wf_def eqs none .
  qed (rule m)
qed

lemma served_Inv:
  assumes "Inv \<Gamma> (k\<lparr>level := l\<rparr>)" "served \<Gamma> k k'" "level k' = l"
  shows "Inv \<Gamma> k'"
proof -
  let ?k = "k\<lparr>level := l\<rparr>"
  have sv: "served \<Gamma> ?k k'" using assms(2) by (simp add: served_def disturbed_level)
  then have d: "disturbed \<Gamma> ?k k'" by (simp add: served_def)
  then have eqs: "currentThread k' = currentThread ?k" "toBeDestroyed k' = toBeDestroyed ?k"
    "\<And>t. woken (threads ?k t) (threads k' t)" "locks k' = locks ?k"
    by (simp_all add: disturbed_def)
  note p = Inv_parts [OF assms(1)]
  have "thread_ok \<Gamma> k' t u \<and> user_regs_ok u" if u: "threads k' t = Some u" for t u
  proof -
    have w: "woken (threads ?k t) (Some u)" using eqs(3) [of t] u by simp
    then obtain v where v: "threads ?k t = Some v" using woken_None by fastforce
    have "held k' t = held ?k t" by (simp add: held_def eqs(4))
    then show ?thesis
      using thread_ok_woken [OF p(8) [OF v] w [unfolded v] eqs(1) _ eqs(2)] assms(3)
        woken_user_regs [OF p(9) [OF v] w [unfolded v]] by simp
  qed
  moreover have "threads k' (currentThread k') \<noteq> None"
    using eqs(1) eqs(3) [of "currentThread k"] assms(1) woken_None by (force simp: Inv_def)
  moreover have "fr k' = fr ?k" by (rule disturbed_fr [OF d])
  moreover have "tokens_ok \<Gamma> k'" by (rule served_tokens [OF p(7,5,4) sv])
  moreover have "holders_ok k'"
    unfolding holders_ok_def
  proof (intro allI impI)
    fix t assume "held k' t \<noteq> {}"
    then have "held ?k t \<noteq> {}" by (simp add: held_def eqs(4))
    then have "threads ?k t \<noteq> None" using p(10) unfolding holders_ok_def by blast
    then show "threads k' t \<noteq> None" using woken_None [OF eqs(3) [of t]] by metis
  qed
  moreover have "\<forall>t. toBeDestroyed ?k = Some t \<longrightarrow> t \<noteq> currentThread ?k \<and> fr ?k t = [F_Run_back]"
    using assms(1) unfolding Inv_def by (elim conjE)
  ultimately show ?thesis
    using sv p(3,4) disturbed_matches [OF p(5) d] eqs(1,2) by (simp add: Inv_def tokens_ok_def served_def)
qed

lemma Inv_interruptible: "Inv \<Gamma> (k\<lparr>level := l\<rparr>) \<Longrightarrow> interruptible \<Gamma> k"
proof -
  assume a: "Inv \<Gamma> (k\<lparr>level := l\<rparr>)"
  have "disturbed \<Gamma> (k\<lparr>level := l\<rparr>) k" by (simp add: disturbed_def)
  then have "matches \<Gamma> k" by (rule disturbed_matches [OF Inv_parts(5) [OF a]])
  moreover have "sched_ok k" using Inv_parts(6) [OF a] more_sched_ok [of "k\<lparr>level := l\<rparr>" k] by simp
  moreover have "dev_tokens \<Gamma> (active (disk k)) (putBusy (consoleOutput k)) k"
    using Inv_parts(7) [OF a] by (simp add: tokens_ok_def dev_tokens_def frame_total_def fr_def)
  ultimately show ?thesis
    using Inv_parts [OF a] by (simp add: interruptible_def)
qed

text \<open>\<open>OneTick\<close> on a thread that is running.\<close>

lemma quietI:
  assumes "Inv \<Gamma> k" "k1 = k\<lparr>level := l, mstatus := ms, yieldOnReturn := y\<rparr>"
  shows "quiet k k1"
  using Inv_parts(1-3) [OF assms(1)] by (simp add: quiet_def assms(2)) 

lemma balanced_light:
  assumes "\<And>x s f. f \<in> set gs \<Longrightarrow> w_sem s f = 0 \<and> w_acq x f = 0 \<and> w_del s f = 0 \<and> \<not> mentions f s"
    "\<And>d f. f \<in> set gs \<Longrightarrow> w_req d f = 0"
  shows "balanced \<Gamma> fs (gs @ fs)"
proof -
  have "weight (w_lock x s) gs = 0" "weight (w_dev d s) gs = 0" "weight (w_sem s) gs = 0" "weight (w_del s) gs = 0" for x d s
    using assms by (induction gs) auto
  moreover have "f \<in> set gs \<Longrightarrow> \<not> mentions f s" for f s using assms(1) by blast
  ultimately show ?thesis by (auto simp: balanced_def)
qed

lemma OneTick_runs:
  assumes inv: "Inv \<Gamma> (k\<lparr>level := IntOn\<rparr>)" and th: "threads k (currentThread k) = Some th" "ordinary (frames th)"
  shows "runs \<Gamma> (OneTick k)"
proof (cases rule: OneTick_handlers_kernel [OF Inv_interruptible [OF inv], case_names hangs serves])
  case hangs
  then show ?thesis by (simp add: OneTick_def Let_def)
next
  case k1: (serves k1)
  have inv1: "Inv \<Gamma> k1" by (rule served_Inv [OF inv k1(2,3)])
  have "status th = RUNNING" using Inv_ordinary(1) [OF inv _ th(2)] th(1) by simp
  then have th1: "threads k1 (currentThread k1) = Some th"
    using k1(2) th(1) disturbed_thread [of \<Gamma> k k1] by (simp add: served_def disturbed_def)
  have typed: "typed \<Gamma> IntOn (held k1 (currentThread k1)) (frames th)"
    using Inv_ordinary(4) [OF inv1 th1 th(2)] k1(3) by simp
  have "runs \<Gamma> (call [F_Yield, F_setStatus ms] (k1\<lparr>yieldOnReturn := False, mstatus := SystemMode\<rparr>))" for ms
  proof -
    let ?k1 = "k1\<lparr>level := IntOn, mstatus := SystemMode, yieldOnReturn := False\<rparr>"
    have eq: "k1\<lparr>yieldOnReturn := False, mstatus := SystemMode\<rparr> = ?k1" using k1(3) by simp
    have "balanced \<Gamma> (frames th) ([F_Yield, F_setStatus ms] @ frames th)" by (rule balanced_light) auto
    then have "Inv \<Gamma> (put_thread (currentThread k1) (th\<lparr>frames := [F_Yield, F_setStatus ms] @ frames th\<rparr>) ?k1)"
      by (intro Inv_push [OF inv1 th1 th(2) quietI [OF inv1 refl]]) (simp_all add: typed)
    then show ?thesis using th1 by (simp add: eq call_def)
  qed
  then show ?thesis using k1(1) inv1 by (simp add: OneTick_def Let_def)
qed

lemma SetLevel_runs:
  assumes inv: "Inv \<Gamma> (k\<lparr>level := l\<rparr>)" and th: "threads k (currentThread k) = Some th" "ordinary (frames th)"
  shows "runs \<Gamma> (SetLevel l k)"
proof -
  have "\<not> inHandler k" using Inv_parts(2) [OF inv] by simp
  moreover have "runs \<Gamma> (OneTick (ChangeLevel IntOn k))" if "l = IntOn"
    by (rule OneTick_runs) (use inv th that in \<open>simp_all add: ChangeLevel_def\<close>)
  ultimately show ?thesis using inv by (auto simp: SetLevel_def ChangeLevel_def Let_def)
qed

section \<open>Calls\<close>

text \<open>The state of the running thread, and the state in which its top frame is executed.\<close>

definition runs_frame :: "ctx \<Rightarrow> kernel \<Rightarrow> thread \<Rightarrow> frame \<Rightarrow> frame list \<Rightarrow> bool" where
  "runs_frame \<Gamma> k th f fs \<longleftrightarrow> Inv \<Gamma> k \<and> threads k (currentThread k) = Some th \<and> frames th = f # fs"

abbreviation popped :: "kernel \<Rightarrow> thread \<Rightarrow> frame list \<Rightarrow> kernel" where
  "popped k th fs \<equiv> put_thread (currentThread k) (th\<lparr>frames := fs\<rparr>) k"

lemma put_thread_fields [simp]:
  "threads (put_thread u th k) = (threads k)(u \<mapsto> th)"
  "currentThread (put_thread u th k) = currentThread k"
  "readyList (put_thread u th k) = readyList k"
  "toBeDestroyed (put_thread u th k) = toBeDestroyed k"
  "semaphores (put_thread u th k) = semaphores k"
  "locks (put_thread u th k) = locks k"
  "conditions (put_thread u th k) = conditions k"
  "synch_lists (put_thread u th k) = synch_lists k"
  "next_object (put_thread u th k) = next_object k"
  "device_semaphore (put_thread u th k) = device_semaphore k"
  "device_lock (put_thread u th k) = device_lock k"
  "level (put_thread u th k) = level k"
  "inHandler (put_thread u th k) = inHandler k"
  "kmachine (put_thread u th k) = kmachine k"
  "disk (put_thread u th k) = disk k"
  "consoleOutput (put_thread u th k) = consoleOutput k"
  "consoleInput (put_thread u th k) = consoleInput k"
  by (simp_all add: put_thread_def)

lemma put_thread_commute [simp]:
  "(put_thread u th k)\<lparr>level := l\<rparr> = put_thread u th (k\<lparr>level := l\<rparr>)"
  "(put_thread u th k)\<lparr>mstatus := ms\<rparr> = put_thread u th (k\<lparr>mstatus := ms\<rparr>)"
  "(put_thread u th k)\<lparr>locks := lk\<rparr> = put_thread u th (k\<lparr>locks := lk\<rparr>)"
  "(put_thread u th k)\<lparr>conditions := cs\<rparr> = put_thread u th (k\<lparr>conditions := cs\<rparr>)"
  "(put_thread u th k)\<lparr>synch_lists := sls\<rparr> = put_thread u th (k\<lparr>synch_lists := sls\<rparr>)"
  "(put_thread u th k)\<lparr>semaphores := ss\<rparr> = put_thread u th (k\<lparr>semaphores := ss\<rparr>)"
  "(put_thread u th k)\<lparr>readyList := r\<rparr> = put_thread u th (k\<lparr>readyList := r\<rparr>)"
  "(put_thread u th k)\<lparr>next_object := n\<rparr> = put_thread u th (k\<lparr>next_object := n\<rparr>)"
  by (simp_all add: put_thread_def)

lemma put_thread_twice [simp]: "put_thread u th' (put_thread u th k) = put_thread u th' k"
  by (simp add: put_thread_def)

lemma call_popped [simp]:
  "currentThread k1 = u \<Longrightarrow>
    call gs (put_thread u (th\<lparr>frames := fs\<rparr>) k1) = Inr (put_thread u (th\<lparr>frames := gs @ fs\<rparr>) k1)"
  by (simp add: call_def)

lemma quiet_thread: "quiet k k1 \<Longrightarrow> currentThread k1 = currentThread k"
  by (simp add: quiet_def)

lemma runs_frame_ordinary:
  assumes "runs_frame \<Gamma> k th f fs" "ordinary (f # fs)"
  shows "typed \<Gamma> (level k) (held k (currentThread k)) (f # fs)" "status th = RUNNING"
    "toBeDestroyed k = None" "ordinary (frames th)"
proof -
  from assms have a: "Inv \<Gamma> k" "threads k (currentThread k) = Some th" "ordinary (frames th)" "frames th = f # fs"
    by (simp_all add: runs_frame_def)
  show "typed \<Gamma> (level k) (held k (currentThread k)) (f # fs)" "status th = RUNNING" "toBeDestroyed k = None"
    using Inv_ordinary [OF a(1-3)] a(4) by simp_all
qed (use assms in \<open>simp add: runs_frame_def\<close>)

lemma balanced_heads:
  assumes "balanced \<Gamma> [f] gs"
  shows "balanced \<Gamma> (f # fs) (gs @ fs)"
  using assms unfolding balanced_def by (auto simp: weight_def)

text \<open>A frame that is replaced by the frames \<open>gs\<close> of what it calls.\<close>

lemma push_Inv:
  assumes f: "runs_frame \<Gamma> k th f fs" "ordinary (f # fs)" and quiet: "quiet k k1"
    and gs: "typed \<Gamma> (level k1) (held k (currentThread k)) (gs @ fs)" "balanced \<Gamma> [f] gs"
  shows "Inv \<Gamma> (put_thread (currentThread k) (th\<lparr>frames := gs @ fs, returned := v, sector_data := d\<rparr>) k1)"
  by (rule Inv_push [OF _ _ runs_frame_ordinary(4) [OF f] quiet])
    (use f(1) gs balanced_heads [OF gs(2)] in \<open>simp_all add: runs_frame_def\<close>)

lemma push_frames:
  assumes "runs_frame \<Gamma> k th f fs" "ordinary (f # fs)" "quiet k k1"
    and "typed \<Gamma> (level k1) (held k (currentThread k)) (gs @ fs)" "balanced \<Gamma> [f] gs"
  shows "Inv \<Gamma> (popped k1 th (gs @ fs))"
proof -
  have "th\<lparr>frames := gs @ fs, returned := returned th, sector_data := sector_data th\<rparr> = th\<lparr>frames := gs @ fs\<rparr>"
    by (cases th) simp
  with push_Inv [OF assms, of "sector_data th" "returned th"] quiet_thread [OF assms(3)] show ?thesis by simp
qed

lemma balancedI:
  assumes "\<And>x s. c_locks \<Gamma> x = Some s \<Longrightarrow> weight (w_lock x s) gs = weight (w_lock x s) fs"
    "\<And>d. d \<in> busy_devices \<Longrightarrow> weight (w_dev d (c_dsem \<Gamma> d)) gs = weight (w_dev d (c_dsem \<Gamma> d)) fs"
    "\<And>s. s \<notin> statics \<Gamma> \<Longrightarrow> weight (w_sem s) gs = weight (w_sem s) fs \<and> weight (w_del s) gs = weight (w_del s) fs"
    "\<And>f s. f \<in> set gs \<Longrightarrow> mentions f s \<Longrightarrow> s \<notin> statics \<Gamma> \<Longrightarrow> \<exists>g \<in> set fs. mentions g s"
  shows "balanced \<Gamma> fs gs"
  using assms unfolding balanced_def by blast

lemma users_static: "s \<in> users \<Gamma> \<Longrightarrow> s \<in> statics \<Gamma>"
  by (simp add: statics_def)

lemma Inv_lock:
  assumes "Inv \<Gamma> k" "x \<in> dom (c_locks \<Gamma>)"
  obtains lk where "locks k x = Some lk" "c_locks \<Gamma> x = Some (lock_semaphore lk)"
  using assms Inv_parts(5) [OF assms(1)] by (auto simp: matches_def)

lemma Inv_cond:
  assumes "Inv \<Gamma> k" "c \<in> c_conds \<Gamma>"
  obtains cond where "conditions k c = Some cond"
  using assms Inv_parts(5) [OF assms(1)] by (auto simp: matches_def)

lemma Inv_list:
  assumes "Inv \<Gamma> k" "c_lists \<Gamma> sl = Some (x, c)"
  obtains l where "synch_lists k sl = Some l" "sl_lock l = x" "sl_listEmpty l = c"
  using assms Inv_parts(5) [OF assms(1)] by (auto simp: matches_def)

lemma list_owner:
  assumes "ctx_ok \<Gamma>" "c_lists \<Gamma> sl = Some (x, c)"
  shows "x \<in> dom (c_locks \<Gamma>)" "x \<notin> range (c_dlock \<Gamma>)" "c \<in> c_conds \<Gamma>"
  using assms unfolding ctx_ok_def by blast+

lemma not_device_settled: "x \<notin> range (c_dlock \<Gamma>) \<Longrightarrow> settled \<Gamma> x fs"
  by (auto simp: settled_def)

lemma quiet_level:
  assumes "runs_frame \<Gamma> k th f fs"
  shows "quiet k k" "quiet k (k\<lparr>level := l\<rparr>)" "quiet k (k\<lparr>mstatus := ms\<rparr>)"
  using assms Inv_parts(1-3) [of \<Gamma> k] by (simp_all add: quiet_def runs_frame_def)

lemma tick_frames:
  assumes f: "runs_frame \<Gamma> k th f fs" and "f = F_SetLevel l \<or> f = F_OneTick \<and> l = IntOn"
  shows "Inv \<Gamma> (popped (k\<lparr>level := l\<rparr>) th fs)" "ordinary fs"
proof -
  have t: "typed \<Gamma> l (held k (currentThread k)) fs" using runs_frame_ordinary(1) [OF f] assms(2) by auto
  then show "ordinary fs" by (rule typed_ordinary)
  have "balanced \<Gamma> [f] []" using assms(2) by (auto simp: balanced_def)
  then show "Inv \<Gamma> (popped (k\<lparr>level := l\<rparr>) th fs)"
    using push_frames [OF f _ quiet_level(2) [OF f], of l "[]"] t assms(2) by auto
qed

lemma step_SetLevel:
  assumes f: "runs_frame \<Gamma> k th (F_SetLevel l) fs"
  shows "runs \<Gamma> (exec (F_SetLevel l) (popped k th fs))"
  using tick_frames [OF f, of l] by (simp add: SetLevel_runs)

lemma step_OneTick:
  assumes f: "runs_frame \<Gamma> k th F_OneTick fs"
  shows "runs \<Gamma> (exec F_OneTick (popped k th fs))"
  using tick_frames [OF f, of IntOn] by (simp add: OneTick_runs)

lemma step_setStatus:
  assumes f: "runs_frame \<Gamma> k th (F_setStatus ms) fs"
  shows "runs \<Gamma> (exec (F_setStatus ms) (popped k th fs))"
proof -
  have "balanced \<Gamma> [F_setStatus ms] []" by (simp add: balanced_def)
  then show ?thesis
    using push_frames [OF f _ quiet_level(3) [OF f], of ms "[]"] runs_frame_ordinary(1) [OF f] by simp
qed

lemma step_P:
  assumes f: "runs_frame \<Gamma> k th (F_P s) fs"
  shows "runs \<Gamma> (exec (F_P s) (popped k th fs))"
proof -
  have "balanced \<Gamma> [F_P s] [F_P_loop s, F_SetLevel (level k)]"
    by (simp add: balanced_def)
  then have "Inv \<Gamma> (popped (k\<lparr>level := IntOff\<rparr>) th ([F_P_loop s, F_SetLevel (level k)] @ fs))"
    using push_frames [OF f _ quiet_level(2) [OF f], of IntOff "[F_P_loop s, F_SetLevel (level k)]"]
      runs_frame_ordinary(1) [OF f] by simp
  then show ?thesis by (simp add: Semaphore_P_def SetLevel_def ChangeLevel_def Let_def)
qed

lemma runs_frame_Inv:
  assumes "runs_frame \<Gamma> k th f fs"
  shows "Inv \<Gamma> k" "ctx_ok \<Gamma>" "matches \<Gamma> k" "devices_ok k" "kmachine k \<noteq> None" "\<not> inHandler k"
  using assms Inv_parts [of \<Gamma> k] by (simp_all add: runs_frame_def)

lemma step_Acquire:
  assumes f: "runs_frame \<Gamma> k th (F_Acquire x) fs"
  shows "runs \<Gamma> (exec (F_Acquire x) (popped k th fs))"
proof -
  have t: "x \<in> dom (c_locks \<Gamma>)" "x \<notin> held k (currentThread k)" "settled \<Gamma> x fs"
    "typed \<Gamma> (level k) (insert x (held k (currentThread k))) fs"
    using runs_frame_ordinary(1) [OF f] by simp_all
  from runs_frame_Inv(1) [OF f] t(1) obtain lk where lk: "locks k x = Some lk" "c_locks \<Gamma> x = Some (lock_semaphore lk)"
    by (rule Inv_lock)
  let ?s = "lock_semaphore lk"
  let ?gs = "[F_P ?s, F_Acquired x]"
  note own = lock_semaphore_owner [OF runs_frame_Inv(2) [OF f] lk(2)]
  have "balanced \<Gamma> [F_Acquire x] ?gs"
  proof (rule balancedI)
    show "weight (w_lock y s) ?gs = weight (w_lock y s) [F_Acquire x]" if "c_locks \<Gamma> y = Some s" for y s
    proof (cases "s = ?s")
      case True
      then show ?thesis using own(4) that by simp
    next
      case False
      then have "x \<noteq> y" using that lk(2) by auto
      then show ?thesis using False by simp
    qed
  qed (use own(2,3) in auto)
  then have "Inv \<Gamma> (popped k th (?gs @ fs))"
    using push_frames [OF f _ quiet_level(1) [OF f], of ?gs] t lk(2) by (simp add: P_owner_def)
  then show ?thesis by (simp add: Acquire_def lk(1))
qed

lemma step_SynchAppend:
  assumes f: "runs_frame \<Gamma> k th (F_SynchAppend sl v) fs"
  shows "runs \<Gamma> (exec (F_SynchAppend sl v) (popped k th fs))"
proof -
  obtain x c where x: "c_lists \<Gamma> sl = Some (x, c)" "x \<notin> held k (currentThread k)"
    and t: "typed \<Gamma> (level k) (held k (currentThread k)) fs"
    using runs_frame_ordinary(1) [OF f] by auto
  note own = list_owner [OF runs_frame_Inv(2) [OF f] x(1)]
  from runs_frame_Inv(1) [OF f] x(1) obtain l where l: "synch_lists k sl = Some l" "sl_lock l = x" "sl_listEmpty l = c"
    by (rule Inv_list)
  let ?gs = "[F_Acquire x, F_ListAppend sl v, F_Signal c x, F_Release x]"
  have "balanced \<Gamma> [F_SynchAppend sl v] ?gs" by (simp add: balanced_def)
  then have "Inv \<Gamma> (popped k th (?gs @ fs))"
    using push_frames [OF f _ quiet_level(1) [OF f], of ?gs] x t own not_device_settled by simp
  then show ?thesis by (simp add: SynchList_Append_def l)
qed

lemma step_SynchRemove:
  assumes f: "runs_frame \<Gamma> k th (F_SynchRemove sl) fs"
  shows "runs \<Gamma> (exec (F_SynchRemove sl) (popped k th fs))"
proof -
  obtain x c where x: "c_lists \<Gamma> sl = Some (x, c)" "x \<notin> held k (currentThread k)"
    and t: "typed \<Gamma> (level k) (held k (currentThread k)) fs"
    using runs_frame_ordinary(1) [OF f] by auto
  note own = list_owner [OF runs_frame_Inv(2) [OF f] x(1)]
  from runs_frame_Inv(1) [OF f] x(1) obtain l where l: "synch_lists k sl = Some l" "sl_lock l = x" "sl_listEmpty l = c"
    by (rule Inv_list)
  let ?gs = "[F_Acquire x, F_SynchRemove_loop sl, F_Release x]"
  have "balanced \<Gamma> [F_SynchRemove sl] ?gs" by (simp add: balanced_def)
  then have "Inv \<Gamma> (popped k th (?gs @ fs))"
    using push_frames [OF f _ quiet_level(1) [OF f], of ?gs] x t own not_device_settled by simp
  then show ?thesis by (simp add: SynchList_RemoveFront_def l)
qed

lemma quiet_items:
  assumes f: "runs_frame \<Gamma> k th f fs" and "synch_lists k sl = Some l"
  shows "quiet k (k\<lparr>synch_lists := (synch_lists k)(sl \<mapsto> l\<lparr>items := vs\<rparr>)\<rparr>)"
  using runs_frame_Inv [OF f] assms(2) by (simp add: quiet_def)

lemma step_SynchRemove_loop:
  assumes f: "runs_frame \<Gamma> k th (F_SynchRemove_loop sl) fs"
  shows "runs \<Gamma> (exec (F_SynchRemove_loop sl) (popped k th fs))"
proof -
  obtain x c where x: "c_lists \<Gamma> sl = Some (x, c)" "x \<in> held k (currentThread k)"
    and t: "typed \<Gamma> (level k) (held k (currentThread k)) fs"
    using runs_frame_ordinary(1) [OF f] by auto
  note own = list_owner [OF runs_frame_Inv(2) [OF f] x(1)]
  from runs_frame_Inv(1) [OF f] x(1) obtain l where l: "synch_lists k sl = Some l" "sl_lock l = x" "sl_listEmpty l = c"
    by (rule Inv_list)
  show ?thesis
  proof (cases "items l")
    case Nil
    let ?gs = "[F_Wait c x, F_SynchRemove_loop sl]"
    have "balanced \<Gamma> [F_SynchRemove_loop sl] ?gs" by (simp add: balanced_def)
    then have "Inv \<Gamma> (popped k th (?gs @ fs))"
      using push_frames [OF f _ quiet_level(1) [OF f], of ?gs] x t own by simp
    then show ?thesis by (simp add: SynchRemove_loop_def l Nil)
  next
    case (Cons v vs)
    have "balanced \<Gamma> [F_SynchRemove_loop sl] []" by (simp add: balanced_def)
    then show ?thesis
      using push_Inv [OF f _ quiet_items [OF f l(1)], of vs "[]" "sector_data th" v] t
      by (fastforce simp: SynchRemove_loop_def l Cons seq_remove_front_def return_value_def)
  qed
qed

text \<open>The requests of the synchronized devices take the lock of the device first.\<close>

lemma request_Inv:
  assumes f: "runs_frame \<Gamma> k th f fs" "ordinary [f]" and d: "d \<in> busy_devices"
    and t: "c_dlock \<Gamma> d \<notin> held k (currentThread k)" "typed \<Gamma> (level k) (held k (currentThread k)) fs"
    and req: "\<And>e. w_req e r = (if e = d then 1 else 0)" "\<And>s. w_sem s r = 0" "\<And>x. w_acq x r = 0"
      "\<And>s. w_del s r = 0" "\<And>s. \<not> mentions r s"
    and typed: "\<And>H gs. c_dlock \<Gamma> d \<in> H \<Longrightarrow> typed \<Gamma> (level k) H (F_P (c_dsem \<Gamma> d) # gs) \<Longrightarrow>
      typed \<Gamma> (level k) H (r # F_P (c_dsem \<Gamma> d) # gs)"
    and weights: "\<And>s. w_sem s f = 0" "\<And>x. w_acq x f = 0" "\<And>s. w_del s f = 0" "\<And>d. w_req d f = 0"
  shows "Inv \<Gamma> (popped k th ([F_Acquire (c_dlock \<Gamma> d), r, F_P (c_dsem \<Gamma> d), F_Release (c_dlock \<Gamma> d)] @ fs))"
proof (rule push_frames [OF f(1) _ quiet_level(1) [OF f(1)]])
  note c = runs_frame_Inv(2) [OF f(1)]
  let ?x = "c_dlock \<Gamma> d" and ?s = "c_dsem \<Gamma> d"
  have dom: "?x \<in> dom (c_locks \<Gamma>)" using c d unfolding ctx_ok_def busy_devices_def by auto
  have other: "e = d" if "e \<in> busy_devices" "c_dlock \<Gamma> e = ?x" for e
    using c d that unfolding ctx_ok_def busy_devices_def by auto
  note s = typed_w_dev_free [OF t(2) c t(1)] and own = dev_semaphore_owner [OF c d]
  have "settled \<Gamma> ?x (r # F_P ?s # F_Release ?x # fs)"
    unfolding settled_def
  proof (intro ballI impI)
    fix e assume e: "e \<in> busy_devices" "?x = c_dlock \<Gamma> e"
    have "e = d" by (rule other [OF e(1) e(2) [symmetric]])
    then show "weight (w_dev e (c_dsem \<Gamma> e)) (r # F_P ?s # F_Release ?x # fs) = 0"
      using settledD [OF s d] by (simp add: req)
  qed
  moreover have "P_owner \<Gamma> (insert ?x (held k (currentThread k))) ?s (F_Release ?x # fs)"
    unfolding P_owner_def using d by blast
  ultimately show "typed \<Gamma> (level k) (held k (currentThread k))
      ([F_Acquire ?x, r, F_P ?s, F_Release ?x] @ fs)"
    using t dom typed by simp
  show "balanced \<Gamma> [f] [F_Acquire ?x, r, F_P ?s, F_Release ?x]"
  proof (rule balancedI)
    show "weight (w_dev e (c_dsem \<Gamma> e)) [F_Acquire ?x, r, F_P ?s, F_Release ?x] = weight (w_dev e (c_dsem \<Gamma> e)) [f]"
      if "e \<in> busy_devices" for e
    proof (cases "e = d")
      case False
      then have "c_dsem \<Gamma> d \<noteq> c_dsem \<Gamma> e" using own(4) [OF that] by metis
      then show ?thesis using False by (simp add: req weights)
    qed (simp add: req weights)
    show "weight (w_lock y s) [F_Acquire ?x, r, F_P ?s, F_Release ?x] = weight (w_lock y s) [f]"
      if "c_locks \<Gamma> y = Some s" for y s
    proof -
      have "?s \<noteq> s" using own(3) that by metis
      then show ?thesis by (simp add: req weights)
    qed
    show "weight (w_sem s) [F_Acquire ?x, r, F_P ?s, F_Release ?x] = weight (w_sem s) [f] \<and>
        weight (w_del s) [F_Acquire ?x, r, F_P ?s, F_Release ?x] = weight (w_del s) [f]" if "s \<notin> statics \<Gamma>" for s
    proof -
      have "?s \<noteq> s" using own(2) that by metis
      then show ?thesis by (simp add: req weights)
    qed
    show "\<exists>g \<in> set [f]. mentions g s"
      if "g \<in> set [F_Acquire ?x, r, F_P ?s, F_Release ?x]" "mentions g s" "s \<notin> statics \<Gamma>" for g s
      using that own(2) req(5) by auto
  qed
  show "ordinary (f # fs)" using f(2) by (cases f) simp_all
qed

lemma step_requests:
  shows "runs_frame \<Gamma> k th (F_ReadSector n) fs \<Longrightarrow> runs \<Gamma> (exec (F_ReadSector n) (popped k th fs))"
    and "runs_frame \<Gamma> k th (F_WriteSector n data) fs \<Longrightarrow> runs \<Gamma> (exec (F_WriteSector n data) (popped k th fs))"
    and "runs_frame \<Gamma> k th (F_PutChar ch) fs \<Longrightarrow> runs \<Gamma> (exec (F_PutChar ch) (popped k th fs))"
proof -
  assume f: "runs_frame \<Gamma> k th (F_ReadSector n) fs"
  have "Inv \<Gamma> (popped k th ([F_Acquire (c_dlock \<Gamma> DiskDevice), F_ReadRequest n, F_P (c_dsem \<Gamma> DiskDevice),
      F_Release (c_dlock \<Gamma> DiskDevice)] @ fs))"
    by (rule request_Inv [OF f]) (use runs_frame_ordinary(1) [OF f] in \<open>auto simp: busy_devices_def\<close>)
  then show "runs \<Gamma> (exec (F_ReadSector n) (popped k th fs))"
    using runs_frame_Inv(3) [OF f] by (simp add: ReadSector_def matches_def)
next
  assume f: "runs_frame \<Gamma> k th (F_WriteSector n data) fs"
  have "Inv \<Gamma> (popped k th ([F_Acquire (c_dlock \<Gamma> DiskDevice), F_WriteRequest n data, F_P (c_dsem \<Gamma> DiskDevice),
      F_Release (c_dlock \<Gamma> DiskDevice)] @ fs))"
    by (rule request_Inv [OF f]) (use runs_frame_ordinary(1) [OF f] in \<open>auto simp: busy_devices_def\<close>)
  then show "runs \<Gamma> (exec (F_WriteSector n data) (popped k th fs))"
    using runs_frame_Inv(3) [OF f] by (simp add: WriteSector_def matches_def)
next
  assume f: "runs_frame \<Gamma> k th (F_PutChar ch) fs"
  have "Inv \<Gamma> (popped k th ([F_Acquire (c_dlock \<Gamma> ConsoleOutputDevice), F_ConsolePutChar ch,
      F_P (c_dsem \<Gamma> ConsoleOutputDevice), F_Release (c_dlock \<Gamma> ConsoleOutputDevice)] @ fs))"
    by (rule request_Inv [OF f]) (use runs_frame_ordinary(1) [OF f] in \<open>auto simp: busy_devices_def\<close>)
  then show "runs \<Gamma> (exec (F_PutChar ch) (popped k th fs))"
    using runs_frame_Inv(3) [OF f] by (simp add: SynchConsoleOutput_PutChar_def matches_def)
qed

lemma step_GetChar:
  assumes f: "runs_frame \<Gamma> k th F_GetChar fs"
  shows "runs \<Gamma> (exec F_GetChar (popped k th fs))"
proof -
  note c = runs_frame_Inv(2) [OF f] and m = runs_frame_Inv(3) [OF f]
  let ?x = "c_dlock \<Gamma> ConsoleInputDevice" and ?s = "c_dsem \<Gamma> ConsoleInputDevice"
  let ?gs = "[F_Acquire ?x, F_P ?s, F_ConsoleGetChar, F_Release ?x]"
  have own: "?x \<in> dom (c_locks \<Gamma>)" "?s \<in> users \<Gamma>" "\<forall>d \<in> busy_devices. ?x \<noteq> c_dlock \<Gamma> d"
    using c unfolding ctx_ok_def busy_devices_def by blast+
  have "balanced \<Gamma> [F_GetChar] ?gs"
    by (rule balancedI)
      (use own(2) lock_semaphore_owner(1) [OF c] dev_semaphore_owner(1) [OF c] users_static in \<open>auto\<close>)
  then have "Inv \<Gamma> (popped k th (?gs @ fs))"
    using push_frames [OF f _ quiet_level(1) [OF f], of ?gs] runs_frame_ordinary(1) [OF f] own
    by (simp add: P_owner_def settled_def insert_absorb)
  then show ?thesis using m by (simp add: SynchConsoleInput_GetChar_def matches_def)
qed

text \<open>
  Two assertions of the code depend on what the program does: a list may not take the same item
  twice, and the self-tests check what they read.
\<close>

lemma step_ListAppend:
  assumes f: "runs_frame \<Gamma> k th (F_ListAppend sl v) fs"
  obtains (twice) n l where "exec (F_ListAppend sl v) (popped k th fs) = Inl AssertionFailed"
      "operand_value v k = Inr n" "synch_lists k sl = Some l" "n \<in> set (items l)"
  | (appends) "runs \<Gamma> (exec (F_ListAppend sl v) (popped k th fs))"
proof -
  obtain x c where x: "c_lists \<Gamma> sl = Some (x, c)" and t: "typed \<Gamma> (level k) (held k (currentThread k)) fs"
    using runs_frame_ordinary(1) [OF f] by auto
  from runs_frame_Inv(1) [OF f] x(1) obtain l where l: "synch_lists k sl = Some l" by (rule Inv_list)
  have "balanced \<Gamma> [F_ListAppend sl v] []" by (simp add: balanced_def)
  then have "Inv \<Gamma> (popped (k\<lparr>synch_lists := (synch_lists k)(sl \<mapsto> l\<lparr>items := vs\<rparr>)\<rparr>) th fs)" for vs
    using push_frames [OF f _ quiet_items [OF f l], of vs "[]"] t by simp
  moreover obtain n where n: "operand_value v (popped k th fs) = Inr n" "operand_value v k = Inr n"
    using f by (cases v) (simp_all add: operand_value_def runs_frame_def)
  ultimately have "n \<notin> set (items l) \<Longrightarrow> runs \<Gamma> (exec (F_ListAppend sl v) (popped k th fs))"
    by (simp add: ListAppend_def l seq_append_def)
  moreover have "n \<in> set (items l) \<Longrightarrow> exec (F_ListAppend sl v) (popped k th fs) = Inl AssertionFailed"
    using n by (simp add: ListAppend_def l seq_append_def)
  ultimately show ?thesis using twice [OF _ n(2) l] appends by blast
qed

lemma step_ASSERT_returned:
  assumes f: "runs_frame \<Gamma> k th (F_ASSERT_returned v) fs"
  shows "exec (F_ASSERT_returned v) (popped k th fs) = Inl AssertionFailed \<or>
    runs \<Gamma> (exec (F_ASSERT_returned v) (popped k th fs))"
proof -
  have "balanced \<Gamma> [F_ASSERT_returned v] []" by (simp add: balanced_def)
  then have "Inv \<Gamma> (popped k th fs)"
    using push_frames [OF f _ quiet_level(1) [OF f], of "[]"] runs_frame_ordinary(1) [OF f] by simp
  then show ?thesis by (simp add: operand_value_def ASSERT_def)
qed

lemma step_ConsoleGetChar:
  assumes f: "runs_frame \<Gamma> k th F_ConsoleGetChar fs"
  shows "runs \<Gamma> (exec F_ConsoleGetChar (popped k th fs))"
proof -
  note i = runs_frame_Inv [OF f]
  let ?p = "popped k th fs"
  have "devices_ok ?p" using i(4) by simp
  moreover from this have "incoming (consoleInput ?p) \<noteq> EOF_char \<longrightarrow> waiting ConsoleInputDevice ?p = 0"
    unfolding devices_ok_def by blast
  ultimately obtain k1 where k1: "ConsoleInput_GetChar ?p = Inr (incoming (consoleInput ?p), k1)" "devices_ok k1"
      "devices.more k1 = devices.more ?p"
    using ConsoleInput_GetChar_ok [of ?p] by blast
  have hw: "level k1 = level ?p" "inHandler k1 = inHandler ?p" "kmachine k1 = kmachine ?p"
    "disk k1 = disk ?p" "consoleOutput k1 = consoleOutput ?p"
    using k1(1) by (auto simp: ConsoleInput_GetChar_def Schedule_def Let_def bindr_Inr_iff ASSERT_Inr_iff
        split: if_splits)
  note more = more_fields [OF k1(3)]
  let ?k1 = "k1\<lparr>threads := threads k\<rparr>"
  have q: "quiet k ?k1" using i k1(2) hw more by (simp add: quiet_def)
  have "balanced \<Gamma> [F_ConsoleGetChar] []" by (simp add: balanced_def)
  then have "Inv \<Gamma> (put_thread (currentThread k) (th\<lparr>frames := fs, returned := v, sector_data := sector_data th\<rparr>) ?k1)"
    for v using push_Inv [OF f _ q, of "[]" "sector_data th" v] hw runs_frame_ordinary(1) [OF f] by simp
  moreover have "put_thread (currentThread k) (th\<lparr>frames := fs, returned := v\<rparr>) k1 =
      put_thread (currentThread k) (th\<lparr>frames := fs, returned := v, sector_data := sector_data th\<rparr>) ?k1" for v
    using more by (simp add: put_thread_def)
  ultimately show ?thesis
    using k1(1) more by (simp add: ConsoleGetChar_def return_value_def)
qed

section \<open>Tokens that change hands\<close>

text \<open>A step on the stack that also moves tokens between the stack and the semaphores, locks and devices.\<close>

definition hands :: "kernel \<Rightarrow> kernel \<Rightarrow> bool" where
  "hands k k' \<longleftrightarrow>
     currentThread k' = currentThread k \<and> threads k' = threads k \<and>
     readyList k' = readyList k \<and> toBeDestroyed k' = toBeDestroyed k \<and> next_object k' = next_object k \<and>
     (\<forall>s. map_option queue (semaphores k' s) = map_option queue (semaphores k s)) \<and>
     (\<forall>s sem. semaphores k' s = Some sem \<longrightarrow> 0 \<le> sem_value sem) \<and>
     (\<forall>x. map_option lock_semaphore (locks k' x) = map_option lock_semaphore (locks k x)) \<and>
     dom (conditions k') = dom (conditions k) \<and>
     synch_lists k' = synch_lists k \<and> device_lock k' = device_lock k \<and> device_semaphore k' = device_semaphore k \<and>
     level k' = level k \<and> devices_ok k' \<and> \<not> inHandler k' \<and> kmachine k' \<noteq> None \<and>
     (\<forall>t. t \<noteq> currentThread k \<longrightarrow> held k' t = held k t)"

lemma hands_Inv:
  assumes f: "runs_frame \<Gamma> k th f fs" "ordinary (f # fs)" and h: "hands k k1"
    and shift: "shift \<Gamma> k k1 (f # fs) (gs @ fs)"
    and mentions: "\<And>g s. g \<in> set gs \<Longrightarrow> mentions g s \<Longrightarrow> s \<notin> statics \<Gamma> \<Longrightarrow> semaphores k s \<noteq> None"
    and queues: "queues_wf \<Gamma> k1"
    and typed: "typed \<Gamma> (level k) (held k1 (currentThread k)) (gs @ fs)"
  shows "Inv \<Gamma> (put_thread (currentThread k) (th\<lparr>frames := gs @ fs, sector_data := d\<rparr>) k1)"
proof (rule Inv_stay [OF runs_frame_Inv(1) [OF f(1)] _ runs_frame_ordinary(4) [OF f]])
  let ?th = "th\<lparr>frames := gs @ fs, sector_data := d\<rparr>"
  let ?k = "put_thread (currentThread k) ?th k1"
  note i = runs_frame_Inv [OF f(1)]
  show th: "threads k (currentThread k) = Some th" using f(1) by (simp add: runs_frame_def)
  have lo: "local_step k ?k ?th" using h by (simp add: hands_def local_step_def)
  show "stays k ?k ?th" by (rule local_stays [OF lo])
  show "status ?th = RUNNING" "stack ?th = stack th" using runs_frame_ordinary(2) [OF f] by simp_all
  show "user_regs_ok ?th" using Inv_parts(9) [OF i(1) th] by (simp add: user_regs_ok_def)
  show "devices_ok ?k" "\<not> inHandler ?k" "kmachine ?k \<noteq> None" using h by (simp_all add: hands_def)
  show "sched_ok ?k"
    by (rule local_sched [OF Inv_parts(6) [OF i(1)] lo th]) (use runs_frame_ordinary(2) [OF f] in simp_all)
  show "shift \<Gamma> k ?k (frames th) (frames ?th)"
    using shift f(1) by (simp add: runs_frame_def shift_def sv_def hb_def qb_def queued_def)
  show "queues_wf \<Gamma> ?k" using queues by (subst queues_wf_cong [of _ k1]) simp_all
  show "typed \<Gamma> (level ?k) (held ?k (currentThread k)) (frames ?th)" using typed h by (simp add: hands_def)
  show "held ?k t = held k t" if "t \<noteq> currentThread k" for t using that h by (simp add: hands_def)
  show "semaphores k s \<noteq> None" if "g \<in> set (frames ?th)" "mentions g s" "s \<notin> statics \<Gamma>" for g s
    using that mentions Inv_mention [OF i(1) th, of g s] f(1) by (auto simp: runs_frame_def)
qed

lemma hands_frames:
  assumes "runs_frame \<Gamma> k th f fs" "ordinary (f # fs)" "hands k k1" "shift \<Gamma> k k1 (f # fs) (gs @ fs)"
    and "\<And>g s. g \<in> set gs \<Longrightarrow> mentions g s \<Longrightarrow> s \<notin> statics \<Gamma> \<Longrightarrow> semaphores k s \<noteq> None"
    and "queues_wf \<Gamma> k1" "typed \<Gamma> (level k) (held k1 (currentThread k)) (gs @ fs)"
  shows "Inv \<Gamma> (popped k1 th (gs @ fs))"
proof -
  have "th\<lparr>frames := gs @ fs, sector_data := sector_data th\<rparr> = th\<lparr>frames := gs @ fs\<rparr>" by (cases th) simp
  with hands_Inv [OF assms, where d = "sector_data th"] assms(3) show ?thesis by (simp add: hands_def)
qed

text \<open>Every stack, whatever its thread is doing, is a typed stack below at most one frame of the scheduler.\<close>

lemma Inv_stack:
  assumes "Inv \<Gamma> k"
  obtains l g where "typed \<Gamma> l (held k t) g \<or> g = []"
    "fr k t = g \<or> (\<exists>h. fr k t = h # g \<and> (h = F_Begin \<or> h = F_Run_back \<or> (\<exists>b. h = F_Sleep_loop b)))"
proof (cases "threads k t")
  case None
  then show ?thesis using that [of undefined "[]"] by (simp add: fr_simps)
next
  case (Some th)
  note fr = fr_simps(1) [OF Some] and ok = Inv_parts(8) [OF assms Some]
  from ok show ?thesis
  proof (cases rule: thread_ok_cases)
    case ordinary
    then show ?thesis using Inv_ordinary(4) [OF assms Some] that [of "level k" "frames th"] fr by simp
  next
    case (F_Begin fs)
    then show ?thesis using ok that [of IntOn fs] fr by (simp add: thread_ok_simps)
  next
    case (F_Run_back fs)
    then show ?thesis using ok that [of IntOff fs] fr by (simp add: thread_ok_simps split: if_splits)
  next
    case (F_Sleep_loop b fs)
    have "typed \<Gamma> IntOff (held k t) fs \<or> fs = []"
      using ok unfolding thread_ok_simps(3) [OF F_Sleep_loop] by (cases b) auto
    then show ?thesis using F_Sleep_loop that [of IntOff fs] fr by simp
  qed
qed

lemma fr_w_lock:
  assumes "Inv \<Gamma> k" "c_locks \<Gamma> x = Some s"
  shows "0 \<le> weight (w_lock x s) (fr k t)"
proof -
  obtain l g where g: "typed \<Gamma> l (held k t) g \<or> g = []"
    "fr k t = g \<or> (\<exists>h. fr k t = h # g \<and> (h = F_Begin \<or> h = F_Run_back \<or> (\<exists>b. h = F_Sleep_loop b)))"
    using Inv_stack [OF assms(1)] by metis
  then have "0 \<le> weight (w_lock x s) g" using typed_w_lock [OF _ Inv_parts(4) [OF assms(1)] assms(2)] by auto
  with g(2) show ?thesis by auto
qed

lemma fr_w_dev:
  assumes "Inv \<Gamma> k" "d \<in> busy_devices" "c_dlock \<Gamma> d \<notin> held k t"
  shows "weight (w_dev d (c_dsem \<Gamma> d)) (fr k t) = 0"
proof -
  obtain l g where g: "typed \<Gamma> l (held k t) g \<or> g = []"
    "fr k t = g \<or> (\<exists>h. fr k t = h # g \<and> (h = F_Begin \<or> h = F_Run_back \<or> (\<exists>b. h = F_Sleep_loop b)))"
    using Inv_stack [OF assms(1)] by metis
  then have "weight (w_dev d (c_dsem \<Gamma> d)) g = 0"
    using typed_w_dev [OF _ Inv_parts(4) [OF assms(1)] assms(2)] assms(3) by auto
  with g(2) show ?thesis by auto
qed

lemma fr_waiter:
  assumes "Inv \<Gamma> k" "s \<notin> statics \<Gamma>" "weight (w_del s) (fr k t) = 0"
  shows "0 \<le> weight (w_sem s) (fr k t)"
    and "weight (w_sem s) (fr k t) = 0 \<Longrightarrow> f \<in> set (fr k t) \<Longrightarrow> \<not> mentions f s"
proof -
  obtain l g where g: "typed \<Gamma> l (held k t) g \<or> g = []"
    "fr k t = g \<or> (\<exists>h. fr k t = h # g \<and> (h = F_Begin \<or> h = F_Run_back \<or> (\<exists>b. h = F_Sleep_loop b)))"
    using Inv_stack [OF assms(1)] by metis
  have "weight (w_del s) g = 0" using assms(3) g(2) by auto
  then have *: "0 \<le> weight (w_sem s) g \<and> (weight (w_sem s) g = 0 \<longrightarrow> (\<forall>f \<in> set g. \<not> mentions f s))"
    using g(1) typed_waiter [OF _ Inv_parts(4) [OF assms(1)] assms(2)] by auto
  with g(2) show "0 \<le> weight (w_sem s) (fr k t)" by auto
  show "\<not> mentions f s" if "weight (w_sem s) (fr k t) = 0" "f \<in> set (fr k t)"
    using * g(2) that by auto
qed

lemma sv_nonneg: "sched_ok k \<Longrightarrow> 0 \<le> sv k s"
  using sched_sem [of k s] by (simp add: sv_def split: option.split)

lemma runs_frame_current:
  assumes "runs_frame \<Gamma> k th f fs"
  shows "fr k (currentThread k) = f # fs" "currentThread k < next_object k" "threads k (currentThread k) = Some th"
proof -
  have th: "threads k (currentThread k) = Some th" "frames th = f # fs" using assms by (simp_all add: runs_frame_def)
  then show "fr k (currentThread k) = f # fs" by (simp add: fr_simps)
  show "currentThread k < next_object k" by (rule sched_ids(1) [OF Inv_parts(6) [OF runs_frame_Inv(1) [OF assms]] th(1)])
qed (use assms in \<open>simp add: runs_frame_def\<close>)

text \<open>Mutual exclusion: the thread that has passed the semaphore of a lock finds the lock free.\<close>

lemma Acquired_free:
  assumes f: "runs_frame \<Gamma> k th (F_Acquired x) fs"
  obtains lk where "locks k x = Some lk" "lockHolder lk = None" "c_locks \<Gamma> x = Some (lock_semaphore lk)"
proof -
  note i = runs_frame_Inv [OF f] and c = runs_frame_current [OF f]
  have t: "typed \<Gamma> (level k) (held k (currentThread k)) (F_Acquired x # fs)"
    using runs_frame_ordinary(1) [OF f] by simp
  then have "x \<in> dom (c_locks \<Gamma>)" by simp
  with i(1) obtain lk where lk: "locks k x = Some lk" "c_locks \<Gamma> x = Some (lock_semaphore lk)" by (rule Inv_lock)
  let ?s = "lock_semaphore lk"
  have "weight (w_lock x ?s) (fr k (currentThread k)) \<le> frame_total (w_lock x ?s) k"
    by (rule total_split [OF c(2)]) (rule fr_w_lock [OF i(1) lk(2)])
  moreover have "0 \<le> weight (w_lock x ?s) fs"
    using t typed_w_lock [OF _ i(2) lk(2)] by auto
  moreover have "sv k ?s + hb k x + frame_total (w_lock x ?s) k = 1"
    by (rule tokens_lock [OF Inv_parts(7) [OF i(1)] i(3) lk(2)])
  moreover have "0 \<le> sv k ?s" by (rule sv_nonneg [OF Inv_parts(6) [OF i(1)]])
  ultimately have "hb k x \<le> 0" using c(1) by simp
  then have "lockHolder lk = None" using lk(1) by (simp add: hb_def split: if_splits)
  with lk that show ?thesis by blast
qed

text \<open>A device is idle when a thread that holds its lock makes a request.\<close>

lemma request_idle:
  assumes f: "runs_frame \<Gamma> k th f fs" and d: "d \<in> busy_devices" "w_req d f = 1" "w_sem (c_dsem \<Gamma> d) f = 0"
    and fs: "fs = F_P (c_dsem \<Gamma> d) # gs" "typed \<Gamma> l H fs" "c_dlock \<Gamma> d \<in> held k (currentThread k)"
  shows "db k d = 0"
proof -
  note i = runs_frame_Inv [OF f] and c = runs_frame_current [OF f]
  have "frame_total (w_dev d (c_dsem \<Gamma> d)) k = 0"
  proof -
    have "weight (w_dev d (c_dsem \<Gamma> d)) (fr k t) = 0" for t
    proof (cases "t = currentThread k")
      case True
      have "weight (w_dev d (c_dsem \<Gamma> d)) fs = -1" using typed_request [OF _ i(2) d(1)] fs by auto
      then show ?thesis using True c(1) d by simp
    next
      case False
      have "c_dlock \<Gamma> d \<notin> held k t" using fs(3) False by (auto simp: held_def)
      then show ?thesis by (rule fr_w_dev [OF i(1) d(1)])
    qed
    then show ?thesis by (simp add: frame_total_def)
  qed
  moreover have "sv k (c_dsem \<Gamma> d) + db k d + frame_total (w_dev d (c_dsem \<Gamma> d)) k = 0"
    by (rule tokens_dev [OF Inv_parts(7) [OF i(1)] i(3) d(1)])
  moreover have "0 \<le> sv k (c_dsem \<Gamma> d)" by (rule sv_nonneg [OF Inv_parts(6) [OF i(1)]])
  moreover have "0 \<le> db k d" by (simp add: dev_busy_def split: if_splits)
  ultimately show ?thesis by simp
qed

section \<open>Locks, semaphores and condition variables\<close>

lemma Inv_queues: "runs_frame \<Gamma> k th f fs \<Longrightarrow> queues_wf \<Gamma> k"
  by (rule tokens_queues [OF Inv_parts(7) [OF runs_frame_Inv(1)]])

lemma hands_locks:
  assumes f: "runs_frame \<Gamma> k th f fs" and lk: "locks k x = Some lk" "lockHolder lk = None \<or> lockHolder lk = Some (currentThread k)"
    and h: "h = None \<or> h = Some (currentThread k)"
  shows "hands k (k\<lparr>locks := (locks k)(x \<mapsto> lk\<lparr>lockHolder := h\<rparr>)\<rparr>)"
proof -
  note i = runs_frame_Inv [OF f]
  have "held (k\<lparr>locks := (locks k)(x \<mapsto> lk\<lparr>lockHolder := h\<rparr>)\<rparr>) t = held k t" if "t \<noteq> currentThread k" for t
    using that lk h by (auto simp: held_def)
  moreover have "0 \<le> sem_value sem" if "semaphores k s = Some sem" for s sem
    using sched_sem [OF Inv_parts(6) [OF i(1)] that] by simp
  ultimately show ?thesis using i lk by (auto simp: hands_def)
qed

lemma step_Acquired:
  assumes f: "runs_frame \<Gamma> k th (F_Acquired x) fs"
  shows "runs \<Gamma> (exec (F_Acquired x) (popped k th fs))"
proof -
  note i = runs_frame_Inv [OF f]
  from f obtain lk where lk: "locks k x = Some lk" "lockHolder lk = None" "c_locks \<Gamma> x = Some (lock_semaphore lk)"
    by (rule Acquired_free)
  have t: "typed \<Gamma> (level k) (insert x (held k (currentThread k))) fs"
    using runs_frame_ordinary(1) [OF f] by simp
  let ?k = "k\<lparr>locks := (locks k)(x \<mapsto> lk\<lparr>lockHolder := Some (currentThread k)\<rparr>)\<rparr>"
  have held: "held ?k (currentThread k) = insert x (held k (currentThread k))"
    using lk by (auto simp: held_def)
  have "shift \<Gamma> k ?k (F_Acquired x # fs) ([] @ fs)"
    using lk by (auto simp: shift_def sv_def hb_def qb_def queued_def)
  then have "Inv \<Gamma> (popped ?k th ([] @ fs))"
    using lk t held Inv_queues [OF f]
    by (intro hands_frames [OF f _ hands_locks [OF f]]) (simp_all add: queues_wf_def)
  then show ?thesis by (simp add: Acquired_def lk(1))
qed

lemma step_Release:
  assumes f: "runs_frame \<Gamma> k th (F_Release x) fs"
  shows "runs \<Gamma> (exec (F_Release x) (popped k th fs))"
proof -
  note i = runs_frame_Inv [OF f]
  have t: "x \<in> held k (currentThread k)" "typed \<Gamma> (level k) (held k (currentThread k) - {x}) fs"
    using runs_frame_ordinary(1) [OF f] by simp_all
  then obtain lk where lk: "locks k x = Some lk" "lockHolder lk = Some (currentThread k)"
    by (auto simp: held_def)
  let ?s = "lock_semaphore lk"
  have c: "c_locks \<Gamma> x = Some ?s" using i(3) lk(1) by (simp add: matches_def)
  note own = lock_semaphore_owner [OF i(2) c]
  let ?k = "k\<lparr>locks := (locks k)(x \<mapsto> lk\<lparr>lockHolder := None\<rparr>)\<rparr>"
  have held: "held ?k (currentThread k) = held k (currentThread k) - {x}"
    using lk by (auto simp: held_def)
  have "shift \<Gamma> k ?k (F_Release x # fs) ([F_V ?s] @ fs)"
    unfolding shift_def
  proof (intro conjI allI impI ballI)
    fix y s assume y: "c_locks \<Gamma> y = Some s"
    show "sv ?k s + hb ?k y + weight (w_lock y s) ([F_V ?s] @ fs) = sv k s + hb k y + weight (w_lock y s) (F_Release x # fs)"
    proof (cases "y = x")
      case True
      then show ?thesis using y c lk by (simp add: sv_def hb_def)
    next
      case False
      then have "?s \<noteq> s" using own(4) y by metis
      then show ?thesis using False by (simp add: sv_def hb_def)
    qed
  next
    fix d assume "d \<in> busy_devices"
    with own(3) show "sv ?k (c_dsem \<Gamma> d) + db ?k d + weight (w_dev d (c_dsem \<Gamma> d)) ([F_V ?s] @ fs) =
        sv k (c_dsem \<Gamma> d) + db k d + weight (w_dev d (c_dsem \<Gamma> d)) (F_Release x # fs)"
      by (simp add: sv_def)
  next
    fix s assume "s \<notin> statics \<Gamma>"
    then have "?s \<noteq> s" using own(2) by auto
    then show "sv ?k s + qb ?k s + weight (w_sem s) ([F_V ?s] @ fs) = sv k s + qb k s + weight (w_sem s) (F_Release x # fs)"
      "weight (w_del s) ([F_V ?s] @ fs) = weight (w_del s) (F_Release x # fs)"
      by (simp_all add: sv_def qb_def queued_def)
  qed
  moreover have "V_owner \<Gamma> ?s" using c by (auto simp: V_owner_def ran_def)
  moreover have "queues_wf \<Gamma> ?k" using Inv_queues [OF f] by (subst queues_wf_cong [of _ k]) simp_all
  moreover have "hands k ?k" by (rule hands_locks [OF f lk(1)]) (simp_all add: lk)
  ultimately have "Inv \<Gamma> (popped ?k th ([F_V ?s] @ fs))"
    using t(2) own(2) by (intro hands_frames [OF f]) (simp_all add: held)
  then show ?thesis using lk by (simp add: Release_def IsHeldByCurrentThread_def)
qed

lemma Inv_semaphore:
  assumes f: "runs_frame \<Gamma> k th f fs" and "s \<in> statics \<Gamma> \<or> mentions f s"
  obtains sem where "semaphores k s = Some sem"
proof -
  have "semaphores k s \<noteq> None"
  proof (cases "s \<in> statics \<Gamma>")
    case True
    then show ?thesis using runs_frame_Inv(3) [OF f] by (simp add: matches_def)
  next
    case False
    with assms show ?thesis using Inv_mention [of \<Gamma> k "currentThread k" th f s] by (auto simp: runs_frame_def)
  qed
  with that show ?thesis by blast
qed

lemma step_P_loop_take:
  assumes f: "runs_frame \<Gamma> k th (F_P_loop s) fs" and sem: "semaphores k s = Some sem" "sem_value sem \<noteq> 0"
  shows "runs \<Gamma> (exec (F_P_loop s) (popped k th fs))"
proof -
  note i = runs_frame_Inv [OF f]
  have o: "ordinary (F_P_loop s # fs)" by simp
  have t: "typed \<Gamma> (level k) (held k (currentThread k)) fs"
    using runs_frame_ordinary(1) [OF f o] by (cases fs rule: ordinary.cases) auto
  let ?k = "k\<lparr>semaphores := (semaphores k)(s \<mapsto> sem\<lparr>sem_value := sem_value sem - 1\<rparr>)\<rparr>"
  have pos: "0 < sem_value sem" using sched_sem [OF Inv_parts(6) [OF i(1)] sem(1)] sem(2) by simp
  have "hands k ?k"
    using i sem pos sched_sem [OF Inv_parts(6) [OF i(1)]] by (auto simp: hands_def held_def)
  moreover have "shift \<Gamma> k ?k (F_P_loop s # fs) ([] @ fs)"
    using sem by (auto simp: shift_def sv_def hb_def qb_def queued_def)
  moreover have "queues_wf \<Gamma> ?k" using Inv_queues [OF f] sem(1) unfolding queues_wf_def by auto
  moreover have "held ?k t = held k t" for t by (simp add: held_def)
  ultimately have "Inv \<Gamma> (popped ?k th ([] @ fs))"
    using t by (intro hands_frames [OF f o]) simp_all
  then show ?thesis using sem by (simp add: P_loop_def put_semaphore_def)
qed

lemma V_effect_hardware [simp]:
  "devices_ok (V_effect s sem k) = devices_ok k" "inHandler (V_effect s sem k) = inHandler k"
  "kmachine (V_effect s sem k) = kmachine k" "disk (V_effect s sem k) = disk k"
  "consoleOutput (V_effect s sem k) = consoleOutput k" "held (V_effect s sem k) = held k"
  by (simp_all add: V_effect_def held_def fun_eq_iff split: list.split) (simp_all add: put_semaphore_def put_thread_def)

lemma queues_wf_same:
  assumes "queues_wf \<Gamma> k" "conditions k' = conditions k" "\<And>s. semaphores k' s = None \<longleftrightarrow> semaphores k s = None"
  shows "queues_wf \<Gamma> k'"
  using assms(1) unfolding queues_wf_def assms(2,3) .

lemma queues_wf_subset:
  assumes "queues_wf \<Gamma> k"
    and "\<And>c cond'. conditions k' c = Some cond' \<Longrightarrow> \<exists>cond. conditions k c = Some cond \<and>
      set (waitQueue cond') \<subseteq> set (waitQueue cond) \<and> distinct (waitQueue cond')"
    and "semaphores k' = semaphores k"
  shows "queues_wf \<Gamma> k'"
  unfolding queues_wf_def assms(3)
proof (intro allI impI conjI ballI)
  fix c cond' assume a: "conditions k' c = Some cond'"
  then obtain cond where cond: "conditions k c = Some cond" "set (waitQueue cond') \<subseteq> set (waitQueue cond)"
    "distinct (waitQueue cond')" using assms(2) by blast
  then show "distinct (waitQueue cond')" by simp
  fix s assume s: "s \<in> set (waitQueue cond')"
  with cond assms(1) show "s \<notin> statics \<Gamma>" "semaphores k s \<noteq> None" unfolding queues_wf_def by blast+
  fix c' cond'' assume b: "conditions k' c' = Some cond''" "s \<in> set (waitQueue cond'')"
  obtain cond2 where "conditions k c' = Some cond2" "s \<in> set (waitQueue cond2)" using assms(2) [OF b(1)] b(2) by blast
  with cond s assms(1) show "c' = c" unfolding queues_wf_def by blast
qed

lemma popped_sched:
  assumes f: "runs_frame \<Gamma> k th f fs" "ordinary (f # fs)"
  shows "sched_ok (popped (k\<lparr>level := l\<rparr>) th fs)"
proof -
  note sched = Inv_parts(6) [OF runs_frame_Inv(1) [OF f(1)]]
  have "local_step k (popped (k\<lparr>level := l\<rparr>) th fs) (th\<lparr>frames := fs\<rparr>)"
    using quiet_local [OF quiet_level(2) [OF f(1)] sched] by simp
  then show ?thesis
    by (rule local_sched [OF sched _ runs_frame_current(3) [OF f(1)]])
      (use runs_frame_ordinary(2) [OF f] in simp_all)
qed

lemma step_V:
  assumes f: "runs_frame \<Gamma> k th (F_V s) fs"
  shows "runs \<Gamma> (exec (F_V s) (popped k th fs))"
proof -
  note i = runs_frame_Inv [OF f] and cur = runs_frame_current [OF f]
  have o: "ordinary (F_V s # fs)" by simp
  note run = runs_frame_ordinary(2) [OF f o]
  have t: "typed \<Gamma> (level k) (held k (currentThread k)) fs" using runs_frame_ordinary(1) [OF f] by simp
  obtain sem where sem: "semaphores k s = Some sem" by (rule Inv_semaphore [OF f, of s]) simp_all
  let ?c = "currentThread k"
  let ?k1 = "popped (k\<lparr>level := IntOff\<rparr>) th fs"
  let ?k2 = "V_effect s sem ?k1"
  let ?th = "th\<lparr>frames := F_SetLevel (level k) # fs\<rparr>"
  let ?k = "put_thread ?c ?th ?k2"
  have s1: "sched_ok ?k1" by (rule popped_sched [OF f o])
  have s0: "sched_ok (popped k th fs)" using popped_sched [OF f o, of "level k"] by simp
  have sem1: "semaphores ?k1 s = Some sem" using sem by simp
  have w: "woken (threads ?k1 t) (threads ?k2 t)" for t by (rule V_effect_threads [OF s1 sem1])
  have th2: "threads ?k2 ?c = Some (th\<lparr>frames := fs\<rparr>)" using w [of ?c] run by (simp add: woken_def)
  have sems: "semaphores ?k = (semaphores k)(s \<mapsto> sem\<lparr>sem_value := sem_value sem + 1, queue := tl (queue sem)\<rparr>)"
    by (simp add: V_effect_semaphores)
  have none: "semaphores ?k s' = None \<longleftrightarrow> semaphores k s' = None" for s' unfolding sems using sem by simp
  have "Inv \<Gamma> ?k"
  proof (rule Inv_stay [OF i(1) cur(3) runs_frame_ordinary(4) [OF f o]])
    have "woken (threads k t) (threads ?k t)" if "t \<noteq> ?c" for t using w [of t] that by simp
    then show "stays k ?k ?th"
      unfolding stays_def by (intro conjI allI impI none) simp_all
    have "local_step ?k2 ?k ?th"
      using sched_sem [OF V_effect_sched [OF s1 sem1]] by (auto simp: local_step_def)
    moreover have "threads ?k2 (currentThread ?k2) = Some (th\<lparr>frames := fs\<rparr>)" using th2 by simp
    ultimately show "sched_ok ?k"
      by (rule local_sched [OF V_effect_sched [OF s1 sem1]]) (simp_all add: run)
    show "status ?th = RUNNING" "stack ?th = stack th" using run by simp_all
    show "user_regs_ok ?th" using Inv_parts(9) [OF i(1) cur(3)] by (simp add: user_regs_ok_def)
    show "devices_ok ?k" "\<not> inHandler ?k" "kmachine ?k \<noteq> None" using i by simp_all
    show "shift \<Gamma> k ?k (frames th) (frames ?th)"
      using f sem unfolding shift_def sv_def hb_def qb_def queued_def sems by (auto simp: runs_frame_def)
    show "queues_wf \<Gamma> ?k" by (rule queues_wf_same [OF Inv_queues [OF f] _ none]) simp
    show "typed \<Gamma> (level ?k) (held ?k ?c) (frames ?th)" using t by (simp add: held_def)
    show "held ?k t = held k t" if "t \<noteq> ?c" for t by (simp add: held_def)
    show "semaphores k s' \<noteq> None" if "g \<in> set (frames ?th)" "mentions g s'" "s' \<notin> statics \<Gamma>" for g s'
      using that Inv_mention [OF i(1) cur(3), of g s'] f by (auto simp: runs_frame_def)
  qed
  moreover have "exec (F_V s) (popped k th fs) = Inr ?k"
    using th2 Semaphore_V_ok [OF s0, of s sem] sem by (simp add: call_def)
  ultimately show ?thesis by simp
qed

lemma step_Signal:
  assumes f: "runs_frame \<Gamma> k th (F_Signal c x) fs"
  shows "runs \<Gamma> (exec (F_Signal c x) (popped k th fs))"
proof -
  note i = runs_frame_Inv [OF f]
  have t: "c \<in> c_conds \<Gamma>" "x \<in> held k (currentThread k)" "typed \<Gamma> (level k) (held k (currentThread k)) fs"
    using runs_frame_ordinary(1) [OF f] by simp_all
  from i(1) t(1) obtain cond where cond: "conditions k c = Some cond" by (rule Inv_cond)
  obtain lk where lk: "locks k x = Some lk" "lockHolder lk = Some (currentThread k)"
    using t(2) by (auto simp: held_def)
  show ?thesis
  proof (cases "waitQueue cond")
    case Nil
    have "balanced \<Gamma> [F_Signal c x] []" by (simp add: balanced_def)
    then have "Inv \<Gamma> (popped k th ([] @ fs))"
      using t by (intro push_frames [OF f _ quiet_level(1) [OF f]]) simp_all
    then show ?thesis using Nil lk cond by (simp add: Condition_Signal_def IsHeldByCurrentThread_def)
  next
    case (Cons w q)
    let ?k = "k\<lparr>conditions := (conditions k)(c \<mapsto> cond\<lparr>waitQueue := q\<rparr>)\<rparr>"
    have wf: "distinct (w # q)" "\<And>s. s \<in> set (w # q) \<Longrightarrow> s \<notin> statics \<Gamma> \<and> semaphores k s \<noteq> None"
      "\<And>s c' cond'. s \<in> set (w # q) \<Longrightarrow> conditions k c' = Some cond' \<Longrightarrow> s \<in> set (waitQueue cond') \<Longrightarrow> c' = c"
      using Inv_queues [OF f] cond Cons unfolding queues_wf_def by metis+
    have queued: "queued ?k s \<longleftrightarrow> queued k s \<and> s \<noteq> w" for s
    proof -
      let ?else = "\<exists>c' cond'. c' \<noteq> c \<and> conditions k c' = Some cond' \<and> s \<in> set (waitQueue cond')"
      have "queued ?k s \<longleftrightarrow> s \<in> set q \<or> ?else" by (auto simp: queued_def)
      moreover have "queued k s \<longleftrightarrow> s \<in> set (w # q) \<or> ?else"
        using cond unfolding queued_def Cons [symmetric] by (metis option.inject)
      moreover have "w \<notin> set q" using wf(1) by simp
      moreover have "\<not> ?else" if "s = w" using wf(3) [of s] that by auto
      ultimately show ?thesis by auto
    qed
    have "hands k ?k"
      using i cond sched_sem [OF Inv_parts(6) [OF i(1)]] by (auto simp: hands_def held_def)
    moreover have "shift \<Gamma> k ?k (F_Signal c x # fs) ([F_V w] @ fs)"
    proof -
      have "queued k w" using cond Cons unfolding queued_def by (metis list.set_intros(1))
      moreover have "w \<notin> statics \<Gamma>" using wf(2) by simp
      then have "c_locks \<Gamma> y \<noteq> Some w" "d \<in> busy_devices \<Longrightarrow> w \<noteq> c_dsem \<Gamma> d" for y d
        using waiter_owner by blast+
      ultimately show ?thesis by (auto simp: shift_def qb_def queued sv_def hb_def)
    qed
    moreover have "queues_wf \<Gamma> ?k"
    proof (rule queues_wf_subset [OF Inv_queues [OF f]])
      fix c' cond' assume "conditions ?k c' = Some cond'"
      then show "\<exists>cond. conditions k c' = Some cond \<and> set (waitQueue cond') \<subseteq> set (waitQueue cond) \<and>
          distinct (waitQueue cond')"
        using cond Cons wf(1) Inv_queues [OF f] by (cases "c' = c") (auto simp: queues_wf_def)
    qed simp
    moreover have "held ?k t = held k t" for t by (simp add: held_def)
    ultimately have "Inv \<Gamma> (popped ?k th ([F_V w] @ fs))"
      using t(3) wf(2) by (intro hands_frames [OF f]) (simp_all add: V_owner_def)
    then show ?thesis
      using Cons lk cond by (simp add: Condition_Signal_def IsHeldByCurrentThread_def seq_remove_front_def)
  qed
qed

lemma step_Broadcast:
  assumes f: "runs_frame \<Gamma> k th (F_Broadcast c x) fs"
  shows "runs \<Gamma> (exec (F_Broadcast c x) (popped k th fs))"
proof -
  note i = runs_frame_Inv [OF f]
  have t: "c \<in> c_conds \<Gamma>" "x \<in> held k (currentThread k)" "typed \<Gamma> (level k) (held k (currentThread k)) fs"
    using runs_frame_ordinary(1) [OF f] by simp_all
  from i(1) t(1) obtain cond where cond: "conditions k c = Some cond" by (rule Inv_cond)
  have "balanced \<Gamma> [F_Broadcast c x] []" "balanced \<Gamma> [F_Broadcast c x] [F_Signal c x, F_Broadcast c x]"
    by (simp_all add: balanced_def)
  then have "Inv \<Gamma> (popped k th ([] @ fs))" "Inv \<Gamma> (popped k th ([F_Signal c x, F_Broadcast c x] @ fs))"
    using t by (intro push_frames [OF f _ quiet_level(1) [OF f]]; simp)+
  then show ?thesis using cond by (simp add: Condition_Broadcast_def)
qed

section \<open>Device requests\<close>

lemma Schedule_frame:
  "Schedule d n ty s = Inr s' \<Longrightarrow> level s' = level s \<and> inHandler s' = inHandler s \<and>
    kmachine s' = kmachine s \<and> consoleOutput s' = consoleOutput s \<and> disk s' = disk s"
  by (auto simp: Schedule_def Let_def bindr_Inr_iff ASSERT_Inr_iff)

lemma UpdateLast_frame:
  "level (UpdateLast n s) = level s" "inHandler (UpdateLast n s) = inHandler s"
  "kmachine (UpdateLast n s) = kmachine s" "consoleOutput (UpdateLast n s) = consoleOutput s"
  by (simp_all add: UpdateLast_def Let_def split: prod.split)

lemma request_frame:
  "Disk_ReadRequest n s = Inr (data, s') \<Longrightarrow> level s' = level s \<and> inHandler s' = inHandler s \<and>
    kmachine s' = kmachine s \<and> consoleOutput s' = consoleOutput s"
  "Disk_WriteRequest n d s = Inr s' \<Longrightarrow> level s' = level s \<and> inHandler s' = inHandler s \<and>
    kmachine s' = kmachine s \<and> consoleOutput s' = consoleOutput s"
  "ConsoleOutput_PutChar ch s = Inr s' \<Longrightarrow> level s' = level s \<and> inHandler s' = inHandler s \<and>
    kmachine s' = kmachine s \<and> disk s' = disk s"
  unfolding Disk_ReadRequest_def Disk_WriteRequest_def ConsoleOutput_PutChar_def Let_def
  by (auto simp: bindr_Inr_iff ASSERT_Inr_iff UpdateLast_frame dest!: Schedule_frame)

lemma request_runs:
  assumes f: "runs_frame \<Gamma> k th f fs" "ordinary (f # fs)" and d: "d \<in> busy_devices"
    and k1: "devices_ok k1" "devices.more k1 = devices.more (popped k th fs)" "level k1 = level k"
      "inHandler k1 = inHandler k" "kmachine k1 = kmachine k"
    and busy: "\<And>e. e \<in> busy_devices \<Longrightarrow> db k1 e = (if e = d then 1 else db k e)" and idle: "db k d = 0"
    and req: "\<And>e. e \<in> busy_devices \<Longrightarrow> w_req e f = (if e = d then 1 else 0)" "\<And>s. w_sem s f = 0" "\<And>x. w_acq x f = 0" "\<And>s. w_del s f = 0"
    and typed: "typed \<Gamma> (level k) (held k (currentThread k)) fs"
  shows "Inv \<Gamma> (put_thread (currentThread k) (th\<lparr>frames := fs, sector_data := data\<rparr>) k1)"
proof -
  note i = runs_frame_Inv [OF f(1)] and more = more_fields [OF k1(2)]
  let ?k1 = "k1\<lparr>threads := threads k\<rparr>"
  have held: "held ?k1 t = held k t" for t by (simp add: held_def more)
  have "hands k ?k1"
    using i k1 sched_sem [OF Inv_parts(6) [OF i(1)]] by (auto simp: hands_def held more)
  moreover have "shift \<Gamma> k ?k1 (f # fs) ([] @ fs)"
    unfolding shift_def
  proof (intro conjI allI impI ballI)
    fix e assume e: "e \<in> busy_devices"
    show "sv ?k1 (c_dsem \<Gamma> e) + db ?k1 e + weight (w_dev e (c_dsem \<Gamma> e)) ([] @ fs) =
        sv k (c_dsem \<Gamma> e) + db k e + weight (w_dev e (c_dsem \<Gamma> e)) (f # fs)"
      using busy [OF e] req(1) [OF e] idle by (cases "e = d") (simp_all add: sv_def more req)
  qed (simp_all add: sv_def hb_def qb_def queued_def more req)
  moreover have "queues_wf \<Gamma> ?k1"
    using Inv_queues [OF f(1)] by (subst queues_wf_cong [of _ k]) (simp_all add: more)
  ultimately have "Inv \<Gamma> (put_thread (currentThread k) (th\<lparr>frames := [] @ fs, sector_data := data\<rparr>) ?k1)"
    using typed held by (intro hands_Inv [OF f]) simp_all
  moreover have "put_thread (currentThread k) th' ?k1 = put_thread (currentThread k) th' k1" for th'
    using more by (simp add: put_thread_def)
  ultimately show ?thesis by simp
qed

lemma step_ReadRequest:
  assumes f: "runs_frame \<Gamma> k th (F_ReadRequest n) fs"
  shows "runs \<Gamma> (exec (F_ReadRequest n) (popped k th fs))"
proof -
  note i = runs_frame_Inv [OF f]
  have o: "ordinary (F_ReadRequest n # fs)" by simp
  obtain gs where t: "0 \<le> n" "n < int NumSectors" "c_dlock \<Gamma> DiskDevice \<in> held k (currentThread k)"
    "fs = F_P (c_dsem \<Gamma> DiskDevice) # gs" "typed \<Gamma> (level k) (held k (currentThread k)) fs"
    using runs_frame_ordinary(1) [OF f o] by auto
  have b: "DiskDevice \<in> busy_devices" by (simp add: busy_devices_def)
  have idle: "db k DiskDevice = 0" by (rule request_idle [OF f b _ _ t(4,5,3)]) simp_all
  then have "\<not> active (disk (popped k th fs))" by (simp add: dev_busy_def split: if_splits)
  moreover have "devices_ok (popped k th fs)" using i(4) by simp
  ultimately obtain data k1 where k1: "Disk_ReadRequest n (popped k th fs) = Inr (data, k1)" "devices_ok k1"
      "active (disk k1)" "devices.more k1 = devices.more (popped k th fs)"
    using Disk_ReadRequest_ok [of "popped k th fs" n] t(1,2) by blast
  note fr = request_frame(1) [OF k1(1)]
  have "Inv \<Gamma> (put_thread (currentThread k) (th\<lparr>frames := fs, sector_data := data\<rparr>) k1)"
    by (rule request_runs [OF f o b k1(2,4)]) (use fr k1(3) idle t(5) in \<open>auto simp: dev_busy_def busy_devices_def\<close>)
  then show ?thesis using k1(1) more_fields [OF k1(4)] by (simp add: ReadRequest_def)
qed

lemma step_WriteRequest:
  assumes f: "runs_frame \<Gamma> k th (F_WriteRequest n bs) fs"
  shows "runs \<Gamma> (exec (F_WriteRequest n bs) (popped k th fs))"
proof -
  note i = runs_frame_Inv [OF f]
  have o: "ordinary (F_WriteRequest n bs # fs)" by simp
  obtain gs where t: "0 \<le> n" "n < int NumSectors" "length bs = SectorSize"
    "c_dlock \<Gamma> DiskDevice \<in> held k (currentThread k)"
    "fs = F_P (c_dsem \<Gamma> DiskDevice) # gs" "typed \<Gamma> (level k) (held k (currentThread k)) fs"
    using runs_frame_ordinary(1) [OF f o] by auto
  have b: "DiskDevice \<in> busy_devices" by (simp add: busy_devices_def)
  have idle: "db k DiskDevice = 0" by (rule request_idle [OF f b _ _ t(5,6,4)]) simp_all
  then have "\<not> active (disk (popped k th fs))" by (simp add: dev_busy_def split: if_splits)
  moreover have "devices_ok (popped k th fs)" using i(4) by simp
  ultimately obtain k1 where k1: "Disk_WriteRequest n bs (popped k th fs) = Inr k1" "devices_ok k1"
      "active (disk k1)" "devices.more k1 = devices.more (popped k th fs)"
    using Disk_WriteRequest_ok [of "popped k th fs" n bs] t(1-3) by blast
  note fr = request_frame(2) [OF k1(1)] and more = more_fields [OF k1(4)]
  have "Inv \<Gamma> (put_thread (currentThread k) (th\<lparr>frames := fs, sector_data := sector_data th\<rparr>) k1)"
    by (rule request_runs [OF f o b k1(2,4)]) (use fr k1(3) idle t(6) in \<open>auto simp: dev_busy_def busy_devices_def\<close>)
  moreover have "th\<lparr>frames := fs, sector_data := sector_data th\<rparr> = th\<lparr>frames := fs\<rparr>" by (cases th) simp
  moreover have "put_thread (currentThread k) (th\<lparr>frames := fs\<rparr>) k1 = k1" using more by (simp add: put_thread_def)
  ultimately show ?thesis using k1(1) by simp
qed

lemma step_ConsolePutChar:
  assumes f: "runs_frame \<Gamma> k th (F_ConsolePutChar ch) fs"
  shows "runs \<Gamma> (exec (F_ConsolePutChar ch) (popped k th fs))"
proof -
  note i = runs_frame_Inv [OF f]
  have o: "ordinary (F_ConsolePutChar ch # fs)" by simp
  obtain gs where t: "c_dlock \<Gamma> ConsoleOutputDevice \<in> held k (currentThread k)"
    "fs = F_P (c_dsem \<Gamma> ConsoleOutputDevice) # gs" "typed \<Gamma> (level k) (held k (currentThread k)) fs"
    using runs_frame_ordinary(1) [OF f o] by auto
  have b: "ConsoleOutputDevice \<in> busy_devices" by (simp add: busy_devices_def)
  have idle: "db k ConsoleOutputDevice = 0" by (rule request_idle [OF f b _ _ t(2,3,1)]) simp_all
  then have "\<not> putBusy (consoleOutput (popped k th fs))" by (simp add: dev_busy_def split: if_splits)
  moreover have "devices_ok (popped k th fs)" using i(4) by simp
  ultimately obtain k1 where k1: "ConsoleOutput_PutChar ch (popped k th fs) = Inr k1" "devices_ok k1"
      "putBusy (consoleOutput k1)" "devices.more k1 = devices.more (popped k th fs)"
    using ConsoleOutput_PutChar_ok [of "popped k th fs" ch] by blast
  note fr = request_frame(3) [OF k1(1)] and more = more_fields [OF k1(4)]
  have "Inv \<Gamma> (put_thread (currentThread k) (th\<lparr>frames := fs, sector_data := sector_data th\<rparr>) k1)"
    by (rule request_runs [OF f o b k1(2,4)]) (use fr k1(3) idle t(3) in \<open>auto simp: dev_busy_def busy_devices_def\<close>)
  moreover have "th\<lparr>frames := fs, sector_data := sector_data th\<rparr> = th\<lparr>frames := fs\<rparr>" by (cases th) simp
  moreover have "put_thread (currentThread k) (th\<lparr>frames := fs\<rparr>) k1 = k1" using more by (simp add: put_thread_def)
  ultimately show ?thesis using k1(1) by simp
qed

end
