(* ===== verification/Kernel_Objects.thy ===== *)
theory Kernel_Objects
  imports Kernel_Steps
begin

text \<open>
  The steps that create and delete objects: \<open>Condition::Wait\<close>, the deletion of its semaphore, and
  \<open>Thread::Fork\<close>.
\<close>

section \<open>Fresh and dead objects\<close>

lemma unmentioned_weight:
  assumes "\<And>f. f \<in> set fs \<Longrightarrow> \<not> mentions f s"
  shows "weight (w_sem s) fs = 0" "weight (w_del s) fs = 0"
proof -
  have "w_sem s f = 0 \<and> w_del s f = 0" if "\<not> mentions f s" for f using that by (cases f) auto
  with assms show "weight (w_sem s) fs = 0" "weight (w_del s) fs = 0" by (induction fs) auto
qed

lemma total_grow:
  assumes "next_object k' = Suc (next_object k)" "c < next_object k" "fr k (next_object k) = []"
    and "\<And>t. t \<noteq> c \<Longrightarrow> t \<noteq> next_object k \<Longrightarrow> fr k' t = fr k t"
  shows "frame_total w k' = frame_total w k - weight w (fr k c) + weight w (fr k' c) + weight w (fr k' (next_object k))"
proof -
  let ?n = "next_object k"
  have "frame_total w k' = (\<Sum>t < ?n. weight w (fr k' t)) + weight w (fr k' ?n)"
    by (simp add: frame_total_def assms(1))
  moreover have "(\<Sum>t < ?n. weight w (fr k' t)) = weight w (fr k' c) + (\<Sum>t \<in> {..<?n} - {c}. weight w (fr k' t))"
    and "(\<Sum>t < ?n. weight w (fr k t)) = weight w (fr k c) + (\<Sum>t \<in> {..<?n} - {c}. weight w (fr k t))"
    using assms(2) by (simp_all add: sum.remove)
  moreover have "(\<Sum>t \<in> {..<?n} - {c}. weight w (fr k' t)) = (\<Sum>t \<in> {..<?n} - {c}. weight w (fr k t))"
    by (rule sum.cong) (simp_all add: assms(4))
  ultimately show ?thesis by (simp add: frame_total_def)
qed

lemma Inv_fresh:
  assumes "runs_frame \<Gamma> k th f fs"
  shows "threads k (next_object k) = None" "semaphores k (next_object k) = None" "fr k (next_object k) = []"
    "next_object k \<noteq> currentThread k" "next_object k \<notin> statics \<Gamma>" "\<not> sleeps_in k t (next_object k)"
    "g \<in> set (fr k t) \<Longrightarrow> \<not> mentions g (next_object k)" "\<not> queued k (next_object k)"
proof -
  note i = runs_frame_Inv [OF assms] and cur = runs_frame_current [OF assms]
  note sched = Inv_parts(6) [OF i(1)]
  show "threads k (next_object k) = None"
    using sched_ids(1) [OF sched, of "next_object k"] by (cases "threads k (next_object k)") auto
  then show "fr k (next_object k) = []" by (simp add: fr_simps)
  show s: "semaphores k (next_object k) = None"
    using sched_ids(2) [OF sched, of "next_object k"] by (cases "semaphores k (next_object k)") auto
  show "next_object k \<noteq> currentThread k" using cur(2) by simp
  show st: "next_object k \<notin> statics \<Gamma>" using i(3) s by (auto simp: matches_def)
  show "\<not> sleeps_in k t (next_object k)" by (simp add: sleeps_in_def s)
  show "\<not> mentions g (next_object k)" if "g \<in> set (fr k t)"
    using tokens_mention [OF Inv_parts(7) [OF i(1)] that _ st] s by blast
  show "\<not> queued k (next_object k)"
    using Inv_queues [OF assms] s unfolding queued_def queues_wf_def by blast
qed

text \<open>The running thread keeps running and the others are as they were; the tables of objects may have changed.\<close>

lemma Inv_change:
  assumes f: "runs_frame \<Gamma> k th f fs" "ordinary (f # fs)"
    and k1: "threads k1 = threads k" "currentThread k1 = currentThread k" "toBeDestroyed k1 = toBeDestroyed k"
      "devices_ok k1 \<and> \<not> inHandler k1 \<and> kmachine k1 \<noteq> None" "held k1 = held k" "level k1 = l"
    and typed: "typed \<Gamma> l (held k (currentThread k)) gs"
    and m: "matches \<Gamma> (put_thread (currentThread k) (th\<lparr>frames := gs\<rparr>) k1)" and sched: "sched_ok (put_thread (currentThread k) (th\<lparr>frames := gs\<rparr>) k1)" and tk: "tokens_ok \<Gamma> (put_thread (currentThread k) (th\<lparr>frames := gs\<rparr>) k1)"
  shows "Inv \<Gamma> (put_thread (currentThread k) (th\<lparr>frames := gs\<rparr>) k1)"
proof -
  note i = runs_frame_Inv [OF f(1)] and cur = runs_frame_current [OF f(1)]
  let ?k = "put_thread (currentThread k) (th\<lparr>frames := gs\<rparr>) k1"
  have tbd: "toBeDestroyed ?k = None" using k1(3) runs_frame_ordinary(3) [OF f] by simp
  have "thread_ok \<Gamma> ?k t u \<and> user_regs_ok u" if u: "threads ?k t = Some u" for t u
  proof (cases "t = currentThread k")
    case True
    then have "u = th\<lparr>frames := gs\<rparr>" using u k1(1,2) by simp
    then show ?thesis
      using True typed_ordinary [OF typed] typed k1 tbd Inv_ordinary(1,3) [OF i(1) cur(3) runs_frame_ordinary(4) [OF f]]
        Inv_parts(9) [OF i(1) cur(3)]
      by (simp add: thread_ok_ordinary user_regs_ok_def)
  next
    case False
    then have t: "threads k t = Some u" using u k1(1,2) by simp
    have "thread_ok \<Gamma> ?k t u"
      by (rule thread_ok_woken [OF Inv_parts(8) [OF i(1) t]]) (use False k1 in simp_all)
    then show ?thesis using Inv_parts(9) [OF i(1) t] by simp
  qed
  moreover have "holders_ok ?k"
    using Inv_parts(10) [OF i(1)] k1(1,5) by (simp add: holders_ok_def)
  ultimately show ?thesis
    using k1(2,4) i(2) m sched tk tbd by (simp add: Inv_def tokens_ok_def)
qed

section \<open>Waiting\<close>

lemma step_Wait:
  assumes f: "runs_frame \<Gamma> k th (F_Wait c x) fs"
  shows "runs \<Gamma> (exec (F_Wait c x) (popped k th fs))"
proof -
  note i = runs_frame_Inv [OF f] and cur = runs_frame_current [OF f] and fresh = Inv_fresh [OF f]
  have o: "ordinary (F_Wait c x # fs)" by simp
  note run = runs_frame_ordinary(2) [OF f o] and sched = Inv_parts(6) [OF i(1)]
  have t: "c \<in> c_conds \<Gamma>" "x \<in> held k (currentThread k)" "x \<notin> range (c_dlock \<Gamma>)"
    "typed \<Gamma> (level k) (held k (currentThread k)) fs"
    using runs_frame_ordinary(1) [OF f o] by simp_all
  from i(1) t(1) obtain cond where cond: "conditions k c = Some cond" by (rule Inv_cond)
  obtain lk where lk: "locks k x = Some lk" "lockHolder lk = Some (currentThread k)"
    using t(2) by (auto simp: held_def)
  let ?w = "next_object k" and ?c = "currentThread k"
  let ?gs = "[F_Release x, F_P ?w, F_Acquire x, F_delete_semaphore ?w]"
  let ?th = "th\<lparr>frames := ?gs @ fs\<rparr>"
  let ?k1 = "k\<lparr>next_object := Suc ?w, semaphores := (semaphores k)(?w \<mapsto> \<lparr>sem_value = 0, queue = []\<rparr>)\<rparr>"
  let ?k2 = "?k1\<lparr>conditions := (conditions k)(c \<mapsto> cond\<lparr>waitQueue := waitQueue cond @ [?w]\<rparr>)\<rparr>"
  let ?k = "put_thread ?c ?th ?k2"
  have nq: "?w \<notin> set (waitQueue cond)" using fresh(8) cond by (auto simp: queued_def)
  have sleeps: "sleeps_in ?k1 u s = sleeps_in k u s" for u s using fresh(6) by (auto simp: sleeps_in_def)
  have s1: "sched_ok ?k1"
  proof -
    have "ids_ok ?k1" using sched by (auto simp: sched_ok_def ids_ok_def less_Suc_eq)
    moreover have "ready_ok ?k1" using sched by (simp add: sched_ok_def ready_ok_def st_def)
    moreover have "queues_ok ?k1"
      using sched by (auto simp: sched_ok_def queues_ok_def sleeps st_def fr_def)
    moreover have "blocked_ok ?k1"
      using sched unfolding sched_ok_def blocked_ok_def sleeps by (simp add: st_def fr_def)
    ultimately show ?thesis by (simp add: sched_ok_def)
  qed
  have lo: "local_step ?k1 ?k ?th"
    using sched_sem [OF s1] cond by (auto simp: local_step_def)
  have s2: "sched_ok ?k" by (rule local_sched [OF s1 lo, of th]) (simp_all add: run cur)
  have fr: "fr ?k u = (if u = ?c then ?gs @ fs else fr k u)" for u by (simp add: fr_def)
  have tot: "frame_total w ?k = frame_total w k - weight w (F_Wait c x # fs) + weight w (?gs @ fs)" for w
  proof -
    have "frame_total w ?k = frame_total w k - weight w (fr k ?c) + weight w (fr ?k ?c) + weight w (fr ?k ?w)"
      by (rule total_grow) (use cur(2) fresh(3) in \<open>simp_all add: fr_def\<close>)
    then show ?thesis using fresh(3,4) unfolding fr by (simp add: cur(1))
  qed
  have m: "matches \<Gamma> ?k" using i(3) cond by (auto simp: matches_def)
  have hb: "hb ?k y = hb k y" for y by (simp add: hb_def)
  have sv: "sv ?k s = (if s = ?w then 0 else sv k s)" for s by (simp add: sv_def)
  have qb: "qb ?k s = (if s = ?w then 1 else qb k s)" for s
  proof -
    let ?else = "\<exists>c' cond'. c' \<noteq> c \<and> conditions k c' = Some cond' \<and> s \<in> set (waitQueue cond')"
    have "queued ?k s \<longleftrightarrow> s = ?w \<or> s \<in> set (waitQueue cond) \<or> ?else" by (auto simp: queued_def)
    moreover have "queued k s \<longleftrightarrow> s \<in> set (waitQueue cond) \<or> ?else"
      using cond unfolding queued_def by (metis option.inject)
    ultimately show ?thesis by (auto simp: qb_def)
  qed
  have none: "weight (w_sem ?w) (fr k u) = 0" "weight (w_del ?w) (fr k u) = 0" for u
    using unmentioned_weight fresh(7) by blast+
  have fresh_static: "s \<noteq> ?w" if "s \<in> statics \<Gamma>" for s using that fresh(5) by auto
  have tk: "tokens_ok \<Gamma> ?k"
  proof (rule tokens_okI)
    show "sv ?k s + hb ?k y + frame_total (w_lock y s) ?k = 1" if y: "c_locks \<Gamma> y = Some s" for y s
    proof -
      have "s \<noteq> ?w" using fresh_static lock_semaphore_owner(2) [OF i(2) y] by blast
      then show ?thesis
        using tokens_lock [OF Inv_parts(7) [OF i(1)] i(3) y] unfolding sv tot hb by simp
    qed
    show "sv ?k (c_dsem \<Gamma> d) + db ?k d + frame_total (w_dev d (c_dsem \<Gamma> d)) ?k = 0" if d: "d \<in> busy_devices" for d
    proof -
      have "c_dsem \<Gamma> d \<noteq> ?w" using fresh_static dev_semaphore_owner(2) [OF i(2) d] by blast
      then show ?thesis
        using tokens_dev [OF Inv_parts(7) [OF i(1)] i(3) d] unfolding sv tot by simp
    qed
    show "sv ?k s + qb ?k s + frame_total (w_sem s) ?k = 0 \<and> frame_total (w_del s) ?k = 1"
      if s: "s \<notin> statics \<Gamma>" "semaphores ?k s \<noteq> None" for s
    proof (cases "s = ?w")
      case True
      have "frame_total (w_sem ?w) k = 0" "frame_total (w_del ?w) k = 0" by (simp_all add: frame_total_def none)
      then show ?thesis unfolding True sv qb tot by simp
    next
      case False
      then show ?thesis
        using tokens_waiter [OF Inv_parts(7) [OF i(1)] s(1)] s(2) unfolding sv qb tot by simp
    qed
    show "semaphores ?k s \<noteq> None" if g: "g \<in> set (fr ?k u)" "mentions g s" "s \<notin> statics \<Gamma>" for u g s
    proof (cases "s = ?w")
      case False
      then have "g \<in> set (fr k u)" using g(1,2) cur(1) unfolding fr by (auto split: if_splits)
      then show ?thesis using tokens_mention [OF Inv_parts(7) [OF i(1)] _ g(2,3)] by auto
    qed simp
    show "queues_wf \<Gamma> ?k"
    proof -
      have "s \<noteq> ?w" if "conditions k c' = Some cond'" "s \<in> set (waitQueue cond')" for s c' cond'
        using that fresh(8) by (auto simp: queued_def)
      then show ?thesis using Inv_queues [OF f] cond nq fresh(5) unfolding queues_wf_def by auto
    qed
  qed (rule m)
  have "x \<in> dom (c_locks \<Gamma>)" using i(3) lk(1) by (auto simp: matches_def)
  moreover have "P_owner \<Gamma> (held k ?c - {x}) ?w (F_Acquire x # F_delete_semaphore ?w # fs)"
    using fresh(5) by (simp add: P_owner_def)
  moreover have "insert x (held k ?c - {x}) = held k ?c" using t(2) by auto
  ultimately have typed: "typed \<Gamma> (level k) (held k ?c) (?gs @ fs)"
    using t fresh(5) not_device_settled by simp
  have held: "held ?k u = held k u" for u by (simp add: held_def)
  have "Inv \<Gamma> ?k"
    by (rule Inv_change [OF f o _ _ _ _ _ _ typed]) (use i m s2 tk held in \<open>simp_all add: fun_eq_iff\<close>)
  then show ?thesis
    using lk cond nq by (simp add: Condition_Wait_def IsHeldByCurrentThread_def new_Semaphore_def put_semaphore_def
        seq_append_def Let_def)
qed

section \<open>Deleting the semaphore of a waiter\<close>

lemma sum_zero:
  assumes "\<And>u. u < n \<Longrightarrow> 0 \<le> (g u :: int)" "(\<Sum>u < n. g u) \<le> 0" "t < (n :: nat)"
  shows "g t = 0"
proof -
  have "(\<Sum>u < n. g u) = 0"
    using assms(2) sum_nonneg [of "{..<n}" g] assms(1) by (simp add: order_antisym)
  then show ?thesis using sum_nonneg_eq_0_iff [of "{..<n}" g] assms(1,3) by simp
qed

text \<open>When the waiter deletes its semaphore, nobody refers to it any more.\<close>

lemma delete_unused:
  assumes f: "runs_frame \<Gamma> k th (F_delete_semaphore s) fs"
  shows "s \<notin> statics \<Gamma>" "f \<in> set fs \<Longrightarrow> \<not> mentions f s"
    "t \<noteq> currentThread k \<Longrightarrow> f \<in> set (fr k t) \<Longrightarrow> \<not> mentions f s" "\<not> queued k s"
proof -
  note i = runs_frame_Inv [OF f] and cur = runs_frame_current [OF f]
  have o: "ordinary (F_delete_semaphore s # fs)" by simp
  have t: "s \<notin> statics \<Gamma>" "typed \<Gamma> (level k) (held k (currentThread k)) fs"
    using runs_frame_ordinary(1) [OF f o] by simp_all
  show "s \<notin> statics \<Gamma>" by (rule t(1))
  obtain sem where "semaphores k s = Some sem" by (rule Inv_semaphore [OF f, of s]) simp
  then have sem: "semaphores k s \<noteq> None" by simp
  let ?c = "currentThread k" and ?n = "next_object k"
  note tok = tokens_waiter [OF Inv_parts(7) [OF i(1)] t(1) sem]
  have del: "weight (w_del s) (fr k u) = (if u = ?c then 1 else 0)" if u: "u < ?n" for u
  proof -
    have "weight (w_del s) (fr k ?c) + (\<Sum>u \<in> {..<?n} - {?c}. weight (w_del s) (fr k u)) = 1"
      using tok(2) cur(2) by (simp add: frame_total_def sum.remove)
    moreover have "1 \<le> weight (w_del s) (fr k ?c)" using weight_del_nonneg [of s fs] by (simp add: cur(1))
    moreover have "0 \<le> (\<Sum>u \<in> {..<?n} - {?c}. weight (w_del s) (fr k u))"
      by (rule sum_nonneg) (rule weight_del_nonneg)
    ultimately have "weight (w_del s) (fr k ?c) = 1" "(\<Sum>u \<in> {..<?n} - {?c}. weight (w_del s) (fr k u)) = 0"
      by linarith+
    then show ?thesis using u by (simp add: sum_nonneg_eq_0_iff weight_del_nonneg)
  qed
  have fs: "weight (w_del s) fs = 0" using del [OF cur(2)] by (simp add: cur(1))
  note own = typed_waiter [OF t(2) i(2) t(1), THEN mp, OF fs]
  have nonneg: "0 \<le> weight (w_sem s) (fr k u)" if "u < ?n" for u
    using del [OF that] own fr_waiter(1) [OF i(1) t(1), of u] by (cases "u = ?c") (simp_all add: cur(1))
  have "0 \<le> sv k s" by (rule sv_nonneg [OF Inv_parts(6) [OF i(1)]])
  moreover have "0 \<le> frame_total (w_sem s) k" unfolding frame_total_def by (rule sum_nonneg) (simp add: nonneg)
  ultimately have "qb k s \<le> 0" and total: "frame_total (w_sem s) k \<le> 0"
    using tok(1) by (simp_all add: qb_def split: if_splits)
  then show "\<not> queued k s" by (simp add: qb_def split: if_splits)
  have zero: "weight (w_sem s) (fr k u) = 0" if "u < ?n" for u
    using sum_zero [of ?n "\<lambda>u. weight (w_sem s) (fr k u)", OF nonneg _ that] total by (simp add: frame_total_def)
  then show "\<not> mentions f s" if "f \<in> set fs" using own that cur(1,2) by fastforce
  show "\<not> mentions f s" if "t \<noteq> ?c" "f \<in> set (fr k t)"
  proof -
    have "t < ?n"
    proof (rule ccontr)
      assume "\<not> t < ?n"
      then have "threads k t = None"
        using sched_ids(1) [OF Inv_parts(6) [OF i(1)]] by (cases "threads k t") auto
      then show False using that(2) by (simp add: fr_simps)
    qed
    then show ?thesis using fr_waiter(2) [OF i(1) t(1) _ zero that(2)] del that(1) by simp
  qed
qed

lemma waits_for_mentions: "waits_for fs = Some s \<Longrightarrow> \<exists>f \<in> set fs. mentions f s"
  by (cases fs rule: waits_for.cases) auto

lemma step_delete_semaphore:
  assumes f: "runs_frame \<Gamma> k th (F_delete_semaphore s) fs"
  shows "runs \<Gamma> (exec (F_delete_semaphore s) (popped k th fs))"
proof -
  note i = runs_frame_Inv [OF f] and cur = runs_frame_current [OF f] and un = delete_unused [OF f]
  have o: "ordinary (F_delete_semaphore s # fs)" by simp
  note run = runs_frame_ordinary(2) [OF f o]
  have typed: "typed \<Gamma> (level k) (held k (currentThread k)) fs" using runs_frame_ordinary(1) [OF f o] by simp
  let ?k1 = "k\<lparr>semaphores := (semaphores k)(s := None)\<rparr>"
  let ?kp = "popped k th fs" and ?k = "put_thread (currentThread k) (th\<lparr>frames := fs\<rparr>) ?k1"
  have s0: "sched_ok ?kp" using popped_sched [OF f o, of "level k"] by simp
  have fr: "fr ?k u = (if u = currentThread k then fs else fr k u)" for u by (simp add: fr_def)
  have unmentioned: "g \<in> set (fr ?k u) \<Longrightarrow> \<not> mentions g s" for g u
    using un(2,3) by (auto simp: fr split: if_splits)
  have awake: "\<not> sleeps_in ?kp u s" for u
  proof
    assume "sleeps_in ?kp u s"
    then have "waits_for (fr ?kp u) = Some s" using sched_sleeps [OF s0] by blast
    moreover have "fr ?kp u = fr ?k u" by (simp add: fr_def)
    ultimately show False using waits_for_mentions unmentioned by metis
  qed
  have sleeps: "sleeps_in ?k u s' = sleeps_in ?kp u s'" for u s'
    using awake [of u] by (auto simp: sleeps_in_def)
  have st: "st ?k = st ?kp" "fr ?k = fr ?kp" by (simp_all add: st_def fr_def fun_eq_iff)
  have sched: "sched_ok ?k"
  proof -
    have "ids_ok ?k" using s0 by (simp add: sched_ok_def ids_ok_def)
    moreover have "ready_ok ?k" using s0 unfolding sched_ok_def ready_ok_def st by simp
    moreover have "queues_ok ?k"
      using s0 unfolding sched_ok_def queues_ok_def sleeps st by (auto split: if_splits)
    moreover have "blocked_ok ?k" using s0 unfolding sched_ok_def blocked_ok_def sleeps st by simp
    ultimately show ?thesis by (simp add: sched_ok_def)
  qed
  have m: "matches \<Gamma> ?k" using i(3) un(1) by (auto simp: matches_def)
  have lo: "local_step k ?kp (th\<lparr>frames := fs\<rparr>)"
    by (rule quiet_local [OF quiet_level(1) [OF f] Inv_parts(6) [OF i(1)]])
  have tot: "frame_total w ?k = frame_total w k - weight w (F_delete_semaphore s # fs) + weight w fs" for w
  proof -
    have "frame_total w ?k = frame_total w ?kp" by (simp add: frame_total_def fr_def)
    then show ?thesis using stays_total [OF local_stays [OF lo] Inv_parts(6) [OF i(1)] cur(3), of w] by (simp add: cur(1))
  qed
  have sv: "s' \<noteq> s \<Longrightarrow> sv ?k s' = sv k s'" and hb: "hb ?k y = hb k y" and qb: "qb ?k s' = qb k s'" for s' y
    by (simp_all add: sv_def hb_def qb_def queued_def)
  have "tokens_ok \<Gamma> ?k"
  proof (rule tokens_okI)
    show "sv ?k s' + hb ?k y + frame_total (w_lock y s') ?k = 1" if y: "c_locks \<Gamma> y = Some s'" for y s'
    proof -
      have "s' \<noteq> s" using un(1) lock_semaphore_owner(2) [OF i(2) y] by auto
      then show ?thesis using tokens_lock [OF Inv_parts(7) [OF i(1)] i(3) y] by (simp add: tot sv hb)
    qed
    show "sv ?k (c_dsem \<Gamma> d) + db ?k d + frame_total (w_dev d (c_dsem \<Gamma> d)) ?k = 0" if d: "d \<in> busy_devices" for d
    proof -
      have "c_dsem \<Gamma> d \<noteq> s" using un(1) dev_semaphore_owner(2) [OF i(2) d] by auto
      then show ?thesis using tokens_dev [OF Inv_parts(7) [OF i(1)] i(3) d] by (simp add: tot sv)
    qed
    show "sv ?k s' + qb ?k s' + frame_total (w_sem s') ?k = 0 \<and> frame_total (w_del s') ?k = 1"
      if s': "s' \<notin> statics \<Gamma>" "semaphores ?k s' \<noteq> None" for s'
    proof -
      have "s' \<noteq> s" "semaphores k s' \<noteq> None" using s'(2) by (auto split: if_splits)
      then show ?thesis using tokens_waiter [OF Inv_parts(7) [OF i(1)] s'(1)] by (simp add: tot sv qb)
    qed
    show "semaphores ?k s' \<noteq> None" if g: "g \<in> set (fr ?k u)" "mentions g s'" "s' \<notin> statics \<Gamma>" for u g s'
    proof -
      have "s' \<noteq> s" using unmentioned g(1,2) by metis
      moreover have "g \<in> set (fr k u)" using g(1) cur(1) by (auto simp: fr split: if_splits)
      ultimately show ?thesis using tokens_mention [OF Inv_parts(7) [OF i(1)] _ g(2,3)] by auto
    qed
    show "queues_wf \<Gamma> ?k"
    proof -
      have "s' \<noteq> s" if "conditions k c' = Some cond'" "s' \<in> set (waitQueue cond')" for s' c' cond'
        using that un(4) by (auto simp: queued_def)
      then show ?thesis using Inv_queues [OF f] unfolding queues_wf_def by auto
    qed
  qed (rule m)
  then have "Inv \<Gamma> (put_thread (currentThread k) (th\<lparr>frames := fs\<rparr>) ?k1)"
    using m sched i by (intro Inv_change [OF f o _ _ _ _ _ _ typed]) (simp_all add: held_def fun_eq_iff)
  moreover obtain sem where "semaphores k s = Some sem" by (rule Inv_semaphore [OF f, of s]) simp
  ultimately show ?thesis by (simp add: delete_semaphore_def)
qed

section \<open>Forking\<close>

definition forked :: "u32 list \<Rightarrow> frame list \<Rightarrow> thread" where
  "forked garbage func = (StackAllocate func (Thread_Thread garbage))\<lparr>status := READY\<rparr>"

lemma forked_fields:
  "status (forked g func) = READY" "frames (forked g func) = F_Begin # func @ [F_Finish]"
  "stack (forked g func) = Some STACK_FENCEPOST" "user_regs_ok (forked g func)"
  by (simp_all add: forked_def StackAllocate_def Thread_Thread_def user_regs_ok_def)

text \<open>A program under way owes nothing to anybody.\<close>

lemma program_weights:
  assumes "list_all (call_frame \<Gamma>) func"
  shows "s \<notin> users \<Gamma> \<Longrightarrow> weight (w_lock x s) (F_Begin # func @ [F_Finish]) = 0"
    "s \<notin> users \<Gamma> \<Longrightarrow> weight (w_dev d s) (F_Begin # func @ [F_Finish]) = 0"
    "s \<notin> users \<Gamma> \<Longrightarrow> weight (w_sem s) (F_Begin # func @ [F_Finish]) = 0"
    "weight (w_del s) (F_Begin # func @ [F_Finish]) = 0"
    "s \<notin> users \<Gamma> \<Longrightarrow> f \<in> set (F_Begin # func @ [F_Finish]) \<Longrightarrow> \<not> mentions f s"
  using call_frames_weight [OF assms] by auto

lemma fork_sched:
  assumes f: "runs_frame \<Gamma> k th f fs" "ordinary (f # fs)" and g: "status u = READY"
    and k1: "k1 = k\<lparr>next_object := Suc (next_object k), threads := (threads k)(next_object k \<mapsto> u),
      readyList := readyList k @ [next_object k], level := l\<rparr>"
  shows "sched_ok k1"
proof -
  note sched = Inv_parts(6) [OF runs_frame_Inv(1) [OF f(1)]] and fresh = Inv_fresh [OF f(1)]
  let ?n = "next_object k"
  have st: "st k1 t = (if t = ?n then Some READY else st k t)" "fr k1 t = (if t = ?n then frames u else fr k t)"
    and sleeps: "sleeps_in k1 t s = sleeps_in k t s" for t s
    by (simp_all add: st_def fr_def sleeps_in_def k1 g)
  have none: "st k ?n = None" using fresh(1) by (simp add: st_simps)
  have "ids_ok k1" using sched by (auto simp: sched_ok_def ids_ok_def k1 less_Suc_eq)
  moreover have "ready_ok k1"
    using sched_ready [OF sched] none unfolding ready_ok_def st by (auto simp: k1)
  moreover have "queues_ok k1"
    unfolding queues_ok_def sleeps
  proof (intro conjI allI impI)
    fix s sem assume "semaphores k1 s = Some sem"
    then have "semaphores k s = Some sem" by (simp add: k1)
    from sched_sem [OF sched this] show "0 \<le> sem_value sem" "distinct (queue sem)" by simp_all
  next
    fix t s assume "sleeps_in k t s"
    from sched_sleeps [OF sched this] none show "st k1 t = Some BLOCKED" "waits_for (fr k1 t) = Some s"
      unfolding st by auto
  qed
  moreover have "blocked_ok k1"
    unfolding blocked_ok_def sleeps st using sched_blocked [OF sched] by simp
  ultimately show ?thesis by (simp add: sched_ok_def)
qed

lemma step_Fork:
  assumes f: "runs_frame \<Gamma> k th (F_Fork garbage func) fs"
  shows "runs \<Gamma> (exec (F_Fork garbage func) (popped k th fs))"
proof -
  note i = runs_frame_Inv [OF f] and cur = runs_frame_current [OF f] and fresh = Inv_fresh [OF f]
  have o: "ordinary (F_Fork garbage func # fs)" by simp
  note run = runs_frame_ordinary(2) [OF f o] and sched = Inv_parts(6) [OF i(1)]
  have t: "list_all (call_frame \<Gamma>) func" "typed \<Gamma> IntOn {} (func @ [F_Finish])"
    "typed \<Gamma> (level k) (held k (currentThread k)) fs"
    using runs_frame_ordinary(1) [OF f o] by simp_all
  note pw = program_weights [OF t(1)]
  let ?n = "next_object k" and ?c = "currentThread k" and ?u = "forked garbage func"
  let ?gs = "F_SetLevel (level k) # fs"
  let ?kf = "k\<lparr>next_object := Suc ?n, threads := (threads k)(?n \<mapsto> ?u), readyList := readyList k @ [?n], level := IntOff\<rparr>"
  let ?k = "put_thread ?c (th\<lparr>frames := ?gs\<rparr>) ?kf"
  have sf: "sched_ok ?kf" by (rule fork_sched [OF f o _ refl]) (simp add: forked_fields)
  have lo: "local_step ?kf ?k (th\<lparr>frames := ?gs\<rparr>)" using sched_sem [OF sf] by (auto simp: local_step_def)
  have s2: "sched_ok ?k" by (rule local_sched [OF sf lo, of th]) (use run cur fresh(4) in simp_all)
  have fr: "fr ?k u = (if u = ?c then ?gs else if u = ?n then F_Begin # func @ [F_Finish] else fr k u)" for u
    by (simp add: fr_def forked_fields)
  have tot: "frame_total w ?k = frame_total w k - weight w (F_Fork garbage func # fs) + weight w ?gs +
      weight w (F_Begin # func @ [F_Finish])" for w
  proof -
    have "frame_total w ?k = frame_total w k - weight w (fr k ?c) + weight w (fr ?k ?c) + weight w (fr ?k ?n)"
      by (rule total_grow) (use cur(2) fresh(3) in \<open>simp_all add: fr_def\<close>)
    then show ?thesis using fresh(4) unfolding fr by (simp add: cur(1))
  qed
  have m: "matches \<Gamma> ?k" using i(3) by (simp add: matches_def)
  have same: "sv ?k = sv k" "hb ?k = hb k" "qb ?k = qb k" by (simp_all add: sv_def hb_def qb_def queued_def fun_eq_iff)
  have tk: "tokens_ok \<Gamma> ?k"
  proof (rule tokens_okI)
    show "sv ?k s + hb ?k y + frame_total (w_lock y s) ?k = 1" if y: "c_locks \<Gamma> y = Some s" for y s
      using tokens_lock [OF Inv_parts(7) [OF i(1)] i(3) y] pw(1) [OF lock_semaphore_owner(1) [OF i(2) y]]
      unfolding same tot by simp
    show "sv ?k (c_dsem \<Gamma> d) + db ?k d + frame_total (w_dev d (c_dsem \<Gamma> d)) ?k = 0" if d: "d \<in> busy_devices" for d
      using tokens_dev [OF Inv_parts(7) [OF i(1)] i(3) d] pw(2) [OF dev_semaphore_owner(1) [OF i(2) d]]
      unfolding same tot by simp
    show "sv ?k s + qb ?k s + frame_total (w_sem s) ?k = 0 \<and> frame_total (w_del s) ?k = 1"
      if s: "s \<notin> statics \<Gamma>" "semaphores ?k s \<noteq> None" for s
      using tokens_waiter [OF Inv_parts(7) [OF i(1)] s(1)] s(2) pw(3,4) [of s] waiter_owner(1) [OF s(1)]
      unfolding same tot by simp
    show "semaphores ?k s \<noteq> None" if g: "g \<in> set (fr ?k u)" "mentions g s" "s \<notin> statics \<Gamma>" for u g s
    proof -
      have "g \<in> set (fr k u)" using g(1,2) cur(1) pw(5) [OF waiter_owner(1) [OF g(3)], of g] unfolding fr
        by (auto split: if_splits)
      then show ?thesis using tokens_mention [OF Inv_parts(7) [OF i(1)] _ g(2,3)] by simp
    qed
    show "queues_wf \<Gamma> ?k" using Inv_queues [OF f] by (subst queues_wf_cong [of _ k]) simp_all
  qed (rule m)
  have held: "held ?k u = held k u" for u by (simp add: held_def)
  have tbd: "toBeDestroyed k = None" by (rule runs_frame_ordinary(3) [OF f o])
  have "thread_ok \<Gamma> ?k v u \<and> user_regs_ok u" if v: "threads ?k v = Some u" for v u
  proof -
    consider "v = ?c" "u = th\<lparr>frames := ?gs\<rparr>" | "v = ?n" "v \<noteq> ?c" "u = ?u" | "v \<noteq> ?c" "v \<noteq> ?n" "threads k v = Some u"
      using v by (auto split: if_splits)
    then show ?thesis
    proof cases
      case 1
      have "user_regs_ok u" using Inv_parts(9) [OF i(1) cur(3)] by (simp add: 1 user_regs_ok_def)
      moreover have "typed \<Gamma> IntOff (held ?k ?c) ?gs" using t(3) unfolding held by simp
      ultimately show ?thesis
        using 1 run tbd Inv_ordinary(3) [OF i(1) cur(3) runs_frame_ordinary(4) [OF f o]]
        by (simp add: thread_ok_ordinary)
    next
      case 2
      have "held k ?n = {}" using Inv_parts(10) [OF i(1)] fresh(1) by (auto simp: holders_ok_def)
      then show ?thesis using 2 t(2) held by (simp add: thread_ok_simps(1) [of _ "func @ [F_Finish]"] forked_fields)
    next
      case 3
      have "thread_ok \<Gamma> ?k v u"
        by (rule thread_ok_woken [OF Inv_parts(8) [OF i(1) 3(3)]]) (use 3 held in simp_all)
      then show ?thesis using Inv_parts(9) [OF i(1) 3(3)] by simp
    qed
  qed
  moreover have "holders_ok ?k"
    using Inv_parts(10) [OF i(1)] unfolding holders_ok_def held by simp
  ultimately have "Inv \<Gamma> ?k" using i m s2 tk tbd by (simp add: Inv_def tokens_ok_def)
  moreover have "?n \<notin> set (readyList k)"
    using sched_ready(1) [OF sched, of ?n] fresh(1) by (simp add: st_simps)
  moreover have "put_thread ?n u (put_thread ?c v k1) = put_thread ?c v (put_thread ?n u k1)" for u v k1
    using fresh(4) by (simp add: put_thread_def fun_upd_twist)
  moreover have "put_thread ?n ?u (k\<lparr>next_object := Suc ?n, level := IntOff, readyList := readyList k @ [?n]\<rparr>) =
      k\<lparr>next_object := Suc ?n, threads := (threads k)(?n \<mapsto> ?u), readyList := readyList k @ [?n], level := IntOff\<rparr>"
    by (simp add: put_thread_def)
  ultimately show ?thesis
    using fresh(4)
    by (simp add: Fork_def new_Thread_def SetLevel_def ChangeLevel_def ReadyToRun_def setStatus_def seq_append_def
        Let_def forked_def)
qed

end
