(* ===== verification/Kernel_Switch.thy ===== *)
theory Kernel_Switch
  imports Kernel_Objects
begin

text \<open>
  The steps that switch threads: sleeping, yielding, finishing, and the two places where a thread
  that has been given the processor goes on.
\<close>

section \<open>A thread that gives up the processor\<close>

text \<open>
  \<open>leaving \<Gamma> b k th\<close>: interrupts are off and the current thread \<open>th\<close> is no longer running; it has
  finished (\<open>b\<close>), or it will go on with the stack it has.
\<close>

definition leaving :: "ctx \<Rightarrow> bool \<Rightarrow> kernel \<Rightarrow> thread \<Rightarrow> bool" where
  "leaving \<Gamma> b k th \<longleftrightarrow>
     devices_ok k \<and> \<not> inHandler k \<and> kmachine k \<noteq> None \<and> ctx_ok \<Gamma> \<and> matches \<Gamma> k \<and> sched_ok k \<and>
     tokens_ok \<Gamma> k \<and> holders_ok k \<and> level k = IntOff \<and> toBeDestroyed k = None \<and>
     threads k (currentThread k) = Some th \<and> user_regs_ok th \<and>
     (stack th = None \<or> stack th = Some STACK_FENCEPOST) \<and> status th \<in> {READY, BLOCKED} \<and>
     (if b then frames th = [] \<and> status th = BLOCKED \<and> held k (currentThread k) = {}
      else typed \<Gamma> IntOff (held k (currentThread k)) (frames th)) \<and>
     (\<forall>t u. t \<noteq> currentThread k \<longrightarrow> threads k t = Some u \<longrightarrow> thread_ok \<Gamma> k t u \<and> user_regs_ok u)"

lemma leaving_parts:
  assumes "leaving \<Gamma> b k th"
  shows "devices_ok k" "\<not> inHandler k" "kmachine k \<noteq> None" "ctx_ok \<Gamma>" "matches \<Gamma> k" "sched_ok k"
    "tokens_ok \<Gamma> k" "holders_ok k" "level k = IntOff" "toBeDestroyed k = None"
    "threads k (currentThread k) = Some th" "user_regs_ok th"
    "stack th = None \<or> stack th = Some STACK_FENCEPOST" "status th = READY \<or> status th = BLOCKED"
    "b \<Longrightarrow> frames th = [] \<and> status th = BLOCKED \<and> held k (currentThread k) = {}"
    "\<not> b \<Longrightarrow> typed \<Gamma> IntOff (held k (currentThread k)) (frames th)"
    "t \<noteq> currentThread k \<Longrightarrow> threads k t = Some u \<Longrightarrow> thread_ok \<Gamma> k t u"
    "t \<noteq> currentThread k \<Longrightarrow> threads k t = Some u \<Longrightarrow> user_regs_ok u"
  using assms unfolding leaving_def by (auto split: if_splits)

text \<open>Replacing the stack of the current thread by one with the same tokens.\<close>

lemma balanced_tokens:
  assumes tk: "tokens_ok \<Gamma> k" and m: "matches \<Gamma> k" and sched: "sched_ok k" and th: "threads k (currentThread k) = Some th"
    and k1: "threads k1 = (threads k)(currentThread k \<mapsto> th')" "next_object k1 = next_object k"
      "locks k1 = locks k" "conditions k1 = conditions k"
      "\<And>s. map_option sem_value (semaphores k1 s) = map_option sem_value (semaphores k s)"
      "active (disk k1) = active (disk k)" "putBusy (consoleOutput k1) = putBusy (consoleOutput k)"
      "matches \<Gamma> k1"
    and bal: "balanced \<Gamma> (frames th) (frames th')"
  shows "tokens_ok \<Gamma> k1"
proof -
  let ?c = "currentThread k"
  have none: "semaphores k1 s = None \<longleftrightarrow> semaphores k s = None" for s
    using k1(5) [of s] by (metis map_option_is_None)
  have fr: "fr k1 t = (if t = ?c then frames th' else fr k t)" for t by (simp add: fr_def k1(1))
  have frc: "fr k ?c = frames th" using th by (simp add: fr_simps)
  have sv: "sv k1 s = sv k s" for s
    using k1(5) [of s] by (cases "semaphores k s"; cases "semaphores k1 s") (simp_all add: sv_def)
  show ?thesis
  proof (rule tokens_shift [OF tk m k1(8), of ?c "frames th'"])
    show "shift \<Gamma> k k1 (fr k ?c) (frames th')"
      using bal unfolding frc
      by (simp add: shift_def balanced_def sv hb_def qb_def queued_def k1(3,4,6,7))
    show "frame_total w k1 = frame_total w k - weight w (fr k ?c) + weight w (frames th')" for w
    proof -
      have "frame_total w k1 = frame_total w k - weight w (fr k ?c) + weight w (fr k1 ?c)"
        by (rule total_update) (use k1(2) sched_ids(1) [OF sched th] in \<open>simp_all add: fr\<close>)
      then show ?thesis by (simp add: fr)
    qed
    show "semaphores k s \<noteq> None" if g: "g \<in> set (frames th')" "mentions g s" "s \<notin> statics \<Gamma>" for g s
    proof -
      obtain h where "h \<in> set (fr k ?c)" "mentions h s" using bal g unfolding balanced_def frc by blast
      then show ?thesis using tokens_mention [OF tk _ _ g(3)] by blast
    qed
    show "queues_wf \<Gamma> k1" by (rule queues_wf_same [OF tokens_queues [OF tk] k1(4) none])
  qed (rule fr none)+
qed

lemma balanced_refl: "balanced \<Gamma> fs fs"
  by (auto simp: balanced_def)

lemma balanced_switch:
  "balanced \<Gamma> fs (F_Sleep_loop b # fs)" "balanced \<Gamma> (F_Sleep_loop b # fs) fs"
  "balanced \<Gamma> fs (F_Run_back # fs)" "balanced \<Gamma> (F_Run_back # fs) fs" "balanced \<Gamma> (F_Begin # fs) fs"
  "balanced \<Gamma> (F_Yield # fs) (F_SetLevel l # fs)" "balanced \<Gamma> (F_Finish # fs) fs"
  by (auto simp: balanced_def)

text \<open>The loop of \<open>Sleep\<close>.\<close>

lemma typed_waits: "typed \<Gamma> l H fs \<Longrightarrow> waits_for fs = Some s \<Longrightarrow> \<exists>gs. fs = F_P_loop s # gs"
  by (cases fs rule: waits_for.cases) auto

lemma typed_unfinished: "typed \<Gamma> l H fs \<Longrightarrow> \<not> finished fs"
  by (auto simp: finished_def)

lemma leaving_push:
  assumes l: "leaving \<Gamma> b k th" and w: "\<not> b \<Longrightarrow> waits_for (frames th) \<noteq> None"
  shows "Inv \<Gamma> (popped k th (F_Sleep_loop b # frames th))"
proof -
  note p = leaving_parts [OF l]
  let ?th = "th\<lparr>frames := F_Sleep_loop b # frames th\<rparr>"
  let ?k = "popped k th (F_Sleep_loop b # frames th)"
  have lo: "local_step k ?k ?th" using sched_sem [OF p(6)] by (auto simp: local_step_def)
  have sched: "sched_ok ?k"
  proof (rule local_sched [OF p(6) lo p(11)])
    show "waits_for (frames ?th) = waits_for (frames th) \<and> (finished (frames th) \<longrightarrow> finished (frames ?th))"
      using p(15) w typed_waits [OF p(16)] typed_unfinished [OF p(16)]
      by (cases b) (auto simp: finished_def)
  qed simp
  have m: "matches \<Gamma> ?k" by (rule stays_matches [OF p(5) local_stays [OF lo]])
  have tk: "tokens_ok \<Gamma> ?k"
    by (rule balanced_tokens [OF p(7,5,6,11), where th' = ?th]) (use m balanced_switch in simp_all)
  have "thread_ok \<Gamma> ?k t u \<and> user_regs_ok u" if u: "threads ?k t = Some u" for t u
  proof (cases "t = currentThread k")
    case True
    then have ut: "u = ?th" using u by simp
    have "thread_ok \<Gamma> ?k t ?th"
      using thread_ok_simps(3) [of ?th b "frames th" \<Gamma> ?k t] p(9,10,13-16) w True by (cases b) auto
    moreover have "user_regs_ok ?th" using p(12) by (simp add: user_regs_ok_def)
    ultimately show ?thesis using ut by simp
  next
    case False
    then have t: "threads k t = Some u" using u by simp
    have "thread_ok \<Gamma> ?k t u"
      by (rule thread_ok_woken [OF p(17) [OF False t]]) (use False in simp_all)
    then show ?thesis using p(18) [OF False t] by simp
  qed
  moreover have "holders_ok ?k" using p(8) by (simp add: holders_ok_def)
  ultimately show ?thesis using p(1-4,10) m sched tk by (simp add: Inv_def tokens_ok_def)
qed

lemma leaving_pop:
  assumes f: "runs_frame \<Gamma> k th (F_Sleep_loop b) fs"
  shows "leaving \<Gamma> b (popped k th fs) (th\<lparr>frames := fs\<rparr>)" "\<not> b \<Longrightarrow> waits_for fs \<noteq> None"
proof -
  note i = runs_frame_Inv [OF f] and cur = runs_frame_current [OF f]
  have fs: "frames th = F_Sleep_loop b # fs" using f by (simp add: runs_frame_def)
  note sched = Inv_parts(6) [OF i(1)]
  have ok: "stack th = None \<or> stack th = Some STACK_FENCEPOST" "level k = IntOff" "toBeDestroyed k = None"
    "status th = READY \<or> status th = BLOCKED"
    "b \<Longrightarrow> fs = [] \<and> status th = BLOCKED \<and> held k (currentThread k) = {}"
    "\<not> b \<Longrightarrow> waits_for fs \<noteq> None" "\<not> b \<Longrightarrow> typed \<Gamma> IntOff (held k (currentThread k)) fs"
    using Inv_parts(8) [OF i(1) cur(3)] unfolding thread_ok_simps(3) [OF fs] by (auto split: if_splits)
  let ?k = "popped k th fs" and ?th = "th\<lparr>frames := fs\<rparr>"
  have lo: "local_step k ?k ?th" by (rule quiet_local [OF quiet_level(1) [OF f] sched])
  have s: "sched_ok ?k"
  proof (rule local_sched [OF sched lo cur(3)])
    show "waits_for (frames ?th) = waits_for (frames th) \<and> (finished (frames th) \<longrightarrow> finished (frames ?th))"
      using ok(5,6) typed_waits [OF ok(7)] by (cases b) (auto simp: fs finished_def)
  qed simp
  have m: "matches \<Gamma> ?k" by (rule stays_matches [OF i(3) local_stays [OF lo]])
  have tk: "tokens_ok \<Gamma> ?k"
    by (rule balanced_tokens [OF Inv_parts(7) [OF i(1)] i(3) sched cur(3), where th' = ?th])
      (use m balanced_switch in \<open>simp_all add: fs\<close>)
  have "thread_ok \<Gamma> ?k t u \<and> user_regs_ok u" if t: "t \<noteq> currentThread k" "threads k t = Some u" for t u
  proof -
    have "thread_ok \<Gamma> ?k t u"
      by (rule thread_ok_woken [OF Inv_parts(8) [OF i(1) t(2)]]) (use t in simp_all)
    then show ?thesis using Inv_parts(9) [OF i(1) t(2)] by simp
  qed
  moreover have "holders_ok ?k" using Inv_parts(10) [OF i(1)] by (simp add: holders_ok_def)
  moreover have "user_regs_ok ?th" using Inv_parts(9) [OF i(1) cur(3)] by (simp add: user_regs_ok_def)
  ultimately show "leaving \<Gamma> b ?k ?th"
    using i m tk s ok by (simp add: leaving_def)
  show "\<not> b \<Longrightarrow> waits_for fs \<noteq> None" by (rule ok(6))
qed

text \<open>Waiting for an interrupt.\<close>

lemma leaving_interruptible: "leaving \<Gamma> b k th \<Longrightarrow> interruptible \<Gamma> k"
  by (simp add: leaving_def interruptible_def tokens_ok_def)

lemma leaving_served:
  assumes l: "leaving \<Gamma> b k th" and sv: "served \<Gamma> k k'" "level k' = IntOff"
  obtains th' where "leaving \<Gamma> b k' th'" "frames th' = frames th"
proof -
  note p = leaving_parts [OF l]
  have d: "disturbed \<Gamma> k k'" using sv(1) by (simp add: served_def)
  then have eqs: "currentThread k' = currentThread k" "toBeDestroyed k' = toBeDestroyed k"
    "\<And>t. woken (threads k t) (threads k' t)" "locks k' = locks k"
    by (simp_all add: disturbed_def)
  have held: "held k' t = held k t" for t by (simp add: held_def eqs(4))
  obtain th' where th': "threads k' (currentThread k) = Some th'" "woken (Some th) (Some th')"
    using eqs(3) [of "currentThread k"] p(11) by (cases "threads k' (currentThread k)") (auto simp: woken_def)
  have fr: "frames th' = frames th" "stack th' = stack th" "user_regs_ok th'"
    using th'(2) woken_user_regs [OF p(12) th'(2)] by (auto simp: woken_def)
  have "b \<Longrightarrow> status th' = BLOCKED"
    using th'(2) p(15) by (auto simp: woken_def)
  moreover have "status th' = READY \<or> status th' = BLOCKED" using th'(2) p(14) by (auto simp: woken_def)
  moreover have "thread_ok \<Gamma> k' t u \<and> user_regs_ok u" if t: "t \<noteq> currentThread k" "threads k' t = Some u" for t u
  proof -
    have w: "woken (threads k t) (Some u)" using eqs(3) [of t] t(2) by simp
    then obtain v where v: "threads k t = Some v" using woken_None [of "threads k t" "Some u"] by auto
    have "thread_ok \<Gamma> k' t u"
      by (rule thread_ok_woken [OF p(17) [OF t(1) v] w [unfolded v] eqs(1) held eqs(2)]) (use t in simp)
    then show ?thesis using woken_user_regs [OF p(18) [OF t(1) v] w [unfolded v]] by simp
  qed
  moreover have "holders_ok k'"
    unfolding holders_ok_def held
  proof (intro allI impI)
    fix t assume "held k t \<noteq> {}"
    then have "threads k t \<noteq> None" using p(8) unfolding holders_ok_def by blast
    then show "threads k' t \<noteq> None" using woken_None [OF eqs(3) [of t]] by metis
  qed
  ultimately have "leaving \<Gamma> b k' th'"
    using sv p(3,4,9,10,13,15,16) served_tokens [OF p(7,5,4) sv(1)] disturbed_matches [OF p(5) d] th'(1) fr
    by (simp add: leaving_def served_def eqs(1,2) held)
  with fr(1) that show ?thesis by blast
qed

section \<open>Running another thread\<close>

text \<open>\<open>SaveUserState\<close> keeps the registers of the machine, which are in order.\<close>

lemma save_state:
  assumes "devices_ok k" "kmachine k \<noteq> None" "user_regs_ok th"
  obtains th' where "(case space th of None \<Rightarrow> Inr th
      | Some sp \<Rightarrow> bindr (SaveUserState k th) (\<lambda>th. Inr (th\<lparr>space := Some (SaveState k sp)\<rparr>))) = Inr th'"
    "frames th' = frames th" "status th' = status th" "stack th' = stack th" "user_regs_ok th'"
proof (cases "space th")
  case None
  then show ?thesis using that [of th] assms(3) by simp
next
  case (Some sp)
  obtain m where m: "kmachine k = Some m" using assms(2) by blast
  have "regs_ok m" using assms(1) by (simp add: devices_ok_def hardware_ok_def m)
  then have regs: "registers m 0 = 0" "registers m LoadReg < 32" by (simp_all add: regs_ok_def)
  let ?th = "th\<lparr>userRegisters := map (registers m) [0..<NumTotalRegs], space := Some (SaveState k sp)\<rparr>"
  have "user_regs_ok ?th"
    using regs by (simp add: user_regs_ok_def nth_append reg_numbers)
  with m Some show ?thesis by (intro that [of ?th]) (simp_all add: SaveUserState_def)
qed

lemma switched_thread_ok:
  assumes ok: "thread_ok \<Gamma> k t u" "t \<noteq> currentThread k" "toBeDestroyed k = None"
    and k': "t \<noteq> currentThread k'" "held k' t = held k t"
  shows "thread_ok \<Gamma> k' t u"
  using ok(1)
proof (cases rule: thread_ok_cases)
  case ordinary
  then show ?thesis using ok by (simp add: thread_ok_ordinary)
next
  case (F_Begin fs)
  then show ?thesis using ok k' by (simp add: thread_ok_simps)
next
  case (F_Run_back fs)
  then show ?thesis using ok k' by (cases "fs = []") (simp_all add: thread_ok_simps)
next
  case (F_Sleep_loop b fs)
  then show ?thesis using ok by (simp add: thread_ok_simps)
qed

lemma resumed_thread_ok:
  assumes ok: "thread_ok \<Gamma> k t u" "t \<noteq> currentThread k" "status u = READY"
    and k': "t = currentThread k'" "held k' t = held k t" "level k' = IntOff"
  shows "thread_ok \<Gamma> k' t (u\<lparr>status := RUNNING\<rparr>)"
  using ok(1)
proof (cases rule: thread_ok_cases)
  case ordinary
  then show ?thesis using ok by (simp add: thread_ok_ordinary)
next
  case (F_Begin fs)
  then show ?thesis using ok k' thread_ok_simps(1) [of "u\<lparr>status := RUNNING\<rparr>" fs] by (simp add: thread_ok_simps(1))
next
  case (F_Run_back fs)
  then show ?thesis
    using ok k' thread_ok_simps(2) [of "u\<lparr>status := RUNNING\<rparr>" fs] by (cases "fs = []") (simp_all add: thread_ok_simps(2))
next
  case (F_Sleep_loop b fs)
  then show ?thesis using ok by (simp add: thread_ok_simps)
qed

text \<open>The state after \<open>Scheduler::Run\<close>; \<open>th'\<close> is the old thread with its user state saved.\<close>

definition switched :: "kernel \<Rightarrow> bool \<Rightarrow> tid \<Rightarrow> thread \<Rightarrow> tid list \<Rightarrow> kernel \<Rightarrow> bool" where
  "switched k b t th' l k' \<longleftrightarrow>
     devices.truncate k' = devices.truncate k \<and>
     (\<exists>u. ((threads k)(currentThread k \<mapsto> th'\<lparr>frames := F_Run_back # frames th'\<rparr>)) t = Some u \<and>
       threads k' = (threads k)(currentThread k \<mapsto> th'\<lparr>frames := F_Run_back # frames th'\<rparr>, t \<mapsto> u\<lparr>status := RUNNING\<rparr>)) \<and>
     currentThread k' = t \<and> readyList k' = l \<and>
     toBeDestroyed k' = (if b then Some (currentThread k) else toBeDestroyed k) \<and>
     semaphores k' = semaphores k \<and> locks k' = locks k \<and> conditions k' = conditions k \<and>
     synch_lists k' = synch_lists k \<and> next_object k' = next_object k \<and> device_semaphore k' = device_semaphore k \<and>
     device_lock k' = device_lock k \<and> halted k' = halted k"

lemma truncate_fields:
  assumes "devices.truncate k' = devices.truncate (k :: kernel)"
  shows "level k' = level k" "inHandler k' = inHandler k" "kmachine k' = kmachine k" "disk k' = disk k"
    "consoleOutput k' = consoleOutput k" "devices_ok k' = devices_ok k" "yieldOnReturn k' = yieldOnReturn k"
    "mstatus k' = mstatus k" "stats k' = stats k" "pending k' = pending k"
proof -
  show fs: "level k' = level k" "inHandler k' = inHandler k" "kmachine k' = kmachine k" "disk k' = disk k"
    "consoleOutput k' = consoleOutput k" "yieldOnReturn k' = yieldOnReturn k"
    "mstatus k' = mstatus k" "stats k' = stats k" "pending k' = pending k"
    using assms by (auto simp: devices.truncate_def)
  show "devices_ok k' = devices_ok k"
    using assms fs by (simp add: devices.truncate_def devices_ok_def hardware_ok_def disk_ok_def keyboard_ok_def network_ok_def waiting_def)
qed

lemma Run_switches:
  assumes l: "leaving \<Gamma> b k th" and r: "readyList k = t # l"
  obtains th' k' where "Run t b (k\<lparr>readyList := l\<rparr>) = Inr k'" "switched k b t th' l k'"
    "frames th' = frames th" "status th' = status th" "stack th' = stack th" "user_regs_ok th'"
proof -
  note p = leaving_parts [OF l]
  let ?c = "currentThread k"
  obtain th' where th': "(case space th of None \<Rightarrow> Inr th
      | Some sp \<Rightarrow> bindr (SaveUserState k th) (\<lambda>th. Inr (th\<lparr>space := Some (SaveState k sp)\<rparr>))) = Inr th'"
    "frames th' = frames th" "status th' = status th" "stack th' = stack th" "user_regs_ok th'"
    using save_state [OF p(1,3,12)] by metis
  have save: "(case space th of None \<Rightarrow> Inr th
      | Some sp \<Rightarrow> bindr (SaveUserState k1 th) (\<lambda>th. Inr (th\<lparr>space := Some (SaveState k1 sp)\<rparr>))) = Inr th'"
    if "kmachine k1 = kmachine k" for k1
    using th'(1) that by (simp add: SaveUserState_def SaveState_def cong: option.case_cong)
  let ?threads = "(threads k)(?c \<mapsto> th'\<lparr>frames := F_Run_back # frames th'\<rparr>)"
  have "st k t = Some READY" using sched_ready(1) [OF p(6), of t] r by simp
  then have "?threads t \<noteq> None" by (auto simp: st_def)
  then obtain u where u: "?threads t = Some u" by blast
  have over: "CheckOverflow th' = Inr ()"
    using th'(4) p(13) by (auto simp: CheckOverflow_def)
  let ?k1 = "if b then k\<lparr>readyList := l, toBeDestroyed := Some ?c\<rparr> else k\<lparr>readyList := l\<rparr>"
  let ?k2 = "(put_thread ?c (th'\<lparr>frames := F_Run_back # frames th'\<rparr>) ?k1)\<lparr>currentThread := t\<rparr>"
  have "Run t b (k\<lparr>readyList := l\<rparr>) = setStatus t RUNNING ?k2"
    using p(9,10,11) save [of "k\<lparr>readyList := l\<rparr>"] save [of "k\<lparr>readyList := l, toBeDestroyed := Some ?c\<rparr>"] over
    by (simp add: Run_def Let_def)
  moreover have "threads ?k2 t = Some u" using u by (simp split: if_splits)
  then have "setStatus t RUNNING ?k2 = Inr (put_thread t (u\<lparr>status := RUNNING\<rparr>) ?k2)"
    unfolding setStatus_def by simp
  moreover have "switched k b t th' l (put_thread t (u\<lparr>status := RUNNING\<rparr>) ?k2)"
    unfolding switched_def using u by (intro conjI exI [of _ u]) (simp_all add: put_thread_def devices.truncate_def)
  ultimately show ?thesis using that th'(2-5) by simp
qed

lemma switched_sched:
  assumes l: "leaving \<Gamma> b k th" and r: "readyList k = t # l"
    and sw: "switched k b t th' l k'" "frames th' = frames th" "status th' = status th"
  shows "sched_ok k'"
proof -
  note p = leaving_parts [OF l]
  let ?c = "currentThread k"
  obtain u where u: "((threads k)(?c \<mapsto> th'\<lparr>frames := F_Run_back # frames th'\<rparr>)) t = Some u"
    "threads k' = (threads k)(?c \<mapsto> th'\<lparr>frames := F_Run_back # frames th'\<rparr>, t \<mapsto> u\<lparr>status := RUNNING\<rparr>)"
    and eqs: "readyList k' = l" "semaphores k' = semaphores k" "next_object k' = next_object k"
    using sw(1) unfolding switched_def by blast
  have st: "st k' v = (if v = t then Some RUNNING else st k v)" for v
    using u sw(3) p(11) by (simp add: st_def)
  have fr: "fr k' v = (if v = ?c then F_Run_back # frames th else fr k v)" for v
    using u sw(2) by (auto simp: fr_def split: if_splits)
  have frc: "fr k ?c = frames th" using p(11) by (simp add: fr_simps)
  have sleeps: "sleeps_in k' v s = sleeps_in k v s" for v s by (simp add: sleeps_in_def eqs)
  have ready: "st k t = Some READY" using sched_ready(1) [OF p(6), of t] r by simp
  have stack: "waits_for (frames th) = Some s \<Longrightarrow> waits_for (F_Run_back # frames th) = Some s"
    "finished (frames th) \<Longrightarrow> finished (F_Run_back # frames th)" for s
    using p(15) typed_waits [OF p(16)] typed_unfinished [OF p(16)] by (cases b; auto simp: finished_def)+
  have "ids_ok k'" using p(6,11) u sched_ids(1) [OF p(6)] unfolding sched_ok_def ids_ok_def eqs
    by (auto split: if_splits)
  moreover have "ready_ok k'"
    unfolding ready_ok_def st eqs using sched_ready [OF p(6)] r by (metis ThreadStatus.distinct(7) distinct.simps(2)
        option.inject set_ConsD list.set_intros(2))
  moreover have "queues_ok k'"
    unfolding queues_ok_def sleeps eqs
  proof (intro conjI allI impI)
    fix s sem assume "semaphores k s = Some sem"
    from sched_sem [OF p(6) this] show "0 \<le> sem_value sem" "distinct (queue sem)" by simp_all
  next
    fix v s assume "sleeps_in k v s"
    from sched_sleeps [OF p(6) this] ready stack(1) [of s] frc
    show "st k' v = Some BLOCKED" "waits_for (fr k' v) = Some s" unfolding st fr by auto
  qed
  moreover have "blocked_ok k'"
    unfolding blocked_ok_def sleeps
  proof (intro allI impI)
    fix v assume "st k' v = Some BLOCKED"
    then have "st k v = Some BLOCKED" unfolding st by (auto split: if_splits)
    from sched_blocked [OF p(6) this] stack frc
    show "finished (fr k' v) \<or> (\<exists>s. waits_for (fr k' v) = Some s \<and> sleeps_in k v s)" unfolding fr by auto
  qed
  ultimately show ?thesis by (simp add: sched_ok_def)
qed

lemma switched_Inv:
  assumes l: "leaving \<Gamma> b k th" and r: "readyList k = t # l"
    and sw: "switched k b t th' l k'" "frames th' = frames th" "status th' = status th" "stack th' = stack th"
      "user_regs_ok th'"
  shows "Inv \<Gamma> k'"
proof -
  note p = leaving_parts [OF l]
  let ?c = "currentThread k" and ?old = "th'\<lparr>frames := F_Run_back # frames th'\<rparr>"
  obtain u where u: "((threads k)(?c \<mapsto> ?old)) t = Some u"
    "threads k' = (threads k)(?c \<mapsto> ?old, t \<mapsto> u\<lparr>status := RUNNING\<rparr>)"
    and eqs: "currentThread k' = t" "semaphores k' = semaphores k" "next_object k' = next_object k"
      "locks k' = locks k" "conditions k' = conditions k" "synch_lists k' = synch_lists k"
      "device_lock k' = device_lock k" "device_semaphore k' = device_semaphore k"
      "toBeDestroyed k' = (if b then Some ?c else None)"
    and hw: "devices.truncate k' = devices.truncate k"
    using sw(1) p(10) unfolding switched_def by metis
  note hw = truncate_fields [OF hw]
  have held: "held k' v = held k v" for v by (simp add: held_def eqs)
  have m: "matches \<Gamma> k'" using p(5) by (simp add: matches_def eqs)
  have ready: "st k t = Some READY" using sched_ready(1) [OF p(6), of t] r by simp
  have self: "b \<Longrightarrow> t \<noteq> ?c" using ready p(11,15) by (auto simp: st_simps)
  have regs_old: "user_regs_ok (?old\<lparr>status := x\<rparr>)" "user_regs_ok ?old" for x using sw(5) by (simp_all add: user_regs_ok_def)
  have tk: "tokens_ok \<Gamma> k'"
  proof -
    let ?k1 = "k'\<lparr>threads := (threads k)(?c \<mapsto> ?old)\<rparr>"
    have "tokens_ok \<Gamma> ?k1"
      by (rule balanced_tokens [OF p(7,5,6,11), where th' = ?old])
        (use p(5) balanced_switch(3) sw(2) in \<open>simp_all add: eqs hw matches_def\<close>)
    moreover have "fr k' = fr ?k1" using u by (auto simp: fr_def fun_eq_iff split: if_splits)
    then have "frame_total w k' = frame_total w ?k1" for w by (simp add: frame_total_def)
    ultimately show ?thesis
      using \<open>fr k' = fr ?k1\<close>
      by (simp add: tokens_ok_def lock_tokens_def dev_tokens_def waiter_tokens_def queued_def)
  qed
  have "thread_ok \<Gamma> k' v x \<and> user_regs_ok x" if x: "threads k' v = Some x" for v x
  proof -
    consider "v = t" "v \<noteq> ?c" | "v = t" "v = ?c" | "v \<noteq> t" "v = ?c" | "v \<noteq> t" "v \<noteq> ?c" by blast
    then show ?thesis
    proof cases
      case 1
      then have "threads k v = Some u" "x = u\<lparr>status := RUNNING\<rparr>" using u x by simp_all
      moreover from this have "status u = READY" using ready 1 by (simp add: st_simps)
      moreover have "user_regs_ok x" using p(18) [OF 1(2) calculation(1)] calculation(2) by (simp add: user_regs_ok_def)
      moreover have "thread_ok \<Gamma> k' v (u\<lparr>status := RUNNING\<rparr>)"
        by (rule resumed_thread_ok [OF p(17) [OF 1(2)] 1(2)])
          (use calculation(1,3) 1(1) eqs(1) held hw(1) p(9) in simp_all)
      ultimately show ?thesis by simp
    next
      case 2
      then have nb: "\<not> b" using self by blast
      have "x = ?old\<lparr>status := RUNNING\<rparr>" using u x 2 by simp
      moreover have "thread_ok \<Gamma> k' v (?old\<lparr>status := RUNNING\<rparr>)"
        using p(9,13) p(16) [OF nb] 2 sw(2-4) nb typed_ordinary [OF p(16) [OF nb]]
        by (subst thread_ok_simps(2) [of _ "frames th"]) (auto simp: eqs held hw)
      ultimately show ?thesis using regs_old by simp
    next
      case 3
      then have "x = ?old" using u x by simp
      moreover have "thread_ok \<Gamma> k' v ?old"
      proof (cases b)
        case True
        then show ?thesis using p(13) p(15) [OF True] 3 sw(2-4)
          by (subst thread_ok_simps(2) [of _ "frames th"]) (auto simp: eqs held)
      next
        case False
        then show ?thesis using p(13,14) p(16) [OF False] 3 sw(2-4) typed_ordinary [OF p(16) [OF False]]
          by (subst thread_ok_simps(2) [of _ "frames th"]) (auto simp: eqs held)
      qed
      ultimately show ?thesis using regs_old by simp
    next
      case 4
      then have v: "threads k v = Some x" using u x by simp
      have "thread_ok \<Gamma> k' v x"
        by (rule switched_thread_ok [OF p(17) [OF 4(2) v] 4(2) p(10)]) (use 4 eqs held in simp_all)
      then show ?thesis using p(18) [OF 4(2) v] by simp
    qed
  qed
  moreover have "holders_ok k'" using p(8) u unfolding holders_ok_def held by auto
  moreover have "fr k' ?c = [F_Run_back]" if b using u sw(2) p(15) [OF that] self [OF that] by (simp add: fr_def)
  ultimately show ?thesis
    using p(1-4) m tk switched_sched [OF l r sw(1-3)] u eqs hw self self [THEN not_sym]
    by (simp add: Inv_def tokens_ok_def)
qed

lemma leaving_Run:
  assumes "leaving \<Gamma> b k th" "readyList k = t # l"
  shows "runs \<Gamma> (Run t b (k\<lparr>readyList := l\<rparr>))"
proof -
  obtain th' k' where k': "Run t b (k\<lparr>readyList := l\<rparr>) = Inr k'" "switched k b t th' l k'"
    "frames th' = frames th" "status th' = status th" "stack th' = stack th" "user_regs_ok th'"
    by (rule Run_switches [OF assms])
  with switched_Inv [OF assms k'(2-6)] show ?thesis by simp
qed

text \<open>A round of the loop of \<open>Sleep\<close> switches, waits for an interrupt, or finds nothing left to wait for.\<close>

lemma step_Sleep_loop:
  assumes f: "runs_frame \<Gamma> k th (F_Sleep_loop b) fs"
  shows "runs \<Gamma> (exec (F_Sleep_loop b) (popped k th fs)) \<or>
    (\<exists>k'. exec (F_Sleep_loop b) (popped k th fs) = Inr k' \<and> halted k' \<and>
      readyList k = [] \<and> pending k = [])"
proof -
  let ?k = "popped k th fs"
  note l = leaving_pop [OF f]
  note p = leaving_parts [OF l(1)]
  show ?thesis
  proof (cases "readyList ?k")
    case (Cons t r)
    have "exec (F_Sleep_loop b) ?k = Run t b (?k\<lparr>readyList := r\<rparr>)"
      using Cons p(9) by (simp add: Sleep_loop_def FindNextToRun_def seq_remove_front_def)
    then show ?thesis using leaving_Run [OF l(1) Cons] by simp
  next
    case Nil
    then have find: "FindNextToRun ?k = Inr (None, ?k)" using p(9) by (simp add: FindNextToRun_def)
    show ?thesis
    proof (cases rule: Idle_kernel [OF leaving_interruptible [OF l(1)] p(9), case_names hangs serves])
      case hangs
      then show ?thesis using find by (simp add: Sleep_loop_def)
    next
      case k1: (serves fired k1)
      obtain th' where th': "leaving \<Gamma> b k1 th'" "frames th' = frames (th\<lparr>frames := fs\<rparr>)"
        by (rule leaving_served [OF l(1) k1(2,3)])
      show ?thesis
      proof (cases fired)
        case True
        have "Inv \<Gamma> (popped k1 th' (F_Sleep_loop b # frames th'))"
          by (rule leaving_push [OF th'(1)]) (use l(2) th'(2) in simp)
        moreover have "exec (F_Sleep_loop b) ?k = Inr (popped k1 th' (F_Sleep_loop b # frames th'))"
          using find k1(1) True leaving_parts(11) [OF th'(1)] by (simp add: Sleep_loop_def call_def)
        ultimately show ?thesis by simp
      next
        case False
        have "pending k = []" using k1(4) False by (simp add: put_thread_def)
        then show ?thesis using find k1(1) False Nil by (simp add: Sleep_loop_def)
      qed
    qed
  qed
qed

section \<open>Leaving\<close>

text \<open>The running thread becomes ready, or blocked with nothing to wait for, or blocked on a semaphore.\<close>

lemma sched_leave:
  assumes sched: "sched_ok k" and th: "threads k (currentThread k) = Some th" "status th = RUNNING"
    and k1: "threads k1 = (threads k)(currentThread k \<mapsto> th')" "next_object k1 = next_object k"
    and cases: "status th' = READY \<and> readyList k1 = readyList k @ [currentThread k] \<and> semaphores k1 = semaphores k \<or>
      status th' = BLOCKED \<and> finished (frames th') \<and> readyList k1 = readyList k \<and> semaphores k1 = semaphores k \<or>
      status th' = BLOCKED \<and> readyList k1 = readyList k \<and> waits_for (frames th') = Some s \<and>
        semaphores k s = Some sem \<and> semaphores k1 = (semaphores k)(s \<mapsto> sem\<lparr>queue := queue sem @ [currentThread k]\<rparr>)"
  shows "sched_ok k1"
proof -
  let ?c = "currentThread k"
  have st: "st k1 v = (if v = ?c then Some (status th') else st k v)"
    and fr: "fr k1 v = (if v = ?c then frames th' else fr k v)" for v by (simp_all add: st_def fr_def k1)
  have run: "st k ?c = Some RUNNING" using th by (simp add: st_simps)
  have awake: "\<not> sleeps_in k ?c x" for x using sched_sleeps [OF sched, of ?c x] run by auto
  have notq: "\<And>x sem. semaphores k x = Some sem \<Longrightarrow> ?c \<notin> set (queue sem)"
    using awake by (auto simp: sleeps_in_def)
  obtain q where q: "q \<Longrightarrow> status th' = BLOCKED \<and> readyList k1 = readyList k \<and> waits_for (frames th') = Some s"
    "\<not> q \<Longrightarrow> status th' = READY \<and> readyList k1 = readyList k @ [?c] \<or>
      status th' = BLOCKED \<and> finished (frames th') \<and> readyList k1 = readyList k"
    "\<And>v x. sleeps_in k1 v x \<longleftrightarrow> sleeps_in k v x \<or> q \<and> v = ?c \<and> x = s"
    "\<And>x z. semaphores k1 x = Some z \<Longrightarrow> 0 \<le> sem_value z \<and> distinct (queue z)"
    "\<And>x. semaphores k1 x = None \<longleftrightarrow> semaphores k x = None"
  proof (cases "semaphores k1 = semaphores k")
    case True
    then have "\<not> (semaphores k s = Some sem \<and>
        semaphores k1 = (semaphores k)(s \<mapsto> sem\<lparr>queue := queue sem @ [?c]\<rparr>))"
      using notq by (metis fun_upd_same in_set_conv_decomp option.inject semaphore.select_convs(2)
          semaphore.surjective semaphore.update_convs(2))
    then show ?thesis
      using cases True sched_sem [OF sched] by (intro that [of False]) (auto simp: sleeps_in_def)
  next
    case False
    then have c3: "status th' = BLOCKED \<and> readyList k1 = readyList k \<and> waits_for (frames th') = Some s"
      "semaphores k s = Some sem" "semaphores k1 = (semaphores k)(s \<mapsto> sem\<lparr>queue := queue sem @ [?c]\<rparr>)"
      using cases by blast+
    show ?thesis
    proof (rule that [of True])
      show "sleeps_in k1 v x \<longleftrightarrow> sleeps_in k v x \<or> True \<and> v = ?c \<and> x = s" for v x
        by (auto simp: sleeps_in_def c3(2,3))
      show "0 \<le> sem_value z \<and> distinct (queue z)" if "semaphores k1 x = Some z" for x z
        using that sched_sem [OF sched, of x] sched_sem [OF sched c3(2)] notq [OF c3(2)]
        by (auto simp: c3(3) split: if_splits)
    qed (use c3 in simp_all)
  qed
  note sleeps = q(3)
  have c: "st k1 ?c = Some READY \<and> readyList k1 = readyList k @ [?c] \<or>
      st k1 ?c = Some BLOCKED \<and> readyList k1 = readyList k" using q(1,2) by (cases q) (auto simp: st)
  have "ids_ok k1"
    unfolding ids_ok_def
  proof (intro conjI allI impI)
    fix v assume "threads k1 v \<noteq> None"
    then have "threads k v \<noteq> None" using th(1) by (auto simp: k1(1) split: if_splits)
    then show "v < next_object k1" using sched_ids(1) [OF sched, of v] by (auto simp: k1(2))
  next
    fix x assume "semaphores k1 x \<noteq> None"
    then have "semaphores k x \<noteq> None" using q(5) [of x] by metis
    then show "x < next_object k1" using sched_ids(2) [OF sched, of x] by (auto simp: k1(2))
  qed
  moreover have "ready_ok k1"
  proof -
    have "?c \<notin> set (readyList k)" using sched_ready(1) [OF sched, of ?c] run by simp
    moreover have "t \<in> set (readyList k1) \<longleftrightarrow> st k1 t = Some READY" for t
      using c sched_ready(1) [OF sched, of t] run unfolding st by (cases "t = ?c") auto
    moreover have "distinct (readyList k1)" using c sched_ready(2) [OF sched] calculation(1) by auto
    ultimately show ?thesis unfolding ready_ok_def by blast
  qed
  moreover have "queues_ok k1"
    unfolding queues_ok_def
  proof (intro conjI allI impI)
    fix x z assume z: "semaphores k1 x = Some z"
    from q(4) [OF this] show "0 \<le> sem_value z" "distinct (queue z)" by simp_all
  next
    fix v x assume a: "sleeps_in k1 v x"
    show "st k1 v = Some BLOCKED" "waits_for (fr k1 v) = Some x"
      using a sched_sleeps [OF sched, of v x] awake [of x] q(1) unfolding sleeps st fr by auto
  qed
  moreover have "blocked_ok k1"
    unfolding blocked_ok_def
  proof (intro allI impI)
    fix v assume v: "st k1 v = Some BLOCKED"
    show "finished (fr k1 v) \<or> (\<exists>x. waits_for (fr k1 v) = Some x \<and> sleeps_in k1 v x)"
    proof (cases "v = ?c")
      case True
      show ?thesis using v q(1,2) unfolding True sleeps st fr by (cases q) auto
    next
      case False
      then show ?thesis using v sched_blocked [OF sched, of v] unfolding sleeps st fr by auto
    qed
  qed
  ultimately show ?thesis by (simp add: sched_ok_def)
qed

lemma leaving_enter:
  assumes f: "runs_frame \<Gamma> k th f fs" "ordinary (f # fs)"
    and k1: "threads k1 = (threads k)(currentThread k \<mapsto> th')" "next_object k1 = next_object k"
      "currentThread k1 = currentThread k" "toBeDestroyed k1 = toBeDestroyed k" "locks k1 = locks k"
      "conditions k1 = conditions k" "synch_lists k1 = synch_lists k" "device_lock k1 = device_lock k"
      "device_semaphore k1 = device_semaphore k" "disk k1 = disk k" "consoleOutput k1 = consoleOutput k"
      "devices_ok k1" "\<not> inHandler k1" "kmachine k1 \<noteq> None" "level k1 = IntOff"
      "\<And>s. map_option sem_value (semaphores k1 s) = map_option sem_value (semaphores k s)"
    and cases: "status th' = READY \<and> readyList k1 = readyList k @ [currentThread k] \<and> semaphores k1 = semaphores k \<or>
      status th' = BLOCKED \<and> finished (frames th') \<and> readyList k1 = readyList k \<and> semaphores k1 = semaphores k \<or>
      status th' = BLOCKED \<and> readyList k1 = readyList k \<and> waits_for (frames th') = Some s \<and>
        semaphores k s = Some sem \<and> semaphores k1 = (semaphores k)(s \<mapsto> sem\<lparr>queue := queue sem @ [currentThread k]\<rparr>)"
    and th': "stack th' = stack th" "userRegisters th' = userRegisters th" "space th' = space th"
    and bal: "balanced \<Gamma> (f # fs) (frames th')"
    and b: "if b then frames th' = [] \<and> status th' = BLOCKED \<and> held k (currentThread k) = {}
      else typed \<Gamma> IntOff (held k (currentThread k)) (frames th')"
  shows "leaving \<Gamma> b k1 th'"
proof -
  note i = runs_frame_Inv [OF f(1)] and cur = runs_frame_current [OF f(1)]
  note sched = Inv_parts(6) [OF i(1)] and run = runs_frame_ordinary(2,3) [OF f]
  have fs: "frames th = f # fs" using f(1) by (simp add: runs_frame_def)
  have none: "semaphores k1 s = None \<longleftrightarrow> semaphores k s = None" for s
    using k1(16) [of s] by (metis map_option_is_None)
  have m: "matches \<Gamma> k1" using i(3) by (simp add: matches_def k1 none)
  have s: "sched_ok k1" by (rule sched_leave [OF sched cur(3) run(1) k1(1,2) cases])
  have tk: "tokens_ok \<Gamma> k1"
    by (rule balanced_tokens [OF Inv_parts(7) [OF i(1)] i(3) sched cur(3) k1(1,2,5,6,16) _ _ m])
      (use k1 bal fs in simp_all)
  have held: "held k1 t = held k t" for t by (simp add: held_def k1)
  have "thread_ok \<Gamma> k1 t u \<and> user_regs_ok u" if t: "t \<noteq> currentThread k" "threads k1 t = Some u" for t u
  proof -
    have tk: "threads k t = Some u" using t k1(1) by simp
    have "thread_ok \<Gamma> k1 t u"
      by (rule thread_ok_woken [OF Inv_parts(8) [OF i(1) tk]]) (use t k1 held in simp_all)
    then show ?thesis using Inv_parts(9) [OF i(1) tk] by simp
  qed
  moreover have "holders_ok k1" using Inv_parts(10) [OF i(1)] by (simp add: holders_ok_def held k1)
  moreover have "user_regs_ok th'" using Inv_parts(9) [OF i(1) cur(3)] th' by (simp add: user_regs_ok_def)
  moreover have "status th' \<in> {READY, BLOCKED}" using cases by auto
  ultimately show ?thesis
    using i(2) m s tk k1 run(2) th' b Inv_ordinary(3) [OF i(1) cur(3) runs_frame_ordinary(4) [OF f]]
    by (simp add: leaving_def held)
qed

lemma Yield_leaving:
  assumes f: "runs_frame \<Gamma> k th F_Yield fs" and l: "readyList k = v # l"
  defines "k1 \<equiv> put_thread (currentThread k) (th\<lparr>frames := F_SetLevel (level k) # fs, status := READY\<rparr>)
    (k\<lparr>level := IntOff, readyList := readyList k @ [currentThread k]\<rparr>)"
  shows "leaving \<Gamma> False k1 (th\<lparr>frames := F_SetLevel (level k) # fs, status := READY\<rparr>)"
    "readyList k1 = v # l @ [currentThread k]"
    "exec F_Yield (popped k th fs) = Run v False (k1\<lparr>readyList := l @ [currentThread k]\<rparr>)"
proof -
  note i = runs_frame_Inv [OF f] and cur = runs_frame_current [OF f]
  have o: "ordinary (F_Yield # fs)" by simp
  note run = runs_frame_ordinary(2) [OF f o]
  have t: "typed \<Gamma> (level k) (held k (currentThread k)) fs" using runs_frame_ordinary(1) [OF f o] by simp
  show "leaving \<Gamma> False k1 (th\<lparr>frames := F_SetLevel (level k) # fs, status := READY\<rparr>)"
    unfolding k1_def by (rule leaving_enter [OF f o]) (use i t balanced_switch(6) in simp_all)
  show "readyList k1 = v # l @ [currentThread k]" using l by (simp add: k1_def)
  have "currentThread k \<notin> set (readyList k)"
    using sched_ready(1) [OF Inv_parts(6) [OF i(1)], of "currentThread k"] cur(3) run by (simp add: st_simps)
  then have "currentThread k \<notin> set l" using l by simp
  then show "exec F_Yield (popped k th fs) = Run v False (k1\<lparr>readyList := l @ [currentThread k]\<rparr>)"
    using l by (simp add: k1_def Yield_def SetLevel_def ChangeLevel_def FindNextToRun_def ReadyToRun_def setStatus_def
        seq_append_def seq_remove_front_def Let_def)
qed

lemma step_Yield:
  assumes f: "runs_frame \<Gamma> k th F_Yield fs"
  shows "runs \<Gamma> (exec F_Yield (popped k th fs))"
proof (cases "readyList k")
  case Nil
  have o: "ordinary (F_Yield # fs)" by simp
  have t: "typed \<Gamma> (level k) (held k (currentThread k)) fs" using runs_frame_ordinary(1) [OF f o] by simp
  have "balanced \<Gamma> [F_Yield] [F_SetLevel (level k)]" by (simp add: balanced_def)
  then have "Inv \<Gamma> (popped (k\<lparr>level := IntOff\<rparr>) th ([F_SetLevel (level k)] @ fs))"
    using t by (intro push_frames [OF f _ quiet_level(2) [OF f]]) simp_all
  then show ?thesis using Nil by (simp add: Yield_def SetLevel_def ChangeLevel_def FindNextToRun_def Let_def)
next
  case (Cons v l)
  show ?thesis
    unfolding Yield_leaving(3) [OF f Cons] by (rule leaving_Run [OF Yield_leaving(1,2) [OF f Cons]])
qed

lemma step_Finish:
  assumes f: "runs_frame \<Gamma> k th F_Finish fs"
  shows "runs \<Gamma> (exec F_Finish (popped k th fs))"
proof -
  note i = runs_frame_Inv [OF f]
  have o: "ordinary (F_Finish # fs)" by simp
  have t: "held k (currentThread k) = {}" "fs = []" using runs_frame_ordinary(1) [OF f o] by simp_all
  let ?th = "th\<lparr>frames := [], status := BLOCKED\<rparr>"
  let ?k = "put_thread (currentThread k) ?th (k\<lparr>level := IntOff\<rparr>)"
  have "leaving \<Gamma> True ?k ?th"
    by (rule leaving_enter [OF f o]) (use i t balanced_switch(7) in \<open>simp_all add: finished_def\<close>)
  then have "Inv \<Gamma> (popped ?k ?th (F_Sleep_loop True # frames ?th))" by (rule leaving_push) simp
  then show ?thesis
    using t(2) by (simp add: Finish_def SetLevel_def ChangeLevel_def Sleep_def setStatus_def call_def Let_def)
qed

lemma step_P_loop_block:
  assumes f: "runs_frame \<Gamma> k th (F_P_loop s) fs" and sem: "semaphores k s = Some sem" "sem_value sem = 0"
  shows "runs \<Gamma> (exec (F_P_loop s) (popped k th fs))"
proof -
  note i = runs_frame_Inv [OF f] and cur = runs_frame_current [OF f]
  have o: "ordinary (F_P_loop s # fs)" by simp
  note run = runs_frame_ordinary(2) [OF f o]
  have t: "typed \<Gamma> (level k) (held k (currentThread k)) (F_P_loop s # fs)" by (rule runs_frame_ordinary(1) [OF f o])
  then have off: "level k = IntOff" by (cases fs rule: ordinary.cases) auto
  let ?c = "currentThread k"
  let ?th = "th\<lparr>frames := F_P_loop s # fs, status := BLOCKED\<rparr>"
  let ?k = "put_thread ?c ?th (k\<lparr>semaphores := (semaphores k)(s \<mapsto> sem\<lparr>queue := queue sem @ [?c]\<rparr>)\<rparr>)"
  have "leaving \<Gamma> False ?k ?th"
    by (rule leaving_enter [OF f o, where s = s and sem = sem]) (use i t off sem balanced_refl in simp_all)
  then have "Inv \<Gamma> (popped ?k ?th (F_Sleep_loop False # frames ?th))" by (rule leaving_push) simp
  moreover have "?c \<notin> set (queue sem)"
  proof
    assume "?c \<in> set (queue sem)"
    then have "sleeps_in k ?c s" using sem(1) by (simp add: sleeps_in_def)
    with sched_sleeps [OF Inv_parts(6) [OF i(1)] this] cur(3) run show False by (simp add: st_simps)
  qed
  ultimately show ?thesis
    using sem off
    by (simp add: P_loop_def seq_append_def put_semaphore_def Sleep_def setStatus_def call_def)
qed

section \<open>Coming back\<close>

text \<open>A thread that has just been given the processor first deletes the one that has finished.\<close>

definition destroyed :: "kernel \<Rightarrow> thread \<Rightarrow> kernel \<Rightarrow> bool" where
  "destroyed k th' k' \<longleftrightarrow>
     devices.truncate k' = devices.truncate k \<and>
     (\<forall>t. threads k' t = (if toBeDestroyed k = Some t then None else if t = currentThread k then Some th' else threads k t)) \<and>
     currentThread k' = currentThread k \<and> readyList k' = readyList k \<and> toBeDestroyed k' = None \<and>
     semaphores k' = semaphores k \<and> locks k' = locks k \<and> conditions k' = conditions k \<and>
     synch_lists k' = synch_lists k \<and> next_object k' = next_object k \<and> device_semaphore k' = device_semaphore k \<and>
     device_lock k' = device_lock k \<and> halted k' = halted k"

lemma destroys:
  assumes "Inv \<Gamma> k"
  obtains k' where "CheckToBeDestroyed (popped k th fs) = Inr k'" "destroyed k (th\<lparr>frames := fs\<rparr>) k'"
proof (cases "toBeDestroyed k")
  case None
  then show ?thesis
    by (intro that [of "popped k th fs"]) (simp_all add: CheckToBeDestroyed_def destroyed_def put_thread_def devices.truncate_def)
next
  case (Some d)
  then have "d \<noteq> currentThread k" using assms unfolding Inv_def by blast
  with Some show ?thesis
    by (intro that [of "(popped k th fs)\<lparr>threads := (threads (popped k th fs))(d := None), toBeDestroyed := None\<rparr>"])
      (simp_all add: CheckToBeDestroyed_def, simp add: destroyed_def put_thread_def devices.truncate_def)
qed

lemma doomed:
  assumes "Inv \<Gamma> k" "toBeDestroyed k = Some d"
  shows "d \<noteq> currentThread k" "fr k d = [F_Run_back]" "st k d = Some BLOCKED" "held k d = {}"
proof -
  show d: "d \<noteq> currentThread k" "fr k d = [F_Run_back]" using assms unfolding Inv_def by blast+
  then obtain u where u: "threads k d = Some u" "frames u = [F_Run_back]"
    by (cases "threads k d") (simp_all add: fr_def)
  then have "status u = BLOCKED \<and> held k d = {}"
    using Inv_parts(8) [OF assms(1) u(1)] by (simp add: thread_ok_simps)
  with u(1) show "st k d = Some BLOCKED" "held k d = {}" by (simp_all add: st_simps)
qed

lemma destroyed_sched:
  assumes inv: "Inv \<Gamma> k" and th: "threads k (currentThread k) = Some th" "status th = RUNNING" "status th' = RUNNING"
    and d: "destroyed k th' k'"
  shows "sched_ok k'"
proof -
  let ?c = "currentThread k"
  note sched = Inv_parts(6) [OF inv]
  have threads: "threads k' t = (if toBeDestroyed k = Some t then None else if t = ?c then Some th' else threads k t)" for t
    using d unfolding destroyed_def by blast
  have eqs: "readyList k' = readyList k" "semaphores k' = semaphores k" "next_object k' = next_object k"
    using d unfolding destroyed_def by blast+
  have st: "st k' t = (if toBeDestroyed k = Some t then None else st k t)" for t
    using th by (simp add: st_def threads)
  have fr: "fr k' t = fr k t" if "t \<noteq> ?c" "toBeDestroyed k \<noteq> Some t" for t using that by (simp add: fr_def threads)
  have sleeps: "sleeps_in k' t s = sleeps_in k t s" for t s by (simp add: sleeps_in_def eqs)
  have awake: "t \<noteq> ?c \<and> toBeDestroyed k \<noteq> Some t" if "sleeps_in k t s" for t s
    using sched_sleeps [OF sched that] doomed(2) [OF inv, of t] th by (auto simp: st_simps)
  have "ids_ok k'"
    using sched th(1) by (auto simp: sched_ok_def ids_ok_def eqs threads split: if_splits)
  moreover have "ready_ok k'"
    unfolding ready_ok_def eqs st using sched_ready [OF sched] doomed(3) [OF inv] by auto
  moreover have "queues_ok k'"
    unfolding queues_ok_def eqs sleeps
  proof (intro conjI allI impI)
    fix s sem assume "semaphores k s = Some sem"
    from sched_sem [OF sched this] show "0 \<le> sem_value sem" "distinct (queue sem)" by simp_all
  next
    fix t s assume a: "sleeps_in k t s"
    from sched_sleeps [OF sched a] awake [OF a] fr [of t]
    show "st k' t = Some BLOCKED" "waits_for (fr k' t) = Some s" unfolding st by auto
  qed
  moreover have "blocked_ok k'"
    unfolding blocked_ok_def sleeps
  proof (intro allI impI)
    fix t assume "st k' t = Some BLOCKED"
    then have t: "st k t = Some BLOCKED" "toBeDestroyed k \<noteq> Some t" unfolding st by (auto split: if_splits)
    then have "t \<noteq> ?c" using th by (auto simp: st_simps)
    with sched_blocked [OF sched t(1)] fr [OF _ t(2)]
    show "finished (fr k' t) \<or> (\<exists>s. waits_for (fr k' t) = Some s \<and> sleeps_in k t s)" by auto
  qed
  ultimately show ?thesis by (simp add: sched_ok_def)
qed

lemma destroyed_tokens:
  assumes inv: "Inv \<Gamma> k" and th: "threads k (currentThread k) = Some th"
    and bal: "balanced \<Gamma> (frames th) (frames th')" and d: "destroyed k th' k'" and m: "matches \<Gamma> k'"
  shows "tokens_ok \<Gamma> k'"
proof -
  note i = Inv_parts [OF inv]
  let ?kp = "put_thread (currentThread k) th' k"
  have threads: "threads k' t = (if toBeDestroyed k = Some t then None else threads ?kp t)" for t
    using d unfolding destroyed_def by simp
  have eqs: "semaphores k' = semaphores k" "next_object k' = next_object k" "locks k' = locks k" "conditions k' = conditions k"
    using d unfolding destroyed_def by blast+
  have hw: "disk k' = disk k" "consoleOutput k' = consoleOutput k"
    using d truncate_fields(4,5) [of k' k] unfolding destroyed_def by simp_all
  have "matches \<Gamma> ?kp" using i(5) by (simp add: matches_def)
  then have tk: "tokens_ok \<Gamma> ?kp"
    by (intro balanced_tokens [OF i(7,5,6) th, where th' = th']) (use bal in simp_all)
  have fr: "fr k' t = (if toBeDestroyed k = Some t then [] else fr ?kp t)" for t
    by (simp add: fr_def threads)
  have dead: "fr ?kp t = [F_Run_back]" if "toBeDestroyed k = Some t" for t
    using doomed(1,2) [OF inv that] by (simp add: fr_def)
  have tot: "frame_total (w_lock x s) k' = frame_total (w_lock x s) ?kp" "frame_total (w_dev e s) k' = frame_total (w_dev e s) ?kp"
    "frame_total (w_sem s) k' = frame_total (w_sem s) ?kp" "frame_total (w_del s) k' = frame_total (w_del s) ?kp" for x s e
    unfolding frame_total_def eqs put_thread_fields(9)
    by (rule sum.cong [OF refl]; simp add: fr dead)+
  have "f \<in> set (fr k' t) \<Longrightarrow> f \<in> set (fr ?kp t)" for f t by (simp add: fr split: if_splits)
  then show ?thesis
    using tk unfolding tokens_ok_def lock_tokens_def dev_tokens_def waiter_tokens_def tot queued_def eqs hw
      put_thread_fields(5-7,15,16) by blast
qed

lemma level_frame:
  "tokens_ok \<Gamma> (k\<lparr>level := l\<rparr>) = tokens_ok \<Gamma> k" "sched_ok (k\<lparr>level := l\<rparr>) = sched_ok k"
  "matches \<Gamma> (k\<lparr>level := l\<rparr>) = matches \<Gamma> k"
proof -
  have same: "fr (k\<lparr>level := l\<rparr>) = fr k" "frame_total w (k\<lparr>level := l\<rparr>) = frame_total w k" for w
    by (simp_all add: fr_def frame_total_def fun_eq_iff)
  show "tokens_ok \<Gamma> (k\<lparr>level := l\<rparr>) = tokens_ok \<Gamma> k"
    unfolding tokens_ok_def lock_tokens_def dev_tokens_def waiter_tokens_def same queued_def by simp
  show "sched_ok (k\<lparr>level := l\<rparr>) = sched_ok k" by (rule more_sched_ok) simp
qed (simp add: matches_def)

lemma destroyed_Inv:
  assumes inv: "Inv \<Gamma> k" and th: "threads k (currentThread k) = Some th" "frames th = h # fs" "h = F_Begin \<or> h = F_Run_back"
    and typed: "typed \<Gamma> l (held k (currentThread k)) fs"
    and d: "destroyed k (th\<lparr>frames := fs\<rparr>) k'"
  shows "Inv \<Gamma> (k'\<lparr>level := l\<rparr>)"
proof -
  note i = Inv_parts [OF inv]
  let ?c = "currentThread k" and ?th = "th\<lparr>frames := fs\<rparr>" and ?k = "k'\<lparr>level := l\<rparr>"
  have ok: "stack th = None \<or> stack th = Some STACK_FENCEPOST" "status th = RUNNING"
    using i(8) [OF th(1)] th(2,3) thread_ok_simps(1,2) [of th fs \<Gamma> k ?c] by (auto split: if_splits)
  have threads: "threads k' t = (if toBeDestroyed k = Some t then None else if t = ?c then Some ?th else threads k t)" for t
    using d unfolding destroyed_def by blast
  have eqs: "currentThread k' = ?c" "toBeDestroyed k' = None" "semaphores k' = semaphores k" "locks k' = locks k"
    "conditions k' = conditions k" "synch_lists k' = synch_lists k" "next_object k' = next_object k"
    "device_lock k' = device_lock k" "device_semaphore k' = device_semaphore k"
    using d unfolding destroyed_def by blast+
  have hw: "devices.truncate k' = devices.truncate k" using d unfolding destroyed_def by blast
  note hw = truncate_fields [OF this]
  have held: "held ?k t = held k t" for t by (simp add: held_def eqs)
  have m: "matches \<Gamma> k'" using i(5) by (simp add: matches_def eqs)
  have "balanced \<Gamma> (frames th) (frames ?th)" using th(2,3) balanced_switch by auto
  then have tk: "tokens_ok \<Gamma> k'" by (rule destroyed_tokens [OF inv th(1) _ d m])
  have s: "sched_ok k'" by (rule destroyed_sched [OF inv th(1) ok(2) _ d]) (simp add: ok(2))
  have "thread_ok \<Gamma> ?k t u \<and> user_regs_ok u" if u: "threads ?k t = Some u" for t u
  proof (cases "t = ?c")
    case True
    then have "u = ?th" using u by (simp add: threads split: if_splits)
    moreover have "user_regs_ok ?th" using i(9) [OF th(1)] by (simp add: user_regs_ok_def)
    ultimately show ?thesis
      using True typed typed_ordinary [OF typed] ok by (simp add: thread_ok_ordinary eqs held)
  next
    case False
    then have t: "threads k t = Some u" "toBeDestroyed k \<noteq> Some t" using u by (simp_all add: threads split: if_splits)
    have "thread_ok \<Gamma> ?k t u"
      using i(8) [OF t(1)]
    proof (cases rule: thread_ok_cases)
      case ordinary
      then show ?thesis using Inv_ordinary(5) [OF inv t(1)] False by simp
    next
      case (F_Begin gs)
      then show ?thesis using i(8) [OF t(1)] False by (simp add: thread_ok_simps eqs held)
    next
      case (F_Run_back gs)
      then show ?thesis using i(8) [OF t(1)] False t(2) by (cases "gs = []") (simp_all add: thread_ok_simps eqs held)
    next
      case (F_Sleep_loop b gs)
      then show ?thesis using i(8) [OF t(1)] False by (simp add: thread_ok_simps)
    qed
    then show ?thesis using i(9) [OF t(1)] by simp
  qed
  moreover have "holders_ok ?k"
    using i(10) doomed(4) [OF inv] th(1) unfolding holders_ok_def held by (auto simp: threads)
  moreover have "matches \<Gamma> ?k" using m by (simp add: level_frame)
  moreover have "sched_ok ?k" using s by (simp add: level_frame)
  moreover have "tokens_ok \<Gamma> ?k" using tk by (simp add: level_frame)
  moreover have "toBeDestroyed k \<noteq> Some ?c" using doomed(1) [OF inv, of ?c] by auto
  then have "threads ?k ?c \<noteq> None" by (simp add: threads)
  ultimately show ?thesis
    using i(1-4) by (simp add: Inv_def tokens_ok_def eqs hw)
qed

lemma Begin_frame:
  assumes f: "runs_frame \<Gamma> k th F_Begin fs"
  obtains k1 where "CheckToBeDestroyed (popped k th fs) = Inr k1" "Inv \<Gamma> (k1\<lparr>level := IntOn\<rparr>)"
    "threads k1 (currentThread k1) = Some (th\<lparr>frames := fs\<rparr>)" "ordinary fs"
proof -
  note i = runs_frame_Inv [OF f] and cur = runs_frame_current [OF f]
  have fs: "frames th = F_Begin # fs" using f by (simp add: runs_frame_def)
  have t: "typed \<Gamma> IntOn (held k (currentThread k)) fs"
    using Inv_parts(8) [OF i(1) cur(3)] by (simp add: thread_ok_simps(1) [OF fs])
  obtain k1 where k1: "CheckToBeDestroyed (popped k th fs) = Inr k1" "destroyed k (th\<lparr>frames := fs\<rparr>) k1"
    by (rule destroys [OF i(1)])
  have "Inv \<Gamma> (k1\<lparr>level := IntOn\<rparr>)" by (rule destroyed_Inv [OF i(1) cur(3) fs _ t k1(2)]) simp
  moreover have "toBeDestroyed k \<noteq> Some (currentThread k)" using doomed(1) [OF i(1)] by auto
  then have "threads k1 (currentThread k1) = Some (th\<lparr>frames := fs\<rparr>)"
    using k1(2) unfolding destroyed_def by auto
  ultimately show thesis using that k1(1) typed_ordinary [OF t] by blast
qed

lemma step_Begin:
  assumes f: "runs_frame \<Gamma> k th F_Begin fs"
  shows "runs \<Gamma> (exec F_Begin (popped k th fs))"
proof -
  obtain k1 where k1: "CheckToBeDestroyed (popped k th fs) = Inr k1" "Inv \<Gamma> (k1\<lparr>level := IntOn\<rparr>)"
    "threads k1 (currentThread k1) = Some (th\<lparr>frames := fs\<rparr>)" "ordinary fs"
    by (rule Begin_frame [OF f])
  have "runs \<Gamma> (SetLevel IntOn k1)" by (rule SetLevel_runs [OF k1(2,3)]) (simp add: k1(4))
  then show ?thesis using k1(1) by (simp add: Begin_def)
qed

text \<open>The machine gets the registers and the address space of the thread.\<close>

lemma Inv_kmachine:
  assumes "Inv \<Gamma> k" "regs_ok m"
  shows "Inv \<Gamma> (k\<lparr>kmachine := Some m\<rparr>)"
proof -
  let ?k = "k\<lparr>kmachine := Some m\<rparr>"
  note i = Inv_parts [OF assms(1)]
  have same: "fr ?k = fr k" "frame_total w ?k = frame_total w k" "held ?k = held k" for w
    by (simp_all add: fr_def frame_total_def held_def fun_eq_iff)
  have dev: "devices_ok ?k"
    using i(1) assms(2) by (simp add: devices_ok_def hardware_ok_def disk_ok_def keyboard_ok_def network_ok_def)
  have "tokens_ok \<Gamma> ?k"
    using i(7) unfolding tokens_ok_def lock_tokens_def dev_tokens_def waiter_tokens_def same queued_def by simp
  moreover have "sched_ok ?k" using i(6) more_sched_ok [of ?k k] by simp
  moreover have "matches \<Gamma> ?k" using i(5) by (simp add: matches_def)
  moreover have "thread_ok \<Gamma> ?k t u \<longleftrightarrow> thread_ok \<Gamma> k t u" for t u
    by (simp add: thread_ok_def same split: list.split frame.split)
  moreover have "holders_ok ?k" using i(10) by (simp add: holders_ok_def same)
  ultimately show ?thesis
    using assms(1) dev unfolding Inv_def tokens_ok_def same by simp
qed

lemma restore_ok:
  assumes "user_regs_ok th" "space th = Some sp" "kmachine k = Some m"
  obtains m' where "bindr (RestoreUserState th k) (RestoreState sp) = Inr (k\<lparr>kmachine := Some m'\<rparr>)" "regs_ok m'"
proof -
  let ?r = "\<lambda>r. if r < NumTotalRegs then userRegisters th ! r else registers m r"
  have "regs_ok (m\<lparr>registers := ?r, pageTable := Some (as_pageTable sp), pageTableSize := as_numPages sp\<rparr>)"
    using assms(1,2) by (simp add: regs_ok_def user_regs_ok_def reg_numbers)
  then show ?thesis
    using assms(3) by (intro that) (simp_all add: RestoreUserState_def RestoreState_def)
qed

lemma step_Run_back:
  assumes f: "runs_frame \<Gamma> k th F_Run_back fs"
  shows "runs \<Gamma> (exec F_Run_back (popped k th fs))"
proof -
  note i = runs_frame_Inv [OF f] and cur = runs_frame_current [OF f]
  have fs: "frames th = F_Run_back # fs" using f by (simp add: runs_frame_def)
  have t: "typed \<Gamma> IntOff (held k (currentThread k)) fs" "level k = IntOff"
    using Inv_parts(8) [OF i(1) cur(3)] by (simp_all add: thread_ok_simps(2) [OF fs] split: if_splits)
  obtain k1 where k1: "CheckToBeDestroyed (popped k th fs) = Inr k1" "destroyed k (th\<lparr>frames := fs\<rparr>) k1"
    by (rule destroys [OF i(1)])
  have "devices.truncate k1 = devices.truncate k" using k1(2) unfolding destroyed_def by blast
  note hw = truncate_fields [OF this]
  have "Inv \<Gamma> (k1\<lparr>level := IntOff\<rparr>)" by (rule destroyed_Inv [OF i(1) cur(3) fs _ t(1) k1(2)]) simp
  moreover have "k1\<lparr>level := IntOff\<rparr> = k1" using t(2) hw(1) by (cases k1) simp
  ultimately have inv: "Inv \<Gamma> k1" by simp
  have "toBeDestroyed k \<noteq> Some (currentThread k)" using doomed(1) [OF i(1)] by auto
  then have th1: "threads k1 (currentThread k1) = Some (th\<lparr>frames := fs\<rparr>)"
    using k1(2) unfolding destroyed_def by auto
  note regs = Inv_parts(9) [OF inv th1]
  obtain m where m: "kmachine k1 = Some m" using i(5) hw(3) by auto
  have "runs \<Gamma> (case space (th\<lparr>frames := fs\<rparr>) of None \<Rightarrow> Inr k1
      | Some sp \<Rightarrow> bindr (RestoreUserState (th\<lparr>frames := fs\<rparr>) k1) (RestoreState sp))"
  proof (cases "space (th\<lparr>frames := fs\<rparr>)")
    case (Some sp)
    obtain m' where "bindr (RestoreUserState (th\<lparr>frames := fs\<rparr>) k1) (RestoreState sp) = Inr (k1\<lparr>kmachine := Some m'\<rparr>)"
      "regs_ok m'" by (rule restore_ok [OF regs Some m])
    then show ?thesis using Some Inv_kmachine [OF inv] by simp
  qed (use inv in simp)
  then show ?thesis using k1(1) t(2) th1 by (simp add: Run_back_def)
qed

end
