(* ===== verification/Kernel_Clock.thy ===== *)
theory Kernel_Clock
  imports Kernel_Switch
begin

text \<open>
  The clock of the kernel.  A step from a state whose clock is in its range (\<open>timely\<close>) never hangs,
  and leaves every pending interrupt within the horizon (\<open>near\<close>).  Most kernel code does not touch
  the clock; what does are the ends of \<open>SetLevel\<close>, \<open>OneTick\<close>, the idle loop, and the requests to a device.
\<close>

section \<open>Code that leaves the clock alone\<close>

definition on_time :: "kernel res \<Rightarrow> bool" where
  "on_time r \<longleftrightarrow> (case r of Inl e \<Rightarrow> e \<noteq> Diverges | Inr k \<Rightarrow> near k)"

lemma on_time_simps [simp]:
  "on_time (Inr k) = near k" "on_time (Inl e) \<longleftrightarrow> e \<noteq> Diverges"
  by (simp_all add: on_time_def)

lemma on_time_bindr:
  "on_time (bindr r f) \<longleftrightarrow> (case r of Inl e \<Rightarrow> e \<noteq> Diverges | Inr x \<Rightarrow> on_time (f x))"
  by (cases r) simp_all

lemma near_kernel [simp]:
  "near (put_thread t th k) = near k" "near (put_semaphore s sem k) = near k"
  "near (k\<lparr>yieldOnReturn := b\<rparr>) = near k" "near (k\<lparr>kmachine := m\<rparr>) = near k" "near (k\<lparr>halted := b\<rparr>) = near k"
  "near (k\<lparr>threads := ts\<rparr>) = near k" "near (k\<lparr>currentThread := t\<rparr>) = near k" "near (k\<lparr>readyList := l\<rparr>) = near k"
  "near (k\<lparr>toBeDestroyed := d\<rparr>) = near k" "near (k\<lparr>semaphores := ss\<rparr>) = near k" "near (k\<lparr>locks := ls\<rparr>) = near k"
  "near (k\<lparr>conditions := cs\<rparr>) = near k" "near (k\<lparr>synch_lists := sls\<rparr>) = near k" "near (k\<lparr>next_object := n\<rparr>) = near k"
  "near (k\<lparr>consoleInput := ci\<rparr>) = near (k :: kernel)"
  by (simp_all add: near_def put_thread_def put_semaphore_def)

lemma bind_splits: "the_object x = (case x of None \<Rightarrow> Inl DanglingPointer | Some y \<Rightarrow> Inr y)"
  "ASSERT b = (if b then Inr () else Inl AssertionFailed)"
  by (simp_all add: the_object_def ASSERT_def)

lemmas clockless = on_time_bindr bind_splits seq_append_def seq_remove_front_def

lemma on_time_call: "near k \<Longrightarrow> on_time (call fs k)"
  by (simp add: call_def clockless split: option.split)

lemma on_time_return_value: "near k \<Longrightarrow> on_time (return_value v k)"
  by (simp add: return_value_def clockless split: option.split)

lemma on_time_setStatus: "near k \<Longrightarrow> on_time (setStatus t ts k)"
  by (simp add: setStatus_def clockless split: option.split)

lemma on_time_ReadyToRun: "near k \<Longrightarrow> on_time (ReadyToRun t k)"
  using on_time_setStatus [of k t READY]
  by (auto simp: ReadyToRun_def clockless split: sum.splits)

lemma on_time_Run: "near k \<Longrightarrow> on_time (Run t b k)"
  by (auto simp: Run_def SaveUserState_def CheckOverflow_def clockless Let_def
      split: sum.splits option.splits if_splits intro!: on_time_setStatus)

lemma on_time_Run_back: "near k \<Longrightarrow> on_time (Run_back k)"
  by (auto simp: Run_back_def CheckToBeDestroyed_def RestoreUserState_def RestoreState_def clockless
      split: sum.splits option.splits if_splits)

lemma on_time_CheckToBeDestroyed: "near k \<Longrightarrow> on_time (CheckToBeDestroyed k)"
  by (auto simp: CheckToBeDestroyed_def clockless split: option.splits)

lemma SetLevel_off: "SetLevel IntOff k = Inr (ChangeLevel IntOff k)"
  by (simp add: SetLevel_def Let_def)

lemma on_time_Sleep: "near k \<Longrightarrow> on_time (Sleep b k)"
  using on_time_setStatus [of k "currentThread k" BLOCKED]
  by (auto simp: Sleep_def clockless split: sum.splits intro: on_time_call)

lemma on_time_P_loop: "near k \<Longrightarrow> on_time (P_loop s k)"
  by (auto simp: P_loop_def call_def clockless split: option.splits sum.splits if_splits intro!: on_time_Sleep)

lemma on_time_bind: "on_time r \<Longrightarrow> (\<And>k. near k \<Longrightarrow> on_time (f k)) \<Longrightarrow> on_time (bindr r f)"
  by (cases r) simp_all

lemma on_time_object: "(\<And>y. x = Some y \<Longrightarrow> on_time (f y)) \<Longrightarrow> on_time (bindr (the_object x) f)"
  by (cases x) simp_all

lemma on_time_V:
  assumes "near k"
  shows "on_time (bindr (Semaphore_V s k) (\<lambda>(oldLevel, k). call [F_SetLevel oldLevel] k))"
proof -
  have wake: "on_time (if queue sem \<noteq> [] then bindr (seq_remove_front (queue sem))
      (\<lambda>(t, q). ReadyToRun t (put_semaphore s (sem\<lparr>queue := q\<rparr>) (k\<lparr>level := IntOff\<rparr>))) else Inr (k\<lparr>level := IntOff\<rparr>))" for sem
    using assms by (auto simp: seq_remove_front_def split: list.split intro!: on_time_ReadyToRun)
  show ?thesis
    unfolding Semaphore_V_def Let_def bindr_assoc
    by (intro on_time_object on_time_bind [OF wake]) (simp add: on_time_call)
qed

lemma on_time_Yield:
  assumes "near k"
  shows "on_time (Yield k)"
proof -
  have "on_time (bindr (FindNextToRun k') (\<lambda>(next, k). case next of None \<Rightarrow> Inr k
      | Some t \<Rightarrow> bindr (ReadyToRun (currentThread k) k) (Run t False)))" if "near k'" for k'
    using that by (auto simp: FindNextToRun_def bind_splits seq_remove_front_def split: list.split
      intro!: on_time_bind on_time_ReadyToRun on_time_Run)
  then show ?thesis
    using assms unfolding Yield_def Let_def SetLevel_off bindr_simps by (intro on_time_bind on_time_call) simp_all
qed

lemma on_time_Fork: "near k \<Longrightarrow> on_time (exec (F_Fork garbage func) k)"
  unfolding exec.simps new_Thread_def Fork_def Let_def SetLevel_off bindr_simps split
  by (intro on_time_object on_time_bind on_time_ReadyToRun on_time_call) simp_all

lemma on_time_Wait: "near k \<Longrightarrow> on_time (Condition_Wait c l k)"
  by (auto simp: Condition_Wait_def new_Semaphore_def clockless Let_def
      split: option.splits sum.splits if_splits intro!: on_time_call)

lemma on_time_Signal: "near k \<Longrightarrow> on_time (Condition_Signal c l k)"
  by (auto simp: Condition_Signal_def clockless Let_def
      split: option.splits sum.splits if_splits list.splits intro!: on_time_call)

lemma on_time_Broadcast: "near k \<Longrightarrow> on_time (Condition_Broadcast c l k)"
  by (auto simp: Condition_Broadcast_def clockless split: option.splits intro!: on_time_call)

lemma on_time_ListAppend: "near k \<Longrightarrow> on_time (ListAppend sl x k)"
  by (auto simp: ListAppend_def operand_value_def clockless split: operand.splits option.splits sum.splits if_splits)

lemma on_time_SynchRemove_loop: "near k \<Longrightarrow> on_time (SynchRemove_loop sl k)"
  by (auto simp: SynchRemove_loop_def clockless split: option.splits list.splits
      intro!: on_time_call on_time_return_value)

lemma on_time_ASSERT: "near k \<Longrightarrow> on_time (exec (F_ASSERT_returned v) k)"
  by (auto simp: operand_value_def clockless split: option.splits sum.splits if_splits)

lemmas on_time_intros = on_time_object on_time_call on_time_return_value

lemma on_time_delete: "near k \<Longrightarrow> on_time (delete_semaphore s k)"
  unfolding delete_semaphore_def by (intro on_time_object) simp

lemma on_time_Release: "near k \<Longrightarrow> on_time (Release l k)"
  unfolding Release_def by (intro on_time_object) (simp add: bind_splits on_time_call)

lemma on_time_Acquired: "near k \<Longrightarrow> on_time (Acquired l k)"
  unfolding Acquired_def by (intro on_time_object) simp

lemma on_time_Acquire: "near k \<Longrightarrow> on_time (Acquire l k)"
  unfolding Acquire_def by (intro on_time_intros)

lemma on_time_Synch: "near k \<Longrightarrow> on_time (SynchList_Append sl x k)" "near k \<Longrightarrow> on_time (SynchList_RemoveFront sl k)"
  unfolding SynchList_Append_def SynchList_RemoveFront_def by (intro on_time_intros; assumption)+

lemma on_time_P: "near k \<Longrightarrow> on_time (Semaphore_P s k)"
  by (simp add: Semaphore_P_def SetLevel_off on_time_call)

lemma on_time_Finish: "near k \<Longrightarrow> on_time (Finish k)"
  by (simp add: Finish_def SetLevel_off on_time_Sleep)

lemma on_time_requests:
  "near k \<Longrightarrow> on_time (ReadSector n k)" "near k \<Longrightarrow> on_time (WriteSector n data k)"
  "near k \<Longrightarrow> on_time (SynchConsoleOutput_PutChar ch k)" "near k \<Longrightarrow> on_time (SynchConsoleInput_GetChar k)"
  by (simp_all add: ReadSector_def WriteSector_def SynchConsoleOutput_PutChar_def SynchConsoleInput_GetChar_def on_time_call)

section \<open>Requests to a device\<close>

lemma Schedule_near:
  assumes "timely s" "0 < d" "d \<le> horizon"
  shows "Schedule cb d ty s \<noteq> Inl Diverges" "Schedule cb d ty s = Inr s' \<Longrightarrow> near s'"
proof -
  have "s32 (now s + d) = now s + d"
    by (rule roomy_when [OF timely_roomy]) (use assms in simp_all)
  then have later: "pi_when (new_interrupt cb d ty s) \<le> now s + horizon" using assms(3) by (simp add: new_interrupt_def)
  show "Schedule cb d ty s \<noteq> Inl Diverges"
    by (simp add: Schedule_def seq_insert_def bind_splits Let_def)
  show "near s'" if "Schedule cb d ty s = Inr s'"
  proof -
    obtain q where q: "seq_insert PendingCompare (pending s) (new_interrupt cb d ty s) = Inr q"
      "s' = s\<lparr>pending := q, next_address := next_address s + 1\<rparr>"
      using \<open>Schedule cb d ty s = Inr s'\<close>
      by (auto simp: Schedule_def new_interrupt_def bindr_Inr_iff Let_def)
    have "set q = insert (new_interrupt cb d ty s) (set (pending s))"
      using arg_cong [OF seq_insert_mset [OF q(1)], of set_mset] by simp
    then show ?thesis using assms(1) later by (simp add: q(2) near_def timely_def)
  qed
qed

lemma timely_frame [simp]:
  "timely (put_thread t th k) = timely k" "timely (s\<lparr>disk := d\<rparr>) = timely s" "timely (k\<lparr>level := l\<rparr>) = timely k"
  "timely (s\<lparr>consoleOutput := co\<rparr>) = timely s"
  by (simp_all add: timely_def near_def put_thread_def)

lemma timely_cong: "now s' = now s \<Longrightarrow> pending s' = pending s \<Longrightarrow> timely s' = timely s"
  by (simp add: timely_def near_def)

lemma UpdateLast_clock [simp]: "stats (UpdateLast n s) = stats s" "pending (UpdateLast n s) = pending s"
  by (simp_all add: UpdateLast_def Let_def split: prod.split)

lemma Disk_requests_near:
  assumes "timely s" "disk_ok s"
  shows "Disk_ReadRequest n s \<noteq> Inl Diverges" "Disk_ReadRequest n s = Inr (data, s') \<Longrightarrow> near s'"
    and "Disk_WriteRequest n bs s \<noteq> Inl Diverges" "Disk_WriteRequest n bs s = Inr s' \<Longrightarrow> near s'"
proof -
  have sched: "Schedule DiskDevice (ComputeLatency n w s) DiskInt t = Inl Diverges \<Longrightarrow> False"
      "Schedule DiskDevice (ComputeLatency n w s) DiskInt t = Inr s'' \<Longrightarrow> near s''"
    if "0 \<le> n" "n < int NumSectors" "now t = now s" "pending t = pending s" for w t s''
    using Schedule_near [of t "ComputeLatency n w s"] latency_horizon [OF assms(2) that(1,2), of w] assms(1)
      timely_cong [OF that(3,4)] by auto
  show "Disk_ReadRequest n s \<noteq> Inl Diverges"
    by (auto dest!: sched(1) [rotated -1] simp: Disk_ReadRequest_def bind_splits bindr_Inl_iff Let_def split: if_splits)
  show "near s'" if "Disk_ReadRequest n s = Inr (data, s')"
    using that by (auto dest!: sched(2) [rotated -1] simp: Disk_ReadRequest_def bind_splits bindr_Inr_iff Let_def split: if_splits)
  show "Disk_WriteRequest n bs s \<noteq> Inl Diverges"
    by (auto dest!: sched(1) [rotated -1] simp: Disk_WriteRequest_def bytes_at_def bind_splits bindr_Inl_iff Let_def split: if_splits)
  show "near s'" if "Disk_WriteRequest n bs s = Inr s'"
    using that by (auto dest!: sched(2) [rotated -1] simp: Disk_WriteRequest_def bytes_at_def bind_splits bindr_Inr_iff Let_def split: if_splits)
qed

lemma on_time_ReadRequest:
  assumes "timely k" "disk_ok k"
  shows "on_time (ReadRequest n k)"
  using Disk_requests_near(1,2) [OF assms]
  by (cases "Disk_ReadRequest n k") (auto simp: ReadRequest_def intro!: on_time_object)

lemma on_time_WriteRequest:
  assumes "timely k" "disk_ok k"
  shows "on_time (Disk_WriteRequest n bs k)"
  using Disk_requests_near(3,4) [OF assms] by (auto simp: on_time_def split: sum.split)

lemma console_soon: "0 < ConsoleTime" "ConsoleTime \<le> horizon"
  by (simp_all add: tick_constants horizon_def)

lemma on_time_ConsolePutChar:
  assumes "timely k"
  shows "on_time (ConsoleOutput_PutChar ch k)"
  using Schedule_near [of "k\<lparr>consoleOutput := co\<rparr>" for co, OF _ console_soon] assms
  by (auto simp: ConsoleOutput_PutChar_def on_time_def bind_splits Let_def split: sum.split)

lemma on_time_ConsoleGetChar:
  assumes "timely k"
  shows "on_time (ConsoleGetChar k)"
proof -
  have "on_time (Schedule ConsoleInputDevice ConsoleTime ConsoleReadInt k)"
    using Schedule_near [OF assms console_soon] by (auto simp: on_time_def split: sum.split)
  moreover have "near k" using assms by (simp add: timely_def)
  ultimately show ?thesis
    by (auto simp: ConsoleGetChar_def ConsoleInput_GetChar_def Let_def bindr_assoc intro!: on_time_bind on_time_return_value)
qed

section \<open>Ticks\<close>

lemma on_time_OneTick:
  assumes "Inv \<Gamma> (k\<lparr>level := l\<rparr>)" "timely k"
  shows "on_time (OneTick k)"
  using OneTick_handlers_timely [OF Inv_interruptible [OF assms(1)] assms(2)]
  by (auto simp: OneTick_def Let_def intro!: on_time_call)

lemma on_time_SetLevel:
  assumes "Inv \<Gamma> (k\<lparr>level := l\<rparr>)" "timely k"
  shows "on_time (SetLevel l k)"
proof -
  have "Inv \<Gamma> ((ChangeLevel l k)\<lparr>level := l\<rparr>)" "timely (ChangeLevel l k)"
    using assms by (simp_all add: ChangeLevel_def)
  from on_time_OneTick [OF this] assms(2) show ?thesis
    by (auto simp: SetLevel_def ASSERT_bindr timely_def Let_def)
qed

lemma on_time_Begin:
  assumes f: "runs_frame \<Gamma> k th F_Begin fs" and t: "timely k"
  shows "on_time (Begin (popped k th fs))"
proof -
  obtain k1 where k1: "CheckToBeDestroyed (popped k th fs) = Inr k1" "Inv \<Gamma> (k1\<lparr>level := IntOn\<rparr>)"
    by (rule Begin_frame [OF f])
  then have "now k1 = now k" "pending k1 = pending k"
    by (auto simp: CheckToBeDestroyed_def bind_splits put_thread_def split: option.splits if_splits)
  then have "timely k1" using t timely_cong by blast
  with k1 show ?thesis by (simp add: Begin_def on_time_SetLevel)
qed

lemma on_time_Sleep_loop:
  assumes f: "runs_frame \<Gamma> k th (F_Sleep_loop b) fs" and t: "timely k"
  shows "on_time (Sleep_loop b (popped k th fs))"
proof -
  let ?k = "popped k th fs"
  note l = leaving_pop(1) [OF f]
  have near: "near ?k" using t by (simp add: timely_def)
  have off: "level ?k = IntOff" by (rule leaving_parts(9) [OF l])
  show ?thesis
  proof (cases "readyList ?k")
    case (Cons u r)
    then have "Sleep_loop b ?k = Run u b (?k\<lparr>readyList := r\<rparr>)"
      using off by (simp add: Sleep_loop_def FindNextToRun_def seq_remove_front_def)
    then show ?thesis using near by (simp add: on_time_Run)
  next
    case Nil
    have "timely ?k" using t by simp
    from Idle_timely [OF leaving_interruptible [OF l] off this]
    obtain fired k1 where "Idle CallBack ?k = Inr (fired, k1)" "near k1" by blast
    then show ?thesis
      using Nil off by (auto simp: Sleep_loop_def FindNextToRun_def intro!: on_time_call)
  qed
qed

section \<open>Every step\<close>

lemmas on_time_frames = on_time_call on_time_Run_back on_time_P_loop on_time_V on_time_Yield on_time_Fork on_time_Wait
  on_time_Signal on_time_Broadcast on_time_ListAppend on_time_SynchRemove_loop on_time_ASSERT on_time_delete
  on_time_Release on_time_Acquired on_time_Acquire on_time_Synch on_time_P on_time_Finish on_time_requests

lemma step_on_time:
  assumes f: "runs_frame \<Gamma> k th f fs" and t: "timely k"
  shows "on_time (exec f (popped k th fs))"
proof -
  have near: "near (popped k th fs)" using t by (simp add: timely_def)
  have timely: "timely (popped k th fs)" using t by simp
  have disk: "disk_ok (popped k th fs)"
    using runs_frame_Inv(4) [OF f] by (simp add: devices_ok_def disk_ok_def)
  show ?thesis
  proof (cases f)
    case (F_SetLevel l)
    then show ?thesis using on_time_SetLevel [of \<Gamma> l "popped k th fs"] tick_frames(1) [OF f, of l] timely by simp
  next
    case F_OneTick
    then show ?thesis using on_time_OneTick [of \<Gamma> IntOn "popped k th fs"] tick_frames(1) [OF f, of IntOn] timely by simp
  next
    case F_Begin
    then show ?thesis using on_time_Begin f t by simp
  next
    case (F_Sleep_loop b)
    then show ?thesis using on_time_Sleep_loop f t by simp
  next
    case (F_Fork garbage func)
    then show ?thesis using on_time_Fork [OF near] by simp
  next
    case (F_ASSERT_returned v)
    then show ?thesis using on_time_ASSERT [OF near] by simp
  next
    case (F_V s)
    then show ?thesis using on_time_V [OF near] by simp
  qed (use near timely disk in \<open>simp_all add: on_time_frames on_time_ReadRequest on_time_WriteRequest
      on_time_ConsolePutChar on_time_ConsoleGetChar\<close>)
qed

end
