(* ===== verification/Kernel_Safety.thy ===== *)
theory Kernel_Safety
  imports Kernel_Clock
begin

text \<open>
  The kernel as a whole: every step of a kernel that satisfies the invariant succeeds and keeps it,
  and a kernel that has just been initialized satisfies it.
\<close>

section \<open>Steps\<close>

text \<open>
  The assertions that a program can make fail: its own, and the one of \<open>List::Append\<close> when the program
  appends an item to a synchronized list that is on the list already.
\<close>

definition program_assertion :: "kernel \<Rightarrow> frame \<Rightarrow> bool" where
  "program_assertion k f \<longleftrightarrow> (\<exists>v. f = F_ASSERT_returned v) \<or>
     (\<exists>sl x v l. f = F_ListAppend sl x \<and> operand_value x k = Inr v \<and> synch_lists k sl = Some l \<and> v \<in> set (items l))"

lemma step_P_loop:
  assumes f: "runs_frame \<Gamma> k th (F_P_loop s) fs"
  shows "runs \<Gamma> (exec (F_P_loop s) (popped k th fs))"
proof -
  obtain sem where sem: "semaphores k s = Some sem" by (rule Inv_semaphore [OF f, of s]) simp
  then show ?thesis using step_P_loop_take [OF f sem] step_P_loop_block [OF f sem] by blast
qed

lemmas kernel_steps =
  step_SetLevel step_OneTick step_setStatus step_Begin step_Finish step_Yield step_Fork step_Run_back
  step_P step_P_loop step_V step_Acquire step_Acquired step_Release step_Wait step_delete_semaphore
  step_Signal step_Broadcast step_SynchAppend step_SynchRemove step_SynchRemove_loop step_requests
  step_ReadRequest step_WriteRequest step_ConsolePutChar step_GetChar step_ConsoleGetChar

lemma step_frame:
  assumes f: "runs_frame \<Gamma> k th f fs"
  shows "runs \<Gamma> (exec f (popped k th fs)) \<or>
    program_assertion k f \<and> exec f (popped k th fs) = Inl AssertionFailed \<or>
    (\<exists>b k'. f = F_Sleep_loop b \<and> exec f (popped k th fs) = Inr k' \<and> halted k' \<and> readyList k = [] \<and> pending k = [])"
  using f
proof (cases f)
  case (F_ListAppend sl v)
  then have "runs_frame \<Gamma> k th (F_ListAppend sl v) fs" using f by simp
  then show ?thesis by (rule step_ListAppend) (use F_ListAppend in \<open>auto simp: program_assertion_def\<close>)
next
  case (F_ASSERT_returned v)
  then show ?thesis using step_ASSERT_returned [of \<Gamma> k th v fs] f by (auto simp: program_assertion_def)
next
  case (F_Sleep_loop b)
  then show ?thesis using step_Sleep_loop [of \<Gamma> k th b fs] f by auto
qed (hypsubst, rule disjI1, rule kernel_steps, assumption)+

lemma Inv_runs_frame:
  assumes "Inv \<Gamma> k"
  obtains th f fs where "runs_frame \<Gamma> k th f fs"
proof -
  obtain th where th: "threads k (currentThread k) = Some th" using assms unfolding Inv_def by blast
  have "frames th \<noteq> []"
    using Inv_parts(8) [OF assms th] by (cases "frames th") (simp_all add: thread_ok_def Let_def)
  then obtain f fs where "frames th = f # fs" by (cases "frames th") auto
  with th assms that show ?thesis by (simp add: runs_frame_def)
qed

section \<open>The initial state\<close>

text \<open>
  \<open>started \<Gamma> k\<close>: only the main thread exists, interrupts are off, nothing is held or waited for and the
  semaphores have the values their users expect.
\<close>

definition started :: "ctx \<Rightarrow> kernel \<Rightarrow> bool" where
  "started \<Gamma> k \<longleftrightarrow>
     devices_ok k \<and> \<not> inHandler k \<and> kmachine k \<noteq> None \<and> level k = IntOff \<and> \<not> halted k \<and>
     \<not> active (disk k) \<and> \<not> putBusy (consoleOutput k) \<and> ctx_ok \<Gamma> \<and> matches \<Gamma> k \<and>
     currentThread k = 0 \<and> readyList k = [] \<and> toBeDestroyed k = None \<and> 0 < next_object k \<and>
     (\<exists>th. threads k = [0 \<mapsto> th] \<and> status th = RUNNING \<and> stack th = None \<and> space th = None) \<and>
     (\<forall>s sem. semaphores k s = Some sem \<longrightarrow> s < next_object k \<and> s \<in> statics \<Gamma> \<and> queue sem = [] \<and> 0 \<le> sem_value sem) \<and>
     (\<forall>x lk. locks k x = Some lk \<longrightarrow> lockHolder lk = None \<and> sv k (lock_semaphore lk) = 1) \<and>
     (\<forall>d \<in> busy_devices. sv k (c_dsem \<Gamma> d) = 0) \<and>
     (\<forall>c cond. conditions k c = Some cond \<longrightarrow> waitQueue cond = []) \<and>
     (\<forall>x. locks k x \<noteq> None \<or> conditions k x \<noteq> None \<or> synch_lists k x \<noteq> None \<longrightarrow> x < next_object k) \<and>
     (\<forall>d. device_lock k d < next_object k)"

definition main_frames :: "frame list \<Rightarrow> frame list" where
  "main_frames program = F_SetLevel IntOn # program @ [F_Finish]"

text \<open>A program of calls that the main thread can run.\<close>

definition program_ok :: "ctx \<Rightarrow> frame list \<Rightarrow> bool" where
  "program_ok \<Gamma> program \<longleftrightarrow> list_all (call_frame \<Gamma>) program \<and> typed \<Gamma> IntOn {} (program @ [F_Finish])"

lemma started_Inv_frames:
  assumes st: "started \<Gamma> k"
    and prog: "list_all (call_frame \<Gamma>) fs" "typed \<Gamma> IntOff {} (fs @ [F_Finish])" "fr k 0 = fs @ [F_Finish]"
  shows "Inv \<Gamma> k"
proof -
  obtain th where th: "threads k = [0 \<mapsto> th]" "status th = RUNNING" "stack th = None" "space th = None"
    using st unfolding started_def by blast
  have s: "devices_ok k" "\<not> inHandler k" "kmachine k \<noteq> None" "level k = IntOff" "\<not> active (disk k)"
    "\<not> putBusy (consoleOutput k)" "ctx_ok \<Gamma>" "matches \<Gamma> k" "currentThread k = 0" "readyList k = []"
    "toBeDestroyed k = None" "0 < next_object k"
    "\<And>s sem. semaphores k s = Some sem \<Longrightarrow> s < next_object k \<and> s \<in> statics \<Gamma> \<and> queue sem = [] \<and> 0 \<le> sem_value sem"
    "\<And>x lk. locks k x = Some lk \<Longrightarrow> lockHolder lk = None \<and> sv k (lock_semaphore lk) = 1"
    "\<And>d. d \<in> busy_devices \<Longrightarrow> sv k (c_dsem \<Gamma> d) = 0"
    "\<And>c cond. conditions k c = Some cond \<Longrightarrow> waitQueue cond = []"
    using st unfolding started_def by blast+
  note w = call_frames_weight [OF prog(1)]
  have fr: "fr k t = (if t = 0 then (fs @ [F_Finish]) else [])" for t
    using prog(3) th(1) by (simp add: fr_def)
  have frames: "frames th = (fs @ [F_Finish])" using prog(3) th(1) by (simp add: fr_def)
  have tot: "frame_total v k = weight v (fs @ [F_Finish])" for v
  proof -
    have "frame_total v k = (\<Sum>t < next_object k. if t = 0 then weight v (fs @ [F_Finish]) else 0)"
      unfolding frame_total_def by (rule sum.cong) (simp_all add: fr)
    then show ?thesis using s(12) by simp
  qed
  have held: "held k t = {}" for t using s(14) by (auto simp: held_def)
  have sleeps: "\<not> sleeps_in k t s" for t s using s(13) by (auto simp: sleeps_in_def)
  have "sched_ok k"
    unfolding sched_defs using s(10,12,13) th sleeps by (auto simp: st_def split: if_splits)
  moreover have "tokens_ok \<Gamma> k"
  proof (rule tokens_okI)
    show "sv k s + hb k x + frame_total (w_lock x s) k = 1" if x: "c_locks \<Gamma> x = Some s" for x s
    proof -
      obtain lk where "locks k x = Some lk" "lock_semaphore lk = s" using s(8) x by (auto simp: matches_def)
      then show ?thesis
        using s(14) [of x lk] w(2) [OF lock_semaphore_owner(1) [OF s(7) x]]
        by (simp add: hb_def tot)
    qed
    show "sv k (c_dsem \<Gamma> d) + db k d + frame_total (w_dev d (c_dsem \<Gamma> d)) k = 0" if d: "d \<in> busy_devices" for d
      using s(5,6) s(15) [OF d] w(3) [OF dev_semaphore_owner(1) [OF s(7) d]]
      by (simp add: dev_busy_def tot)
    show "sv k s + qb k s + frame_total (w_sem s) k = 0 \<and> frame_total (w_del s) k = 1"
      if "s \<notin> statics \<Gamma>" "semaphores k s \<noteq> None" for s
      using s(13) that by auto
    show "semaphores k s \<noteq> None" if g: "g \<in> set (fr k t)" "mentions g s" "s \<notin> statics \<Gamma>" for t g s
      using g w(5) [OF waiter_owner(1) [OF g(3)], of g] by (auto simp: fr split: if_splits)
    show "queues_wf \<Gamma> k" using s(16) by (auto simp: queues_wf_def)
  qed (rule s(8))
  moreover have "ordinary (frames th)" using typed_ordinary [OF prog(2)] by (simp add: frames)
  then have "thread_ok \<Gamma> k 0 th" "user_regs_ok th"
    using prog(2) th s(4,9,11) held by (simp_all add: thread_ok_ordinary frames user_regs_ok_def)
  ultimately show ?thesis
    using s th held by (simp add: Inv_def tokens_ok_def holders_ok_def)
qed

lemma started_Inv:
  "started \<Gamma> k \<Longrightarrow> program_ok \<Gamma> program \<Longrightarrow> fr k 0 = main_frames program \<Longrightarrow> Inv \<Gamma> k"
  using started_Inv_frames [of \<Gamma> k "F_SetLevel IntOn # program"] by (simp add: program_ok_def main_frames_def)

section \<open>Initialization\<close>

text \<open>The outside world before the kernel starts: the disk has whole sectors and the network behaves.\<close>

definition world_ok :: "devices \<Rightarrow> bool" where
  "world_ok w \<longleftrightarrow>
     disk_ok w \<and> \<not> active (disk w) \<and> \<not> putBusy (consoleOutput w) \<and> keyboard_ok w \<and> network_ok w \<and> (\<forall>n. 0 \<le> random_numbers w n)"

definition quiet_hardware :: "kernel \<Rightarrow> bool" where
  "quiet_hardware k \<longleftrightarrow>
     devices_ok k \<and> near k \<and> now k = 0 \<and> level k = IntOff \<and> \<not> inHandler k \<and> \<not> active (disk k) \<and>
     \<not> putBusy (consoleOutput k)"

lemma Schedule_boot:
  assumes "quiet_hardware k" "0 < n" "n \<le> horizon" "waiting d k = 0" "d = TimerDevice \<or> d = NetworkInputDevice \<or>
    d = ConsoleInputDevice \<and> incoming (consoleInput k) = EOF_char"
  shows "\<exists>k'. Schedule d n ty k = Inr k' \<and> quiet_hardware k' \<and> devices.more k' = devices.more k \<and>
    kmachine k' = kmachine k \<and> consoleInput k' = consoleInput k \<and>
    (\<forall>d'. waiting d' k' = waiting d' k + (if d = d' then 1 else 0)) \<and> sectors (disk k') = sectors (disk k) \<and> networkInput k' = networkInput k"
proof -
  have "devices_ok k" "now k = 0" using assms(1) by (simp_all add: quiet_hardware_def)
  moreover have "s32 n = n" by (rule s32_id) (use assms(2,3) in \<open>simp_all add: horizon_def\<close>)
  ultimately show ?thesis
    using assms by (intro schedule_device)
      (auto simp: near_def new_interrupt_def quiet_hardware_def near_def devices_ok_def disk_ok_def keyboard_ok_def network_ok_def)
qed

lemma Timer_boot:
  assumes "quiet_hardware k" "waiting TimerDevice k = 0"
  shows "\<exists>k'. Timer_Timer b k = Inr k' \<and> quiet_hardware k' \<and> devices.more k' = devices.more k \<and>
    kmachine k' = kmachine k \<and> consoleInput k' = consoleInput k \<and>
    (\<forall>d'. waiting d' k' = waiting d' k + (if TimerDevice = d' then 1 else 0)) \<and> sectors (disk k') = sectors (disk k) \<and> networkInput k' = networkInput k"
proof -
  let ?s = "k\<lparr>timer := \<lparr>randomize = b, disable = False\<rparr>\<rparr>"
  define delay where "delay = (if b then 1 + random_numbers k (random_used k) smod (TimerTicks * 2) else TimerTicks)"
  define u where "u = (if b then ?s\<lparr>random_used := random_used k + 1\<rparr> else ?s)"
  have run: "Timer_Timer b k = Schedule TimerDevice delay TimerInt u"
    by (simp add: Timer_Timer_def Timer_SetInterrupt_def delay_def u_def RandomNumber_def Let_def)
  have "0 \<le> random_numbers k (random_used k)" using assms(1) by (simp add: quiet_hardware_def near_def devices_ok_def)
  moreover have "0 < 1 + random_numbers k (random_used k) mod 200" "1 + random_numbers k (random_used k) mod 200 \<le> 200"
    using pos_mod_sign [of 200 "random_numbers k (random_used k)"] pos_mod_bound [of 200 "random_numbers k (random_used k)"]
    by linarith+
  ultimately have "0 < delay" "delay \<le> horizon"
    by (simp_all add: delay_def smod_nonneg tick_constants horizon_def)
  moreover have wait: "waiting d u = waiting d k" for d by (simp add: u_def waiting_def)
  moreover have "quiet_hardware u"
    using assms(1) wait by (auto simp: u_def quiet_hardware_def near_def devices_ok_def hardware_ok_def disk_ok_def keyboard_ok_def network_ok_def)
  ultimately have "\<exists>k'. Schedule TimerDevice delay TimerInt u = Inr k' \<and> quiet_hardware k' \<and> devices.more k' = devices.more u \<and>
    kmachine k' = kmachine u \<and> consoleInput k' = consoleInput u \<and>
    (\<forall>d'. waiting d' k' = waiting d' u + (if TimerDevice = d' then 1 else 0)) \<and> sectors (disk k') = sectors (disk u) \<and> networkInput k' = networkInput u"
    using assms(2) by (intro Schedule_boot) simp_all
  moreover have "devices.more u = devices.more k" "kmachine u = kmachine k" "consoleInput u = consoleInput k"
    "sectors (disk u) = sectors (disk k)" "networkInput u = networkInput k"
    by (simp_all add: u_def)
  ultimately show ?thesis unfolding run wait by simp
qed

lemma quiet_truncate:
  assumes "devices.truncate k' = devices.truncate (k :: kernel)"
  shows "quiet_hardware k' = quiet_hardware k" "waiting d k' = waiting d k"
  using truncate_fields [OF assms] by (simp_all add: quiet_hardware_def near_def waiting_def)

lemma new_device_truncate:
  "devices.truncate (new_device_semaphore d k) = devices.truncate k"
  "devices.truncate (new_synch_device d k) = devices.truncate k"
  by (simp_all add: new_synch_device_def new_device_semaphore_def new_Lock_def new_Semaphore_def put_semaphore_def
      Let_def devices.truncate_def)

lemmas new_device_hardware [simp] =
  quiet_truncate [OF new_device_truncate(1)] quiet_truncate [OF new_device_truncate(2)]

lemma new_device_semaphore_fields [simp]:
  "semaphores (new_device_semaphore d k) = (semaphores k)(next_object k \<mapsto> \<lparr>sem_value = 0, queue = []\<rparr>)"
  "locks (new_device_semaphore d k) = locks k"
  "next_object (new_device_semaphore d k) = next_object k + 1"
  "device_semaphore (new_device_semaphore d k) = (device_semaphore k)(d := next_object k)"
  "device_lock (new_device_semaphore d k) = device_lock k"
  "threads (new_device_semaphore d k) = threads k" "currentThread (new_device_semaphore d k) = currentThread k"
  "readyList (new_device_semaphore d k) = readyList k" "toBeDestroyed (new_device_semaphore d k) = toBeDestroyed k"
  "conditions (new_device_semaphore d k) = conditions k" "synch_lists (new_device_semaphore d k) = synch_lists k"
  "halted (new_device_semaphore d k) = halted k" "kmachine (new_device_semaphore d k) = kmachine k"
  "consoleInput (new_device_semaphore d k) = consoleInput k"
  "sectors (disk (new_device_semaphore d k)) = sectors (disk k)" "networkInput (new_device_semaphore d k) = networkInput k"
  by (simp_all add: new_device_semaphore_def new_Semaphore_def put_semaphore_def Let_def)

lemma new_synch_device_fields [simp]:
  "semaphores (new_synch_device d k) = (semaphores k)(next_object k \<mapsto> \<lparr>sem_value = 1, queue = []\<rparr>,
     next_object k + 2 \<mapsto> \<lparr>sem_value = 0, queue = []\<rparr>)"
  "locks (new_synch_device d k) = (locks k)(next_object k + 1 \<mapsto> \<lparr>lockHolder = None, lock_semaphore = next_object k\<rparr>)"
  "next_object (new_synch_device d k) = next_object k + 3"
  "device_semaphore (new_synch_device d k) = (device_semaphore k)(d := next_object k + 2)"
  "device_lock (new_synch_device d k) = (device_lock k)(d := next_object k + 1)"
  "threads (new_synch_device d k) = threads k" "currentThread (new_synch_device d k) = currentThread k"
  "readyList (new_synch_device d k) = readyList k" "toBeDestroyed (new_synch_device d k) = toBeDestroyed k"
  "conditions (new_synch_device d k) = conditions k" "synch_lists (new_synch_device d k) = synch_lists k"
  "halted (new_synch_device d k) = halted k" "kmachine (new_synch_device d k) = kmachine k"
  "consoleInput (new_synch_device d k) = consoleInput k"
  "sectors (disk (new_synch_device d k)) = sectors (disk k)" "networkInput (new_synch_device d k) = networkInput k"
  by (simp_all add: new_synch_device_def new_Lock_def new_Semaphore_def put_semaphore_def Let_def numeral_2_eq_2 numeral_3_eq_3)

definition initialized :: "frame list \<Rightarrow> kernel \<Rightarrow> bool" where
  "initialized program k \<longleftrightarrow>
     quiet_hardware k \<and> 0 < waiting TimerDevice k \<and> kmachine k \<noteq> None \<and> \<not> halted k \<and> currentThread k = 0 \<and> readyList k = [] \<and>
     toBeDestroyed k = None \<and> conditions k = Map.empty \<and> synch_lists k = Map.empty \<and> next_object k = 14 \<and>
     (\<exists>th. threads k = [0 \<mapsto> th] \<and> status th = RUNNING \<and> stack th = None \<and> space th = None \<and>
        frames th = main_frames program) \<and>
     (\<forall>s. semaphores k s =
        (if s \<in> {1, 4, 7, 11} then Some \<lparr>sem_value = 1, queue = []\<rparr>
         else if s \<in> {3, 6, 9, 10, 13} then Some \<lparr>sem_value = 0, queue = []\<rparr> else None)) \<and>
     (\<forall>x. locks k x = (if x \<in> {2, 5, 8, 12} then Some \<lparr>lockHolder = None, lock_semaphore = x - 1\<rparr> else None)) \<and>
     (\<forall>d. device_lock k d < 14) \<and>
     device_lock k ConsoleInputDevice = 2 \<and> device_lock k ConsoleOutputDevice = 5 \<and> device_lock k DiskDevice = 8 \<and>
     device_semaphore k ConsoleInputDevice = 3 \<and> device_semaphore k ConsoleOutputDevice = 6 \<and>
     device_semaphore k DiskDevice = 9 \<and> device_semaphore k NetworkInputDevice = 10 \<and>
     device_semaphore k NetworkOutputDevice = 13"

lemma Kernel_Initialize_ok:
  assumes w: "world_ok world"
  shows "\<exists>k. Kernel_Initialize randomSlice garbage world program = Inr k \<and> initialized program k"
proof -
  let ?k = "Kernel_Kernel world program"
  have soft: "threads ?k = [0 \<mapsto> (Thread_Thread (replicate NumTotalRegs 0))
          \<lparr>status := RUNNING, frames := F_SetLevel IntOn # program @ [F_Finish]\<rparr>]"
    "currentThread ?k = 0" "readyList ?k = []" "toBeDestroyed ?k = None" "semaphores ?k = Map.empty"
    "locks ?k = Map.empty" "conditions ?k = Map.empty" "synch_lists ?k = Map.empty" "next_object ?k = 1"
    "halted ?k = False" "device_lock ?k = (\<lambda>_. 0)"
    by (simp_all add: Kernel_Kernel_def devices.extend_def)
  have "quiet_hardware ?k" and wait: "waiting d ?k = 0" for d
    using w by (auto simp: world_ok_def quiet_hardware_def near_def horizon_def Kernel_Kernel_def devices.extend_def devices_ok_def
        hardware_ok_def ordered_by_def disk_ok_def keyboard_ok_def network_ok_def waiting_def Statistics_Statistics_def)
  then obtain k1 where k1: "Timer_Timer randomSlice ?k = Inr k1" "quiet_hardware k1" "devices.more k1 = devices.more ?k"
    "\<And>d. waiting d k1 = (if TimerDevice = d then 1 else 0)" "sectors (disk k1) = sectors (disk ?k)"
    "networkInput k1 = networkInput ?k"
    using Timer_boot [of ?k randomSlice] by auto
  let ?k2 = "k1\<lparr>kmachine := Some (Machine_Machine garbage),
    consoleInput := \<lparr>keyboard = keyboard (consoleInput world), incoming = EOF_char\<rparr>\<rparr>"
  have "quiet_hardware ?k2"
    using k1(2) w by (auto simp: world_ok_def quiet_hardware_def near_def devices_ok_def hardware_ok_def disk_ok_def keyboard_ok_def network_ok_def
        Machine_Machine_def regs_ok_def)
  then have "\<exists>k3. Schedule ConsoleInputDevice ConsoleTime ConsoleReadInt ?k2 = Inr k3 \<and> quiet_hardware k3 \<and>
    devices.more k3 = devices.more ?k2 \<and> kmachine k3 = kmachine ?k2 \<and> consoleInput k3 = consoleInput ?k2 \<and>
    (\<forall>d'. waiting d' k3 = waiting d' ?k2 + (if ConsoleInputDevice = d' then 1 else 0)) \<and>
    sectors (disk k3) = sectors (disk ?k2) \<and> networkInput k3 = networkInput ?k2"
    using k1(4) by (intro Schedule_boot) (simp_all add: tick_constants horizon_def)
  then obtain k3 where k3: "Schedule ConsoleInputDevice ConsoleTime ConsoleReadInt ?k2 = Inr k3" "quiet_hardware k3"
    "devices.more k3 = devices.more ?k" "kmachine k3 = Some (Machine_Machine garbage)"
    "\<And>d. waiting d k3 = (if d = TimerDevice \<or> d = ConsoleInputDevice then 1 else 0)"
    "sectors (disk k3) = sectors (disk ?k)" "networkInput k3 = networkInput ?k"
    using k1(3-6) by auto
  define k5 where "k5 = new_synch_device ConsoleOutputDevice
    ((new_synch_device ConsoleInputDevice k3)\<lparr>consoleOutput := ConsoleOutput_ConsoleOutput\<rparr>)"
  define k7 where "k7 = new_device_semaphore NetworkInputDevice
    (new_synch_device DiskDevice (k5\<lparr>disk := Disk_Disk (sectors (disk world))\<rparr>))"
  have worldfields: "sectors (disk ?k) = sectors (disk world)" "networkInput ?k = networkInput world"
    by (simp_all add: Kernel_Kernel_def devices.extend_def)
  have "quiet_hardware (k\<lparr>consoleOutput := ConsoleOutput_ConsoleOutput\<rparr>)" if "quiet_hardware k" for k :: kernel
    using that by (auto simp: quiet_hardware_def near_def devices_ok_def hardware_ok_def disk_ok_def keyboard_ok_def network_ok_def
        ConsoleOutput_ConsoleOutput_def)
  then have "quiet_hardware k5" using k3(2) by (simp add: k5_def)
  moreover have "quiet_hardware (k\<lparr>disk := Disk_Disk (sectors (disk world))\<rparr>)" if "quiet_hardware k" for k :: kernel
    using that w by (auto simp: world_ok_def quiet_hardware_def near_def devices_ok_def hardware_ok_def disk_ok_def keyboard_ok_def network_ok_def
        Disk_Disk_def NumSectors_def NumTracks_def SectorsPerTrack_def)
  ultimately have k7: "quiet_hardware k7" "\<And>d. waiting d k7 = (if d = TimerDevice \<or> d = ConsoleInputDevice then 1 else 0)"
    "networkInput k7 = networkInput world" "kmachine k7 = Some (Machine_Machine garbage)"
    by (simp_all add: k7_def k5_def k3 worldfields)
  let ?k8 = "k7\<lparr>networkInput := \<lparr>arriving = arriving (networkInput world),
    inHdr = (inHdr (networkInput world))\<lparr>pkt_length := 0\<rparr>, inbox = take MaxPacketSize (inbox (networkInput world))\<rparr>\<rparr>"
  have "quiet_hardware ?k8"
    using k7(1) k7(3) [symmetric] by (auto simp: quiet_hardware_def near_def devices_ok_def hardware_ok_def disk_ok_def keyboard_ok_def network_ok_def)
  then have "\<exists>k8. Schedule NetworkInputDevice NetworkTime NetworkRecvInt ?k8 = Inr k8 \<and> quiet_hardware k8 \<and>
    devices.more k8 = devices.more ?k8 \<and> kmachine k8 = kmachine ?k8 \<and> consoleInput k8 = consoleInput ?k8 \<and>
    (\<forall>d'. waiting d' k8 = waiting d' ?k8 + (if NetworkInputDevice = d' then 1 else 0)) \<and>
    sectors (disk k8) = sectors (disk ?k8) \<and> networkInput k8 = networkInput ?k8"
    using k7(2) by (intro Schedule_boot) (simp_all add: tick_constants horizon_def)
  then obtain k8 where k8: "Schedule NetworkInputDevice NetworkTime NetworkRecvInt ?k8 = Inr k8" "quiet_hardware k8"
    "devices.more k8 = devices.more k7" "kmachine k8 = Some (Machine_Machine garbage)" "waiting TimerDevice k8 = 1"
    using k7(2,4) by auto
  have run: "Kernel_Initialize randomSlice garbage world program = Inr (new_synch_device NetworkOutputDevice k8)"
    using k1(1) k3(1) k8(1)
    by (simp add: Kernel_Initialize_def ConsoleInput_ConsoleInput_def NetworkInput_NetworkInput_def Let_def
        k5_def [symmetric] k7_def [symmetric])
  note m3 = more_fields [OF k3(3)] and m8 = more_fields [OF k8(3)]
  have main: "\<exists>th. threads (new_synch_device NetworkOutputDevice k8) = [0 \<mapsto> th] \<and> status th = RUNNING \<and>
      stack th = None \<and> space th = None \<and> frames th = main_frames program"
    by (rule exI [of _ "(Thread_Thread (replicate NumTotalRegs 0))
          \<lparr>status := RUNNING, frames := F_SetLevel IntOn # program @ [F_Finish]\<rparr>"])
      (simp add: m8 k7_def k5_def m3 soft main_frames_def Thread_Thread_def)
  have "initialized program (new_synch_device NetworkOutputDevice k8)"
    unfolding initialized_def
    by (intro conjI allI main)
      (simp_all add: k8 m8 k7_def k5_def m3 soft main_frames_def Thread_Thread_def)
  with run show ?thesis by blast
qed

lemma initialized_timely: "initialized program k \<Longrightarrow> timely k"
  by (simp add: initialized_def quiet_hardware_def timely_def clock_limit_def)

text \<open>The context of a kernel: the objects it has now.\<close>

definition kernel_ctx :: "nat set \<Rightarrow> kernel \<Rightarrow> ctx" where
  "kernel_ctx U k =
     \<lparr>users = U \<union> device_semaphore k ` {ConsoleInputDevice, NetworkInputDevice, NetworkOutputDevice},
      c_locks = (\<lambda>x. map_option lock_semaphore (locks k x)), c_conds = dom (conditions k),
      c_lists = (\<lambda>sl. map_option (\<lambda>l. (sl_lock l, sl_listEmpty l)) (synch_lists k sl)),
      c_dlock = device_lock k, c_dsem = device_semaphore k\<rparr>"

lemma initialized_started:
  assumes "initialized program k"
  shows "started (kernel_ctx {} k) k" "fr k 0 = main_frames program"
proof -
  let ?G = "kernel_ctx {} k"
  have i: "quiet_hardware k" "kmachine k \<noteq> None" "\<not> halted k" "currentThread k = 0" "readyList k = []"
    "toBeDestroyed k = None" "conditions k = Map.empty" "synch_lists k = Map.empty" "next_object k = 14"
    "\<exists>th. threads k = [0 \<mapsto> th] \<and> status th = RUNNING \<and> stack th = None \<and> space th = None \<and>
      frames th = main_frames program"
    "device_lock k ConsoleInputDevice = 2" "device_lock k ConsoleOutputDevice = 5" "device_lock k DiskDevice = 8"
    "device_semaphore k ConsoleInputDevice = 3" "device_semaphore k ConsoleOutputDevice = 6"
    "device_semaphore k DiskDevice = 9" "device_semaphore k NetworkInputDevice = 10"
    "device_semaphore k NetworkOutputDevice = 13" "\<forall>d. device_lock k d < 14"
    and sems: "\<And>s. semaphores k s = (if s \<in> {1, 4, 7, 11} then Some \<lparr>sem_value = 1, queue = []\<rparr>
         else if s \<in> {3, 6, 9, 10, 13} then Some \<lparr>sem_value = 0, queue = []\<rparr> else None)"
    and lks: "\<And>x. locks k x = (if x \<in> {2, 5, 8, 12} then Some \<lparr>lockHolder = None, lock_semaphore = x - 1\<rparr> else None)"
    using assms unfolding initialized_def by blast+
  show "fr k 0 = main_frames program" using i(10) by (auto simp: fr_def)
  have cl: "c_locks ?G x = (if x \<in> {2, 5, 8, 12} then Some (x - 1) else None)" for x
    by (simp add: kernel_ctx_def lks)
  have ran: "ran (c_locks ?G) = {1, 4, 7, 11}"
  proof
    show "ran (c_locks ?G) \<subseteq> {1, 4, 7, 11}" by (auto simp: ran_def cl split: if_splits)
    have "c_locks ?G 2 = Some 1" "c_locks ?G 5 = Some 4" "c_locks ?G 8 = Some 7" "c_locks ?G 12 = Some 11"
      by (simp_all add: cl)
    then show "{1, 4, 7, 11} \<subseteq> ran (c_locks ?G)" by (blast intro: ranI)
  qed
  have users: "users ?G = {3, 10, 13}" using i by (auto simp: kernel_ctx_def)
  have statics: "statics ?G = {1, 3, 4, 6, 7, 9, 10, 11, 13}"
    unfolding statics_def ran users using i by (auto simp: kernel_ctx_def busy_devices_def)
  have "ctx_ok ?G"
    unfolding ctx_ok_def
  proof (intro conjI allI impI ballI)
    show "x = y" if "c_locks ?G x = Some s" "c_locks ?G y = Some s" for x y s
      using that by (auto simp: kernel_ctx_def lks split: if_splits)
    show "c_dsem ?G d \<in> users ?G" if "d \<notin> busy_devices" "d \<noteq> TimerDevice" for d
      using that by (cases d) (auto simp: kernel_ctx_def busy_devices_def)
  qed (use i in \<open>auto simp: ran users\<close>; auto simp: kernel_ctx_def busy_devices_def lks dom_def)+
  moreover have "matches ?G k"
    unfolding matches_def statics by (auto simp: kernel_ctx_def sems)
  moreover have "sv k (lock_semaphore lk) = 1" if "locks k x = Some lk" for x lk
    using that by (auto simp: lks sv_def sems split: if_splits)
  moreover have "sv k (c_dsem ?G d) = 0" if "d \<in> busy_devices" for d
    using that i by (auto simp: busy_devices_def kernel_ctx_def sv_def sems)
  moreover have "lockHolder lk = None" if "locks k x = Some lk" for x lk using that by (auto simp: lks split: if_splits)
  moreover have "s < next_object k \<and> s \<in> statics ?G \<and> queue sem = [] \<and> 0 \<le> sem_value sem"
    if "semaphores k s = Some sem" for s sem
    using that by (auto simp: sems statics i(9) split: if_splits)
  moreover have "x < next_object k" if "locks k x \<noteq> None" for x using that by (auto simp: lks i(9) split: if_splits)
  ultimately show "started ?G k"
    using i unfolding started_def quiet_hardware_def by auto
qed

text \<open>The objects that a program creates before it starts.\<close>

definition ctx_Semaphore :: "nat \<Rightarrow> ctx \<Rightarrow> ctx" where
  "ctx_Semaphore s \<Gamma> = \<Gamma>\<lparr>users := insert s (users \<Gamma>)\<rparr>"

definition ctx_Lock :: "nat \<Rightarrow> nat \<Rightarrow> ctx \<Rightarrow> ctx" where
  "ctx_Lock x s \<Gamma> = \<Gamma>\<lparr>c_locks := (c_locks \<Gamma>)(x \<mapsto> s)\<rparr>"

definition ctx_Condition :: "nat \<Rightarrow> ctx \<Rightarrow> ctx" where
  "ctx_Condition c \<Gamma> = \<Gamma>\<lparr>c_conds := insert c (c_conds \<Gamma>)\<rparr>"

lemma started_fresh:
  assumes "started \<Gamma> k"
  shows "next_object k \<notin> statics \<Gamma>" "c_locks \<Gamma> (Suc (next_object k)) = None" "c_locks \<Gamma> (next_object k) = None"
    "Suc (next_object k) \<notin> range (c_dlock \<Gamma>)" "semaphores k (next_object k) = None"
proof -
  have s: "matches \<Gamma> k" "\<And>s sem. semaphores k s = Some sem \<Longrightarrow> s < next_object k"
    "\<And>x. locks k x \<noteq> None \<Longrightarrow> x < next_object k" "\<And>d. device_lock k d < next_object k"
    using assms unfolding started_def by blast+
  show "semaphores k (next_object k) = None" using s(2) [of "next_object k"] by (cases "semaphores k (next_object k)") auto
  then show "next_object k \<notin> statics \<Gamma>" using s(1) by (auto simp: matches_def)
  show "c_locks \<Gamma> (Suc (next_object k)) = None" "c_locks \<Gamma> (next_object k) = None"
  proof -
    have "locks k (Suc (next_object k)) = None" "locks k (next_object k) = None" using s(3) by fastforce+
    then show "c_locks \<Gamma> (Suc (next_object k)) = None" "c_locks \<Gamma> (next_object k) = None"
      using s(1) by (simp_all add: matches_def)
  qed
  show "Suc (next_object k) \<notin> range (c_dlock \<Gamma>)" using s(1) s(4) by (auto simp: matches_def) (metis less_Suc_eq not_less_eq)
qed

lemma new_Semaphore_started:
  assumes st: "started \<Gamma> k" and v: "0 \<le> v" and new: "new_Semaphore v k = (s, k')"
  shows "started (ctx_Semaphore s \<Gamma>) k'" "fr k' = fr k"
proof -
  let ?n = "next_object k"
  have k': "s = ?n" "k' = put_semaphore ?n \<lparr>sem_value = v, queue = []\<rparr> (k\<lparr>next_object := ?n + 1\<rparr>)"
    using new by (auto simp: new_Semaphore_def)
  show "fr k' = fr k" by (simp add: k' fr_def put_semaphore_def fun_eq_iff)
  note fresh = started_fresh [OF st]
  have c: "ctx_ok \<Gamma>" and m: "matches \<Gamma> k" using st by (simp_all add: started_def)
  have n: "?n \<notin> ran (c_locks \<Gamma>)" "?n \<notin> c_dsem \<Gamma> ` busy_devices" using fresh(1) by (auto simp: statics_def)
  have "ctx_ok (ctx_Semaphore s \<Gamma>)"
    using c n unfolding ctx_ok_def ctx_Semaphore_def k'(1) by auto
  moreover have "statics (ctx_Semaphore s \<Gamma>) = insert ?n (statics \<Gamma>)"
    by (auto simp: statics_def ctx_Semaphore_def k'(1))
  moreover from this have "matches (ctx_Semaphore s \<Gamma>) k'"
    using m unfolding matches_def by (simp add: ctx_Semaphore_def k' put_semaphore_def)
  moreover have "sv k' x = (if x = ?n then v else sv k x)" for x by (simp add: sv_def k' put_semaphore_def)
  moreover have "sv k ?n = 0" by (simp add: sv_def fresh(5))
  moreover have "lock_semaphore lk \<noteq> ?n" if "locks k x = Some lk" for x lk
    using that n(1) m ranI [of "c_locks \<Gamma>" x "lock_semaphore lk"] by (auto simp: matches_def)
  ultimately show "started (ctx_Semaphore s \<Gamma>) k'"
    using st v n unfolding started_def by (auto simp: k' put_semaphore_def ctx_Semaphore_def image_iff less_Suc_eq)
qed

lemma new_Lock_started:
  assumes st: "started \<Gamma> k" and new: "new_Lock k = (x, k')"
  shows "started (ctx_Lock x (next_object k) \<Gamma>) k'" "fr k' = fr k" "x = Suc (next_object k)"
    "x \<notin> range (c_dlock \<Gamma>)" "next_object k' = Suc (Suc (next_object k))"
proof -
  let ?n = "next_object k"
  have k': "x = Suc ?n" "k' = k\<lparr>next_object := Suc (Suc ?n), semaphores := (semaphores k)(?n \<mapsto> \<lparr>sem_value = 1, queue = []\<rparr>),
      locks := (locks k)(Suc ?n \<mapsto> \<lparr>lockHolder = None, lock_semaphore = ?n\<rparr>)\<rparr>"
    using new by (auto simp: new_Lock_def new_Semaphore_def put_semaphore_def Let_def)
  show "fr k' = fr k" "x = Suc ?n" "next_object k' = Suc (Suc ?n)" by (simp_all add: k' fr_def fun_eq_iff)
  note fresh = started_fresh [OF st]
  show "x \<notin> range (c_dlock \<Gamma>)" using fresh(4) by (simp add: k')
  have c: "ctx_ok \<Gamma>" and m: "matches \<Gamma> k" using st by (simp_all add: started_def)
  have n: "?n \<notin> ran (c_locks \<Gamma>)" "?n \<notin> c_dsem \<Gamma> ` busy_devices" "?n \<notin> users \<Gamma>" using fresh(1) by (auto simp: statics_def)
  have ran: "ran ((c_locks \<Gamma>)(Suc ?n \<mapsto> ?n)) = insert ?n (ran (c_locks \<Gamma>))"
    using fresh(2) by (simp add: ran_map_upd)
  have "ctx_ok (ctx_Lock x ?n \<Gamma>)"
    unfolding ctx_ok_def ctx_Lock_def k'(1) using c n fresh(2)
    by (auto simp: ran ctx_ok_def ranI split: if_splits)
  moreover have "statics (ctx_Lock x ?n \<Gamma>) = insert ?n (statics \<Gamma>)"
    by (auto simp: statics_def ctx_Lock_def k'(1) ran)
  moreover from this have "matches (ctx_Lock x ?n \<Gamma>) k'"
    using m unfolding matches_def by (simp add: ctx_Lock_def k')
  moreover have "sv k' s = (if s = ?n then 1 else sv k s)" for s by (simp add: sv_def k')
  moreover have "sv k ?n = 0" by (simp add: sv_def fresh(5))
  moreover have "lock_semaphore lk \<noteq> ?n" if "locks k y = Some lk" for y lk
    using that n(1) m ranI [of "c_locks \<Gamma>" y "lock_semaphore lk"] by (auto simp: matches_def)
  ultimately show "started (ctx_Lock x ?n \<Gamma>) k'"
    using st n unfolding started_def
    by (auto simp: k' ctx_Lock_def image_iff less_Suc_eq busy_devices_def split: if_splits)
qed

lemma new_Condition_started:
  assumes st: "started \<Gamma> k" and new: "new_Condition k = (c, k')"
  shows "started (ctx_Condition c \<Gamma>) k'" "fr k' = fr k"
proof -
  let ?n = "next_object k"
  have k': "c = ?n" "k' = k\<lparr>conditions := (conditions k)(?n \<mapsto> \<lparr>waitQueue = []\<rparr>), next_object := Suc ?n\<rparr>"
    using new by (auto simp: new_Condition_def)
  show "fr k' = fr k" by (simp add: k' fr_def fun_eq_iff)
  have "ctx_ok (ctx_Condition c \<Gamma>)" using st by (auto simp: started_def ctx_ok_def ctx_Condition_def)
  moreover have "statics (ctx_Condition c \<Gamma>) = statics \<Gamma>" by (simp add: statics_def ctx_Condition_def)
  moreover have "sv k' = sv k" by (simp add: sv_def k' fun_eq_iff)
  ultimately show "started (ctx_Condition c \<Gamma>) k'"
    using st unfolding started_def by (auto simp: k' ctx_Condition_def matches_def less_Suc_eq split: if_splits)
qed

definition ctx_List :: "nat \<Rightarrow> nat \<Rightarrow> nat \<Rightarrow> ctx \<Rightarrow> ctx" where
  "ctx_List sl x c \<Gamma> = \<Gamma>\<lparr>c_lists := (c_lists \<Gamma>)(sl \<mapsto> (x, c))\<rparr>"

lemma new_SynchList_started:
  assumes st: "started \<Gamma> k" and new: "new_SynchList k = (sl, k')"
  shows "started (ctx_List sl (next_object k + 1) (next_object k + 2)
      (ctx_Condition (next_object k + 2) (ctx_Lock (next_object k + 1) (next_object k) \<Gamma>))) k'"
    "fr k' = fr k" "sl = next_object k + 3"
proof -
  let ?n = "next_object k"
  obtain x k1 where l: "new_Lock k = (x, k1)" by force
  obtain c k2 where c: "new_Condition k1 = (c, k2)" by force
  note l1 = new_Lock_started [OF st l] and c1 = new_Condition_started [OF new_Lock_started(1) [OF st l] c]
  have ids: "x = ?n + 1" "c = ?n + 2" "next_object k2 = ?n + 3"
    using l1(3,5) c by (auto simp: new_Condition_def)
  let ?G = "ctx_Condition c (ctx_Lock x ?n \<Gamma>)"
  have k': "sl = next_object k2" "k' = k2\<lparr>synch_lists := (synch_lists k2)(next_object k2 \<mapsto> \<lparr>items = [], sl_lock = x, sl_listEmpty = c\<rparr>),
      next_object := Suc (next_object k2)\<rparr>"
    using new l c by (auto simp: new_SynchList_def)
  show "fr k' = fr k" using l1(2) c1(2) by (simp add: k' fr_def fun_eq_iff)
  show "sl = ?n + 3" using ids(3) by (simp add: k')
  have s2: "started ?G k2" by (rule c1)
  have "x \<in> dom (c_locks ?G)" "x \<notin> range (c_dlock ?G)" "c \<in> c_conds ?G"
    using l1(4) by (simp_all add: ctx_Condition_def ctx_Lock_def)
  then have "ctx_ok (ctx_List sl x c ?G)"
    using s2 by (auto simp: started_def ctx_ok_def ctx_List_def split: if_splits)
  moreover have "statics (ctx_List sl x c ?G) = statics ?G" by (simp add: statics_def ctx_List_def)
  moreover have "sv k' = sv k2" by (simp add: sv_def k' fun_eq_iff)
  ultimately have "started (ctx_List sl x c ?G) k'"
    using s2 unfolding started_def
    by (auto simp: k' ctx_List_def matches_def less_Suc_eq split: if_splits)
  then show "started (ctx_List sl (?n + 1) (?n + 2) (ctx_Condition (?n + 2) (ctx_Lock (?n + 1) ?n \<Gamma>))) k'"
    by (simp add: ids)
qed

end
