(* ===== verification/Kernel_Correct.thy ===== *)
theory Kernel_Correct
  imports Kernel_Safety
begin

text \<open>
  What the kernel guarantees to its threads, from its initialization on: it never gets stuck or
  fails an assertion of its own, locks exclude, the lists of the scheduler are right, devices are
  idle when they are asked, and interrupts are served at the tick they are due.
\<close>

section \<open>Reachable states\<close>

lemma kernel_step_cases:
  assumes inv: "Inv \<Gamma> k" and step: "kernel_step k r"
  obtains (runs) k' where "r = Inr k'" "Inv \<Gamma> k'"
  | (halts) k' where "r = Inr k'" "halted k'" "readyList k = []" "pending k = []"
  | (asserts) f fs where "r = Inl AssertionFailed" "fr k (currentThread k) = f # fs" "program_assertion k f"
  | (hangs) "r = Inl Diverges" "\<not> timely k"
proof -
  from step obtain th f fs where th: "threads k (currentThread k) = Some th" "frames th = f # fs"
    and r: "r = exec f (popped k th fs)"
    by (cases rule: kernel_step.cases) blast
  have f: "runs_frame \<Gamma> k th f fs" using inv th by (simp add: runs_frame_def)
  have clock: "r = Inl Diverges \<Longrightarrow> \<not> timely k" using step_on_time [OF f] unfolding r by auto
  consider "runs \<Gamma> r" | "program_assertion k f" "r = Inl AssertionFailed"
    | k' where "r = Inr k'" "halted k'" "readyList k = []" "pending k = []"
    using step_frame [OF f] unfolding r by blast
  then show ?thesis
  proof cases
    case 1
    then show ?thesis using runs hangs clock by (auto simp: runs_def)
  next
    case 2
    then show ?thesis using asserts runs_frame_current(1) [OF f] by blast
  next
    case 3
    then show ?thesis by (rule halts)
  qed
qed

lemma reachable_Inv:
  assumes "reachable k0 k" "Inv \<Gamma> k0" "\<not> halted k"
  shows "Inv \<Gamma> k"
  using assms
proof (induction rule: reachable.induct)
  case (step k' k'')
  have "\<not> halted k'" using step.hyps(2) by (cases rule: kernel_step.cases) simp
  then have "Inv \<Gamma> k'" using step by blast
  from this step.hyps(2) show ?case
    by (cases rule: kernel_step_cases) (use step.prems in auto)
qed simp

text \<open>A kernel whose main thread starts to run the calls \<open>fs\<close>, with interrupts off.\<close>

definition boots :: "ctx \<Rightarrow> frame list \<Rightarrow> kernel \<Rightarrow> bool" where
  "boots \<Gamma> fs k \<longleftrightarrow>
     started \<Gamma> k \<and> list_all (call_frame \<Gamma>) fs \<and> typed \<Gamma> IntOff {} (fs @ [F_Finish]) \<and> fr k 0 = fs @ [F_Finish]"

definition running :: "ctx \<Rightarrow> kernel \<Rightarrow> bool" where
  "running \<Gamma> k \<longleftrightarrow> (\<exists>fs k0. boots \<Gamma> fs k0 \<and> reachable k0 k \<and> \<not> halted k)"

lemma running_Inv: "running \<Gamma> k \<Longrightarrow> Inv \<Gamma> k"
  using reachable_Inv started_Inv_frames unfolding running_def boots_def by blast

lemma running_live: "running \<Gamma> k \<Longrightarrow> \<not> halted k"
  by (auto simp: running_def)

lemma boots_running: "boots \<Gamma> fs k \<Longrightarrow> running \<Gamma> k"
  unfolding running_def using reachable.start by (auto simp: boots_def started_def)

lemma initialized_boots:
  assumes "initialized program k" "program_ok (kernel_ctx {} k) program"
  shows "boots (kernel_ctx {} k) (F_SetLevel IntOn # program) k"
  using initialized_started [OF assms(1)] assms(2) by (simp add: boots_def program_ok_def main_frames_def)

text \<open>
  \<open>in_time \<Gamma> k\<close>: the kernel has reached \<open>k\<close> while its clock stayed below \<open>clock_limit\<close>, some 65,000 ticks
  short of the largest \<open>int\<close>.
\<close>

inductive in_time :: "ctx \<Rightarrow> kernel \<Rightarrow> bool" for \<Gamma> where
  start: "boots \<Gamma> fs k \<Longrightarrow> timely k \<Longrightarrow> in_time \<Gamma> k"
| step: "in_time \<Gamma> k \<Longrightarrow> kernel_step k (Inr k') \<Longrightarrow> \<not> halted k' \<Longrightarrow> now k' < clock_limit \<Longrightarrow> in_time \<Gamma> k'"

lemma in_time_running: "in_time \<Gamma> k \<Longrightarrow> running \<Gamma> k"
proof (induction rule: in_time.induct)
  case (start fs k)
  then show ?case by (simp add: boots_running)
next
  case (step k k')
  then show ?case using reachable.step unfolding running_def by blast
qed

lemma in_time_timely: "in_time \<Gamma> k \<Longrightarrow> timely k"
proof (induction rule: in_time.induct)
  case (step k k')
  from step.hyps(2) obtain th f fs where th: "threads k (currentThread k) = Some th" "frames th = f # fs"
    and k': "exec f (popped k th fs) = Inr k'"
    by (cases rule: kernel_step.cases) auto
  have "runs_frame \<Gamma> k th f fs"
    using running_Inv [OF in_time_running [OF step.hyps(1)]] th by (simp add: runs_frame_def)
  from step_on_time [OF this step.IH] k' step.hyps(4) show ?case by (simp add: timely_def)
qed

text \<open>One more step, as the function \<open>exec\<close> computes it.\<close>

lemma running_exec:
  assumes "running \<Gamma> k" "threads k (currentThread k) = Some th" "frames th = f # fs"
    and "exec f (popped k th fs) = Inr k'" "\<not> halted k'"
  shows "running \<Gamma> k'"
proof -
  have "kernel_step k (Inr k')"
    using kernel_step [OF running_live [OF assms(1)] assms(2,3)] assms(4) by simp
  then show ?thesis using assms(1,5) reachable.step unfolding running_def by blast
qed

lemma running_step:
  assumes "running \<Gamma> k" "fr k (currentThread k) = f # fs"
  obtains th where "threads k (currentThread k) = Some th" "frames th = f # fs" "runs_frame \<Gamma> k th f fs"
    "status th = RUNNING \<or> \<not> ordinary (f # fs)"
proof -
  note inv = running_Inv [OF assms(1)]
  then obtain th where th: "threads k (currentThread k) = Some th" unfolding Inv_def by blast
  then have fs: "frames th = f # fs" using assms(2) by (simp add: fr_simps)
  then have f: "runs_frame \<Gamma> k th f fs" using inv th by (simp add: runs_frame_def)
  have "status th = RUNNING" if "ordinary (f # fs)" using runs_frame_ordinary(2) [OF f that] .
  then show thesis using that th fs f by blast
qed

section \<open>A kernel for the examples\<close>

text \<open>A kernel started on an idle machine, and the same with one more lock.\<close>

lemma example_kernel:
  obtains k where "Kernel_Initialize False 0 idle_devices program = Inr k" "initialized program k"
proof -
  have "world_ok idle_devices"
    using idle_devices_ok by (simp add: world_ok_def devices_ok_def)
  with that show ?thesis using Kernel_Initialize_ok by blast
qed

text \<open>The main thread between two calls, with interrupts still off.\<close>

lemma started_frames:
  assumes "started \<Gamma> k" "threads k 0 = Some th"
  shows "started \<Gamma> (put_thread 0 (th\<lparr>frames := fs\<rparr>) k)"
proof -
  let ?k = "put_thread 0 (th\<lparr>frames := fs\<rparr>) k"
  have "matches \<Gamma> ?k" using assms(1) by (simp add: started_def matches_def)
  moreover have "sv ?k = sv k" by (simp add: sv_def fun_eq_iff)
  moreover have "halted ?k = halted k" by (simp add: put_thread_def)
  ultimately show ?thesis using assms unfolding started_def by (auto split: if_splits)
qed

definition example_main :: "ctx \<Rightarrow> frame list \<Rightarrow> thread \<Rightarrow> kernel \<Rightarrow> bool" where
  "example_main \<Gamma> fs th k \<longleftrightarrow>
     in_time \<Gamma> k \<and> threads k = [0 \<mapsto> th] \<and> frames th = fs @ [F_Finish] \<and> status th = RUNNING \<and> stack th = None \<and>
     space th = None \<and> currentThread k = 0 \<and> level k = IntOff \<and> readyList k = [] \<and> next_object k = 14 \<and> \<not> halted k \<and>
     device_lock k DiskDevice = 8 \<and> device_semaphore k DiskDevice = 9 \<and>
     locks k 8 = Some \<lparr>lockHolder = None, lock_semaphore = 7\<rparr> \<and>
     semaphores k 3 = Some \<lparr>sem_value = 0, queue = []\<rparr> \<and> semaphores k 7 = Some \<lparr>sem_value = 1, queue = []\<rparr>"

lemma example_runs:
  assumes "\<And>\<Gamma>. 3 \<in> users \<Gamma> \<Longrightarrow> c_dlock \<Gamma> DiskDevice = 8 \<Longrightarrow> 8 \<in> dom (c_locks \<Gamma>) \<Longrightarrow>
    list_all (call_frame \<Gamma>) fs \<and> typed \<Gamma> IntOff {} (fs @ [F_Finish])"
  obtains \<Gamma> th k where "example_main \<Gamma> fs th k"
proof -
  obtain k where i: "initialized [] k" by (rule example_kernel)
  let ?G = "kernel_ctx {} k"
  obtain th where th: "threads k = [0 \<mapsto> th]" "status th = RUNNING" "stack th = None" "space th = None"
    using i unfolding initialized_def by blast
  let ?th = "th\<lparr>frames := fs @ [F_Finish]\<rparr>"
  let ?k = "put_thread 0 ?th k"
  have k: "device_lock k DiskDevice = 8" "device_semaphore k DiskDevice = 9" "device_semaphore k ConsoleInputDevice = 3"
    "locks k 8 = Some \<lparr>lockHolder = None, lock_semaphore = 7\<rparr>" "semaphores k 3 = Some \<lparr>sem_value = 0, queue = []\<rparr>"
    "semaphores k 7 = Some \<lparr>sem_value = 1, queue = []\<rparr>" "currentThread k = 0" "readyList k = []" "next_object k = 14"
    using i by (simp_all add: initialized_def)
  have st: "started ?G k" by (rule initialized_started [OF i])
  then have off: "level k = IntOff" "\<not> halted k" by (simp_all add: started_def)
  have "boots ?G fs ?k"
    using started_frames [OF st, of th] assms [of ?G] th(1) k
    by (auto simp: boots_def fr_def kernel_ctx_def)
  moreover have "timely ?k" using initialized_timely [OF i] by simp
  ultimately have "in_time ?G ?k" by (rule in_time.start)
  then have "example_main ?G fs ?th ?k"
    using k off th by (simp add: example_main_def put_thread_def)
  then show thesis by (rule that)
qed

lemma example_fr: "example_main \<Gamma> fs th k \<Longrightarrow> fr k (currentThread k) = fs @ [F_Finish]"
  by (simp add: example_main_def fr_def)

lemma example_in_time: "example_main \<Gamma> fs th k \<Longrightarrow> in_time \<Gamma> k"
  by (simp add: example_main_def)

lemma example_running: "example_main \<Gamma> fs th k \<Longrightarrow> running \<Gamma> k"
  by (rule in_time_running [OF example_in_time])

section \<open>Properties\<close>

text \<open>
  \<open>Kernel::Initialize\<close> succeeds in every world whose disk has whole sectors and whose network delivers
  well-formed packets, with any random numbers.  It leaves the main thread running with interrupts off,
  about to run its program, and every lock, semaphore and device in the state its users expect.
\<close>

theorem kernel_starts:
  assumes "world_ok world"
  shows "\<exists>k. Kernel_Initialize randomSlice garbage world program = Inr k \<and> started (kernel_ctx {} k) k \<and>
    fr k 0 = main_frames program"
  using Kernel_Initialize_ok [OF assms] initialized_started by blast

theorem kernel_starts_witness:
  "\<exists>k. Kernel_Initialize True 7 idle_devices [F_ReadSector 3] = Inr k \<and> started (kernel_ctx {} k) k \<and>
    fr k 0 = main_frames [F_ReadSector 3]"
  by (rule kernel_starts) (use idle_devices_ok in \<open>simp add: world_ok_def devices_ok_def\<close>)

text \<open>
  C1: The kernel never fails while its clock lasts.  In every state reachable from the start of a
  well-formed program (its calls are to objects that exist, it releases and signals only what it holds,
  and it holds no lock when it ends; the disk has whole sectors, the network delivers well-formed packets,
  and reading the keyboard does not fail), under any interleaving of interrupts and context switches, the current
  thread has a next step.  The step succeeds, unless it is an assertion that the program itself
  makes or brings about (its own \<open>ASSERT\<close>, or \<open>List::Append\<close> of an item that is on the list already), or it hangs in
  \<open>CheckIfDue\<close>; and it does not hang if the clock has stayed below \<open>clock_limit\<close> (\<open>2^31 - 2^16\<close>) so far.
  So no assertion of the kernel fails, whatever the clock, no deleted object is used, and no list is
  asked for an element it does not have.
\<close>

theorem kernel_never_fails:
  assumes "running \<Gamma> k"
  shows "(\<exists>r. kernel_step k r) \<and>
    (\<forall>r. kernel_step k r \<longrightarrow> (\<exists>k'. r = Inr k') \<or>
       r = Inl AssertionFailed \<and> (\<exists>f fs. fr k (currentThread k) = f # fs \<and> program_assertion k f) \<or>
       r = Inl Diverges \<and> \<not> in_time \<Gamma> k)"
proof -
  have inv: "Inv \<Gamma> k" by (rule running_Inv [OF assms])
  obtain th f fs where "runs_frame \<Gamma> k th f fs" by (rule Inv_runs_frame [OF inv])
  then have "kernel_step k (exec f (popped k th fs))"
    using running_live [OF assms] by (intro kernel_step) (simp_all add: runs_frame_def)
  moreover have "(\<exists>k'. r = Inr k') \<or>
      r = Inl AssertionFailed \<and> (\<exists>f fs. fr k (currentThread k) = f # fs \<and> program_assertion k f) \<or>
      r = Inl Diverges \<and> \<not> in_time \<Gamma> k"
    if "kernel_step k r" for r
    using in_time_timely [of \<Gamma> k] by (cases rule: kernel_step_cases [OF inv that]) auto
  ultimately show ?thesis by blast
qed

theorem kernel_never_fails_witness:
  "\<exists>\<Gamma> k. in_time \<Gamma> k \<and> fr k (currentThread k) = [F_V 3, F_ReadSector 3, F_Finish] \<and> (\<exists>r. kernel_step k r) \<and>
    (\<forall>r. kernel_step k r \<longrightarrow> (\<exists>k'. r = Inr k') \<or>
       r = Inl AssertionFailed \<and> (\<exists>f fs. fr k (currentThread k) = f # fs \<and> program_assertion k f))"
proof -
  obtain \<Gamma> th k where k: "example_main \<Gamma> [F_V 3, F_ReadSector 3] th k"
    using example_runs [of "[F_V 3, F_ReadSector 3]"]
      by (auto simp: disk_constants V_owner_def)
  show ?thesis
    using kernel_never_fails [OF example_running [OF k]] example_in_time [OF k] example_fr [OF k]
    by (intro exI [of _ \<Gamma>] exI [of _ k]) auto
qed

text \<open>
  C2: Locks exclude.  In every reachable state the semaphore of a lock is worth at most one, and nothing
  while the lock is held; and a thread that has passed the semaphore and is about to record itself as
  the holder finds that nobody holds the lock.
\<close>

theorem locks_exclude:
  assumes "running \<Gamma> k" "locks k x = Some lk"
  shows "\<exists>sem. semaphores k (lock_semaphore lk) = Some sem \<and> 0 \<le> sem_value sem \<and>
    sem_value sem \<le> (if lockHolder lk = None then 1 else 0) \<and>
    (\<forall>fs. fr k (currentThread k) = F_Acquired x # fs \<longrightarrow> lockHolder lk = None)"
proof -
  have inv: "Inv \<Gamma> k" by (rule running_Inv [OF assms(1)])
  note i = Inv_parts [OF inv]
  let ?s = "lock_semaphore lk"
  have c: "c_locks \<Gamma> x = Some ?s" using i(5) assms(2) by (simp add: matches_def)
  then have "?s \<in> statics \<Gamma>" by (auto simp: statics_def ran_def)
  then obtain sem where sem: "semaphores k ?s = Some sem" using i(5) by (auto simp: matches_def)
  have "0 \<le> frame_total (w_lock x ?s) k"
    unfolding frame_total_def by (rule sum_nonneg) (rule fr_w_lock [OF inv c])
  moreover have "sv k ?s + hb k x + frame_total (w_lock x ?s) k = 1" by (rule tokens_lock [OF i(7,5) c])
  ultimately have "sem_value sem \<le> (if lockHolder lk = None then 1 else 0)"
    using sem assms(2) by (simp add: sv_def hb_def split: if_splits)
  moreover have "0 \<le> sem_value sem" using sched_sem [OF i(6) sem] by simp
  moreover have "lockHolder lk = None" if fs: "fr k (currentThread k) = F_Acquired x # fs" for fs
  proof -
    obtain th where th: "threads k (currentThread k) = Some th" using inv unfolding Inv_def by blast
    then have "runs_frame \<Gamma> k th (F_Acquired x) fs" using inv fs by (simp add: runs_frame_def fr_simps)
    from Acquired_free [OF this] assms(2) show ?thesis by (metis option.inject)
  qed
  ultimately show ?thesis using sem by blast
qed

theorem locks_exclude_witness:
  "\<exists>k sem. fr k (currentThread k) = [F_ReadSector 3, F_Finish] \<and>
    locks k 8 = Some \<lparr>lockHolder = None, lock_semaphore = 7\<rparr> \<and> semaphores k 7 = Some sem \<and>
    0 \<le> sem_value sem \<and> sem_value sem \<le> 1"
proof -
  obtain \<Gamma> th k where k: "example_main \<Gamma> [F_ReadSector 3] th k"
    using example_runs [of "[F_ReadSector 3]"]
      by (auto simp: disk_constants V_owner_def)
  then have l: "locks k 8 = Some \<lparr>lockHolder = None, lock_semaphore = 7\<rparr>" by (simp add: example_main_def)
  show ?thesis using locks_exclude [OF example_running [OF k] l] example_fr [OF k] l by auto
qed

text \<open>
  C3: The scheduler loses nobody.  In every reachable state a thread is on the ready list exactly when it is
  ready, once; a thread sleeps in the queue of at most one semaphore, and then it is blocked in the \<open>P\<close>
  of that semaphore; and a blocked thread that has not finished is in the queue it waits for, so that
  the next \<open>V\<close> can wake it.
\<close>

theorem scheduler_loses_nobody:
  assumes "running \<Gamma> k"
  shows "distinct (readyList k) \<and> (\<forall>t. t \<in> set (readyList k) \<longleftrightarrow> st k t = Some READY) \<and>
    (\<forall>t s. sleeps_in k t s \<longrightarrow> st k t = Some BLOCKED \<and> waits_for (fr k t) = Some s) \<and>
    (\<forall>t. st k t = Some BLOCKED \<longrightarrow> finished (fr k t) \<or> (\<exists>s. waits_for (fr k t) = Some s \<and> sleeps_in k t s)) \<and>
    (\<forall>t. st k t = Some RUNNING \<longrightarrow> t = currentThread k)"
proof -
  have inv: "Inv \<Gamma> k" by (rule running_Inv [OF assms])
  note sched = Inv_parts(6) [OF inv]
  have "t = currentThread k" if run: "st k t = Some RUNNING" for t
  proof (rule ccontr)
    assume t: "t \<noteq> currentThread k"
    obtain th where th: "threads k t = Some th" "status th = RUNNING" using run st_Some by blast
    from Inv_parts(8) [OF inv th(1)] show False
    proof (cases rule: thread_ok_cases)
      case ordinary
      then show ?thesis using Inv_ordinary(5) [OF inv th(1)] t by simp
    qed (use Inv_parts(8) [OF inv th(1)] t th(2) in \<open>auto simp: thread_ok_simps split: if_splits\<close>)
  qed
  then show ?thesis using sched_ready [OF sched] sched_sleeps [OF sched] sched_blocked [OF sched] by blast
qed

theorem scheduler_loses_nobody_witness:
  "\<exists>k. fr k (currentThread k) = [F_ReadSector 3, F_Finish] \<and> distinct (readyList k) \<and>
    (\<forall>t. t \<in> set (readyList k) \<longleftrightarrow> st k t = Some READY)"
proof -
  obtain \<Gamma> th k where k: "example_main \<Gamma> [F_ReadSector 3] th k"
    using example_runs [of "[F_ReadSector 3]"]
      by (auto simp: disk_constants V_owner_def)
  show ?thesis using scheduler_loses_nobody [OF example_running [OF k]] example_fr [OF k] by auto
qed

text \<open>
  C4: \<open>Semaphore::V\<close> wakes the longest waiter.  It adds one to the value, takes the first thread of the queue,
  if there is one, and puts it at the end of the ready list; nobody else changes status.
\<close>

theorem V_wakes_longest_waiter:
  assumes "running \<Gamma> k" "fr k (currentThread k) = F_V s # fs"
  shows "\<exists>sem k'. kernel_step k (Inr k') \<and> semaphores k s = Some sem \<and>
    semaphores k' = (semaphores k)(s \<mapsto> \<lparr>sem_value = sem_value sem + 1, queue = tl (queue sem)\<rparr>) \<and>
    readyList k' = readyList k @ take 1 (queue sem) \<and>
    (\<forall>t. st k' t = (if queue sem \<noteq> [] \<and> t = hd (queue sem) then Some READY else st k t))"
proof -
  obtain th where th: "threads k (currentThread k) = Some th" "frames th = F_V s # fs"
    and f: "runs_frame \<Gamma> k th (F_V s) fs"
    by (rule running_step [OF assms])
  have o: "ordinary (F_V s # fs)" by simp
  obtain sem where sem: "semaphores k s = Some sem" by (rule Inv_semaphore [OF f, of s]) simp_all
  let ?k1 = "popped (k\<lparr>level := IntOff\<rparr>) th fs" and ?c = "currentThread k"
  let ?k2 = "V_effect s sem ?k1"
  let ?k = "put_thread ?c (th\<lparr>frames := F_SetLevel (level k) # fs\<rparr>) ?k2"
  have s1: "sched_ok ?k1" and s0: "sched_ok (popped k th fs)"
    using popped_sched [OF f o] popped_sched [OF f o, of "level k"] by simp_all
  have sem1: "semaphores ?k1 s = Some sem" using sem by simp
  have "woken (threads ?k1 ?c) (threads ?k2 ?c)" by (rule V_effect_threads [OF s1 sem1])
  then have th2: "threads ?k2 ?c = Some (th\<lparr>frames := fs\<rparr>)"
    using runs_frame_ordinary(2) [OF f o] by (simp add: woken_def)
  have "exec (F_V s) (popped k th fs) = Inr ?k"
    using th2 Semaphore_V_ok [OF s0, of s sem] sem by (simp add: call_def)
  then have "kernel_step k (Inr ?k)"
    using kernel_step [OF running_live [OF assms(1)] th] by simp
  moreover have "st ?k1 = st k" using th(1) by (simp add: st_def fun_eq_iff)
  moreover have "st ?k = st ?k2" using th2 by (simp add: st_def fun_eq_iff)
  ultimately show ?thesis
    using sem V_effect_status [OF s1 sem1] V_effect_semaphores [of s sem ?k1]
    by (intro exI [of _ sem] exI [of _ ?k], cases sem) simp
qed

theorem V_wakes_longest_waiter_witness:
  "\<exists>k k'. fr k (currentThread k) = [F_V 3, F_Finish] \<and> kernel_step k (Inr k') \<and>
    semaphores k 3 = Some \<lparr>sem_value = 0, queue = []\<rparr> \<and> semaphores k' 3 = Some \<lparr>sem_value = 1, queue = []\<rparr>"
proof -
  obtain \<Gamma> th k where k: "example_main \<Gamma> [F_V 3] th k"
    using example_runs [of "[F_V 3]"]
      by (auto simp: V_owner_def)
  have "semaphores k 3 = Some \<lparr>sem_value = 0, queue = []\<rparr>" using k by (simp add: example_main_def)
  then show ?thesis
    using V_wakes_longest_waiter [OF example_running [OF k], of 3 "[F_Finish]"] example_fr [OF k] by fastforce
qed

text \<open>
  C5: \<open>Thread::Yield\<close> is round robin.  The thread at the head of the ready list gets the processor, and the
  thread that yields goes to the end of the list, to resume after the switch with its interrupt level.
\<close>

theorem Yield_round_robin:
  assumes "running \<Gamma> k" "fr k (currentThread k) = F_Yield # fs" "readyList k = t # l"
  shows "\<exists>k'. kernel_step k (Inr k') \<and> currentThread k' = t \<and> readyList k' = l @ [currentThread k] \<and>
    st k' t = Some RUNNING \<and> st k' (currentThread k) = Some READY \<and>
    fr k' (currentThread k) = F_Run_back # F_SetLevel (level k) # fs"
proof -
  let ?c = "currentThread k"
  obtain th where th: "threads k ?c = Some th" "frames th = F_Yield # fs" and f: "runs_frame \<Gamma> k th F_Yield fs"
    by (rule running_step [OF assms(1,2)])
  note y = Yield_leaving [OF f assms(3)] and sched = Inv_parts(6) [OF running_Inv [OF assms(1)]]
  have ne: "t \<noteq> ?c"
    using sched_ready(1) [OF sched, of t] assms(3) runs_frame_ordinary(2) [OF f] th by (auto simp: st_def)
  obtain th' k' where k': "exec F_Yield (popped k th fs) = Inr k'"
    and sw: "switched (put_thread ?c (th\<lparr>frames := F_SetLevel (level k) # fs, status := READY\<rparr>)
        (k\<lparr>level := IntOff, readyList := readyList k @ [?c]\<rparr>)) False t th' (l @ [?c]) k'"
    and th': "frames th' = F_SetLevel (level k) # fs" "status th' = READY"
    by (rule Run_switches [OF y(1,2), folded y(3)]) simp
  have "kernel_step k (Inr k')"
    using kernel_step [OF running_live [OF assms(1)] th] k' by simp
  with sw ne th' show ?thesis
    unfolding switched_def by (intro exI [of _ k']) (auto simp: st_def fr_def)
qed

theorem Yield_round_robin_witness:
  "\<exists>k k'. fr k 0 = [F_Yield, F_Finish] \<and> readyList k = [14] \<and> kernel_step k (Inr k') \<and>
     currentThread k' = 14 \<and> readyList k' = [0]"
proof -
  let ?g = "replicate NumTotalRegs 0"
  obtain \<Gamma> th k where k: "example_main \<Gamma> [F_Fork ?g [F_GetChar], F_Yield] th k"
    using example_runs [of "[F_Fork ?g [F_GetChar], F_Yield]"] by auto
  note r = example_running [OF k] and m = k [unfolded example_main_def]
  let ?k1 = "put_thread 0 (th\<lparr>frames := [F_SetLevel IntOff, F_Yield, F_Finish]\<rparr>)
    (put_thread 14 (StackAllocate [F_GetChar] (Thread_Thread ?g)\<lparr>status := READY\<rparr>)
      (k\<lparr>next_object := 15, readyList := [14]\<rparr>))"
  let ?k2 = "(put_thread 0 (th\<lparr>frames := [F_Yield, F_Finish]\<rparr>) ?k1)\<lparr>level := IntOff\<rparr>"
  have e: "exec (F_Fork ?g [F_GetChar]) (popped k th [F_Yield, F_Finish]) = Inr ?k1"
    using m by (simp add: new_Thread_def Fork_def SetLevel_def ChangeLevel_def ReadyToRun_def setStatus_def seq_append_def
        call_def put_thread_def Let_def fun_upd_twist)
  have r1: "running \<Gamma> ?k1"
    by (rule running_exec [OF r _ _ e]) (use m in \<open>simp_all add: put_thread_def\<close>)
  have "running \<Gamma> ?k2"
    by (rule running_exec [OF r1, where f = "F_SetLevel IntOff" and fs = "[F_Yield, F_Finish]" and
          th = "th\<lparr>frames := [F_SetLevel IntOff, F_Yield, F_Finish]\<rparr>"])
      (use m in \<open>simp_all add: SetLevel_def ChangeLevel_def put_thread_def\<close>)
  moreover have k2: "fr ?k2 0 = [F_Yield, F_Finish]" "readyList ?k2 = [14]" "currentThread ?k2 = 0"
    using m by (simp_all add: fr_def)
  ultimately obtain k' where "kernel_step ?k2 (Inr k')" "currentThread k' = 14" "readyList k' = [0]"
    using Yield_round_robin [of \<Gamma> ?k2 "[F_Finish]" 14 "[]"] by auto
  with k2 show ?thesis by blast
qed

text \<open>
  Devices are idle when they are asked.  A thread that is about to request a transfer from the disk finds no
  request under way, and one that is about to write to the display finds no character under way, so the
  assertions of \<open>Disk::ReadRequest\<close>, \<open>Disk::WriteRequest\<close> and \<open>ConsoleOutput::PutChar\<close> hold.
\<close>

theorem requests_find_idle_device:
  assumes "running \<Gamma> k"
    and "fr k (currentThread k) = f # fs"
    and "f = F_ReadRequest n \<or> f = F_WriteRequest n data \<or> f = F_ConsolePutChar ch"
  shows "if f = F_ConsolePutChar ch then \<not> putBusy (consoleOutput k) else \<not> active (disk k) \<and> 0 \<le> n \<and> n < int NumSectors"
proof -
  obtain th where f: "runs_frame \<Gamma> k th f fs" by (rule running_step [OF assms(1,2)])
  have o: "ordinary (f # fs)" using assms(3) by auto
  note t = runs_frame_ordinary(1) [OF f o]
  let ?d = "if f = F_ConsolePutChar ch then ConsoleOutputDevice else DiskDevice"
  obtain gs where gs: "fs = F_P (c_dsem \<Gamma> ?d) # gs" "c_dlock \<Gamma> ?d \<in> held k (currentThread k)"
    and fs: "typed \<Gamma> (level k) (held k (currentThread k)) fs" and n: "f \<noteq> F_ConsolePutChar ch \<Longrightarrow> 0 \<le> n \<and> n < int NumSectors"
    using t assms(3) by auto
  have "db k ?d = 0"
    by (rule request_idle [OF f _ _ _ gs(1) fs gs(2)]) (use assms(3) in \<open>auto simp: busy_devices_def\<close>)
  then show ?thesis using n by (auto simp: dev_busy_def split: if_splits)
qed

theorem requests_find_idle_device_witness:
  "\<exists>k. fr k (currentThread k) = [F_ReadRequest 3, F_P 9, F_Release 8, F_Finish] \<and> \<not> active (disk k)"
proof -
  obtain \<Gamma> th k where k: "example_main \<Gamma> [F_ReadSector 3] th k"
    using example_runs [of "[F_ReadSector 3]"] by (auto simp: disk_constants)
  note m = k [unfolded example_main_def]
  let ?g = "[F_ReadRequest 3, F_P 9, F_Release 8, F_Finish]"
  let ?th = "\<lambda>fs. th\<lparr>frames := fs @ ?g\<rparr>"
  let ?k = "\<lambda>fs. put_thread 0 (?th fs) (k\<lparr>level := IntOff\<rparr>)"
  let ?s = "\<lambda>k. put_semaphore 7 \<lparr>sem_value = 0, queue = []\<rparr> k"
  have step: "running \<Gamma> k'" if "running \<Gamma> k1" "threads k1 0 = Some (?th (f # fs))" "currentThread k1 = 0"
    "exec f (put_thread 0 (?th fs) k1) = Inr k'" "\<not> halted k'" for k1 f fs k'
    using running_exec [OF that(1), of "?th (f # fs)" f "fs @ ?g" k'] that by simp
  have "running \<Gamma> (?k [F_Acquire 8])"
    by (rule running_exec [OF example_running [OF k], where th = th and f = "F_ReadSector 3" and fs = "[F_Finish]"])
      (use m in \<open>simp_all add: ReadSector_def call_def put_thread_def\<close>)
  then have "running \<Gamma> (?k [F_P 7, F_Acquired 8])"
    by (rule step [where f = "F_Acquire 8" and fs = "[]"]) (use m in \<open>simp_all add: Acquire_def call_def put_thread_def\<close>)
  then have "running \<Gamma> (?k [F_P_loop 7, F_SetLevel IntOff, F_Acquired 8])"
    by (rule step [where f = "F_P 7" and fs = "[F_Acquired 8]"])
      (use m in \<open>simp_all add: Semaphore_P_def SetLevel_def ChangeLevel_def call_def put_thread_def\<close>)
  then have "running \<Gamma> (?s (?k [F_SetLevel IntOff, F_Acquired 8]))"
    by (rule step [where f = "F_P_loop 7" and fs = "[F_SetLevel IntOff, F_Acquired 8]"])
      (use m in \<open>simp_all add: P_loop_def put_thread_def put_semaphore_def\<close>)
  then have "running \<Gamma> (?s (?k [F_Acquired 8]))"
    by (rule step [where f = "F_SetLevel IntOff" and fs = "[F_Acquired 8]"])
      (use m in \<open>simp_all add: SetLevel_def ChangeLevel_def put_thread_def put_semaphore_def\<close>)
  then have run: "running \<Gamma> ((?s (?k []))\<lparr>locks := (locks k)(8 \<mapsto> \<lparr>lockHolder = Some 0, lock_semaphore = 7\<rparr>)\<rparr>)"
    by (rule step [where f = "F_Acquired 8" and fs = "[]"])
      (use m in \<open>simp_all add: Acquired_def put_thread_def put_semaphore_def\<close>)
  have fr: "fr ((?s (?k []))\<lparr>locks := (locks k)(8 \<mapsto> \<lparr>lockHolder = Some 0, lock_semaphore = 7\<rparr>)\<rparr>)
      (currentThread ((?s (?k []))\<lparr>locks := (locks k)(8 \<mapsto> \<lparr>lockHolder = Some 0, lock_semaphore = 7\<rparr>)\<rparr>)) = ?g"
    using m by (simp add: fr_def put_semaphore_def)
  have "\<not> active (disk ((?s (?k []))\<lparr>locks := (locks k)(8 \<mapsto> \<lparr>lockHolder = Some 0, lock_semaphore = 7\<rparr>)\<rparr>))"
    using requests_find_idle_device [OF run fr, of 3 _ 0] by simp
  with fr show ?thesis by blast
qed

text \<open>
  C6: \<open>OneTick\<close> serves the interrupts.  While the clock lasts, it moves the clock by the tick of the mode, and
  then runs the handlers of exactly the interrupts that are due at the new time, each once, in the order of the
  queue (\<open>fire\<close> takes one off the queue and calls it; \<open>advanced\<close> is the state they start in, with \<open>inHandler\<close> set
  and the delayed load of the processor done).  It comes back with interrupts on and nothing due,
  and of the threads it changes nothing except that the handlers may wake some that were blocked.
\<close>

theorem OneTick_serves_interrupts:
  assumes "in_time \<Gamma> k"
  shows "\<exists>k'. OneTick_handlers CallBack k = Inr k' \<and> now k' = now k + tick (mstatus k) \<and>
    (if due (ticked k) = [] then k' = ChangeLevel IntOn (ticked k)
     else \<exists>h. foldM (fire CallBack) (due (ticked k)) (advanced False (ticked k)) = Inr h \<and>
            k' = ChangeLevel IntOn (h\<lparr>inHandler := False\<rparr>)) \<and>
    due k' = [] \<and> currentThread k' = currentThread k \<and> locks k' = locks k \<and>
    (\<forall>t. woken (threads k t) (threads k' t))"
proof -
  have "Inv \<Gamma> (k\<lparr>level := level k\<rparr>)" using running_Inv [OF in_time_running [OF assms]] by simp
  then have i: "interruptible \<Gamma> k" by (rule Inv_interruptible)
  note t = in_time_timely [OF assms] and exact = OneTick_handlers_exact [OF i in_time_timely [OF assms]]
  obtain k' where k': "OneTick_handlers CallBack k = Inr k'" using OneTick_handlers_timely [OF i t] by blast
  have "served \<Gamma> k k'" "now k' = s32 (now k + tick (mstatus k))" "due k' = []"
    by (rule OneTick_handlers_kernel [OF i]; use k' in simp)+
  moreover have "s32 (now k + tick (mstatus k)) = now k + tick (mstatus k)"
    using roomy_when [OF timely_roomy [OF t]] tick_pos [of "mstatus k"] by (simp add: horizon_def)
  moreover have "if due (ticked k) = [] then k' = ChangeLevel IntOn (ticked k)
     else \<exists>h. foldM (fire CallBack) (due (ticked k)) (advanced False (ticked k)) = Inr h \<and>
            k' = ChangeLevel IntOn (h\<lparr>inHandler := False\<rparr>)"
    using exact k' by auto
  ultimately show ?thesis using k' unfolding served_def disturbed_def by simp
qed

text \<open>An example in which interrupts are due: the clock of a new kernel is moved to the horizon.\<close>

lemma started_stats:
  assumes "started \<Gamma> k" "hardware_ok (k\<lparr>stats := t\<rparr>)"
  shows "started \<Gamma> (k\<lparr>stats := t\<rparr>)"
proof -
  have "devices_ok (k\<lparr>stats := t\<rparr>)"
    using assms by (simp add: started_def devices_ok_def disk_ok_def keyboard_ok_def network_ok_def)
  moreover have "matches \<Gamma> (k\<lparr>stats := t\<rparr>)" using assms(1) by (simp add: started_def matches_def)
  moreover have "sv (k\<lparr>stats := t\<rparr>) = sv k" by (simp add: sv_def fun_eq_iff)
  ultimately show ?thesis using assms(1) unfolding started_def by simp
qed

theorem OneTick_serves_interrupts_witness:
  "\<exists>k k' h. fr k 0 = [F_SetLevel IntOn, F_Finish] \<and> due (ticked k) \<noteq> [] \<and>
    foldM (fire CallBack) (due (ticked k)) (advanced False (ticked k)) = Inr h \<and>
    OneTick_handlers CallBack k = Inr k' \<and> k' = ChangeLevel IntOn (h\<lparr>inHandler := False\<rparr>) \<and> due k' = []"
proof -
  obtain k where i: "initialized [] k" by (rule example_kernel)
  let ?G = "kernel_ctx {} k" and ?t = "(stats k)\<lparr>totalTicks := horizon, idleTicks := horizon - systemTicks (stats k) - userTicks (stats k)\<rparr>"
  let ?k = "k\<lparr>stats := ?t\<rparr>"
  have near: "near k" "now k = 0" "0 < waiting TimerDevice k" using i by (simp_all add: initialized_def quiet_hardware_def)
  have "hardware_ok k" using i by (simp add: initialized_def quiet_hardware_def devices_ok_def)
  then have "hardware_ok ?k" by (simp add: hardware_ok_def)
  then have "boots ?G [F_SetLevel IntOn] ?k"
    using started_stats [OF initialized_started(1) [OF i]] initialized_started(2) [OF i]
    by (auto simp: boots_def main_frames_def fr_def)
  moreover have t: "timely ?k"
    using near by (auto simp: timely_def near_def clock_limit_def horizon_def intro: order_trans)
  ultimately have it: "in_time ?G ?k" by (rule in_time.start)
  have "pending k \<noteq> []" using near(3) by (auto simp: waiting_def)
  then obtain p q where pq: "pending k = p # q" by (cases "pending k") auto
  then have "pi_when p \<le> horizon" using near(1,2) by (simp add: near_def)
  moreover have "s32 (horizon + tick (mstatus ?k)) = horizon + tick (mstatus ?k)"
    using roomy_when [OF timely_roomy [OF t], of "tick (mstatus ?k)"] tick_pos [of "mstatus ?k"] by (simp add: horizon_def)
  then have "now (ticked ?k) = horizon + tick (mstatus ?k)"
    by (simp add: ticked_def ChangeLevel_def advance_def tick_def split: if_splits)
  ultimately have due: "due (ticked ?k) \<noteq> []"
    using pq tick_pos [of "mstatus ?k"] by (simp add: due_def is_due_def)
  have "fr ?k 0 = [F_SetLevel IntOn, F_Finish]"
    using initialized_started(2) [OF i] by (simp add: main_frames_def fr_def)
  with due OneTick_serves_interrupts [OF it] show ?thesis by auto
qed

end
