(* ===== verification/Hash_Table.thy ===== *)
theory Hash_Table
  imports Linked_List
begin

text \<open>
  The self-expanding hash table of \<open>lib/hash.h\<close> and \<open>lib/hash.cc\<close>, for any key function and any
  hash function.  A bucket is the sequence of items that its \<open>List\<close> stands for; the operations on
  it are the sequence operations that \<open>Linked_List\<close> shows the pointer lists to refine.  A table is
  shown to behave as a finite map from keys to items, whatever it is asked and however often it
  grows.
\<close>

section \<open>The code\<close>

definition InitialBuckets :: nat where "InitialBuckets = 4"
definition ResizeRatio :: nat where "ResizeRatio = 3"
definition IncreaseSizeBy :: nat where "IncreaseSizeBy = 4"

lemmas hash_constants = InitialBuckets_def ResizeRatio_def IncreaseSizeBy_def

record ('k, 'a) hash_table =
  buckets :: "'a list list"
  numBuckets :: nat
  numItems :: int
  getKey :: "'a \<Rightarrow> 'k"
  hash :: "'k \<Rightarrow> u32"

definition InitBuckets :: "nat \<Rightarrow> ('k, 'a) hash_table \<Rightarrow> ('k, 'a) hash_table" where
  "InitBuckets sz t = t\<lparr>numBuckets := sz, buckets := replicate sz []\<rparr>"

definition HashTable_HashTable :: "('a \<Rightarrow> 'k) \<Rightarrow> ('k \<Rightarrow> u32) \<Rightarrow> ('k, 'a) hash_table" where
  "HashTable_HashTable get hFunc =
     InitBuckets InitialBuckets \<lparr>buckets = [], numBuckets = 0, numItems = 0, getKey = get, hash = hFunc\<rparr>"

definition HashTable_IsEmpty :: "('k, 'a) hash_table \<Rightarrow> bool" where
  "HashTable_IsEmpty t \<longleftrightarrow> numItems t = 0"

definition HashValue :: "'k \<Rightarrow> ('k, 'a) hash_table \<Rightarrow> nat res" where
  "HashValue key t =
     (if numBuckets t = 0 then Inl ArithmeticTrap
      else
        let result = unat (hash t key) mod numBuckets t in
        bindr (ASSERT (result < numBuckets t)) (\<lambda>_. Inr result))"

primrec FindInBucket_loop :: "('a \<Rightarrow> 'k) \<Rightarrow> 'k \<Rightarrow> 'a list \<Rightarrow> 'a option" where
  "FindInBucket_loop get key [] = None"
| "FindInBucket_loop get key (x # xs) = (if key = get x then Some x else FindInBucket_loop get key xs)"

definition FindInBucket :: "nat \<Rightarrow> 'k \<Rightarrow> ('k, 'a) hash_table \<Rightarrow> 'a option res" where
  "FindInBucket bucket key t =
     bindr (aget (buckets t) (int bucket)) (\<lambda>xs. Inr (FindInBucket_loop (getKey t) key xs))"

definition HashTable_Find :: "'k \<Rightarrow> ('k, 'a) hash_table \<Rightarrow> 'a option res" where
  "HashTable_Find key t = bindr (HashValue key t) (\<lambda>bucket. FindInBucket bucket key t)"

definition IsInTable :: "'k \<Rightarrow> ('k, 'a) hash_table \<Rightarrow> bool res" where
  "IsInTable key t = bindr (HashTable_Find key t) (\<lambda>x. Inr (x \<noteq> None))"

definition bucket_SanityCheck :: "('k, 'a) hash_table \<Rightarrow> nat \<Rightarrow> int \<Rightarrow> int res" where
  "bucket_SanityCheck t i numFound =
     bindr (aget (buckets t) (int i)) (\<lambda>xs.
     bindr (foldM (\<lambda>x _. bindr (HashValue (getKey t x) t) (\<lambda>b. ASSERT (i = b))) xs ()) (\<lambda>_.
     Inr (numFound + int (length xs))))"

definition HashTable_SanityCheck :: "('k, 'a) hash_table \<Rightarrow> unit res" where
  "HashTable_SanityCheck t =
     bindr (foldM (bucket_SanityCheck t) [0..<numBuckets t] 0) (\<lambda>numFound.
     ASSERT (numItems t = numFound))"

text \<open>\<open>buckets[HashValue(getKey(item))]->Append(item)\<close>\<close>

definition put_item :: "'a \<Rightarrow> ('k, 'a) hash_table \<Rightarrow> ('k, 'a) hash_table res" where
  "put_item item t =
     bindr (HashValue (getKey t item) t) (\<lambda>b.
     bindr (aget (buckets t) (int b)) (\<lambda>xs.
     bindr (seq_append xs item) (\<lambda>xs.
     bindr (aset (buckets t) (int b) xs) (\<lambda>bs. Inr (t\<lparr>buckets := bs\<rparr>)))))"

text \<open>\<open>while (!oldTable[i]->IsEmpty()) \<dots>\<close>: the items leave the old bucket from the front.\<close>

primrec move_bucket :: "'a list \<Rightarrow> ('k, 'a) hash_table \<Rightarrow> ('k, 'a) hash_table res" where
  "move_bucket [] t = Inr t"
| "move_bucket (item # xs) t = bindr (put_item item t) (move_bucket xs)"

definition ReHash :: "('k, 'a) hash_table \<Rightarrow> ('k, 'a) hash_table res" where
  "ReHash t =
     (let oldTable = buckets t in
      bindr (HashTable_SanityCheck t) (\<lambda>_.
      bindr (foldM move_bucket oldTable (InitBuckets (numBuckets t * IncreaseSizeBy) t)) (\<lambda>t.
      bindr (HashTable_SanityCheck t) (\<lambda>_. Inr t))))"

definition HashTable_Insert :: "'a \<Rightarrow> ('k, 'a) hash_table \<Rightarrow> ('k, 'a) hash_table res" where
  "HashTable_Insert item t =
     (let key = getKey t item in
      bindr (IsInTable key t) (\<lambda>b. bindr (ASSERT (\<not> b)) (\<lambda>_.
      bindr (if numItems t sdiv int (numBuckets t) \<ge> int ResizeRatio then ReHash t else Inr t) (\<lambda>t.
      bindr (put_item item t) (\<lambda>t.
      let t = t\<lparr>numItems := numItems t + 1\<rparr> in
      bindr (IsInTable key t) (\<lambda>b. bindr (ASSERT b) (\<lambda>_. Inr t)))))))"

definition HashTable_Remove :: "'k \<Rightarrow> ('k, 'a) hash_table \<Rightarrow> ('a \<times> ('k, 'a) hash_table) res" where
  "HashTable_Remove key t =
     bindr (HashValue key t) (\<lambda>bucket.
     bindr (FindInBucket bucket key t) (\<lambda>found.
     case found of
       None \<Rightarrow> Inl AssertionFailed
     | Some item \<Rightarrow>
         bindr (aget (buckets t) (int bucket)) (\<lambda>xs.
         bindr (seq_remove xs item) (\<lambda>xs.
         bindr (aset (buckets t) (int bucket) xs) (\<lambda>bs.
         let t = t\<lparr>buckets := bs, numItems := numItems t - 1\<rparr> in
         bindr (IsInTable key t) (\<lambda>b. bindr (ASSERT (\<not> b)) (\<lambda>_. Inr (item, t))))))))"

definition HashTable_Apply :: "('a \<Rightarrow> 's \<Rightarrow> 's res) \<Rightarrow> ('k, 'a) hash_table \<Rightarrow> 's \<Rightarrow> 's res" where
  "HashTable_Apply func t s =
     foldM (\<lambda>i s. bindr (aget (buckets t) (int i)) (\<lambda>xs. foldM func xs s)) [0..<numBuckets t] s"

text \<open>The destructor: the table has to be empty.\<close>

definition delete_HashTable :: "('k, 'a) hash_table \<Rightarrow> unit res" where
  "delete_HashTable t = ASSERT (HashTable_IsEmpty t)"

function FindNextFullBucket :: "nat \<Rightarrow> ('k, 'a) hash_table \<Rightarrow> nat res" where
  "FindNextFullBucket bucket t =
     (if bucket < numBuckets t then
        bindr (aget (buckets t) (int bucket)) (\<lambda>xs.
        if xs \<noteq> [] then Inr bucket else FindNextFullBucket (bucket + 1) t)
      else Inr bucket)"
  by pat_completeness auto
termination by (relation "measure (\<lambda>(b, t). numBuckets t - b)") auto

declare FindNextFullBucket.simps [simp del]

text \<open>An iterator: the bucket it is in, and the items of the bucket that are still ahead, the current one first.\<close>

type_synonym 'a hash_iterator = "nat \<times> 'a list option"

definition iterator_at :: "nat \<Rightarrow> ('k, 'a) hash_table \<Rightarrow> 'a hash_iterator res" where
  "iterator_at bucket t =
     bindr (FindNextFullBucket bucket t) (\<lambda>bucket.
     if bucket < numBuckets t then bindr (aget (buckets t) (int bucket)) (\<lambda>xs. Inr (bucket, Some xs))
     else Inr (bucket, None))"

definition HashIterator_HashIterator :: "('k, 'a) hash_table \<Rightarrow> 'a hash_iterator res" where
  "HashIterator_HashIterator t = iterator_at 0 t"

definition HashIterator_IsDone :: "('k, 'a) hash_table \<Rightarrow> 'a hash_iterator \<Rightarrow> bool" where
  "HashIterator_IsDone t it \<longleftrightarrow> fst it = numBuckets t"

definition HashIterator_Item :: "('k, 'a) hash_table \<Rightarrow> 'a hash_iterator \<Rightarrow> 'a res" where
  "HashIterator_Item t it =
     bindr (ASSERT (\<not> HashIterator_IsDone t it)) (\<lambda>_.
     case snd it of
       None \<Rightarrow> Inl NullDereference
     | Some xs \<Rightarrow> (case xs of [] \<Rightarrow> Inl AssertionFailed | x # _ \<Rightarrow> Inr x))"

definition HashIterator_Next :: "('k, 'a) hash_table \<Rightarrow> 'a hash_iterator \<Rightarrow> 'a hash_iterator res" where
  "HashIterator_Next t it =
     (case snd it of
        None \<Rightarrow> Inl NullDereference
      | Some xs \<Rightarrow>
          (case xs of
             [] \<Rightarrow> Inl NullDereference
           | _ # xs \<Rightarrow> if xs = [] then iterator_at (fst it + 1) t else Inr (fst it, Some xs)))"

text \<open>\<open>for (; !iter->IsDone(); iter->Next())\<close>, which visits the current item in each round.\<close>

primrec visit_all :: "nat \<Rightarrow> ('k, 'a) hash_table \<Rightarrow> 'a hash_iterator \<Rightarrow> 'a list res" where
  "visit_all 0 t it = (if HashIterator_IsDone t it then Inr [] else Inl Diverges)"
| "visit_all (Suc n) t it =
     (if HashIterator_IsDone t it then Inr []
      else
        bindr (HashIterator_Item t it) (\<lambda>x.
        bindr (HashIterator_Next t it) (\<lambda>it.
        bindr (visit_all n t it) (\<lambda>xs. Inr (x # xs)))))"

definition HashTable_SelfTest :: "'a list \<Rightarrow> ('k, 'a) hash_table \<Rightarrow> ('k, 'a) hash_table res" where
  "HashTable_SelfTest p t =
     bindr (HashIterator_HashIterator t) (\<lambda>iterator.
     bindr (HashTable_SanityCheck t) (\<lambda>_.
     bindr (ASSERT (HashTable_IsEmpty t)) (\<lambda>_.
     bindr (ASSERT (HashIterator_IsDone t iterator)) (\<lambda>_.
     bindr (foldM (\<lambda>x t.
        bindr (HashTable_Insert x t) (\<lambda>t.
        bindr (IsInTable (getKey t x) t) (\<lambda>b. bindr (ASSERT b) (\<lambda>_.
        bindr (ASSERT (\<not> HashTable_IsEmpty t)) (\<lambda>_. Inr t))))) p t) (\<lambda>t.
     bindr (foldM (\<lambda>x t.
        bindr (HashTable_Remove (getKey t x) t) (\<lambda>(y, t).
        bindr (ASSERT (y = x)) (\<lambda>_. Inr t))) p t) (\<lambda>t.
     bindr (ASSERT (HashTable_IsEmpty t)) (\<lambda>_.
     bindr (HashTable_SanityCheck t) (\<lambda>_. Inr t))))))))"

section \<open>Legal tables\<close>

definition hash_items :: "('k, 'a) hash_table \<Rightarrow> 'a list" where
  "hash_items t = concat (buckets t)"

definition bucket_of :: "('k, 'a) hash_table \<Rightarrow> 'k \<Rightarrow> nat" where
  "bucket_of t key = unat (hash t key) mod numBuckets t"

definition placed :: "('k, 'a) hash_table \<Rightarrow> bool" where
  "placed t \<longleftrightarrow> 0 < numBuckets t \<and> length (buckets t) = numBuckets t \<and> distinct (map (getKey t) (hash_items t)) \<and>
     (\<forall>i < numBuckets t. \<forall>x \<in> set (buckets t ! i). bucket_of t (getKey t x) = i)"

definition hash_ok :: "('k, 'a) hash_table \<Rightarrow> bool" where
  "hash_ok t \<longleftrightarrow> placed t \<and> numItems t = int (length (hash_items t)) \<and>
     length (hash_items t) \<le> ResizeRatio * numBuckets t"

lemma HashValue_ok: "0 < numBuckets t \<Longrightarrow> HashValue key t = Inr (bucket_of t key) \<and> bucket_of t key < numBuckets t"
  by (simp add: HashValue_def bucket_of_def Let_def)

lemma mset_concat_update:
  assumes "i < length xs"
  shows "mset (concat (xs[i := ys])) + mset (xs ! i) = mset (concat xs) + mset ys"
proof -
  have "xs = take i xs @ xs ! i # drop (Suc i) xs" using assms by (simp add: id_take_nth_drop)
  then have "mset (concat xs) = mset (concat (take i xs)) + mset (xs ! i) + mset (concat (drop (Suc i) xs))"
    by (metis concat.simps(2) concat_append mset_append add.assoc)
  then show ?thesis using assms by (simp add: upd_conv_take_nth_drop)
qed

lemma placed_bucket:
  assumes "placed t" "x \<in> set (hash_items t)"
  shows "x \<in> set (buckets t ! bucket_of t (getKey t x))" "bucket_of t (getKey t x) < numBuckets t"
proof -
  from assms(2) obtain bs where "bs \<in> set (buckets t)" "x \<in> set bs" by (auto simp: hash_items_def)
  then obtain i where "i < length (buckets t)" "x \<in> set (buckets t ! i)" by (metis in_set_conv_nth)
  then show "x \<in> set (buckets t ! bucket_of t (getKey t x))" "bucket_of t (getKey t x) < numBuckets t"
    using assms(1) unfolding placed_def by auto
qed

lemma bucket_items: "placed t \<Longrightarrow> i < numBuckets t \<Longrightarrow> x \<in> set (buckets t ! i) \<Longrightarrow> x \<in> set (hash_items t)"
  unfolding placed_def hash_items_def by (metis in_set_conv_nth UN_I set_concat nth_mem)

lemma placed_key: "placed t \<Longrightarrow> x \<in> set (hash_items t) \<Longrightarrow> y \<in> set (hash_items t) \<Longrightarrow> getKey t x = getKey t y \<Longrightarrow> x = y"
  unfolding placed_def distinct_map inj_on_def by blast

lemma FindInBucket_loop_Some: "FindInBucket_loop get key xs = Some x \<Longrightarrow> x \<in> set xs \<and> get x = key"
  by (induction xs) (auto split: if_splits)

lemma FindInBucket_loop_None: "FindInBucket_loop get key xs = None \<longleftrightarrow> (\<forall>x \<in> set xs. get x \<noteq> key)"
  by (induction xs) auto

text \<open>The item that the table has for a key.\<close>

definition hash_lookup :: "('k, 'a) hash_table \<Rightarrow> 'k \<Rightarrow> 'a option" where
  "hash_lookup t key = FindInBucket_loop (getKey t) key (hash_items t)"

lemma hash_lookup_Some:
  assumes t: "placed t"
  shows "hash_lookup t key = Some x \<longleftrightarrow> x \<in> set (hash_items t) \<and> getKey t x = key"
proof
  assume "hash_lookup t key = Some x"
  then show "x \<in> set (hash_items t) \<and> getKey t x = key" unfolding hash_lookup_def by (rule FindInBucket_loop_Some)
next
  assume x: "x \<in> set (hash_items t) \<and> getKey t x = key"
  then obtain y where y: "hash_lookup t key = Some y"
    unfolding hash_lookup_def using FindInBucket_loop_None by (metis option.exhaust)
  then have "y \<in> set (hash_items t) \<and> getKey t y = key" unfolding hash_lookup_def by (rule FindInBucket_loop_Some)
  with x have "y = x" using placed_key [OF t] by metis
  with y show "hash_lookup t key = Some x" by simp
qed

lemma hash_lookup_None: "hash_lookup t key = None \<longleftrightarrow> key \<notin> getKey t ` set (hash_items t)"
  by (auto simp: hash_lookup_def FindInBucket_loop_None)

lemma bucket_lookup:
  assumes "placed t"
  shows "FindInBucket (bucket_of t key) key t = Inr (hash_lookup t key)"
proof -
  let ?b = "bucket_of t key"
  have b: "?b < length (buckets t)" using assms HashValue_ok [of t key] by (auto simp: placed_def)
  have "FindInBucket_loop (getKey t) key (buckets t ! ?b) = hash_lookup t key"
  proof (cases "hash_lookup t key")
    case None
    then have "FindInBucket_loop (getKey t) key (buckets t ! ?b) = None"
      using bucket_items [OF assms, of ?b] b assms by (auto simp: hash_lookup_None FindInBucket_loop_None placed_def)
    with None show ?thesis by simp
  next
    case (Some x)
    then have x: "x \<in> set (hash_items t)" "getKey t x = key" using hash_lookup_Some [OF assms] by simp_all
    then have "x \<in> set (buckets t ! ?b)" using placed_bucket(1) [OF assms x(1)] by simp
    then obtain y where y: "FindInBucket_loop (getKey t) key (buckets t ! ?b) = Some y"
      using x(2) FindInBucket_loop_None by (metis option.exhaust)
    then have "y \<in> set (hash_items t)" "getKey t y = key"
      using FindInBucket_loop_Some [OF y] bucket_items [OF assms, of ?b] b assms by (auto simp: placed_def)
    with x y Some show ?thesis using placed_key [OF assms, of x y] by simp
  qed
  with b show ?thesis by (simp add: FindInBucket_def)
qed

lemma HashTable_Find_ok: "placed t \<Longrightarrow> HashTable_Find key t = Inr (hash_lookup t key)"
  using HashValue_ok [of t key] by (simp add: HashTable_Find_def placed_def bucket_lookup)

lemma IsInTable_ok: "placed t \<Longrightarrow> IsInTable key t = Inr (hash_lookup t key \<noteq> None)"
  by (simp add: IsInTable_def HashTable_Find_ok)

section \<open>Putting items in\<close>

lemma put_item_ok:
  assumes t: "placed t" and x: "getKey t x \<notin> getKey t ` set (hash_items t)"
  obtains bs where "put_item x t = Inr (t\<lparr>buckets := bs\<rparr>)" "placed (t\<lparr>buckets := bs\<rparr>)"
    "mset (concat bs) = add_mset x (mset (hash_items t))"
proof -
  let ?b = "bucket_of t (getKey t x)"
  let ?bs = "(buckets t)[?b := buckets t ! ?b @ [x]]"
  have v: "HashValue (getKey t x) t = Inr ?b" "?b < numBuckets t" and len: "length (buckets t) = numBuckets t"
    using t HashValue_ok [of t "getKey t x"] by (simp_all add: placed_def)
  have "x \<notin> set (buckets t ! ?b)" using x bucket_items [OF t v(2)] by blast
  then have put: "put_item x t = Inr (t\<lparr>buckets := ?bs\<rparr>)"
    using v len by (simp add: put_item_def seq_append_def)
  have m: "mset (concat ?bs) = add_mset x (mset (hash_items t))"
    using mset_concat_update [of ?b "buckets t" "buckets t ! ?b @ [x]"] v(2) len by (simp add: hash_items_def)
  have "distinct (map (getKey t) (concat ?bs)) \<longleftrightarrow> distinct (map (getKey t) (x # hash_items t))"
    by (rule mset_eq_imp_distinct_iff) (simp add: m)
  then have "placed (t\<lparr>buckets := ?bs\<rparr>)"
    using t x v(2) len by (auto simp: placed_def hash_items_def bucket_of_def nth_list_update)
  from put this m show thesis by (rule that)
qed

lemma move_bucket_append: "move_bucket (xs @ ys) t = bindr (move_bucket xs t) (move_bucket ys)"
proof (induction xs arbitrary: t)
  case (Cons x xs)
  show ?case by (simp add: Cons bindr_assoc cong: bindr_cong)
qed simp

lemma foldM_move_bucket: "foldM move_bucket xss t = move_bucket (concat xss) t"
proof (induction xss arbitrary: t)
  case (Cons xs xss)
  show ?case by (simp add: Cons move_bucket_append cong: bindr_cong)
qed simp

lemma move_bucket_ok:
  assumes "placed t" "distinct (map (getKey t) (xs @ hash_items t))"
  shows "\<exists>bs. move_bucket xs t = Inr (t\<lparr>buckets := bs\<rparr>) \<and> placed (t\<lparr>buckets := bs\<rparr>) \<and>
    mset (concat bs) = mset xs + mset (hash_items t)"
  using assms
proof (induction xs arbitrary: t)
  case Nil
  then show ?case by (intro exI [of _ "buckets t"]) (simp add: hash_items_def)
next
  case (Cons x xs)
  have "getKey t x \<notin> getKey t ` set (hash_items t)" using Cons.prems(2) by auto
  from put_item_ok [OF Cons.prems(1) this] obtain bs where bs: "put_item x t = Inr (t\<lparr>buckets := bs\<rparr>)"
    "placed (t\<lparr>buckets := bs\<rparr>)" "mset (concat bs) = add_mset x (mset (hash_items t))" by blast
  let ?t = "t\<lparr>buckets := bs\<rparr>"
  have "distinct (map (getKey t) (xs @ concat bs)) \<longleftrightarrow> distinct (map (getKey t) ((x # xs) @ hash_items t))"
    by (rule mset_eq_imp_distinct_iff) (simp add: bs(3))
  then have "distinct (map (getKey ?t) (xs @ hash_items ?t))" using Cons.prems(2) by (simp add: hash_items_def)
  from Cons.IH [OF bs(2) this] show ?case using bs(1,3) by (auto simp: hash_items_def)
qed

lemma bucket_SanityCheck_ok:
  assumes "placed t" "i < numBuckets t"
  shows "bucket_SanityCheck t i n = Inr (n + int (length (buckets t ! i)))"
proof -
  have "HashValue (getKey t x) t = Inr i" if "x \<in> set (buckets t ! i)" for x
    using that assms HashValue_ok [of t "getKey t x"] by (auto simp: placed_def)
  then have "foldM (\<lambda>x _. bindr (HashValue (getKey t x) t) (\<lambda>b. ASSERT (i = b))) xs () = Inr ()"
    if "set xs \<subseteq> set (buckets t ! i)" for xs
    using that by (induction xs) auto
  from this [OF subset_refl] show ?thesis using assms by (simp add: bucket_SanityCheck_def placed_def)
qed

lemma SanityCheck_ok:
  assumes "placed t"
  shows "HashTable_SanityCheck t = ASSERT (numItems t = int (length (hash_items t)))"
proof -
  have "foldM (bucket_SanityCheck t) [0..<n] 0 = Inr (int (length (concat (take n (buckets t)))))"
    if "n \<le> numBuckets t" for n
    using that
  proof (induction n)
    case (Suc n)
    then have "n < length (buckets t)" using assms by (simp add: placed_def)
    then show ?case using Suc bucket_SanityCheck_ok [OF assms, of n] by (simp add: take_Suc_conv_app_nth)
  qed simp
  then show ?thesis using assms by (simp add: HashTable_SanityCheck_def placed_def hash_items_def)
qed

lemma placed_new: "0 < n \<Longrightarrow> placed (InitBuckets n t) \<and> hash_items (InitBuckets n t) = []"
  by (simp add: InitBuckets_def placed_def hash_items_def)

lemma ReHash_ok:
  assumes "hash_ok t"
  obtains bs where "ReHash t = Inr (t\<lparr>numBuckets := numBuckets t * IncreaseSizeBy, buckets := bs\<rparr>)"
    "placed (t\<lparr>numBuckets := numBuckets t * IncreaseSizeBy, buckets := bs\<rparr>)" "mset (concat bs) = mset (hash_items t)"
proof -
  let ?t = "InitBuckets (numBuckets t * IncreaseSizeBy) t"
  have t: "placed t" "numItems t = int (length (hash_items t))" using assms by (simp_all add: hash_ok_def)
  have "0 < numBuckets t * IncreaseSizeBy" using t(1) by (simp add: placed_def hash_constants)
  then have n: "placed ?t" "hash_items ?t = []" using placed_new by blast+
  have "distinct (map (getKey ?t) (hash_items t @ hash_items ?t))"
    using t(1) n(2) by (simp add: placed_def InitBuckets_def)
  from move_bucket_ok [OF n(1) this] obtain bs where bs: "move_bucket (hash_items t) ?t = Inr (?t\<lparr>buckets := bs\<rparr>)"
    "placed (?t\<lparr>buckets := bs\<rparr>)" "mset (concat bs) = mset (hash_items t)" using n(2) by auto
  have u: "?t\<lparr>buckets := bs\<rparr> = t\<lparr>numBuckets := numBuckets t * IncreaseSizeBy, buckets := bs\<rparr>"
    by (simp add: InitBuckets_def)
  have "length (concat bs) = length (hash_items t)" using bs(3) by (rule mset_eq_length)
  then have "HashTable_SanityCheck (?t\<lparr>buckets := bs\<rparr>) = Inr ()"
    using SanityCheck_ok [OF bs(2)] t(2) by (simp add: hash_items_def InitBuckets_def)
  then have "ReHash t = Inr (?t\<lparr>buckets := bs\<rparr>)"
    using bs(1) SanityCheck_ok [OF t(1)] t(2) by (simp add: ReHash_def foldM_move_bucket hash_items_def)
  from this bs(2,3) show thesis unfolding u by (rule that)
qed

section \<open>A table as a map\<close>

definition hash_rel :: "('a \<Rightarrow> 'k) \<Rightarrow> ('k \<Rightarrow> u32) \<Rightarrow> ('k, 'a) hash_table \<Rightarrow> ('k \<Rightarrow> 'a option) \<Rightarrow> bool" where
  "hash_rel get h t m \<longleftrightarrow> hash_ok t \<and> getKey t = get \<and> hash t = h \<and> hash_lookup t = m"

definition map_Insert :: "('a \<Rightarrow> 'k) \<Rightarrow> 'a \<Rightarrow> ('k \<Rightarrow> 'a option) \<Rightarrow> ('k \<Rightarrow> 'a option) res" where
  "map_Insert get item m = (if m (get item) \<noteq> None then Inl AssertionFailed else Inr (m(get item \<mapsto> item)))"

definition map_Remove :: "'k \<Rightarrow> ('k \<Rightarrow> 'a option) \<Rightarrow> ('a \<times> ('k \<Rightarrow> 'a option)) res" where
  "map_Remove key m = (case m key of None \<Rightarrow> Inl AssertionFailed | Some item \<Rightarrow> Inr (item, m(key := None)))"

lemma hash_lookupI:
  assumes "placed t" "\<And>k x. m k = Some x \<longleftrightarrow> x \<in> set (hash_items t) \<and> getKey t x = k"
  shows "hash_lookup t = m"
proof
  fix k show "hash_lookup t k = m k"
    using hash_lookup_Some [OF assms(1), of k] assms(2) [of k] by (metis not_Some_eq)
qed

lemma hash_rel_new: "hash_rel get h (HashTable_HashTable get h) Map.empty"
  by (auto simp: hash_rel_def hash_ok_def HashTable_HashTable_def InitBuckets_def placed_def hash_items_def
      hash_constants hash_lookup_def)

lemma hash_rel_Insert:
  assumes "hash_rel get h t m"
  shows "refines (hash_rel get h) (HashTable_Insert x t) (map_Insert get x m)"
proof -
  have t: "hash_ok t" "placed t" "getKey t = get" "hash t = h" "hash_lookup t = m"
    "numItems t = int (length (hash_items t))" "0 < numBuckets t"
    using assms by (auto simp: hash_rel_def hash_ok_def placed_def)
  have tab: "IsInTable (get x) t = Inr (m (get x) \<noteq> None)" using IsInTable_ok [OF t(2)] t(5) by simp
  show ?thesis
  proof (cases "m (get x)")
    case (Some y)
    then show ?thesis using tab t(3) by (simp add: HashTable_Insert_def map_Insert_def)
  next
    case None
    let ?full = "numItems t sdiv int (numBuckets t) \<ge> int ResizeRatio"
    obtain t1 where t1: "(if ?full then ReHash t else Inr t) = Inr t1" "placed t1" "getKey t1 = get" "hash t1 = h"
      "numItems t1 = numItems t" "mset (hash_items t1) = mset (hash_items t)"
      "length (hash_items t) + 1 \<le> ResizeRatio * numBuckets t1"
    proof (cases ?full)
      case True
      obtain bs where "ReHash t = Inr (t\<lparr>numBuckets := numBuckets t * IncreaseSizeBy, buckets := bs\<rparr>)"
        "placed (t\<lparr>numBuckets := numBuckets t * IncreaseSizeBy, buckets := bs\<rparr>)" "mset (concat bs) = mset (hash_items t)"
        by (rule ReHash_ok [OF t(1)])
      with True t that [of "t\<lparr>numBuckets := numBuckets t * IncreaseSizeBy, buckets := bs\<rparr>"] show thesis
        by (simp add: hash_items_def hash_constants hash_ok_def)
    next
      case False
      then have "length (hash_items t) div numBuckets t < ResizeRatio"
        using t(6,7) by (simp add: sdiv_nonneg flip: of_nat_div)
      then have "length (hash_items t) < ResizeRatio * numBuckets t" using t(7) by (simp add: div_less_iff_less_mult)
      with False t that show thesis by simp
    qed
    have new: "getKey t1 x \<notin> getKey t1 ` set (hash_items t1)"
      using None t hash_lookup_None [of t "get x"] mset_eq_setD [OF t1(6)] t1(3) by simp
    obtain bs where bs: "put_item x t1 = Inr (t1\<lparr>buckets := bs\<rparr>)" "placed (t1\<lparr>buckets := bs\<rparr>)"
      "mset (concat bs) = add_mset x (mset (hash_items t1))"
      by (rule put_item_ok [OF t1(2) new])
    let ?t = "t1\<lparr>buckets := bs, numItems := numItems t1 + 1\<rparr>"
    have p: "placed ?t" using bs(2) by (simp add: placed_def hash_items_def bucket_of_def)
    have items: "set (hash_items ?t) = insert x (set (hash_items t))" "length (hash_items ?t) = length (hash_items t) + 1"
      using mset_eq_setD [OF bs(3) [unfolded t1(6), folded mset.simps]]
        mset_eq_length [OF bs(3) [unfolded t1(6), folded mset.simps]] by (simp_all add: hash_items_def)
    have "hash_lookup ?t = m(get x \<mapsto> x)"
    proof (rule hash_lookupI [OF p])
      show "(m(get x \<mapsto> x)) k = Some y \<longleftrightarrow> y \<in> set (hash_items ?t) \<and> getKey ?t y = k" for k y
        using None t hash_lookup_Some [OF t(2), of k y] hash_lookup_None [of t "get x"] t1(3) by (auto simp: items)
    qed
    then have "hash_rel get h ?t (m(get x \<mapsto> x))" "IsInTable (get x) ?t = Inr True"
      using p t1 t(6) items(2) IsInTable_ok [OF p] by (simp_all add: hash_rel_def hash_ok_def)
    then have "HashTable_Insert x t = Inr ?t"
      using tab None t(3) t1(1) bs(1) by (simp add: HashTable_Insert_def)
    with None \<open>hash_rel get h ?t (m(get x \<mapsto> x))\<close> show ?thesis by (simp add: map_Insert_def)
  qed
qed

lemma map_remove_Some:
  assumes "m k = Some y \<longleftrightarrow> y \<in> insert x I \<and> get y = k" "get x = key" "\<And>z. z \<in> I \<Longrightarrow> get z \<noteq> get x"
  shows "(m(key := None)) k = Some y \<longleftrightarrow> y \<in> I \<and> get y = k"
  using assms by auto

lemma hash_rel_Remove:
  assumes "hash_rel get h t m"
  shows "refines (rel_prod (=) (hash_rel get h)) (HashTable_Remove key t) (map_Remove key m)"
proof -
  have t: "hash_ok t" "placed t" "getKey t = get" "hash t = h" "hash_lookup t = m"
    "numItems t = int (length (hash_items t))" "length (buckets t) = numBuckets t"
    using assms by (auto simp: hash_rel_def hash_ok_def placed_def)
  let ?b = "bucket_of t key"
  have v: "HashValue key t = Inr ?b" "?b < numBuckets t" using t(2) HashValue_ok [of t key] by (simp_all add: placed_def)
  have find: "FindInBucket ?b key t = Inr (m key)" using bucket_lookup [OF t(2)] t(5) by simp
  show ?thesis
  proof (cases "m key")
    case None
    then show ?thesis using v find by (simp add: HashTable_Remove_def map_Remove_def)
  next
    case (Some x)
    then have x: "x \<in> set (hash_items t)" "get x = key" using t hash_lookup_Some [OF t(2)] by auto
    then have xb: "x \<in> set (buckets t ! ?b)" using placed_bucket(1) [OF t(2), of x] t(3) by simp
    let ?bs = "(buckets t)[?b := remove1 x (buckets t ! ?b)]"
    let ?t = "t\<lparr>buckets := ?bs, numItems := numItems t - 1\<rparr>"
    have "mset (buckets t ! ?b) = add_mset x (mset (remove1 x (buckets t ! ?b)))" using xb by simp
    then have "mset (concat ?bs) + add_mset x (mset (remove1 x (buckets t ! ?b))) =
        mset (hash_items t) + mset (remove1 x (buckets t ! ?b))"
      using mset_concat_update [of ?b "buckets t"] v(2) t(7) by (simp add: hash_items_def del: mset_remove1)
    then have m: "add_mset x (mset (hash_items ?t)) = mset (hash_items t)"
      by (simp add: hash_items_def del: mset_remove1)
    have d: "distinct (map get (x # hash_items ?t)) \<longleftrightarrow> distinct (map get (hash_items t))"
      by (rule mset_eq_imp_distinct_iff) (simp add: m [symmetric])
    then have dist: "distinct (map get (hash_items ?t))" "get x \<notin> get ` set (hash_items ?t)"
      using t(2,3) by (simp_all add: placed_def)
    have other: "get y \<noteq> get x" if "y \<in> set (hash_items ?t)" for y using dist(2) that by (metis imageI)
    have p: "placed ?t"
      using t(2,3) dist(1) v(2) by (auto simp: placed_def bucket_of_def nth_list_update dest: notin_set_remove1)
    have items: "set (hash_items t) = insert x (set (hash_items ?t))" "length (hash_items t) = length (hash_items ?t) + 1"
      using mset_eq_setD [OF m [folded mset.simps]] mset_eq_length [OF m [folded mset.simps]] by simp_all
    have look: "hash_lookup ?t = m(key := None)"
    proof (rule hash_lookupI [OF p])
      fix k y
      have "m k = Some y \<longleftrightarrow> y \<in> insert x (set (hash_items ?t)) \<and> get y = k"
        using hash_lookup_Some [OF t(2), of k y] unfolding t(3,5) items(1) .
      moreover have "getKey ?t y = get y" using t(3) by simp
      ultimately show "(m(key := None)) k = Some y \<longleftrightarrow> y \<in> set (hash_items ?t) \<and> getKey ?t y = k"
        using map_remove_Some [of m k y x "set (hash_items ?t)" get key, OF _ x(2) other] by simp
    qed
    have "IsInTable key ?t = Inr False" using IsInTable_ok [OF p, of key] by (simp add: look)
    then have "HashTable_Remove key t = Inr (x, ?t)"
      unfolding HashTable_Remove_def v(1) bindr_simps find Some option.case
      using v(2) xb t(7) by (simp add: seq_remove_def)
    moreover have "numItems t - 1 = int (length (hash_items ?t))" using t(6) items(2) by linarith
    moreover have "length (hash_items ?t) \<le> ResizeRatio * numBuckets t"
      using t(1) items(2) unfolding hash_ok_def by linarith
    ultimately have "hash_rel get h ?t (m(key := None))"
      using p look t(3,4) by (simp add: hash_rel_def hash_ok_def)
    moreover note \<open>HashTable_Remove key t = Inr (x, ?t)\<close>
    ultimately show ?thesis using Some by (simp add: map_Remove_def)
  qed
qed

lemma hash_rel_items:
  assumes "hash_rel get h t m"
  shows "set (hash_items t) = ran m" "distinct (hash_items t)"
proof -
  have t: "placed t" "getKey t = get" "hash_lookup t = m" using assms by (auto simp: hash_rel_def hash_ok_def)
  show "distinct (hash_items t)" using t(1) by (simp add: placed_def distinct_map)
  show "set (hash_items t) = ran m"
    unfolding ran_def t(3) [symmetric] using hash_lookup_Some [OF t(1)] by blast
qed

lemma hash_rel_IsEmpty:
  assumes "hash_rel get h t m"
  shows "HashTable_IsEmpty t \<longleftrightarrow> m = Map.empty"
proof -
  have "HashTable_IsEmpty t \<longleftrightarrow> ran m = {}"
    using assms hash_rel_items(1) [OF assms] by (auto simp: HashTable_IsEmpty_def hash_rel_def hash_ok_def)
  then show ?thesis by (metis ran_empty empty_iff not_Some_eq ranI)
qed

section \<open>Programs over hash tables\<close>

datatype ('k, 'a) hash_op =
    HInsert 'a | HRemove 'k | HFind 'k | HIsInTable 'k | HIsEmpty | HSanityCheck

datatype 'a hash_reply = HDone | HItem "'a option" | HBool bool

fun HashTable_step :: "('k, 'a) hash_op \<Rightarrow> ('k, 'a) hash_table \<Rightarrow> ('a hash_reply \<times> ('k, 'a) hash_table) res" where
  "HashTable_step (HInsert x) t = bindr (HashTable_Insert x t) (\<lambda>t. Inr (HDone, t))"
| "HashTable_step (HRemove key) t = bindr (HashTable_Remove key t) (\<lambda>(x, t). Inr (HItem (Some x), t))"
| "HashTable_step (HFind key) t = bindr (HashTable_Find key t) (\<lambda>x. Inr (HItem x, t))"
| "HashTable_step (HIsInTable key) t = bindr (IsInTable key t) (\<lambda>b. Inr (HBool b, t))"
| "HashTable_step HIsEmpty t = Inr (HBool (HashTable_IsEmpty t), t)"
| "HashTable_step HSanityCheck t = bindr (HashTable_SanityCheck t) (\<lambda>_. Inr (HDone, t))"

fun map_step :: "('a \<Rightarrow> 'k) \<Rightarrow> ('k, 'a) hash_op \<Rightarrow> ('k \<Rightarrow> 'a option) \<Rightarrow> ('a hash_reply \<times> ('k \<Rightarrow> 'a option)) res" where
  "map_step get (HInsert x) m = bindr (map_Insert get x m) (\<lambda>m. Inr (HDone, m))"
| "map_step get (HRemove key) m = bindr (map_Remove key m) (\<lambda>(x, m). Inr (HItem (Some x), m))"
| "map_step get (HFind key) m = Inr (HItem (m key), m)"
| "map_step get (HIsInTable key) m = Inr (HBool (m key \<noteq> None), m)"
| "map_step get HIsEmpty m = Inr (HBool (m = Map.empty), m)"
| "map_step get HSanityCheck m = Inr (HDone, m)"

interpretation hs: simulation "hash_rel get h" HashTable_step "map_step get"
  for get :: "'a \<Rightarrow> 'k" and h :: "'k \<Rightarrow> u32"
proof unfold_locales
  fix t :: "('k, 'a) hash_table" and m x assume r: "hash_rel get h t m"
  have p: "placed t" "hash_lookup t = m" "numItems t = int (length (hash_items t))"
    using r by (auto simp: hash_rel_def hash_ok_def)
  show "refines (rel_prod (=) (hash_rel get h)) (HashTable_step x t) (map_step get x m)"
  proof (cases x)
    case (HInsert y)
    show ?thesis unfolding HInsert HashTable_step.simps map_step.simps
      by (rule refines_bindr [OF hash_rel_Insert [OF r]]) simp
  next
    case (HRemove key)
    show ?thesis unfolding HRemove HashTable_step.simps map_step.simps
      by (rule refines_bindr [OF hash_rel_Remove [OF r]]) auto
  qed (use r p in \<open>simp_all add: HashTable_Find_ok IsInTable_ok SanityCheck_ok hash_rel_IsEmpty\<close>)
qed

section \<open>Iterators\<close>

lemma FindNextFullBucket_ok:
  assumes "length (buckets t) = numBuckets t" "b \<le> numBuckets t"
  shows "\<exists>b'. FindNextFullBucket b t = Inr b' \<and> b \<le> b' \<and> b' \<le> numBuckets t \<and> concat (drop b (buckets t)) = concat (drop b' (buckets t)) \<and>
    (b' < numBuckets t \<longrightarrow> buckets t ! b' \<noteq> [])"
  using assms
proof (induction b t rule: FindNextFullBucket.induct)
  case (1 b t)
  note simps = FindNextFullBucket.simps [of b t]
  show ?case
  proof (cases "b < numBuckets t \<and> buckets t ! b = []")
    case True
    have d: "concat (drop b (buckets t)) = concat (drop (Suc b) (buckets t))"
      using True 1(2) by (simp flip: Cons_nth_drop_Suc)
    have "aget (buckets t) (int b) = Inr []" using True 1(2) by simp
    from 1(1) [OF conjunct1 [OF True] this] obtain b' where
      "FindNextFullBucket (b + 1) t = Inr b'" "b + 1 \<le> b'" "b' \<le> numBuckets t"
      "concat (drop (b + 1) (buckets t)) = concat (drop b' (buckets t))" "b' < numBuckets t \<longrightarrow> buckets t ! b' \<noteq> []"
      using 1(2) True by auto
    then show ?thesis using True 1(2) d by (intro exI [of _ b']) (simp add: simps)
  next
    case False
    then show ?thesis using 1(2,3) by (intro exI [of _ b]) (auto simp: simps)
  qed
qed

text \<open>The items that are still ahead of an iterator, the current one first.\<close>

definition iterator_ahead :: "('k, 'a) hash_table \<Rightarrow> 'a hash_iterator \<Rightarrow> 'a list \<Rightarrow> bool" where
  "iterator_ahead t it xs \<longleftrightarrow>
     (case snd it of
        None \<Rightarrow> fst it = numBuckets t \<and> xs = []
      | Some ys \<Rightarrow> fst it < numBuckets t \<and> ys \<noteq> [] \<and> xs = ys @ concat (drop (fst it + 1) (buckets t)))"

lemma iterator_at_ok:
  assumes "length (buckets t) = numBuckets t" "b \<le> numBuckets t"
  shows "\<exists>it. iterator_at b t = Inr it \<and> iterator_ahead t it (concat (drop b (buckets t)))"
proof -
  obtain b' where b': "FindNextFullBucket b t = Inr b'" "b' \<le> numBuckets t"
    "concat (drop b (buckets t)) = concat (drop b' (buckets t))" "b' < numBuckets t \<longrightarrow> buckets t ! b' \<noteq> []"
    using FindNextFullBucket_ok [OF assms] by blast
  show ?thesis
  proof (cases "b' < numBuckets t")
    case True
    then have "concat (drop b' (buckets t)) = buckets t ! b' @ concat (drop (b' + 1) (buckets t))"
      using assms(1) by (simp flip: Cons_nth_drop_Suc)
    then show ?thesis using True b' assms(1) by (simp add: iterator_at_def iterator_ahead_def)
  qed (use b' assms(1) in \<open>simp add: iterator_at_def iterator_ahead_def\<close>)
qed

lemma visit_all_ahead:
  assumes "length (buckets t) = numBuckets t" "iterator_ahead t it xs" "length xs \<le> n"
  shows "visit_all n t it = Inr xs"
  using assms(2,3)
proof (induction n arbitrary: it xs)
  case 0
  then show ?case by (auto simp: iterator_ahead_def HashIterator_IsDone_def split: option.splits)
next
  case (Suc n)
  show ?case
  proof (cases "snd it")
    case None
    then show ?thesis using Suc.prems by (simp add: iterator_ahead_def HashIterator_IsDone_def)
  next
    case (Some ys)
    then obtain y zs where ys: "ys = y # zs" "fst it < numBuckets t" "xs = y # zs @ concat (drop (fst it + 1) (buckets t))"
      using Suc.prems(1) by (cases ys) (auto simp: iterator_ahead_def)
    have "\<exists>it'. HashIterator_Next t it = Inr it' \<and> iterator_ahead t it' (zs @ concat (drop (fst it + 1) (buckets t)))"
    proof (cases "zs = []")
      case True
      then show ?thesis using iterator_at_ok [OF assms(1), of "fst it + 1"] Some ys by (simp add: HashIterator_Next_def)
    next
      case False
      then show ?thesis using Some ys by (simp add: HashIterator_Next_def iterator_ahead_def)
    qed
    then show ?thesis
      using Suc.IH Suc.prems(2) Some ys
      by (auto simp: HashIterator_IsDone_def HashIterator_Item_def)
  qed
qed

section \<open>The self test\<close>

lemma SelfTest_inserts:
  assumes "hash_rel get h t m" "distinct (map get p)" "\<And>x. x \<in> set p \<Longrightarrow> m (get x) = None"
  shows "\<exists>t' m'. foldM (\<lambda>x t.
        bindr (HashTable_Insert x t) (\<lambda>t.
        bindr (IsInTable (getKey t x) t) (\<lambda>b. bindr (ASSERT b) (\<lambda>_.
        bindr (ASSERT (\<not> HashTable_IsEmpty t)) (\<lambda>_. Inr t))))) p t = Inr t' \<and> hash_rel get h t' m' \<and>
      (\<forall>k. k \<notin> get ` set p \<longrightarrow> m' k = m k) \<and> (\<forall>x \<in> set p. m' (get x) = Some x)"
  using assms
proof (induction p arbitrary: t m)
  case (Cons x p)
  let ?m = "m(get x \<mapsto> x)"
  obtain t1 where t1: "HashTable_Insert x t = Inr t1" "hash_rel get h t1 ?m"
    using hash_rel_Insert [OF Cons.prems(1), of x] Cons.prems(3) [of x] by (auto simp: map_Insert_def rel_sum.simps)
  have "placed t1" "hash_lookup t1 = ?m" "getKey t1 = get" using t1(2) by (simp_all add: hash_rel_def hash_ok_def)
  then have tab: "IsInTable (getKey t1 x) t1 = Inr True" by (simp add: IsInTable_ok)
  have "\<not> HashTable_IsEmpty t1" using hash_rel_IsEmpty [OF t1(2)] by (auto dest: fun_cong [of _ _ "get x"])
  moreover have "\<And>y. y \<in> set p \<Longrightarrow> ?m (get y) = None" "distinct (map get p)"
    using Cons.prems(2,3) by (auto simp: image_iff)
  from Cons.IH [OF t1(2) this(2,1)] obtain t' m' where t': "foldM (\<lambda>x t.
        bindr (HashTable_Insert x t) (\<lambda>t.
        bindr (IsInTable (getKey t x) t) (\<lambda>b. bindr (ASSERT b) (\<lambda>_.
        bindr (ASSERT (\<not> HashTable_IsEmpty t)) (\<lambda>_. Inr t))))) p t1 = Inr t'" "hash_rel get h t' m'"
    "\<forall>k. k \<notin> get ` set p \<longrightarrow> m' k = ?m k" "\<forall>x \<in> set p. m' (get x) = Some x" by blast
  have "get x \<notin> get ` set p" using Cons.prems(2) by simp
  then have "m' (get x) = Some x" "\<forall>k. k \<notin> get ` set (x # p) \<longrightarrow> m' k = m k" using t'(3) by auto
  ultimately show ?case using t1(1) tab t'(1,2,4) by auto
qed auto

lemma SelfTest_removes:
  assumes "hash_rel get h t m" "distinct (map get p)" "\<And>x. x \<in> set p \<Longrightarrow> m (get x) = Some x" "dom m = get ` set p"
  shows "\<exists>t'. foldM (\<lambda>x t.
        bindr (HashTable_Remove (getKey t x) t) (\<lambda>(y, t).
        bindr (ASSERT (y = x)) (\<lambda>_. Inr t))) p t = Inr t' \<and> hash_rel get h t' Map.empty"
  using assms
proof (induction p arbitrary: t m)
  case (Cons x p)
  let ?m = "m(get x := None)"
  have "getKey t = get" using Cons.prems(1) by (simp add: hash_rel_def)
  then obtain t1 where t1: "HashTable_Remove (getKey t x) t = Inr (x, t1)" "hash_rel get h t1 ?m"
    using hash_rel_Remove [OF Cons.prems(1), of "get x"] Cons.prems(3) [of x]
    by (auto simp: map_Remove_def rel_sum.simps)
  have "\<And>y. y \<in> set p \<Longrightarrow> ?m (get y) = Some y" "distinct (map get p)" "dom ?m = get ` set p"
    using Cons.prems(2-4) by (auto simp: image_iff)
  from Cons.IH [OF t1(2) this(2,1,3)] show ?case using t1(1) by auto
qed auto

section \<open>Properties\<close>

text \<open>
  C30: A hash table is a finite map.  Whatever sequence of requests runs on a new table, for any key function and
  any hash function, the replies are those of a map from keys to items: \<open>Insert\<close> fails its assertion
  exactly when the key is in the map and \<open>Remove\<close> exactly when it is not, \<open>SanityCheck\<close> always passes,
  and no request divides by zero or leaves the array of buckets, however often the table grows.
\<close>

theorem HashTable_programs_refine_maps:
  "refines (rel_prod (=) (hash_rel get h)) (run HashTable_step ops (HashTable_HashTable get h))
     (run (map_step get) ops Map.empty)"
  by (rule hs.run_refines [OF hash_rel_new])

text \<open>
  The load of a hash table is bounded.  After any sequence of requests that does not fail, the table holds at
  most \<open>ResizeRatio\<close> items per bucket on average, and every item is in the bucket its key hashes to.
\<close>

theorem HashTable_load_bounded:
  assumes "run HashTable_step ops (HashTable_HashTable get h) = Inr (replies, t)"
  shows "0 \<le> numItems t \<and> numItems t \<le> int (ResizeRatio * numBuckets t) \<and> length (buckets t) = numBuckets t \<and>
    (\<forall>i < numBuckets t. \<forall>x \<in> set (buckets t ! i). unat (h (get x)) mod numBuckets t = i)"
proof -
  have "refines (rel_prod (=) (hash_rel get h)) (run HashTable_step ops (HashTable_HashTable get h))
     (run (map_step get) ops Map.empty)"
    by (rule hs.run_refines [OF hash_rel_new])
  then obtain m where "hash_rel get h t m" unfolding assms by (auto simp: rel_sum.simps)
  then show ?thesis by (auto simp: hash_rel_def hash_ok_def placed_def bucket_of_def simp flip: of_nat_mult)
qed

theorem HashTable_load_bounded_witness:
  "\<exists>replies t. run HashTable_step (map HInsert [0..<13]) (HashTable_HashTable id (of_nat :: nat \<Rightarrow> u32)) = Inr (replies, t) \<and>
     numItems t = 13 \<and> numBuckets t = 16 \<and> numItems t \<le> int (ResizeRatio * numBuckets t)"
proof -
  let ?r = "run HashTable_step (map HInsert [0..<13]) (HashTable_HashTable id (of_nat :: nat \<Rightarrow> u32))"
  have "case ?r of Inl _ \<Rightarrow> False | Inr (_, t) \<Rightarrow> numItems t = 13 \<and> numBuckets t = 16" by code_simp
  then obtain replies t where t: "?r = Inr (replies, t)" "numItems t = 13" "numBuckets t = 16"
    by (auto split: sum.splits)
  show ?thesis using HashTable_load_bounded [OF t(1)] t by blast
qed

text \<open>
  C31: The iterator visits every item once.  The loop \<open>for (; !iter->IsDone(); iter->Next())\<close> over a table comes to its
  end after as many rounds as there are items, and its \<open>Item()\<close>s are the items of the table, each once.
\<close>

theorem HashIterator_visits_all:
  assumes "hash_rel get h t m"
  shows "\<exists>it xs. HashIterator_HashIterator t = Inr it \<and> visit_all (nat (numItems t)) t it = Inr xs \<and>
    distinct xs \<and> set xs = ran m"
proof -
  have t: "length (buckets t) = numBuckets t" "numItems t = int (length (hash_items t))"
    using assms by (auto simp: hash_rel_def hash_ok_def placed_def)
  obtain it where "iterator_at 0 t = Inr it" "iterator_ahead t it (hash_items t)"
    using iterator_at_ok [OF t(1), of 0] by (auto simp: hash_items_def)
  then show ?thesis
    using visit_all_ahead [OF t(1), of it "hash_items t" "length (hash_items t)"] hash_rel_items [OF assms] t(2)
    by (simp add: HashIterator_HashIterator_def)
qed

theorem HashIterator_visits_all_witness:
  "\<exists>t it xs. HashTable_Insert 7 (HashTable_HashTable (\<lambda>x. x) (of_nat :: nat \<Rightarrow> u32)) = Inr t \<and>
     HashIterator_HashIterator t = Inr it \<and> visit_all (nat (numItems t)) t it = Inr xs \<and> set xs = {7}"
proof -
  let ?get = "\<lambda>x :: nat. x" and ?h = "of_nat :: nat \<Rightarrow> u32"
  obtain t where t: "HashTable_Insert 7 (HashTable_HashTable ?get ?h) = Inr t" "hash_rel ?get ?h t [7 \<mapsto> 7]"
    using hash_rel_Insert [OF hash_rel_new, of ?get ?h 7] by (auto simp: map_Insert_def rel_sum.simps)
  show ?thesis using HashIterator_visits_all [OF t(2)] t(1) by auto
qed

text \<open>
  \<open>HashTable::SelfTest\<close> passes on a new table for any items with distinct keys, among them enough to make the
  table grow, and leaves the table empty.
\<close>

theorem HashTable_SelfTest_passes:
  assumes "distinct (map get p)"
  shows "\<exists>t. HashTable_SelfTest p (HashTable_HashTable get h) = Inr t \<and> HashTable_IsEmpty t"
proof -
  let ?t = "HashTable_HashTable get h"
  have new: "hash_rel get h ?t Map.empty" by (rule hash_rel_new)
  have ok: "HashTable_SanityCheck t = Inr ()" "HashTable_IsEmpty t" if "hash_rel get h t Map.empty" for t
    using that SanityCheck_ok [of t] hash_rel_IsEmpty [OF that] by (auto simp: hash_rel_def hash_ok_def)
  obtain it where it: "HashIterator_HashIterator ?t = Inr it" "iterator_ahead ?t it (hash_items ?t)"
    using iterator_at_ok [of ?t 0] new
    by (auto simp: HashIterator_HashIterator_def hash_rel_def hash_ok_def placed_def hash_items_def)
  have "hash_items ?t = []" using hash_rel_items(1) [OF new] by simp
  then have "HashIterator_IsDone ?t it"
    using it(2) by (auto simp: iterator_ahead_def HashIterator_IsDone_def split: option.splits)
  moreover obtain t1 m where t1: "foldM (\<lambda>x t.
        bindr (HashTable_Insert x t) (\<lambda>t.
        bindr (IsInTable (getKey t x) t) (\<lambda>b. bindr (ASSERT b) (\<lambda>_.
        bindr (ASSERT (\<not> HashTable_IsEmpty t)) (\<lambda>_. Inr t))))) p ?t = Inr t1" "hash_rel get h t1 m"
      "\<forall>k. k \<notin> get ` set p \<longrightarrow> m k = None" "\<forall>x \<in> set p. m (get x) = Some x"
    using SelfTest_inserts [OF new assms] by auto
  moreover have "dom m = get ` set p" using t1(3,4) by fastforce
  then obtain t2 where "foldM (\<lambda>x t.
        bindr (HashTable_Remove (getKey t x) t) (\<lambda>(y, t).
        bindr (ASSERT (y = x)) (\<lambda>_. Inr t))) p t1 = Inr t2" "hash_rel get h t2 Map.empty"
    using SelfTest_removes [OF t1(2) assms] t1(4) by blast
  ultimately show ?thesis using it(1) ok new by (simp add: HashTable_SelfTest_def)
qed

theorem HashTable_SelfTest_passes_witness:
  "\<exists>t. HashTable_SelfTest [3, 8, 1, 9, 4, 7, 2, 5, 6, 0, 11, 12, 10] (HashTable_HashTable (\<lambda>x. x) (of_nat :: nat \<Rightarrow> u32)) = Inr t \<and>
     HashTable_IsEmpty t"
  by (rule HashTable_SelfTest_passes) simp

end
