(* ===== verification/File_Header.thy ===== *)
theory File_Header
  imports Bitmap Bytes Devices
begin

text \<open>
  File headers (\<open>filesys/filehdr.h\<close>, \<open>filesys/filehdr.cc\<close>): the table of the data sectors of a
  file, which is kept in a sector of its own.  The file system makes one request to the disk at a
  time and waits for it, so here the disk is what its sectors hold; \<open>read_sector_Disk\<close> and
  \<open>write_sector_Disk\<close> say that this is what the simulated disk does.
\<close>

section \<open>Sectors\<close>

type_synonym platter = "nat \<Rightarrow> u8 list"

definition read_sector :: "int \<Rightarrow> platter \<Rightarrow> u8 list res" where
  "read_sector n d = bindr (ASSERT (n \<ge> 0 \<and> n < int NumSectors)) (\<lambda>_. Inr (d (nat n)))"

definition write_sector :: "int \<Rightarrow> u8 list \<Rightarrow> platter \<Rightarrow> platter res" where
  "write_sector n data d =
     bindr (ASSERT (n \<ge> 0 \<and> n < int NumSectors)) (\<lambda>_.
     bindr (bytes_at data 0 (int SectorSize)) (\<lambda>data. Inr (d(nat n := data))))"

definition platter_ok :: "platter \<Rightarrow> bool" where
  "platter_ok d \<longleftrightarrow> (\<forall>n < NumSectors. length (d n) = SectorSize)"

lemma Schedule_disk: "Schedule d t i s = Inr s' \<Longrightarrow> disk s' = disk s"
  by (auto simp: Schedule_def Let_def bindr_Inr_iff)

lemma read_sector_Disk:
  assumes "Disk_ReadRequest n s = Inr (data, s')"
  shows "read_sector n (sectors (disk s)) = Inr data" "sectors (disk s') = sectors (disk s)"
  using assms
  by (auto simp: Disk_ReadRequest_def read_sector_def UpdateLast_def Let_def ASSERT_def split: if_splits prod.splits
      dest!: Schedule_disk)

lemma write_sector_Disk:
  assumes "Disk_WriteRequest n data s = Inr s'"
  shows "write_sector n data (sectors (disk s)) = Inr (sectors (disk s'))"
  using assms
  by (auto simp: Disk_WriteRequest_def write_sector_def UpdateLast_def Let_def ASSERT_def split: if_splits prod.splits
      dest!: Schedule_disk)

lemma write_sector_ok:
  assumes "0 \<le> n" "n < int NumSectors" "length data = SectorSize"
  shows "write_sector n data d = Inr (d(nat n := data))"
  using assms by (simp add: write_sector_def bytes_at_def)

lemma read_sector_ok: "0 \<le> n \<Longrightarrow> n < int NumSectors \<Longrightarrow> read_sector n d = Inr (d (nat n))"
  by (simp add: read_sector_def)

section \<open>File headers\<close>

definition NumDirect :: nat where "NumDirect = (SectorSize - 2 * 4) div 4"
definition MaxFileSize :: nat where "MaxFileSize = NumDirect * SectorSize"

lemma NumDirect_eq: "NumDirect = 30" by (simp add: NumDirect_def SectorSize_def)

record file_header =
  numBytes :: int
  numSectors :: int
  dataSectors :: "int list"

definition allocate_sector :: "int \<Rightarrow> file_header \<times> bitmap \<Rightarrow> (file_header \<times> bitmap) res" where
  "allocate_sector i = (\<lambda>(h, freeMap).
     bindr (Bitmap_FindAndSet freeMap) (\<lambda>(s, freeMap).
     bindr (aset (dataSectors h) i s) (\<lambda>ds.
     bindr (ASSERT (s \<ge> 0)) (\<lambda>_. Inr (h\<lparr>dataSectors := ds\<rparr>, freeMap)))))"

definition FileHeader_Allocate :: "bitmap \<Rightarrow> int \<Rightarrow> file_header \<Rightarrow> (bool \<times> file_header \<times> bitmap) res" where
  "FileHeader_Allocate freeMap fileSize h =
     (let h = h\<lparr>numBytes := fileSize, numSectors := divRoundUp fileSize (int SectorSize)\<rparr> in
      bindr (Bitmap_NumClear freeMap) (\<lambda>clear.
      if clear < numSectors h then Inr (False, h, freeMap)
      else
        bindr (foldM allocate_sector (upto_int (numSectors h)) (h, freeMap)) (\<lambda>(h, freeMap).
        Inr (True, h, freeMap))))"

definition FileHeader_Deallocate :: "bitmap \<Rightarrow> file_header \<Rightarrow> bitmap res" where
  "FileHeader_Deallocate freeMap h =
     foldM (\<lambda>i freeMap.
       bindr (aget (dataSectors h) i) (\<lambda>s.
       bindr (Bitmap_Test freeMap s) (\<lambda>t.
       bindr (ASSERT t) (\<lambda>_. Bitmap_Clear freeMap s)))) (upto_int (numSectors h)) freeMap"

text \<open>\<open>(char *)this\<close>: a header fills a sector, field by field.\<close>

definition header_image :: "file_header \<Rightarrow> u8 list" where
  "header_image h = words_bytes (map word_of_int (numBytes h # numSectors h # dataSectors h))"

definition image_header :: "u8 list \<Rightarrow> file_header" where
  "image_header bs =
     (case map sint (bytes_words (NumDirect + 2) bs) of
        n # m # ds \<Rightarrow> \<lparr>numBytes = n, numSectors = m, dataSectors = ds\<rparr>
      | _ \<Rightarrow> \<lparr>numBytes = 0, numSectors = 0, dataSectors = []\<rparr>)"

definition FileHeader_FetchFrom :: "int \<Rightarrow> platter \<Rightarrow> file_header res" where
  "FileHeader_FetchFrom sector d = bindr (read_sector sector d) (\<lambda>bs. Inr (image_header bs))"

definition FileHeader_WriteBack :: "int \<Rightarrow> file_header \<Rightarrow> platter \<Rightarrow> platter res" where
  "FileHeader_WriteBack sector h d = write_sector sector (header_image h) d"

definition ByteToSector :: "int \<Rightarrow> file_header \<Rightarrow> int res" where
  "ByteToSector offset h = aget (dataSectors h) (offset sdiv int SectorSize)"

definition FileLength :: "file_header \<Rightarrow> int" where
  "FileLength h = numBytes h"

section \<open>Their properties\<close>

definition header_ok :: "file_header \<Rightarrow> bool" where
  "header_ok h \<longleftrightarrow> length (dataSectors h) = NumDirect \<and>
     (\<forall>x \<in> set (numBytes h # numSectors h # dataSectors h). - (2 ^ 31) \<le> x \<and> x < 2 ^ 31)"

lemma header_roundtrip:
  assumes "header_ok h"
  shows "image_header (header_image h) = h" "length (header_image h) = SectorSize"
proof -
  let ?xs = "numBytes h # numSectors h # dataSectors h"
  have len: "length ?xs = NumDirect + 2" using assms by (simp add: header_ok_def)
  have "map sint (bytes_words (NumDirect + 2) (header_image h)) = map (\<lambda>x. sint (word_of_int x :: u32)) ?xs"
    using bytes_words_bytes_n [of "map word_of_int ?xs" "NumDirect + 2" "[]"] len
    by (simp add: header_image_def del: bytes_words.simps list.map(2))
  also have "\<dots> = ?xs"
  proof (rule map_idI)
    fix x assume "x \<in> set ?xs"
    with assms show "sint (word_of_int x :: u32) = x"
      unfolding header_ok_def using s32_id [of x] unfolding s32_def by blast
  qed
  finally show "image_header (header_image h) = h" by (simp add: image_header_def)
  show "length (header_image h) = SectorSize"
    using len by (simp add: header_image_def NumDirect_eq SectorSize_def)
qed

text \<open>What \<open>FindAndSet\<close> gives out, sector by sector.\<close>

lemma find_and_set_free:
  assumes "bm_inv fm" "card (bm_used fm) < nat (numBits fm)"
  obtains s fm' where "Bitmap_FindAndSet fm = Inr (s, fm')" "0 \<le> s" "s < numBits fm" "s \<notin> bm_used fm"
    "bm_inv fm'" "numBits fm' = numBits fm" "bm_used fm' = insert s (bm_used fm)"
proof -
  have "bm_used fm \<noteq> {0..<numBits fm}" using assms(2) by auto
  from bm.find_free [OF assms(1) this] show thesis using that by blast
qed

lemma finite_used: "finite (bm_used fm)"
  using finite_subset [OF bm_used_range] by blast

lemma allocate_sectors:
  assumes "bm_inv fm" "card (bm_used fm) + k \<le> nat (numBits fm)" "length (dataSectors h) = NumDirect" "k \<le> NumDirect"
  obtains ss fm' where
    "foldM allocate_sector (upto_int (int k)) (h, fm) = Inr (h\<lparr>dataSectors := ss @ drop k (dataSectors h)\<rparr>, fm')"
    "length ss = k" "distinct ss" "set ss \<inter> bm_used fm = {}" "set ss \<subseteq> {0..<numBits fm}"
    "bm_inv fm'" "numBits fm' = numBits fm" "bm_used fm' = bm_used fm \<union> set ss"
proof -
  have "\<exists>ss fm'. foldM allocate_sector (upto_int (int k)) (h, fm) = Inr (h\<lparr>dataSectors := ss @ drop k (dataSectors h)\<rparr>, fm') \<and>
    length ss = k \<and> distinct ss \<and> set ss \<inter> bm_used fm = {} \<and> set ss \<subseteq> {0..<numBits fm} \<and>
    bm_inv fm' \<and> numBits fm' = numBits fm \<and> bm_used fm' = bm_used fm \<union> set ss"
    using assms(2,4)
  proof (induction k)
    case 0
    then show ?case using assms(1) by (intro exI [of _ "[]"] exI [of _ fm]) simp
  next
    case (Suc k)
    then obtain ss fm1 where ss:
      "foldM allocate_sector (upto_int (int k)) (h, fm) = Inr (h\<lparr>dataSectors := ss @ drop k (dataSectors h)\<rparr>, fm1)"
      "length ss = k" "distinct ss" "set ss \<inter> bm_used fm = {}" "set ss \<subseteq> {0..<numBits fm}"
      "bm_inv fm1" "numBits fm1 = numBits fm" "bm_used fm1 = bm_used fm \<union> set ss" by auto
    have "card (bm_used fm1) = card (bm_used fm) + k"
      using ss(2-4) by (simp add: ss(8) card_Un_disjoint finite_used distinct_card inf_commute)
    then obtain s fm2 where s: "Bitmap_FindAndSet fm1 = Inr (s, fm2)" "0 \<le> s" "s < numBits fm" "s \<notin> bm_used fm1"
      "bm_inv fm2" "numBits fm2 = numBits fm" "bm_used fm2 = insert s (bm_used fm1)"
      using find_and_set_free [OF ss(6)] Suc.prems ss(7) by auto
    have k: "k < length (dataSectors h)" using Suc.prems(2) assms(3) by simp
    have "(ss @ drop k (dataSectors h))[k := s] = (ss @ [s]) @ drop (Suc k) (dataSectors h)"
      using ss(2) k by (simp add: list_update_append Cons_nth_drop_Suc [symmetric])
    then have "foldM allocate_sector (upto_int (int (Suc k))) (h, fm) =
        Inr (h\<lparr>dataSectors := (ss @ [s]) @ drop (Suc k) (dataSectors h)\<rparr>, fm2)"
      using ss(1,2) s(1,2) k by (simp add: upto_int_Suc [of "int k", simplified add.commute] allocate_sector_def)
    then show ?case using ss(2-5) s ss(8)
      by (intro exI [of _ "ss @ [s]"] exI [of _ fm2]) auto
  qed
  then show thesis using that by blast
qed

definition file_sectors :: "file_header \<Rightarrow> int list" where
  "file_sectors h = take (nat (numSectors h)) (dataSectors h)"

text \<open>The sectors that a file of some size takes.\<close>

definition sectors_of :: "int \<Rightarrow> int" where
  "sectors_of fileSize = divRoundUp fileSize (int SectorSize)"

lemma sectors_of_bounds:
  assumes "0 \<le> n"
  shows "0 \<le> sectors_of n" "n \<le> sectors_of n * int SectorSize" "sectors_of n * int SectorSize < n + int SectorSize"
  using divRoundUp_bounds [OF assms, of "int SectorSize"] by (simp_all add: sectors_of_def SectorSize_def)

lemma sectors_of_le:
  assumes "0 \<le> n"
  shows "sectors_of n \<le> int NumDirect \<longleftrightarrow> n \<le> int MaxFileSize"
  using sectors_of_bounds [OF assms] by (simp add: NumDirect_eq MaxFileSize_def SectorSize_def) linarith

lemma Allocate_full:
  assumes "bm_inv fm" "numBits fm - int (card (bm_used fm)) < sectors_of n"
  shows "FileHeader_Allocate fm n h = Inr (False, h\<lparr>numBytes := n, numSectors := sectors_of n\<rparr>, fm)"
  using assms bm.num_clear_eq [OF assms(1)] by (simp add: FileHeader_Allocate_def sectors_of_def)

lemma Allocate_fits:
  assumes "bm_inv fm" "sectors_of n \<le> numBits fm - int (card (bm_used fm))" "0 \<le> n" "n \<le> int MaxFileSize"
    and len: "length (dataSectors h) = NumDirect"
  obtains ss fm' where
    "FileHeader_Allocate fm n h =
       Inr (True, h\<lparr>numBytes := n, numSectors := sectors_of n, dataSectors := ss @ drop (length ss) (dataSectors h)\<rparr>, fm')"
    "int (length ss) = sectors_of n" "distinct ss" "set ss \<inter> bm_used fm = {}" "set ss \<subseteq> {0..<numBits fm}"
    "bm_inv fm'" "numBits fm' = numBits fm" "bm_used fm' = bm_used fm \<union> set ss"
proof -
  let ?h = "h\<lparr>numBytes := n, numSectors := sectors_of n\<rparr>" and ?k = "nat (sectors_of n)"
  note b = sectors_of_bounds [OF assms(3)]
  have k: "?k \<le> NumDirect" "int ?k = sectors_of n" using b(1) assms(4) sectors_of_le [OF assms(3)] by linarith+
  have "card (bm_used fm) + ?k \<le> nat (numBits fm)" using assms(2) k(2) by linarith
  then obtain ss fm' where ss:
    "foldM allocate_sector (upto_int (int ?k)) (?h, fm) = Inr (?h\<lparr>dataSectors := ss @ drop ?k (dataSectors ?h)\<rparr>, fm')"
    "length ss = ?k" "distinct ss" "set ss \<inter> bm_used fm = {}" "set ss \<subseteq> {0..<numBits fm}"
    "bm_inv fm'" "numBits fm' = numBits fm" "bm_used fm' = bm_used fm \<union> set ss"
    using allocate_sectors [OF assms(1) _ _ k(1), of ?h] len by auto
  have alloc: "FileHeader_Allocate fm n h = Inr (True, ?h\<lparr>dataSectors := ss @ drop (length ss) (dataSectors h)\<rparr>, fm')"
    using ss(1,2) k(2) assms(2) bm.num_clear_eq [OF assms(1)] by (simp add: FileHeader_Allocate_def sectors_of_def)
  show thesis by (rule that [OF alloc _ ss(3-8)]) (use ss(2) k(2) in simp)
qed

lemma Allocate_overflows:
  assumes "bm_inv fm" "sectors_of n \<le> numBits fm - int (card (bm_used fm))" "int MaxFileSize < n"
    and len: "length (dataSectors h) = NumDirect"
  shows "FileHeader_Allocate fm n h = Inl OutOfBounds"
proof -
  let ?h = "h\<lparr>numBytes := n, numSectors := sectors_of n\<rparr>"
  have n: "0 \<le> n" using assms(3) by linarith
  have k: "int NumDirect < sectors_of n" using sectors_of_le [OF n] assms(3) by linarith
  have free: "card (bm_used fm) + NumDirect < nat (numBits fm)" using assms(2) k by linarith
  then obtain ss fm1 where ss:
    "foldM allocate_sector (upto_int (int NumDirect)) (?h, fm) = Inr (?h\<lparr>dataSectors := ss @ drop NumDirect (dataSectors ?h)\<rparr>, fm1)"
    "length ss = NumDirect" "distinct ss" "set ss \<inter> bm_used fm = {}" "set ss \<subseteq> {0..<numBits fm}"
    "bm_inv fm1" "numBits fm1 = numBits fm" "bm_used fm1 = bm_used fm \<union> set ss"
    using allocate_sectors [OF assms(1), of NumDirect ?h] len by auto
  have "card (bm_used fm1) < nat (numBits fm1)"
    using ss(2-4) free by (simp add: ss(7,8) card_Un_disjoint finite_used distinct_card inf_commute)
  then obtain s fm2 where s: "Bitmap_FindAndSet fm1 = Inr (s, fm2)" using find_and_set_free [OF ss(6)] by metis
  obtain ys where "upto_int (sectors_of n) = upto_int (int NumDirect) @ int NumDirect # ys"
    using upto_int_split [of "int NumDirect" "sectors_of n"] k by auto
  then have "foldM allocate_sector (upto_int (sectors_of n)) (?h, fm) = Inl OutOfBounds"
    using ss(1,2) s len by (simp add: allocate_sector_def aset_def)
  then show ?thesis
    using assms(2) bm.num_clear_eq [OF assms(1)] by (simp add: FileHeader_Allocate_def sectors_of_def)
qed

lemma Deallocate_ok:
  assumes "bm_inv fm" "0 \<le> numSectors h" "numSectors h \<le> int (length (dataSectors h))"
    and "distinct (file_sectors h)" "set (file_sectors h) \<subseteq> bm_used fm"
  obtains fm' where "FileHeader_Deallocate fm h = Inr fm'" "bm_inv fm'" "numBits fm' = numBits fm"
    "bm_used fm' = bm_used fm - set (file_sectors h)"
proof -
  let ?f = "\<lambda>i freeMap. bindr (aget (dataSectors h) i) (\<lambda>s.
       bindr (Bitmap_Test freeMap s) (\<lambda>t. bindr (ASSERT t) (\<lambda>_. Bitmap_Clear freeMap s)))"
  have "\<exists>fm'. foldM ?f (upto_int (int k)) fm = Inr fm' \<and> bm_inv fm' \<and> numBits fm' = numBits fm \<and>
      bm_used fm' = bm_used fm - set (take k (dataSectors h))" if "k \<le> nat (numSectors h)" for k
    using that
  proof (induction k)
    case 0
    then show ?case using assms(1) by simp
  next
    case (Suc k)
    then obtain fm1 where fm1: "foldM ?f (upto_int (int k)) fm = Inr fm1" "bm_inv fm1" "numBits fm1 = numBits fm"
      "bm_used fm1 = bm_used fm - set (take k (dataSectors h))" by auto
    let ?s = "dataSectors h ! k"
    have k: "k < length (dataSectors h)" using Suc.prems assms(3) by linarith
    have "file_sectors h ! k = ?s" "k < length (file_sectors h)" using Suc.prems k by (simp_all add: file_sectors_def)
    then have "?s \<in> set (file_sectors h)" by (metis nth_mem)
    moreover have "?s \<notin> set (take k (dataSectors h))"
    proof -
      have "take k (dataSectors h) = take k (file_sectors h)" using Suc.prems by (simp add: file_sectors_def min_def)
      then have "distinct (take k (dataSectors h) @ [?s])"
        using distinct_take [OF assms(4), of "Suc k"] \<open>k < length (file_sectors h)\<close> \<open>file_sectors h ! k = ?s\<close>
        by (simp add: take_Suc_conv_app_nth)
      then show ?thesis by simp
    qed
    ultimately have used: "?s \<in> bm_used fm1" using assms(5) fm1(4) by auto
    then have r: "0 \<le> ?s" "?s < numBits fm1" using bm_used_range [of fm1] by auto
    obtain fm2 where fm2: "Bitmap_Clear fm1 ?s = Inr fm2" "bm_inv fm2" "numBits fm2 = numBits fm1"
      "bm_used fm2 = bm_used fm1 - {?s}"
      using Bitmap_Clear_in [OF fm1(2) r] by blast
    have "foldM ?f (upto_int (int (Suc k))) fm = Inr fm2"
      using fm1(1) fm2(1) k used Bitmap_Test_in [OF fm1(2) r]
      by (simp add: upto_int_Suc [of "int k", simplified add.commute])
    then show ?case using fm2 fm1(3,4) k by (auto simp: take_Suc_conv_app_nth)
  qed
  from this [of "nat (numSectors h)"] assms(2) show thesis
    using that by (auto simp: FileHeader_Deallocate_def file_sectors_def)
qed

section \<open>Properties\<close>

text \<open>
  A file header fits a sector and survives it.  A header whose numbers fit \<open>int\<close> is written as exactly
  \<open>SectorSize\<close> bytes, and \<open>FetchFrom\<close> reads back what \<open>WriteBack\<close> wrote, leaving every other sector alone.
\<close>

theorem FileHeader_roundtrip:
  assumes "header_ok h" "0 \<le> n" "n < int NumSectors"
  shows "\<exists>d'. FileHeader_WriteBack n h d = Inr d' \<and> FileHeader_FetchFrom n d' = Inr h \<and>
    (\<forall>m. m \<noteq> nat n \<longrightarrow> d' m = d m)"
  using assms header_roundtrip [OF assms(1)] write_sector_ok [OF assms(2,3), of "header_image h" d]
  by (simp add: FileHeader_WriteBack_def FileHeader_FetchFrom_def read_sector_def)

theorem FileHeader_roundtrip_witness:
  "\<exists>d'. FileHeader_WriteBack 7 \<lparr>numBytes = 200, numSectors = 2, dataSectors = 9 # 11 # replicate 28 0\<rparr>
      (\<lambda>_. replicate 128 0) = Inr d' \<and>
    FileHeader_FetchFrom 7 d' = Inr \<lparr>numBytes = 200, numSectors = 2, dataSectors = 9 # 11 # replicate 28 0\<rparr>"
proof -
  have "header_ok \<lparr>numBytes = 200, numSectors = 2, dataSectors = 9 # 11 # replicate 28 0\<rparr>"
    by (simp add: header_ok_def NumDirect_eq)
  from FileHeader_roundtrip [OF this, of 7] show ?thesis by (auto simp: disk_constants)
qed

text \<open>
  C34: \<open>FileHeader::Allocate\<close> gives out free space, and only that, up to the table it writes into.  With too few
  free sectors it returns false and changes no bit of the map.  With enough, a file of at most
  \<open>MaxFileSize\<close> bytes gets distinct sectors that were free and are marked afterwards; but the code does
  not check the size, and for a larger file it writes past the end of the table \<open>dataSectors\<close>.
\<close>

theorem FileHeader_Allocate_exact:
  assumes "bm_inv fm" "0 \<le> n" "length (dataSectors h) = NumDirect"
  shows "if numBits fm - int (card (bm_used fm)) < sectors_of n
    then FileHeader_Allocate fm n h = Inr (False, h\<lparr>numBytes := n, numSectors := sectors_of n\<rparr>, fm)
    else if n \<le> int MaxFileSize
    then \<exists>h' fm'. FileHeader_Allocate fm n h = Inr (True, h', fm') \<and> FileLength h' = n \<and>
      int (length (file_sectors h')) = sectors_of n \<and> distinct (file_sectors h') \<and>
      set (file_sectors h') \<inter> bm_used fm = {} \<and> bm_used fm' = bm_used fm \<union> set (file_sectors h') \<and>
      bm_inv fm' \<and> numBits fm' = numBits fm
    else FileHeader_Allocate fm n h = Inl OutOfBounds"
proof (cases "numBits fm - int (card (bm_used fm)) < sectors_of n \<or> int MaxFileSize < n")
  case True
  then show ?thesis using Allocate_full [OF assms(1)] Allocate_overflows [OF assms(1) _ _ assms(3)] by auto
next
  case False
  then obtain ss fm' where ss: "FileHeader_Allocate fm n h =
       Inr (True, h\<lparr>numBytes := n, numSectors := sectors_of n, dataSectors := ss @ drop (length ss) (dataSectors h)\<rparr>, fm')"
    "int (length ss) = sectors_of n" "distinct ss" "set ss \<inter> bm_used fm = {}" "set ss \<subseteq> {0..<numBits fm}"
    "bm_inv fm'" "numBits fm' = numBits fm" "bm_used fm' = bm_used fm \<union> set ss"
    using Allocate_fits [OF assms(1) _ assms(2) _ assms(3)] by (metis not_less)
  have "file_sectors (h\<lparr>numBytes := n, numSectors := sectors_of n, dataSectors := ss @ drop (length ss) (dataSectors h)\<rparr>) = ss"
    by (simp add: file_sectors_def flip: ss(2))
  with ss False show ?thesis by (simp add: FileLength_def)
qed

theorem FileHeader_Allocate_exact_witness:
  "\<exists>fm h' fm'. Bitmap_Bitmap 1024 = Inr fm \<and>
    FileHeader_Allocate fm 300 \<lparr>numBytes = 0, numSectors = 0, dataSectors = replicate 30 0\<rparr> = Inr (True, h', fm') \<and>
    FileHeader_Allocate fm 4000 \<lparr>numBytes = 0, numSectors = 0, dataSectors = replicate 30 0\<rparr> = Inl OutOfBounds \<and>
    length (file_sectors h') = 3"
proof -
  obtain fm where fm: "Bitmap_Bitmap 1024 = Inr fm" "bm_inv fm" "numBits fm = 1024" "bm_used fm = {}"
    using Bitmap_Bitmap_in [of 1024] by auto
  let ?h = "\<lparr>numBytes = 0, numSectors = 0, dataSectors = replicate 30 0\<rparr>"
  have s: "sectors_of 300 = 3" "sectors_of 4000 = 32" by (simp_all add: sectors_of_def divRoundUp_def SectorSize_def)
  have "length (dataSectors ?h) = NumDirect" by (simp add: NumDirect_eq)
  from FileHeader_Allocate_exact [OF fm(2) _ this, of 300] FileHeader_Allocate_exact [OF fm(2) _ this, of 4000]
  show ?thesis using fm s by (auto simp: MaxFileSize_def NumDirect_eq SectorSize_def)
qed

end
