(* ===== verification/Open_File.thy ===== *)
theory Open_File
  imports File_Header
begin

text \<open>
  Open files (\<open>filesys/openfile.h\<close>, \<open>filesys/openfile.cc\<close>, the version without \<open>FILESYS_STUB\<close>): reading and
  writing any stretch of bytes of a file whose disk is read and written by whole sectors.  A file is
  shown to be an array of bytes.
\<close>

section \<open>The code\<close>

record open_file =
  hdr :: file_header
  seekPosition :: int

definition OpenFile_OpenFile :: "int \<Rightarrow> platter \<Rightarrow> open_file res" where
  "OpenFile_OpenFile sector d =
     bindr (FileHeader_FetchFrom sector d) (\<lambda>h. Inr \<lparr>hdr = h, seekPosition = 0\<rparr>)"

definition OpenFile_Seek :: "int \<Rightarrow> open_file \<Rightarrow> open_file" where
  "OpenFile_Seek position f = f\<lparr>seekPosition := position\<rparr>"

definition GetCurrentPos :: "open_file \<Rightarrow> int" where
  "GetCurrentPos f = seekPosition f"

definition OpenFile_Length :: "open_file \<Rightarrow> int" where
  "OpenFile_Length f = FileLength (hdr f)"

text \<open>\<open>for (i = firstSector; i <= lastSec; i++)\<close>\<close>

definition read_sectors :: "file_header \<Rightarrow> int \<Rightarrow> int \<Rightarrow> platter \<Rightarrow> u8 list res" where
  "read_sectors h firstSector lastSec d =
     foldM (\<lambda>i buf.
       bindr (ByteToSector (i * int SectorSize) h) (\<lambda>s.
       bindr (read_sector s d) (\<lambda>bs. Inr (buf @ bs)))) [firstSector..lastSec] []"

definition write_sectors :: "file_header \<Rightarrow> int \<Rightarrow> int \<Rightarrow> u8 list \<Rightarrow> platter \<Rightarrow> platter res" where
  "write_sectors h firstSector lastSec buf d =
     foldM (\<lambda>i d.
       bindr (ByteToSector (i * int SectorSize) h) (\<lambda>s.
       bindr (bytes_at buf ((i - firstSector) * int SectorSize) (int SectorSize)) (\<lambda>bs.
       write_sector s bs d))) [firstSector..lastSec] d"

text \<open>The number of bytes read, and the bytes.\<close>

definition OpenFile_ReadAt :: "int \<Rightarrow> int \<Rightarrow> open_file \<Rightarrow> platter \<Rightarrow> (int \<times> u8 list) res" where
  "OpenFile_ReadAt n position f d =
     (let fileLength = FileLength (hdr f) in
      if n \<le> 0 \<or> position \<ge> fileLength then Inr (0, [])
      else
        let n = (if s32 (position + n) > fileLength then fileLength - position else n);
            firstSector = divRoundDown position (int SectorSize);
            lastSec = divRoundDown (s32 (position + n) - 1) (int SectorSize) in
        bindr (read_sectors (hdr f) firstSector lastSec d) (\<lambda>buf.
        bindr (bytes_at buf (position - firstSector * int SectorSize) n) (\<lambda>bs. Inr (n, bs))))"

text \<open>\<open>garbage\<close> is what the buffer, allocated with \<open>new\<close>, holds at first.\<close>

definition OpenFile_WriteAt ::
    "(nat \<Rightarrow> u8) \<Rightarrow> u8 list \<Rightarrow> int \<Rightarrow> int \<Rightarrow> open_file \<Rightarrow> platter \<Rightarrow> (int \<times> platter) res" where
  "OpenFile_WriteAt garbage from n position f d =
     (let fileLength = FileLength (hdr f) in
      if n \<le> 0 \<or> position \<ge> fileLength then Inr (0, d)
      else
        let n = (if s32 (position + n) > fileLength then fileLength - position else n);
            firstSector = divRoundDown position (int SectorSize);
            lastSec = divRoundDown (s32 (position + n) - 1) (int SectorSize);
            nSectors = 1 + lastSec - firstSector;
            buf = map garbage [0..<nat (nSectors * int SectorSize)];
            firstAligned = (position = firstSector * int SectorSize);
            lastAligned = (s32 (position + n) = (lastSec + 1) * int SectorSize) in
        bindr (if \<not> firstAligned
               then bindr (OpenFile_ReadAt (int SectorSize) (firstSector * int SectorSize) f d) (\<lambda>(_, bs).
                    bytes_put buf 0 bs)
               else Inr buf) (\<lambda>buf.
        bindr (if \<not> lastAligned \<and> (firstSector \<noteq> lastSec \<or> firstAligned)
               then bindr (OpenFile_ReadAt (int SectorSize) (lastSec * int SectorSize) f d) (\<lambda>(_, bs).
                    bytes_put buf ((lastSec - firstSector) * int SectorSize) bs)
               else Inr buf) (\<lambda>buf.
        bindr (bytes_at from 0 n) (\<lambda>bs.
        bindr (bytes_put buf (position - firstSector * int SectorSize) bs) (\<lambda>buf.
        bindr (write_sectors (hdr f) firstSector lastSec buf d) (\<lambda>d. Inr (n, d)))))))"

definition OpenFile_Read :: "int \<Rightarrow> open_file \<Rightarrow> platter \<Rightarrow> (int \<times> u8 list \<times> open_file) res" where
  "OpenFile_Read n f d =
     bindr (OpenFile_ReadAt n (seekPosition f) f d) (\<lambda>(result, bs).
     Inr (result, bs, f\<lparr>seekPosition := s32 (seekPosition f + result)\<rparr>))"

definition OpenFile_Write ::
    "(nat \<Rightarrow> u8) \<Rightarrow> u8 list \<Rightarrow> int \<Rightarrow> open_file \<Rightarrow> platter \<Rightarrow> (int \<times> open_file \<times> platter) res" where
  "OpenFile_Write garbage into n f d =
     bindr (OpenFile_WriteAt garbage into n (seekPosition f) f d) (\<lambda>(result, d).
     Inr (result, f\<lparr>seekPosition := s32 (seekPosition f + result)\<rparr>, d))"

section \<open>Files as arrays of bytes\<close>

definition file_byte :: "file_header \<Rightarrow> platter \<Rightarrow> nat \<Rightarrow> u8" where
  "file_byte h d k = d (nat (dataSectors h ! (k div SectorSize))) ! (k mod SectorSize)"

definition file_content :: "file_header \<Rightarrow> platter \<Rightarrow> u8 list" where
  "file_content h d = map (file_byte h d) [0..<nat (numBytes h)]"

definition file_ok :: "file_header \<Rightarrow> bool" where
  "file_ok h \<longleftrightarrow> header_ok h \<and> 0 \<le> numBytes h \<and> numBytes h \<le> int MaxFileSize \<and> numSectors h = sectors_of (numBytes h) \<and>
     distinct (file_sectors h) \<and> set (file_sectors h) \<subseteq> {0..<int NumSectors}"

lemma file_content_length [simp]: "length (file_content h d) = nat (numBytes h)"
  by (simp add: file_content_def)

lemma file_sector:
  assumes "file_ok h" "int (i * SectorSize) < numBytes h"
  shows "i < length (file_sectors h)" "file_sectors h ! i = dataSectors h ! i" "i < NumDirect"
    "0 \<le> dataSectors h ! i" "dataSectors h ! i < int NumSectors"
proof -
  have n: "0 \<le> numBytes h" "numSectors h = sectors_of (numBytes h)" "numBytes h \<le> int MaxFileSize"
    using assms(1) by (simp_all add: file_ok_def)
  have "int (i * SectorSize) < numSectors h * int SectorSize"
    using sectors_of_bounds(2) [OF n(1)] assms(2) unfolding n(2) by (rule less_le_trans [rotated])
  then have i: "int i < numSectors h" by (simp add: SectorSize_def)
  moreover have "numSectors h \<le> int NumDirect" using sectors_of_le [OF n(1)] n by simp
  ultimately show len: "i < length (file_sectors h)" "i < NumDirect" "file_sectors h ! i = dataSectors h ! i"
    using assms(1) by (simp_all add: file_sectors_def file_ok_def header_ok_def)
  have "file_sectors h ! i \<in> set (file_sectors h)" using len(1) by (rule nth_mem)
  then show "0 \<le> dataSectors h ! i" "dataSectors h ! i < int NumSectors"
    using assms(1) len(3) by (auto simp: file_ok_def)
qed

lemma ByteToSector_ok:
  assumes "file_ok h" "int (i * SectorSize) < numBytes h"
  shows "ByteToSector (int i * int SectorSize) h = Inr (dataSectors h ! i)"
proof -
  have "int i * int SectorSize sdiv int SectorSize = int i"
    by (subst sdiv_nonneg) (simp_all add: SectorSize_def)
  then show ?thesis
    using file_sector(3) [OF assms] assms(1) by (simp add: ByteToSector_def file_ok_def header_ok_def)
qed

text \<open>Stretches of blocks.\<close>

lemma map_block:
  assumes "length bs = n" "0 < n"
  shows "map (\<lambda>k. bs ! (k mod n)) [i * n..<i * n + n] = bs"
proof (rule nth_equalityI)
  fix j assume "j < length (map (\<lambda>k. bs ! (k mod n)) [i * n..<i * n + n])"
  then have "j < n" by simp
  then show "map (\<lambda>k. bs ! (k mod n)) [i * n..<i * n + n] ! j = bs ! j" by (simp add: mod_mult_self3)
qed (simp add: assms)

lemma file_block:
  assumes "file_ok h" "platter_ok d" "int (i * SectorSize) < numBytes h"
  shows "map (file_byte h d) [i * SectorSize..<i * SectorSize + SectorSize] = d (nat (dataSectors h ! i))"
proof -
  let ?bs = "d (nat (dataSectors h ! i))"
  have "length ?bs = SectorSize"
    using assms(2) file_sector(4,5) [OF assms(1,3)] by (simp add: platter_ok_def nat_less_iff)
  then have "map (\<lambda>k. ?bs ! (k mod SectorSize)) [i * SectorSize..<i * SectorSize + SectorSize] = ?bs"
    by (rule map_block) (simp add: SectorSize_def)
  moreover have "k div SectorSize = i" if "k \<in> set [i * SectorSize..<i * SectorSize + SectorSize]" for k
    using that by (auto simp: SectorSize_def)
  ultimately show ?thesis unfolding file_byte_def by (metis (mono_tags, lifting) map_cong)
qed

lemma upto_int_upt: "[int a..int b - 1] = map int [a..<b]"
proof (induction "b - a" arbitrary: a)
  case 0
  then show ?case by simp
next
  case (Suc n)
  then have "a < b" by simp
  then show ?case using Suc(1) [of "Suc a"] Suc(2) by (simp add: upt_conv_Cons upto.simps [of "int a"] add.commute)
qed

lemma read_sectors_ok:
  assumes "file_ok h" "platter_ok d" "a \<le> b" "b = 0 \<or> int ((b - 1) * SectorSize) < numBytes h"
  shows "read_sectors h (int a) (int b - 1) d = Inr (map (file_byte h d) [a * SectorSize..<b * SectorSize])"
  using assms(3,4)
proof (induction b)
  case 0
  then show ?case by (simp add: read_sectors_def)
next
  case (Suc b)
  show ?case
  proof (cases "a \<le> b")
    case False
    then have "a = Suc b" using Suc.prems(1) by simp
    then show ?thesis by (simp add: read_sectors_def)
  next
    case True
    have b: "int (b * SectorSize) < numBytes h" using Suc.prems by simp
    then have pb: "b = 0 \<or> int ((b - 1) * SectorSize) < numBytes h" by (cases b) (auto simp: SectorSize_def)
    note sec = file_sector(4,5) [OF assms(1) b]
    have "[int a..int b] = [int a..int b - 1] @ [int b]" using True upto_int_upt [of a "Suc b"] upto_int_upt [of a b] by simp
    moreover have "map (file_byte h d) [a * SectorSize..<Suc b * SectorSize] =
        map (file_byte h d) [a * SectorSize..<b * SectorSize] @ d (nat (dataSectors h ! b))"
      using True file_block [OF assms(1,2) b] upt_add_eq_append [of "a * SectorSize" "b * SectorSize" SectorSize]
      by (simp add: add.commute)
    ultimately show ?thesis
      using Suc.IH [OF True pb] ByteToSector_ok [OF assms(1) b] sec by (simp add: read_sectors_def read_sector_ok)
  qed
qed

lemma bytes_at_map:
  assumes "a \<le> p" "p + n \<le> b"
  shows "bytes_at (map f [a..<b]) (int p - int a) (int n) = Inr (map f [p..<p + n])"
proof -
  have "nat (int p - int a) = p - a" "int p - int a + int n \<le> int (b - a)" using assms by simp_all
  moreover have "take n (drop (p - a) [a..<b]) = [p..<p + n]" using assms by (simp add: take_upt)
  ultimately show ?thesis using assms(1) by (simp add: bytes_at_def take_map drop_map)
qed

lemma bytes_put_map:
  assumes "a \<le> p" "p + n \<le> b"
  shows "bytes_put (map f [a..<b]) (int p - int a) (map g [p..<p + n]) =
    Inr (map (\<lambda>k. if p \<le> k \<and> k < p + n then g k else f k) [a..<b])"
proof -
  let ?h = "\<lambda>k. if p \<le> k \<and> k < p + n then g k else f k"
  have split: "[a..<b] = [a..<p] @ [p..<p + n] @ [p + n..<b]"
    using assms by (metis le_add1 le_trans upt_add_eq_append le_add_diff_inverse)
  have "nat (int p - int a) = p - a" "int p - int a + int n \<le> int (b - a)" using assms by simp_all
  moreover have "take (p - a) [a..<b] = [a..<p]" "drop (p - a + n) [a..<b] = [p + n..<b]"
    using assms by (simp_all add: take_upt)
  moreover have "map ?h [a..<b] = map f [a..<p] @ map g [p..<p + n] @ map f [p + n..<b]"
    unfolding split map_append by simp
  ultimately show ?thesis using assms(1) by (simp add: bytes_put_def take_map drop_map)
qed

section \<open>Reading\<close>

text \<open>The sectors that a stretch of a file touches.\<close>

lemma sector_range:
  assumes "0 < n"
  shows "divRoundDown (int p) (int SectorSize) = int (p div SectorSize)"
    "divRoundDown (int (p + n) - 1) (int SectorSize) = int ((p + n - 1) div SectorSize + 1) - 1"
    "p div SectorSize * SectorSize \<le> p" "p + n \<le> ((p + n - 1) div SectorSize + 1) * SectorSize"
    "(p + n - 1) div SectorSize * SectorSize < p + n" "p div SectorSize \<le> (p + n - 1) div SectorSize"
    "p < (p div SectorSize + 1) * SectorSize"
proof -
  have e: "int (p + n) - 1 = int (p + n - 1)" using assms by simp
  have pos: "0 < SectorSize" by (simp add: SectorSize_def)
  show "divRoundDown (int p) (int SectorSize) = int (p div SectorSize)"
    using pos by (simp add: divRoundDown_def sdiv_nonneg zdiv_int)
  show "divRoundDown (int (p + n) - 1) (int SectorSize) = int ((p + n - 1) div SectorSize + 1) - 1"
    unfolding e using pos by (simp add: divRoundDown_def sdiv_nonneg zdiv_int)
  show "p div SectorSize * SectorSize \<le> p" by simp
  show "p + n \<le> ((p + n - 1) div SectorSize + 1) * SectorSize"
    using dividend_less_div_times [OF pos, of "p + n - 1"] assms by (simp add: distrib_right)
  show "(p + n - 1) div SectorSize * SectorSize < p + n"
    using div_times_less_eq_dividend [of "p + n - 1" SectorSize] assms by linarith
  show "p div SectorSize \<le> (p + n - 1) div SectorSize" using assms by (intro div_le_mono) simp
  show "p < (p div SectorSize + 1) * SectorSize" using dividend_less_div_times [OF pos, of p] by (simp add: add.commute)
qed

definition ReadAt_count :: "int \<Rightarrow> nat \<Rightarrow> file_header \<Rightarrow> nat" where
  "ReadAt_count n p h = min (nat n) (nat (numBytes h) - p)"

lemma ReadAt_ok:
  assumes f: "file_ok (hdr f)" "platter_ok d" and n: "int p + n < 2 ^ 31"
  shows "OpenFile_ReadAt n (int p) f d =
    Inr (int (ReadAt_count n p (hdr f)), map (file_byte (hdr f) d) [p..<p + ReadAt_count n p (hdr f)])"
proof (cases "n \<le> 0 \<or> numBytes (hdr f) \<le> int p")
  case True
  then show ?thesis by (auto simp: OpenFile_ReadAt_def FileLength_def ReadAt_count_def)
next
  case False
  let ?h = "hdr f" and ?m = "ReadAt_count n p (hdr f)"
  let ?a = "p div SectorSize" and ?b = "(p + ?m - 1) div SectorSize + 1"
  have s: "s32 (int p + n) = int p + n" using False n by (intro s32_id) simp_all
  have m: "(if s32 (int p + n) > numBytes ?h then numBytes ?h - int p else n) = int ?m" "0 < ?m"
    "int p + int ?m \<le> numBytes ?h"
    unfolding s ReadAt_count_def using False by (auto simp: min_def)
  have sm: "s32 (int p + int ?m) = int (p + ?m)"
    using s32_id [of "int p + int ?m"] m(3) f(1) by (simp add: file_ok_def MaxFileSize_def NumDirect_eq SectorSize_def)
  note r = sector_range [OF m(2), of p]
  have "(?b - 1) * SectorSize < p + ?m" using r(5) by simp
  then have "int ((?b - 1) * SectorSize) < numBytes ?h" using m(3) by linarith
  then have rd: "read_sectors ?h (int ?a) (int ?b - 1) d = Inr (map (file_byte ?h d) [?a * SectorSize..<?b * SectorSize])"
    by (intro read_sectors_ok f) (use r(6) in simp_all)
  have "bytes_at (map (file_byte ?h d) [?a * SectorSize..<?b * SectorSize]) (int p - int (?a * SectorSize)) (int ?m) =
      Inr (map (file_byte ?h d) [p..<p + ?m])"
    using r(3,4) by (rule bytes_at_map)
  then show ?thesis
    using False rd unfolding OpenFile_ReadAt_def FileLength_def Let_def m(1) sm r(1,2) by simp
qed

section \<open>Writing\<close>

lemma sectors_distinct:
  assumes "file_ok h" "int (i * SectorSize) < numBytes h" "int (j * SectorSize) < numBytes h"
    "nat (dataSectors h ! i) = nat (dataSectors h ! j)"
  shows "i = j"
proof -
  note i = file_sector [OF assms(1,2)] and j = file_sector [OF assms(1,3)]
  have "file_sectors h ! i = file_sectors h ! j" using assms(4) i(2,4) j(2,4) by simp
  then show ?thesis using i(1) j(1) assms(1) by (simp add: file_ok_def nth_eq_iff_index_eq)
qed

lemma write_sectors_ok:
  assumes "file_ok h" "platter_ok d" "a \<le> b" "b \<le> B" "b = 0 \<or> int ((b - 1) * SectorSize) < numBytes h"
  shows "\<exists>d'. write_sectors h (int a) (int b - 1) (map F [a * SectorSize..<B * SectorSize]) d = Inr d' \<and> platter_ok d' \<and>
    (\<forall>i. a \<le> i \<and> i < b \<longrightarrow> d' (nat (dataSectors h ! i)) = map F [i * SectorSize..<i * SectorSize + SectorSize]) \<and>
    (\<forall>s. s \<notin> (\<lambda>i. nat (dataSectors h ! i)) ` {a..<b} \<longrightarrow> d' s = d s)"
  using assms(3-5)
proof (induction b)
  case 0
  then show ?case using assms(2) by (simp add: write_sectors_def)
next
  case (Suc b)
  show ?case
  proof (cases "a \<le> b")
    case False
    then have "a = Suc b" using Suc.prems(1) by simp
    then show ?thesis using assms(2) by (intro exI [of _ d]) (auto simp: write_sectors_def)
  next
    case True
    have b: "int (b * SectorSize) < numBytes h" using Suc.prems by simp
    have below: "int (i * SectorSize) < numBytes h" if "i \<le> b" for i
    proof -
      have "i * SectorSize \<le> b * SectorSize" using that by (rule mult_le_mono1)
      then show ?thesis using b by linarith
    qed
    then have pb: "b = 0 \<or> int ((b - 1) * SectorSize) < numBytes h" by simp
    note sec = file_sector(4,5) [OF assms(1) b]
    let ?blk = "map F [b * SectorSize..<b * SectorSize + SectorSize]"
    obtain d1 where d1: "write_sectors h (int a) (int b - 1) (map F [a * SectorSize..<B * SectorSize]) d = Inr d1"
      "platter_ok d1" "\<And>i. a \<le> i \<Longrightarrow> i < b \<Longrightarrow> d1 (nat (dataSectors h ! i)) = map F [i * SectorSize..<i * SectorSize + SectorSize]"
      "\<And>s. s \<notin> (\<lambda>i. nat (dataSectors h ! i)) ` {a..<b} \<Longrightarrow> d1 s = d s"
      using Suc.IH [OF True _ pb] Suc.prems(2) by auto
    have e: "[int a..int b] = [int a..int b - 1] @ [int b]" using True upto_int_upt [of a "Suc b"] upto_int_upt [of a b] by simp
    have "a * SectorSize \<le> b * SectorSize" "Suc b * SectorSize \<le> B * SectorSize"
      by (rule mult_le_mono1 [OF True], rule mult_le_mono1 [OF Suc.prems(2)])
    then have "bytes_at (map F [a * SectorSize..<B * SectorSize]) (int (b * SectorSize) - int (a * SectorSize)) (int SectorSize) = Inr ?blk"
      by (intro bytes_at_map) simp_all
    then have "bytes_at (map F [a * SectorSize..<B * SectorSize]) ((int b - int a) * int SectorSize) (int SectorSize) = Inr ?blk"
      by (simp add: left_diff_distrib)
    moreover have "write_sector (dataSectors h ! b) ?blk d1 = Inr (d1(nat (dataSectors h ! b) := ?blk))"
      using sec by (rule write_sector_ok) simp
    ultimately have w: "write_sectors h (int a) (int (Suc b) - 1) (map F [a * SectorSize..<B * SectorSize]) d =
        Inr (d1(nat (dataSectors h ! b) := ?blk))"
      using d1(1) ByteToSector_ok [OF assms(1) b] by (simp add: write_sectors_def e)
    have other: "nat (dataSectors h ! i) \<noteq> nat (dataSectors h ! b)" if "i < b" for i
      using sectors_distinct [OF assms(1) below b, of i] that by auto
    show ?thesis
      unfolding w using d1 other True by (auto simp: platter_ok_def less_Suc_eq image_iff)
  qed
qed

lemma file_byte_written:
  assumes "file_ok h" "a \<le> b" "int k < numBytes h" "int ((b - 1) * SectorSize) < numBytes h" "0 < b"
    and d': "\<forall>i. a \<le> i \<and> i < b \<longrightarrow> d' (nat (dataSectors h ! i)) = map F [i * SectorSize..<i * SectorSize + SectorSize]"
      "\<forall>s. s \<notin> (\<lambda>i. nat (dataSectors h ! i)) ` {a..<b} \<longrightarrow> d' s = d s"
  shows "file_byte h d' k = (if a * SectorSize \<le> k \<and> k < b * SectorSize then F k else file_byte h d k)"
proof -
  have pos: "0 < SectorSize" by (simp add: SectorSize_def)
  let ?i = "k div SectorSize"
  have k: "?i * SectorSize + k mod SectorSize = k" "k mod SectorSize < SectorSize" using pos by simp_all
  have range: "a \<le> ?i \<and> ?i < b \<longleftrightarrow> a * SectorSize \<le> k \<and> k < b * SectorSize"
    using pos by (simp add: less_eq_div_iff_mult_less_eq div_less_iff_less_mult)
  have ki: "int (?i * SectorSize) < numBytes h" using k(1) assms(3) by linarith
  show ?thesis
  proof (cases "a \<le> ?i \<and> ?i < b")
    case True
    moreover have "k < ?i * SectorSize + SectorSize" using k by linarith
    ultimately have "file_byte h d' k = F (?i * SectorSize + k mod SectorSize)"
      using d'(1) k(2) by (simp add: file_byte_def)
    then show ?thesis using True range k(1) by simp
  next
    case False
    have "nat (dataSectors h ! ?i) \<noteq> nat (dataSectors h ! j)" if j: "j \<in> {a..<b}" for j
    proof
      assume eq: "nat (dataSectors h ! ?i) = nat (dataSectors h ! j)"
      have "j * SectorSize \<le> (b - 1) * SectorSize" using j by (intro mult_le_mono1) auto
      then have "int (j * SectorSize) < numBytes h" using assms(4) by linarith
      from sectors_distinct [OF assms(1) ki this eq] j False show False by simp
    qed
    then have "d' (nat (dataSectors h ! ?i)) = d (nat (dataSectors h ! ?i))" using d'(2) by blast
    moreover have "\<not> (a * SectorSize \<le> k \<and> k < b * SectorSize)" using False range by blast
    ultimately show ?thesis by (simp only: file_byte_def if_False)
  qed
qed

text \<open>A sector of the file, as far as the file goes, copied into the buffer.\<close>

lemma fill_sector:
  assumes f: "file_ok (hdr f)" "platter_ok d" and i: "int (i * SectorSize) < numBytes (hdr f)" "a \<le> i" "i < b"
  obtains G where
    "bindr (OpenFile_ReadAt (int SectorSize) (int i * int SectorSize) f d) (\<lambda>(_, bs).
       bytes_put (map F [a * SectorSize..<b * SectorSize]) ((int i - int a) * int SectorSize) bs) =
     Inr (map G [a * SectorSize..<b * SectorSize])"
    "\<And>k. G k = F k \<or> G k = file_byte (hdr f) d k"
    "\<And>k. i * SectorSize \<le> k \<Longrightarrow> k < i * SectorSize + SectorSize \<Longrightarrow> int k < numBytes (hdr f) \<Longrightarrow> G k = file_byte (hdr f) d k"
proof -
  let ?j = "ReadAt_count (int SectorSize) (i * SectorSize) (hdr f)"
  have "int (i * SectorSize) + int SectorSize < 2 ^ 31"
    using i(1) f(1) by (simp add: file_ok_def MaxFileSize_def NumDirect_eq SectorSize_def)
  from ReadAt_ok [OF f this] have rd: "OpenFile_ReadAt (int SectorSize) (int i * int SectorSize) f d =
      Inr (int ?j, map (file_byte (hdr f) d) [i * SectorSize..<i * SectorSize + ?j])" by simp
  have "a * SectorSize \<le> i * SectorSize" "Suc i * SectorSize \<le> b * SectorSize"
    by (rule mult_le_mono1 [OF i(2)], rule mult_le_mono1 [OF Suc_leI [OF i(3)]])
  moreover have "?j \<le> SectorSize" by (simp add: ReadAt_count_def)
  ultimately have put: "bytes_put (map F [a * SectorSize..<b * SectorSize]) (int (i * SectorSize) - int (a * SectorSize))
      (map (file_byte (hdr f) d) [i * SectorSize..<i * SectorSize + ?j]) =
    Inr (map (\<lambda>k. if i * SectorSize \<le> k \<and> k < i * SectorSize + ?j then file_byte (hdr f) d k else F k) [a * SectorSize..<b * SectorSize])"
    by (intro bytes_put_map) simp_all
  have "(int i - int a) * int SectorSize = int (i * SectorSize) - int (a * SectorSize)"
    by (simp add: left_diff_distrib)
  moreover have "k < i * SectorSize + ?j" if "i * SectorSize \<le> k" "k < i * SectorSize + SectorSize" "int k < numBytes (hdr f)" for k
    using that unfolding ReadAt_count_def by linarith
  ultimately show thesis
    by (intro that [of "\<lambda>k. if i * SectorSize \<le> k \<and> k < i * SectorSize + ?j then file_byte (hdr f) d k else F k"])
      (use rd put in simp_all)
qed

text \<open>The partial sectors at both ends are filled with what the file has there.\<close>

lemma fill_ends:
  assumes f: "file_ok (hdr f)" "platter_ok d" and l: "int (l * SectorSize) < numBytes (hdr f)" "a \<le> l"
  obtains G where
    "bindr (if fa then bindr (OpenFile_ReadAt (int SectorSize) (int a * int SectorSize) f d) (\<lambda>(_, bs).
              bytes_put (map F [a * SectorSize..<Suc l * SectorSize]) 0 bs)
            else Inr (map F [a * SectorSize..<Suc l * SectorSize])) (\<lambda>buf.
     if la \<and> (int a \<noteq> int l \<or> \<not> fa)
     then bindr (OpenFile_ReadAt (int SectorSize) (int l * int SectorSize) f d) (\<lambda>(_, bs).
            bytes_put buf ((int l - int a) * int SectorSize) bs)
     else Inr buf) = Inr (map G [a * SectorSize..<Suc l * SectorSize])"
    "\<And>k. fa \<Longrightarrow> a * SectorSize \<le> k \<Longrightarrow> k < a * SectorSize + SectorSize \<Longrightarrow> int k < numBytes (hdr f) \<Longrightarrow> G k = file_byte (hdr f) d k"
    "\<And>k. la \<Longrightarrow> l * SectorSize \<le> k \<Longrightarrow> k < l * SectorSize + SectorSize \<Longrightarrow> int k < numBytes (hdr f) \<Longrightarrow> G k = file_byte (hdr f) d k"
proof -
  have "a * SectorSize \<le> l * SectorSize" using l(2) by (rule mult_le_mono1)
  then have a: "int (a * SectorSize) < numBytes (hdr f)" using l(1) by linarith
  obtain F1 where F1: "(if fa then bindr (OpenFile_ReadAt (int SectorSize) (int a * int SectorSize) f d) (\<lambda>(_, bs).
              bytes_put (map F [a * SectorSize..<Suc l * SectorSize]) 0 bs)
            else Inr (map F [a * SectorSize..<Suc l * SectorSize])) = Inr (map F1 [a * SectorSize..<Suc l * SectorSize])"
    "\<And>k. fa \<Longrightarrow> a * SectorSize \<le> k \<Longrightarrow> k < a * SectorSize + SectorSize \<Longrightarrow> int k < numBytes (hdr f) \<Longrightarrow> F1 k = file_byte (hdr f) d k"
  proof (cases fa)
    case True
    have "a < Suc l" using l(2) by simp
    obtain G where G: "bindr (OpenFile_ReadAt (int SectorSize) (int a * int SectorSize) f d) (\<lambda>(_, bs).
         bytes_put (map F [a * SectorSize..<Suc l * SectorSize]) ((int a - int a) * int SectorSize) bs) =
        Inr (map G [a * SectorSize..<Suc l * SectorSize])"
      "\<And>k. G k = F k \<or> G k = file_byte (hdr f) d k"
      "\<And>k. a * SectorSize \<le> k \<Longrightarrow> k < a * SectorSize + SectorSize \<Longrightarrow> int k < numBytes (hdr f) \<Longrightarrow> G k = file_byte (hdr f) d k"
      using fill_sector [OF f a order_refl \<open>a < Suc l\<close>, of F] by blast
    show thesis by (rule that [of G]) (use G(1,3) True in simp_all)
  qed (use that [of F] in simp)
  show thesis
  proof (cases "la \<and> (int a \<noteq> int l \<or> \<not> fa)")
    case True
    obtain G where G: "bindr (OpenFile_ReadAt (int SectorSize) (int l * int SectorSize) f d) (\<lambda>(_, bs).
         bytes_put (map F1 [a * SectorSize..<Suc l * SectorSize]) ((int l - int a) * int SectorSize) bs) =
        Inr (map G [a * SectorSize..<Suc l * SectorSize])"
      "\<And>k. G k = F1 k \<or> G k = file_byte (hdr f) d k"
      "\<And>k. l * SectorSize \<le> k \<Longrightarrow> k < l * SectorSize + SectorSize \<Longrightarrow> int k < numBytes (hdr f) \<Longrightarrow> G k = file_byte (hdr f) d k"
      using fill_sector [OF f l lessI, of F1] by blast
    show thesis
    proof (rule that [of G])
      show "G k = file_byte (hdr f) d k"
        if "fa" "a * SectorSize \<le> k" "k < a * SectorSize + SectorSize" "int k < numBytes (hdr f)" for k
        using F1(2) [OF that] G(2) [of k] by simp
    qed (use F1(1) G(1,3) True in simp_all)
  next
    case False
    show thesis by (rule that [of F1]) (use F1 False in auto)
  qed
qed

lemma WriteAt_ok:
  assumes f: "file_ok (hdr f)" "platter_ok d" and n: "int p + n < 2 ^ 31"
    and len: "ReadAt_count n p (hdr f) \<le> length bs"
  shows "\<exists>d'. OpenFile_WriteAt garbage bs n (int p) f d = Inr (int (ReadAt_count n p (hdr f)), d') \<and> platter_ok d' \<and>
    (\<forall>k. int k < numBytes (hdr f) \<longrightarrow> file_byte (hdr f) d' k =
       (if p \<le> k \<and> k < p + ReadAt_count n p (hdr f) then bs ! (k - p) else file_byte (hdr f) d k)) \<and>
    (\<forall>s. int s \<notin> set (file_sectors (hdr f)) \<longrightarrow> d' s = d s)"
proof (cases "n \<le> 0 \<or> numBytes (hdr f) \<le> int p")
  case True
  then have "ReadAt_count n p (hdr f) = 0" by (auto simp: ReadAt_count_def)
  moreover have "OpenFile_WriteAt garbage bs n (int p) f d = Inr (0, d)"
    using True by (auto simp: OpenFile_WriteAt_def FileLength_def)
  ultimately show ?thesis using f(2) by (intro exI [of _ d]) auto
next
  case False
  let ?h = "hdr f" and ?m = "ReadAt_count n p (hdr f)"
  let ?a = "p div SectorSize" and ?l = "(p + ?m - 1) div SectorSize"
  let ?A = "?a * SectorSize" and ?L = "?l * SectorSize" and ?B = "Suc ?l * SectorSize"
  have s: "s32 (int p + n) = int p + n" using False n by (intro s32_id) simp_all
  have m: "(if s32 (int p + n) > numBytes ?h then numBytes ?h - int p else n) = int ?m" "0 < ?m"
    "int p + int ?m \<le> numBytes ?h"
    unfolding s ReadAt_count_def using False by (auto simp: min_def)
  have small: "numBytes ?h \<le> 3840"
    using f(1) by (simp add: file_ok_def MaxFileSize_def NumDirect_eq SectorSize_def)
  have sm: "s32 (int p + int ?m) = int (p + ?m)" using s32_id [of "int p + int ?m"] m(3) small by simp
  note r = sector_range [OF m(2), of p]
  have L: "int ?L < numBytes ?h" using r(5) m(3) by linarith
  have lS: "int (?l + 1) - 1 = int ?l" by simp
  let ?buf = "map garbage [0..<nat ((1 + int ?l - int ?a) * int SectorSize)]"
  have size: "nat ((1 + int ?l - int ?a) * int SectorSize) = ?B - ?A"
    using r(6) by (simp add: left_diff_distrib distrib_right nat_diff_distrib' flip: of_nat_mult of_nat_add)
  have buf: "?buf = map (\<lambda>k. garbage (k - ?A)) [?A..<?B]"
    unfolding size by (rule nth_equalityI) simp_all
  let ?fa = "int p \<noteq> int ?a * int SectorSize" and ?la = "int (p + ?m) \<noteq> (int ?l + 1) * int SectorSize"
  obtain G where G: "bindr (if ?fa then bindr (OpenFile_ReadAt (int SectorSize) (int ?a * int SectorSize) f d) (\<lambda>(_, bs).
              bytes_put (map (\<lambda>k. garbage (k - ?A)) [?A..<?B]) 0 bs)
            else Inr (map (\<lambda>k. garbage (k - ?A)) [?A..<?B])) (\<lambda>buf.
     if ?la \<and> (int ?a \<noteq> int ?l \<or> \<not> ?fa)
     then bindr (OpenFile_ReadAt (int SectorSize) (int ?l * int SectorSize) f d) (\<lambda>(_, bs).
            bytes_put buf ((int ?l - int ?a) * int SectorSize) bs)
     else Inr buf) = Inr (map G [?A..<?B])"
    "\<And>k. ?fa \<Longrightarrow> ?A \<le> k \<Longrightarrow> k < ?A + SectorSize \<Longrightarrow> int k < numBytes ?h \<Longrightarrow> G k = file_byte ?h d k"
    "\<And>k. ?la \<Longrightarrow> ?L \<le> k \<Longrightarrow> k < ?L + SectorSize \<Longrightarrow> int k < numBytes ?h \<Longrightarrow> G k = file_byte ?h d k"
    using fill_ends [OF f L r(6), where fa = ?fa and la = ?la and F = "\<lambda>k. garbage (k - ?A)"] by blast
  let ?F = "\<lambda>k. if p \<le> k \<and> k < p + ?m then bs ! (k - p) else G k"
  have from_bs: "bytes_at bs 0 (int ?m) = Inr (map (\<lambda>k. bs ! (k - p)) [p..<p + ?m])"
  proof -
    have "take ?m bs = map (\<lambda>k. bs ! (k - p)) [p..<p + ?m]"
      using len by (intro nth_equalityI) simp_all
    then show ?thesis using len by (simp add: bytes_at_def)
  qed
  have put: "bytes_put (map G [?A..<?B]) (int p - int ?A) (map (\<lambda>k. bs ! (k - p)) [p..<p + ?m]) = Inr (map ?F [?A..<?B])"
    by (rule bytes_put_map) (use r(3,4) in simp_all)
  obtain d' where d': "write_sectors ?h (int ?a) (int (Suc ?l) - 1) (map ?F [?A..<?B]) d = Inr d'" "platter_ok d'"
    "\<forall>i. ?a \<le> i \<and> i < Suc ?l \<longrightarrow> d' (nat (dataSectors ?h ! i)) = map ?F [i * SectorSize..<i * SectorSize + SectorSize]"
    "\<forall>s. s \<notin> (\<lambda>i. nat (dataSectors ?h ! i)) ` {?a..<Suc ?l} \<longrightarrow> d' s = d s"
    using write_sectors_ok [OF f, of ?a "Suc ?l" "Suc ?l" ?F] r(6) L by auto
  have "OpenFile_WriteAt garbage bs n (int p) f d = Inr (int ?m, d')"
    unfolding OpenFile_WriteAt_def FileLength_def Let_def m(1) sm r(1,2) lS buf
    using False
    by (simp only: if_False bindr_assoc [symmetric] not_not G(1) [unfolded not_not] bindr_simps(2) from_bs
        put [unfolded of_nat_mult] d'(1) [unfolded of_nat_Suc add_diff_cancel_left'])
  moreover have "file_byte ?h d' k = (if p \<le> k \<and> k < p + ?m then bs ! (k - p) else file_byte ?h d k)"
    if k: "int k < numBytes ?h" for k
  proof -
    have "file_byte ?h d' k = (if ?A \<le> k \<and> k < ?B then ?F k else file_byte ?h d k)"
      by (rule file_byte_written [OF f(1) _ k _ _ d'(3,4)]) (use r(6) L in simp_all)
    moreover have "G k = file_byte ?h d k" if "?A \<le> k" "k < p"
    proof -
      have "p \<noteq> ?A" "k < ?A + SectorSize" using that r(7) by simp_all
      moreover from this(1) have ?fa by (metis of_nat_eq_iff of_nat_mult)
      ultimately show ?thesis using G(2) that(1) k by blast
    qed
    moreover have "G k = file_byte ?h d k" if "p + ?m \<le> k" "k < ?B"
    proof -
      have "p + ?m \<noteq> ?B" using that by linarith
      then have ?la by (metis of_nat_eq_iff of_nat_mult of_nat_Suc add.commute)
      moreover have "?L \<le> k" "k < ?L + SectorSize" using that r(5) by auto
      ultimately show ?thesis using G(3) k by blast
    qed
    moreover have "p < ?A \<Longrightarrow> False" "?B < p + ?m \<Longrightarrow> False" using r(3,4) by simp_all
    ultimately show ?thesis by (auto split: if_splits)
  qed
  moreover have "d' s = d s" if "int s \<notin> set (file_sectors ?h)" for s
  proof -
    have "nat (dataSectors ?h ! i) \<noteq> s" if "i < Suc ?l" for i
    proof -
      have "i * SectorSize \<le> ?L" using that by (intro mult_le_mono1) simp
      then have i: "int (i * SectorSize) < numBytes ?h" using L by linarith
      have "dataSectors ?h ! i \<in> set (file_sectors ?h)" "0 \<le> dataSectors ?h ! i"
        using file_sector [OF f(1) i] nth_mem by fastforce+
      then show ?thesis using \<open>int s \<notin> set (file_sectors ?h)\<close> by auto
    qed
    then have "s \<notin> (\<lambda>i. nat (dataSectors ?h ! i)) ` {?a..<Suc ?l}" by fastforce
    then show ?thesis using d'(4) by blast
  qed
  ultimately show ?thesis using d'(2) by blast
qed

section \<open>Properties\<close>

lemma file_content_written:
  assumes "\<forall>k. int k < numBytes h \<longrightarrow> file_byte h d' k = (if p \<le> k \<and> k < p + m then bs ! (k - p) else file_byte h d k)"
    and "p + m \<le> nat (numBytes h) \<or> m = 0" "m \<le> length bs"
  shows "file_content h d' = take p (file_content h d) @ take m bs @ drop (p + m) (file_content h d)"
proof (rule nth_equalityI)
  show "length (file_content h d') = length (take p (file_content h d) @ take m bs @ drop (p + m) (file_content h d))"
    using assms(2,3) by auto
next
  fix k assume "k < length (file_content h d')"
  then have k: "k < nat (numBytes h)" by simp
  then have "file_byte h d' k = (if p \<le> k \<and> k < p + m then bs ! (k - p) else file_byte h d k)"
    using assms(1) by (simp add: zless_nat_eq_int_zless)
  then show "file_content h d' ! k = (take p (file_content h d) @ take m bs @ drop (p + m) (file_content h d)) ! k"
    using k assms(2,3) by (auto simp: file_content_def nth_append min_def)
qed

lemma OpenFile_bytes:
  assumes "file_ok (hdr f)" "platter_ok d" "int p + n < 2 ^ 31" "nat n \<le> length bs"
  defines "c \<equiv> file_content (hdr f) d"
  defines "m \<equiv> min (nat n) (length c - p)"
  shows "OpenFile_ReadAt n (int p) f d = Inr (int m, take m (drop p c)) \<and>
    (\<exists>d'. OpenFile_WriteAt garbage bs n (int p) f d = Inr (int m, d') \<and>
       file_content (hdr f) d' = take p c @ take m bs @ drop (p + m) c \<and> platter_ok d' \<and>
       (\<forall>s. int s \<notin> set (file_sectors (hdr f)) \<longrightarrow> d' s = d s))"
proof -
  have m: "ReadAt_count n p (hdr f) = m" by (simp add: ReadAt_count_def m_def c_def)
  have pm: "p + m \<le> nat (numBytes (hdr f)) \<or> m = 0" "m \<le> length bs" using assms(4) by (auto simp: m_def c_def)
  have "take m (drop p c) = map (file_byte (hdr f) d) [p..<p + m]"
    using pm(1) by (auto simp: c_def file_content_def take_map drop_map take_upt)
  moreover obtain d' where "OpenFile_WriteAt garbage bs n (int p) f d = Inr (int m, d')" "platter_ok d'"
    "\<forall>k. int k < numBytes (hdr f) \<longrightarrow> file_byte (hdr f) d' k =
       (if p \<le> k \<and> k < p + m then bs ! (k - p) else file_byte (hdr f) d k)"
    "\<forall>s. int s \<notin> set (file_sectors (hdr f)) \<longrightarrow> d' s = d s"
    using WriteAt_ok [OF assms(1,2,3), of bs garbage] pm(2) unfolding m by auto
  ultimately show ?thesis
    using ReadAt_ok [OF assms(1,2,3)] file_content_written [of "hdr f" d' p m bs d] pm unfolding m c_def by auto
qed

text \<open>
  C32: An open file is an array of bytes.  At every position \<open>ReadAt\<close> delivers the bytes of the file from there, as
  many as asked for and the file has, and \<open>WriteAt\<close> replaces exactly these bytes by the ones given: it keeps the
  rest of the file, although it writes whole sectors, whatever its buffer held at first, and it touches
  no sector that is not the file's.
\<close>

theorem OpenFile_is_byte_array:
  assumes "file_ok (hdr f)" "platter_ok d" "int p + n < 2 ^ 31" "nat n \<le> length bs"
  defines "c \<equiv> file_content (hdr f) d"
  defines "m \<equiv> min (nat n) (length c - p)"
  shows "OpenFile_ReadAt n (int p) f d = Inr (int m, take m (drop p c)) \<and>
    (\<exists>d'. OpenFile_WriteAt garbage bs n (int p) f d = Inr (int m, d') \<and>
       file_content (hdr f) d' = take p c @ take m bs @ drop (p + m) c \<and> platter_ok d' \<and>
       (\<forall>s. int s \<notin> set (file_sectors (hdr f)) \<longrightarrow> d' s = d s))"
  unfolding c_def m_def by (rule OpenFile_bytes [OF assms(1-4)])

definition example_file :: open_file where
  "example_file = \<lparr>hdr = \<lparr>numBytes = 200, numSectors = 2, dataSectors = 9 # 4 # replicate 28 0\<rparr>, seekPosition = 0\<rparr>"

lemma example_file_ok: "file_ok (hdr example_file)"
  by (simp add: file_ok_def example_file_def header_ok_def NumDirect_eq MaxFileSize_def file_sectors_def sectors_of_def
      divRoundUp_def disk_constants)

theorem OpenFile_is_byte_array_witness:
  "\<exists>d'. OpenFile_WriteAt (\<lambda>_. 85) [1, 2, 3, 4] 4 126 example_file (\<lambda>_. replicate 128 7) = Inr (4, d') \<and>
     file_content (hdr example_file) d' = replicate 126 7 @ [1, 2, 3, 4] @ replicate 70 7 \<and> d' 5 = replicate 128 7"
proof -
  have ok: "platter_ok (\<lambda>_. replicate 128 7)" by (simp add: platter_ok_def SectorSize_def)
  have "file_byte (hdr example_file) (\<lambda>_. replicate 128 7) = (\<lambda>_. 7)"
    by (simp add: file_byte_def SectorSize_def fun_eq_iff)
  moreover have "numBytes (hdr example_file) = 200" by (simp add: example_file_def)
  ultimately have c: "file_content (hdr example_file) (\<lambda>_. replicate 128 7) = replicate 200 7"
    by (simp add: file_content_def map_replicate_const)
  have "(5::int) \<notin> set (file_sectors (hdr example_file))" by (simp add: example_file_def file_sectors_def)
  with OpenFile_is_byte_array [OF example_file_ok ok, of 126 4 "[1, 2, 3, 4]" "\<lambda>_. 85"] show ?thesis
    unfolding c by (auto dest: spec [of _ 5])
qed

end
