(* ===== verification/Directory.thy ===== *)
theory Directory
  imports Bytes
begin

text \<open>
  The directory (\<open>filesys/directory.h\<close>, \<open>filesys/directory.cc\<close>): a table of file names and the sectors of
  their headers, kept as an array of structures that is read from and written to a file as it is in
  memory.  It is shown to be a finite map from names, cut to \<open>FileNameMaxLen\<close> characters, to sectors.
\<close>

section \<open>C strings\<close>

text \<open>A string is the bytes of the array that holds it; an access outside the array is a fault.\<close>

primrec strncmp_equal :: "nat \<Rightarrow> u8 list \<Rightarrow> u8 list \<Rightarrow> bool res" where
  "strncmp_equal 0 a b = Inr True"
| "strncmp_equal (Suc n) a b =
     bindr (aget a 0) (\<lambda>x. bindr (aget b 0) (\<lambda>y.
     if x \<noteq> y then Inr False else if x = 0 then Inr True else strncmp_equal n (tl a) (tl b)))"

text \<open>What \<open>strncpy\<close> writes: up to \<open>n\<close> characters, filled up with zeros.\<close>

primrec strncpy_bytes :: "nat \<Rightarrow> u8 list \<Rightarrow> u8 list res" where
  "strncpy_bytes 0 src = Inr []"
| "strncpy_bytes (Suc n) src =
     bindr (aget src 0) (\<lambda>x.
     if x = 0 then Inr (replicate (Suc n) 0)
     else bindr (strncpy_bytes n (tl src)) (\<lambda>bs. Inr (x # bs)))"

definition strncpy :: "u8 list \<Rightarrow> nat \<Rightarrow> u8 list \<Rightarrow> u8 list res" where
  "strncpy dst n src =
     bindr (strncpy_bytes n src) (\<lambda>bs.
     if n \<le> length dst then Inr (bs @ drop n dst) else Inl OutOfBounds)"

definition cstring :: "u8 list \<Rightarrow> u8 list \<Rightarrow> bool" where
  "cstring a s \<longleftrightarrow> 0 \<notin> set s \<and> (\<exists>rest. a = s @ 0 # rest)"

section \<open>The code\<close>

definition FileNameMaxLen :: nat where "FileNameMaxLen = 9"

text \<open>\<open>padding\<close> is the bytes of an entry between and behind its fields.\<close>

record directory_entry =
  inUse :: bool
  de_sector :: int
  de_name :: "u8 list"
  padding :: "u8 list"

definition sizeof_DirectoryEntry :: nat where "sizeof_DirectoryEntry = 20"

definition entry_image :: "directory_entry \<Rightarrow> u8 list" where
  "entry_image e =
     (if inUse e then 1 else 0) # take 3 (padding e) @ word_bytes (word_of_int (de_sector e)) @ de_name e @ drop 3 (padding e)"

definition image_entry :: "u8 list \<Rightarrow> directory_entry" where
  "image_entry bs =
     \<lparr>inUse = (bs ! 0 \<noteq> 0), de_sector = sint (bytes_word (drop 4 bs)),
      de_name = take (FileNameMaxLen + 1) (drop 8 bs), padding = take 3 (drop 1 bs) @ take 2 (drop 18 bs)\<rparr>"

definition table_image :: "directory_entry list \<Rightarrow> u8 list" where
  "table_image t = concat (map entry_image t)"

primrec image_table :: "nat \<Rightarrow> u8 list \<Rightarrow> directory_entry list" where
  "image_table 0 bs = []"
| "image_table (Suc n) bs = image_entry bs # image_table n (drop sizeof_DirectoryEntry bs)"

text \<open>\<open>garbage\<close> is what the new array holds.\<close>

definition Directory_Directory :: "directory_entry list \<Rightarrow> directory_entry list" where
  "Directory_Directory garbage = map (\<lambda>e. e\<lparr>inUse := False\<rparr>) garbage"

primrec FindIndex_from :: "int \<Rightarrow> directory_entry list \<Rightarrow> u8 list \<Rightarrow> int res" where
  "FindIndex_from i [] name = Inr (-1)"
| "FindIndex_from i (e # es) name =
     bindr (if inUse e then strncmp_equal FileNameMaxLen (de_name e) name else Inr False) (\<lambda>found.
     if found then Inr i else FindIndex_from (i + 1) es name)"

definition FindIndex :: "u8 list \<Rightarrow> directory_entry list \<Rightarrow> int res" where
  "FindIndex name table = FindIndex_from 0 table name"

definition Directory_Find :: "u8 list \<Rightarrow> directory_entry list \<Rightarrow> int res" where
  "Directory_Find name table =
     bindr (FindIndex name table) (\<lambda>i.
     if i \<noteq> -1 then bindr (aget table i) (\<lambda>e. Inr (de_sector e)) else Inr (-1))"

primrec Add_loop :: "u8 list \<Rightarrow> int \<Rightarrow> directory_entry list \<Rightarrow> (bool \<times> directory_entry list) res" where
  "Add_loop name newSector [] = Inr (False, [])"
| "Add_loop name newSector (e # es) =
     (if \<not> inUse e then
        bindr (strncpy (de_name e) FileNameMaxLen name) (\<lambda>n.
        Inr (True, e\<lparr>inUse := True, de_name := n, de_sector := newSector\<rparr> # es))
      else bindr (Add_loop name newSector es) (\<lambda>(b, es). Inr (b, e # es)))"

definition Directory_Add :: "u8 list \<Rightarrow> int \<Rightarrow> directory_entry list \<Rightarrow> (bool \<times> directory_entry list) res" where
  "Directory_Add name newSector table =
     bindr (FindIndex name table) (\<lambda>i.
     if i \<noteq> -1 then Inr (False, table) else Add_loop name newSector table)"

definition Directory_Remove :: "u8 list \<Rightarrow> directory_entry list \<Rightarrow> (bool \<times> directory_entry list) res" where
  "Directory_Remove name table =
     bindr (FindIndex name table) (\<lambda>i.
     if i = -1 then Inr (False, table)
     else bindr (aget table i) (\<lambda>e. bindr (aset table i (e\<lparr>inUse := False\<rparr>)) (\<lambda>table. Inr (True, table))))"

definition Directory_List :: "directory_entry list \<Rightarrow> u8 list list res" where
  "Directory_List table =
     foldM (\<lambda>e out. if inUse e then bindr (c_string (de_name e)) (\<lambda>s. Inr (out @ [s])) else Inr out) table []"

section \<open>Names\<close>

text \<open>The name of an entry is what precedes the first zero, at most \<open>FileNameMaxLen\<close> characters.\<close>

definition de_key :: "directory_entry \<Rightarrow> u8 list" where
  "de_key e = takeWhile (\<lambda>c. c \<noteq> 0) (take FileNameMaxLen (de_name e))"

lemma strncmp_equal_ok:
  assumes "n \<le> length a" "cstring b s"
  shows "strncmp_equal n a b = Inr (takeWhile (\<lambda>c. c \<noteq> 0) (take n a) = take n s)"
  using assms
proof (induction n arbitrary: a b s)
  case (Suc n)
  then obtain x a' where a: "a = x # a'" by (cases a) auto
  show ?case
  proof (cases s)
    case Nil
    then show ?thesis using Suc.prems(2) a by (auto simp: cstring_def)
  next
    case (Cons y s')
    then obtain rest where b: "b = y # s' @ 0 # rest" "y \<noteq> 0" "cstring (s' @ 0 # rest) s'"
      using Suc.prems(2) by (auto simp: cstring_def)
    show ?thesis using Suc.IH [of a' "s' @ 0 # rest" s'] Suc.prems(1) a b Cons by auto
  qed
qed simp

lemma strncpy_bytes_ok:
  assumes "cstring b s"
  shows "strncpy_bytes n b = Inr (take n s @ replicate (n - length s) 0)"
  using assms
proof (induction n arbitrary: b s)
  case (Suc n)
  show ?case
  proof (cases s)
    case Nil
    then show ?thesis using Suc.prems by (auto simp: cstring_def)
  next
    case (Cons y s')
    then obtain rest where b: "b = y # s' @ 0 # rest" "y \<noteq> 0" "cstring (s' @ 0 # rest) s'"
      using Suc.prems by (auto simp: cstring_def)
    show ?thesis using Suc.IH [of "s' @ 0 # rest" s'] b Cons by simp
  qed
qed simp

section \<open>A directory as a map\<close>

definition entry_ok :: "directory_entry \<Rightarrow> bool" where
  "entry_ok e \<longleftrightarrow> length (de_name e) = FileNameMaxLen + 1 \<and> length (padding e) = 5 \<and>
     - (2 ^ 31) \<le> de_sector e \<and> de_sector e < 2 ^ 31"

definition used_entries :: "directory_entry list \<Rightarrow> (u8 list \<times> int) list" where
  "used_entries t = map (\<lambda>e. (de_key e, de_sector e)) (filter inUse t)"

definition directory_ok :: "directory_entry list \<Rightarrow> bool" where
  "directory_ok t \<longleftrightarrow> list_all entry_ok t \<and> distinct (map fst (used_entries t))"

definition directory_map :: "directory_entry list \<Rightarrow> u8 list \<Rightarrow> int option" where
  "directory_map t = map_of (used_entries t)"

lemma used_entries_simps [simp]:
  "used_entries [] = []" "used_entries (t @ u) = used_entries t @ used_entries u"
  "used_entries (e # t) = (if inUse e then [(de_key e, de_sector e)] else []) @ used_entries t"
  by (simp_all add: used_entries_def)

lemma directory_ok_entry: "directory_ok t \<Longrightarrow> e \<in> set t \<Longrightarrow> entry_ok e"
  by (simp add: directory_ok_def list_all_iff)

text \<open>A search either ends at the entry of the name, or finds the name in no entry.\<close>

lemma FindIndex_from_ok:
  assumes "list_all entry_ok t" "cstring name s"
  shows "(\<exists>us e vs. t = us @ e # vs \<and> inUse e \<and> de_key e = take FileNameMaxLen s \<and>
      take FileNameMaxLen s \<notin> fst ` set (used_entries us) \<and> FindIndex_from i t name = Inr (i + int (length us))) \<or>
    take FileNameMaxLen s \<notin> fst ` set (used_entries t) \<and> FindIndex_from i t name = Inr (-1)"
  using assms(1)
proof (induction t arbitrary: i)
  case (Cons e t)
  have "FileNameMaxLen \<le> length (de_name e)" using Cons.prems by (simp add: entry_ok_def)
  note cmp = strncmp_equal_ok [OF this assms(2), folded de_key_def]
  show ?case
  proof (cases "inUse e \<and> de_key e = take FileNameMaxLen s")
    case True
    then show ?thesis using cmp by (intro disjI1 exI [of _ "[]"] exI [of _ e] exI [of _ t]) simp
  next
    case False
    then have step: "FindIndex_from i (e # t) name = FindIndex_from (i + 1) t name" using cmp by auto
    have "list_all entry_ok t" using Cons.prems by simp
    from Cons.IH [OF this, of "i + 1"] show ?thesis
    proof (elim disjE exE conjE, goal_cases)
      case (1 us e' vs)
      then show ?case using False step
        by (intro disjI1 exI [of _ "e # us"] exI [of _ e'] exI [of _ vs]) auto
    qed (use False step in auto)
  qed
qed simp

lemma FindIndex_cases:
  assumes "directory_ok t" "cstring name s"
  obtains (found) us e vs where "t = us @ e # vs" "inUse e" "de_key e = take FileNameMaxLen s"
      "FindIndex name t = Inr (int (length us))" "directory_map t (take FileNameMaxLen s) = Some (de_sector e)"
  | (absent) "directory_map t (take FileNameMaxLen s) = None" "FindIndex name t = Inr (-1)"
proof -
  have t: "list_all entry_ok t" "distinct (map fst (used_entries t))" using assms(1) by (simp_all add: directory_ok_def)
  have "directory_map t (take FileNameMaxLen s) = Some (de_sector e)"
    if "t = us @ e # vs" "inUse e" "de_key e = take FileNameMaxLen s" for us e vs
  proof -
    have "map_of (used_entries us) (take FileNameMaxLen s) = None"
      using that t(2) by (simp add: map_of_eq_None_iff)
    with that show ?thesis by (simp add: directory_map_def map_add_def)
  qed
  then show thesis
    using FindIndex_from_ok [OF t(1) assms(2), of 0] found absent
    by (auto simp: FindIndex_def directory_map_def map_of_eq_None_iff)
qed

lemma Directory_Find_ok:
  assumes "directory_ok t" "cstring name s"
  shows "Directory_Find name t = Inr (case directory_map t (take FileNameMaxLen s) of None \<Rightarrow> -1 | Some n \<Rightarrow> n)"
  using assms
proof (cases rule: FindIndex_cases)
  case (found us e vs)
  then show ?thesis by (simp add: Directory_Find_def)
qed (simp add: Directory_Find_def)

lemma map_of_insert_middle:
  assumes "distinct (map fst (xs @ (k, v) # ys))"
  shows "map_of (xs @ (k, v) # ys) = (map_of (xs @ ys))(k \<mapsto> v)" "(map_of (xs @ (k, v) # ys))(k := None) = map_of (xs @ ys)"
proof -
  have "map_of xs k = None" "map_of ys k = None" using assms by (auto simp: map_of_eq_None_iff)
  then show "map_of (xs @ (k, v) # ys) = (map_of (xs @ ys))(k \<mapsto> v)" "(map_of (xs @ (k, v) # ys))(k := None) = map_of (xs @ ys)"
    by (auto simp: fun_eq_iff map_add_def split: option.splits)
qed

lemma de_key_strncpy:
  assumes "0 \<notin> set s" "length n = FileNameMaxLen + 1"
  shows "de_key (e\<lparr>inUse := b, de_name := take FileNameMaxLen s @ replicate (FileNameMaxLen - length s) 0 @ drop FileNameMaxLen n, de_sector := x\<rparr>) =
    take FileNameMaxLen s"
proof -
  let ?m = "FileNameMaxLen" and ?z = "FileNameMaxLen - length s"
  have "take ?m (take ?m s @ replicate ?z 0 @ drop ?m n) = take ?m s @ replicate ?z 0"
    by (simp add: min_def)
  moreover have "takeWhile (\<lambda>c. c \<noteq> 0) (take ?m s @ replicate ?z 0) = take ?m s"
  proof -
    have "\<forall>c \<in> set (take ?m s). c \<noteq> 0" using assms(1) in_set_takeD by fastforce
    then show ?thesis by (simp add: takeWhile_append2)
  qed
  ultimately show ?thesis by (simp add: de_key_def)
qed

lemma Add_loop_ok:
  assumes "list_all entry_ok t" "cstring name s"
  shows "if list_all inUse t then Add_loop name x t = Inr (False, t)
    else \<exists>us e vs e'. t = us @ e # vs \<and> list_all inUse us \<and> \<not> inUse e \<and> Add_loop name x t = Inr (True, us @ e' # vs) \<and>
      inUse e' \<and> de_key e' = take FileNameMaxLen s \<and> de_sector e' = x \<and> length (de_name e') = FileNameMaxLen + 1 \<and>
      padding e' = padding e"
  using assms(1)
proof (induction t)
  case (Cons e t)
  show ?case
  proof (cases "inUse e")
    case True
    show ?thesis
    proof (cases "list_all inUse t")
      case False
      then obtain us e1 vs e2 where s: "t = us @ e1 # vs" "list_all inUse us" "\<not> inUse e1" "Add_loop name x t = Inr (True, us @ e2 # vs)"
        "inUse e2" "de_key e2 = take FileNameMaxLen s" "de_sector e2 = x" "length (de_name e2) = FileNameMaxLen + 1"
        "padding e2 = padding e1"
        using Cons by auto
      have neg: "\<not> list_all inUse (e # t)" using False by simp
      show ?thesis
        unfolding if_not_P [OF neg]
        by (rule exI [of _ "e # us"], rule exI [of _ e1], rule exI [of _ vs], rule exI [of _ e2]) (use s True in simp)
    qed (use Cons True in auto)
  next
    case False
    have n: "length (de_name e) = FileNameMaxLen + 1" using Cons.prems by (simp add: entry_ok_def)
    let ?n = "take FileNameMaxLen s @ replicate (FileNameMaxLen - length s) 0 @ drop FileNameMaxLen (de_name e)"
    have "0 \<notin> set s" using assms(2) by (simp add: cstring_def)
    note k = de_key_strncpy [OF this n, where e = e and b = True and x = x]
    have a: "Add_loop name x (e # t) = Inr (True, e\<lparr>inUse := True, de_name := ?n, de_sector := x\<rparr> # t)"
      using False n strncpy_bytes_ok [OF assms(2)] by (simp add: strncpy_def)
    have l: "length ?n = FileNameMaxLen + 1" using n by (simp add: min_def)
    have neg: "\<not> list_all inUse (e # t)" using False by simp
    show ?thesis
      unfolding if_not_P [OF neg]
      by (rule exI [of _ "[]"], rule exI [of _ e], rule exI [of _ t],
          rule exI [of _ "e\<lparr>inUse := True, de_name := ?n, de_sector := x\<rparr>"]) (use False a k l in simp)
  qed
qed simp

lemma Directory_Add_ok:
  assumes t: "directory_ok t" "cstring name s" and x: "- (2 ^ 31) \<le> x" "x < 2 ^ 31"
  shows "if directory_map t (take FileNameMaxLen s) \<noteq> None \<or> list_all inUse t
    then Directory_Add name x t = Inr (False, t)
    else \<exists>t'. Directory_Add name x t = Inr (True, t') \<and> directory_ok t' \<and> length t' = length t \<and>
      directory_map t' = (directory_map t)(take FileNameMaxLen s \<mapsto> x)"
  using t
proof (cases rule: FindIndex_cases)
  case absent
  have l: "list_all entry_ok t" using t(1) by (simp add: directory_ok_def)
  show ?thesis
  proof (cases "list_all inUse t")
    case True
    then show ?thesis using absent Add_loop_ok [OF l t(2), of x] by (simp add: Directory_Add_def)
  next
    case False
    then obtain us e vs e' where s: "t = us @ e # vs" "\<not> inUse e" "Add_loop name x t = Inr (True, us @ e' # vs)"
      "inUse e'" "de_key e' = take FileNameMaxLen s" "de_sector e' = x" "length (de_name e') = FileNameMaxLen + 1"
      "padding e' = padding e"
      using Add_loop_ok [OF l t(2), of x] by auto
    have "take FileNameMaxLen s \<notin> fst ` set (used_entries t)"
      using absent(1) by (simp add: directory_map_def map_of_eq_None_iff)
    then have d: "distinct (map fst (used_entries us @ (take FileNameMaxLen s, x) # used_entries vs))"
      using t(1) s(1,2) by (auto simp: directory_ok_def)
    have "entry_ok e'" using l s x by (simp add: entry_ok_def)
    then have "directory_ok (us @ e' # vs)"
      using l d s(1,4-6) by (simp add: directory_ok_def)
    moreover have "directory_map (us @ e' # vs) = (directory_map t)(take FileNameMaxLen s \<mapsto> x)"
      using map_of_insert_middle(1) [OF d] s(1,2,4-6) by (simp add: directory_map_def)
    ultimately show ?thesis using absent s(1,3) False by (simp add: Directory_Add_def)
  qed
qed (simp add: Directory_Add_def)

lemma Directory_Remove_ok:
  assumes t: "directory_ok t" "cstring name s"
  shows "if directory_map t (take FileNameMaxLen s) = None then Directory_Remove name t = Inr (False, t)
    else \<exists>t'. Directory_Remove name t = Inr (True, t') \<and> directory_ok t' \<and> length t' = length t \<and>
      directory_map t' = (directory_map t)(take FileNameMaxLen s := None) \<and> \<not> list_all inUse t'"
  using t
proof (cases rule: FindIndex_cases)
  case (found us e vs)
  let ?t = "us @ e\<lparr>inUse := False\<rparr> # vs"
  have d: "distinct (map fst (used_entries us @ (take FileNameMaxLen s, de_sector e) # used_entries vs))"
    using t(1) found(1-3) by (simp add: directory_ok_def)
  have "Directory_Remove name t = Inr (True, ?t)"
    using found(1,4) by (simp add: Directory_Remove_def)
  moreover have "directory_ok ?t"
    using t(1) found(1) d by (auto simp: directory_ok_def entry_ok_def)
  moreover have "directory_map ?t = (directory_map t)(take FileNameMaxLen s := None)"
    using map_of_insert_middle(2) [OF d] found(1-3) by (simp add: directory_map_def)
  ultimately show ?thesis using found by simp
qed (simp add: Directory_Remove_def)

section \<open>The image of a directory\<close>

lemma entry_image_length: "entry_ok e \<Longrightarrow> length (entry_image e) = sizeof_DirectoryEntry"
  by (simp add: entry_image_def entry_ok_def sizeof_DirectoryEntry_def FileNameMaxLen_def)

lemma image_entry_image:
  assumes "entry_ok e"
  shows "image_entry (entry_image e @ bs) = e"
proof -
  have l: "length (de_name e) = 10" "length (padding e) = 5" and s: "sint (word_of_int (de_sector e) :: u32) = de_sector e"
    using assms s32_id [of "de_sector e"] by (simp_all add: entry_ok_def FileNameMaxLen_def s32_def)
  obtain a b c d f where p: "padding e = [a, b, c, d, f]"
    using l(2) by (auto simp: length_Suc_conv numeral_eq_Suc)
  show ?thesis
    by (rule directory_entry.equality)
      (use l(1) s in \<open>simp_all add: image_entry_def entry_image_def p FileNameMaxLen_def eval_nat_numeral\<close>)
qed

lemma table_image_length: "list_all entry_ok t \<Longrightarrow> length (table_image t) = sizeof_DirectoryEntry * length t"
  by (induction t) (simp_all add: table_image_def entry_image_length)

lemma image_table_image: "list_all entry_ok t \<Longrightarrow> image_table (length t) (table_image t @ bs) = t"
proof (induction t)
  case (Cons e t)
  have "drop sizeof_DirectoryEntry (table_image (e # t) @ bs) = table_image t @ bs"
    using Cons.prems entry_image_length [of e] by (simp add: table_image_def)
  moreover have "image_entry (table_image (e # t) @ bs) = e"
    using Cons.prems image_entry_image [of e "table_image t @ bs"] by (simp add: table_image_def)
  ultimately show ?case using Cons by simp
qed simp

text \<open>
  \<open>strncpy\<close> ends no name of \<open>FileNameMaxLen\<close> characters with a zero, and nothing else writes the last byte
  of the array; unless the memory of the table happened to hold a zero there, \<open>List\<close> reads on.
\<close>

lemma Directory_List_overruns:
  assumes "entry_ok e" "0 \<notin> set (de_name e)" "0 \<notin> set name" "FileNameMaxLen \<le> length name"
  shows "\<exists>t. Directory_Add (name @ [0]) n (Directory_Directory [e]) = Inr (True, t) \<and> Directory_List t = Inl OutOfBounds"
proof -
  have c: "cstring (name @ [0]) name" using assms(3) by (simp add: cstring_def)
  have n: "0 \<notin> set (take FileNameMaxLen name @ drop FileNameMaxLen (de_name e))"
    using assms(2,3) by (auto dest: in_set_takeD in_set_dropD)
  have "FileNameMaxLen \<le> length (de_name e)" using assms(1) by (simp add: entry_ok_def)
  then have "strncpy (de_name e) FileNameMaxLen (name @ [0]) = Inr (take FileNameMaxLen name @ drop FileNameMaxLen (de_name e))"
    using strncpy_bytes_ok [OF c] assms(4) by (simp add: strncpy_def)
  then show ?thesis
    using n by (simp add: Directory_Add_def FindIndex_def Directory_Directory_def Directory_List_def c_string_def)
qed

section \<open>Programs over directories\<close>

lemma used_entries_card:
  assumes "directory_ok t"
  shows "card (dom (directory_map t)) = length (used_entries t)" "list_all inUse t \<longleftrightarrow> card (dom (directory_map t)) = length t"
proof -
  show c: "card (dom (directory_map t)) = length (used_entries t)"
    using assms distinct_card [of "map fst (used_entries t)"]
    by (simp add: directory_map_def dom_map_of_conv_image_fst directory_ok_def)
  have "length (filter inUse t) = length t \<longleftrightarrow> list_all inUse t"
    by (metis (no_types, lifting) filter_True length_filter_less list_all_iff order_less_irrefl)
  then show "list_all inUse t \<longleftrightarrow> card (dom (directory_map t)) = length t"
    unfolding c by (simp add: used_entries_def)
qed

datatype directory_op = DFind "u8 list" | DAdd "u8 list" u32 | DRemove "u8 list"

datatype directory_reply = DSector int | DBool bool

text \<open>A name is passed as an array of characters with a zero behind them.\<close>

fun Directory_step :: "directory_op \<Rightarrow> directory_entry list \<Rightarrow> (directory_reply \<times> directory_entry list) res" where
  "Directory_step (DFind name) t = bindr (Directory_Find (name @ [0]) t) (\<lambda>n. Inr (DSector n, t))"
| "Directory_step (DAdd name sector) t =
     bindr (Directory_Add (name @ [0]) (sint sector) t) (\<lambda>(b, t). Inr (DBool b, t))"
| "Directory_step (DRemove name) t = bindr (Directory_Remove (name @ [0]) t) (\<lambda>(b, t). Inr (DBool b, t))"

definition name_key :: "u8 list \<Rightarrow> u8 list" where
  "name_key name = take FileNameMaxLen (takeWhile (\<lambda>c. c \<noteq> 0) name)"

fun names_step :: "nat \<Rightarrow> directory_op \<Rightarrow> (u8 list \<Rightarrow> int option) \<Rightarrow> (directory_reply \<times> (u8 list \<Rightarrow> int option)) res" where
  "names_step n (DFind name) m = Inr (DSector (case m (name_key name) of None \<Rightarrow> -1 | Some x \<Rightarrow> x), m)"
| "names_step n (DAdd name sector) m =
     (if m (name_key name) \<noteq> None \<or> card (dom m) = n then Inr (DBool False, m)
      else Inr (DBool True, m(name_key name \<mapsto> sint sector)))"
| "names_step n (DRemove name) m =
     (if m (name_key name) = None then Inr (DBool False, m) else Inr (DBool True, m(name_key name := None)))"

definition directory_rel :: "nat \<Rightarrow> directory_entry list \<Rightarrow> (u8 list \<Rightarrow> int option) \<Rightarrow> bool" where
  "directory_rel n t m \<longleftrightarrow> directory_ok t \<and> length t = n \<and> directory_map t = m"

lemma cstring_array: "cstring (name @ [0]) (takeWhile (\<lambda>c. c \<noteq> 0) name)"
proof (cases "0 \<in> set name")
  case True
  then have "name = takeWhile (\<lambda>c. c \<noteq> 0) name @ 0 # tl (dropWhile (\<lambda>c. c \<noteq> 0) name)"
    by (metis (mono_tags, lifting) dropWhile_eq_Nil_conv hd_dropWhile list.collapse takeWhile_dropWhile_id)
  then show ?thesis unfolding cstring_def by (metis (mono_tags, lifting) append_Cons append_assoc set_takeWhileD)
next
  case False
  then have e: "takeWhile (\<lambda>c. c \<noteq> 0) name = name" by (metis (mono_tags, lifting) takeWhile_eq_all_conv)
  show ?thesis unfolding e cstring_def using False by simp
qed

interpretation dir: simulation "directory_rel n" Directory_step "names_step n" for n
proof unfold_locales
  fix t m x assume r: "directory_rel n t m"
  then have t: "directory_ok t" "length t = n" "directory_map t = m" by (simp_all add: directory_rel_def)
  note c = cstring_array and full = used_entries_card(2) [OF t(1)]
  show "refines (rel_prod (=) (directory_rel n)) (Directory_step x t) (names_step n x m)"
  proof (cases x)
    case (DFind name)
    then show ?thesis using Directory_Find_ok [OF t(1) c] t by (simp add: directory_rel_def name_key_def)
  next
    case (DAdd name sector)
    have "- (2 ^ 31) \<le> sint sector" "sint sector < 2 ^ 31" using sint_ge [of sector] sint_lt [of sector] by simp_all
    from Directory_Add_ok [OF t(1) c this, of name] show ?thesis
      using DAdd t full by (auto simp: directory_rel_def name_key_def split: if_splits)
  next
    case (DRemove name)
    then show ?thesis using Directory_Remove_ok [OF t(1) c, of name] t
      by (auto simp: directory_rel_def name_key_def split: if_splits)
  qed
qed

section \<open>Properties\<close>

text \<open>
  C33: A directory is a finite map with room for a fixed number of names.  Whatever sequence of \<open>Find\<close>, \<open>Add\<close>
  and \<open>Remove\<close> runs on a new directory, the replies are those of a map from names, cut to
  \<open>FileNameMaxLen\<close> characters, to sectors: so two names with the same first nine characters are the same
  file, \<open>Add\<close> is refused exactly for a name that is there or when the table is full, and no operation
  reads outside a string.
\<close>

theorem Directory_programs_refine_maps:
  assumes "list_all entry_ok garbage"
  shows "refines (rel_prod (=) (directory_rel (length garbage))) (run Directory_step ops (Directory_Directory garbage))
    (run (names_step (length garbage)) ops Map.empty)"
proof (rule dir.run_refines)
  have "filter inUse (Directory_Directory garbage) = []" by (simp add: Directory_Directory_def filter_empty_conv)
  moreover have "list_all entry_ok (Directory_Directory garbage)"
    using assms by (simp add: Directory_Directory_def list_all_iff entry_ok_def)
  ultimately show "directory_rel (length garbage) (Directory_Directory garbage) Map.empty"
    by (simp add: directory_rel_def directory_ok_def directory_map_def used_entries_def Directory_Directory_def)
qed

theorem Directory_programs_refine_maps_witness:
  "\<exists>t. run Directory_step [DAdd [97, 98] 5, DFind [97, 98], DRemove [97, 98], DFind [97, 98]]
      (Directory_Directory (replicate 10 \<lparr>inUse = True, de_sector = 0, de_name = replicate 10 3, padding = replicate 5 0\<rparr>)) =
    Inr ([DBool True, DSector 5, DBool True, DSector (-1)], t)"
proof -
  let ?g = "replicate 10 \<lparr>inUse = True, de_sector = 0, de_name = replicate 10 3, padding = replicate 5 0\<rparr> :: directory_entry list"
  let ?ops = "[DAdd [97, 98] 5, DFind [97, 98], DRemove [97, 98], DFind [97, 98]]"
  have "list_all entry_ok ?g" by (simp add: entry_ok_def FileNameMaxLen_def list_all_iff)
  from Directory_programs_refine_maps [OF this, of ?ops]
  have "refines (rel_prod (=) (directory_rel 10)) (run Directory_step ?ops (Directory_Directory ?g)) (run (names_step 10) ?ops Map.empty)"
    by (simp del: run.simps)
  moreover have "run (names_step 10) ?ops Map.empty =
      Inr ([DBool True, DSector 5, DBool True, DSector (-1)], Map.empty)"
    by (simp add: name_key_def FileNameMaxLen_def)
  ultimately show ?thesis by (auto simp: rel_sum.simps)
qed

end
