(* ===== verification/File_System.thy ===== *)
theory File_System
  imports Open_File Directory
begin

text \<open>
  The file system (\<open>filesys/filesys.h\<close>, \<open>filesys/filesys.cc\<close>, \<open>filesys/pbitmap.cc\<close>, the version without
  \<open>FILESYS_STUB\<close>): a map of the free sectors and a directory, both kept in files whose headers are in
  the sectors 0 and 1, and the files that the directory names.
\<close>

section \<open>The map of free sectors\<close>

definition PersistentBitmap_FetchFrom :: "open_file \<Rightarrow> platter \<Rightarrow> bitmap \<Rightarrow> bitmap res" where
  "PersistentBitmap_FetchFrom file d bm =
     bindr (OpenFile_ReadAt (numWords bm * 4) 0 file d) (\<lambda>(_, bs).
     Inr (bm\<lparr>bmap := bytes_words (length (bmap bm)) (bs @ drop (length bs) (words_bytes (bmap bm)))\<rparr>))"

definition PersistentBitmap_PersistentBitmap :: "open_file \<Rightarrow> int \<Rightarrow> platter \<Rightarrow> bitmap res" where
  "PersistentBitmap_PersistentBitmap file numItems d =
     bindr (Bitmap_Bitmap numItems) (PersistentBitmap_FetchFrom file d)"

definition PersistentBitmap_WriteBack :: "(nat \<Rightarrow> u8) \<Rightarrow> open_file \<Rightarrow> bitmap \<Rightarrow> platter \<Rightarrow> platter res" where
  "PersistentBitmap_WriteBack garbage file bm d =
     bindr (OpenFile_WriteAt garbage (words_bytes (bmap bm)) (numWords bm * 4) 0 file d) (\<lambda>(_, d). Inr d)"

section \<open>The directory in its file\<close>

definition Directory_FetchFrom :: "open_file \<Rightarrow> platter \<Rightarrow> directory_entry list \<Rightarrow> directory_entry list res" where
  "Directory_FetchFrom file d table =
     bindr (OpenFile_ReadAt (int (length table * sizeof_DirectoryEntry)) 0 file d) (\<lambda>(_, bs).
     Inr (image_table (length table) (bs @ drop (length bs) (table_image table))))"

definition Directory_WriteBack :: "(nat \<Rightarrow> u8) \<Rightarrow> open_file \<Rightarrow> directory_entry list \<Rightarrow> platter \<Rightarrow> platter res" where
  "Directory_WriteBack garbage file table d =
     bindr (OpenFile_WriteAt garbage (table_image table) (int (length table * sizeof_DirectoryEntry)) 0 file d)
       (\<lambda>(_, d). Inr d)"

section \<open>The file system\<close>

definition FreeMapSector :: int where "FreeMapSector = 0"
definition DirectorySector :: int where "DirectorySector = 1"
definition FreeMapFileSize :: int where "FreeMapFileSize = int NumSectors sdiv BitsInByte"
definition NumDirEntries :: nat where "NumDirEntries = 10"
definition DirectoryFileSize :: int where "DirectoryFileSize = int (sizeof_DirectoryEntry * NumDirEntries)"

text \<open>\<open>ListFile\<close> has the open files of the kernel; an entry is a file and its name.\<close>

record file_system =
  fs_disk :: platter
  freeMapFile :: open_file
  directoryFile :: open_file
  ListFile :: "(open_file \<times> u8 list) option list"

text \<open>What fresh memory holds: buffers, in the order they are allocated, directory tables and file headers.\<close>

record fresh =
  g_buf :: "nat \<Rightarrow> nat \<Rightarrow> u8"
  g_table :: "directory_entry list"
  g_hdr :: "nat \<Rightarrow> file_header"

text \<open>\<open>FileSystem::FileSystem\<close> up to the file table: \<open>format\<close> is the branch for a new disk, \<open>mount\<close> the other.\<close>

definition FileSystem_format :: "fresh \<Rightarrow> platter \<Rightarrow> file_system res" where
  "FileSystem_format g d =
     bindr (Bitmap_Bitmap (int NumSectors)) (\<lambda>freeMap.
     let directory = Directory_Directory (g_table g) in
     bindr (Bitmap_Mark freeMap FreeMapSector) (\<lambda>freeMap.
     bindr (Bitmap_Mark freeMap DirectorySector) (\<lambda>freeMap.
     bindr (FileHeader_Allocate freeMap FreeMapFileSize (g_hdr g 0)) (\<lambda>(ok, mapHdr, freeMap).
     bindr (ASSERT ok) (\<lambda>_.
     bindr (FileHeader_Allocate freeMap DirectoryFileSize (g_hdr g 1)) (\<lambda>(ok, dirHdr, freeMap).
     bindr (ASSERT ok) (\<lambda>_.
     bindr (FileHeader_WriteBack FreeMapSector mapHdr d) (\<lambda>d.
     bindr (FileHeader_WriteBack DirectorySector dirHdr d) (\<lambda>d.
     bindr (OpenFile_OpenFile FreeMapSector d) (\<lambda>freeMapFile.
     bindr (OpenFile_OpenFile DirectorySector d) (\<lambda>directoryFile.
     bindr (PersistentBitmap_WriteBack (g_buf g 0) freeMapFile freeMap d) (\<lambda>d.
     bindr (Directory_WriteBack (g_buf g 1) directoryFile directory d) (\<lambda>d.
     Inr \<lparr>fs_disk = d, freeMapFile = freeMapFile, directoryFile = directoryFile, ListFile = replicate 20 None\<rparr>)))))))))))))"

definition FileSystem_mount :: "platter \<Rightarrow> file_system res" where
  "FileSystem_mount d =
     bindr (OpenFile_OpenFile FreeMapSector d) (\<lambda>freeMapFile.
     bindr (OpenFile_OpenFile DirectorySector d) (\<lambda>directoryFile.
     Inr \<lparr>fs_disk = d, freeMapFile = freeMapFile, directoryFile = directoryFile, ListFile = replicate 20 None\<rparr>))"

primrec FindFreeSlot_from :: "nat \<Rightarrow> 'a option list \<Rightarrow> int" where
  "FindFreeSlot_from i [] = -1"
| "FindFreeSlot_from i (f # fs) = (if f = None then int i else FindFreeSlot_from (i + 1) fs)"

definition FindFreeSlot :: "file_system \<Rightarrow> int" where
  "FindFreeSlot fs = FindFreeSlot_from 2 (drop 2 (ListFile fs))"

definition FileSystem_Create :: "fresh \<Rightarrow> u8 list \<Rightarrow> int \<Rightarrow> file_system \<Rightarrow> (bool \<times> file_system) res" where
  "FileSystem_Create g name initialSize fs =
     (let d = fs_disk fs in
      bindr (Directory_FetchFrom (directoryFile fs) d (Directory_Directory (g_table g))) (\<lambda>directory.
      bindr (Directory_Find name directory) (\<lambda>found.
      if found \<noteq> -1 then Inr (False, fs)
      else
        bindr (PersistentBitmap_PersistentBitmap (freeMapFile fs) (int NumSectors) d) (\<lambda>freeMap.
        bindr (Bitmap_FindAndSet freeMap) (\<lambda>(sector, freeMap).
        if sector = -1 then Inr (False, fs)
        else
          bindr (Directory_Add name sector directory) (\<lambda>(added, directory).
          if \<not> added then Inr (False, fs)
          else
            bindr (FileHeader_Allocate freeMap initialSize (g_hdr g 0)) (\<lambda>(ok, hdr, freeMap).
            if \<not> ok then Inr (False, fs)
            else
              bindr (FileHeader_WriteBack sector hdr d) (\<lambda>d.
              bindr (Directory_WriteBack (g_buf g 0) (directoryFile fs) directory d) (\<lambda>d.
              bindr (PersistentBitmap_WriteBack (g_buf g 1) (freeMapFile fs) freeMap d) (\<lambda>d.
              Inr (True, fs\<lparr>fs_disk := d\<rparr>)))))))))))"

text \<open>The file found is opened, and forgotten; what is returned is an entry of the table.\<close>

definition FileSystem_Open :: "fresh \<Rightarrow> u8 list \<Rightarrow> file_system \<Rightarrow> (open_file \<times> u8 list) option res" where
  "FileSystem_Open g name fs =
     (let freeSlot = FindFreeSlot fs in
      bindr (Directory_FetchFrom (directoryFile fs) (fs_disk fs) (Directory_Directory (g_table g))) (\<lambda>directory.
      bindr (Directory_Find name directory) (\<lambda>sector.
      bindr (if sector \<ge> 0 then bindr (OpenFile_OpenFile sector (fs_disk fs)) (\<lambda>f. Inr (Some f)) else Inr None) (\<lambda>openFile.
      aget (ListFile fs) freeSlot))))"

definition FileSystem_Remove :: "fresh \<Rightarrow> u8 list \<Rightarrow> file_system \<Rightarrow> (bool \<times> file_system) res" where
  "FileSystem_Remove g name fs =
     (let d = fs_disk fs in
      bindr (Directory_FetchFrom (directoryFile fs) d (Directory_Directory (g_table g))) (\<lambda>directory.
      bindr (Directory_Find name directory) (\<lambda>sector.
      if sector = -1 then Inr (False, fs)
      else
        bindr (FileHeader_FetchFrom sector d) (\<lambda>fileHdr.
        bindr (PersistentBitmap_PersistentBitmap (freeMapFile fs) (int NumSectors) d) (\<lambda>freeMap.
        bindr (FileHeader_Deallocate freeMap fileHdr) (\<lambda>freeMap.
        bindr (Bitmap_Clear freeMap sector) (\<lambda>freeMap.
        bindr (Directory_Remove name directory) (\<lambda>(_, directory).
        bindr (PersistentBitmap_WriteBack (g_buf g 0) (freeMapFile fs) freeMap d) (\<lambda>d.
        bindr (Directory_WriteBack (g_buf g 1) (directoryFile fs) directory d) (\<lambda>d.
        Inr (True, fs\<lparr>fs_disk := d\<rparr>)))))))))))"

definition FileSystem_List :: "fresh \<Rightarrow> file_system \<Rightarrow> u8 list list res" where
  "FileSystem_List g fs =
     bindr (Directory_FetchFrom (directoryFile fs) (fs_disk fs) (Directory_Directory (g_table g))) Directory_List"

text \<open>\<open>"stdin"\<close> and \<open>"stdout"\<close>, and the whole constructor; \<open>p->fileName = ...\<close> needs \<open>p\<close> to point to a file.\<close>

definition stdin_name :: "u8 list" where "stdin_name = [115, 116, 100, 105, 110, 0]"
definition stdout_name :: "u8 list" where "stdout_name = [115, 116, 100, 111, 117, 116, 0]"

definition set_fileName :: "u8 list \<Rightarrow> (open_file \<times> u8 list) option \<Rightarrow> (open_file \<times> u8 list) option res" where
  "set_fileName name p = (case p of None \<Rightarrow> Inl NullDereference | Some (f, _) \<Rightarrow> Inr (Some (f, name)))"

definition FileSystem_FileSystem :: "bool \<Rightarrow> (nat \<Rightarrow> fresh) \<Rightarrow> platter \<Rightarrow> file_system res" where
  "FileSystem_FileSystem format g d =
     bindr (if format then FileSystem_format (g 0) d else FileSystem_mount d) (\<lambda>fs.
     bindr (FileSystem_Create (g 1) stdin_name 0 fs) (\<lambda>(_, fs).
     bindr (FileSystem_Create (g 2) stdout_name 0 fs) (\<lambda>(_, fs).
     bindr (FileSystem_Open (g 3) stdin_name fs) (\<lambda>f.
     bindr (set_fileName stdin_name f) (\<lambda>f.
     let fs = fs\<lparr>ListFile := (ListFile fs)[0 := f]\<rparr> in
     bindr (FileSystem_Open (g 4) stdout_name fs) (\<lambda>f.
     bindr (set_fileName stdout_name f) (\<lambda>f.
     Inr (fs\<lparr>ListFile := (ListFile fs)[1 := f]\<rparr>))))))))"

end
