(* ===== verification/File_System_Correct.thy ===== *)
theory File_System_Correct
  imports File_System
begin

text \<open>
  The file system keeps the disk in order.  Every sector belongs to the system files, or to the one
  file whose header or data it holds, and the map of free sectors says so; so a file that is created,
  written or removed changes no other.
\<close>

section \<open>What the system files hold\<close>

definition disk_map :: "open_file \<Rightarrow> platter \<Rightarrow> bitmap" where
  "disk_map f d = \<lparr>numBits = 1024, numWords = 32, bmap = bytes_words 32 (file_content (hdr f) d)\<rparr>"

definition disk_table :: "open_file \<Rightarrow> platter \<Rightarrow> directory_entry list" where
  "disk_table f d = image_table NumDirEntries (file_content (hdr f) d)"

lemma file_content_cong:
  assumes "file_ok h" "\<And>s. s \<in> set (file_sectors h) \<Longrightarrow> d' (nat s) = d (nat s)"
  shows "file_content h d' = file_content h d"
proof -
  have "file_byte h d' k = file_byte h d k" if "int k < numBytes h" for k
  proof -
    have "k div SectorSize * SectorSize \<le> k" by simp
    then have "int (k div SectorSize * SectorSize) < numBytes h" using that by linarith
    note sec = file_sector [OF assms(1) this]
    then have "dataSectors h ! (k div SectorSize) \<in> set (file_sectors h)" by (metis nth_mem)
    then show ?thesis using assms(2) by (simp add: file_byte_def)
  qed
  then show ?thesis by (simp add: file_content_def)
qed

lemma disk_map_inv [simp]: "bm_inv (disk_map f d)" "numBits (disk_map f d) = 1024"
  by (simp_all add: bm_inv_def disk_map_def divRoundUp_def)

lemma whole_file:
  assumes "file_ok (hdr f)" "platter_ok d" "numBytes (hdr f) = int n" "0 < n"
  shows "OpenFile_ReadAt (int n) 0 f d = Inr (int n, file_content (hdr f) d)"
    "length bs = n \<Longrightarrow> \<exists>d'. OpenFile_WriteAt garbage bs (int n) 0 f d = Inr (int n, d') \<and> file_content (hdr f) d' = bs \<and>
       platter_ok d' \<and> (\<forall>s. int s \<notin> set (file_sectors (hdr f)) \<longrightarrow> d' s = d s)"
proof -
  have "int 0 + int n < 2 ^ 31"
    using assms(1,3) by (simp add: file_ok_def MaxFileSize_def NumDirect_eq SectorSize_def)
  note b = OpenFile_bytes [OF assms(1,2) this]
  show "OpenFile_ReadAt (int n) 0 f d = Inr (int n, file_content (hdr f) d)"
    using b [of "replicate n 0"] assms(3) by simp
  show "\<exists>d'. OpenFile_WriteAt garbage bs (int n) 0 f d = Inr (int n, d') \<and> file_content (hdr f) d' = bs \<and>
       platter_ok d' \<and> (\<forall>s. int s \<notin> set (file_sectors (hdr f)) \<longrightarrow> d' s = d s)" if "length bs = n"
    using b [of bs garbage] that assms(3) by simp
qed

lemma Bitmap_1024: "\<exists>bm. Bitmap_Bitmap 1024 = Inr bm \<and> numBits bm = 1024 \<and> numWords bm = 32 \<and> length (bmap bm) = 32"
  using Bitmap_Bitmap_in [of 1024] by (auto simp: bm_inv_def divRoundUp_def)

lemma map_fetched:
  assumes "file_ok (hdr f)" "platter_ok d" "numBytes (hdr f) = 128"
  shows "PersistentBitmap_PersistentBitmap f (int NumSectors) d = Inr (disk_map f d)"
proof -
  obtain bm where bm: "Bitmap_Bitmap 1024 = Inr bm" "numBits bm = 1024" "numWords bm = 32" "length (bmap bm) = 32"
    using Bitmap_1024 by blast
  have "bm\<lparr>bmap := x\<rparr> = \<lparr>numBits = 1024, numWords = 32, bmap = x\<rparr>" for x using bm(2,3) by (cases bm) simp
  then show ?thesis
    using whole_file(1) [OF assms(1,2), of 128] assms(3) bm
    by (simp add: PersistentBitmap_PersistentBitmap_def PersistentBitmap_FetchFrom_def disk_map_def disk_constants)
qed

lemma map_written:
  assumes "file_ok (hdr f)" "platter_ok d" "numBytes (hdr f) = 128" and bm: "bm_inv bm" "numBits bm = 1024"
  shows "\<exists>d'. PersistentBitmap_WriteBack garbage f bm d = Inr d' \<and> disk_map f d' = bm \<and> platter_ok d' \<and>
    (\<forall>s. int s \<notin> set (file_sectors (hdr f)) \<longrightarrow> d' s = d s)"
proof -
  have n: "numWords bm = 32" "length (bmap bm) = 32" using bm by (simp_all add: bm_inv_def divRoundUp_def)
  have "bytes_words 32 (words_bytes (bmap bm)) = bmap bm"
    using bytes_words_bytes_n [OF n(2), of "[]"] by simp
  then have "disk_map f d' = bm" if "file_content (hdr f) d' = words_bytes (bmap bm)" for d'
    using that bm(2) n(1) by (cases bm) (simp add: disk_map_def)
  moreover have "length (words_bytes (bmap bm)) = 128" using n(2) by simp
  ultimately show ?thesis
    using whole_file(2) [OF assms(1,2), of 128 "words_bytes (bmap bm)" garbage] assms(3) n(1)
    by (auto simp: PersistentBitmap_WriteBack_def)
qed

lemma table_entries: "length bs = sizeof_DirectoryEntry * n \<Longrightarrow> list_all entry_ok (image_table n bs)"
proof (induction n arbitrary: bs)
  case (Suc n)
  have "20 \<le> length bs" using Suc.prems by (simp add: sizeof_DirectoryEntry_def)
  then have "entry_ok (image_entry bs)"
    using sint_ge [of "bytes_word (drop 4 bs)"] sint_lt [of "bytes_word (drop 4 bs)"]
    by (simp add: entry_ok_def image_entry_def FileNameMaxLen_def)
  then show ?case using Suc by (simp add: sizeof_DirectoryEntry_def)
qed simp

lemma image_table_length [simp]: "length (image_table n bs) = n"
  by (induction n arbitrary: bs) simp_all

definition fresh_ok :: "fresh \<Rightarrow> bool" where
  "fresh_ok g \<longleftrightarrow> length (g_table g) = NumDirEntries \<and> list_all entry_ok (g_table g) \<and> (\<forall>i. header_ok (g_hdr g i))"

lemma fresh_table:
  assumes "fresh_ok g"
  shows "length (Directory_Directory (g_table g)) = NumDirEntries" "list_all entry_ok (Directory_Directory (g_table g))"
  using assms by (auto simp: fresh_ok_def Directory_Directory_def list_all_iff entry_ok_def)

lemma table_fetched:
  assumes "file_ok (hdr f)" "platter_ok d" "numBytes (hdr f) = 200" "fresh_ok g"
  shows "Directory_FetchFrom f d (Directory_Directory (g_table g)) = Inr (disk_table f d)"
  using whole_file(1) [OF assms(1,2), of 200] assms(3) fresh_table [OF assms(4)] table_image_length
  by (simp add: Directory_FetchFrom_def disk_table_def sizeof_DirectoryEntry_def NumDirEntries_def)

lemma table_written:
  assumes "file_ok (hdr f)" "platter_ok d" "numBytes (hdr f) = 200" "list_all entry_ok t" "length t = NumDirEntries"
  shows "\<exists>d'. Directory_WriteBack garbage f t d = Inr d' \<and> disk_table f d' = t \<and> platter_ok d' \<and>
    (\<forall>s. int s \<notin> set (file_sectors (hdr f)) \<longrightarrow> d' s = d s)"
proof -
  have l: "length (table_image t) = 200"
    using table_image_length [OF assms(4)] assms(5) by (simp add: sizeof_DirectoryEntry_def NumDirEntries_def)
  have "image_table NumDirEntries (table_image t) = t" using image_table_image [OF assms(4), of "[]"] assms(5) by simp
  then show ?thesis
    using whole_file(2) [OF assms(1,2), of 200, OF _ _ l, of garbage] assms(3,5)
    by (auto simp: Directory_WriteBack_def disk_table_def sizeof_DirectoryEntry_def NumDirEntries_def)
qed

section \<open>A disk in order\<close>

definition header_at :: "platter \<Rightarrow> int \<Rightarrow> file_header" where
  "header_at d s = image_header (d (nat s))"

definition extent :: "platter \<Rightarrow> int \<Rightarrow> int set" where
  "extent d s = insert s (set (file_sectors (header_at d s)))"

definition fs_map :: "file_system \<Rightarrow> bitmap" where
  "fs_map fs = disk_map (freeMapFile fs) (fs_disk fs)"

definition fs_table :: "file_system \<Rightarrow> directory_entry list" where
  "fs_table fs = disk_table (directoryFile fs) (fs_disk fs)"

definition reserved :: "file_system \<Rightarrow> int set" where
  "reserved fs = {0, 1} \<union> set (file_sectors (hdr (freeMapFile fs))) \<union> set (file_sectors (hdr (directoryFile fs)))"

definition system_ok :: "file_system \<Rightarrow> bool" where
  "system_ok fs \<longleftrightarrow>
     platter_ok (fs_disk fs) \<and>
     file_ok (hdr (freeMapFile fs)) \<and> numBytes (hdr (freeMapFile fs)) = 128 \<and> header_at (fs_disk fs) 0 = hdr (freeMapFile fs) \<and>
     file_ok (hdr (directoryFile fs)) \<and> numBytes (hdr (directoryFile fs)) = 200 \<and> header_at (fs_disk fs) 1 = hdr (directoryFile fs) \<and>
     {0, 1} \<inter> (set (file_sectors (hdr (freeMapFile fs))) \<union> set (file_sectors (hdr (directoryFile fs)))) = {} \<and>
     set (file_sectors (hdr (freeMapFile fs))) \<inter> set (file_sectors (hdr (directoryFile fs))) = {}"

definition files_ok :: "int set \<Rightarrow> platter \<Rightarrow> (u8 list \<Rightarrow> int option) \<Rightarrow> bool" where
  "files_ok R d M \<longleftrightarrow>
     (\<forall>k s. M k = Some s \<longrightarrow> 0 \<le> s \<and> s < int NumSectors \<and> file_ok (header_at d s) \<and>
        s \<notin> set (file_sectors (header_at d s)) \<and> extent d s \<inter> R = {}) \<and>
     (\<forall>k1 s1 k2 s2. M k1 = Some s1 \<longrightarrow> M k2 = Some s2 \<longrightarrow> k1 \<noteq> k2 \<longrightarrow> extent d s1 \<inter> extent d s2 = {})"

definition fs_ok :: "file_system \<Rightarrow> bool" where
  "fs_ok fs \<longleftrightarrow>
     system_ok fs \<and> directory_ok (fs_table fs) \<and>
     files_ok (reserved fs) (fs_disk fs) (directory_map (fs_table fs)) \<and>
     bm_used (fs_map fs) = reserved fs \<union> (\<Union>s \<in> ran (directory_map (fs_table fs)). extent (fs_disk fs) s)"

text \<open>What a client sees: names and the bytes of their files.\<close>

definition fs_files :: "file_system \<Rightarrow> u8 list \<Rightarrow> u8 list option" where
  "fs_files fs name = map_option (\<lambda>s. file_content (header_at (fs_disk fs) s) (fs_disk fs)) (directory_map (fs_table fs) name)"

lemma extent_cong: "d' (nat s) = d (nat s) \<Longrightarrow> header_at d' s = header_at d s \<and> extent d' s = extent d s"
  by (simp add: header_at_def extent_def)

section \<open>Writing the system files back\<close>

lemma system_okD:
  assumes "system_ok fs"
  shows "platter_ok (fs_disk fs)" "file_ok (hdr (freeMapFile fs))" "numBytes (hdr (freeMapFile fs)) = 128"
    "file_ok (hdr (directoryFile fs))" "numBytes (hdr (directoryFile fs)) = 200"
    "header_at (fs_disk fs) 0 = hdr (freeMapFile fs)" "header_at (fs_disk fs) 1 = hdr (directoryFile fs)"
    "0 \<notin> set (file_sectors (hdr (freeMapFile fs)))" "1 \<notin> set (file_sectors (hdr (freeMapFile fs)))"
    "0 \<notin> set (file_sectors (hdr (directoryFile fs)))" "1 \<notin> set (file_sectors (hdr (directoryFile fs)))"
    "set (file_sectors (hdr (freeMapFile fs))) \<inter> set (file_sectors (hdr (directoryFile fs))) = {}"
  using assms unfolding system_ok_def by auto

lemma file_sectors_nonneg: "file_ok h \<Longrightarrow> s \<in> set (file_sectors h) \<Longrightarrow> 0 \<le> s \<and> s < int NumSectors"
  unfolding file_ok_def by fastforce

text \<open>\<open>d'\<close> has the new table and map, and differs from \<open>d1\<close> in the sectors of the system files only.\<close>

definition committed :: "file_system \<Rightarrow> directory_entry list \<Rightarrow> bitmap \<Rightarrow> platter \<Rightarrow> platter \<Rightarrow> bool" where
  "committed fs t bm d1 d' \<longleftrightarrow>
     system_ok (fs\<lparr>fs_disk := d'\<rparr>) \<and> fs_table (fs\<lparr>fs_disk := d'\<rparr>) = t \<and> fs_map (fs\<lparr>fs_disk := d'\<rparr>) = bm \<and>
     (\<forall>s. int s \<notin> set (file_sectors (hdr (freeMapFile fs))) \<union> set (file_sectors (hdr (directoryFile fs))) \<longrightarrow> d' s = d1 s)"

lemma disk_table_cong:
  "file_ok (hdr f) \<Longrightarrow> (\<And>s. s \<in> set (file_sectors (hdr f)) \<Longrightarrow> d' (nat s) = d (nat s)) \<Longrightarrow> disk_table f d' = disk_table f d"
  using file_content_cong unfolding disk_table_def by metis

lemma disk_map_cong:
  "file_ok (hdr f) \<Longrightarrow> (\<And>s. s \<in> set (file_sectors (hdr f)) \<Longrightarrow> d' (nat s) = d (nat s)) \<Longrightarrow> disk_map f d' = disk_map f d"
  using file_content_cong unfolding disk_map_def by metis

lemma system_headers:
  assumes fs: "system_ok fs" and d1: "d1 0 = fs_disk fs 0" "d1 1 = fs_disk fs 1"
    and d': "platter_ok d'" "\<And>s. int s \<notin> set (file_sectors (hdr (freeMapFile fs))) \<union> set (file_sectors (hdr (directoryFile fs))) \<Longrightarrow> d' s = d1 s"
  shows "system_ok (fs\<lparr>fs_disk := d'\<rparr>)"
proof -
  note s = system_okD [OF fs]
  have "d' 0 = fs_disk fs 0" "d' 1 = fs_disk fs 1" using d'(2) [of 0] d'(2) [of 1] s(8-11) d1 by simp_all
  then show ?thesis using s d'(1) unfolding system_ok_def by (simp add: header_at_def)
qed

lemma commit_table_map:
  assumes fs: "system_ok fs" and d1: "platter_ok d1" "d1 0 = fs_disk fs 0" "d1 1 = fs_disk fs 1"
    and t: "list_all entry_ok t" "length t = NumDirEntries" and bm: "bm_inv bm" "numBits bm = 1024"
  shows "\<exists>d2 d'. Directory_WriteBack g0 (directoryFile fs) t d1 = Inr d2 \<and>
    PersistentBitmap_WriteBack g1 (freeMapFile fs) bm d2 = Inr d' \<and> committed fs t bm d1 d'"
proof -
  note s = system_okD [OF fs]
  obtain d2 where d2: "Directory_WriteBack g0 (directoryFile fs) t d1 = Inr d2" "disk_table (directoryFile fs) d2 = t" "platter_ok d2"
    "\<And>s. int s \<notin> set (file_sectors (hdr (directoryFile fs))) \<Longrightarrow> d2 s = d1 s"
    using table_written [OF s(4) d1(1) s(5) t] by blast
  obtain d' where d': "PersistentBitmap_WriteBack g1 (freeMapFile fs) bm d2 = Inr d'" "disk_map (freeMapFile fs) d' = bm" "platter_ok d'"
    "\<And>s. int s \<notin> set (file_sectors (hdr (freeMapFile fs))) \<Longrightarrow> d' s = d2 s"
    using map_written [OF s(2) d2(3) s(3) bm] by blast
  have "d' (nat x) = d2 (nat x)" if "x \<in> set (file_sectors (hdr (directoryFile fs)))" for x
    by (rule d'(4)) (use that s(12) file_sectors_nonneg [OF s(4) that] in auto)
  then have "disk_table (directoryFile fs) d' = t" using disk_table_cong [OF s(4)] d2(2) by metis
  moreover have "system_ok (fs\<lparr>fs_disk := d'\<rparr>)"
    by (rule system_headers [OF fs d1(2,3) d'(3)]) (use d2(4) d'(4) in auto)
  ultimately have "committed fs t bm d1 d'"
    using d2(4) d'(2,4) by (simp add: committed_def fs_table_def fs_map_def)
  with d2(1) d'(1) show ?thesis by blast
qed

lemma commit_map_table:
  assumes fs: "system_ok fs" and t: "list_all entry_ok t" "length t = NumDirEntries" and bm: "bm_inv bm" "numBits bm = 1024"
  shows "\<exists>d2 d'. PersistentBitmap_WriteBack g0 (freeMapFile fs) bm (fs_disk fs) = Inr d2 \<and>
    Directory_WriteBack g1 (directoryFile fs) t d2 = Inr d' \<and> committed fs t bm (fs_disk fs) d'"
proof -
  note s = system_okD [OF fs]
  obtain d2 where d2: "PersistentBitmap_WriteBack g0 (freeMapFile fs) bm (fs_disk fs) = Inr d2" "disk_map (freeMapFile fs) d2 = bm" "platter_ok d2"
    "\<And>s. int s \<notin> set (file_sectors (hdr (freeMapFile fs))) \<Longrightarrow> d2 s = fs_disk fs s"
    using map_written [OF s(2,1,3) bm] by blast
  obtain d' where d': "Directory_WriteBack g1 (directoryFile fs) t d2 = Inr d'" "disk_table (directoryFile fs) d' = t" "platter_ok d'"
    "\<And>s. int s \<notin> set (file_sectors (hdr (directoryFile fs))) \<Longrightarrow> d' s = d2 s"
    using table_written [OF s(4) d2(3) s(5) t] by blast
  have "d' (nat x) = d2 (nat x)" if "x \<in> set (file_sectors (hdr (freeMapFile fs)))" for x
    by (rule d'(4)) (use that s(12) file_sectors_nonneg [OF s(2) that] in auto)
  then have "disk_map (freeMapFile fs) d' = bm" using disk_map_cong [OF s(2)] d2(2) by metis
  moreover have "system_ok (fs\<lparr>fs_disk := d'\<rparr>)"
    by (rule system_headers [OF fs refl refl d'(3)]) (use d2(4) d'(4) in auto)
  ultimately have "committed fs t bm (fs_disk fs) d'"
    using d2(4) d'(2,4) by (simp add: committed_def fs_table_def fs_map_def)
  with d2(1) d'(1) show ?thesis by blast
qed

section \<open>Files that an operation leaves alone\<close>

lemma extent_kept:
  assumes "files_ok R d M" "M k = Some s" "\<And>x. x \<in> extent d s \<Longrightarrow> d' (nat x) = d (nat x)"
  shows "header_at d' s = header_at d s" "extent d' s = extent d s"
    "file_content (header_at d' s) d' = file_content (header_at d s) d"
proof -
  have "d' (nat s) = d (nat s)" using assms(3) [of s] by (simp add: extent_def)
  note e = extent_cong [of d' s d, OF this]
  show h: "header_at d' s = header_at d s" using e by (rule conjunct1)
  show "extent d' s = extent d s" using e by (rule conjunct2)
  have ok: "file_ok (header_at d s)" using assms(1,2) unfolding files_ok_def by blast
  have "d' (nat x) = d (nat x)" if "x \<in> set (file_sectors (header_at d s))" for x
  proof (rule assms(3))
    show "x \<in> extent d s" using that by (simp only: extent_def insert_iff simp_thms)
  qed
  from file_content_cong [where d' = d' and d = d, OF ok this] show "file_content (header_at d' s) d' = file_content (header_at d s) d"
    unfolding h .
qed

lemma files_ok_extent:
  assumes "files_ok R d M" "M k = Some s" "x \<in> extent d s"
  shows "0 \<le> x" "x < int NumSectors" "x \<notin> R"
proof -
  have f: "0 \<le> s" "s < int NumSectors" "file_ok (header_at d s)" "extent d s \<inter> R = {}"
    using assms(1,2) unfolding files_ok_def by blast+
  then show "x \<notin> R" using assms(3) by blast
  have "x = s \<or> x \<in> set (file_sectors (header_at d s))" using assms(3) by (simp add: extent_def)
  then show "0 \<le> x" "x < int NumSectors" using f(1,2) file_sectors_nonneg [OF f(3)] by auto
qed

lemma fs_ok_used:
  assumes "fs_ok fs" "directory_map (fs_table fs) k = Some s"
  shows "extent (fs_disk fs) s \<subseteq> bm_used (fs_map fs)"
  using assms unfolding fs_ok_def by (auto intro: ranI)


lemma fs_okD:
  assumes "fs_ok fs"
  shows "system_ok fs" "directory_ok (fs_table fs)" "files_ok (reserved fs) (fs_disk fs) (directory_map (fs_table fs))"
    "bm_used (fs_map fs) = reserved fs \<union> (\<Union>s \<in> ran (directory_map (fs_table fs)). extent (fs_disk fs) s)"
    "length (fs_table fs) = NumDirEntries" "bm_inv (fs_map fs)" "numBits (fs_map fs) = 1024" "list_all entry_ok (fs_table fs)"
  using assms by (simp_all add: fs_ok_def fs_table_def fs_map_def disk_table_def directory_ok_def)

lemma committed_kept:
  assumes fs: "fs_ok fs" and c: "committed fs t bm d1 d'" and k: "directory_map (fs_table fs) k = Some s"
    and d1: "\<And>x. x \<in> extent (fs_disk fs) s \<Longrightarrow> d1 (nat x) = fs_disk fs (nat x)"
  shows "header_at d' s = header_at (fs_disk fs) s" "extent d' s = extent (fs_disk fs) s"
    "file_content (header_at d' s) d' = file_content (header_at (fs_disk fs) s) (fs_disk fs)"
proof -
  have "d' (nat x) = fs_disk fs (nat x)" if x: "x \<in> extent (fs_disk fs) s" for x
  proof -
    note r = files_ok_extent [OF fs_okD(3) [OF fs] k x]
    have "int (nat x) \<notin> set (file_sectors (hdr (freeMapFile fs))) \<union> set (file_sectors (hdr (directoryFile fs)))"
      using r by (simp add: reserved_def)
    then have "d' (nat x) = d1 (nat x)" using c unfolding committed_def by blast
    then show ?thesis using d1 [OF x] by simp
  qed
  note e = extent_kept [where d' = d', OF fs_okD(3) [OF fs] k this]
  show "header_at d' s = header_at (fs_disk fs) s" by (rule e(1))
  show "extent d' s = extent (fs_disk fs) s" by (rule e(2))
  show "file_content (header_at d' s) d' = file_content (header_at (fs_disk fs) s) (fs_disk fs)" by (rule e(3))
qed

lemma committed_new:
  assumes "committed fs t bm d1 d'"
  shows "fs_table (fs\<lparr>fs_disk := d'\<rparr>) = t" "fs_map (fs\<lparr>fs_disk := d'\<rparr>) = bm" "reserved (fs\<lparr>fs_disk := d'\<rparr>) = reserved fs"
    "system_ok (fs\<lparr>fs_disk := d'\<rparr>)" "0 \<le> x \<Longrightarrow> x \<notin> reserved fs \<Longrightarrow> d' (nat x) = d1 (nat x)"
proof -
  show "fs_table (fs\<lparr>fs_disk := d'\<rparr>) = t" "fs_map (fs\<lparr>fs_disk := d'\<rparr>) = bm" "system_ok (fs\<lparr>fs_disk := d'\<rparr>)"
    using assms unfolding committed_def by blast+
  show "reserved (fs\<lparr>fs_disk := d'\<rparr>) = reserved fs" by (simp add: reserved_def)
  show "d' (nat x) = d1 (nat x)" if "0 \<le> x" "x \<notin> reserved fs"
    using assms that unfolding committed_def reserved_def by auto
qed

section \<open>Removing a file\<close>

lemma ran_del: "ran (M(k := None)) = {v. \<exists>k'. k' \<noteq> k \<and> M k' = Some v}"
  by (auto simp: ran_def)

lemma ran_UN_del:
  assumes "M k = Some s" "\<And>k1 s1. M k1 = Some s1 \<Longrightarrow> k1 \<noteq> k \<Longrightarrow> E s1 \<inter> E s = {}"
  shows "(\<Union>x \<in> ran (M(k := None)). E x) = (\<Union>x \<in> ran M. E x) - E s"
proof (intro subset_antisym subsetI)
  fix x assume "x \<in> (\<Union>x \<in> ran (M(k := None)). E x)"
  then obtain k1 s1 where m: "k1 \<noteq> k" "M k1 = Some s1" "x \<in> E s1" unfolding ran_del by blast
  then show "x \<in> (\<Union>x \<in> ran M. E x) - E s" using assms(2) [OF m(2,1)] ranI [of M, OF m(2)] by blast
next
  fix x assume "x \<in> (\<Union>x \<in> ran M. E x) - E s"
  then obtain k1 s1 where m: "M k1 = Some s1" "x \<in> E s1" "x \<notin> E s" unfolding ran_def by blast
  moreover from m have "k1 \<noteq> k" using assms(1) by auto
  ultimately show "x \<in> (\<Union>x \<in> ran (M(k := None)). E x)" unfolding ran_del by blast
qed

lemma remove_files:
  assumes fs: "fs_ok fs" and k: "directory_map (fs_table fs) k = Some s"
    and c: "committed fs t bm (fs_disk fs) d'" and t: "directory_ok t" "directory_map t = (directory_map (fs_table fs))(k := None)"
    and bm: "bm_used bm = bm_used (fs_map fs) - extent (fs_disk fs) s"
  shows "fs_ok (fs\<lparr>fs_disk := d'\<rparr>) \<and> fs_files (fs\<lparr>fs_disk := d'\<rparr>) = (fs_files fs)(k := None)"
proof -
  let ?d = "fs_disk fs" and ?M = "directory_map (fs_table fs)"
  note f = fs_okD [OF fs] and n = committed_new [OF c]
  have e: "header_at d' s1 = header_at ?d s1" "extent d' s1 = extent ?d s1"
    "file_content (header_at d' s1) d' = file_content (header_at ?d s1) ?d" if "?M k1 = Some s1" for k1 s1
    using committed_kept [OF fs c that refl] by blast+
  have dis: "extent ?d s1 \<inter> extent ?d s = {}" if "?M k1 = Some s1" "k1 \<noteq> k" for k1 s1
    using f(3) that k unfolding files_ok_def by blast
  have "files_ok (reserved fs) d' (?M(k := None))"
    unfolding files_ok_def
  proof (intro conjI allI impI)
    fix k1 s1 assume "(?M(k := None)) k1 = Some s1"
    then have m: "?M k1 = Some s1" by (simp split: if_splits)
    show "0 \<le> s1" "s1 < int NumSectors" "file_ok (header_at d' s1)" "s1 \<notin> set (file_sectors (header_at d' s1))"
      "extent d' s1 \<inter> reserved fs = {}"
      unfolding e(1,2) [OF m] using f(3) m unfolding files_ok_def by blast+
  next
    fix k1 s1 k2 s2 assume "(?M(k := None)) k1 = Some s1" "(?M(k := None)) k2 = Some s2" "k1 \<noteq> k2"
    then have m: "?M k1 = Some s1" "?M k2 = Some s2" "k1 \<noteq> k2" by (simp_all split: if_splits)
    show "extent d' s1 \<inter> extent d' s2 = {}"
      unfolding e(2) [OF m(1)] e(2) [OF m(2)] using f(3) m unfolding files_ok_def by blast
  qed
  moreover have "bm_used bm = reserved fs \<union> (\<Union>s \<in> ran (?M(k := None)). extent d' s)"
  proof -
    have "(\<Union>s1 \<in> ran (?M(k := None)). extent d' s1) = (\<Union>s1 \<in> ran (?M(k := None)). extent ?d s1)"
    proof (rule SUP_cong [OF refl])
      fix s1 assume "s1 \<in> ran (?M(k := None))"
      then obtain k1 where "?M k1 = Some s1" unfolding ran_del by blast
      then show "extent d' s1 = extent ?d s1" by (rule e(2))
    qed
    moreover have "(\<Union>s1 \<in> ran (?M(k := None)). extent ?d s1) = (\<Union>s1 \<in> ran ?M. extent ?d s1) - extent ?d s"
      by (rule ran_UN_del) (rule k, rule dis)
    moreover have "reserved fs \<inter> extent ?d s = {}" using f(3) k unfolding files_ok_def by blast
    then have "reserved fs - extent ?d s = reserved fs" by (rule Diff_triv)
    ultimately show ?thesis by (simp only: bm f(4) Un_Diff)
  qed
  ultimately have "fs_ok (fs\<lparr>fs_disk := d'\<rparr>)" using n t by (simp add: fs_ok_def)
  moreover have "fs_files (fs\<lparr>fs_disk := d'\<rparr>) = (fs_files fs)(k := None)"
  proof
    fix name
    show "fs_files (fs\<lparr>fs_disk := d'\<rparr>) name = ((fs_files fs)(k := None)) name"
      using n(1) t(2) e(3) by (cases "?M name") (simp_all add: fs_files_def)
  qed
  ultimately show ?thesis by blast
qed

lemma found_table:
  assumes "fs_ok fs" "fresh_ok g"
  shows "Directory_FetchFrom (directoryFile fs) (fs_disk fs) (Directory_Directory (g_table g)) = Inr (fs_table fs)"
    "PersistentBitmap_PersistentBitmap (freeMapFile fs) (int NumSectors) (fs_disk fs) = Inr (fs_map fs)"
  using table_fetched [OF _ _ _ assms(2)] map_fetched system_okD [OF fs_okD(1) [OF assms(1)]]
  by (simp_all add: fs_table_def fs_map_def)

lemma FileSystem_Remove_ok:
  assumes fs: "fs_ok fs" and g: "fresh_ok g" and name: "cstring name cs"
  shows "if fs_files fs (take FileNameMaxLen cs) = None then FileSystem_Remove g name fs = Inr (False, fs)
    else \<exists>fs'. FileSystem_Remove g name fs = Inr (True, fs') \<and> fs_ok fs' \<and> fs_files fs' = (fs_files fs)(take FileNameMaxLen cs := None)"
proof -
  let ?k = "take FileNameMaxLen cs" and ?d = "fs_disk fs" and ?M = "directory_map (fs_table fs)"
  note f = fs_okD [OF fs] and ft = found_table [OF fs g] and find = Directory_Find_ok [OF f(2) name]
  show ?thesis
  proof (cases "?M ?k")
    case None
    then show ?thesis using ft find by (simp add: FileSystem_Remove_def fs_files_def)
  next
    case (Some s)
    let ?h = "header_at ?d s"
    have h: "0 \<le> s" "s < int NumSectors" "file_ok ?h" "s \<notin> set (file_sectors ?h)"
      using f(3) Some unfolding files_ok_def by blast+
    have used: "extent ?d s \<subseteq> bm_used (fs_map fs)" by (rule fs_ok_used [OF fs Some])
    have hn: "0 \<le> numSectors ?h" "numSectors ?h \<le> int (length (dataSectors ?h))" "distinct (file_sectors ?h)"
      using h(3) sectors_of_bounds(1) [of "numBytes ?h"] sectors_of_le [of "numBytes ?h"] by (simp_all add: file_ok_def header_ok_def)
    have "set (file_sectors ?h) \<subseteq> bm_used (fs_map fs)" using used by (auto simp: extent_def)
    then obtain fm1 where fm1: "FileHeader_Deallocate (fs_map fs) ?h = Inr fm1" "bm_inv fm1" "numBits fm1 = 1024"
      "bm_used fm1 = bm_used (fs_map fs) - set (file_sectors ?h)"
      using Deallocate_ok [OF f(6) hn] f(7) by metis
    have "0 \<le> s" "s < numBits fm1" using h(1,2) fm1(3) by (simp_all add: disk_constants)
    then obtain fm2 where fm2: "Bitmap_Clear fm1 s = Inr fm2" "bm_inv fm2" "numBits fm2 = 1024" "bm_used fm2 = bm_used fm1 - {s}"
      using Bitmap_Clear_in [OF fm1(2)] fm1(3) by metis
    have fm: "bm_used fm2 = bm_used (fs_map fs) - extent ?d s" using fm1(4) fm2(4) by (auto simp: extent_def)
    obtain t where t: "Directory_Remove name (fs_table fs) = Inr (True, t)" "directory_ok t" "length t = NumDirEntries"
      "directory_map t = ?M(?k := None)"
      using Directory_Remove_ok [OF f(2) name] Some f(5) by auto
    have "list_all entry_ok t" using t(2) by (simp add: directory_ok_def)
    then obtain d2 d' where d: "PersistentBitmap_WriteBack (g_buf g 0) (freeMapFile fs) fm2 ?d = Inr d2"
      "Directory_WriteBack (g_buf g 1) (directoryFile fs) t d2 = Inr d'" "committed fs t fm2 ?d d'"
      using commit_map_table [OF f(1) _ t(3) fm2(2,3)] by blast
    have "FileSystem_Remove g name fs = Inr (True, fs\<lparr>fs_disk := d'\<rparr>)"
      using ft find Some h(1,2) fm1(1) fm2(1) t(1) d(1,2)
      by (simp add: FileSystem_Remove_def FileHeader_FetchFrom_def read_sector_ok header_at_def)
    with remove_files [OF fs Some d(3) t(2,4) fm] Some show ?thesis by (simp add: fs_files_def)
  qed
qed

section \<open>Creating a file\<close>

lemma create_files:
  assumes fs: "fs_ok fs" and k: "directory_map (fs_table fs) k = None" and x: "0 \<le> x" "x < 1024" "x \<notin> bm_used (fs_map fs)"
    and h: "file_ok h" "set (file_sectors h) \<inter> insert x (bm_used (fs_map fs)) = {}"
    and c: "committed fs t bm ((fs_disk fs)(nat x := header_image h)) d'"
    and t: "directory_ok t" "directory_map t = (directory_map (fs_table fs))(k \<mapsto> x)"
    and bm: "bm_used bm = insert x (bm_used (fs_map fs)) \<union> set (file_sectors h)"
  shows "fs_ok (fs\<lparr>fs_disk := d'\<rparr>) \<and> fs_files (fs\<lparr>fs_disk := d'\<rparr>) = (fs_files fs)(k \<mapsto> file_content h d')"
proof -
  let ?d = "fs_disk fs" and ?M = "directory_map (fs_table fs)"
  note f = fs_okD [OF fs] and n = committed_new [OF c]
  have U: "reserved fs \<subseteq> bm_used (fs_map fs)" "\<And>k1 s1. ?M k1 = Some s1 \<Longrightarrow> extent ?d s1 \<subseteq> bm_used (fs_map fs)"
    using f(4) fs_ok_used [OF fs] by blast+
  have same: "((fs_disk fs)(nat x := header_image h)) (nat y) = ?d (nat y)" if "?M k1 = Some s1" "y \<in> extent ?d s1" for y k1 s1
  proof -
    have "y \<noteq> x" "0 \<le> y" using U(2) [OF that(1)] that(2) x(3) files_ok_extent(1) [OF f(3) that] by blast+
    then show ?thesis using x(1) by (simp add: eq_nat_nat_iff)
  qed
  have new: "header_at d' x = h" "extent d' x = insert x (set (file_sectors h))"
  proof -
    have "d' (nat x) = header_image h" using n(5) [OF x(1)] x(3) U(1) by auto
    then show "header_at d' x = h" using header_roundtrip(1) h(1) by (simp add: header_at_def file_ok_def)
    then show "extent d' x = insert x (set (file_sectors h))" by (simp add: extent_def)
  qed
  have old: "header_at d' s1 = header_at ?d s1" "extent d' s1 = extent ?d s1"
    "file_content (header_at d' s1) d' = file_content (header_at ?d s1) ?d"
    "extent ?d s1 \<inter> extent d' x = {}" if "?M k1 = Some s1" for k1 s1
  proof -
    note e = committed_kept [OF fs c that same [OF that]]
    show "header_at d' s1 = header_at ?d s1" by (rule e(1))
    show "extent d' s1 = extent ?d s1" by (rule e(2))
    show "file_content (header_at d' s1) d' = file_content (header_at ?d s1) ?d" by (rule e(3))
    show "extent ?d s1 \<inter> extent d' x = {}" unfolding new(2) using U(2) [OF that] h(2) x(3) by auto
  qed
  have "files_ok (reserved fs) d' (?M(k \<mapsto> x))"
    unfolding files_ok_def
  proof (intro conjI allI impI)
    fix k1 s1 assume a: "(?M(k \<mapsto> x)) k1 = Some s1"
    have "0 \<le> s1 \<and> s1 < int NumSectors \<and> file_ok (header_at d' s1) \<and>
        s1 \<notin> set (file_sectors (header_at d' s1)) \<and> extent d' s1 \<inter> reserved fs = {}"
    proof (cases "k1 = k")
      case True
      then have s1: "s1 = x" using a by simp
      show "0 \<le> s1 \<and> s1 < int NumSectors \<and> file_ok (header_at d' s1) \<and>
        s1 \<notin> set (file_sectors (header_at d' s1)) \<and> extent d' s1 \<inter> reserved fs = {}"
        unfolding s1 new using h x U(1) by (auto simp: disk_constants)
    next
      case False
      then have m: "?M k1 = Some s1" using a by simp
      show "0 \<le> s1 \<and> s1 < int NumSectors \<and> file_ok (header_at d' s1) \<and>
        s1 \<notin> set (file_sectors (header_at d' s1)) \<and> extent d' s1 \<inter> reserved fs = {}"
        unfolding old(1,2) [OF m] using f(3) m unfolding files_ok_def by blast
    qed
    then show "0 \<le> s1" "s1 < int NumSectors" "file_ok (header_at d' s1)" "s1 \<notin> set (file_sectors (header_at d' s1))"
      "extent d' s1 \<inter> reserved fs = {}" by blast+
  next
    fix k1 s1 k2 s2 assume a: "(?M(k \<mapsto> x)) k1 = Some s1" "(?M(k \<mapsto> x)) k2 = Some s2" "k1 \<noteq> k2"
    consider "k1 = k" "s1 = x" "?M k2 = Some s2" | "k2 = k" "s2 = x" "?M k1 = Some s1" | "?M k1 = Some s1" "?M k2 = Some s2"
      by (cases "k1 = k"; cases "k2 = k") (use a in simp_all)
    then show "extent d' s1 \<inter> extent d' s2 = {}"
    proof cases
      case 1 then show ?thesis using old(2,4) [OF 1(3)] by blast
    next
      case 2 then show ?thesis using old(2,4) [OF 2(3)] by blast
    next
      case 3
      show ?thesis unfolding old(2) [OF 3(1)] old(2) [OF 3(2)] using f(3) 3 a(3) unfolding files_ok_def by blast
    qed
  qed
  moreover have "bm_used bm = reserved fs \<union> (\<Union>s \<in> ran (?M(k \<mapsto> x)). extent d' s)"
  proof -
    have "(\<Union>s1 \<in> ran ?M. extent d' s1) = (\<Union>s1 \<in> ran ?M. extent ?d s1)"
    proof (rule SUP_cong [OF refl])
      fix s1 assume "s1 \<in> ran ?M"
      then obtain k1 where "?M k1 = Some s1" unfolding ran_def by blast
      then show "extent d' s1 = extent ?d s1" by (rule old(2))
    qed
    then show ?thesis unfolding bm f(4) ran_map_upd [of ?M, OF k] UN_insert new(2) by blast
  qed
  ultimately have "fs_ok (fs\<lparr>fs_disk := d'\<rparr>)" using n t by (simp add: fs_ok_def)
  moreover have "fs_files (fs\<lparr>fs_disk := d'\<rparr>) = (fs_files fs)(k \<mapsto> file_content h d')"
  proof
    fix name
    show "fs_files (fs\<lparr>fs_disk := d'\<rparr>) name = ((fs_files fs)(k \<mapsto> file_content h d')) name"
      using n(1) t(2) old(3) new(1) by (cases "?M name") (auto simp: fs_files_def)
  qed
  ultimately show ?thesis by blast
qed

lemma FileSystem_Create_full:
  assumes fs: "fs_ok fs" and g: "fresh_ok g" and name: "cstring name cs"
    and full: "fs_files fs (take FileNameMaxLen cs) \<noteq> None \<or> card (dom (fs_files fs)) = NumDirEntries \<or>
      1024 - int (card (bm_used (fs_map fs))) < 1 + sectors_of n"
    and n: "0 \<le> n"
  shows "FileSystem_Create g name n fs = Inr (False, fs)"
proof -
  let ?k = "take FileNameMaxLen cs" and ?d = "fs_disk fs" and ?M = "directory_map (fs_table fs)" and ?U = "bm_used (fs_map fs)"
  note f = fs_okD [OF fs] and ft = found_table [OF fs g] and find = Directory_Find_ok [OF f(2) name]
  have dom: "dom (fs_files fs) = dom ?M" by (auto simp: fs_files_def dom_def)
  show ?thesis
  proof (cases "?M ?k")
    case (Some s)
    then have "0 \<le> s" using f(3) unfolding files_ok_def by blast
    then show ?thesis using Some ft find by (simp add: FileSystem_Create_def)
  next
    case None
    show ?thesis
    proof (cases "?U = {0..<1024}")
      case True
      then show ?thesis using None ft find bm.find_full [OF f(6)] f(7) by (simp add: FileSystem_Create_def)
    next
      case False
      then obtain x fm1 where x: "Bitmap_FindAndSet (fs_map fs) = Inr (x, fm1)" "0 \<le> x" "x < 1024" "x \<notin> ?U"
        "bm_inv fm1" "numBits fm1 = 1024" "bm_used fm1 = insert x ?U"
        using bm.find_free [OF f(6)] f(7) by auto
      have "- (2 ^ 31) \<le> x" "x < 2 ^ 31" using x(2,3) by simp_all
      note add = Directory_Add_ok [OF f(2) name this]
      show ?thesis
      proof (cases "list_all inUse (fs_table fs)")
        case True
        then show ?thesis using None ft find x add by (simp add: FileSystem_Create_def)
      next
        case no: False
        then have "card (dom (fs_files fs)) \<noteq> NumDirEntries" using used_entries_card(2) [OF f(2)] f(5) dom by simp
        moreover have "fs_files fs ?k = None" using None by (simp add: fs_files_def)
        ultimately have "1024 - int (card ?U) < 1 + sectors_of n" using full by simp
        then have "numBits fm1 - int (card (bm_used fm1)) < sectors_of n"
          using x(4,6,7) finite_used [of "fs_map fs"] by simp
        note full = Allocate_full [OF x(5) this]
        obtain t where "Directory_Add name x (fs_table fs) = Inr (True, t)" using add None no by auto
        then show ?thesis using None ft find x(1,2) full by (simp add: FileSystem_Create_def)
      qed
    qed
  qed
qed

lemma FileSystem_Create_room:
  assumes fs: "fs_ok fs" and g: "fresh_ok g" and name: "cstring name cs"
    and room: "fs_files fs (take FileNameMaxLen cs) = None" "card (dom (fs_files fs)) \<noteq> NumDirEntries"
      "1 + sectors_of n \<le> 1024 - int (card (bm_used (fs_map fs)))" and n: "0 \<le> n"
  obtains x fm1 t where "0 \<le> x" "x < 1024" "x \<notin> bm_used (fs_map fs)" "bm_inv fm1" "numBits fm1 = 1024"
    "bm_used fm1 = insert x (bm_used (fs_map fs))" "sectors_of n \<le> numBits fm1 - int (card (bm_used fm1))"
    "directory_ok t" "length t = NumDirEntries" "directory_map t = (directory_map (fs_table fs))(take FileNameMaxLen cs \<mapsto> x)"
    "FileSystem_Create g name n fs =
       bindr (FileHeader_Allocate fm1 n (g_hdr g 0)) (\<lambda>(ok, hdr, freeMap).
            if \<not> ok then Inr (False, fs)
            else
              bindr (FileHeader_WriteBack x hdr (fs_disk fs)) (\<lambda>d.
              bindr (Directory_WriteBack (g_buf g 0) (directoryFile fs) t d) (\<lambda>d.
              bindr (PersistentBitmap_WriteBack (g_buf g 1) (freeMapFile fs) freeMap d) (\<lambda>d.
              Inr (True, fs\<lparr>fs_disk := d\<rparr>)))))"
proof -
  let ?k = "take FileNameMaxLen cs" and ?M = "directory_map (fs_table fs)" and ?U = "bm_used (fs_map fs)"
  note f = fs_okD [OF fs] and ft = found_table [OF fs g] and find = Directory_Find_ok [OF f(2) name]
  have None: "?M ?k = None" "dom (fs_files fs) = dom ?M" using room(1) by (auto simp: fs_files_def dom_def)
  have "card ?U < nat (numBits (fs_map fs))" using room(3) sectors_of_bounds(1) [OF n] f(7) by simp
  then obtain x fm1 where x: "Bitmap_FindAndSet (fs_map fs) = Inr (x, fm1)" "0 \<le> x" "x < 1024" "x \<notin> ?U"
    "bm_inv fm1" "numBits fm1 = 1024" "bm_used fm1 = insert x ?U"
    using find_and_set_free [OF f(6)] f(7) by metis
  have "- (2 ^ 31) \<le> x" "x < 2 ^ 31" "\<not> list_all inUse (fs_table fs)"
    using x(2,3) used_entries_card(2) [OF f(2)] f(5) None(2) room(2) by simp_all
  then obtain t where t: "Directory_Add name x (fs_table fs) = Inr (True, t)" "directory_ok t" "length t = NumDirEntries"
    "directory_map t = ?M(?k \<mapsto> x)"
    using Directory_Add_ok [OF f(2) name, of x] None(1) f(5) by auto
  have "sectors_of n \<le> numBits fm1 - int (card (bm_used fm1))"
    using room(3) x(4,6,7) finite_used [of "fs_map fs"] by simp
  then show thesis
    using that [OF x(2-7) _ t(2-4)] ft find None(1) x(1,2) t(1) by (simp add: FileSystem_Create_def)
qed

lemma allocated_file:
  assumes "header_ok h" "0 \<le> n" "n \<le> int MaxFileSize" "int (length ss) = sectors_of n" "distinct ss" "set ss \<subseteq> {0..<1024}"
    and h': "h' = h\<lparr>numBytes := n, numSectors := sectors_of n, dataSectors := ss @ drop (length ss) (dataSectors h)\<rparr>"
  shows "file_ok h'" "file_sectors h' = ss" "numBytes h' = n"
proof -
  have len: "length (dataSectors h) = 30" using assms(1) by (simp add: header_ok_def NumDirect_eq)
  have k: "sectors_of n \<le> 30" using sectors_of_le [OF assms(2)] assms(3) by (simp add: NumDirect_eq)
  then have l: "length ss \<le> 30" using assms(4) by linarith
  show ss: "file_sectors h' = ss" using assms(4) by (simp add: h' file_sectors_def flip: assms(4))
  show "numBytes h' = n" by (simp add: h')
  have "- (2 ^ 31) \<le> x \<and> x < 2 ^ 31" if "x \<in> set (dataSectors h')" for x
    using that assms(1,6) by (auto simp: h' header_ok_def dest!: in_set_dropD)
  moreover have "length (dataSectors h') = NumDirect" using len l by (simp add: h' NumDirect_eq)
  moreover have "n < 2 ^ 31" using assms(3) by (simp add: MaxFileSize_def NumDirect_eq SectorSize_def)
  ultimately have "header_ok h'"
    using assms(2) k sectors_of_bounds(1) [OF assms(2)] by (simp add: header_ok_def) (simp add: h')
  then show "file_ok h'" using assms(2,3,5,6) ss by (simp add: file_ok_def disk_constants) (simp add: h')
qed

lemma create_commit:
  assumes fs: "fs_ok fs" and x: "0 \<le> x" "x < 1024" "x \<notin> bm_used (fs_map fs)" and h: "file_ok h"
    and t: "directory_ok t" "length t = NumDirEntries" and bm: "bm_inv bm" "numBits bm = 1024"
  shows "\<exists>d1 d2 d'. FileHeader_WriteBack x h (fs_disk fs) = Inr d1 \<and> Directory_WriteBack g0 (directoryFile fs) t d1 = Inr d2 \<and>
    PersistentBitmap_WriteBack g1 (freeMapFile fs) bm d2 = Inr d' \<and> committed fs t bm ((fs_disk fs)(nat x := header_image h)) d'"
proof -
  note f = fs_okD [OF fs]
  let ?d1 = "(fs_disk fs)(nat x := header_image h)"
  have img: "length (header_image h) = SectorSize" using header_roundtrip(2) h unfolding file_ok_def by blast
  have wb: "FileHeader_WriteBack x h (fs_disk fs) = Inr ?d1"
    using write_sector_ok [OF x(1) _ img, of "fs_disk fs"] x(2) by (simp add: FileHeader_WriteBack_def disk_constants)
  have "0 \<in> bm_used (fs_map fs)" "1 \<in> bm_used (fs_map fs)" using f(4) by (simp_all add: reserved_def)
  then have "x \<noteq> 0" "x \<noteq> 1" using x(3) by auto
  then have "nat x \<noteq> 0" "nat x \<noteq> 1" using x(1) by linarith+
  then have d1: "?d1 0 = fs_disk fs 0" "?d1 1 = fs_disk fs 1" by simp_all
  have p1: "platter_ok ?d1" using system_okD(1) [OF f(1)] img by (simp add: platter_ok_def)
  have tl: "list_all entry_ok t" using t(1) by (simp add: directory_ok_def)
  show ?thesis using commit_table_map [OF f(1) p1 d1 tl t(2) bm] wb by blast
qed

text \<open>The three outcomes of \<open>Create\<close>.\<close>

lemma FileSystem_Create_ok:
  assumes fs: "fs_ok fs" and g: "fresh_ok g" and name: "cstring name cs" and n: "0 \<le> n"
  shows "if fs_files fs (take FileNameMaxLen cs) \<noteq> None \<or> card (dom (fs_files fs)) = NumDirEntries \<or>
      1024 - int (card (bm_used (fs_map fs))) < 1 + sectors_of n
    then FileSystem_Create g name n fs = Inr (False, fs)
    else if n \<le> int MaxFileSize
    then \<exists>fs' bs. FileSystem_Create g name n fs = Inr (True, fs') \<and> fs_ok fs' \<and> length bs = nat n \<and>
      fs_files fs' = (fs_files fs)(take FileNameMaxLen cs \<mapsto> bs)
    else FileSystem_Create g name n fs = Inl OutOfBounds"
proof (cases "fs_files fs (take FileNameMaxLen cs) \<noteq> None \<or> card (dom (fs_files fs)) = NumDirEntries \<or>
      1024 - int (card (bm_used (fs_map fs))) < 1 + sectors_of n")
  case True
  then show ?thesis using FileSystem_Create_full [OF fs g name _ n] by auto
next
  case neg: False
  let ?d = "fs_disk fs" and ?U = "bm_used (fs_map fs)" and ?k = "take FileNameMaxLen cs"
  note f = fs_okD [OF fs]
  have room: "fs_files fs ?k = None" "card (dom (fs_files fs)) \<noteq> NumDirEntries" "1 + sectors_of n \<le> 1024 - int (card ?U)"
    using neg by auto
  obtain x fm1 t where x: "0 \<le> x" "x < 1024" "x \<notin> ?U" "bm_inv fm1" "numBits fm1 = 1024"
    "bm_used fm1 = insert x ?U" "sectors_of n \<le> numBits fm1 - int (card (bm_used fm1))"
    and t: "directory_ok t" "length t = NumDirEntries" "directory_map t = (directory_map (fs_table fs))(?k \<mapsto> x)"
    and create: "FileSystem_Create g name n fs =
       bindr (FileHeader_Allocate fm1 n (g_hdr g 0)) (\<lambda>(ok, hdr, freeMap).
            if \<not> ok then Inr (False, fs)
            else
              bindr (FileHeader_WriteBack x hdr (fs_disk fs)) (\<lambda>d.
              bindr (Directory_WriteBack (g_buf g 0) (directoryFile fs) t d) (\<lambda>d.
              bindr (PersistentBitmap_WriteBack (g_buf g 1) (freeMapFile fs) freeMap d) (\<lambda>d.
              Inr (True, fs\<lparr>fs_disk := d\<rparr>)))))"
    by (rule FileSystem_Create_room [OF fs g name room n])
  have hdr: "header_ok (g_hdr g 0)" "length (dataSectors (g_hdr g 0)) = NumDirect"
    using g by (simp_all add: fresh_ok_def header_ok_def)
  have "FileSystem_Create g name n fs = Inl OutOfBounds" if "\<not> n \<le> int MaxFileSize"
    using Allocate_overflows [OF x(4,7) _ hdr(2)] that create by simp
  moreover have "\<exists>fs' bs. FileSystem_Create g name n fs = Inr (True, fs') \<and> fs_ok fs' \<and> length bs = nat n \<and>
      fs_files fs' = (fs_files fs)(?k \<mapsto> bs)" if small: "n \<le> int MaxFileSize"
  proof -
    obtain ss fm2 where a: "FileHeader_Allocate fm1 n (g_hdr g 0) = Inr (True, (g_hdr g 0)\<lparr>numBytes := n, numSectors := sectors_of n,
        dataSectors := ss @ drop (length ss) (dataSectors (g_hdr g 0))\<rparr>, fm2)"
      "int (length ss) = sectors_of n" "distinct ss" "set ss \<inter> bm_used fm1 = {}" "set ss \<subseteq> {0..<numBits fm1}"
      "bm_inv fm2" "numBits fm2 = numBits fm1" "bm_used fm2 = bm_used fm1 \<union> set ss"
      by (rule Allocate_fits [OF x(4,7) n small hdr(2)])
    let ?h = "(g_hdr g 0)\<lparr>numBytes := n, numSectors := sectors_of n,
        dataSectors := ss @ drop (length ss) (dataSectors (g_hdr g 0))\<rparr>"
    have ss: "set ss \<subseteq> {0..<1024}" using a(5) x(5) by simp
    note h = allocated_file [OF hdr(1) n small a(2,3) ss refl]
    have fm2: "numBits fm2 = 1024" using a(7) x(5) by simp
    obtain d1 d2 d' where d: "FileHeader_WriteBack x ?h ?d = Inr d1" "Directory_WriteBack (g_buf g 0) (directoryFile fs) t d1 = Inr d2"
      "PersistentBitmap_WriteBack (g_buf g 1) (freeMapFile fs) fm2 d2 = Inr d'" "committed fs t fm2 (?d(nat x := header_image ?h)) d'"
      using create_commit [OF fs x(1-3) h(1) t(1,2) a(6) fm2] by blast
    have "FileSystem_Create g name n fs = Inr (True, fs\<lparr>fs_disk := d'\<rparr>)"
      unfolding create a(1) using d(1-3) by simp
    moreover have m: "directory_map (fs_table fs) ?k = None" using room(1) by (simp add: fs_files_def)
    have s1: "set (file_sectors ?h) \<inter> insert x ?U = {}" using a(4) unfolding h(2) x(6) .
    have s2: "bm_used fm2 = insert x ?U \<union> set (file_sectors ?h)" using a(8) unfolding h(2) x(6) .
    note create_files [OF fs m x(1,2,3) h(1) s1 d(4) t(1,3) s2]
    moreover have "length (file_content ?h d') = nat n" by simp
    ultimately show ?thesis by blast
  qed
  ultimately show ?thesis using room by auto
qed

section \<open>Writing a file\<close>

lemma file_write_kept:
  assumes fs: "fs_ok fs" and k: "directory_map (fs_table fs) k = Some s"
    and d': "\<forall>x. int x \<notin> set (file_sectors (header_at (fs_disk fs) s)) \<longrightarrow> d' x = fs_disk fs x"
  shows "x \<in> reserved fs \<Longrightarrow> 0 \<le> x \<Longrightarrow> d' (nat x) = fs_disk fs (nat x)" "d' (nat s) = fs_disk fs (nat s)"
    "directory_map (fs_table fs) k1 = Some s1 \<Longrightarrow> k1 \<noteq> k \<Longrightarrow> x \<in> extent (fs_disk fs) s1 \<Longrightarrow> d' (nat x) = fs_disk fs (nat x)"
proof -
  let ?F = "set (file_sectors (header_at (fs_disk fs) s))"
  have s: "0 \<le> s" "s \<notin> ?F" "extent (fs_disk fs) s \<inter> reserved fs = {}"
    using fs_okD(3) [OF fs] k unfolding files_ok_def by blast+
  show "d' (nat x) = fs_disk fs (nat x)" if "x \<in> reserved fs" "0 \<le> x"
    by (rule d' [rule_format]) (use that s(3) in \<open>auto simp: extent_def\<close>)
  show "d' (nat s) = fs_disk fs (nat s)" by (rule d' [rule_format]) (use s(1,2) in simp)
  show "d' (nat x) = fs_disk fs (nat x)" if m: "directory_map (fs_table fs) k1 = Some s1" "k1 \<noteq> k" "x \<in> extent (fs_disk fs) s1"
  proof (rule d' [rule_format])
    have "extent (fs_disk fs) s1 \<inter> extent (fs_disk fs) s = {}"
      using fs_okD(3) [OF fs] k m(1,2) unfolding files_ok_def by blast
    then have "x \<notin> ?F" using m(3) by (auto simp: extent_def)
    then show "int (nat x) \<notin> ?F" using files_ok_extent(1) [OF fs_okD(3) [OF fs] m(1,3)] by simp
  qed
qed

lemma file_write:
  assumes fs: "fs_ok fs" and k: "directory_map (fs_table fs) k = Some s" and p: "platter_ok d'"
    and d': "\<forall>x. int x \<notin> set (file_sectors (header_at (fs_disk fs) s)) \<longrightarrow> d' x = fs_disk fs x"
  shows "fs_ok (fs\<lparr>fs_disk := d'\<rparr>) \<and>
    fs_files (fs\<lparr>fs_disk := d'\<rparr>) = (fs_files fs)(k \<mapsto> file_content (header_at (fs_disk fs) s) d')"
proof -
  let ?d = "fs_disk fs" and ?M = "directory_map (fs_table fs)"
  note f = fs_okD [OF fs] and sys = system_okD [OF fs_okD(1) [OF fs]] and kept = file_write_kept [where d' = d', OF fs k d']
  have "d' 0 = ?d 0" "d' 1 = ?d 1" using kept(1) [of 0] kept(1) [of 1] by (simp_all add: reserved_def)
  then have so: "system_ok (fs\<lparr>fs_disk := d'\<rparr>)" using sys p unfolding system_ok_def by (simp add: header_at_def)
  have tab: "fs_table (fs\<lparr>fs_disk := d'\<rparr>) = fs_table fs"
    using disk_table_cong [OF sys(4), of d' ?d] kept(1) file_sectors_nonneg [OF sys(4)]
    by (simp add: fs_table_def reserved_def)
  have mp: "fs_map (fs\<lparr>fs_disk := d'\<rparr>) = fs_map fs"
    using disk_map_cong [OF sys(2), of d' ?d] kept(1) file_sectors_nonneg [OF sys(2)]
    by (simp add: fs_map_def reserved_def)
  have hs: "header_at d' s = header_at ?d s" "extent d' s = extent ?d s" using extent_cong [of d' s ?d, OF kept(2)] by blast+
  have e: "header_at d' s1 = header_at ?d s1" "extent d' s1 = extent ?d s1"
    "k1 \<noteq> k \<Longrightarrow> file_content (header_at d' s1) d' = file_content (header_at ?d s1) ?d" if m: "?M k1 = Some s1" for k1 s1
  proof (atomize (full), cases "k1 = k")
    case True
    then have "s1 = s" using m k by simp
    then show "header_at d' s1 = header_at ?d s1 \<and> extent d' s1 = extent ?d s1 \<and>
      (k1 \<noteq> k \<longrightarrow> file_content (header_at d' s1) d' = file_content (header_at ?d s1) ?d)"
      using hs True by blast
  next
    case False
    note e = extent_kept [where d' = d', OF f(3) m kept(3) [OF m False]]
    show "header_at d' s1 = header_at ?d s1 \<and> extent d' s1 = extent ?d s1 \<and>
      (k1 \<noteq> k \<longrightarrow> file_content (header_at d' s1) d' = file_content (header_at ?d s1) ?d)"
      using e by blast
  qed
  have "files_ok (reserved fs) d' ?M"
    using f(3) unfolding files_ok_def by (metis e(1,2))
  moreover have "(\<Union>s1 \<in> ran ?M. extent d' s1) = (\<Union>s1 \<in> ran ?M. extent ?d s1)"
  proof (rule SUP_cong [OF refl])
    fix s1 assume "s1 \<in> ran ?M"
    then obtain k1 where "?M k1 = Some s1" unfolding ran_def by blast
    then show "extent d' s1 = extent ?d s1" by (rule e(2))
  qed
  moreover have "reserved (fs\<lparr>fs_disk := d'\<rparr>) = reserved fs" by (simp add: reserved_def)
  ultimately have "fs_ok (fs\<lparr>fs_disk := d'\<rparr>)" using so f(2,4) by (simp add: fs_ok_def tab mp)
  moreover have "fs_files (fs\<lparr>fs_disk := d'\<rparr>) name = ((fs_files fs)(k \<mapsto> file_content (header_at ?d s) d')) name" for name
    using e(3) hs(1) k by (cases "?M name") (auto simp: fs_files_def tab)
  ultimately show ?thesis by blast
qed

section \<open>Formatting a disk\<close>

lemma sectors_of_system: "sectors_of 128 = 1" "sectors_of 200 = 2" "FreeMapFileSize = 128" "DirectoryFileSize = 200"
  by (simp_all add: sectors_of_def divRoundUp_def FreeMapFileSize_def DirectoryFileSize_def disk_constants sizeof_DirectoryEntry_def
      NumDirEntries_def BitsInByte_def)

lemma format_maps:
  assumes "header_ok h1" "header_ok h2"
  obtains fm0 fm1 fm2 m1 m2 m3 a b where
    "Bitmap_Bitmap (int NumSectors) = Inr fm0" "Bitmap_Mark fm0 FreeMapSector = Inr fm1" "Bitmap_Mark fm1 DirectorySector = Inr fm2"
    "FileHeader_Allocate fm2 FreeMapFileSize h1 = Inr (True, a, m1)" "FileHeader_Allocate m1 DirectoryFileSize h2 = Inr (True, b, m2)"
    "file_ok a" "numBytes a = 128" "file_ok b" "numBytes b = 200" "{0, 1} \<inter> (set (file_sectors a) \<union> set (file_sectors b)) = {}"
    "set (file_sectors a) \<inter> set (file_sectors b) = {}" "bm_inv m2" "numBits m2 = 1024"
    "bm_used m2 = {0, 1} \<union> set (file_sectors a) \<union> set (file_sectors b)"
proof -
  obtain fm0 where fm0: "Bitmap_Bitmap 1024 = Inr fm0" "bm_inv fm0" "numBits fm0 = 1024" "bm_used fm0 = {}"
    using Bitmap_Bitmap_in [of 1024] by auto
  obtain fm1 where fm1: "Bitmap_Mark fm0 0 = Inr fm1" "bm_inv fm1" "numBits fm1 = 1024" "bm_used fm1 = {0}"
    using Bitmap_Mark_in [OF fm0(2), of 0] fm0(3,4) by auto
  obtain fm2 where fm2: "Bitmap_Mark fm1 1 = Inr fm2" "bm_inv fm2" "numBits fm2 = 1024" "bm_used fm2 = {0, 1}"
    using Bitmap_Mark_in [OF fm1(2), of 1] fm1(3,4) by auto
  have len: "length (dataSectors h1) = NumDirect" "length (dataSectors h2) = NumDirect" using assms by (simp_all add: header_ok_def)
  have small: "0 \<le> FreeMapFileSize" "FreeMapFileSize \<le> int MaxFileSize" "0 \<le> DirectoryFileSize" "DirectoryFileSize \<le> int MaxFileSize"
    by (simp_all add: sectors_of_system MaxFileSize_def NumDirect_eq SectorSize_def)
  have "sectors_of FreeMapFileSize \<le> numBits fm2 - int (card (bm_used fm2))" using fm2(3,4) by (simp add: sectors_of_system)
  then obtain s1 m1 where s1: "FileHeader_Allocate fm2 FreeMapFileSize h1 = Inr (True, h1\<lparr>numBytes := FreeMapFileSize,
      numSectors := sectors_of FreeMapFileSize, dataSectors := s1 @ drop (length s1) (dataSectors h1)\<rparr>, m1)"
    "int (length s1) = sectors_of FreeMapFileSize" "distinct s1" "set s1 \<inter> bm_used fm2 = {}" "set s1 \<subseteq> {0..<numBits fm2}"
    "bm_inv m1" "numBits m1 = numBits fm2" "bm_used m1 = bm_used fm2 \<union> set s1"
    by (rule Allocate_fits [OF fm2(2) _ small(1,2) len(1)])
  have "card (bm_used m1) \<le> 3"
    using card_Un_le [of "{0, 1}" "set s1"] distinct_card [OF s1(3)] s1(2) by (simp add: s1(8) fm2(4) sectors_of_system)
  then have "sectors_of DirectoryFileSize \<le> numBits m1 - int (card (bm_used m1))" using fm2(3) s1(7) by (simp add: sectors_of_system)
  then obtain s2 m2 where s2: "FileHeader_Allocate m1 DirectoryFileSize h2 = Inr (True, h2\<lparr>numBytes := DirectoryFileSize,
      numSectors := sectors_of DirectoryFileSize, dataSectors := s2 @ drop (length s2) (dataSectors h2)\<rparr>, m2)"
    "int (length s2) = sectors_of DirectoryFileSize" "distinct s2" "set s2 \<inter> bm_used m1 = {}" "set s2 \<subseteq> {0..<numBits m1}"
    "bm_inv m2" "numBits m2 = numBits m1" "bm_used m2 = bm_used m1 \<union> set s2"
    by (rule Allocate_fits [OF s1(6) _ small(3,4) len(2)])
  have r: "set s1 \<subseteq> {0..<1024}" "set s2 \<subseteq> {0..<1024}" using s1(5,7) s2(5) fm2(3) by simp_all
  define a where "a = h1\<lparr>numBytes := FreeMapFileSize, numSectors := sectors_of FreeMapFileSize,
    dataSectors := s1 @ drop (length s1) (dataSectors h1)\<rparr>"
  define b where "b = h2\<lparr>numBytes := DirectoryFileSize, numSectors := sectors_of DirectoryFileSize,
    dataSectors := s2 @ drop (length s2) (dataSectors h2)\<rparr>"
  note a = allocated_file [OF assms(1) small(1,2) s1(2,3) r(1) a_def]
    and b = allocated_file [OF assms(2) small(3,4) s2(2,3) r(2) b_def]
  show thesis
  proof (rule that [OF _ _ _ s1(1) [folded a_def] s2(1) [folded b_def] a(1) _ b(1) _ _ _ s2(6)])
    show "Bitmap_Bitmap (int NumSectors) = Inr fm0" using fm0(1) by (simp add: disk_constants)
    show "Bitmap_Mark fm0 FreeMapSector = Inr fm1" "Bitmap_Mark fm1 DirectorySector = Inr fm2"
      using fm1(1) fm2(1) by (simp_all add: FreeMapSector_def DirectorySector_def)
    show "numBytes a = 128" "numBytes b = 200" using a(3) b(3) by (simp_all add: sectors_of_system)
    show "numBits m2 = 1024" using s2(7) s1(7) fm2(3) by simp
    show "bm_used m2 = {0, 1} \<union> set (file_sectors a) \<union> set (file_sectors b)" by (simp add: s1(8) s2(8) fm2(4) a(2) b(2))
    show "{0, 1} \<inter> (set (file_sectors a) \<union> set (file_sectors b)) = {}" "set (file_sectors a) \<inter> set (file_sectors b) = {}"
      using s1(4) s2(4) fm2(4) by (auto simp: s1(8) a(2) b(2))
  qed
qed

lemma FileSystem_format_ok:
  assumes g: "fresh_ok g" and d: "platter_ok d"
  shows "\<exists>fs. FileSystem_format g d = Inr fs \<and> fs_ok fs \<and> fs_files fs = Map.empty"
proof -
  have h: "header_ok (g_hdr g 0)" "header_ok (g_hdr g 1)" using g by (simp_all add: fresh_ok_def)
  obtain fm0 fm1 fm2 m1 m2 a b where m:
    "Bitmap_Bitmap (int NumSectors) = Inr fm0" "Bitmap_Mark fm0 FreeMapSector = Inr fm1" "Bitmap_Mark fm1 DirectorySector = Inr fm2"
    "FileHeader_Allocate fm2 FreeMapFileSize (g_hdr g 0) = Inr (True, a, m1)"
    "FileHeader_Allocate m1 DirectoryFileSize (g_hdr g 1) = Inr (True, b, m2)"
    "file_ok a" "numBytes a = 128" "file_ok b" "numBytes b = 200" "{0, 1} \<inter> (set (file_sectors a) \<union> set (file_sectors b)) = {}"
    "set (file_sectors a) \<inter> set (file_sectors b) = {}" "bm_inv m2" "numBits m2 = 1024"
    "bm_used m2 = {0, 1} \<union> set (file_sectors a) \<union> set (file_sectors b)"
    by (rule format_maps [OF h])
  have img: "length (header_image a) = SectorSize" "length (header_image b) = SectorSize"
    "image_header (header_image a) = a" "image_header (header_image b) = b"
    using header_roundtrip m(6,8) unfolding file_ok_def by blast+
  define d2 where "d2 = d(0 := header_image a, 1 := header_image b)"
  define fs0 where "fs0 = \<lparr>fs_disk = d2, freeMapFile = \<lparr>hdr = a, seekPosition = 0\<rparr>, directoryFile = \<lparr>hdr = b, seekPosition = 0\<rparr>,
    ListFile = replicate 20 None\<rparr>"
  have wb: "FileHeader_WriteBack FreeMapSector a d = Inr (d(0 := header_image a))"
    "FileHeader_WriteBack DirectorySector b (d(0 := header_image a)) = Inr d2"
    using write_sector_ok [of 0 "header_image a" d] write_sector_ok [of 1 "header_image b" "d(0 := header_image a)"] img
    by (simp_all add: FileHeader_WriteBack_def FreeMapSector_def DirectorySector_def disk_constants d2_def)
  have d2: "platter_ok d2" "d2 0 = header_image a" "d2 1 = header_image b" using d img by (simp_all add: platter_ok_def d2_def)
  then have sys: "system_ok fs0"
    using m(6-11) img unfolding system_ok_def by (simp add: fs0_def header_at_def)
  have opens: "OpenFile_OpenFile FreeMapSector d2 = Inr (freeMapFile fs0)" "OpenFile_OpenFile DirectorySector d2 = Inr (directoryFile fs0)"
    using d2 img by (simp_all add: OpenFile_OpenFile_def FileHeader_FetchFrom_def read_sector_def FreeMapSector_def
        DirectorySector_def fs0_def disk_constants)
  let ?t = "Directory_Directory (g_table g)"
  have t: "list_all entry_ok ?t" "length ?t = NumDirEntries" using fresh_table [OF g] by blast+
  have ut: "used_entries ?t = []" by (simp add: Directory_Directory_def used_entries_def filter_empty_conv)
  then have te: "directory_ok ?t" "directory_map ?t = Map.empty" using t by (simp_all add: directory_ok_def directory_map_def)
  obtain d3 d' where w: "PersistentBitmap_WriteBack (g_buf g 0) (freeMapFile fs0) m2 (fs_disk fs0) = Inr d3"
    "Directory_WriteBack (g_buf g 1) (directoryFile fs0) ?t d3 = Inr d'" "committed fs0 ?t m2 (fs_disk fs0) d'"
    using commit_map_table [OF sys t m(12,13)] by blast
  note n = committed_new [OF w(3)]
  have "FileSystem_format g d = Inr (fs0\<lparr>fs_disk := d'\<rparr>)"
    using m(1-5) wb opens w(1,2) by (simp add: FileSystem_format_def Let_def fs0_def)
  moreover have "bm_used m2 = reserved fs0" by (simp add: m(14) reserved_def fs0_def)
  then have "fs_ok (fs0\<lparr>fs_disk := d'\<rparr>)" using n te by (simp add: fs_ok_def files_ok_def)
  moreover have "fs_files (fs0\<lparr>fs_disk := d'\<rparr>) = Map.empty" using n(1) te(2) by (simp add: fs_files_def fun_eq_iff)
  ultimately show ?thesis by blast
qed

section \<open>Opening a file\<close>

lemma open_sector:
  assumes fs: "fs_ok fs" and k: "directory_map (fs_table fs) k = Some s"
  shows "0 \<le> s" "OpenFile_OpenFile s (fs_disk fs) = Inr \<lparr>hdr = header_at (fs_disk fs) s, seekPosition = 0\<rparr>"
proof -
  have s: "0 \<le> s" "s < int NumSectors" using fs_okD(3) [OF fs] k unfolding files_ok_def by blast+
  show "0 \<le> s" by (rule s(1))
  show "OpenFile_OpenFile s (fs_disk fs) = Inr \<lparr>hdr = header_at (fs_disk fs) s, seekPosition = 0\<rparr>"
    using s by (simp add: OpenFile_OpenFile_def FileHeader_FetchFrom_def read_sector_ok header_at_def)
qed

lemma FileSystem_Open_ok:
  assumes fs: "fs_ok fs" and g: "fresh_ok g" and name: "cstring name cs"
  shows "FileSystem_Open g name fs = aget (ListFile fs) (FindFreeSlot fs)"
proof -
  note f = fs_okD [OF fs] and find = Directory_Find_ok [OF f(2) name]
  show ?thesis
  proof (cases "directory_map (fs_table fs) (take FileNameMaxLen cs)")
    case None
    then show ?thesis using found_table(1) [OF fs g] find by (simp add: FileSystem_Open_def)
  next
    case (Some s)
    then show ?thesis using found_table(1) [OF fs g] find open_sector [OF fs Some] by (simp add: FileSystem_Open_def)
  qed
qed

lemma FindFreeSlot_from_cases:
  "FindFreeSlot_from i xs = (if None \<in> set xs then int (i + length (takeWhile (\<lambda>x. x \<noteq> None) xs)) else -1)"
  by (induction xs arbitrary: i) auto

lemma takeWhile_shorter: "x \<in> set xs \<Longrightarrow> \<not> P x \<Longrightarrow> length (takeWhile P xs) < length xs"
  by (induction xs) auto

lemma Open_slot:
  assumes "length (ListFile fs) = 20"
  shows "aget (ListFile fs) (FindFreeSlot fs) = (if None \<in> set (drop 2 (ListFile fs)) then Inr None else Inl OutOfBounds)"
proof (cases "None \<in> set (drop 2 (ListFile fs))")
  case True
  define n where "n = length (takeWhile (\<lambda>x. x \<noteq> None) (drop 2 (ListFile fs)))"
  have n: "n < length (drop 2 (ListFile fs))" unfolding n_def by (rule takeWhile_shorter [OF True]) simp
  have "drop 2 (ListFile fs) ! n = None"
    using nth_length_takeWhile [of "\<lambda>x. x \<noteq> None" "drop 2 (ListFile fs)"] n unfolding n_def by blast
  then have "ListFile fs ! (2 + n) = None" "2 + n < length (ListFile fs)" using n assms by simp_all
  moreover have "FindFreeSlot fs = int (2 + n)" using True unfolding FindFreeSlot_def FindFreeSlot_from_cases n_def by simp
  moreover have "nat (2 + int n) = Suc (Suc n)" by simp
  ultimately show ?thesis using True aget_in [of "int (2 + n)" "ListFile fs"] by simp
next
  case False
  then show ?thesis by (simp add: FindFreeSlot_def FindFreeSlot_from_cases aget_def)
qed

lemma FileSystem_Create_ListFile: "FileSystem_Create g name n fs = Inr (b, fs') \<Longrightarrow> ListFile fs' = ListFile fs"
  by (auto simp: FileSystem_Create_def Let_def bindr_Inr_iff split: if_splits prod.splits)

lemma FileSystem_format_ListFile: "FileSystem_format g d = Inr fs \<Longrightarrow> ListFile fs = replicate 20 None"
  by (auto simp: FileSystem_format_def Let_def bindr_Inr_iff split: prod.splits)

lemma FileSystem_mount_ListFile: "FileSystem_mount d = Inr fs \<Longrightarrow> ListFile fs = replicate 20 None"
  by (auto simp: FileSystem_mount_def Let_def bindr_Inr_iff)

lemma Create_empty_file:
  assumes "fs_ok fs" "fresh_ok g" "cstring name cs"
  shows "\<exists>b fs'. FileSystem_Create g name 0 fs = Inr (b, fs') \<and> fs_ok fs' \<and> ListFile fs' = ListFile fs"
proof -
  from FileSystem_Create_ok [OF assms, of 0]
  have "\<exists>b fs'. FileSystem_Create g name 0 fs = Inr (b, fs') \<and> fs_ok fs'" using assms(1) by (auto split: if_splits)
  then show ?thesis using FileSystem_Create_ListFile by blast
qed

lemma std_names: "cstring stdin_name [115, 116, 100, 105, 110]" "cstring stdout_name [115, 116, 100, 111, 117, 116]"
  by (simp_all add: cstring_def stdin_name_def stdout_name_def)

lemma FileSystem_FileSystem_fails:
  assumes g: "\<And>i. fresh_ok (g i)"
    and d: "if format then platter_ok d else \<exists>fs. FileSystem_mount d = Inr fs \<and> fs_ok fs"
  shows "FileSystem_FileSystem format g d = Inl NullDereference"
proof -
  obtain fs where fs: "(if format then FileSystem_format (g 0) d else FileSystem_mount d) = Inr fs" "fs_ok fs"
    "ListFile fs = replicate 20 None"
    using d FileSystem_format_ok [OF g] FileSystem_format_ListFile FileSystem_mount_ListFile by (cases format) force+
  obtain b1 fs1 where c1: "FileSystem_Create (g 1) stdin_name 0 fs = Inr (b1, fs1)" "fs_ok fs1" "ListFile fs1 = replicate 20 None"
    using Create_empty_file [OF fs(2) g std_names(1)] fs(3) by metis
  obtain b2 fs2 where c2: "FileSystem_Create (g 2) stdout_name 0 fs1 = Inr (b2, fs2)" "fs_ok fs2" "ListFile fs2 = replicate 20 None"
    using Create_empty_file [OF c1(2) g std_names(2)] c1(3) by metis
  have "FileSystem_Open (g 3) stdin_name fs2 = Inr None"
    using FileSystem_Open_ok [OF c2(2) g std_names(1)] Open_slot [of fs2] c2(3) by simp
  then show ?thesis using fs(1) c1(1) c2(1) by (simp add: FileSystem_FileSystem_def set_fileName_def)
qed

section \<open>Properties\<close>

text \<open>A disk full of zeros, and memory full of garbage.\<close>

definition blank_disk :: platter where "blank_disk = (\<lambda>_. replicate 128 0)"

definition garbage_memory :: fresh where
  "garbage_memory = \<lparr>g_buf = \<lambda>_ _. 170,
     g_table = replicate 10 \<lparr>inUse = True, de_sector = 3, de_name = replicate 10 7, padding = replicate 5 1\<rparr>,
     g_hdr = \<lambda>_. \<lparr>numBytes = 5, numSectors = 5, dataSectors = replicate 30 5\<rparr>\<rparr>"

lemma garbage_memory_ok: "fresh_ok garbage_memory"
  by (simp add: fresh_ok_def garbage_memory_def NumDirEntries_def entry_ok_def FileNameMaxLen_def header_ok_def NumDirect_eq
      list_all_iff)

lemma blank_disk_ok: "platter_ok blank_disk" by (simp add: platter_ok_def blank_disk_def SectorSize_def)

text \<open>
  C10: Formatting makes an empty file system that is in order.  Whatever the disk and the memory held, the
  constructor's branch for a new disk succeeds and leaves a disk on which every sector marked in the
  map of free sectors belongs to a system file, and no file exists.
\<close>

theorem FileSystem_format_empty:
  assumes "fresh_ok g" "platter_ok d"
  shows "\<exists>fs. FileSystem_format g d = Inr fs \<and> fs_ok fs \<and> fs_files fs = Map.empty"
  by (rule FileSystem_format_ok [OF assms])

theorem FileSystem_format_empty_witness:
  "\<exists>fs. FileSystem_format garbage_memory blank_disk = Inr fs \<and> fs_ok fs \<and> fs_files fs = Map.empty"
  by (rule FileSystem_format_empty [OF garbage_memory_ok blank_disk_ok])

text \<open>
  C7: \<open>Create\<close> adds one file and keeps the disk in order.  It returns false, and changes nothing, exactly when
  the name (cut to nine characters) exists, the directory is full or too few sectors are free.  Else,
  for a size of at most \<open>MaxFileSize\<close>, the new name has a file of exactly that many bytes, every other
  file keeps its bytes, and no sector is used twice; for a larger size the code runs past the end of
  the file header.
\<close>

theorem FileSystem_Create_outcomes:
  assumes "fs_ok fs" "fresh_ok g" "cstring name cs" "0 \<le> n"
  shows "if fs_files fs (take FileNameMaxLen cs) \<noteq> None \<or> card (dom (fs_files fs)) = NumDirEntries \<or>
      1024 - int (card (bm_used (fs_map fs))) < 1 + sectors_of n
    then FileSystem_Create g name n fs = Inr (False, fs)
    else if n \<le> int MaxFileSize
    then \<exists>fs' bs. FileSystem_Create g name n fs = Inr (True, fs') \<and> fs_ok fs' \<and> length bs = nat n \<and>
      fs_files fs' = (fs_files fs)(take FileNameMaxLen cs \<mapsto> bs)
    else FileSystem_Create g name n fs = Inl OutOfBounds"
  by (rule FileSystem_Create_ok [OF assms])

lemma formatted_free:
  assumes "fs_ok fs" "fs_files fs = Map.empty"
  shows "card (bm_used (fs_map fs)) = 5"
proof -
  note f = fs_okD [OF assms(1)] and sys = system_okD [OF fs_okD(1) [OF assms(1)]]
  have "directory_map (fs_table fs) = Map.empty" using assms(2) by (simp add: fs_files_def fun_eq_iff)
  then have used: "bm_used (fs_map fs) = {0, 1} \<union> set (file_sectors (hdr (freeMapFile fs))) \<union> set (file_sectors (hdr (directoryFile fs)))"
    using f(4) by (simp add: reserved_def)
  have "distinct (file_sectors (hdr (freeMapFile fs)))" "distinct (file_sectors (hdr (directoryFile fs)))"
    using sys(2,4) by (simp_all add: file_ok_def)
  moreover have "length (file_sectors (hdr (freeMapFile fs))) = 1" "length (file_sectors (hdr (directoryFile fs))) = 2"
    using sys(2-5) by (simp_all add: file_ok_def file_sectors_def header_ok_def NumDirect_eq sectors_of_system)
  ultimately have c: "card (set (file_sectors (hdr (freeMapFile fs)))) = 1" "card (set (file_sectors (hdr (directoryFile fs)))) = 2"
    by (simp_all add: distinct_card)
  have "card ({0::int, 1} \<union> set (file_sectors (hdr (freeMapFile fs)))) = 3"
    using c(1) sys(8,9) by (subst card_Un_disjoint) auto
  moreover have "({0, 1} \<union> set (file_sectors (hdr (freeMapFile fs)))) \<inter> set (file_sectors (hdr (directoryFile fs))) = {}"
    using sys(10-12) by auto
  ultimately show ?thesis unfolding used using c(2) by (subst card_Un_disjoint) auto
qed

lemma cstring_example: "cstring [97, 98, 0] [97, 98]" by (simp add: cstring_def)

theorem FileSystem_Create_outcomes_witness:
  "\<exists>fs fs' bs. FileSystem_format garbage_memory blank_disk = Inr fs \<and>
     FileSystem_Create garbage_memory [97, 98, 0] 300 fs = Inr (True, fs') \<and> fs_ok fs' \<and> length bs = 300 \<and>
     fs_files fs' = [[97, 98] \<mapsto> bs] \<and> FileSystem_Create garbage_memory [97, 98, 0] 4000 fs = Inl OutOfBounds"
proof -
  obtain fs where fs: "FileSystem_format garbage_memory blank_disk = Inr fs" "fs_ok fs" "fs_files fs = Map.empty"
    using FileSystem_format_ok [OF garbage_memory_ok blank_disk_ok] by blast
  have s: "sectors_of 300 = 3" "sectors_of 4000 = 32" by (simp_all add: sectors_of_def divRoundUp_def SectorSize_def)
  note p = FileSystem_Create_outcomes [OF fs(2) garbage_memory_ok cstring_example]
  have k: "take FileNameMaxLen [97, 98] = [97, 98 :: u8]" by (simp add: FileNameMaxLen_def)
  show ?thesis
    using p [of 300] p [of 4000] formatted_free [OF fs(2,3)] fs
    by (simp add: s k NumDirEntries_def MaxFileSize_def NumDirect_eq SectorSize_def)
qed

text \<open>
  C9: \<open>Remove\<close> deletes one file and frees exactly its sectors.  It returns false, and changes nothing, when no file
  has the name; else the name is gone, every other file keeps its bytes, and the map of free sectors is
  again exactly the sectors in use.
\<close>

theorem FileSystem_Remove_outcomes:
  assumes "fs_ok fs" "fresh_ok g" "cstring name cs"
  shows "if fs_files fs (take FileNameMaxLen cs) = None then FileSystem_Remove g name fs = Inr (False, fs)
    else \<exists>fs'. FileSystem_Remove g name fs = Inr (True, fs') \<and> fs_ok fs' \<and> fs_files fs' = (fs_files fs)(take FileNameMaxLen cs := None)"
  by (rule FileSystem_Remove_ok [OF assms])

lemma example_created:
  obtains fs bs where "fs_ok fs" "fs_files fs = [[97, 98] \<mapsto> bs]" "length bs = 300"
    "\<exists>fs0. FileSystem_format garbage_memory blank_disk = Inr fs0 \<and> FileSystem_Create garbage_memory [97, 98, 0] 300 fs0 = Inr (True, fs)"
proof -
  obtain fs where fs: "FileSystem_format garbage_memory blank_disk = Inr fs" "fs_ok fs" "fs_files fs = Map.empty"
    using FileSystem_format_ok [OF garbage_memory_ok blank_disk_ok] by blast
  have s: "sectors_of 300 = 3" by (simp add: sectors_of_def divRoundUp_def SectorSize_def)
  have k: "take FileNameMaxLen [97, 98] = [97, 98 :: u8]" by (simp add: FileNameMaxLen_def)
  have "\<exists>fs' bs. FileSystem_Create garbage_memory [97, 98, 0] 300 fs = Inr (True, fs') \<and> fs_ok fs' \<and> length bs = 300 \<and>
      fs_files fs' = [[97, 98] \<mapsto> bs]"
    using FileSystem_Create_ok [OF fs(2) garbage_memory_ok cstring_example, of 300] formatted_free [OF fs(2,3)] fs(3)
    by (simp add: s k NumDirEntries_def MaxFileSize_def NumDirect_eq SectorSize_def)
  then show thesis using that fs(1) by blast
qed

theorem FileSystem_Remove_outcomes_witness:
  "\<exists>fs fs'. fs_files fs [97, 98] \<noteq> None \<and> FileSystem_Remove garbage_memory [97, 98, 0] fs = Inr (True, fs') \<and> fs_ok fs' \<and>
     fs_files fs' = Map.empty"
proof -
  obtain fs bs where fs: "fs_ok fs" "fs_files fs = [[97, 98] \<mapsto> bs]" by (rule example_created)
  have k: "take FileNameMaxLen [97, 98] = [97, 98 :: u8]" by (simp add: FileNameMaxLen_def)
  have "\<exists>fs'. FileSystem_Remove garbage_memory [97, 98, 0] fs = Inr (True, fs') \<and> fs_ok fs' \<and> fs_files fs' = Map.empty"
    using FileSystem_Remove_outcomes [OF fs(1) garbage_memory_ok cstring_example] fs(2) by (simp add: k)
  moreover have "fs_files fs [97, 98] \<noteq> None" using fs(2) by simp
  ultimately show ?thesis by blast
qed

text \<open>
  C8: Files do not interfere.  Opening the sector that the directory names for a file gives an open file that reads
  the bytes of that file, and writing through it changes the bytes written and nothing else: the other
  files, the directory and the map stay as they are, and the disk stays in order.
\<close>

theorem files_do_not_interfere:
  assumes "fs_ok fs" "cstring name cs" "fs_files fs (take FileNameMaxLen cs) = Some c" "int p + n < 2 ^ 31" "nat n \<le> length bs"
  defines "m \<equiv> min (nat n) (length c - p)"
  shows "\<exists>s f d'. Directory_Find name (fs_table fs) = Inr s \<and> OpenFile_OpenFile s (fs_disk fs) = Inr f \<and>
    OpenFile_ReadAt n (int p) f (fs_disk fs) = Inr (int m, take m (drop p c)) \<and>
    OpenFile_WriteAt garbage bs n (int p) f (fs_disk fs) = Inr (int m, d') \<and> fs_ok (fs\<lparr>fs_disk := d'\<rparr>) \<and>
    fs_files (fs\<lparr>fs_disk := d'\<rparr>) = (fs_files fs)(take FileNameMaxLen cs \<mapsto> take p c @ take m bs @ drop (p + m) c)"
proof -
  let ?k = "take FileNameMaxLen cs"
  note f = fs_okD [OF assms(1)]
  obtain s where s: "directory_map (fs_table fs) ?k = Some s" "c = file_content (header_at (fs_disk fs) s) (fs_disk fs)"
    using assms(3) by (auto simp: fs_files_def)
  let ?f = "\<lparr>hdr = header_at (fs_disk fs) s, seekPosition = 0\<rparr>"
  have ok: "file_ok (hdr ?f)" "platter_ok (fs_disk fs)"
    using f(3) s(1) system_okD(1) [OF f(1)] unfolding files_ok_def by auto
  note io = OpenFile_bytes [OF ok assms(4,5), of garbage]
  then obtain d' where d': "OpenFile_WriteAt garbage bs n (int p) ?f (fs_disk fs) = Inr (int m, d')"
    "file_content (hdr ?f) d' = take p c @ take m bs @ drop (p + m) c" "platter_ok d'"
    "\<forall>x. int x \<notin> set (file_sectors (hdr ?f)) \<longrightarrow> d' x = fs_disk fs x"
    unfolding s(2) m_def by auto
  have "fs_ok (fs\<lparr>fs_disk := d'\<rparr>) \<and> fs_files (fs\<lparr>fs_disk := d'\<rparr>) = (fs_files fs)(?k \<mapsto> take p c @ take m bs @ drop (p + m) c)"
    using file_write [OF assms(1) s(1) d'(3)] d'(2,4) by simp
  moreover have "Directory_Find name (fs_table fs) = Inr s" using Directory_Find_ok [OF f(2) assms(2)] s(1) by simp
  moreover have "OpenFile_ReadAt n (int p) ?f (fs_disk fs) = Inr (int m, take m (drop p c))" using io s(2) m_def by simp
  ultimately show ?thesis using d'(1) open_sector(2) [OF assms(1) s(1)] by blast
qed

theorem files_do_not_interfere_witness:
  "\<exists>fs c s f d'. length c = 300 \<and> fs_files fs = [[97, 98] \<mapsto> c] \<and> Directory_Find [97, 98, 0] (fs_table fs) = Inr s \<and>
     OpenFile_OpenFile s (fs_disk fs) = Inr f \<and> OpenFile_WriteAt (\<lambda>_. 0) [1, 2, 3] 3 299 f (fs_disk fs) = Inr (1, d') \<and>
     fs_files (fs\<lparr>fs_disk := d'\<rparr>) = [[97, 98] \<mapsto> take 299 c @ [1]]"
proof -
  obtain fs c where fs: "fs_ok fs" "fs_files fs = [[97, 98] \<mapsto> c]" "length c = 300" by (rule example_created)
  have k: "take FileNameMaxLen [97, 98] = [97, 98 :: u8]" by (simp add: FileNameMaxLen_def)
  have "fs_files fs (take FileNameMaxLen [97, 98]) = Some c" using fs(2) by (simp add: k)
  note files_do_not_interfere [OF fs(1) cstring_example this, of 299 3 "[1, 2, 3]" "\<lambda>_. 0"]
  then have "\<exists>s f d'. Directory_Find [97, 98, 0] (fs_table fs) = Inr s \<and> OpenFile_OpenFile s (fs_disk fs) = Inr f \<and>
     OpenFile_WriteAt (\<lambda>_. 0) [1, 2, 3] 3 299 f (fs_disk fs) = Inr (1, d') \<and>
     fs_files (fs\<lparr>fs_disk := d'\<rparr>) = [[97, 98] \<mapsto> take 299 c @ [1]]"
    using fs(2,3) by (auto simp: k)
  then show ?thesis using fs(2,3) by blast
qed

text \<open>
  C11: The constructor of the file system never returns.  \<open>Open\<close> gives back the entry of \<open>ListFile\<close> at the first free
  slot, which is null, instead of the file it opened, and reads before the array when no slot is free;
  so \<open>FileSystem::FileSystem\<close> dereferences a null pointer right after it opens \<open>stdin\<close>, on a new disk and on
  every disk in order.
\<close>

theorem FileSystem_constructor_crashes:
  assumes "\<And>i. fresh_ok (g i)" "if format then platter_ok d else \<exists>fs. FileSystem_mount d = Inr fs \<and> fs_ok fs"
  shows "FileSystem_FileSystem format g d = Inl NullDereference"
  by (rule FileSystem_FileSystem_fails [OF assms])

theorem FileSystem_constructor_crashes_witness:
  "FileSystem_FileSystem True (\<lambda>_. garbage_memory) blank_disk = Inl NullDereference"
  by (rule FileSystem_constructor_crashes) (simp_all add: garbage_memory_ok blank_disk_ok)

end
