(* ===== verification/Host_Files.thy ===== *)
theory Host_Files
  imports Bytes
begin

text \<open>
  The file system of the default build (\<open>FILESYS_STUB\<close>): the classes \<open>FileSystem\<close> and \<open>OpenFile\<close> of
  \<open>filesys/filesys.h\<close> and \<open>filesys/openfile.h\<close> pass every operation on to UNIX, through the wrappers of
  \<open>lib/sysdep.cc\<close>.  The UNIX calls are not part of the program: they are the argument \<open>h\<close> of the
  definitions, functions on a state \<open>'w\<close> of the host that nothing is assumed about.
\<close>

section \<open>The host\<close>

text \<open>
  \<open>open\<close> is asked for \<open>O_RDWR\<close>, with \<open>O_CREAT | O_TRUNC\<close> when its second argument is true; \<open>read\<close> delivers
  its result and the bytes it put into the buffer.  \<open>h_usable n\<close> is how many bytes a block of \<open>n\<close> bytes
  from \<open>new\<close> has room for (allocators round up), \<open>h_garbage\<close> what such a block holds.
\<close>

record 'w host =
  h_open :: "u8 list \<Rightarrow> bool \<Rightarrow> 'w \<Rightarrow> int \<times> 'w"
  h_read :: "int \<Rightarrow> int \<Rightarrow> 'w \<Rightarrow> (int \<times> u8 list) \<times> 'w"
  h_write :: "int \<Rightarrow> u8 list \<Rightarrow> 'w \<Rightarrow> int \<times> 'w"
  h_lseek :: "int \<Rightarrow> int \<Rightarrow> int \<Rightarrow> 'w \<Rightarrow> int \<times> 'w"
  h_close :: "int \<Rightarrow> 'w \<Rightarrow> int \<times> 'w"
  h_unlink :: "u8 list \<Rightarrow> 'w \<Rightarrow> int \<times> 'w"
  h_random :: "'w \<Rightarrow> int \<times> 'w"
  h_usable :: "nat \<Rightarrow> nat"
  h_garbage :: "nat \<Rightarrow> u8"

section \<open>The wrappers of \<open>lib/sysdep.cc\<close>\<close>

definition OpenForWrite :: "'w host \<Rightarrow> u8 list \<Rightarrow> 'w \<Rightarrow> (int \<times> 'w) res" where
  "OpenForWrite h name w =
     (let (fd, w) = h_open h name True w in bindr (ASSERT (fd \<ge> 0)) (\<lambda>_. Inr (fd, w)))"

definition OpenForReadWrite :: "'w host \<Rightarrow> u8 list \<Rightarrow> bool \<Rightarrow> 'w \<Rightarrow> (int \<times> 'w) res" where
  "OpenForReadWrite h name crashOnError w =
     (let (fd, w) = h_open h name False w in
      bindr (ASSERT (\<not> crashOnError \<or> fd \<ge> 0)) (\<lambda>_. Inr (fd, w)))"

definition ReadPartial :: "'w host \<Rightarrow> int \<Rightarrow> int \<Rightarrow> 'w \<Rightarrow> ((int \<times> u8 list) \<times> 'w) res" where
  "ReadPartial h fd nBytes w = Inr (h_read h fd nBytes w)"

definition WriteFile :: "'w host \<Rightarrow> int \<Rightarrow> u8 list \<Rightarrow> int \<Rightarrow> 'w \<Rightarrow> 'w res" where
  "WriteFile h fd buffer nBytes w =
     bindr (bytes_at buffer 0 nBytes) (\<lambda>bs.
     let (retVal, w) = h_write h fd bs w in bindr (ASSERT (retVal = nBytes)) (\<lambda>_. Inr w))"

definition Lseek :: "'w host \<Rightarrow> int \<Rightarrow> int \<Rightarrow> int \<Rightarrow> 'w \<Rightarrow> 'w res" where
  "Lseek h fd offset whence w =
     (let (retVal, w) = h_lseek h fd offset whence w in bindr (ASSERT (retVal \<ge> 0)) (\<lambda>_. Inr w))"

definition SEEK_CUR :: int where "SEEK_CUR = 1"

definition Tell :: "'w host \<Rightarrow> int \<Rightarrow> 'w \<Rightarrow> (int \<times> 'w) res" where
  "Tell h fd w = Inr (h_lseek h fd 0 SEEK_CUR w)"

definition Close :: "'w host \<Rightarrow> int \<Rightarrow> 'w \<Rightarrow> (int \<times> 'w) res" where
  "Close h fd w =
     (let (retVal, w) = h_close h fd w in bindr (ASSERT (retVal \<ge> 0)) (\<lambda>_. Inr (retVal, w)))"

definition Unlink :: "'w host \<Rightarrow> u8 list \<Rightarrow> 'w \<Rightarrow> (bool \<times> 'w) res" where
  "Unlink h name w = (let (retVal, w) = h_unlink h name w in Inr (retVal \<noteq> 0, w))"

section \<open>Open files\<close>

record unix_file =
  uf_file :: int
  currentOffset :: int
  fileName :: "u8 list"

text \<open>The name of a new file is set by whoever opens it.\<close>

definition UnixFile :: "u8 list \<Rightarrow> int \<Rightarrow> unix_file" where
  "UnixFile garbage f = \<lparr>uf_file = f, currentOffset = 0, fileName = garbage\<rparr>"

definition delete_UnixFile :: "'w host \<Rightarrow> unix_file \<Rightarrow> 'w \<Rightarrow> 'w res" where
  "delete_UnixFile h f w = bindr (Close h (uf_file f) w) (\<lambda>(_, w). Inr w)"

text \<open>The result of \<open>read\<close> and the bytes it put at the front of \<open>into\<close>.\<close>

definition UnixFile_ReadAt :: "'w host \<Rightarrow> int \<Rightarrow> int \<Rightarrow> unix_file \<Rightarrow> 'w \<Rightarrow> ((int \<times> u8 list) \<times> 'w) res" where
  "UnixFile_ReadAt h n position f w =
     bindr (Lseek h (uf_file f) position 0 w) (ReadPartial h (uf_file f) n)"

definition UnixFile_WriteAt :: "'w host \<Rightarrow> u8 list \<Rightarrow> int \<Rightarrow> int \<Rightarrow> unix_file \<Rightarrow> 'w \<Rightarrow> (int \<times> 'w) res" where
  "UnixFile_WriteAt h from n position f w =
     bindr (Lseek h (uf_file f) position 0 w) (\<lambda>w.
     bindr (WriteFile h (uf_file f) from n w) (\<lambda>w. Inr (n, w)))"

definition UnixFile_Read :: "'w host \<Rightarrow> int \<Rightarrow> unix_file \<Rightarrow> 'w \<Rightarrow> ((int \<times> u8 list \<times> unix_file) \<times> 'w) res" where
  "UnixFile_Read h n f w =
     bindr (UnixFile_ReadAt h n (currentOffset f) f w) (\<lambda>((numRead, bs), w).
     Inr ((numRead, bs, f\<lparr>currentOffset := s32 (currentOffset f + numRead)\<rparr>), w))"

definition UnixFile_Write :: "'w host \<Rightarrow> u8 list \<Rightarrow> int \<Rightarrow> unix_file \<Rightarrow> 'w \<Rightarrow> ((int \<times> unix_file) \<times> 'w) res" where
  "UnixFile_Write h from n f w =
     bindr (UnixFile_WriteAt h from n (currentOffset f) f w) (\<lambda>(numWritten, w).
     Inr ((numWritten, f\<lparr>currentOffset := s32 (currentOffset f + numWritten)\<rparr>), w))"

definition UnixFile_Length :: "'w host \<Rightarrow> unix_file \<Rightarrow> 'w \<Rightarrow> (int \<times> 'w) res" where
  "UnixFile_Length h f w = bindr (Lseek h (uf_file f) 0 2 w) (Tell h (uf_file f))"

definition UnixFile_GetCurrentPos :: "'w host \<Rightarrow> unix_file \<Rightarrow> 'w \<Rightarrow> ((int \<times> unix_file) \<times> 'w) res" where
  "UnixFile_GetCurrentPos h f w =
     bindr (Tell h (uf_file f) w) (\<lambda>(pos, w). Inr ((pos, f\<lparr>currentOffset := pos\<rparr>), w))"

definition UnixFile_Seek :: "'w host \<Rightarrow> int \<Rightarrow> unix_file \<Rightarrow> 'w \<Rightarrow> ((int \<times> unix_file) \<times> 'w) res" where
  "UnixFile_Seek h pos f w =
     bindr (Lseek h (uf_file f) pos 0 w) (\<lambda>w. UnixFile_GetCurrentPos h f w)"

section \<open>The file system\<close>

definition Unix_Create :: "'w host \<Rightarrow> u8 list \<Rightarrow> 'w \<Rightarrow> (bool \<times> 'w) res" where
  "Unix_Create h name w =
     bindr (OpenForWrite h name w) (\<lambda>(fd, w).
     if fd = -1 then Inr (False, w) else bindr (Close h fd w) (\<lambda>(_, w). Inr (True, w)))"

definition Unix_Open :: "'w host \<Rightarrow> u8 list \<Rightarrow> 'w \<Rightarrow> (unix_file option \<times> 'w) res" where
  "Unix_Open h name w =
     bindr (OpenForReadWrite h name False w) (\<lambda>(fd, w).
     if fd = -1 then Inr (None, w) else Inr (Some (UnixFile [] fd), w))"

definition Unix_Remove :: "'w host \<Rightarrow> u8 list \<Rightarrow> 'w \<Rightarrow> (bool \<times> 'w) res" where
  "Unix_Remove h name w = bindr (Unlink h name w) (\<lambda>(b, w). Inr (\<not> b, w))"

primrec FreeSlot_from :: "nat \<Rightarrow> 'a option list \<Rightarrow> int" where
  "FreeSlot_from i [] = -1"
| "FreeSlot_from i (f # fs) = (if f = None then int i else FreeSlot_from (i + 1) fs)"

definition Unix_FindFreeSlot :: "'a option list \<Rightarrow> int" where
  "Unix_FindFreeSlot files = FreeSlot_from 2 (drop 2 files)"

text \<open>The constructor; \<open>p->fileName = name\<close> needs \<open>p\<close> to point to a file.\<close>

definition name_file :: "u8 list \<Rightarrow> unix_file option \<Rightarrow> unix_file res" where
  "name_file name p = (case p of None \<Rightarrow> Inl NullDereference | Some f \<Rightarrow> Inr (f\<lparr>fileName := name\<rparr>))"

definition Unix_FileSystem :: "'w host \<Rightarrow> 'w \<Rightarrow> (unix_file option list \<times> 'w) res" where
  "Unix_FileSystem h w =
     (let stdin = [115, 116, 100, 105, 110]; stdout = [115, 116, 100, 111, 117, 116] in
      bindr (Unix_Create h stdin w) (\<lambda>(_, w).
      bindr (Unix_Create h stdout w) (\<lambda>(_, w).
      bindr (Unix_Open h stdin w) (\<lambda>(f, w).
      bindr (name_file stdin f) (\<lambda>f0.
      bindr (Unix_Open h stdout w) (\<lambda>(f, w).
      bindr (name_file stdout f) (\<lambda>f1.
      Inr (Some f0 # Some f1 # replicate 18 None, w))))))))"

primrec delete_files :: "'w host \<Rightarrow> unix_file option list \<Rightarrow> 'w \<Rightarrow> 'w res" where
  "delete_files h [] w = Inr w"
| "delete_files h (f # fs) w =
     bindr (case f of None \<Rightarrow> Inr w | Some f \<Rightarrow> delete_UnixFile h f w) (delete_files h fs)"

end
