(* ===== verification/Syscalls.thy ===== *)
theory Syscalls
  imports Host_Files Machine
begin

text \<open>
  System calls (\<open>userprog/exception.cc\<close>, \<open>userprog/ksyscall.h\<close> and the system call half of
  \<open>threads/kernel.cc\<close>): the kernel's handler for traps of user programs, with all it calls.

  The handler works on the machine, the two consoles, the table of open files and the host.  The
  synchronized consoles deliver and take one character after the other, so here they are the
  characters still to be typed and the characters shown; waiting for a character that is never typed is
  the fault \<open>Diverges\<close>.  \<open>Halt\<close> ends the program, which is an outcome of its own.  A \<open>char\<close> is a byte,
  sign-extended where the code converts it to \<open>int\<close>.  What is printed with \<open>cout\<close> and \<open>printf\<close> goes to
  the host's terminal and is not modelled.
\<close>

section \<open>The state\<close>

record 'w system =
  cpu :: machine
  console_in :: "u8 list"
  console_out :: "u8 list"
  ListFile :: "unix_file option list"
  world :: 'w

datatype 'a outcome = Goes 'a | Halts

type_synonym ('w, 'a) sys = "'w system \<Rightarrow> ('a \<times> 'w system) outcome res"

definition ret :: "'a \<Rightarrow> ('w, 'a) sys" where "ret x = (\<lambda>s. Inr (Goes (x, s)))"
definition halt :: "('w, 'a) sys" where "halt = (\<lambda>s. Inr Halts)"

definition after :: "('w, 'a) sys \<Rightarrow> ('a \<Rightarrow> ('w, 'b) sys) \<Rightarrow> ('w, 'b) sys" where
  "after m f = (\<lambda>s. bindr (m s) (\<lambda>r. case r of Halts \<Rightarrow> Inr Halts | Goes (x, s) \<Rightarrow> f x s))"

definition check :: "'a res \<Rightarrow> ('w, 'a) sys" where
  "check r = (\<lambda>s. bindr r (\<lambda>x. ret x s))"

definition on_host :: "('w \<Rightarrow> ('a \<times> 'w) res) \<Rightarrow> ('w, 'a) sys" where
  "on_host m = (\<lambda>s. bindr (m (world s)) (\<lambda>(x, w). ret x (s\<lparr>world := w\<rparr>)))"

definition the_files :: "('w, unix_file option list) sys" where
  "the_files = (\<lambda>s. ret (ListFile s) s)"

definition set_files :: "unix_file option list \<Rightarrow> ('w, unit) sys" where
  "set_files fs = (\<lambda>s. ret () (s\<lparr>ListFile := fs\<rparr>))"

definition ReadReg :: "nat \<Rightarrow> ('w, u32) sys" where
  "ReadReg n = (\<lambda>s. check (Machine_ReadRegister (cpu s) (int n)) s)"

definition WriteReg :: "nat \<Rightarrow> u32 \<Rightarrow> ('w, unit) sys" where
  "WriteReg n v = (\<lambda>s. after (check (Machine_WriteRegister (cpu s) (int n) v)) (\<lambda>m s. ret () (s\<lparr>cpu := m\<rparr>)) s)"

text \<open>\<open>new char[n]\<close>: a negative size is a huge one for \<open>new\<close>, which throws.\<close>

definition new_chars :: "(nat \<Rightarrow> u8) \<Rightarrow> int \<Rightarrow> u8 list res" where
  "new_chars garbage n = (if n < 0 then Inl OutOfMemory else Inr (map garbage [0..<nat n]))"

definition GetChar :: "('w, u8) sys" where
  "GetChar = (\<lambda>s. case console_in s of [] \<Rightarrow> Inl Diverges | c # cs \<Rightarrow> ret c (s\<lparr>console_in := cs\<rparr>))"

definition PutChar :: "u8 \<Rightarrow> ('w, unit) sys" where
  "PutChar c = (\<lambda>s. ret () (s\<lparr>console_out := console_out s @ [c]\<rparr>))"

section \<open>User memory\<close>

text \<open>
  The kernel reads and writes user memory through \<open>ReadMem\<close> and \<open>WriteMem\<close>, which raise the exception of
  a failed translation; the handler halts for each of them.
\<close>

definition SysHalt :: "('w, 'a) sys" where "SysHalt = halt"

definition user_access :: "'a access res \<Rightarrow> ('w, 'a) sys" where
  "user_access r =
     after (check r) (\<lambda>a.
     case a of
       Access x m \<Rightarrow> (\<lambda>s. ret x (s\<lparr>cpu := m\<rparr>))
     | Trap exc bad m \<Rightarrow>
         after (check (DelayedLoad (set_reg BadVAddrReg bad m) 0 0)) (\<lambda>m s. SysHalt (s\<lparr>cpu := m\<rparr>)))"

definition User_ReadMem :: "u32 \<Rightarrow> int \<Rightarrow> ('w, u32) sys" where
  "User_ReadMem addr sz = (\<lambda>s. user_access (ReadMem (cpu s) addr sz) s)"

definition User_WriteMem :: "u32 \<Rightarrow> int \<Rightarrow> u32 \<Rightarrow> ('w, unit) sys" where
  "User_WriteMem addr sz v = (\<lambda>s. user_access (WriteMem (cpu s) addr sz v) s)"

definition IncreasePC :: "('w, unit) sys" where
  "IncreasePC =
     after (ReadReg PCReg) (\<lambda>pc. after (WriteReg PrevPCReg pc) (\<lambda>_.
     after (ReadReg PCReg) (\<lambda>pc. after (WriteReg PCReg (pc + 4)) (\<lambda>_.
     after (ReadReg PCReg) (\<lambda>pc. WriteReg NextPCReg (pc + 4))))))"

primrec User2System_loop :: "u32 \<Rightarrow> nat \<Rightarrow> int \<Rightarrow> u8 list \<Rightarrow> ('w, u8 list) sys" where
  "User2System_loop virtAddr 0 i kernelBuf = ret kernelBuf"
| "User2System_loop virtAddr (Suc n) i kernelBuf =
     after (User_ReadMem (virtAddr + word_of_int i) 1) (\<lambda>oneChar.
     after (check (aset kernelBuf i (ucast oneChar))) (\<lambda>kernelBuf.
     if oneChar = 0 then ret kernelBuf else User2System_loop virtAddr n (i + 1) kernelBuf))"

definition User2System :: "u32 \<Rightarrow> int \<Rightarrow> ('w, u8 list) sys" where
  "User2System virtAddr limit =
     after (check (new_chars (\<lambda>_. 0) (s32 (limit + 1)))) (\<lambda>kernelBuf.
     User2System_loop virtAddr (nat limit) 0 kernelBuf)"

text \<open>The \<open>do\<close> loop: its first argument is \<open>len - i - 1\<close>.\<close>

primrec System2User_loop :: "nat \<Rightarrow> u32 \<Rightarrow> int \<Rightarrow> u8 list \<Rightarrow> ('w, int) sys" where
  "System2User_loop 0 virtAddr i buffer =
     after (check (aget buffer i)) (\<lambda>c.
     after (User_WriteMem (virtAddr + word_of_int i) 1 (scast c)) (\<lambda>_. ret (i + 1)))"
| "System2User_loop (Suc n) virtAddr i buffer =
     after (check (aget buffer i)) (\<lambda>c.
     after (User_WriteMem (virtAddr + word_of_int i) 1 (scast c)) (\<lambda>_.
     if c \<noteq> 0 then System2User_loop n virtAddr (i + 1) buffer else ret (i + 1)))"

definition System2User :: "u32 \<Rightarrow> int \<Rightarrow> u8 list \<Rightarrow> ('w, int) sys" where
  "System2User virtAddr len buffer =
     (if len < 0 then ret (-1) else if len = 0 then ret len
      else System2User_loop (nat len - 1) virtAddr 0 buffer)"

section \<open>The console\<close>

definition newline :: u8 where "newline = 10"
definition EOF :: u8 where "EOF = 255"

text \<open>The loop delivers \<open>i\<close>; its first argument is \<open>size - 1 - i\<close>.\<close>

primrec ReadString_loop :: "nat \<Rightarrow> int \<Rightarrow> u8 list \<Rightarrow> ('w, int \<times> u8 list) sys" where
  "ReadString_loop 0 i buffer = ret (i, buffer)"
| "ReadString_loop (Suc n) i buffer =
     after GetChar (\<lambda>c.
     after (check (aset buffer i c)) (\<lambda>buffer.
     if c = newline \<or> c = EOF then ret (i, buffer) else ReadString_loop n (i + 1) buffer))"

definition ReadString2KeyBoard :: "u32 \<Rightarrow> u8 list \<Rightarrow> int \<Rightarrow> ('w, unit) sys" where
  "ReadString2KeyBoard toAddr buffer sz =
     (if sz \<le> 0 then ret ()
      else
        after (ReadString_loop (nat (sz - 1)) 0 buffer) (\<lambda>(i, buffer).
        after (check (aset buffer i 0)) (\<lambda>buffer.
        after (System2User toAddr i buffer) (\<lambda>_. ret ()))))"

primrec PrintString2Console :: "u8 list \<Rightarrow> ('w, unit) sys" where
  "PrintString2Console [] = check (Inl OutOfBounds)"
| "PrintString2Console (c # cs) =
     (if c \<noteq> 0 then after (PutChar c) (\<lambda>_. PrintString2Console cs) else ret ())"

text \<open>
  \<open>EH_ReadNum\<close>.  The line goes into a buffer of 20 bytes that holds garbage at first; \<open>strlen\<close> and the
  conversion read it up to the first zero byte.
\<close>

primrec ReadNum_line :: "u8 list \<Rightarrow> int \<Rightarrow> u8 list \<Rightarrow> (u8 list \<times> u8 list) res" where
  "ReadNum_line [] i value = Inl Diverges"
| "ReadNum_line (c # cs) i value =
     (if c = newline then Inr (value, cs) else bindr (aset value i c) (ReadNum_line cs (i + 1)))"

text \<open>
  \<open>re\<close> is a \<open>double\<close>, but only ever a whole number: \<open>(value[i] - '0') / n\<close> divides two \<open>int\<close>s.  Whole
  numbers are exact up to \<open>2^53\<close>, and rounding above that keeps them out of the range of \<open>int\<close>.
\<close>

definition is_digit :: "u8 \<Rightarrow> bool" where "is_digit c \<longleftrightarrow> 48 \<le> c \<and> c \<le> 57"

primrec ReadNum_convert :: "u8 list \<Rightarrow> int \<Rightarrow> int \<Rightarrow> int \<Rightarrow> int option" where
  "ReadNum_convert [] countDot n re = Some re"
| "ReadNum_convert (c # cs) countDot n re =
     (if \<not> is_digit c then
        (if c \<noteq> 46 \<or> countDot = 1 then None else ReadNum_convert cs (countDot + 1) n re)
      else if countDot = 0 then ReadNum_convert cs countDot n (re * 10 + (uint c - 48))
      else ReadNum_convert cs countDot (s32 (n * 10)) (re + (uint c - 48) sdiv s32 (n * 10)))"

text \<open>\<open>(int)re\<close> as the x86 converts it.\<close>

definition int_of_double :: "int \<Rightarrow> u32" where
  "int_of_double re = (if - (2 ^ 31) \<le> re \<and> re < 2 ^ 31 then word_of_int re else 0x80000000)"

definition ReadNum_value :: "u8 list \<Rightarrow> u32" where
  "ReadNum_value s =
     (let isNegative = (s \<noteq> [] \<and> hd s = 45) in
      case ReadNum_convert (if isNegative then tl s else s) 0 1 0 of
        None \<Rightarrow> 0
      | Some re \<Rightarrow> int_of_double (if isNegative then - re else re))"

definition EH_ReadNum :: "'w host \<Rightarrow> ('w, unit) sys" where
  "EH_ReadNum h =
     after (check (new_chars (h_garbage h) 20)) (\<lambda>value.
     after (\<lambda>s. after (check (ReadNum_line (console_in s) 0 value)) (\<lambda>(value, rest) s. ret value (s\<lparr>console_in := rest\<rparr>)) s) (\<lambda>value.
     after (check (c_string value)) (\<lambda>str. WriteReg 2 (ReadNum_value str))))"

text \<open>\<open>sprintf(buffer, "%d", number)\<close>, into 12 bytes.\<close>

fun decimal_digits :: "nat \<Rightarrow> u8 list" where
  "decimal_digits n = (if n < 10 then [word_of_nat (48 + n)] else decimal_digits (n div 10) @ [word_of_nat (48 + n mod 10)])"

definition decimal :: "int \<Rightarrow> u8 list" where
  "decimal n = (if n < 0 then 45 # decimal_digits (nat (- n)) else decimal_digits (nat n))"

definition PrintNum :: "'w host \<Rightarrow> u32 \<Rightarrow> ('w, unit) sys" where
  "PrintNum h number =
     after (check (bytes_put (map (h_garbage h) [0..<12]) 0 (decimal (sint number) @ [0]))) PrintString2Console"

text \<open>The \<open>do\<close> loop of \<open>EH_ReadChar\<close>: its first argument is \<open>maxSize - byte - 1\<close>.\<close>

primrec ReadChar_loop :: "nat \<Rightarrow> u8 list \<Rightarrow> ('w, u8 list) sys" where
  "ReadChar_loop 0 value = after GetChar (\<lambda>c. ret (value @ [c]))"
| "ReadChar_loop (Suc n) value =
     after GetChar (\<lambda>c. if c \<noteq> 0 \<and> c \<noteq> newline then ReadChar_loop n (value @ [c]) else ret (value @ [c]))"

definition EH_ReadChar :: "('w, unit) sys" where
  "EH_ReadChar =
     after (ReadChar_loop 9 []) (\<lambda>value.
     let byte = length value - 1 in
     WriteReg 2 (if byte = 1 then scast (hd value) else 0))"

definition EH_PrintChar :: "('w, unit) sys" where
  "EH_PrintChar = after (ReadReg 4) (\<lambda>v. PutChar (ucast v))"

section \<open>Files\<close>

definition MAX_FILE_LENGTH :: int where "MAX_FILE_LENGTH = 32"

text \<open>The loop over the slots 2 to 19: which one has a file of this name open.\<close>

definition find_open :: "u8 list \<Rightarrow> unix_file option list \<Rightarrow> int option res" where
  "find_open name files =
     foldM (\<lambda>i found.
       if found \<noteq> None then Inr found
       else
         bindr (aget files i) (\<lambda>p.
         case p of None \<Rightarrow> Inr None | Some f \<Rightarrow> Inr (if name = fileName f then Some i else None))) [2..19] None"

definition File_Create :: "'w host \<Rightarrow> ('w, unit) sys" where
  "File_Create h =
     after (ReadReg 4) (\<lambda>virtAddr.
     after (User2System virtAddr (MAX_FILE_LENGTH + 1)) (\<lambda>buf.
     after (check (c_string buf)) (\<lambda>name.
     after (on_host (Unix_Create h name)) (\<lambda>ok.
     WriteReg 2 (if ok then 0 else -1)))))"

text \<open>
  \<open>strcpy\<close> copies the name and its zero into a block of \<open>strlen\<close> bytes; \<open>p->fileName = ...\<close> comes before
  \<open>p\<close> is compared with null.
\<close>

definition Open_file :: "'w host \<Rightarrow> u8 list \<Rightarrow> ('w, unit) sys" where
  "Open_file h name =
     after the_files (\<lambda>files.
     after (check (find_open name files)) (\<lambda>found.
     case found of
       Some i \<Rightarrow> WriteReg 2 (word_of_int i)
     | None \<Rightarrow>
         let freeIndex = Unix_FindFreeSlot files in
         if freeIndex = -1 then WriteReg 2 (-1)
         else
           after (on_host (Unix_Open h name)) (\<lambda>p.
           after (check (aset files freeIndex p)) (\<lambda>files.
           after (set_files files) (\<lambda>_.
           after (check (case p of None \<Rightarrow> Inl NullDereference | Some f \<Rightarrow> Inr f)) (\<lambda>f.
           after (check (if length name + 1 \<le> h_usable h (length name) then Inr () else Inl OutOfBounds)) (\<lambda>_.
           after (check (aset files freeIndex (Some (f\<lparr>fileName := name\<rparr>)))) (\<lambda>files.
           after (set_files files) (\<lambda>_.
           WriteReg 2 (word_of_int freeIndex))))))))))"

definition File_Open :: "'w host \<Rightarrow> ('w, unit) sys" where
  "File_Open h =
     after (ReadReg 4) (\<lambda>virtual_add.
     after (User2System virtual_add 32) (\<lambda>buf.
     after (check (c_string buf)) (Open_file h)))"

definition Close_file :: "'w host \<Rightarrow> int \<Rightarrow> ('w, unit) sys" where
  "Close_file h OpenFileID =
     (if OpenFileID < 2 \<or> OpenFileID > 20 then WriteReg 2 (-1)
      else
        after the_files (\<lambda>files.
        after (check (aget files OpenFileID)) (\<lambda>p.
        case p of
          None \<Rightarrow> WriteReg 2 (-1)
        | Some f \<Rightarrow>
            after (on_host (\<lambda>w. bindr (delete_UnixFile h f w) (\<lambda>w. Inr ((), w)))) (\<lambda>_.
            after (check (aset files OpenFileID None)) (\<lambda>files.
            after (set_files files) (\<lambda>_. WriteReg 2 1))))))"

definition File_Close :: "'w host \<Rightarrow> ('w, unit) sys" where
  "File_Close h = after (ReadReg 4) (\<lambda>OpenFileID. Close_file h (sint OpenFileID))"

definition File_Remove :: "'w host \<Rightarrow> ('w, unit) sys" where
  "File_Remove h =
     after (ReadReg 4) (\<lambda>virAddr.
     after (User2System virAddr MAX_FILE_LENGTH) (\<lambda>buf.
     after (check (c_string buf)) (\<lambda>name.
     after the_files (\<lambda>files.
     after (check (find_open name files)) (\<lambda>found.
     if found \<noteq> None then WriteReg 2 (-1)
     else
       after (on_host (Unix_Remove h name)) (\<lambda>ok.
       WriteReg 2 (if ok then 0 else -1)))))))"

text \<open>
  The checks that \<open>File_Read\<close>, \<open>File_Write\<close> and \<open>File_Seek\<close> begin with: the file at \<open>fileID\<close>, or \<open>None\<close> when
  the call has put -1 into register 2 and returns.
\<close>

definition checked_file :: "int \<Rightarrow> ('w, unix_file option) sys" where
  "checked_file fileID =
     (if fileID < 0 \<or> fileID > 20 then after (WriteReg 2 (-1)) (\<lambda>_. ret None)
      else
        after the_files (\<lambda>files.
        after (check (aget files fileID)) (\<lambda>p.
        case p of None \<Rightarrow> after (WriteReg 2 (-1)) (\<lambda>_. ret None) | Some f \<Rightarrow> ret (Some f))))"

definition put_file :: "int \<Rightarrow> unix_file \<Rightarrow> ('w, unit) sys" where
  "put_file fileID f =
     after the_files (\<lambda>files. after (check (aset files fileID (Some f))) set_files)"

text \<open>For \<open>stdin\<close>, the first write to \<open>buffer\<close>, a pointer that nothing has set, is one to no array at all.\<close>

definition INT_MIN :: u32 where "INT_MIN = 0x80000000"

definition Read_file :: "'w host \<Rightarrow> u32 \<Rightarrow> int \<Rightarrow> int \<Rightarrow> ('w, unit) sys" where
  "Read_file h virtAdr bufferSize fileID =
     after (checked_file fileID) (\<lambda>p.
     case p of
       None \<Rightarrow> ret ()
     | Some f \<Rightarrow>
         if fileID = 0 then after (if 0 < bufferSize then GetChar else ret 0) (\<lambda>_. check (Inl OutOfBounds))
         else
           after (User2System virtAdr bufferSize) (\<lambda>buffer.
           after (on_host (UnixFile_Read h bufferSize f)) (\<lambda>(n_buf, bs, f).
           after (check (bytes_put buffer 0 bs)) (\<lambda>buffer.
           after (put_file fileID f) (\<lambda>_.
           if n_buf > 0 then after (System2User virtAdr n_buf buffer) (\<lambda>_. WriteReg 2 (word_of_int n_buf))
           else WriteReg 2 INT_MIN)))))"

definition File_Read :: "'w host \<Rightarrow> ('w, unit) sys" where
  "File_Read h =
     after (ReadReg 4) (\<lambda>virtAdr. after (ReadReg 5) (\<lambda>bufferSize. after (ReadReg 6) (\<lambda>fileID.
     Read_file h virtAdr (sint bufferSize) (sint fileID))))"

text \<open>The loop over \<open>buffer\<close> up to a zero or the end of the line delivers \<open>i\<close>.\<close>

primrec Write_loop :: "u8 list \<Rightarrow> int \<Rightarrow> ('w, int) sys" where
  "Write_loop [] i = check (Inl OutOfBounds)"
| "Write_loop (c # cs) i =
     (if c \<noteq> 0 \<and> c \<noteq> newline then after (PutChar c) (\<lambda>_. Write_loop cs (i + 1)) else ret i)"

text \<open>What is left for \<open>stdout\<close> when nothing was written.\<close>

definition Write_console :: "u8 list \<Rightarrow> ('w, unit) sys" where
  "Write_console buffer =
     after (Write_loop buffer 0) (\<lambda>i.
     after (check (aset buffer i newline)) (\<lambda>_.
     after (PutChar newline) (\<lambda>_. WriteReg 2 (word_of_int (i - 1)))))"

definition Write_file :: "'w host \<Rightarrow> u32 \<Rightarrow> int \<Rightarrow> int \<Rightarrow> ('w, unit) sys" where
  "Write_file h virAddr bufferSize fileID =
     after (check (new_chars (h_garbage h) bufferSize)) (\<lambda>_.
     after (checked_file fileID) (\<lambda>p.
     case p of
       None \<Rightarrow> ret ()
     | Some f \<Rightarrow>
         if fileID = 0 then WriteReg 2 (-1)
         else
           after (User2System virAddr bufferSize) (\<lambda>buffer.
           after (on_host (UnixFile_Write h buffer bufferSize f)) (\<lambda>(n_buf, f).
           after (put_file fileID f) (\<lambda>_.
           if n_buf > 0 then WriteReg 2 (word_of_int n_buf)
           else if fileID = 1 then Write_console buffer
           else ret ())))))"

definition File_Write :: "'w host \<Rightarrow> ('w, unit) sys" where
  "File_Write h =
     after (ReadReg 4) (\<lambda>virAddr. after (ReadReg 5) (\<lambda>bufferSize. after (ReadReg 6) (\<lambda>fileID.
     Write_file h virAddr (sint bufferSize) (sint fileID))))"

definition Seek_file :: "'w host \<Rightarrow> int \<Rightarrow> int \<Rightarrow> ('w, unit) sys" where
  "Seek_file h pos fileID =
     after (checked_file fileID) (\<lambda>p.
     case p of
       None \<Rightarrow> ret ()
     | Some f \<Rightarrow>
         if fileID = 0 \<or> fileID = 1 then WriteReg 2 (-1)
         else
           after (if pos = -1 then on_host (UnixFile_Length h f) else ret pos) (\<lambda>pos.
           after (on_host (UnixFile_Length h f)) (\<lambda>len.
           if pos > len \<or> pos < 0 then WriteReg 2 (-1)
           else
             after (on_host (UnixFile_Seek h pos f)) (\<lambda>(_, f).
             after (put_file fileID f) (\<lambda>_. WriteReg 2 (word_of_int pos))))))"

definition File_Seek :: "'w host \<Rightarrow> ('w, unit) sys" where
  "File_Seek h =
     after (ReadReg 4) (\<lambda>pos. after (ReadReg 5) (\<lambda>fileID. Seek_file h (sint pos) (sint fileID)))"

section \<open>The handler\<close>

definition SysAdd :: "u32 \<Rightarrow> u32 \<Rightarrow> u32" where "SysAdd op1 op2 = op1 + op2"
definition SysSub :: "u32 \<Rightarrow> u32 \<Rightarrow> u32" where "SysSub op1 op2 = op1 - op2"

definition SC_Halt :: u32 where "SC_Halt = 0"
definition SC_Create :: u32 where "SC_Create = 4"
definition SC_Remove :: u32 where "SC_Remove = 5"
definition SC_Open :: u32 where "SC_Open = 6"
definition SC_Read :: u32 where "SC_Read = 7"
definition SC_Write :: u32 where "SC_Write = 8"
definition SC_Seek :: u32 where "SC_Seek = 9"
definition SC_Close :: u32 where "SC_Close = 10"
definition SC_Add :: u32 where "SC_Add = 42"
definition SC_Sub :: u32 where "SC_Sub = 43"
definition SC_ReadString :: u32 where "SC_ReadString = 44"
definition SC_PrintString :: u32 where "SC_PrintString = 45"
definition SC_ReadNum :: u32 where "SC_ReadNum = 46"
definition SC_PrintNum :: u32 where "SC_PrintNum = 47"
definition SC_RandomNum :: u32 where "SC_RandomNum = 48"
definition SC_ReadChar :: u32 where "SC_ReadChar = 49"
definition SC_PrintChar :: u32 where "SC_PrintChar = 50"

lemmas SC_numbers = SC_Halt_def SC_Create_def SC_Remove_def SC_Open_def SC_Read_def SC_Write_def SC_Seek_def
  SC_Close_def SC_Add_def SC_Sub_def SC_ReadString_def SC_PrintString_def SC_ReadNum_def SC_PrintNum_def
  SC_RandomNum_def SC_ReadChar_def SC_PrintChar_def

definition MAX_LENGTH_STRINH_SYS :: int where "MAX_LENGTH_STRINH_SYS = 223"

definition call_Arith :: "(u32 \<Rightarrow> u32 \<Rightarrow> u32) \<Rightarrow> ('w, unit) sys" where
  "call_Arith f =
     after (ReadReg 4) (\<lambda>op1. after (ReadReg 5) (\<lambda>op2.
     after (WriteReg 2 (f op1 op2)) (\<lambda>_. IncreasePC)))"

definition call_RandomNum :: "'w host \<Rightarrow> ('w, unit) sys" where
  "call_RandomNum h =
     after (on_host (\<lambda>w. Inr (h_random h w))) (\<lambda>r. after (WriteReg 2 (word_of_int (r smod 100))) (\<lambda>_. IncreasePC))"

definition call_PrintNum :: "'w host \<Rightarrow> ('w, unit) sys" where
  "call_PrintNum h = after (ReadReg 4) (\<lambda>number. after (PrintNum h number) (\<lambda>_. IncreasePC))"

definition call_ReadString :: "('w, unit) sys" where
  "call_ReadString =
     after (ReadReg 4) (\<lambda>virAddr. after (ReadReg 5) (\<lambda>len.
     after (User2System virAddr (sint len)) (\<lambda>str.
     after (ReadString2KeyBoard virAddr str (sint len)) (\<lambda>_. IncreasePC))))"

definition call_PrintString :: "('w, unit) sys" where
  "call_PrintString =
     after (ReadReg 4) (\<lambda>virAddr.
     after (User2System virAddr MAX_LENGTH_STRINH_SYS) (\<lambda>str_buffer.
     after (PrintString2Console str_buffer) (\<lambda>_. IncreasePC)))"

definition syscall :: "'w host \<Rightarrow> u32 \<Rightarrow> ('w, unit) sys" where
  "syscall h type =
     (if type = SC_Halt then SysHalt
      else if type = SC_Add then call_Arith SysAdd
      else if type = SC_Sub then call_Arith SysSub
      else if type = SC_ReadNum then after (EH_ReadNum h) (\<lambda>_. IncreasePC)
      else if type = SC_ReadChar then after EH_ReadChar (\<lambda>_. IncreasePC)
      else if type = SC_PrintChar then after EH_PrintChar (\<lambda>_. IncreasePC)
      else if type = SC_RandomNum then call_RandomNum h
      else if type = SC_PrintNum then call_PrintNum h
      else if type = SC_ReadString then call_ReadString
      else if type = SC_PrintString then call_PrintString
      else if type = SC_Create then after (File_Create h) (\<lambda>_. IncreasePC)
      else if type = SC_Open then after (File_Open h) (\<lambda>_. IncreasePC)
      else if type = SC_Remove then after (File_Remove h) (\<lambda>_. IncreasePC)
      else if type = SC_Close then after (File_Close h) (\<lambda>_. IncreasePC)
      else if type = SC_Read then after (File_Read h) (\<lambda>_. IncreasePC)
      else if type = SC_Write then after (File_Write h) (\<lambda>_. IncreasePC)
      else if type = SC_Seek then after (File_Seek h) (\<lambda>_. IncreasePC)
      else ret ())"

definition ExceptionHandler :: "'w host \<Rightarrow> exception \<Rightarrow> ('w, unit) sys" where
  "ExceptionHandler h which =
     after (ReadReg 2) (\<lambda>type.
     case which of
       NoException \<Rightarrow> ret ()
     | PageFaultException \<Rightarrow> SysHalt
     | ReadOnlyException \<Rightarrow> SysHalt
     | BusErrorException \<Rightarrow> SysHalt
     | AddressErrorException \<Rightarrow> SysHalt
     | OverflowException \<Rightarrow> SysHalt
     | IllegalInstrException \<Rightarrow> SysHalt
     | SyscallException \<Rightarrow> syscall h type)"

end
