(* ===== verification/Syscalls_Correct.thy ===== *)
theory Syscalls_Correct
  imports Syscalls Mips_Correct
begin

text \<open>
  What system calls do.  Whatever the host does, a system call that returns has changed nothing of the
  machine but the bytes its caller may write, register 2 and the program counters; the calls that print
  and read do what their names say, and the file calls have inputs that crash the kernel.
\<close>

section \<open>Frames\<close>

text \<open>What a part of a system call leaves alone, when it returns.\<close>

definition framed :: "nat set \<Rightarrow> 'w system \<Rightarrow> 'w system \<Rightarrow> bool" where
  "framed R s s' \<longleftrightarrow>
     (tables_ok (cpu s) \<longrightarrow>
        tables_ok (cpu s') \<and> same_protection (cpu s) (cpu s') \<and> mem_frame (cpu s) (cpu s') \<and>
        (\<forall>n. n \<notin> R \<longrightarrow> registers (cpu s') n = registers (cpu s) n))"

definition keeps :: "('w system \<Rightarrow> 'w system \<Rightarrow> bool) \<Rightarrow> ('w, 'a) sys \<Rightarrow> bool" where
  "keeps R m \<longleftrightarrow> (\<forall>s x s'. m s = Inr (Goes (x, s')) \<longrightarrow> R s s')"

named_theorems keeps_intros \<open>frames of the parts of system calls\<close>

lemma after_Goes:
  "after m f s = Inr (Goes (y, s')) \<longleftrightarrow> (\<exists>x s1. m s = Inr (Goes (x, s1)) \<and> f x s1 = Inr (Goes (y, s')))"
proof (cases "m s")
  case (Inr r)
  then show ?thesis by (cases r) (auto simp: after_def)
qed (simp add: after_def)

lemma check_Goes: "check r s = Inr (Goes (x, s')) \<longleftrightarrow> r = Inr x \<and> s' = s"
  by (auto simp: check_def ret_def bindr_Inr_iff)

lemma ret_Goes: "ret x s = Inr (Goes (y, s')) \<longleftrightarrow> y = x \<and> s' = s"
  by (auto simp: ret_def)

lemmas goes = after_Goes check_Goes ret_Goes

text \<open>What any reflexive and transitive relation between states needs to be followed through the code.\<close>

locale sys_frame =
  fixes R :: "'w system \<Rightarrow> 'w system \<Rightarrow> bool"
  assumes refl: "R s s"
    and trans: "R a b \<Longrightarrow> R b c \<Longrightarrow> R a c"
begin

lemma after: "keeps R m \<Longrightarrow> (\<And>x. keeps R (f x)) \<Longrightarrow> keeps R (after m f)"
  unfolding keeps_def after_Goes using trans by blast

lemma pure: "keeps R (ret x)" "keeps R (check r)" "keeps R halt" "keeps R SysHalt" "keeps R the_files" "keeps R (ReadReg n)"
  by (simp_all add: keeps_def goes halt_def SysHalt_def the_files_def ReadReg_def refl)

lemma branches:
  "(c \<Longrightarrow> keeps R m) \<Longrightarrow> (\<not> c \<Longrightarrow> keeps R m') \<Longrightarrow> keeps R (if c then m else m')"
  "keeps R m \<Longrightarrow> (\<And>x. keeps R (f x)) \<Longrightarrow> keeps R (case p of None \<Rightarrow> m | Some x \<Rightarrow> f x)"
  "(\<And>x y. keeps R (g x y)) \<Longrightarrow> keeps R (case q of (x, y) \<Rightarrow> g x y)"
  "(\<And>x. keeps R (f x)) \<Longrightarrow> keeps R (Let x f)"
  by (auto split: option.split prod.split)

end

interpretation fr: sys_frame "framed R" for R
proof unfold_locales
  show "framed R s s" for s :: "'w system" by (simp add: framed_def)
  show "framed R a c" if "framed R a b" "framed R b c" for a b c :: "'w system"
    using that unfolding framed_def using same_protection_trans mem_frame_trans by (metis (no_types, lifting))
qed

lemmas [keeps_intros] = fr.after fr.pure fr.branches

lemma framed_same_cpu: "cpu s' = cpu s \<Longrightarrow> framed R s s'"
  by (simp add: framed_def)

lemma keeps_WriteReg [keeps_intros]: "n \<in> R \<Longrightarrow> keeps (framed R) (WriteReg n v)"
  by (auto simp: keeps_def WriteReg_def goes Machine_WriteRegister_def bindr_Inr_iff framed_def)

lemma keeps_console [keeps_intros]: "keeps (framed R) GetChar" "keeps (framed R) (PutChar c)"
  by (auto simp: keeps_def GetChar_def PutChar_def ret_Goes framed_same_cpu split: list.splits)

lemma keeps_on_host [keeps_intros]: "keeps (framed R) (on_host m)"
  by (auto simp: keeps_def on_host_def bindr_Inr_iff ret_Goes intro!: framed_same_cpu)

lemma framed_touched: "touched (cpu s) m \<Longrightarrow> framed R s (s\<lparr>cpu := m\<rparr>)"
  using same_protection_tables_ok by (auto simp: framed_def touched_def)

lemma ReadMem_access:
  assumes "tables_ok m" "ReadMem m va 1 = Inr (Access v m')"
  shows "touched m m'"
proof -
  obtain exc pa where r: "translate_result m va 1 False = (exc, pa)" by fastforce
  show ?thesis using ReadMem_spec [OF assms(1) _ r] assms(2) by (auto split: if_splits)
qed

lemma user_access_Goes:
  "user_access r s = Inr (Goes (x, s')) \<longleftrightarrow> (\<exists>m. r = Inr (Access x m) \<and> s' = s\<lparr>cpu := m\<rparr>)"
proof (cases r)
  case (Inr a)
  then show ?thesis by (cases a) (auto simp: user_access_def goes SysHalt_def halt_def)
qed (simp add: user_access_def goes)

lemma keeps_ReadMem [keeps_intros]: "keeps (framed R) (User_ReadMem va 1)"
  unfolding keeps_def
proof (intro allI impI)
  fix s :: "'a system" and x s' assume "User_ReadMem va 1 s = Inr (Goes (x, s'))"
  then obtain m where m: "ReadMem (cpu s) va 1 = Inr (Access x m)" "s' = s\<lparr>cpu := m\<rparr>"
    by (auto simp: User_ReadMem_def user_access_Goes)
  show "framed R s s'"
  proof (cases "tables_ok (cpu s)")
    case True
    show ?thesis unfolding m(2) by (rule framed_touched [OF ReadMem_access [OF True m(1)]])
  qed (simp add: framed_def m(2))
qed

lemma WriteMem_access:
  assumes "tables_ok m" "WriteMem m va 1 v = Inr (Access u m')"
  shows "same_protection m m'" "mem_frame m m'" "registers m' = registers m" "tables_ok m'"
proof -
  obtain r where r: "WriteMem m va 1 v = Inr r"
    "case r of
       Trap exc bad m' \<Rightarrow> exc \<noteq> NoException \<and> bad = va \<and> m' = m
     | Access _ m' \<Rightarrow>
         registers m' = registers m \<and> same_protection m m' \<and>
         (\<exists>e. mapping m (va div word_of_nat PageSize) = Some e \<and> \<not> te_readOnly e \<and>
            (\<forall>a. mainMemory m' a \<noteq> mainMemory m a \<longrightarrow> a div PageSize = unat (te_physicalPage e)))"
    using WriteMem_frame [OF assms(1), of 1 va v] by auto
  with assms(2) show same: "same_protection m m'" "mem_frame m m'" "registers m' = registers m"
    by (auto simp: mem_frame_def writable_def)
  show "tables_ok m'" using assms(1) same_protection_tables_ok [OF same(1)] by simp
qed

lemma keeps_WriteMem [keeps_intros]: "keeps (framed R) (User_WriteMem va 1 v)"
  unfolding keeps_def
proof (intro allI impI)
  fix s :: "'a system" and x s' assume "User_WriteMem va 1 v s = Inr (Goes (x, s'))"
  then obtain m where m: "WriteMem (cpu s) va 1 v = Inr (Access x m)" "s' = s\<lparr>cpu := m\<rparr>"
    by (auto simp: User_WriteMem_def user_access_Goes)
  show "framed R s s'" using WriteMem_access [OF _ m(1)] by (simp add: framed_def m(2))
qed

lemma keeps_User2System_loop [keeps_intros]: "keeps (framed R) (User2System_loop va n i buf)"
  by (induction n arbitrary: i buf) (auto intro!: keeps_intros)

lemma keeps_System2User_loop [keeps_intros]: "keeps (framed R) (System2User_loop n va i buf)"
  by (induction n arbitrary: i) (auto intro!: keeps_intros)

lemma keeps_copies [keeps_intros]: "keeps (framed R) (User2System va limit)" "keeps (framed R) (System2User va len buf)"
  by (auto simp: User2System_def System2User_def intro!: keeps_intros)

lemma keeps_ReadString_loop [keeps_intros]: "keeps (framed R) (ReadString_loop n i buf)"
  by (induction n arbitrary: i buf) (auto intro!: keeps_intros)

lemma keeps_PrintString2Console [keeps_intros]: "keeps (framed R) (PrintString2Console str)"
  by (induction str) (auto intro!: keeps_intros)

lemma keeps_ReadChar_loop [keeps_intros]: "keeps (framed R) (ReadChar_loop n cs)"
  by (induction n arbitrary: cs) (auto intro!: keeps_intros)

lemma keeps_Write_loop [keeps_intros]: "keeps (framed R) (Write_loop cs i)"
  by (induction cs arbitrary: i) (auto intro!: keeps_intros)

lemma keeps_ReadString2KeyBoard [keeps_intros]: "keeps (framed R) (ReadString2KeyBoard va buf n)"
  unfolding ReadString2KeyBoard_def by (intro keeps_intros)

lemma keeps_numbers [keeps_intros]: "2 \<in> R \<Longrightarrow> keeps (framed R) (EH_ReadNum h)" "keeps (framed R) (PrintNum h n)"
proof -
  have "keeps (framed R) (\<lambda>s. after (check (ReadNum_line (console_in s) 0 x)) (\<lambda>(y, rest) s. ret y (s\<lparr>console_in := rest\<rparr>)) s)" for x
    by (auto simp: keeps_def goes framed_same_cpu)
  then show "2 \<in> R \<Longrightarrow> keeps (framed R) (EH_ReadNum h)" unfolding EH_ReadNum_def by (intro keeps_intros)
  show "keeps (framed R) (PrintNum h n)" unfolding PrintNum_def by (intro keeps_intros)
qed

lemma keeps_chars [keeps_intros]: "2 \<in> R \<Longrightarrow> keeps (framed R) EH_ReadChar" "keeps (framed R) EH_PrintChar"
  unfolding EH_ReadChar_def EH_PrintChar_def by (intro keeps_intros; assumption)+

lemma keeps_set_files [keeps_intros]: "keeps (framed R) (set_files fs)"
  by (simp add: keeps_def set_files_def ret_Goes framed_same_cpu)

lemma keeps_table [keeps_intros]: "2 \<in> R \<Longrightarrow> keeps (framed R) (checked_file n)" "keeps (framed R) (put_file n f)"
  unfolding checked_file_def put_file_def by (intro keeps_intros; assumption)+

lemma keeps_File_calls [keeps_intros]:
  assumes "2 \<in> R"
  shows "keeps (framed R) (File_Create h)" "keeps (framed R) (File_Open h)" "keeps (framed R) (File_Close h)" "keeps (framed R) (File_Remove h)"
    "keeps (framed R) (File_Read h)" "keeps (framed R) (File_Write h)" "keeps (framed R) (File_Seek h)"
  unfolding File_Create_def File_Open_def Open_file_def File_Close_def File_Remove_def File_Read_def File_Write_def File_Seek_def
    Close_file_def Read_file_def Write_file_def Write_console_def Seek_file_def
  by (intro keeps_intros assms)+

section \<open>The return to the caller\<close>

lemma ReadReg_small: "n < NumTotalRegs \<Longrightarrow> ReadReg n s = ret (registers (cpu s) n) s"
  by (simp add: ReadReg_def Machine_ReadRegister_def check_def)

lemma WriteReg_small: "n < NumTotalRegs \<Longrightarrow> WriteReg n v s = ret () (s\<lparr>cpu := set_reg n v (cpu s)\<rparr>)"
  by (simp add: WriteReg_def Machine_WriteRegister_def check_def after_def ret_def)

lemma after_ret [simp]: "after (ret x) f = f x"
  by (simp add: after_def ret_def fun_eq_iff)

lemma after_step: "m s = ret x s1 \<Longrightarrow> after m f s = f x s1"
  by (simp add: after_def ret_def)

lemma after_app: "after m f s = bindr (m s) (\<lambda>r. case r of Halts \<Rightarrow> Inr Halts | Goes (x, s) \<Rightarrow> f x s)"
  by (simp add: after_def)

lemma ret_bind [simp]: "bindr (ret x s) (\<lambda>r. case r of Halts \<Rightarrow> Inr Halts | Goes (x, s) \<Rightarrow> f x s) = f x s"
  by (simp add: ret_def)

definition returned :: "machine \<Rightarrow> machine" where
  "returned m = set_reg NextPCReg (registers m PCReg + 8) (set_reg PCReg (registers m PCReg + 4)
     (set_reg PrevPCReg (registers m PCReg) m))"

lemma IncreasePC_ok: "IncreasePC s = ret () (s\<lparr>cpu := returned (cpu s)\<rparr>)"
  unfolding IncreasePC_def
  by (simp add: after_step [OF ReadReg_small] after_step [OF WriteReg_small] ReadReg_small WriteReg_small reg_numbers
      returned_def set_reg_def add.assoc)

definition returns :: "('w, unit) sys \<Rightarrow> bool" where
  "returns m \<longleftrightarrow> (\<forall>s s'. m s = Inr (Goes ((), s')) \<longrightarrow>
     (\<exists>s1. framed {2} s s1 \<and> s' = s1\<lparr>cpu := returned (cpu s1)\<rparr>))"

lemma returns_IncreasePC [keeps_intros]: "returns IncreasePC"
  by (auto simp: returns_def IncreasePC_ok ret_Goes intro!: exI [where x = s for s] fr.refl)

lemma returns_after [keeps_intros]: "keeps (framed {2}) m \<Longrightarrow> (\<And>x. returns (f x)) \<Longrightarrow> returns (after m f)"
  unfolding returns_def keeps_def after_Goes using fr.trans by blast

definition system_calls :: "u32 set" where
  "system_calls = {SC_Create, SC_Remove, SC_Open, SC_Read, SC_Write, SC_Seek, SC_Close, SC_Add, SC_Sub, SC_ReadString,
     SC_PrintString, SC_ReadNum, SC_PrintNum, SC_RandomNum, SC_ReadChar, SC_PrintChar}"

lemma returns_calls [keeps_intros]: "returns (call_Arith f)" "returns (call_RandomNum h)" "returns (call_PrintNum h)"
  "returns call_ReadString" "returns call_PrintString"
  unfolding call_Arith_def call_RandomNum_def call_PrintNum_def call_ReadString_def call_PrintString_def
  by (intro keeps_intros insertI1)+

lemma returns_syscall:
  assumes "type \<in> system_calls"
  shows "returns (syscall h type)"
proof -
  have two: "(2::nat) \<in> {2}" by simp
  have "type \<noteq> SC_Halt" using assms by (auto simp: system_calls_def SC_numbers)
  then show ?thesis
    using assms unfolding system_calls_def syscall_def
    by (auto intro!: keeps_intros two simp: SC_numbers)
qed

lemma handler_syscall: "ExceptionHandler h SyscallException s = syscall h (registers (cpu s) 2) s"
  by (simp add: ExceptionHandler_def after_step [OF ReadReg_small] NumTotalRegs_def)

section \<open>Strings of user programs\<close>

definition user_byte :: "machine \<Rightarrow> u32 \<Rightarrow> u8 option" where
  "user_byte m va =
     (case translate_result m va 1 False of (exc, pa) \<Rightarrow> if exc = NoException then Some (mainMemory m (unat pa)) else None)"

text \<open>The bytes from an address on, up to a zero or to a limit.\<close>

definition user_string :: "machine \<Rightarrow> u32 \<Rightarrow> nat \<Rightarrow> u8 list \<Rightarrow> bool" where
  "user_string m va n cs \<longleftrightarrow>
     length cs \<le> n \<and> 0 \<notin> set cs \<and> (\<forall>i < length cs. user_byte m (va + word_of_nat i) = Some (cs ! i)) \<and>
     (length cs < n \<longrightarrow> user_byte m (va + word_of_nat (length cs)) = Some 0)"

lemma user_byte_same:
  assumes "touched m m'" "tables_ok m"
  shows "user_byte m' va = user_byte m va"
  using assms translate_result_same [of m m' va 1 False] by (auto simp: user_byte_def touched_def split: prod.splits)

lemma touched_trans: "touched a b \<Longrightarrow> touched b c \<Longrightarrow> touched a c"
  using same_protection_trans by (auto simp: touched_def)

lemma touched_ok: "touched m m' \<Longrightarrow> tables_ok m \<Longrightarrow> tables_ok m'"
  using same_protection_tables_ok by (auto simp: touched_def)

lemma User_ReadMem_ok:
  assumes "tables_ok (cpu s)" "user_byte (cpu s) va = Some c"
  shows "\<exists>m. touched (cpu s) m \<and> User_ReadMem va 1 s = ret (scast c) (s\<lparr>cpu := m\<rparr>)"
proof -
  obtain exc pa where r: "translate_result (cpu s) va 1 False = (exc, pa)" by fastforce
  then have e: "exc = NoException" "c = mainMemory (cpu s) (unat pa)" using assms(2) by (auto simp: user_byte_def split: if_splits)
  obtain m where "touched (cpu s) m" "ReadMem (cpu s) va 1 = Inr (Access (scast c) m)"
    using ReadMem_spec [OF assms(1) _ r] e by (auto simp: read_value_def)
  then show ?thesis by (auto simp: User_ReadMem_def user_access_def check_def after_def ret_def)
qed

lemma ucast_scast_byte [simp]: "ucast (scast (c :: u8) :: u32) = c"
  by (rule bit_word_eqI) (auto simp: bit_simps)

lemma scast_byte_zero: "(scast (c :: u8) :: u32) = 0 \<longleftrightarrow> c = 0"
proof
  assume "(scast c :: u32) = 0"
  then have "ucast (scast c :: u32) = (0 :: u8)" by simp
  then show "c = 0" by simp
qed simp

lemma user_string_step:
  assumes "user_string m va (Suc n) (c # cs)"
  shows "user_byte m va = Some c" "c \<noteq> 0" "user_string m (va + 1) n cs"
proof -
  note u = assms [unfolded user_string_def]
  have "user_byte m (va + word_of_nat 0) = Some ((c # cs) ! 0)" using u by blast
  then show "user_byte m va = Some c" by simp
  show "c \<noteq> 0" using u by auto
  have "user_byte m (va + 1 + word_of_nat i) = Some (cs ! i)" if "i < length cs" for i
  proof -
    have "user_byte m (va + word_of_nat (Suc i)) = Some ((c # cs) ! Suc i)" using u that by auto
    then show ?thesis by (simp add: add.assoc)
  qed
  then show "user_string m (va + 1) n cs" using u by (auto simp: user_string_def add.assoc)
qed

lemma user_string_same: "touched m m' \<Longrightarrow> tables_ok m \<Longrightarrow> user_string m' va n cs = user_string m va n cs"
  by (simp add: user_string_def user_byte_same)

lemma User2System_loop_ok:
  assumes "tables_ok (cpu s)" "user_string (cpu s) (va + word_of_nat (length pre)) n cs" "n < k"
  shows "\<exists>m. touched (cpu s) m \<and> User2System_loop va n (int (length pre)) (pre @ replicate k 0) s =
    ret (pre @ cs @ replicate (k - length cs) 0) (s\<lparr>cpu := m\<rparr>)"
  using assms
proof (induction n arbitrary: s pre cs k)
  case 0
  then have "cs = []" by (simp add: user_string_def)
  then show ?case by (intro exI [of _ "cpu s"]) simp
next
  case (Suc n)
  let ?i = "length pre" and ?va = "va + word_of_nat (length pre)"
  obtain j where k: "k = Suc j" using Suc.prems(3) by (cases k) simp_all
  have wi: "word_of_int (int ?i) = (word_of_nat ?i :: u32)" by simp
  show ?case
  proof (cases cs)
    case Nil
    then have "user_byte (cpu s) ?va = Some 0" using Suc.prems(2) by (simp add: user_string_def)
    then obtain m where m: "touched (cpu s) m" "User_ReadMem ?va 1 s = ret (scast (0 :: u8)) (s\<lparr>cpu := m\<rparr>)"
      using User_ReadMem_ok [OF Suc.prems(1)] by blast
    have "User2System_loop va (Suc n) (int ?i) (pre @ replicate k 0) s = ret (pre @ replicate k 0) (s\<lparr>cpu := m\<rparr>)"
      by (simp add: after_app m(2) check_def k list_update_append)
    then show ?thesis using m(1) Nil by auto
  next
    case (Cons c cs')
    note u = user_string_step [OF Suc.prems(2) [unfolded Cons]]
    obtain m where m: "touched (cpu s) m" "User_ReadMem ?va 1 s = ret (scast c) (s\<lparr>cpu := m\<rparr>)"
      using User_ReadMem_ok [OF Suc.prems(1) u(1)] by blast
    have "user_string m (va + word_of_nat (length (pre @ [c]))) n cs'"
      using u(3) user_string_same [OF m(1) Suc.prems(1)] by (simp add: ac_simps)
    then obtain m' where m': "touched m m'" "User2System_loop va n (int (length (pre @ [c]))) ((pre @ [c]) @ replicate j 0) (s\<lparr>cpu := m\<rparr>) =
        ret ((pre @ [c]) @ cs' @ replicate (j - length cs') 0) (s\<lparr>cpu := m\<rparr>\<lparr>cpu := m'\<rparr>)"
      using Suc.IH [of "s\<lparr>cpu := m\<rparr>" "pre @ [c]" cs' j] touched_ok [OF m(1) Suc.prems(1)] Suc.prems(3) k by auto
    have "User2System_loop va (Suc n) (int ?i) (pre @ replicate k 0) s =
        User2System_loop va n (int (length (pre @ [c]))) ((pre @ [c]) @ replicate j 0) (s\<lparr>cpu := m\<rparr>)"
      using u(2) by (simp add: after_app m(2) check_def k list_update_append scast_byte_zero add.commute)
    then show ?thesis using m' touched_trans [OF m(1) m'(1)] Cons k by auto
  qed
qed

lemma User2System_ok:
  assumes "tables_ok (cpu s)" "user_string (cpu s) va (nat limit) cs" "0 \<le> limit" "limit < 2 ^ 31 - 1"
  shows "\<exists>m. touched (cpu s) m \<and>
    User2System va limit s = ret (cs @ replicate (nat limit + 1 - length cs) 0) (s\<lparr>cpu := m\<rparr>)"
proof -
  have "s32 (limit + 1) = limit + 1" using assms(3,4) by (intro s32_id) simp_all
  moreover have "map (\<lambda>_. 0) [0..<nat (limit + 1)] = replicate (nat limit + 1) (0 :: u8)"
    using assms(3) by (simp add: map_replicate_const nat_add_distrib)
  ultimately have "new_chars (\<lambda>_. 0) (s32 (limit + 1)) = Inr (replicate (nat limit + 1) 0)"
    using assms(3) by (simp add: new_chars_def)
  then show ?thesis
    using User2System_loop_ok [of s va "[]" "nat limit" cs "nat limit + 1"] assms(1,2)
    by (simp add: User2System_def check_def after_def ret_def del: replicate.simps)
qed

lemma PrintString2Console_ok:
  "0 \<notin> set cs \<Longrightarrow> PrintString2Console (cs @ 0 # xs) s = ret () (s\<lparr>console_out := console_out s @ cs\<rparr>)"
proof (induction cs arbitrary: s)
  case (Cons c cs)
  then show ?case by (simp add: PutChar_def after_def ret_def)
qed (simp add: ret_def)

lemma user_string_prefix:
  assumes "user_string m va n cs" "length cs < n \<or> k \<le> n"
  shows "user_string m va k (take k cs)"
  using assms by (auto simp: user_string_def min_def dest: in_set_takeD)

lemma PrintString_ok:
  assumes "tables_ok (cpu s)" "registers (cpu s) 2 = SC_PrintString" "user_string (cpu s) (registers (cpu s) 4) 223 cs"
  shows "\<exists>m. touched (cpu s) m \<and> ExceptionHandler h SyscallException s =
    Inr (Goes ((), s\<lparr>console_out := console_out s @ cs, cpu := returned m\<rparr>))"
proof -
  obtain m where m: "touched (cpu s) m"
    "User2System (registers (cpu s) 4) MAX_LENGTH_STRINH_SYS s = ret (cs @ replicate (224 - length cs) 0) (s\<lparr>cpu := m\<rparr>)"
    using User2System_ok [OF assms(1), of "registers (cpu s) 4" 223 cs] assms(3) by (auto simp: MAX_LENGTH_STRINH_SYS_def)
  have cs: "length cs \<le> 223" "0 \<notin> set cs" using assms(3) by (simp_all add: user_string_def)
  then have "replicate (224 - length cs) (0 :: u8) = 0 # replicate (223 - length cs) 0"
    by (simp flip: replicate_Suc add: Suc_diff_le)
  then have print: "PrintString2Console (cs @ replicate (224 - length cs) 0) t = ret () (t\<lparr>console_out := console_out t @ cs\<rparr>)"
    for t :: "'a system" using PrintString2Console_ok [OF cs(2)] by simp
  have "syscall h SC_PrintString s = call_PrintString s" by (simp add: syscall_def SC_numbers)
  also have "\<dots> = ret () (s\<lparr>console_out := console_out s @ cs, cpu := returned m\<rparr>)"
    unfolding call_PrintString_def
    by (simp add: ReadReg_small NumTotalRegs_def after_app m(2) print IncreasePC_ok)
  finally show ?thesis using m(1) assms(2) by (auto simp: handler_syscall ret_def)
qed

section \<open>Numbers\<close>

declare decimal_digits.simps [simp del]

lemma digit_char:
  assumes "k < 10"
  shows "is_digit (word_of_nat (48 + k))" "uint (word_of_nat (48 + k) :: u8) = 48 + int k"
    "(word_of_nat (48 + k) :: u8) \<notin> {0, 10, 45}"
proof -
  have "k \<in> {0, 1, 2, 3, 4, 5, 6, 7, 8, 9}" using assms by auto
  then show "is_digit (word_of_nat (48 + k))" "uint (word_of_nat (48 + k) :: u8) = 48 + int k"
    "(word_of_nat (48 + k) :: u8) \<notin> {0, 10, 45}"
    by (auto simp: is_digit_def)
qed

lemma decimal_digits_chars: "set (decimal_digits n) \<inter> {0, 10, 45} = {} \<and> decimal_digits n \<noteq> []"
proof (induction n rule: decimal_digits.induct)
  case (1 n)
  show ?case
  proof (cases "n < 10")
    case True
    then show ?thesis using digit_char(3) [of n] by (simp add: decimal_digits.simps [of n])
  next
    case False
    then show ?thesis using 1 digit_char(3) [of "n mod 10"] by (simp add: decimal_digits.simps [of n])
  qed
qed

lemma decimal_digits_length: "n < 10 ^ Suc k \<Longrightarrow> length (decimal_digits n) \<le> Suc k"
proof (induction k arbitrary: n)
  case 0
  then show ?case by (simp add: decimal_digits.simps [of n])
next
  case (Suc k)
  then have "n div 10 < 10 ^ Suc k" by (simp add: div_less_iff_less_mult)
  then show ?case using Suc.IH [of "n div 10"] by (simp add: decimal_digits.simps [of n])
qed

lemma ReadNum_convert_digits:
  "ReadNum_convert (decimal_digits n @ cs) 0 d re = ReadNum_convert cs 0 d (re * 10 ^ length (decimal_digits n) + int n)"
proof (induction n arbitrary: cs rule: decimal_digits.induct)
  case (1 n)
  show ?case
  proof (cases "n < 10")
    case True
    then show ?thesis using digit_char(1,2) [of n] by (simp add: decimal_digits.simps [of n])
  next
    case False
    have "int n = int (n div 10) * 10 + int (n mod 10)" by presburger
    then show ?thesis
      using False 1 [OF False] digit_char(1,2) [of "n mod 10"] by (simp add: decimal_digits.simps [of n] algebra_simps)
  qed
qed

lemma decimal_chars: "0 \<notin> set (decimal v)" "newline \<notin> set (decimal v)"
  using decimal_digits_chars by (auto simp: decimal_def newline_def)

lemma decimal_length:
  assumes "- (2 ^ 31) \<le> v" "v < 2 ^ 31"
  shows "length (decimal v) \<le> 11"
proof -
  have "nat (- v) < 10 ^ Suc 9" "nat v < 10 ^ Suc 9" using assms by simp_all
  from this [THEN decimal_digits_length] show ?thesis by (simp add: decimal_def)
qed

lemma sint_range32: "- (2 ^ 31) \<le> sint (v :: u32)" "sint (v :: u32) < 2 ^ 31"
  using sint_ge [of v] sint_lt [of v] by simp_all

lemma ReadNum_value_decimal:
  assumes "- (2 ^ 31) \<le> v" "v < 2 ^ 31"
  shows "ReadNum_value (decimal v) = word_of_int v"
proof (cases "v < 0")
  case True
  then show ?thesis
    using ReadNum_convert_digits [of "nat (- v)" "[]" 1 0] assms by (simp add: ReadNum_value_def decimal_def int_of_double_def)
next
  case False
  have "45 \<notin> set (decimal_digits (nat v))" "decimal_digits (nat v) \<noteq> []" using decimal_digits_chars [of "nat v"] by auto
  then have "hd (decimal_digits (nat v)) \<noteq> 45" by (metis hd_in_set)
  then show ?thesis
    using False ReadNum_convert_digits [of "nat v" "[]" 1 0] assms by (simp add: ReadNum_value_def decimal_def int_of_double_def)
qed

lemma ReadNum_line_ok:
  assumes "newline \<notin> set cs" "i + length cs \<le> length v"
  shows "ReadNum_line (cs @ newline # rest) (int i) v = Inr (take i v @ cs @ drop (i + length cs) v, rest)"
  using assms
proof (induction cs arbitrary: i v)
  case (Cons c cs)
  have "take (Suc i) (v[i := c]) = take i v @ [c]" using Cons.prems(2) by (simp add: take_Suc_conv_app_nth)
  moreover have "c \<noteq> newline" using Cons.prems(1) by auto
  ultimately show ?case using Cons.IH [of "Suc i" "v[i := c]"] Cons.prems by (simp add: add.commute)
qed simp

lemma ReadNum_line_long:
  assumes "newline \<notin> set cs" "length v < i + length cs" "i \<le> length v"
  shows "ReadNum_line (cs @ rest) (int i) v = Inl OutOfBounds"
  using assms
proof (induction cs arbitrary: i v)
  case (Cons c cs)
  have c: "c \<noteq> newline" using Cons.prems(1) by auto
  show ?case
  proof (cases "i < length v")
    case True
    then show ?thesis using c Cons.IH [of "v[i := c]" "Suc i"] Cons.prems by (simp add: add.commute)
  next
    case False
    then show ?thesis using c Cons.prems by (simp add: aset_def)
  qed
qed simp

lemma c_string_prefix: "0 \<notin> set cs \<Longrightarrow> c_string (cs @ 0 # xs) = Inr cs"
  by (subst c_string_def, subst takeWhile_append2) auto

lemma EH_ReadNum_ok:
  assumes "console_in s = cs @ newline # rest" "newline \<notin> set cs" "0 \<notin> set cs" "length cs < 20" "h_garbage h (length cs) = 0"
  shows "EH_ReadNum h s = ret () (s\<lparr>console_in := rest, cpu := set_reg 2 (ReadNum_value cs) (cpu s)\<rparr>)"
proof -
  let ?v = "map (h_garbage h) [0..<20]"
  have line: "ReadNum_line (console_in s) 0 ?v = Inr (cs @ drop (length cs) ?v, rest)"
    using ReadNum_line_ok [of cs 0 ?v rest] assms(1,2,4) by simp
  have "drop (length cs) ?v = 0 # drop (Suc (length cs)) ?v"
    using assms(4,5) Cons_nth_drop_Suc [of "length cs" ?v] by simp
  then have "c_string (cs @ drop (length cs) ?v) = Inr cs" using c_string_prefix [OF assms(3)] by simp
  then show ?thesis
    using line by (simp add: EH_ReadNum_def after_app check_def new_chars_def WriteReg_small NumTotalRegs_def)
qed

lemma PrintNum_ok: "PrintNum h v s = ret () (s\<lparr>console_out := console_out s @ decimal (sint v)\<rparr>)"
proof -
  have "length (decimal (sint v)) \<le> 11" using decimal_length sint_range32 by blast
  then obtain xs where "bytes_put (map (h_garbage h) [0..<12]) 0 (decimal (sint v) @ [0]) = Inr (decimal (sint v) @ 0 # xs)"
    by (simp add: bytes_put_def)
  then show ?thesis
    using PrintString2Console_ok [OF decimal_chars(1), of "sint v" xs s] by (simp add: PrintNum_def after_app check_def)
qed

section \<open>Writing to the standard output\<close>

definition same_console :: "'w system \<Rightarrow> 'w system \<Rightarrow> bool" where
  "same_console s s' \<longleftrightarrow> console_out s' = console_out s"

interpretation quiet: sys_frame same_console
  by unfold_locales (simp_all add: same_console_def)

lemma keeps_cpu: "keeps same_console (User_ReadMem va n)" "keeps same_console (WriteReg k v)" "keeps same_console (on_host g)"
  "keeps same_console (set_files fs)"
  by (auto simp: keeps_def User_ReadMem_def user_access_Goes WriteReg_def goes on_host_def bindr_Inr_iff set_files_def same_console_def)

lemmas quiet_intros = quiet.after quiet.pure quiet.branches keeps_cpu

lemma quiet_User2System: "keeps same_console (User2System va limit)"
proof -
  have "keeps same_console (User2System_loop va n i buf)" for n i buf
    by (induction n arbitrary: i buf) (auto intro!: quiet_intros)
  then show ?thesis unfolding User2System_def by (intro quiet_intros)
qed

lemma quiet_files: "keeps same_console (checked_file n)" "keeps same_console (put_file n f)" "keeps same_console IncreasePC"
  unfolding checked_file_def put_file_def IncreasePC_def by (intro quiet_intros)+

lemma keepsD: "keeps R m \<Longrightarrow> m s = Inr (Goes (x, s')) \<Longrightarrow> R s s'"
  by (simp add: keeps_def)

lemma UnixFile_Write_count: "UnixFile_Write h from n f w = Inr ((k, f'), w') \<Longrightarrow> k = n"
  by (auto simp: UnixFile_Write_def UnixFile_WriteAt_def bindr_Inr_iff)

lemma on_host_Goes: "on_host g s = Inr (Goes (x, s')) \<longleftrightarrow> (\<exists>w. g (world s) = Inr (x, w) \<and> s' = s\<lparr>world := w\<rparr>)"
  by (auto simp: on_host_def bindr_Inr_iff ret_Goes)

lemma checked_file_None: "checked_file n s = Inr (Goes (None, s')) \<Longrightarrow> registers (cpu s') 2 = - 1"
  by (auto simp: checked_file_def goes WriteReg_small NumTotalRegs_def set_reg_def the_files_def
      split: if_splits option.splits)

lemma File_Write_stdout:
  assumes "File_Write h s = Inr (Goes ((), s'))" "registers (cpu s) 6 = 1" "0 < sint (registers (cpu s) 5)"
  shows "same_console s s' \<and> registers (cpu s') 2 \<in> {-1, registers (cpu s) 5}"
proof -
  let ?n = "sint (registers (cpu s) 5)"
  have "Write_file h (registers (cpu s) 4) ?n 1 s = Inr (Goes ((), s'))"
    using assms(1,2) by (simp add: File_Write_def after_app ReadReg_small NumTotalRegs_def)
  then obtain p s1 where p: "checked_file 1 s = Inr (Goes (p, s1))"
    and rest: "(case p of
       None \<Rightarrow> ret ()
     | Some f \<Rightarrow>
         after (User2System (registers (cpu s) 4) ?n) (\<lambda>buffer.
           after (on_host (UnixFile_Write h buffer ?n f)) (\<lambda>(n_buf, f).
           after (put_file 1 f) (\<lambda>_. if n_buf > 0 then WriteReg 2 (word_of_int n_buf) else Write_console buffer)))) s1 =
       Inr (Goes ((), s'))"
    by (auto simp: Write_file_def goes cong: option.case_cong prod.case_cong if_cong)
  note q1 = keepsD [OF quiet_files(1) p]
  show ?thesis
  proof (cases p)
    case None
    then show ?thesis using rest q1 checked_file_None p by (auto simp: goes)
  next
    case (Some f)
    then obtain buffer s2 n_buf f' s3 s4 where c: "User2System (registers (cpu s) 4) ?n s1 = Inr (Goes (buffer, s2))"
      "on_host (UnixFile_Write h buffer ?n f) s2 = Inr (Goes ((n_buf, f'), s3))" "put_file 1 f' s3 = Inr (Goes ((), s4))"
      "(if n_buf > 0 then WriteReg 2 (word_of_int n_buf) else Write_console buffer) s4 = Inr (Goes ((), s'))"
      using rest by (auto simp: goes split: prod.splits)
    have n: "n_buf = ?n" using c(2) UnixFile_Write_count by (auto simp: on_host_Goes)
    then have w: "WriteReg 2 (word_of_int ?n) s4 = Inr (Goes ((), s'))" using c(4) assms(3) by simp
    have "same_console s s'"
      using q1 keepsD [OF quiet_User2System c(1)] keepsD [OF keeps_cpu(3) c(2)] keepsD [OF quiet_files(2) c(3)]
        keepsD [OF keeps_cpu(2) w] by (simp add: same_console_def)
    then show ?thesis using w by (auto simp: WriteReg_small NumTotalRegs_def ret_Goes set_reg_def)
  qed
qed

section \<open>Calls that crash the kernel\<close>

lemma checked_file_20:
  assumes "length (ListFile s) = 20"
  shows "checked_file 20 s = Inl OutOfBounds"
  using assms by (simp add: checked_file_def the_files_def after_app check_def aget_def)

lemma checked_file_0: "ListFile s = Some f0 # fs \<Longrightarrow> checked_file 0 s = ret (Some f0) s"
  by (simp add: checked_file_def the_files_def after_app check_def)

lemma Close_20: "length (ListFile s) = 20 \<Longrightarrow> Close_file h 20 s = Inl OutOfBounds"
  by (simp add: Close_file_def the_files_def after_app check_def aget_def)

lemma Seek_20: "length (ListFile s) = 20 \<Longrightarrow> Seek_file h pos 20 s = Inl OutOfBounds"
  by (simp add: Seek_file_def after_app checked_file_20)

lemma Read_20: "length (ListFile s) = 20 \<Longrightarrow> Read_file h va n 20 s = Inl OutOfBounds"
  by (simp add: Read_file_def after_app checked_file_20)

lemma Write_20:
  "length (ListFile s) = 20 \<Longrightarrow> Write_file h va n 20 s = (if n < 0 then Inl OutOfMemory else Inl OutOfBounds)"
  by (simp add: Write_file_def after_app check_def new_chars_def checked_file_20)

lemma Read_stdin:
  assumes "ListFile s = Some f0 # fs"
  shows "Read_file h va n 0 s = Inl (if 0 < n \<and> console_in s = [] then Diverges else OutOfBounds)"
proof -
  have "Read_file h va n 0 s = after (if 0 < n then GetChar else ret 0) (\<lambda>_. check (Inl OutOfBounds)) s"
    by (simp add: Read_file_def after_app checked_file_0 [OF assms])
  also have "\<dots> = Inl (if 0 < n \<and> console_in s = [] then Diverges else OutOfBounds)"
    by (cases "console_in s") (simp_all add: after_app GetChar_def check_def)
  finally show ?thesis .
qed

lemma handler_calls:
  "registers (cpu s) 2 = SC_Close \<Longrightarrow> ExceptionHandler h SyscallException s =
     after (Close_file h (sint (registers (cpu s) 4))) (\<lambda>_. IncreasePC) s"
  "registers (cpu s) 2 = SC_Seek \<Longrightarrow> ExceptionHandler h SyscallException s =
     after (Seek_file h (sint (registers (cpu s) 4)) (sint (registers (cpu s) 5))) (\<lambda>_. IncreasePC) s"
  "registers (cpu s) 2 = SC_Read \<Longrightarrow> ExceptionHandler h SyscallException s =
     after (Read_file h (registers (cpu s) 4) (sint (registers (cpu s) 5)) (sint (registers (cpu s) 6))) (\<lambda>_. IncreasePC) s"
  "registers (cpu s) 2 = SC_Write \<Longrightarrow> ExceptionHandler h SyscallException s =
     after (Write_file h (registers (cpu s) 4) (sint (registers (cpu s) 5)) (sint (registers (cpu s) 6))) (\<lambda>_. IncreasePC) s"
  "registers (cpu s) 2 = SC_Open \<Longrightarrow> ExceptionHandler h SyscallException s = after (File_Open h) (\<lambda>_. IncreasePC) s"
  by (simp_all add: handler_syscall syscall_def SC_numbers File_Close_def File_Seek_def File_Read_def File_Write_def
      after_app ReadReg_small NumTotalRegs_def)

lemma find_open_none:
  assumes "length fs = 20" "\<forall>f. Some f \<in> set (drop 2 fs) \<longrightarrow> fileName f \<noteq> name"
  shows "find_open name fs = Inr None"
proof -
  have g: "aget fs i = Inr p \<Longrightarrow> 2 \<le> i \<Longrightarrow> p = None \<or> (\<exists>f. p = Some f \<and> fileName f \<noteq> name)" if "i < 20" for i p
  proof -
    assume a: "aget fs i = Inr p" "2 \<le> i"
    then have "p = fs ! nat i" "nat i < length fs" using assms(1) that by (auto simp: aget_def split: if_splits)
    moreover have "Suc (Suc (nat i - 2)) = nat i" using a(2) by linarith
    ultimately have "p = drop 2 fs ! (nat i - 2)" "nat i - 2 < length (drop 2 fs)" using a(2) by auto
    then have "p \<in> set (drop 2 fs)" by (metis nth_mem)
    with assms(2) show ?thesis by (metis option.exhaust)
  qed
  let ?f = "\<lambda>i found. if found \<noteq> None then Inr found
     else bindr (aget fs i) (\<lambda>p. case p of None \<Rightarrow> Inr None | Some f \<Rightarrow> Inr (if name = fileName f then Some i else None))"
  have "foldM ?f is None = Inr None" if "\<forall>i \<in> set is. 2 \<le> i \<and> i < 20" for "is"
    using that
  proof (induction "is")
    case (Cons i "is")
    have "aget fs i = Inr (fs ! nat i)" using Cons.prems assms(1) by simp
    then show ?case using Cons g [of i "fs ! nat i"] by (auto split: option.splits)
  qed simp
  from this [of "[2..19]"] show ?thesis by (simp add: find_open_def)
qed

lemma FreeSlot_from_None: "None \<in> set fs \<Longrightarrow> \<exists>i < length fs. FreeSlot_from k fs = int (k + i) \<and> fs ! i = None"
proof (induction fs arbitrary: k)
  case (Cons f fs)
  show ?case
  proof (cases "f = None")
    case False
    then obtain i where "i < length fs" "FreeSlot_from (Suc k) fs = int (Suc k + i)" "fs ! i = None" using Cons by fastforce
    then show ?thesis using False by (intro exI [of _ "Suc i"]) simp
  qed auto
qed simp

lemma User_name:
  assumes "tables_ok (cpu s)" "user_string (cpu s) va 32 name"
  shows "\<exists>m. touched (cpu s) m \<and> after (User2System va 32) (\<lambda>buf. after (check (c_string buf)) f) s = f name (s\<lparr>cpu := m\<rparr>)"
proof -
  obtain m where m: "touched (cpu s) m" "User2System va 32 s = ret (name @ replicate (33 - length name) 0) (s\<lparr>cpu := m\<rparr>)"
    using User2System_ok [OF assms(1), of va 32 name] assms(2) by auto
  have n: "length name \<le> 32" "0 \<notin> set name" using assms(2) by (simp_all add: user_string_def)
  then have "replicate (33 - length name) (0 :: u8) = 0 # replicate (32 - length name) 0"
    by (simp flip: replicate_Suc add: Suc_diff_le)
  then have "c_string (name @ replicate (33 - length name) 0) = Inr name" using c_string_prefix [OF n(2)] by simp
  then show ?thesis using m by (auto simp: after_app check_def)
qed

lemma File_Open_missing:
  assumes "tables_ok (cpu s)" "user_string (cpu s) (registers (cpu s) 4) 32 name"
    and "length (ListFile s) = 20" "None \<in> set (drop 2 (ListFile s))"
    and "\<forall>f. Some f \<in> set (drop 2 (ListFile s)) \<longrightarrow> fileName f \<noteq> name" "fst (h_open h name False (world s)) = -1"
  shows "File_Open h s = Inl NullDereference"
proof -
  obtain i where i: "i < 18" "Unix_FindFreeSlot (ListFile s) = int (2 + i)"
    using FreeSlot_from_None [OF assms(4), of 2] assms(3) by (auto simp: Unix_FindFreeSlot_def)
  obtain w where "h_open h name False (world s) = (-1, w)" using assms(6) by (cases "h_open h name False (world s)") simp
  then have o: "on_host (Unix_Open h name) (s\<lparr>cpu := m\<rparr>) = ret None (s\<lparr>cpu := m, world := w\<rparr>)" for m
    by (simp add: on_host_def Unix_Open_def OpenForReadWrite_def)
  note find = find_open_none [OF assms(3,5)]
  have slot: "aset (ListFile s) (2 + int i) None = Inr ((ListFile s)[Suc (Suc i) := None])"
    using i(1) assms(3) by (simp add: aset_def nat_add_distrib)
  have "Open_file h name (s\<lparr>cpu := m\<rparr>) = Inl NullDereference" for m
    using i o find slot by (simp add: Open_file_def after_app the_files_def check_def set_files_def Let_def)
  then show ?thesis
    using User_name [OF assms(1,2), of "Open_file h"] by (auto simp: File_Open_def after_app ReadReg_small NumTotalRegs_def)
qed

section \<open>Properties\<close>

text \<open>A program with one page, a host on which every call fails, and an example of a state.\<close>

definition failing_host :: "unit host" where
  "failing_host = \<lparr>h_open = \<lambda>_ _ w. (-1, w), h_read = \<lambda>_ _ w. ((-1, []), w), h_write = \<lambda>_ _ w. (-1, w),
     h_lseek = \<lambda>_ _ _ w. (-1, w), h_close = \<lambda>_ w. (-1, w), h_unlink = \<lambda>_ w. (-1, w), h_random = \<lambda>w. (7, w),
     h_usable = \<lambda>n. n, h_garbage = \<lambda>_. 0\<rparr>"

definition example_system :: "(nat \<Rightarrow> u32) \<Rightarrow> u8 list \<Rightarrow> unit system" where
  "example_system regs input =
     \<lparr>cpu = two_pages\<lparr>registers := regs, mainMemory := (\<lambda>_. 0)(640 := 104, 641 := 105)\<rparr>, console_in = input, console_out = [],
      ListFile = Some (UnixFile [] 3) # Some (UnixFile [] 4) # replicate 18 None, world = ()\<rparr>"

lemma example_system_ok: "tables_ok (cpu (example_system regs input))"
  by (simp add: example_system_def tables_ok_def two_pages_def Machine_Machine_def)

lemma example_system_fields [simp]: "registers (cpu (example_system regs input)) = regs"
  "console_in (example_system regs input) = input" "console_out (example_system regs input) = []"
  "ListFile (example_system regs input) = Some (UnixFile [] 3) # Some (UnixFile [] 4) # replicate 18 None"
  by (simp_all add: example_system_def)

text \<open>
  C12: A system call cannot be used to break out of an address space.  Whatever UNIX and the consoles deliver,
  when the handler returns to the program, memory has changed at most in frames that the program's page
  table maps writable, the tables are as they were, and of the registers only number 2 and the three
  program counters have changed: the program goes on after the call.  For a number that is no system
  call nothing has changed, so the program makes the same call again.
\<close>

theorem system_calls_isolated:
  assumes "tables_ok (cpu s)" "ExceptionHandler h SyscallException s = Inr (Goes ((), s'))"
  shows "if registers (cpu s) 2 \<in> system_calls
    then same_protection (cpu s) (cpu s') \<and> mem_frame (cpu s) (cpu s') \<and>
      (\<forall>n. n \<notin> {2, PCReg, NextPCReg, PrevPCReg} \<longrightarrow> registers (cpu s') n = registers (cpu s) n) \<and>
      registers (cpu s') PrevPCReg = registers (cpu s) PCReg \<and>
      registers (cpu s') PCReg = registers (cpu s) PCReg + 4 \<and> registers (cpu s') NextPCReg = registers (cpu s) PCReg + 8
    else s' = s"
proof (cases "registers (cpu s) 2 \<in> system_calls")
  case True
  have "syscall h (registers (cpu s) 2) s = Inr (Goes ((), s'))" using assms(2) by (simp add: handler_syscall)
  then obtain s1 where s1: "framed {2} s s1" "s' = s1\<lparr>cpu := returned (cpu s1)\<rparr>"
    using returns_syscall [OF True, of h] unfolding returns_def by blast
  have "registers (cpu s1) n = registers (cpu s) n" if "n \<noteq> 2" for n
    using s1(1) assms(1) that by (simp add: framed_def)
  moreover have "same_protection (cpu s) (cpu s1)" "mem_frame (cpu s) (cpu s1)"
    using s1(1) assms(1) by (simp_all add: framed_def)
  ultimately show ?thesis
    using True s1(2) by (simp add: returned_def set_reg_def reg_numbers same_protection_def mem_frame_def)
next
  case False
  then have "syscall h (registers (cpu s) 2) s = (if registers (cpu s) 2 = SC_Halt then SysHalt else ret ()) s"
    by (simp add: syscall_def system_calls_def)
  then show ?thesis using False assms(2) by (simp add: handler_syscall SysHalt_def halt_def ret_def split: if_splits)
qed

theorem system_calls_isolated_witness:
  "\<exists>s'. ExceptionHandler failing_host SyscallException (example_system ((\<lambda>_. 0)(2 := SC_Add, 4 := 30, 5 := 12, PCReg := 40)) []) =
     Inr (Goes ((), s')) \<and> registers (cpu s') 2 = 42 \<and> registers (cpu s') PCReg = 44 \<and> registers (cpu s') 4 = 30"
proof -
  let ?s = "example_system ((\<lambda>_. 0)(2 := SC_Add, 4 := 30, 5 := 12, PCReg := 40)) []"
  have "ExceptionHandler failing_host SyscallException ?s = ret () (?s\<lparr>cpu := returned (set_reg 2 42 (cpu ?s))\<rparr>)"
    by (simp add: handler_syscall syscall_def SC_numbers call_Arith_def SysAdd_def after_app ReadReg_small WriteReg_small
        IncreasePC_ok reg_numbers)
  then have e: "ExceptionHandler failing_host SyscallException ?s = Inr (Goes ((), ?s\<lparr>cpu := returned (set_reg 2 42 (cpu ?s))\<rparr>))"
    by (simp add: ret_def)
  from system_calls_isolated [OF example_system_ok e] e show ?thesis
    by (auto simp: system_calls_def reg_numbers returned_def set_reg_def)
qed

text \<open>
  C14: \<open>PrintString\<close> shows the caller's string, but no more than its first 223 bytes.  When the bytes from the address in
  register 4 on, up to the terminating zero (or at least 223 of them), can be read, the call appends exactly the first 223 of
  these bytes to the console, all of them if there are no more; the caller's memory keeps every byte, and the call returns.
\<close>

theorem PrintString_shows_string:
  assumes "tables_ok (cpu s)" "registers (cpu s) 2 = SC_PrintString"
    and "user_string (cpu s) (registers (cpu s) 4) n cs" "length cs < n \<or> 223 \<le> n"
  shows "\<exists>m. touched (cpu s) m \<and> ExceptionHandler h SyscallException s =
    Inr (Goes ((), s\<lparr>console_out := console_out s @ take 223 cs, cpu := returned m\<rparr>))"
  by (rule PrintString_ok [OF assms(1,2) user_string_prefix [OF assms(3,4)]])

lemma example_bytes:
  "user_byte (cpu (example_system regs input)) 0 = Some 104" "user_byte (cpu (example_system regs input)) 1 = Some 105"
  "user_byte (cpu (example_system regs input)) 2 = Some 0"
  by (simp_all add: user_byte_def translate_result_def mapping_def entry_result_def example_system_def two_pages_def
        Machine_Machine_def mem_sizes)

lemma example_string: "3 \<le> n \<Longrightarrow> user_string (cpu (example_system regs input)) 0 n [104, 105]"
  using example_bytes [of regs input] by (simp add: user_string_def less_Suc_eq)

theorem PrintString_shows_string_witness:
  "\<exists>m. ExceptionHandler failing_host SyscallException (example_system ((\<lambda>_. 0)(2 := SC_PrintString)) []) =
     Inr (Goes ((), (example_system ((\<lambda>_. 0)(2 := SC_PrintString)) [])\<lparr>console_out := [104, 105], cpu := returned m\<rparr>))"
  using PrintString_shows_string [OF example_system_ok [of "(\<lambda>_. 0)(2 := SC_PrintString)" "[]"] _ , of 3 "[104, 105]" failing_host]
    example_string [of 3] by auto

text \<open>
  C15: \<open>ReadNum\<close> reads what \<open>PrintNum\<close> prints.  \<open>PrintNum\<close> of any 32-bit number appends its decimal numeral, which fits
  the buffer of 12 bytes; and when that numeral is typed, followed by the end of the line, \<open>ReadNum\<close>
  returns the number.  This needs the byte of the fresh buffer behind the numeral to be zero already, as
  the code never ends the string it reads.
\<close>

theorem numbers_roundtrip:
  assumes "registers (cpu s) 2 = SC_PrintNum" "registers (cpu t) 2 = SC_ReadNum"
    and "console_in t = decimal (sint (registers (cpu s) 4)) @ newline # rest"
    and "h_garbage h (length (decimal (sint (registers (cpu s) 4)))) = 0"
  shows "ExceptionHandler h SyscallException s = Inr (Goes ((),
      s\<lparr>console_out := console_out s @ decimal (sint (registers (cpu s) 4)), cpu := returned (cpu s)\<rparr>)) \<and>
    ExceptionHandler h SyscallException t = Inr (Goes ((),
      t\<lparr>console_in := rest, cpu := returned (set_reg 2 (registers (cpu s) 4) (cpu t))\<rparr>))"
proof
  let ?n = "sint (registers (cpu s) 4)"
  have "ExceptionHandler h SyscallException s = call_PrintNum h s"
    using assms(1) by (simp add: handler_syscall syscall_def SC_numbers)
  then show "ExceptionHandler h SyscallException s = Inr (Goes ((),
      s\<lparr>console_out := console_out s @ decimal ?n, cpu := returned (cpu s)\<rparr>))"
    by (simp add: call_PrintNum_def after_app ReadReg_small NumTotalRegs_def PrintNum_ok IncreasePC_ok) (simp add: ret_def)
  have "length (decimal ?n) \<le> 11" by (rule decimal_length) (rule sint_range32)+
  then have "EH_ReadNum h t = ret () (t\<lparr>console_in := rest, cpu := set_reg 2 (registers (cpu s) 4) (cpu t)\<rparr>)"
    using EH_ReadNum_ok [OF assms(3) decimal_chars(2,1) _ assms(4)] ReadNum_value_decimal [OF sint_range32] by simp
  then show "ExceptionHandler h SyscallException t = Inr (Goes ((),
      t\<lparr>console_in := rest, cpu := returned (set_reg 2 (registers (cpu s) 4) (cpu t))\<rparr>))"
    using assms(2) by (simp add: handler_syscall syscall_def SC_numbers after_app IncreasePC_ok) (simp add: ret_def)
qed

theorem numbers_roundtrip_witness:
  "\<exists>t'. ExceptionHandler failing_host SyscallException (example_system ((\<lambda>_. 0)(2 := SC_ReadNum)) [45, 52, 50, 10, 33]) =
     Inr (Goes ((), t')) \<and> registers (cpu t') 2 = -42 \<and> console_in t' = [33]"
proof -
  have d: "decimal (sint (-42 :: u32)) = [45, 52, 50]" by (simp add: decimal_def decimal_digits.simps)
  let ?s = "example_system ((\<lambda>_. 0)(2 := SC_PrintNum, 4 := -42)) []"
  let ?t = "example_system ((\<lambda>_. 0)(2 := SC_ReadNum)) [45, 52, 50, 10, 33]"
  have "console_in ?t = decimal (sint (registers (cpu ?s) 4)) @ newline # [33]"
    using d by (simp add: newline_def)
  from numbers_roundtrip [OF _ _ this, of failing_host] show ?thesis
    by (simp add: failing_host_def) (simp add: returned_def set_reg_def reg_numbers)
qed

text \<open>
  C16: A user program can crash the kernel with a file number.  The range checks of \<open>Close\<close>, \<open>Read\<close>, \<open>Write\<close> and
  \<open>Seek\<close> let 20 pass, and the kernel reads the entry one past the end of the table of 20 (\<open>OutOfBounds\<close>), unless \<open>Write\<close> has failed
  before for want of a buffer of negative size.  And \<open>Read\<close> of \<open>stdin\<close>, file 0, never returns: it waits for a
  character if it is to read one, and then stores it, or the terminating zero, through a pointer that was never set.
\<close>

theorem file_numbers_crash:
  assumes "length (ListFile s) = 20" "ListFile s ! 0 \<noteq> None"
    and "registers (cpu s) 2 = SC_Close \<and> registers (cpu s) 4 = 20 \<or> registers (cpu s) 2 = SC_Seek \<and> registers (cpu s) 5 = 20 \<or>
      registers (cpu s) 2 = SC_Write \<and> registers (cpu s) 6 = 20 \<or>
      registers (cpu s) 2 = SC_Read \<and> registers (cpu s) 6 \<in> {0, 20}"
  shows "ExceptionHandler h SyscallException s = Inl
    (if registers (cpu s) 2 = SC_Write \<and> sint (registers (cpu s) 5) < 0 then OutOfMemory
     else if registers (cpu s) 2 = SC_Read \<and> registers (cpu s) 6 = 0 \<and> 0 < sint (registers (cpu s) 5) \<and> console_in s = []
     then Diverges else OutOfBounds)"
proof -
  obtain f0 fs where "ListFile s = Some f0 # fs" using assms(1,2) by (cases "ListFile s") auto
  note Read_stdin [OF this, of h "registers (cpu s) 4" "sint (registers (cpu s) 5)"]
  then show ?thesis
    using assms(3) Close_20 [OF assms(1)] Seek_20 [OF assms(1)] Read_20 [OF assms(1)] Write_20 [OF assms(1)]
    by (elim disjE conjE) (auto simp: handler_calls after_app SC_numbers)
qed

theorem file_numbers_crash_witness:
  "ExceptionHandler failing_host SyscallException (example_system ((\<lambda>_. 0)(2 := SC_Read, 5 := 4)) [97]) = Inl OutOfBounds \<and>
   ExceptionHandler failing_host SyscallException (example_system ((\<lambda>_. 0)(2 := SC_Close, 4 := 20)) []) = Inl OutOfBounds"
  using file_numbers_crash [of "example_system ((\<lambda>_. 0)(2 := SC_Read, 5 := 4)) [97]" failing_host]
    file_numbers_crash [of "example_system ((\<lambda>_. 0)(2 := SC_Close, 4 := 20)) []" failing_host]
  by (simp add: SC_numbers)

text \<open>
  Opening a file that does not exist crashes the kernel.  When the name is readable, not yet open and a slot is
  free, but UNIX refuses to open the file, \<open>File_Open\<close> writes the name into the null pointer before it
  checks it.
\<close>

theorem Open_missing_file_crashes:
  assumes "tables_ok (cpu s)" "registers (cpu s) 2 = SC_Open" "user_string (cpu s) (registers (cpu s) 4) 32 name"
    and "length (ListFile s) = 20" "None \<in> set (drop 2 (ListFile s))"
    and "\<forall>f. Some f \<in> set (drop 2 (ListFile s)) \<longrightarrow> fileName f \<noteq> name" "fst (h_open h name False (world s)) = -1"
  shows "ExceptionHandler h SyscallException s = Inl NullDereference"
  using File_Open_missing [OF assms(1,3-7)] assms(2) by (simp add: handler_calls after_app)

theorem Open_missing_file_crashes_witness:
  "ExceptionHandler failing_host SyscallException (example_system ((\<lambda>_. 0)(2 := SC_Open)) []) = Inl NullDereference"
  using Open_missing_file_crashes [OF example_system_ok, of "(\<lambda>_. 0)(2 := SC_Open)" "[]" "[104, 105]" failing_host]
    example_string [of 32 "(\<lambda>_. 0)(2 := SC_Open)" "[]"] by (simp add: failing_host_def)

text \<open>
  What a program writes to \<open>stdout\<close> is never shown.  A \<open>Write\<close> of at least one byte to file 1 that returns has
  put no character on the console: the bytes went to a UNIX file called \<open>stdout\<close>, and the branch that prints
  is only reached when nothing was written.
\<close>

theorem Write_stdout_not_shown:
  assumes "registers (cpu s) 2 = SC_Write" "registers (cpu s) 6 = 1" "0 < sint (registers (cpu s) 5)"
    and "ExceptionHandler h SyscallException s = Inr (Goes ((), s'))"
  shows "console_out s' = console_out s \<and> registers (cpu s') 2 \<in> {-1, registers (cpu s) 5}"
proof -
  have "after (File_Write h) (\<lambda>_. IncreasePC) s = Inr (Goes ((), s'))"
    using assms(1,4) by (simp add: handler_syscall syscall_def SC_numbers)
  then obtain s1 where s1: "File_Write h s = Inr (Goes ((), s1))" "s' = s1\<lparr>cpu := returned (cpu s1)\<rparr>"
    by (auto simp: goes IncreasePC_ok)
  show ?thesis using File_Write_stdout [OF s1(1) assms(2,3)] s1(2)
    by (auto simp: same_console_def returned_def set_reg_def reg_numbers)
qed

definition accepting_host :: "unit host" where
  "accepting_host = failing_host\<lparr>h_lseek := \<lambda>_ _ _ w. (0, w), h_write := \<lambda>_ bs w. (int (length bs), w)\<rparr>"

theorem Write_stdout_not_shown_witness:
  "\<exists>s'. ExceptionHandler accepting_host SyscallException (example_system ((\<lambda>_. 0)(2 := SC_Write, 5 := 3, 6 := 1)) []) =
     Inr (Goes ((), s')) \<and> console_out s' = []"
proof -
  let ?s = "example_system ((\<lambda>_. 0)(2 := SC_Write, 5 := 3, 6 := 1)) []" and ?f = "UnixFile [] 4"
  obtain m where m: "User2System 0 3 ?s = ret [104, 105, 0, 0] (?s\<lparr>cpu := m\<rparr>)"
    using User2System_ok [OF example_system_ok, of "(\<lambda>_. 0)(2 := SC_Write, 5 := 3, 6 := 1)" "[]" 0 3 "[104, 105]"]
      example_string [of 3] by (auto simp: numeral_eq_Suc)
  have c: "checked_file 1 ?s = ret (Some ?f) ?s" by (simp add: checked_file_def the_files_def after_app check_def)
  have u: "t\<lparr>world := ()\<rparr> = t" for t :: "unit system" by (cases t) simp
  have w: "on_host (UnixFile_Write accepting_host [104, 105, 0, 0] 3 ?f) t = ret (3, ?f\<lparr>currentOffset := 3\<rparr>) t" for t
    by (simp add: on_host_def UnixFile_Write_def UnixFile_WriteAt_def Lseek_def WriteFile_def bytes_at_def accepting_host_def
        failing_host_def UnixFile_def s32_id u)
  have "Write_file accepting_host 0 3 1 ?s = ret ()
      (?s\<lparr>ListFile := (ListFile ?s)[1 := Some (?f\<lparr>currentOffset := 3\<rparr>)], cpu := set_reg 2 3 m\<rparr>)"
    by (simp add: Write_file_def after_app check_def new_chars_def c m w put_file_def the_files_def set_files_def WriteReg_small
        NumTotalRegs_def)
  then have "ExceptionHandler accepting_host SyscallException ?s = Inr (Goes ((),
      ?s\<lparr>ListFile := (ListFile ?s)[1 := Some (?f\<lparr>currentOffset := 3\<rparr>)], cpu := returned (set_reg 2 3 m)\<rparr>))"
    by (simp add: handler_calls after_app IncreasePC_ok) (simp add: ret_def)
  from Write_stdout_not_shown [OF _ _ _ this] this show ?thesis by simp
qed

end
