(* ===== verification/File_Calls_Correct.thy ===== *)
theory File_Calls_Correct
  imports Syscalls_Correct
begin

text \<open>
  The file calls on a host that keeps files the way UNIX does: what a program writes to a file, it reads back.
\<close>

section \<open>The contract of the host\<close>

text \<open>
  \<open>file w fd\<close> is what the open file \<open>fd\<close> holds and where its offset is.  A read delivers what there is from the
  offset on, a write replaces and extends, \<open>lseek\<close> counts from the start, the offset or the end.
\<close>

definition unix_base :: "int \<Rightarrow> u8 list \<Rightarrow> nat \<Rightarrow> int" where
  "unix_base whence bs off = (if whence = 0 then 0 else if whence = 1 then int off else int (length bs))"

definition posix :: "'w host \<Rightarrow> ('w \<Rightarrow> int \<Rightarrow> (u8 list \<times> nat) option) \<Rightarrow> bool" where
  "posix h file \<longleftrightarrow> (\<forall>w fd bs off. file w fd = Some (bs, off) \<longrightarrow>
     (\<forall>n whence. 0 \<le> unix_base whence bs off + n \<longrightarrow>
        (\<exists>w'. h_lseek h fd n whence w = (unix_base whence bs off + n, w') \<and>
           file w' fd = Some (bs, nat (unix_base whence bs off + n)))) \<and>
     (\<forall>data. off \<le> length bs \<longrightarrow>
        (\<exists>w'. h_write h fd data w = (int (length data), w') \<and>
           file w' fd = Some (take off bs @ data @ drop (off + length data) bs, off + length data))) \<and>
     (\<forall>n. \<exists>w'. h_read h fd (int n) w = ((int (min n (length bs - off)), take n (drop off bs)), w') \<and>
           file w' fd = Some (bs, off + min n (length bs - off))))"

lemma posix_lseek:
  assumes "posix h file" "file w fd = Some (bs, off)" "0 \<le> unix_base whence bs off + n"
  shows "\<exists>w'. h_lseek h fd n whence w = (unix_base whence bs off + n, w') \<and>
    file w' fd = Some (bs, nat (unix_base whence bs off + n))"
  using assms unfolding posix_def by blast

lemma posix_seeks:
  assumes "posix h file" "file w fd = Some (bs, off)"
  shows "\<exists>w'. Lseek h fd (int p) 0 w = Inr w' \<and> file w' fd = Some (bs, p)"
    and "\<exists>w'. Lseek h fd 0 2 w = Inr w' \<and> file w' fd = Some (bs, length bs)"
    and "\<exists>w'. h_lseek h fd 0 1 w = (int off, w') \<and> file w' fd = Some (bs, off)"
  using posix_lseek [where n = "int p" and whence = 0, OF assms] posix_lseek [where n = 0 and whence = 2, OF assms]
    posix_lseek [where n = 0 and whence = 1, OF assms]
  by (auto simp: unix_base_def Lseek_def)

lemma posix_write:
  assumes "posix h file" "file w fd = Some (bs, off)" "off \<le> length bs"
  shows "\<exists>w'. h_write h fd data w = (int (length data), w') \<and>
    file w' fd = Some (take off bs @ data @ drop (off + length data) bs, off + length data)"
  using assms unfolding posix_def by blast

lemma posix_read:
  assumes "posix h file" "file w fd = Some (bs, off)"
  shows "\<exists>w'. h_read h fd (int n) w = ((int (min n (length bs - off)), take n (drop off bs)), w') \<and>
    file w' fd = Some (bs, off + min n (length bs - off))"
  using assms unfolding posix_def by blast

section \<open>Open files over such a host\<close>

definition file_at :: "('w \<Rightarrow> int \<Rightarrow> (u8 list \<times> nat) option) \<Rightarrow> unix_file \<Rightarrow> 'w \<Rightarrow> u8 list \<Rightarrow> bool" where
  "file_at file f w bs \<longleftrightarrow> (\<exists>off. file w (uf_file f) = Some (bs, off))"

lemma UnixFile_Write_ok:
  assumes "posix h file" "file_at file f w bs" "currentOffset f = int p" "p \<le> length bs" "n \<le> length buf"
    and "p + n < 2 ^ 31"
  obtains w' where "UnixFile_Write h buf (int n) f w = Inr ((int n, f\<lparr>currentOffset := int (p + n)\<rparr>), w')"
    "file_at file f w' (take p bs @ take n buf @ drop (p + n) bs)"
proof -
  obtain off where off: "file w (uf_file f) = Some (bs, off)" using assms(2) by (auto simp: file_at_def)
  obtain w1 where w1: "Lseek h (uf_file f) (int p) 0 w = Inr w1" "file w1 (uf_file f) = Some (bs, p)"
    using posix_seeks(1) [OF assms(1) off] by blast
  have len: "length (take n buf) = n" using assms(5) by simp
  obtain w2 where w2: "h_write h (uf_file f) (take n buf) w1 = (int n, w2)"
      "file w2 (uf_file f) = Some (take p bs @ take n buf @ drop (p + n) bs, p + n)"
    using posix_write [OF assms(1) w1(2) assms(4), of "take n buf"] unfolding len by blast
  have "UnixFile_Write h buf (int n) f w = Inr ((int n, f\<lparr>currentOffset := int (p + n)\<rparr>), w2)"
    using w1(1) w2(1) assms(3,5,6) s32_id [of "int p + int n"]
    by (simp add: UnixFile_Write_def UnixFile_WriteAt_def WriteFile_def bytes_at_def)
  moreover have "file_at file f w2 (take p bs @ take n buf @ drop (p + n) bs)" using w2(2) by (auto simp: file_at_def)
  ultimately show thesis using that by blast
qed

lemma UnixFile_Read_ok:
  assumes "posix h file" "file_at file f w bs" "currentOffset f = int p" "p + n \<le> length bs" "p + n < 2 ^ 31"
  obtains w' where "UnixFile_Read h (int n) f w = Inr ((int n, take n (drop p bs), f\<lparr>currentOffset := int (p + n)\<rparr>), w')"
    "file_at file f w' bs"
proof -
  obtain off where off: "file w (uf_file f) = Some (bs, off)" using assms(2) by (auto simp: file_at_def)
  obtain w1 where w1: "Lseek h (uf_file f) (int p) 0 w = Inr w1" "file w1 (uf_file f) = Some (bs, p)"
    using posix_seeks(1) [OF assms(1) off] by blast
  have k: "min n (length bs - p) = n" using assms(4) by simp
  obtain w2 where w2: "h_read h (uf_file f) (int n) w1 = ((int n, take n (drop p bs)), w2)"
      "file w2 (uf_file f) = Some (bs, p + n)"
    using posix_read [OF assms(1) w1(2), of n] unfolding k by blast
  have "UnixFile_Read h (int n) f w = Inr ((int n, take n (drop p bs), f\<lparr>currentOffset := int (p + n)\<rparr>), w2)"
    using w1(1) w2(1) assms(3,5) s32_id [of "int p + int n"]
    by (simp add: UnixFile_Read_def UnixFile_ReadAt_def ReadPartial_def)
  moreover have "file_at file f w2 bs" using w2(2) by (auto simp: file_at_def)
  ultimately show thesis using that by blast
qed

lemma UnixFile_Length_ok:
  assumes "posix h file" "file_at file f w bs"
  obtains w' where "UnixFile_Length h f w = Inr (int (length bs), w')" "file_at file f w' bs"
proof -
  obtain off where off: "file w (uf_file f) = Some (bs, off)" using assms(2) by (auto simp: file_at_def)
  obtain w1 where w1: "Lseek h (uf_file f) 0 2 w = Inr w1" "file w1 (uf_file f) = Some (bs, length bs)"
    using posix_seeks(2) [OF assms(1) off] by blast
  obtain w2 where w2: "h_lseek h (uf_file f) 0 1 w1 = (int (length bs), w2)" "file w2 (uf_file f) = Some (bs, length bs)"
    using posix_seeks(3) [OF assms(1) w1(2)] by blast
  show thesis using that [of w2] w1(1) w2
    by (auto simp: UnixFile_Length_def Tell_def SEEK_CUR_def file_at_def)
qed

lemma UnixFile_Seek_ok:
  assumes "posix h file" "file_at file f w bs"
  obtains w' where "UnixFile_Seek h (int p) f w = Inr ((int p, f\<lparr>currentOffset := int p\<rparr>), w')" "file_at file f w' bs"
proof -
  obtain off where off: "file w (uf_file f) = Some (bs, off)" using assms(2) by (auto simp: file_at_def)
  obtain w1 where w1: "Lseek h (uf_file f) (int p) 0 w = Inr w1" "file w1 (uf_file f) = Some (bs, p)"
    using posix_seeks(1) [OF assms(1) off] by blast
  obtain w2 where w2: "h_lseek h (uf_file f) 0 1 w1 = (int p, w2)" "file w2 (uf_file f) = Some (bs, p)"
    using posix_seeks(3) [OF assms(1) w1(2)] by blast
  show thesis using that [of w2] w1(1) w2
    by (auto simp: UnixFile_Seek_def UnixFile_GetCurrentPos_def Tell_def SEEK_CUR_def file_at_def)
qed

section \<open>Writing into user memory\<close>

definition frame_address :: "machine \<Rightarrow> u32 \<Rightarrow> nat" where
  "frame_address m va = unat (snd (translate_result m va 1 True))"

definition writable_at :: "machine \<Rightarrow> u32 \<Rightarrow> bool" where
  "writable_at m va \<longleftrightarrow> fst (translate_result m va 1 True) = NoException"

text \<open>A buffer the program may write, no two bytes of which are the same byte of memory.\<close>

definition writable_buffer :: "machine \<Rightarrow> u32 \<Rightarrow> nat \<Rightarrow> bool" where
  "writable_buffer m va n \<longleftrightarrow>
     (\<forall>i < n. writable_at m (va + word_of_nat i)) \<and> inj_on (\<lambda>i. frame_address m (va + word_of_nat i)) {..<n}"

definition relocated :: "machine \<Rightarrow> machine \<Rightarrow> bool" where
  "relocated m m' \<longleftrightarrow> same_protection m m' \<and> registers m' = registers m"

lemma relocated_touched: "touched m m' \<Longrightarrow> relocated m m'"
  by (simp add: relocated_def touched_def)

lemma relocated_same:
  assumes "relocated m m'" "tables_ok m"
  shows "tables_ok m'" "frame_address m' va = frame_address m va" "writable_at m' va = writable_at m va"
    "writable_buffer m' va n = writable_buffer m va n"
  using assms same_protection_tables_ok [of m m'] translate_result_same [of m m' va' 1 True for va']
  by (simp_all add: relocated_def frame_address_def writable_at_def writable_buffer_def)

lemma relocated_trans: "relocated a b \<Longrightarrow> relocated b c \<Longrightarrow> relocated a c"
  using same_protection_trans by (auto simp: relocated_def)

lemma user_byte_writable:
  "writable_at m va \<Longrightarrow> user_byte m va = Some (mainMemory m (frame_address m va))"
  using translate_result_read [of m va 1 "snd (translate_result m va 1 True)"]
  by (auto simp: user_byte_def writable_at_def frame_address_def prod_eq_iff split: prod.splits)

lemma user_string_set_reg [simp]: "user_string (set_reg k v m) = user_string m"
proof -
  have map: "mapping (set_reg k v m) = mapping m" by (rule ext) (simp add: mapping_def cong: option.case_cong)
  have "translate_result (set_reg k v m) = translate_result m" by (intro ext) (auto simp: translate_result_def map split: option.splits)
  then have "user_byte (set_reg k v m) = user_byte m" by (intro ext) (simp add: user_byte_def split: prod.splits)
  then show ?thesis by (simp add: user_string_def fun_eq_iff)
qed

lemma user_string_exists:
  assumes "\<forall>i < n. user_byte m (va + word_of_nat i) \<noteq> None"
  shows "\<exists>cs. user_string m va n cs"
  using assms
proof (induction n arbitrary: va)
  case (Suc n)
  have first: "user_byte m va \<noteq> None" using Suc.prems by (auto dest: spec [of _ 0])
  then obtain c where c: "user_byte m va = Some c" by blast
  show ?case
  proof (cases "c = 0")
    case True
    then show ?thesis using c by (intro exI [of _ "[]"]) (simp add: user_string_def)
  next
    case False
    have "user_byte m (va + 1 + word_of_nat i) \<noteq> None" if "i < n" for i
      using Suc.prems that by (auto simp: add.assoc dest: spec [of _ "Suc i"])
    then obtain cs where cs: "user_string m (va + 1) n cs" using Suc.IH by blast
    have "user_byte m (va + word_of_nat i) = Some ((c # cs) ! i)" if "i < length (c # cs)" for i
      using cs c that by (cases i) (simp_all add: user_string_def add.assoc)
    then show ?thesis using cs False by (intro exI [of _ "c # cs"]) (auto simp: user_string_def add.assoc)
  qed
qed (simp add: user_string_def exI [of _ "[]"])

lemma User_WriteMem_ok:
  assumes "tables_ok (cpu s)" "writable_at (cpu s) va"
  shows "\<exists>m. relocated (cpu s) m \<and> mainMemory m = (mainMemory (cpu s))(frame_address (cpu s) va := c) \<and>
    User_WriteMem va 1 (scast c) s = ret () (s\<lparr>cpu := m\<rparr>)"
proof -
  obtain pa where r: "translate_result (cpu s) va 1 True = (NoException, pa)"
    using assms(2) by (auto simp: writable_at_def prod_eq_iff)
  obtain m where m: "touched (cpu s) m"
    "WriteMem (cpu s) va 1 (scast c) = Inr (Access () (m\<lparr>mainMemory := store_bytes 1 (unat pa) (scast c) (mainMemory (cpu s))\<rparr>))"
    using WriteMem_spec [OF assms(1) _ r, of "scast c"] by auto
  have byte: "store_bytes 1 (unat pa) (scast c) mem = mem(frame_address (cpu s) va := c)" for mem
    using r by (simp add: frame_address_def)
  have "relocated (cpu s) (m\<lparr>mainMemory := (mainMemory (cpu s))(frame_address (cpu s) va := c)\<rparr>)"
    using m(1) by (auto simp: relocated_def touched_def same_protection_def)
  then show ?thesis using m(2) unfolding byte
    by (intro exI conjI) (auto simp: User_WriteMem_def user_access_def check_def after_def ret_def)
qed

lemma System2User_loop_ok:
  assumes "tables_ok (cpu s)" "writable_buffer (cpu s) va k" "i + n < k" "k \<le> length buf" "0 \<notin> set (take k buf)"
  shows "\<exists>m. relocated (cpu s) m \<and> System2User_loop n va (int i) buf s = ret (int (i + n + 1)) (s\<lparr>cpu := m\<rparr>) \<and>
    (\<forall>j \<in> {i..i + n}. mainMemory m (frame_address (cpu s) (va + word_of_nat j)) = buf ! j) \<and>
    (\<forall>a. a \<notin> (\<lambda>j. frame_address (cpu s) (va + word_of_nat j)) ` {i..i + n} \<longrightarrow> mainMemory m a = mainMemory (cpu s) a)"
  using assms(1-3)
proof (induction n arbitrary: i s)
  case 0
  then obtain m where m: "relocated (cpu s) m"
      "mainMemory m = (mainMemory (cpu s))(frame_address (cpu s) (va + word_of_nat i) := buf ! i)"
      "User_WriteMem (va + word_of_nat i) 1 (scast (buf ! i)) s = ret () (s\<lparr>cpu := m\<rparr>)"
    using User_WriteMem_ok [of s "va + word_of_nat i" "buf ! i"] by (auto simp: writable_buffer_def)
  have "System2User_loop 0 va (int i) buf s = ret (int (i + 0 + 1)) (s\<lparr>cpu := m\<rparr>)"
    using m(3) 0 assms(4) by (simp add: after_app check_def add.commute)
  then show ?case using m(1,2) by auto
next
  case (Suc n)
  let ?P = "\<lambda>j. frame_address (cpu s) (va + word_of_nat j)"
  have i: "i < k" "i < length buf" using Suc.prems(3) assms(4) by simp_all
  obtain m where m: "relocated (cpu s) m" "mainMemory m = (mainMemory (cpu s))(?P i := buf ! i)"
      "User_WriteMem (va + word_of_nat i) 1 (scast (buf ! i)) s = ret () (s\<lparr>cpu := m\<rparr>)"
    using User_WriteMem_ok [of s "va + word_of_nat i" "buf ! i"] Suc.prems i by (auto simp: writable_buffer_def)
  note same = relocated_same [OF m(1) Suc.prems(1)]
  obtain m' where m': "relocated m m'"
      "System2User_loop n va (int (Suc i)) buf (s\<lparr>cpu := m\<rparr>) = ret (int (Suc i + n + 1)) (s\<lparr>cpu := m'\<rparr>)"
      "\<forall>j \<in> {Suc i..Suc i + n}. mainMemory m' (?P j) = buf ! j"
      "\<forall>a. a \<notin> ?P ` {Suc i..Suc i + n} \<longrightarrow> mainMemory m' a = mainMemory m a"
    using Suc.IH [of "s\<lparr>cpu := m\<rparr>" "Suc i"] same Suc.prems by auto
  have "buf ! i \<noteq> 0" using assms(5) i by (metis in_set_conv_nth length_take min_less_iff_conj nth_take)
  then have run: "System2User_loop (Suc n) va (int i) buf s = ret (int (i + Suc n + 1)) (s\<lparr>cpu := m'\<rparr>)"
    using m(3) m'(2) i by (simp add: after_app check_def add.commute)
  have "?P i \<notin> ?P ` {Suc i..Suc i + n}"
    using Suc.prems(2,3) by (auto simp: writable_buffer_def dest!: inj_onD)
  then have "mainMemory m' (?P i) = buf ! i" using m'(4) m(2) by simp
  then have "\<forall>j \<in> {i..i + Suc n}. mainMemory m' (?P j) = buf ! j"
    using m'(3) by (metis add_Suc_right add_Suc atLeastAtMost_iff le_antisym not_less_eq_eq)
  moreover have "\<forall>a. a \<notin> ?P ` {i..i + Suc n} \<longrightarrow> mainMemory m' a = mainMemory (cpu s) a"
  proof (intro allI impI)
    fix a assume "a \<notin> ?P ` {i..i + Suc n}"
    then have "a \<notin> ?P ` {Suc i..Suc i + n}" "a \<noteq> ?P i" by auto
    then show "mainMemory m' a = mainMemory (cpu s) a" using m'(4) m(2) by simp
  qed
  ultimately show ?case using relocated_trans [OF m(1) m'(1)] run by blast
qed

lemma System2User_ok:
  assumes "tables_ok (cpu s)" "writable_buffer (cpu s) va n" "0 < n" "length cs = n" "0 \<notin> set cs"
  shows "\<exists>m. relocated (cpu s) m \<and> System2User va (int n) (cs @ rest) s = ret (int n) (s\<lparr>cpu := m\<rparr>) \<and>
    user_string m va n cs"
proof -
  obtain m where m: "relocated (cpu s) m"
      "System2User_loop (n - 1) va (int 0) (cs @ rest) s = ret (int (0 + (n - 1) + 1)) (s\<lparr>cpu := m\<rparr>)"
      "\<forall>j \<in> {0..0 + (n - 1)}. mainMemory m (frame_address (cpu s) (va + word_of_nat j)) = (cs @ rest) ! j"
    using System2User_loop_ok [of s va n 0 "n - 1" "cs @ rest"] assms by auto
  have "user_byte m (va + word_of_nat j) = Some (cs ! j)" if "j < n" for j
  proof -
    have "writable_at (cpu s) (va + word_of_nat j)" using assms(2) that by (simp add: writable_buffer_def)
    then show ?thesis using user_byte_writable [of m "va + word_of_nat j"] relocated_same [OF m(1) assms(1)] m(3) that assms(4)
      by (auto simp: nth_append)
  qed
  then have "user_string m va n cs" using assms(4,5) by (simp add: user_string_def)
  then show ?thesis using m(1,2) assms(3) by (auto simp: System2User_def nat_diff_distrib)
qed

section \<open>The calls\<close>

text \<open>\<open>fileID\<close> is the number of an open file with what it holds and the kernel's offset in it.\<close>

definition opened :: "('w \<Rightarrow> int \<Rightarrow> (u8 list \<times> nat) option) \<Rightarrow> 'w system \<Rightarrow> nat \<Rightarrow> unix_file \<Rightarrow> nat \<Rightarrow> u8 list \<Rightarrow> bool" where
  "opened file s fileID f p bs \<longleftrightarrow>
     2 \<le> fileID \<and> fileID < 20 \<and> fileID < length (ListFile s) \<and> ListFile s ! fileID = Some f \<and>
     currentOffset f = int p \<and> file_at file f (world s) bs"

lemma opened_steps:
  assumes "opened file s fileID f p bs"
  shows "checked_file (int fileID) s = ret (Some f) s"
    and "put_file (int fileID) f' s = ret () (s\<lparr>ListFile := (ListFile s)[fileID := Some f']\<rparr>)"
  using assms by (simp_all add: opened_def checked_file_def put_file_def the_files_def set_files_def after_app check_def)

lemma opened_cong: "ListFile s' = ListFile s \<Longrightarrow> world s' = world s \<Longrightarrow> opened file s' = opened file s"
  by (simp add: opened_def fun_eq_iff)

lemma Write_file_ok:
  assumes "posix h file" "opened file s fileID f p bs" "p \<le> length bs" "p + n < 2 ^ 31 - 1" "0 < n"
    and "tables_ok (cpu s)" "user_string (cpu s) va n cs" "length cs = n"
  shows "\<exists>s'. Write_file h va (int n) (int fileID) s = ret () s' \<and> registers (cpu s') 2 = word_of_nat n \<and>
    opened file s' fileID (f\<lparr>currentOffset := int (p + n)\<rparr>) (p + n) (take p bs @ cs @ drop (p + n) bs)"
proof -
  have o: "file_at file f (world s) bs" "currentOffset f = int p" using assms(2) by (simp_all add: opened_def)
  obtain m where m: "touched (cpu s) m" "User2System va (int n) s = ret (cs @ [0]) (s\<lparr>cpu := m\<rparr>)"
    using User2System_ok [OF assms(6), of va "int n" cs] assms(4,7,8) by auto
  obtain w where w: "UnixFile_Write h (cs @ [0]) (int n) f (world s) =
      Inr ((int n, f\<lparr>currentOffset := int (p + n)\<rparr>), w)"
      "file_at file f w (take p bs @ cs @ drop (p + n) bs)"
    using UnixFile_Write_ok [OF assms(1) o(1,2) assms(3), of n "cs @ [0]"] assms(4,8) by auto
  have "opened file (s\<lparr>cpu := m, world := w\<rparr>) fileID f p (take p bs @ cs @ drop (p + n) bs)"
    using assms(2) w(2) by (simp add: opened_def)
  note put = opened_steps(2) [OF this]
  have id: "int fileID \<noteq> 0" using assms(2) by (simp add: opened_def)
  have "Write_file h va (int n) (int fileID) s = ret () (s\<lparr>world := w,
      ListFile := (ListFile s)[fileID := Some (f\<lparr>currentOffset := int (p + n)\<rparr>)], cpu := set_reg 2 (word_of_nat n) m\<rparr>)"
    using opened_steps(1) [OF assms(2)] m(2) w(1) put id assms(5)
    by (simp add: Write_file_def new_chars_def check_def after_app on_host_def WriteReg_small NumTotalRegs_def)
  moreover have "file_at file (f\<lparr>currentOffset := int (p + n)\<rparr>) w (take p bs @ cs @ drop (p + n) bs)"
    using w(2) by (simp add: file_at_def)
  ultimately show ?thesis using assms(2) by (auto simp: opened_def set_reg_def)
qed

lemma Seek_file_ok:
  assumes "posix h file" "opened file s fileID f p bs" "q \<le> length bs"
  shows "\<exists>s'. Seek_file h (int q) (int fileID) s = ret () s' \<and> registers (cpu s') 2 = word_of_nat q \<and>
    opened file s' fileID (f\<lparr>currentOffset := int q\<rparr>) q bs"
proof -
  have o: "file_at file f (world s) bs" using assms(2) by (simp add: opened_def)
  obtain w where w: "UnixFile_Length h f (world s) = Inr (int (length bs), w)" "file_at file f w bs"
    using UnixFile_Length_ok [OF assms(1) o] .
  obtain w' where w': "UnixFile_Seek h (int q) f w = Inr ((int q, f\<lparr>currentOffset := int q\<rparr>), w')" "file_at file f w' bs"
    using UnixFile_Seek_ok [OF assms(1) w(2)] .
  have "opened file (s\<lparr>world := w'\<rparr>) fileID f p bs" using assms(2) w'(2) by (simp add: opened_def)
  note put = opened_steps(2) [OF this]
  have id: "int fileID \<noteq> 0" "int fileID \<noteq> 1" using assms(2) by (simp_all add: opened_def)
  have "Seek_file h (int q) (int fileID) s = ret () (s\<lparr>world := w',
      ListFile := (ListFile s)[fileID := Some (f\<lparr>currentOffset := int q\<rparr>)], cpu := set_reg 2 (word_of_nat q) (cpu s)\<rparr>)"
    using opened_steps(1) [OF assms(2)] w(1) w'(1) put id assms(3)
    by (simp add: Seek_file_def after_app on_host_def WriteReg_small NumTotalRegs_def)
  moreover have "file_at file (f\<lparr>currentOffset := int q\<rparr>) w' bs" using w'(2) by (simp add: file_at_def)
  ultimately show ?thesis using assms(2) by (auto simp: opened_def set_reg_def)
qed

lemma Read_file_ok:
  assumes "posix h file" "opened file s fileID f p bs" "p + n \<le> length bs" "p + n < 2 ^ 31 - 1" "0 < n"
    and "tables_ok (cpu s)" "writable_buffer (cpu s) va n" "0 \<notin> set (take n (drop p bs))"
  shows "\<exists>s'. Read_file h va (int n) (int fileID) s = ret () s' \<and> registers (cpu s') 2 = word_of_nat n \<and>
    user_string (cpu s') va n (take n (drop p bs))"
proof -
  let ?cs = "take n (drop p bs)"
  have o: "file_at file f (world s) bs" "currentOffset f = int p" using assms(2) by (simp_all add: opened_def)
  have "\<forall>i < n. user_byte (cpu s) (va + word_of_nat i) \<noteq> None"
    using assms(7) by (simp add: writable_buffer_def user_byte_writable)
  then obtain old where old: "user_string (cpu s) va n old" using user_string_exists by blast
  then have "length old \<le> n" by (simp add: user_string_def)
  obtain m where m: "touched (cpu s) m"
      "User2System va (int n) s = ret (old @ replicate (n + 1 - length old) 0) (s\<lparr>cpu := m\<rparr>)"
    using User2System_ok [OF assms(6), of va "int n" old] assms(4) old by auto
  let ?buf = "old @ replicate (n + 1 - length old) (0 :: u8)"
  obtain w where w: "UnixFile_Read h (int n) f (world s) = Inr ((int n, ?cs, f\<lparr>currentOffset := int (p + n)\<rparr>), w)"
      "file_at file f w bs"
    using UnixFile_Read_ok [OF assms(1) o assms(3)] assms(4) by auto
  have cs: "length ?cs = n" "length ?buf = n + 1" using assms(3) \<open>length old \<le> n\<close> by simp_all
  have buf: "bytes_put ?buf 0 ?cs = Inr (?cs @ drop n ?buf)" using cs by (simp add: bytes_put_def del: drop_append)
  let ?s = "s\<lparr>cpu := m, world := w, ListFile := (ListFile s)[fileID := Some (f\<lparr>currentOffset := int (p + n)\<rparr>)]\<rparr>"
  have "opened file (s\<lparr>cpu := m, world := w\<rparr>) fileID f p bs" using assms(2) w(2) by (simp add: opened_def)
  note put = opened_steps(2) [OF this]
  have "tables_ok m" "writable_buffer m va n" using relocated_same [OF relocated_touched [OF m(1)] assms(6)] assms(7) by simp_all
  then obtain m' where m': "System2User va (int n) (?cs @ drop n ?buf) ?s = ret (int n) (?s\<lparr>cpu := m'\<rparr>)"
      "user_string m' va n ?cs"
    using System2User_ok [of ?s va n ?cs "drop n ?buf"] assms(5,8) cs(1) by auto
  have id: "int fileID \<noteq> 0" using assms(2) by (simp add: opened_def)
  have "Read_file h va (int n) (int fileID) s = ret () (?s\<lparr>cpu := set_reg 2 (word_of_nat n) m'\<rparr>)"
    using opened_steps(1) [OF assms(2)] m(2) w(1) put buf m'(1) id assms(5)
    by (simp add: Read_file_def after_app on_host_def check_def WriteReg_small NumTotalRegs_def del: drop_append take_append)
  moreover have "user_string (set_reg 2 (word_of_nat n) m') va n ?cs"
    using m'(2) by simp
  ultimately show ?thesis by (auto simp: set_reg_def)
qed

section \<open>Writing and reading back\<close>

text \<open>The program has run between two system calls: what is the kernel's and the host's is as it was.\<close>

definition resumes :: "'w system \<Rightarrow> 'w system \<Rightarrow> bool" where
  "resumes s t \<longleftrightarrow> ListFile t = ListFile s \<and> world t = world s"

text \<open>The program traps with the number of a system call in register 2 and the arguments from register 4 on.\<close>

definition asks :: "'w system \<Rightarrow> u32 \<Rightarrow> u32 list \<Rightarrow> bool" where
  "asks s call args \<longleftrightarrow> registers (cpu s) 2 = call \<and> (\<forall>i < length args. registers (cpu s) (4 + i) = args ! i)"

lemma asks_simps:
  "asks s call [a, b] \<longleftrightarrow> registers (cpu s) 2 = call \<and> registers (cpu s) 4 = a \<and> registers (cpu s) 5 = b"
  "asks s call [a, b, c] \<longleftrightarrow>
     registers (cpu s) 2 = call \<and> registers (cpu s) 4 = a \<and> registers (cpu s) 5 = b \<and> registers (cpu s) 6 = c"
  by (auto simp: asks_def less_Suc_eq numeral_eq_Suc)

lemma small_sint: "n < 2 ^ 31 \<Longrightarrow> sint (word_of_nat n :: u32) = int n"
  using s32_id [of "int n"] by (simp add: s32_def)

lemma handler_returns:
  assumes "m s = ret () s'" "registers (cpu s') 2 = v"
  shows "\<exists>t. after m (\<lambda>_. IncreasePC) s = Inr (Goes ((), t)) \<and> registers (cpu t) 2 = v \<and> resumes s' t \<and>
    (\<forall>va n cs. user_string (cpu t) va n cs = user_string (cpu s') va n cs)"
  using assms by (intro exI [of _ "s'\<lparr>cpu := returned (cpu s')\<rparr>"])
    (simp add: after_app IncreasePC_ok, simp add: ret_def returned_def resumes_def reg_numbers)

lemma resumed: "resumes a b \<Longrightarrow> opened file b = opened file a"
  using opened_cong by (auto simp: resumes_def)

lemma Write_call:
  assumes "posix h file" "opened file s fileID f p bs" "p \<le> length bs" "p + n < 2 ^ 31 - 1" "0 < n"
    and "tables_ok (cpu s)" "asks s SC_Write [va, word_of_nat n, word_of_nat fileID]"
    and "user_string (cpu s) va n cs" "length cs = n"
  shows "\<exists>s'. ExceptionHandler h SyscallException s = Inr (Goes ((), s')) \<and> registers (cpu s') 2 = word_of_nat n \<and>
    opened file s' fileID (f\<lparr>currentOffset := int (p + n)\<rparr>) (p + n) (take p bs @ cs @ drop (p + n) bs)"
proof -
  have small: "n < 2 ^ 31" "fileID < 2 ^ 31" using assms(2,4) by (auto simp: opened_def)
  obtain s1 where s1: "Write_file h va (int n) (int fileID) s = ret () s1" "registers (cpu s1) 2 = word_of_nat n"
      "opened file s1 fileID (f\<lparr>currentOffset := int (p + n)\<rparr>) (p + n) (take p bs @ cs @ drop (p + n) bs)"
    using Write_file_ok [OF assms(1-6,8,9)] by blast
  obtain s' where s': "after (Write_file h va (int n) (int fileID)) (\<lambda>_. IncreasePC) s = Inr (Goes ((), s'))"
      "registers (cpu s') 2 = word_of_nat n" "resumes s1 s'"
    using handler_returns [where m = "Write_file h va (int n) (int fileID)", OF s1(1,2)] by blast
  show ?thesis using handler_calls(4) [of s h] assms(7) small_sint [OF small(1)] small_sint [OF small(2)] s' s1(3)
    by (simp add: asks_simps resumed [OF s'(3)])
qed

lemma Seek_call:
  assumes "posix h file" "opened file s fileID f p bs" "q \<le> length bs" "q < 2 ^ 31"
    and "asks s SC_Seek [word_of_nat q, word_of_nat fileID]"
  shows "\<exists>s'. ExceptionHandler h SyscallException s = Inr (Goes ((), s')) \<and> registers (cpu s') 2 = word_of_nat q \<and>
    opened file s' fileID (f\<lparr>currentOffset := int q\<rparr>) q bs"
proof -
  have small: "fileID < 2 ^ 31" using assms(2) by (simp add: opened_def)
  obtain s1 where s1: "Seek_file h (int q) (int fileID) s = ret () s1" "registers (cpu s1) 2 = word_of_nat q"
      "opened file s1 fileID (f\<lparr>currentOffset := int q\<rparr>) q bs"
    using Seek_file_ok [OF assms(1-3)] by blast
  obtain s' where s': "after (Seek_file h (int q) (int fileID)) (\<lambda>_. IncreasePC) s = Inr (Goes ((), s'))"
      "registers (cpu s') 2 = word_of_nat q" "resumes s1 s'"
    using handler_returns [where m = "Seek_file h (int q) (int fileID)", OF s1(1,2)] by blast
  show ?thesis using handler_calls(2) [of s h] assms(5) small_sint [OF assms(4)] small_sint [OF small] s' s1(3)
    by (simp add: asks_simps resumed [OF s'(3)])
qed

lemma Read_call:
  assumes "posix h file" "opened file s fileID f p bs" "p + n \<le> length bs" "p + n < 2 ^ 31 - 1" "0 < n"
    and "tables_ok (cpu s)" "writable_buffer (cpu s) va n" "0 \<notin> set (take n (drop p bs))"
    and "asks s SC_Read [va, word_of_nat n, word_of_nat fileID]"
  shows "\<exists>s'. ExceptionHandler h SyscallException s = Inr (Goes ((), s')) \<and> registers (cpu s') 2 = word_of_nat n \<and>
    user_string (cpu s') va n (take n (drop p bs))"
proof -
  have small: "n < 2 ^ 31" "fileID < 2 ^ 31" using assms(2,4) by (auto simp: opened_def)
  obtain s1 where s1: "Read_file h va (int n) (int fileID) s = ret () s1" "registers (cpu s1) 2 = word_of_nat n"
      "user_string (cpu s1) va n (take n (drop p bs))"
    using Read_file_ok [OF assms(1-8)] by blast
  obtain s' where s': "after (Read_file h va (int n) (int fileID)) (\<lambda>_. IncreasePC) s = Inr (Goes ((), s'))"
      "registers (cpu s') 2 = word_of_nat n" "user_string (cpu s') va n (take n (drop p bs))"
    using handler_returns [where m = "Read_file h va (int n) (int fileID)", OF s1(1,2)] s1(3) by blast
  show ?thesis using handler_calls(3) [of s h] assms(9) small_sint [OF small(1)] small_sint [OF small(2)] s'
    by (simp add: asks_simps)
qed

text \<open>
  C13: A program reads back what it wrote.  On a host that keeps files as UNIX does, \<open>Write\<close> of any bytes but zeros to an
  open file puts exactly these at the file's offset, the rest of the file staying as it is, and returns their number;
  and when the program later, wherever it has its buffer then, seeks back to that offset and reads as many bytes, it has
  the same bytes in its memory.
\<close>

theorem files_keep_what_is_written:
  assumes "posix h file" "opened file s fileID f p bs" "p \<le> length bs" "p + n < 2 ^ 31 - 1" "0 < n"
    and "tables_ok (cpu s)" "asks s SC_Write [va, word_of_nat n, word_of_nat fileID]"
    and "user_string (cpu s) va n cs" "length cs = n"
  shows "\<exists>s' f'. ExceptionHandler h SyscallException s = Inr (Goes ((), s')) \<and> registers (cpu s') 2 = word_of_nat n \<and>
    opened file s' fileID f' (p + n) (take p bs @ cs @ drop (p + n) bs) \<and>
    (\<forall>t. resumes s' t \<and> asks t SC_Seek [word_of_nat p, word_of_nat fileID] \<longrightarrow>
      (\<exists>t'. ExceptionHandler h SyscallException t = Inr (Goes ((), t')) \<and> registers (cpu t') 2 = word_of_nat p \<and>
        (\<forall>u va'. resumes t' u \<and> tables_ok (cpu u) \<and> asks u SC_Read [va', word_of_nat n, word_of_nat fileID] \<and>
            writable_buffer (cpu u) va' n \<longrightarrow>
          (\<exists>u'. ExceptionHandler h SyscallException u = Inr (Goes ((), u')) \<and> registers (cpu u') 2 = word_of_nat n \<and>
            user_string (cpu u') va' n cs))))"
proof -
  let ?bs = "take p bs @ cs @ drop (p + n) bs"
  have bs: "p + n \<le> length ?bs" "take n (drop p ?bs) = cs" "p \<le> length ?bs" "p < 2 ^ 31" "0 \<notin> set (take n (drop p ?bs))"
    using assms(3,4,8,9) by (simp_all add: user_string_def)
  obtain s' f' where s': "ExceptionHandler h SyscallException s = Inr (Goes ((), s'))" "registers (cpu s') 2 = word_of_nat n"
      "opened file s' fileID f' (p + n) ?bs"
    using Write_call [OF assms] by blast
  have "\<exists>t'. ExceptionHandler h SyscallException t = Inr (Goes ((), t')) \<and> registers (cpu t') 2 = word_of_nat p \<and>
        (\<forall>u va'. resumes t' u \<and> tables_ok (cpu u) \<and> asks u SC_Read [va', word_of_nat n, word_of_nat fileID] \<and>
            writable_buffer (cpu u) va' n \<longrightarrow>
          (\<exists>u'. ExceptionHandler h SyscallException u = Inr (Goes ((), u')) \<and> registers (cpu u') 2 = word_of_nat n \<and>
            user_string (cpu u') va' n cs))"
    if t: "resumes s' t" "asks t SC_Seek [word_of_nat p, word_of_nat fileID]" for t
  proof -
    have "opened file t fileID f' (p + n) ?bs" unfolding resumed [OF t(1)] by (rule s'(3))
    then obtain t' where t': "ExceptionHandler h SyscallException t = Inr (Goes ((), t'))"
        "registers (cpu t') 2 = word_of_nat p" "opened file t' fileID (f'\<lparr>currentOffset := int p\<rparr>) p ?bs"
      using Seek_call [OF assms(1) _ bs(3,4) t(2)] by blast
    have "opened file u fileID (f'\<lparr>currentOffset := int p\<rparr>) p ?bs" if "resumes t' u" for u
      unfolding resumed [OF that] by (rule t'(3))
    then show ?thesis using t'(1,2) Read_call [OF assms(1) _ bs(1) assms(4,5) _ _ bs(5)] unfolding bs(2) by blast
  qed
  with s' show ?thesis by blast
qed

text \<open>A host with one file, which every descriptor stands for.\<close>

definition one_file :: "(u8 list \<times> nat) host" where
  "one_file = \<lparr>h_open = \<lambda>_ _ w. (3, w),
     h_read = \<lambda>_ n (bs, off). ((int (min (nat n) (length bs - off)), take (nat n) (drop off bs)),
       bs, off + min (nat n) (length bs - off)),
     h_write = \<lambda>_ data (bs, off). (int (length data), take off bs @ data @ drop (off + length data) bs, off + length data),
     h_lseek = \<lambda>_ n whence (bs, off). (unix_base whence bs off + n, bs, nat (unix_base whence bs off + n)),
     h_close = \<lambda>_ w. (0, w), h_unlink = \<lambda>_ w. (0, w), h_random = \<lambda>w. (7, w), h_usable = \<lambda>n. n, h_garbage = \<lambda>_. 0\<rparr>"

lemma one_file_posix: "posix one_file (\<lambda>w _. Some w)"
  by (simp add: posix_def one_file_def)

definition file_example :: "(u8 list \<times> nat) system" where
  "file_example =
     \<lparr>cpu = cpu (example_system ((\<lambda>_. 0)(2 := SC_Write, 4 := 0, 5 := 2, 6 := 2)) []), console_in = [], console_out = [],
      ListFile = Some (UnixFile [] 0) # Some (UnixFile [] 1) # Some (UnixFile [] 3) # replicate 17 None,
      world = ([1, 2, 3], 0)\<rparr>"

theorem files_keep_what_is_written_witness:
  "\<exists>s' f'. ExceptionHandler one_file SyscallException file_example = Inr (Goes ((), s')) \<and> registers (cpu s') 2 = 2 \<and>
    opened (\<lambda>w _. Some w) s' 2 f' 2 [104, 105, 3]"
proof -
  have o: "opened (\<lambda>w _. Some w) file_example 2 (UnixFile [] 3) 0 [1, 2, 3]"
    by (simp add: opened_def file_at_def file_example_def UnixFile_def)
  have str: "user_string (cpu file_example) 0 2 [104, 105]"
    using example_bytes [of "(\<lambda>_. 0)(2 := SC_Write, 4 := 0, 5 := 2, 6 := 2)" "[]"]
    by (auto simp: user_string_def file_example_def less_Suc_eq)
  have asks: "asks file_example SC_Write [0, word_of_nat 2, word_of_nat 2]" by (simp add: asks_simps file_example_def)
  have tables: "tables_ok (cpu file_example)" using example_system_ok by (simp add: file_example_def)
  show ?thesis
    using files_keep_what_is_written [OF one_file_posix o _ _ _ tables asks str] by (auto simp flip: numeral_2_eq_2)
qed

end
