(* ===== verification/Addr_Space.thy ===== *)
theory Addr_Space
  imports Syscalls Mips
begin

text \<open>
  Address spaces and user programs: \<open>userprog/addrspace.h\<close>, \<open>userprog/addrspace.cc\<close>, the object code format of
  \<open>userprog/noff.h\<close> (as built with \<open>RDATA\<close>) and \<open>Machine::Run\<close>, with the system calls of the kernel behind it.

  The page table of a space is what the machine is told to use when the program starts; from then on the
  machine sets its use and dirty bits.
\<close>

section \<open>The object code format\<close>

definition NOFFMAGIC :: u32 where "NOFFMAGIC = 0xbadfad"

record segment =
  virtualAddr :: u32
  inFileAddr :: u32
  size_of :: u32

record noff_header =
  noffMagic :: u32
  code :: segment
  initData :: segment
  readonlyData :: segment
  uninitData :: segment

text \<open>A structure of 13 \<open>int\<close>s.\<close>

definition words_segment :: "u32 list \<Rightarrow> segment" where
  "words_segment ws = \<lparr>virtualAddr = ws ! 0, inFileAddr = ws ! 1, size_of = ws ! 2\<rparr>"

definition sizeof_noff :: int where "sizeof_noff = 52"

definition image_noff :: "u8 list \<Rightarrow> noff_header" where
  "image_noff bs =
     (let ws = bytes_words 13 bs in
      \<lparr>noffMagic = hd ws, code = words_segment (drop 1 ws), initData = words_segment (drop 4 ws),
       readonlyData = words_segment (drop 7 ws), uninitData = words_segment (drop 10 ws)\<rparr>)"

definition Swap_segment :: "segment \<Rightarrow> segment" where
  "Swap_segment g =
     \<lparr>virtualAddr = WordToHost (virtualAddr g), inFileAddr = WordToHost (inFileAddr g), size_of = WordToHost (size_of g)\<rparr>"

definition SwapHeader :: "noff_header \<Rightarrow> noff_header" where
  "SwapHeader n =
     \<lparr>noffMagic = WordToHost (noffMagic n), code = Swap_segment (code n), initData = Swap_segment (initData n),
      readonlyData = Swap_segment (readonlyData n), uninitData = Swap_segment (uninitData n)\<rparr>"

section \<open>Address spaces\<close>

record addr_space =
  space_table :: "translation_entry list"
  numPages :: u32

definition UserStackSize :: u32 where "UserStackSize = 1024"

text \<open>The constructor leaves \<open>numPages\<close> as it finds it, and clears main memory.\<close>

definition identity_entry :: "nat \<Rightarrow> translation_entry" where
  "identity_entry i =
     \<lparr>te_virtualPage = word_of_nat i, te_physicalPage = word_of_nat i, te_valid = True, te_readOnly = False,
      te_use = False, te_dirty = False\<rparr>"

definition AddrSpace_AddrSpace :: "u32 \<Rightarrow> machine \<Rightarrow> addr_space \<times> machine" where
  "AddrSpace_AddrSpace garbage m =
     (\<lparr>space_table = map identity_entry [0..<NumPhysPages], numPages = garbage\<rparr>,
      m\<lparr>mainMemory := (\<lambda>a. if a < MemorySize then 0 else mainMemory m a)\<rparr>)"

text \<open>\<open>read\<close> into main memory: the bytes it delivers are stored from \<open>mainMemory[a]\<close> on.\<close>

definition memory_put :: "(nat \<Rightarrow> u8) \<Rightarrow> int \<Rightarrow> u8 list \<Rightarrow> (nat \<Rightarrow> u8) res" where
  "memory_put mem a bs =
     (if bs = [] then Inr mem
      else if 0 \<le> a \<and> a + int (length bs) \<le> int MemorySize
      then Inr (\<lambda>p. if nat a \<le> p \<and> p < nat a + length bs then bs ! (p - nat a) else mem p)
      else Inl OutOfBounds)"

definition load_segment :: "'w host \<Rightarrow> unix_file \<Rightarrow> segment \<Rightarrow> machine \<Rightarrow> 'w \<Rightarrow> (machine \<times> 'w) res" where
  "load_segment h executable g m w =
     (if sint (size_of g) > 0 then
        bindr (UnixFile_ReadAt h (sint (size_of g)) (sint (inFileAddr g)) executable w) (\<lambda>((_, bs), w).
        bindr (memory_put (mainMemory m) (sint (virtualAddr g)) bs) (\<lambda>mem. Inr (m\<lparr>mainMemory := mem\<rparr>, w)))
      else Inr (m, w))"

definition pages_needed :: "noff_header \<Rightarrow> u32" where
  "pages_needed n =
     (let size = size_of (code n) + size_of (readonlyData n) + size_of (initData n) + size_of (uninitData n) + UserStackSize
      in word_of_int (divRoundUp (uint size) (int PageSize)))"

text \<open>\<open>garbage\<close> is what the header structure holds before it is read.\<close>

definition AddrSpace_Load ::
    "'w host \<Rightarrow> u8 list \<Rightarrow> u8 list \<Rightarrow> addr_space \<Rightarrow> machine \<Rightarrow> 'w \<Rightarrow> ((bool \<times> addr_space \<times> machine) \<times> 'w) res" where
  "AddrSpace_Load h garbage name a m w =
     bindr (Unix_Open h name w) (\<lambda>(executable, w).
     case executable of
       None \<Rightarrow> Inr ((False, a, m), w)
     | Some f \<Rightarrow>
         bindr (UnixFile_ReadAt h sizeof_noff 0 f w) (\<lambda>((_, bs), w).
         bindr (bytes_put garbage 0 bs) (\<lambda>bs.
         let noffH = image_noff bs;
             noffH = (if noffMagic noffH \<noteq> NOFFMAGIC \<and> WordToHost (noffMagic noffH) = NOFFMAGIC then SwapHeader noffH else noffH)
         in
         bindr (ASSERT (noffMagic noffH = NOFFMAGIC)) (\<lambda>_.
         let a = a\<lparr>numPages := pages_needed noffH\<rparr> in
         bindr (ASSERT (numPages a \<le> word_of_nat NumPhysPages)) (\<lambda>_.
         bindr (load_segment h f (code noffH) m w) (\<lambda>(m, w).
         bindr (load_segment h f (initData noffH) m w) (\<lambda>(m, w).
         bindr (load_segment h f (readonlyData noffH) m w) (\<lambda>(m, w).
         bindr (delete_UnixFile h f w) (\<lambda>w. Inr ((True, a, m), w))))))))))"

definition InitRegisters :: "addr_space \<Rightarrow> machine \<Rightarrow> machine res" where
  "InitRegisters a m =
     bindr (foldM (\<lambda>i m. Machine_WriteRegister m i 0) (upto_int (int NumTotalRegs)) m) (\<lambda>m.
     bindr (Machine_WriteRegister m (int PCReg) 0) (\<lambda>m.
     bindr (Machine_WriteRegister m (int NextPCReg) 4) (\<lambda>m.
     Machine_WriteRegister m (int StackReg) (numPages a * word_of_nat PageSize - 16))))"

definition AddrSpace_SaveState :: "addr_space \<Rightarrow> machine \<Rightarrow> machine" where "AddrSpace_SaveState a m = m"

definition AddrSpace_RestoreState :: "addr_space \<Rightarrow> machine \<Rightarrow> machine" where
  "AddrSpace_RestoreState a m = m\<lparr>pageTable := Some (space_table a), pageTableSize := numPages a\<rparr>"

text \<open>\<open>pfn\<close> is an \<open>int\<close>; \<open>*paddr\<close> is set only when the result is \<open>NoException\<close>.\<close>

definition AddrSpace_Translate :: "addr_space \<Rightarrow> u32 \<Rightarrow> bool \<Rightarrow> ((exception \<times> u32) \<times> addr_space) res" where
  "AddrSpace_Translate a vaddr isReadWrite =
     (let vpn = vaddr div word_of_nat PageSize; offset = vaddr mod word_of_nat PageSize in
      if vpn \<ge> numPages a then Inr ((AddressErrorException, 0), a)
      else
        bindr (aget (space_table a) (uint vpn)) (\<lambda>pte.
        if isReadWrite \<and> te_readOnly pte then Inr ((ReadOnlyException, 0), a)
        else
          let pfn = te_physicalPage pte in
          if sint pfn \<ge> int NumPhysPages then Inr ((BusErrorException, 0), a)
          else
            bindr (aset (space_table a) (uint vpn) (mark_used pte isReadWrite)) (\<lambda>t.
            let paddr = pfn * word_of_nat PageSize + offset in
            bindr (ASSERT (paddr < word_of_nat MemorySize)) (\<lambda>_. Inr ((NoException, paddr), a\<lparr>space_table := t\<rparr>)))))"

section \<open>Running user programs\<close>

text \<open>
  \<open>OneInstruction\<close> with the kernel behind it: a trap finishes the pending load and enters the exception handler,
  which works on the whole state.
\<close>

definition User_Instruction :: "'w host \<Rightarrow> ('w, unit) sys" where
  "User_Instruction h = (\<lambda>s.
     bindr (fetch_execute (cpu s)) (\<lambda>r.
     case r of
       Raise which badVAddr m \<Rightarrow>
         bindr (DelayedLoad (set_reg BadVAddrReg badVAddr m) 0 0) (\<lambda>m. ExceptionHandler h which (s\<lparr>cpu := m\<rparr>))
     | Advance m pcAfter nextLoadReg nextLoadValue \<Rightarrow>
         bindr (DelayedLoad m nextLoadReg nextLoadValue) (\<lambda>m.
         let m = set_reg PrevPCReg (registers m PCReg) m;
             m = set_reg PCReg (registers m NextPCReg) m in
         ret () (s\<lparr>cpu := set_reg NextPCReg pcAfter m\<rparr>))))"

text \<open>The first \<open>n\<close> rounds of \<open>Run\<close>, which only ends when the kernel halts.\<close>

primrec Machine_Run :: "nat \<Rightarrow> 'w host \<Rightarrow> ('w, unit) sys" where
  "Machine_Run 0 h = ret ()"
| "Machine_Run (Suc n) h = after (User_Instruction h) (\<lambda>_. Machine_Run n h)"

definition AddrSpace_Execute :: "nat \<Rightarrow> 'w host \<Rightarrow> addr_space \<Rightarrow> ('w, unit) sys" where
  "AddrSpace_Execute n h a = (\<lambda>s.
     bindr (InitRegisters a (cpu s)) (\<lambda>m. Machine_Run n h (s\<lparr>cpu := AddrSpace_RestoreState a m\<rparr>)))"

text \<open>The end of \<open>main\<close>: run the program of the option \<open>-x\<close>, or halt.\<close>

definition Run_program :: "nat \<Rightarrow> 'w host \<Rightarrow> u32 \<Rightarrow> u8 list \<Rightarrow> u8 list \<Rightarrow> ('w, unit) sys" where
  "Run_program n h garbage header name = (\<lambda>s.
     let (space, m) = AddrSpace_AddrSpace garbage (cpu s) in
     bindr (AddrSpace_Load h header name space m (world s)) (\<lambda>((loaded, space, m), w).
     let s = s\<lparr>cpu := m, world := w\<rparr> in
     if loaded then AddrSpace_Execute n h space s else SysHalt s))"

end
