(* ===== verification/Addr_Space_Correct.thy ===== *)
theory Addr_Space_Correct
  imports Addr_Space Syscalls_Correct
begin

text \<open>
  What holds of a user program from the moment it is loaded: where its segments end up, which memory it can
  reach, with its system calls included, and what an instruction can do to the kernel.
\<close>

section \<open>The start state\<close>

lemma zero_registers:
  "k \<le> NumTotalRegs \<Longrightarrow> foldM (\<lambda>i m. Machine_WriteRegister m i 0) (map int [0..<k]) m =
     Inr (m\<lparr>registers := (\<lambda>n. if n < k then 0 else registers m n)\<rparr>)"
proof (induction k)
  case (Suc k)
  have "(\<lambda>n. if n < k then 0 else registers m n)(k := 0) = (\<lambda>n. if n < Suc k then 0 else registers m n)"
    by (auto simp: less_Suc_eq)
  then show ?case using Suc by (simp add: Machine_WriteRegister_def set_reg_def)
qed simp

definition started :: "addr_space \<Rightarrow> machine \<Rightarrow> machine" where
  "started a m =
     AddrSpace_RestoreState a (set_reg StackReg (numPages a * word_of_nat PageSize - 16) (set_reg NextPCReg 4
       (m\<lparr>registers := (\<lambda>n. if n < NumTotalRegs then 0 else registers m n)\<rparr>)))"

lemma InitRegisters_started: "bindr (InitRegisters a m) (\<lambda>m. f (AddrSpace_RestoreState a m)) = f (started a m)"
proof -
  let ?m = "m\<lparr>registers := (\<lambda>n. if n < NumTotalRegs then 0 else registers m n)\<rparr>"
  have "set_reg PCReg 0 ?m = ?m" by (simp add: set_reg_def reg_numbers fun_upd_idem)
  then show ?thesis
    using zero_registers [of NumTotalRegs m]
    by (simp add: InitRegisters_def upto_int_def Machine_WriteRegister_def started_def reg_numbers)
qed

lemma Execute_started: "AddrSpace_Execute n h a s = Machine_Run n h (s\<lparr>cpu := started a (cpu s)\<rparr>)"
  using InitRegisters_started [of a "cpu s" "\<lambda>m. Machine_Run n h (s\<lparr>cpu := m\<rparr>)"] by (simp add: AddrSpace_Execute_def)

lemma started_fields [simp]:
  "mainMemory (started a m) = mainMemory m" "tlb (started a m) = tlb m"
  "pageTable (started a m) = Some (space_table a)" "pageTableSize (started a m) = numPages a"
  by (simp_all add: started_def AddrSpace_RestoreState_def)

lemma started_ok:
  assumes "tlb m = None" "unat (numPages a) \<le> length (space_table a)"
  shows "machine_ok (started a m)"
  using assms by (simp add: machine_ok_def tables_ok_def) (simp add: started_def AddrSpace_RestoreState_def reg_numbers)

section \<open>One instruction, with the kernel behind it\<close>

definition trap_of :: "machine \<Rightarrow> exception option" where
  "trap_of m = (case fetch_execute m of Inr (Raise which _ _) \<Rightarrow> Some which | _ \<Rightarrow> None)"

lemma User_Instruction_split:
  "User_Instruction h s = bindr (hardware_step (cpu s)) (\<lambda>m.
     case trap_of (cpu s) of None \<Rightarrow> ret () (s\<lparr>cpu := m\<rparr>) | Some which \<Rightarrow> ExceptionHandler h which (s\<lparr>cpu := m\<rparr>))"
proof (cases "fetch_execute (cpu s)")
  case (Inr r)
  then show ?thesis
    by (cases r) (simp_all add: User_Instruction_def hardware_step_def OneInstruction_def RaiseException_def trap_of_def
        Let_def bindr_assoc)
qed (simp add: User_Instruction_def hardware_step_def OneInstruction_def)

lemma trap_not_NoException: "machine_ok m \<Longrightarrow> trap_of m \<noteq> Some NoException"
  using fetch_execute_fine [of m] by (auto simp: trap_of_def machine_ok_def split: sum.splits exec.splits)

lemma handler_halts:
  assumes "exc \<noteq> NoException" "exc \<noteq> SyscallException"
  shows "ExceptionHandler h exc s = Inr Halts"
  using assms by (cases exc) (simp_all add: ExceptionHandler_def after_step [OF ReadReg_small] NumTotalRegs_def SysHalt_def halt_def)

abbreviation call_registers :: "nat set" where "call_registers \<equiv> {2, PCReg, NextPCReg, PrevPCReg}"

lemma framed_returned: "framed {2} s s1 \<Longrightarrow> framed call_registers s (s1\<lparr>cpu := returned (cpu s1)\<rparr>)"
  by (simp add: framed_def returned_def same_protection_def)

lemma keeps_handler:
  assumes "exc \<noteq> NoException"
  shows "keeps (framed call_registers) (ExceptionHandler h exc)"
proof (cases "exc = SyscallException")
  case False
  show ?thesis by (simp add: keeps_def handler_halts [OF assms False])
next
  case True
  have "framed call_registers s s'" if a: "ExceptionHandler h exc s = Inr (Goes ((), s'))" for s s'
  proof (cases "registers (cpu s) 2 \<in> system_calls")
    case c: True
    have "syscall h (registers (cpu s) 2) s = Inr (Goes ((), s'))" using a True by (simp add: handler_syscall)
    then obtain s1 where "framed {2} s s1" "s' = s1\<lparr>cpu := returned (cpu s1)\<rparr>"
      using returns_syscall [OF c, of h] unfolding returns_def by blast
    then show ?thesis using framed_returned by blast
  next
    case False
    then have "syscall h (registers (cpu s) 2) s = (if registers (cpu s) 2 = SC_Halt then SysHalt else ret ()) s"
      by (simp add: syscall_def system_calls_def)
    then have "s' = s" using a True by (simp add: handler_syscall SysHalt_def halt_def ret_def split: if_splits)
    then show ?thesis by (simp add: fr.refl)
  qed
  then show ?thesis by (auto simp: keeps_def)
qed

lemma User_Instruction_frame:
  assumes "machine_ok (cpu s)" "User_Instruction h s = Inr (Goes ((), s'))"
  shows "machine_ok (cpu s') \<and> mem_frame (cpu s) (cpu s') \<and> same_protection (cpu s) (cpu s')"
proof -
  obtain m where m: "hardware_step (cpu s) = Inr m"
    and r: "(case trap_of (cpu s) of None \<Rightarrow> ret () (s\<lparr>cpu := m\<rparr>) | Some which \<Rightarrow> ExceptionHandler h which (s\<lparr>cpu := m\<rparr>)) =
      Inr (Goes ((), s'))" using assms(2) by (auto simp: User_Instruction_split bindr_Inr_iff)
  note f = hardware_step_frame [OF assms(1) m]
  show ?thesis
  proof (cases "trap_of (cpu s)")
    case None
    then show ?thesis using f r by (simp add: ret_Goes)
  next
    case (Some exc)
    then have "framed call_registers (s\<lparr>cpu := m\<rparr>) s'"
      using keepsD [OF keeps_handler] r trap_not_NoException [OF assms(1)] by fastforce
    then have g: "tables_ok (cpu s')" "same_protection m (cpu s')" "mem_frame m (cpu s')"
      "registers (cpu s') 0 = registers m 0" "registers (cpu s') LoadReg = registers m LoadReg"
      using f by (simp_all add: framed_def machine_ok_def reg_numbers)
    have "tables_ok (cpu s)" using assms(1) by (simp add: machine_ok_def)
    then show ?thesis using f g mem_frame_trans same_protection_trans by (simp add: machine_ok_def) blast
  qed
qed

lemma Run_frame:
  "machine_ok (cpu s) \<Longrightarrow> Machine_Run n h s = Inr (Goes ((), s')) \<Longrightarrow>
   machine_ok (cpu s') \<and> mem_frame (cpu s) (cpu s') \<and> same_protection (cpu s) (cpu s')"
proof (induction n arbitrary: s)
  case (Suc n)
  then obtain s1 where s1: "User_Instruction h s = Inr (Goes ((), s1))" "Machine_Run n h s1 = Inr (Goes ((), s'))"
    by (auto simp: after_Goes)
  note a = User_Instruction_frame [OF Suc.prems(1) s1(1)]
  with Suc.IH [OF _ s1(2)] have "machine_ok (cpu s')" "mem_frame (cpu s1) (cpu s')" "same_protection (cpu s1) (cpu s')"
    by auto
  with a show ?case using mem_frame_trans same_protection_trans Suc.prems(1) by (simp add: machine_ok_def) blast
qed (simp add: ret_Goes)

section \<open>Loading\<close>

text \<open>What UNIX does for a file that can be opened, read from any place and closed, and never changes.\<close>

definition serves :: "'w host \<Rightarrow> u8 list \<Rightarrow> int \<Rightarrow> u8 list \<Rightarrow> bool" where
  "serves h name fd file \<longleftrightarrow>
     0 \<le> fd \<and> (\<forall>w. fst (h_open h name False w) = fd \<and> 0 \<le> fst (h_close h fd w)) \<and>
     (\<forall>w pos n. 0 \<le> pos \<longrightarrow> 0 \<le> n \<longrightarrow> (\<exists>w1 w2. h_lseek h fd pos 0 w = (pos, w1) \<and>
        h_read h fd n w1 = ((int (length (take (nat n) (drop (nat pos) file))), take (nat n) (drop (nat pos) file)), w2)))"

lemma serves_ReadAt:
  assumes "serves h name fd file" "0 \<le> pos" "0 \<le> n"
  obtains w' where "UnixFile_ReadAt h n pos (UnixFile [] fd) w =
    Inr ((int (length (take (nat n) (drop (nat pos) file))), take (nat n) (drop (nat pos) file)), w')"
proof -
  obtain w1 w2 where "h_lseek h fd pos 0 w = (pos, w1)"
    "h_read h fd n w1 = ((int (length (take (nat n) (drop (nat pos) file))), take (nat n) (drop (nat pos) file)), w2)"
    using assms unfolding serves_def by blast
  then show thesis using that [of w2] assms(2)
    by (simp add: UnixFile_ReadAt_def UnixFile_def Lseek_def ReadPartial_def)
qed

lemma serves_delete:
  assumes "serves h name fd file"
  obtains w' where "delete_UnixFile h (UnixFile [] fd) w = Inr w'"
proof -
  obtain r w1 where c: "h_close h fd w = (r, w1)" by fastforce
  then have "0 \<le> r" using assms unfolding serves_def by (metis fst_conv)
  with c show thesis using that [of w1] by (simp add: delete_UnixFile_def Close_def UnixFile_def)
qed

text \<open>A segment as the code lays it over memory, and when it lies inside the file and inside memory.\<close>

definition overlay :: "u8 list \<Rightarrow> segment \<Rightarrow> (nat \<Rightarrow> u8) \<Rightarrow> nat \<Rightarrow> u8" where
  "overlay file g mem p =
     (if unat (virtualAddr g) \<le> p \<and> p < unat (virtualAddr g) + unat (size_of g)
      then file ! (unat (inFileAddr g) + (p - unat (virtualAddr g))) else mem p)"

definition segment_fits :: "u8 list \<Rightarrow> segment \<Rightarrow> bool" where
  "segment_fits file g \<longleftrightarrow> size_of g = 0 \<or>
     unat (virtualAddr g) + unat (size_of g) \<le> MemorySize \<and> unat (inFileAddr g) + unat (size_of g) \<le> length file \<and>
     length file < 2 ^ 31"

lemma memory_put_at:
  "bs \<noteq> [] \<Longrightarrow> k + length bs \<le> MemorySize \<Longrightarrow>
   memory_put mem (int k) bs = Inr (\<lambda>p. if k \<le> p \<and> p < k + length bs then bs ! (p - k) else mem p)"
  by (simp add: memory_put_def fun_eq_iff)

lemma load_segment_ok:
  assumes "serves h name fd file" "segment_fits file g"
  shows "\<exists>w'. load_segment h (UnixFile [] fd) g m w = Inr (m\<lparr>mainMemory := overlay file g (mainMemory m)\<rparr>, w')"
proof -
  show ?thesis
  proof (cases "size_of g = 0")
    case True
    then have "overlay file g (mainMemory m) = mainMemory m" by (auto simp: overlay_def fun_eq_iff)
    then show ?thesis using True by (simp add: load_segment_def)
  next
    case False
    then have pos: "0 < unat (size_of g)" by (simp add: unat_gt_0)
    have small: "unat (size_of g) < 2147483648" "unat (inFileAddr g) < 2147483648" "unat (virtualAddr g) < 2147483648"
      using assms(2) False by (simp_all add: segment_fits_def mem_sizes)
    note s = small [THEN signed_small]
    let ?bs = "take (unat (size_of g)) (drop (unat (inFileAddr g)) file)"
    obtain w' where r: "UnixFile_ReadAt h (int (unat (size_of g))) (int (unat (inFileAddr g))) (UnixFile [] fd) w =
        Inr ((int (length ?bs), ?bs), w')"
      using serves_ReadAt [OF assms(1), of "int (unat (inFileAddr g))" "int (unat (size_of g))" w] by auto
    have len: "length ?bs = unat (size_of g)" using assms(2) False by (auto simp: segment_fits_def min_def)
    have "memory_put (mainMemory m) (int (unat (virtualAddr g))) ?bs = Inr (overlay file g (mainMemory m))"
      using memory_put_at [of ?bs "unat (virtualAddr g)" "mainMemory m"] assms(2) False pos len
      by (auto simp: segment_fits_def overlay_def fun_eq_iff)
    moreover have "0 < uint (size_of g)" using pos unfolding uint_nat by linarith
    ultimately show ?thesis by (simp only: load_segment_def s r) simp
  qed
qed

definition total_size :: "noff_header \<Rightarrow> int" where
  "total_size n = uint (size_of (code n)) + uint (size_of (readonlyData n)) + uint (size_of (initData n)) +
     uint (size_of (uninitData n)) + 1024"

lemma pages_needed_ok:
  assumes "total_size n \<le> int MemorySize"
  shows "unat (pages_needed n) = nat (divRoundUp (total_size n) (int PageSize))" "unat (pages_needed n) \<le> NumPhysPages"
proof -
  let ?t = "total_size n"
  have nn: "0 \<le> ?t" by (simp add: total_size_def)
  have "uint (size_of (code n) + size_of (readonlyData n) + size_of (initData n) + size_of (uninitData n) + UserStackSize) =
      ?t mod 2 ^ 32"
    by (simp add: total_size_def UserStackSize_def uint_word_ariths mod_simps)
  also have "\<dots> = ?t" using nn assms by (simp add: mem_sizes)
  finally have e: "pages_needed n = word_of_int (divRoundUp ?t (int PageSize))" by (simp add: pages_needed_def)
  have b: "?t \<le> divRoundUp ?t 128 * 128" "divRoundUp ?t 128 * 128 < ?t + 128" "0 \<le> divRoundUp ?t 128"
    using divRoundUp_bounds [OF nn, of 128] by simp_all
  then have le: "divRoundUp ?t 128 \<le> 128" using assms by (simp add: mem_sizes)
  then have "uint (pages_needed n) = divRoundUp ?t 128"
    unfolding e using b(3) by (simp add: PageSize_def uint_word_of_int)
  then have u: "unat (pages_needed n) = nat (divRoundUp ?t 128)" by (simp flip: nat_uint_eq)
  show "unat (pages_needed n) = nat (divRoundUp ?t (int PageSize))" "unat (pages_needed n) \<le> NumPhysPages"
    using u le b(3) by (simp_all add: PageSize_def NumPhysPages_def)
qed

text \<open>The header as \<open>Load\<close> reads it, up to the first segment.\<close>

lemma Load_header:
  assumes "serves h name fd file" "length header = 52" "52 \<le> length file"
    and "noffMagic (image_noff (take 52 file)) = NOFFMAGIC"
  obtains w' where "AddrSpace_Load h header name a m w =
    (let n = image_noff (take 52 file); a = a\<lparr>numPages := pages_needed n\<rparr> in
     bindr (ASSERT (numPages a \<le> word_of_nat NumPhysPages)) (\<lambda>_.
     bindr (load_segment h (UnixFile [] fd) (code n) m w') (\<lambda>(m, w).
     bindr (load_segment h (UnixFile [] fd) (initData n) m w) (\<lambda>(m, w).
     bindr (load_segment h (UnixFile [] fd) (readonlyData n) m w) (\<lambda>(m, w).
     bindr (delete_UnixFile h (UnixFile [] fd) w) (\<lambda>w. Inr ((True, a, m), w)))))))"
proof -
  obtain w0 where o: "h_open h name False w = (fd, w0)" "0 \<le> fd"
    using assms(1) unfolding serves_def by (metis prod.collapse)
  then have op: "Unix_Open h name w = Inr (Some (UnixFile [] fd), w0)"
    by (simp add: Unix_Open_def OpenForReadWrite_def)
  obtain w1 where r: "UnixFile_ReadAt h 52 0 (UnixFile [] fd) w0 = Inr ((int (length (take 52 file)), take 52 file), w1)"
    using serves_ReadAt [OF assms(1), of 0 52 w0] by auto
  have p: "bytes_put header 0 (take 52 file) = Inr (take 52 file)" using assms(2,3) by (simp add: bytes_put_def)
  show thesis
    by (rule that [of w1]) (simp add: AddrSpace_Load_def op r p sizeof_noff_def assms(4) Let_def)
qed

lemma Load_ok:
  assumes "serves h name fd file" "length header = 52" "52 \<le> length file" "n = image_noff (take 52 file)"
    and "noffMagic n = NOFFMAGIC" "total_size n \<le> int MemorySize"
    and "segment_fits file (code n)" "segment_fits file (initData n)" "segment_fits file (readonlyData n)"
  shows "\<exists>w'. AddrSpace_Load h header name a m w = Inr ((True, a\<lparr>numPages := pages_needed n\<rparr>,
      m\<lparr>mainMemory := overlay file (readonlyData n) (overlay file (initData n) (overlay file (code n) (mainMemory m)))\<rparr>), w') \<and>
    unat (pages_needed n) = nat (divRoundUp (total_size n) (int PageSize))"
proof -
  let ?m1 = "m\<lparr>mainMemory := overlay file (code n) (mainMemory m)\<rparr>"
  let ?m2 = "m\<lparr>mainMemory := overlay file (initData n) (mainMemory ?m1)\<rparr>"
  let ?m3 = "m\<lparr>mainMemory := overlay file (readonlyData n) (mainMemory ?m2)\<rparr>"
  obtain w0 where h: "AddrSpace_Load h header name a m w =
    (let n = image_noff (take 52 file); a = a\<lparr>numPages := pages_needed n\<rparr> in
     bindr (ASSERT (numPages a \<le> word_of_nat NumPhysPages)) (\<lambda>_.
     bindr (load_segment h (UnixFile [] fd) (code n) m w0) (\<lambda>(m, w).
     bindr (load_segment h (UnixFile [] fd) (initData n) m w) (\<lambda>(m, w).
     bindr (load_segment h (UnixFile [] fd) (readonlyData n) m w) (\<lambda>(m, w).
     bindr (delete_UnixFile h (UnixFile [] fd) w) (\<lambda>w. Inr ((True, a, m), w)))))))"
    using Load_header [OF assms(1-3)] assms(4,5) by metis
  note p = pages_needed_ok [OF assms(6)]
  have q: "pages_needed n \<le> word_of_nat NumPhysPages" using p(2) by (simp add: word_le_nat_alt mem_sizes)
  obtain w1 w2 w3 where l: "load_segment h (UnixFile [] fd) (code n) m w0 = Inr (?m1, w1)"
    "load_segment h (UnixFile [] fd) (initData n) ?m1 w1 = Inr (?m2, w2)"
    "load_segment h (UnixFile [] fd) (readonlyData n) ?m2 w2 = Inr (?m3, w3)"
    using load_segment_ok [OF assms(1,7), of m w0] load_segment_ok [OF assms(1,8), of ?m1]
      load_segment_ok [OF assms(1,9), of ?m2] by fastforce
  obtain w4 where "delete_UnixFile h (UnixFile [] fd) w3 = Inr w4"
    using serves_delete [OF assms(1)] .
  then have "AddrSpace_Load h header name a m w = Inr ((True, a\<lparr>numPages := pages_needed n\<rparr>, ?m3), w4)"
    by (simp add: h Let_def flip: assms(4)) (simp add: q l [simplified])
  then show ?thesis using p(1) by simp
qed

lemma load_segment_tables:
  "load_segment h f g m w = Inr (m', w') \<Longrightarrow> tlb m' = tlb m"
  by (auto simp: load_segment_def bindr_Inr_iff split: if_splits prod.splits)

lemma Load_result:
  assumes "AddrSpace_Load h header name a m w = Inr ((True, a', m'), w')"
  shows "space_table a' = space_table a" "unat (numPages a') \<le> NumPhysPages" "tlb m' = tlb m"
proof -
  from assms obtain n f w1 m1 w2 m2 w3 m3 w4 where
    a': "a' = a\<lparr>numPages := pages_needed n\<rparr>" "pages_needed n \<le> word_of_nat NumPhysPages" and
    l: "load_segment h f (code n) m w1 = Inr (m1, w2)" "load_segment h f (initData n) m1 w2 = Inr (m2, w3)"
      "load_segment h f (readonlyData n) m2 w3 = Inr (m', w4)"
    by (auto simp: AddrSpace_Load_def Let_def bindr_Inr_iff split: option.splits)
  show "tlb m' = tlb m" using l [THEN load_segment_tables] by simp
  show "space_table a' = space_table a" "unat (numPages a') \<le> NumPhysPages"
    using a' by (simp_all add: word_le_nat_alt mem_sizes)
qed

lemma identity_mapping:
  assumes "tlb m = None" "unat (numPages a) \<le> NumPhysPages" "space_table a = map identity_entry [0..<NumPhysPages]"
    and "mapping (started a m) vpn = Some e"
  shows "vpn < numPages a \<and> e = identity_entry (unat vpn)"
proof -
  from assms(1,4) have v: "vpn < numPages a" "space_table a ! unat vpn = e"
    by (simp_all add: mapping_def split: if_splits)
  then have "unat vpn < NumPhysPages" using assms(2) by (simp add: word_less_nat_alt)
  then show ?thesis using v assms(3) by auto
qed

section \<open>Properties\<close>

lemma array_at: "k < length xs \<Longrightarrow> aget xs (int k) = Inr (xs ! k)" "k < length xs \<Longrightarrow> aset xs (int k) x = Inr (xs[k := x])"
  by simp_all

text \<open>A host on which every name opens the same file; its state is the position of the next read.\<close>

definition file_host :: "u8 list \<Rightarrow> int host" where
  "file_host file =
     \<lparr>h_open = \<lambda>_ _ w. (3, w),
      h_read = \<lambda>_ n w. let bs = take (nat n) (drop (nat w) file) in ((int (length bs), bs), w + int (length bs)),
      h_write = \<lambda>_ bs w. (int (length bs), w), h_lseek = \<lambda>_ pos _ _. (pos, pos), h_close = \<lambda>_ w. (0, w),
      h_unlink = \<lambda>_ w. (0, w), h_random = \<lambda>w. (7, w), h_usable = \<lambda>n. n, h_garbage = \<lambda>_. 0\<rparr>"

lemma file_host_serves: "serves (file_host file) name 3 file"
  by (simp add: serves_def file_host_def Let_def)

text \<open>An object file: a header with the given code segment and no other, and the code.\<close>

definition object_file :: "u32 \<Rightarrow> u32 \<Rightarrow> u8 list \<Rightarrow> u8 list" where
  "object_file va n bytes = words_bytes ([NOFFMAGIC, va, 52, n] @ replicate 9 0) @ bytes"

lemma object_header:
  "image_noff (take 52 (object_file va n bytes)) =
     \<lparr>noffMagic = NOFFMAGIC, code = \<lparr>virtualAddr = va, inFileAddr = 52, size_of = n\<rparr>,
      initData = \<lparr>virtualAddr = 0, inFileAddr = 0, size_of = 0\<rparr>,
      readonlyData = \<lparr>virtualAddr = 0, inFileAddr = 0, size_of = 0\<rparr>,
      uninitData = \<lparr>virtualAddr = 0, inFileAddr = 0, size_of = 0\<rparr>\<rparr>"
proof -
  let ?ws = "[NOFFMAGIC, va, 52, n] @ replicate 9 0"
  have "take 52 (object_file va n bytes) = words_bytes ?ws" by (simp add: object_file_def)
  moreover have "bytes_words 13 (words_bytes ?ws) = ?ws"
    using bytes_words_bytes_n [of ?ws 13 "[]"] by simp
  ultimately show ?thesis by (simp add: image_noff_def Let_def words_segment_def numeral_eq_Suc)
qed

lemma object_length: "length (object_file va n bytes) = 52 + length bytes"
  by (simp add: object_file_def)

text \<open>
  C21: \<open>Load\<close> puts a program where its header says.  For an object file whose segments lie inside the file and inside
  memory, and that fits memory with the stack, \<open>Load\<close> succeeds, the space gets as many pages as that needs, and
  main memory is what it was, overlaid with the code, the initialized data and the read-only data of the file.
\<close>

theorem Load_places_segments:
  assumes "serves h name fd file" "length header = 52" "52 \<le> length file" "n = image_noff (take 52 file)"
    and "noffMagic n = NOFFMAGIC" "total_size n \<le> int MemorySize"
    and "segment_fits file (code n)" "segment_fits file (initData n)" "segment_fits file (readonlyData n)"
  shows "\<exists>w'. AddrSpace_Load h header name a m w = Inr ((True, a\<lparr>numPages := pages_needed n\<rparr>,
      m\<lparr>mainMemory := overlay file (readonlyData n) (overlay file (initData n) (overlay file (code n) (mainMemory m)))\<rparr>), w') \<and>
    unat (pages_needed n) = nat (divRoundUp (total_size n) (int PageSize))"
  by (rule Load_ok [OF assms])

theorem Load_places_segments_witness:
  "\<exists>a' m' w'. AddrSpace_Load (file_host (object_file 8 4 [1, 2, 3, 4])) (replicate 52 0) [] \<lparr>space_table = [], numPages = 0\<rparr>
     (Machine_Machine 0) 0 = Inr ((True, a', m'), w') \<and> unat (numPages a') = 9 \<and> mainMemory m' 10 = 3 \<and> mainMemory m' 12 = 0"
proof -
  let ?f = "object_file 8 4 [1, 2, 3, 4]"
  have l: "length ?f = 56" by (simp add: object_length)
  have d: "divRoundUp 1028 128 = 9" by (simp add: divRoundUp_def)
  have nth: "?f ! 54 = 3" by (simp add: object_file_def nth_append)
  from Load_places_segments [OF file_host_serves, of "replicate 52 0" ?f _ "[]" "\<lparr>space_table = [], numPages = 0\<rparr>" "Machine_Machine 0" 0]
  show ?thesis unfolding object_header
    using d nth by (auto simp: l total_size_def segment_fits_def mem_sizes overlay_def Machine_Machine_def)
qed

text \<open>
  C22: \<open>Load\<close> does not check where a segment goes.  The space may be small enough for memory, but when the bytes that
  the file has for the code segment do not fit between the segment's address and the end of main memory, \<open>Load\<close>
  writes them over whatever the kernel has behind (or before) it.
\<close>

theorem Load_overruns_memory:
  assumes "serves h name fd file" "length header = 52" "52 \<le> length file" "n = image_noff (take 52 file)"
    and "noffMagic n = NOFFMAGIC" "pages_needed n \<le> word_of_nat NumPhysPages"
    and "0 < sint (size_of (code n))" "0 \<le> sint (inFileAddr (code n))" "unat (inFileAddr (code n)) < length file"
    and "sint (virtualAddr (code n)) < 0 \<or>
      int MemorySize < sint (virtualAddr (code n)) + min (sint (size_of (code n))) (int (length file) - sint (inFileAddr (code n)))"
  shows "AddrSpace_Load h header name a m w = Inl OutOfBounds"
proof -
  let ?g = "code n" and ?f = "UnixFile [] fd"
  let ?bs = "take (nat (sint (size_of ?g))) (drop (nat (sint (inFileAddr ?g))) file)"
  have i: "nat (sint (inFileAddr ?g)) = unat (inFileAddr ?g)"
    unfolding unat_eq_nat_uint using assms(8) uint_nonneg [of "inFileAddr ?g"] by simp
  have len: "int (length ?bs) = min (sint (size_of ?g)) (int (length file) - sint (inFileAddr ?g))" "?bs \<noteq> []"
    using assms(7-9) i by auto
  have put: "memory_put (mainMemory m) (sint (virtualAddr ?g)) ?bs = Inl OutOfBounds" for m
    using assms(10) len by (auto simp: memory_put_def)
  have "load_segment h ?f ?g m w = Inl OutOfBounds" for m w
  proof -
    obtain w' where "UnixFile_ReadAt h (sint (size_of ?g)) (sint (inFileAddr ?g)) ?f w = Inr ((int (length ?bs), ?bs), w')"
      using serves_ReadAt [OF assms(1,8), of "sint (size_of ?g)" w] assms(7) by auto
    then show ?thesis using assms(7) by (simp add: load_segment_def put)
  qed
  moreover obtain w0 where "AddrSpace_Load h header name a m w =
    (let n = image_noff (take 52 file); a = a\<lparr>numPages := pages_needed n\<rparr> in
     bindr (ASSERT (numPages a \<le> word_of_nat NumPhysPages)) (\<lambda>_.
     bindr (load_segment h ?f (code n) m w0) (\<lambda>(m, w).
     bindr (load_segment h ?f (initData n) m w) (\<lambda>(m, w).
     bindr (load_segment h ?f (readonlyData n) m w) (\<lambda>(m, w).
     bindr (delete_UnixFile h ?f w) (\<lambda>w. Inr ((True, a, m), w)))))))"
    using Load_header [OF assms(1-3)] assms(4,5) by metis
  ultimately show ?thesis using assms(6) by (simp add: Let_def flip: assms(4))
qed

theorem Load_overruns_memory_witness:
  "AddrSpace_Load (file_host (object_file 16384 4 [1, 2, 3, 4])) (replicate 52 0) [] \<lparr>space_table = [], numPages = 0\<rparr>
     (Machine_Machine 0) 0 = Inl OutOfBounds"
proof -
  let ?f = "object_file 16384 4 [1, 2, 3, 4]"
  have l: "length ?f = 56" by (simp add: object_length)
  have p: "pages_needed (image_noff (take 52 ?f)) \<le> word_of_nat NumPhysPages"
    using pages_needed_ok(2) [of "image_noff (take 52 ?f)"]
    by (simp add: object_header total_size_def mem_sizes word_le_nat_alt)
  from Load_overruns_memory [OF file_host_serves _ _ refl _ p] show ?thesis
    unfolding object_header by (simp add: l mem_sizes)
qed

text \<open>
  C23: The kernel's address translation is the hardware's.  For a space whose pages are all valid and whose table the
  machine uses, \<open>AddrSpace::Translate\<close> gives the same exception, the same physical address and the same use and
  dirty bits as \<open>Machine::Translate\<close> for a byte.
\<close>

theorem AddrSpace_Translate_is_hardware:
  assumes "tlb m = None" "pageTable m = Some (space_table a)" "pageTableSize m = numPages a"
    and "unat (numPages a) \<le> length (space_table a)"
    and "\<forall>e\<in>set (space_table a). te_valid e \<and> 0 \<le> sint (te_physicalPage e)"
  shows "AddrSpace_Translate a va writing =
    bindr (Translate m va 1 writing) (\<lambda>(r, m'). Inr (r, a\<lparr>space_table := the (pageTable m')\<rparr>))"
proof (cases "va div word_of_nat PageSize \<ge> numPages a")
  case True
  then show ?thesis using assms(1-3) by (simp add: AddrSpace_Translate_def Translate_def Let_def)
next
  case False
  define vpn where "vpn = va div word_of_nat PageSize"
  let ?e = "space_table a ! unat vpn"
  have lt: "unat vpn < length (space_table a)" using False assms(4) unfolding vpn_def word_le_nat_alt by linarith
  have g: "aget (space_table a) (uint vpn) = Inr ?e"
    and st: "aset (space_table a) (uint vpn) x = Inr ((space_table a)[unat vpn := x])" for x
    by (subst uint_nat, rule array_at [OF lt])+
  have e: "te_valid ?e" "0 \<le> sint (te_physicalPage ?e)" using assms(5) lt by simp_all
  have frame: "int NumPhysPages \<le> sint (te_physicalPage ?e) \<longleftrightarrow> word_of_nat NumPhysPages \<le> te_physicalPage ?e"
    using uint_nonneg [of "te_physicalPage ?e"] e(2) by (simp add: word_le_def mem_sizes)
  show ?thesis
  proof (cases "word_of_nat NumPhysPages \<le> te_physicalPage ?e")
    case True
    then show ?thesis using False assms(1-3) e
      by (simp add: AddrSpace_Translate_def Translate_def Translate_entry_def Let_def frame g flip: vpn_def)
  next
    case f: False
    define pa where "pa = te_physicalPage ?e * word_of_nat PageSize + va mod word_of_nat PageSize"
    have u: "unat pa = unat (te_physicalPage ?e) * PageSize + unat va mod PageSize"
      unfolding pa_def using f by (intro physical_address) simp
    have "unat (te_physicalPage ?e) < 128" using f by (simp add: word_le_nat_alt mem_sizes)
    moreover have "unat va mod 128 < 128" by simp
    ultimately have p: "unat pa < MemorySize" using u by (simp add: mem_sizes)
    then have "sint pa = int (unat pa)" by (intro signed_small) (simp add: mem_sizes)
    with p have q: "0 \<le> sint pa" "sint pa + 1 \<le> int MemorySize" by linarith+
    have q': "pa < word_of_nat MemorySize" using p by (simp add: word_less_nat_alt mem_sizes)
    show ?thesis using False f assms(1-3) e q q'
      by (simp add: AddrSpace_Translate_def Translate_def Translate_entry_def Let_def frame g st flip: vpn_def pa_def)
  qed
qed

theorem AddrSpace_Translate_is_hardware_witness:
  "\<exists>a'. AddrSpace_Translate ((fst (AddrSpace_AddrSpace 9 (Machine_Machine 0)))) 300 True = Inr ((NoException, 300), a') \<and>
     te_dirty (space_table a' ! 2)"
proof -
  let ?a = "fst (AddrSpace_AddrSpace 9 (Machine_Machine 0))" and ?m = "started (fst (AddrSpace_AddrSpace 9 (Machine_Machine 0))) (Machine_Machine 0)"
  have t: "space_table ?a = map identity_entry [0..<NumPhysPages]" "numPages ?a = 9" "tlb ?m = None"
    by (simp_all add: AddrSpace_AddrSpace_def Machine_Machine_def)
  have "sint (word_of_nat i :: u32) = int i" if "i < 128" for i
    using that signed_small [of "word_of_nat i"] by (simp add: unat_of_nat)
  then have "\<forall>e\<in>set (space_table ?a). te_valid e \<and> 0 \<le> sint (te_physicalPage e)"
    by (auto simp: t identity_entry_def mem_sizes)
  from AddrSpace_Translate_is_hardware [OF t(3) _ _ _ this, of 300 True] have
    "AddrSpace_Translate ?a 300 True = bindr (Translate ?m 300 1 True) (\<lambda>(r, m'). Inr (r, ?a\<lparr>space_table := the (pageTable m')\<rparr>))"
    by (simp add: t mem_sizes)
  also have "Translate ?m 300 1 True = Inr ((NoException, 300), ?m\<lparr>pageTable := Some ((space_table ?a)[2 := mark_used (identity_entry 2) True])\<rparr>)"
  proof -
    have "aget (space_table ?a) 2 = Inr (identity_entry 2)" by (simp add: aget_def t mem_sizes numeral_2_eq_2)
    moreover have "aset (space_table ?a) 2 x = Inr ((space_table ?a)[2 := x])" for x by (simp add: aset_def t mem_sizes)
    ultimately show ?thesis using t by (simp add: Translate_def Translate_entry_def identity_entry_def mem_sizes Let_def)
  qed
  finally show ?thesis by (simp add: t mem_sizes mark_used_def)
qed

text \<open>
  C17: A running program stays in its own pages.  From the constructor through \<open>Load\<close> and \<open>Execute\<close>, whatever the
  file holds and whatever the program does in any number of instructions, system calls and interrupted accesses
  included, no byte of main memory beyond the pages of the space changes after the program is loaded.
\<close>

theorem program_confined:
  assumes "tlb (cpu s) = None" "AddrSpace_AddrSpace garbage (cpu s) = (a, m)"
    and "AddrSpace_Load h header name a m (world s) = Inr ((True, a', m'), w)"
    and "AddrSpace_Execute n h a' (s\<lparr>cpu := m', world := w\<rparr>) = Inr (Goes ((), s'))"
  shows "unat (numPages a') \<le> NumPhysPages \<and>
    (\<forall>p \<ge> unat (numPages a') * PageSize. mainMemory (cpu s') p = mainMemory m' p) \<and> machine_ok (cpu s')"
proof -
  note l = Load_result [OF assms(3)]
  have a: "space_table a = map identity_entry [0..<NumPhysPages]" "tlb m = None"
    using assms(1,2) by (auto simp: AddrSpace_AddrSpace_def)
  have ok: "machine_ok (started a' m')" using l a by (intro started_ok) simp_all
  have "Machine_Run n h (s\<lparr>world := w, cpu := started a' m'\<rparr>) = Inr (Goes ((), s'))"
    using assms(4) by (simp add: Execute_started)
  from Run_frame [OF _ this] ok have f: "machine_ok (cpu s')" "mem_frame (started a' m') (cpu s')" by simp_all
  have "mainMemory (cpu s') p = mainMemory m' p" if p: "unat (numPages a') * PageSize \<le> p" for p
  proof (rule ccontr)
    assume "mainMemory (cpu s') p \<noteq> mainMemory m' p"
    then obtain vpn e where e: "mapping (started a' m') vpn = Some e" "p div PageSize = unat (te_physicalPage e)"
      using f(2) by (auto simp: mem_frame_def writable_def)
    from identity_mapping [OF _ l(2) _ e(1)] l a have "vpn < numPages a'" "e = identity_entry (unat vpn)" by auto
    then have "p div PageSize < unat (numPages a')" using e(2) by (simp add: identity_entry_def word_less_nat_alt)
    then show False using p by (simp add: mem_sizes div_less_iff_less_mult)
  qed
  then show ?thesis using l(2) f(1) by blast
qed

lemma nop_fetch:
  assumes "machine_ok m" "translate_result m (registers m PCReg) 4 False = (NoException, pa)"
    and "read_value (mainMemory m) pa 4 = 0"
  obtains m1 v where "touched m m1" "fetch_execute m = Inr (Advance (set_reg 0 v m1) (registers m NextPCReg + 4) 0 0)"
proof -
  have "tables_ok m" using assms(1) by (simp add: machine_ok_def)
  from ReadMem_spec [OF this _ assms(2)] obtain m1 where m1: "touched m m1"
    "ReadMem m (registers m PCReg) 4 = Inr (Access 0 m1)" using assms(3) by auto
  have d: "opCode (Decode 0) = OP_SLL" "i_rd (Decode 0) = 0"
    by (simp_all add: Decode_def opTable_def specialTable_def)
  have e: "exec_switch i m pc = advance (set_reg (i_rd i) (push_bit (unat (i_extra i)) (registers m (i_rt i))) m) pc"
    if "opCode i = OP_SLL" for i m pc
    using that by (simp add: exec_switch_def exec_groups Let_def)
  have "registers m1 = registers m" using m1(1) by (simp add: touched_def)
  then have "fetch_execute m = Inr (Advance
      (set_reg 0 (push_bit (unat (i_extra (Decode 0))) (registers m1 (i_rt (Decode 0)))) m1) (registers m NextPCReg + 4) 0 0)"
    unfolding fetch_execute_def m1(2) on_access_def bindr_simps access.case e [OF d(1)] d(2) by (simp add: advance_def)
  with m1(1) show thesis by (rule that)
qed

lemma nop_runs:
  assumes "machine_ok (cpu s)" "translate_result (cpu s) (registers (cpu s) PCReg) 4 False = (NoException, pa)"
    and "read_value (mainMemory (cpu s)) pa 4 = 0"
  shows "\<exists>m. User_Instruction h s = Inr (Goes ((), s\<lparr>cpu := m\<rparr>)) \<and> trap_of (cpu s) = None"
proof -
  from nop_fetch [OF assms] obtain m1 v where m1: "touched (cpu s) m1"
    "fetch_execute (cpu s) = Inr (Advance (set_reg 0 v m1) (registers (cpu s) NextPCReg + 4) 0 0)" .
  have "registers (set_reg 0 v m1) LoadReg < 32" using m1(1) assms(1) by (simp add: touched_def machine_ok_def reg_numbers)
  from DelayedLoad_ok [OF this, of 0 0] obtain m2 where m2: "DelayedLoad (set_reg 0 v m1) 0 0 = Inr m2" by blast
  have "User_Instruction h s = ret () (s\<lparr>cpu := set_reg NextPCReg (registers (cpu s) NextPCReg + 4)
      (set_reg PCReg (registers (set_reg PrevPCReg (registers m2 PCReg) m2) NextPCReg) (set_reg PrevPCReg (registers m2 PCReg) m2))\<rparr>)"
    unfolding User_Instruction_def m1(2) bindr_simps exec.case m2 Let_def ..
  moreover have "trap_of (cpu s) = None" by (simp add: trap_of_def m1(2))
  ultimately show ?thesis unfolding ret_def by blast
qed

text \<open>A program without segments: its memory is all zero, which is an instruction without effect.\<close>

definition empty_machine :: "nat \<Rightarrow> machine" where
  "empty_machine pages = started \<lparr>space_table = map identity_entry [0..<NumPhysPages], numPages = word_of_nat pages\<rparr> (Machine_Machine 0)"

lemma empty_machine_nop:
  assumes "0 < pages" "pages \<le> NumPhysPages"
  shows "machine_ok (empty_machine pages)"
    "translate_result (empty_machine pages) (registers (empty_machine pages) PCReg) 4 False = (NoException, 0)"
    "read_value (mainMemory (empty_machine pages)) 0 4 = 0"
proof -
  have p: "unat (word_of_nat pages :: u32) = pages" using assms by (simp add: unat_of_nat mem_sizes)
  show "machine_ok (empty_machine pages)"
    using assms unfolding empty_machine_def by (intro started_ok) (simp_all add: Machine_Machine_def p)
  have pc: "registers (empty_machine pages) PCReg = 0"
    by (simp add: empty_machine_def started_def AddrSpace_RestoreState_def reg_numbers)
  have "mapping (empty_machine pages) 0 = Some (identity_entry 0)"
    using assms by (simp add: empty_machine_def mapping_def Machine_Machine_def word_less_nat_alt p mem_sizes identity_entry_def)
  then show "translate_result (empty_machine pages) (registers (empty_machine pages) PCReg) 4 False = (NoException, 0)"
    unfolding pc by (simp add: translate_result_def mem_sizes entry_result_def identity_entry_def)
  show "read_value (mainMemory (empty_machine pages)) 0 4 = 0"
    by (simp add: read_value_def empty_machine_def Machine_Machine_def eval_nat_numeral)
qed

definition empty_system :: "int system" where
  "empty_system = \<lparr>cpu = Machine_Machine 0, console_in = [], console_out = [], ListFile = [], world = 0\<rparr>"

lemma Load_empty:
  assumes "serves h name fd (object_file 0 0 [])" "length header = 52"
  shows "\<exists>w'. AddrSpace_Load h header name a m w = Inr ((True, a\<lparr>numPages := word_of_nat 8\<rparr>, m), w')"
proof -
  let ?f = "object_file 0 0 []"
  let ?n = "image_noff (take 52 ?f)"
  have ov: "overlay ?f g mem = mem" if "size_of g = 0" for g mem using that by (auto simp: overlay_def fun_eq_iff)
  have d: "divRoundUp 1024 128 = 8" by (simp add: divRoundUp_def)
  have fits: "segment_fits ?f (code ?n)" "segment_fits ?f (initData ?n)" "segment_fits ?f (readonlyData ?n)"
    unfolding object_header by (simp_all add: segment_fits_def object_length mem_sizes)
  have t: "total_size ?n = 1024" unfolding object_header by (simp add: total_size_def)
  then have pn: "unat (pages_needed ?n) = 8" using pages_needed_ok(1) [of ?n] d by (simp add: mem_sizes)
  then have pw: "pages_needed ?n = word_of_nat 8" by (simp only: word_unat_eq_iff) (simp add: unat_of_nat)
  have magic: "noffMagic ?n = NOFFMAGIC" unfolding object_header by simp
  have "52 \<le> length ?f" "total_size ?n \<le> int MemorySize" unfolding t by (simp_all add: object_length mem_sizes)
  from Load_ok [OF assms this(1) refl magic this(2) fits, of a m w] show ?thesis
    unfolding object_header by (auto simp: ov pw [unfolded object_header])
qed

theorem program_confined_witness:
  "\<exists>a' m' w s'. AddrSpace_Load (file_host (object_file 0 0 [])) (replicate 52 0) [] (fst (AddrSpace_AddrSpace 0 (Machine_Machine 0)))
     (snd (AddrSpace_AddrSpace 0 (Machine_Machine 0))) 0 = Inr ((True, a', m'), w) \<and>
     AddrSpace_Execute 1 (file_host (object_file 0 0 [])) a' (empty_system\<lparr>cpu := m', world := w\<rparr>) = Inr (Goes ((), s')) \<and>
     mainMemory (cpu s') 1024 = 0"
proof -
  let ?h = "file_host (object_file 0 0 [])"
  let ?a = "\<lparr>space_table = map identity_entry [0..<NumPhysPages], numPages = 0\<rparr>"
  let ?a' = "\<lparr>space_table = map identity_entry [0..<NumPhysPages], numPages = word_of_nat 8\<rparr>"
  have new: "AddrSpace_AddrSpace 0 (Machine_Machine 0) = (?a, Machine_Machine 0)"
    by (simp add: AddrSpace_AddrSpace_def Machine_Machine_def fun_eq_iff)
  obtain w0 where l: "AddrSpace_Load ?h (replicate 52 0) [] ?a (Machine_Machine 0) 0 = Inr ((True, ?a', Machine_Machine 0), w0)"
    using Load_empty [OF file_host_serves, of "replicate 52 0" "[]" ?a "Machine_Machine 0" 0] by auto
  let ?s = "empty_system\<lparr>world := w0, cpu := empty_machine 8\<rparr>"
  have "0 < (8::nat)" "8 \<le> NumPhysPages" by (simp_all add: mem_sizes)
  from nop_runs [of ?s 0 ?h] empty_machine_nop [OF this] obtain m2 where
    "User_Instruction ?h ?s = Inr (Goes ((), ?s\<lparr>cpu := m2\<rparr>))" by auto
  moreover have st: "started ?a' (Machine_Machine 0) = empty_machine 8" by (simp add: empty_machine_def)
  ultimately have e: "AddrSpace_Execute 1 ?h ?a' (empty_system\<lparr>cpu := Machine_Machine 0, world := w0\<rparr>) = Inr (Goes ((), ?s\<lparr>cpu := m2\<rparr>))"
    by (simp add: Execute_started after_app st [simplified]) (simp add: ret_def)
  have w: "world empty_system = 0" "cpu empty_system = Machine_Machine 0" "tlb (Machine_Machine 0) = None"
    by (simp_all add: empty_system_def Machine_Machine_def)
  from program_confined [of empty_system 0 ?a "Machine_Machine 0", unfolded w, OF refl new l e] have "mainMemory m2 1024 = 0"
    by (simp add: Machine_Machine_def mem_sizes unat_of_nat)
  then show ?thesis unfolding new fst_conv snd_conv using l e by fastforce
qed

text \<open>One instruction: only a system call reaches the kernel's code beyond \<open>SysHalt\<close>.\<close>

lemma instruction_outcomes:
  assumes "machine_ok (cpu s)" "trap_of (cpu s) \<noteq> Some SyscallException"
  shows "(\<exists>m. User_Instruction h s = Inr (Goes ((), s\<lparr>cpu := m\<rparr>)) \<and> machine_ok m \<and> trap_of (cpu s) = None) \<or>
    (User_Instruction h s = Inr Halts \<and> trap_of (cpu s) \<noteq> None) \<or>
    (User_Instruction h s = Inl ArithmeticTrap \<and>
     (\<exists>raw m'. ReadMem (cpu s) (registers (cpu s) PCReg) 4 = Inr (Access raw m') \<and> div_overflow (Decode raw) (cpu s)))"
proof -
  have g: "good_handler (\<lambda>_ m. Inr m)" by (simp add: good_handler_def)
  from OneInstruction_returns [OF assms(1) g] consider
      (ok) m where "hardware_step (cpu s) = Inr m" "machine_ok m"
    | (trap) "hardware_step (cpu s) = Inl ArithmeticTrap"
        "\<exists>raw m'. ReadMem (cpu s) (registers (cpu s) PCReg) 4 = Inr (Access raw m') \<and> div_overflow (Decode raw) (cpu s)"
    by (auto simp: hardware_step_def)
  then show ?thesis
  proof cases
    case ok
    show ?thesis
    proof (cases "trap_of (cpu s)")
      case None
      then show ?thesis using ok by (simp add: User_Instruction_split ret_def) blast
    next
      case (Some exc)
      then have "exc \<noteq> NoException" "exc \<noteq> SyscallException"
        using assms(2) trap_not_NoException [OF assms(1)] by auto
      then show ?thesis using ok Some by (simp add: User_Instruction_split handler_halts)
    qed
  next
    case trap
    then show ?thesis by (simp add: User_Instruction_split)
  qed
qed

lemma User_Instruction_trap_None:
  "machine_ok (cpu s) \<Longrightarrow> User_Instruction h s = Inr Halts \<Longrightarrow> trap_of (cpu s) \<noteq> None"
  using instruction_outcomes [of s h] by auto

lemma run_outcomes:
  assumes "machine_ok (cpu s)"
  shows "(\<exists>s'. Machine_Run n h s = Inr (Goes ((), s')) \<and> machine_ok (cpu s')) \<or>
    (\<exists>k < n. \<exists>s1. Machine_Run k h s = Inr (Goes ((), s1)) \<and> machine_ok (cpu s1) \<and>
      (Machine_Run n h s = Inr Halts \<and> User_Instruction h s1 = Inr Halts \<and> trap_of (cpu s1) \<noteq> None \<or>
       (\<exists>e. Machine_Run n h s = Inl e \<and> User_Instruction h s1 = Inl e \<and>
         (trap_of (cpu s1) = Some SyscallException \<or> e = ArithmeticTrap \<and>
          (\<exists>raw m'. ReadMem (cpu s1) (registers (cpu s1) PCReg) 4 = Inr (Access raw m') \<and>
             div_overflow (Decode raw) (cpu s1))))))" (is "?Done n s \<or> (\<exists>k < n. \<exists>s1. ?At k s s1 \<and> ?End n s s1)")
  using assms
proof (induction n arbitrary: s)
  case 0
  then show ?case by (simp add: ret_def)
next
  case (Suc n)
  have now: "?Done (Suc n) s \<or> (\<exists>k < Suc n. \<exists>s1. ?At k s s1 \<and> ?End (Suc n) s s1)" if "?End (Suc n) s s"
  proof -
    have "?At 0 s s" using Suc.prems by (simp add: ret_def)
    with that show ?thesis by blast
  qed
  consider (goes) s1 where "User_Instruction h s = Inr (Goes ((), s1))" | (halts) "User_Instruction h s = Inr Halts"
    | (fails) e where "User_Instruction h s = Inl e"
    by (metis old.sum.exhaust old.unit.exhaust outcome.exhaust surj_pair)
  then show ?case
  proof cases
    case goes
    then have r: "Machine_Run (Suc k) h s = Machine_Run k h s1" for k by (simp add: after_app)
    have "machine_ok (cpu s1)" using User_Instruction_frame [OF Suc.prems goes] by blast
    from Suc.IH [OF this] show ?thesis
    proof
      assume "?Done n s1"
      then show ?thesis by (simp only: r) blast
    next
      assume "\<exists>k < n. \<exists>s2. ?At k s1 s2 \<and> ?End n s1 s2"
      then obtain k s2 where "Suc k < Suc n" "?At (Suc k) s s2" "?End (Suc n) s s2" unfolding r by auto
      then show ?thesis by blast
    qed
  next
    case halts
    then have "Machine_Run (Suc n) h s = Inr Halts" by (simp add: after_app)
    with halts Suc.prems User_Instruction_trap_None [OF Suc.prems halts] show ?thesis by (intro now) simp
  next
    case fails
    then have "Machine_Run (Suc n) h s = Inl e" by (simp add: after_app)
    moreover have "trap_of (cpu s) = Some SyscallException \<or> e = ArithmeticTrap \<and>
        (\<exists>raw m'. ReadMem (cpu s) (registers (cpu s) PCReg) 4 = Inr (Access raw m') \<and> div_overflow (Decode raw) (cpu s))"
      using instruction_outcomes [OF Suc.prems, of h] fails by auto
    ultimately show ?thesis using fails Suc.prems by (intro now) blast
  qed
qed

text \<open>
  C19: Only through a system call can a program do more than compute.  An instruction that is no system call either
  changes the machine alone and leaves it well formed, or traps, and then the kernel halts: whatever word is
  fetched and whatever address is used, nothing reaches the consoles, the files or UNIX, and the kernel does not
  fail, except for the division of the least integer by -1, which the host CPU refuses.
\<close>

theorem instruction_computes_or_halts:
  assumes "machine_ok (cpu s)" "trap_of (cpu s) \<noteq> Some SyscallException"
  shows "(\<exists>m. User_Instruction h s = Inr (Goes ((), s\<lparr>cpu := m\<rparr>)) \<and> machine_ok m \<and> trap_of (cpu s) = None) \<or>
    (User_Instruction h s = Inr Halts \<and> trap_of (cpu s) \<noteq> None) \<or>
    (User_Instruction h s = Inl ArithmeticTrap \<and>
     (\<exists>raw m'. ReadMem (cpu s) (registers (cpu s) PCReg) 4 = Inr (Access raw m') \<and> div_overflow (Decode raw) (cpu s)))"
  by (rule instruction_outcomes [OF assms])

theorem instruction_computes_or_halts_witness:
  "\<exists>m. User_Instruction (file_host []) (empty_system\<lparr>cpu := empty_machine 8\<rparr>) =
     Inr (Goes ((), empty_system\<lparr>cpu := m\<rparr>))"
proof -
  let ?s = "empty_system\<lparr>cpu := empty_machine 8\<rparr>"
  have "0 < (8::nat)" "8 \<le> NumPhysPages" by (simp_all add: mem_sizes)
  note e = empty_machine_nop [OF this]
  obtain m where "trap_of (cpu ?s) = None" "User_Instruction (file_host []) ?s = Inr (Goes ((), ?s\<lparr>cpu := m\<rparr>))"
    using nop_runs [of ?s 0 "file_host []"] e by auto
  with instruction_computes_or_halts [of ?s "file_host []"] e(1) show ?thesis by auto
qed

text \<open>
  C20: A user program can bring the kernel down only in two ways.  From a well-formed machine, run any number of
  instructions with the real exception handler behind them: either all of them are done and the machine is well
  formed again (register 0 is zero, the pending load names a general register, the tables are in range), or the
  run ends after some of them, in a well-formed machine, at an instruction that halts the kernel by its trap, that
  is a system call whose code fails, or that divides the least integer by -1, which the host CPU refuses.
\<close>

theorem user_run_outcomes:
  assumes "machine_ok (cpu s)"
  shows "(\<exists>s'. Machine_Run n h s = Inr (Goes ((), s')) \<and> machine_ok (cpu s')) \<or>
    (\<exists>k < n. \<exists>s1. Machine_Run k h s = Inr (Goes ((), s1)) \<and> machine_ok (cpu s1) \<and>
      (Machine_Run n h s = Inr Halts \<and> User_Instruction h s1 = Inr Halts \<and> trap_of (cpu s1) \<noteq> None \<or>
       (\<exists>e. Machine_Run n h s = Inl e \<and> User_Instruction h s1 = Inl e \<and>
         (trap_of (cpu s1) = Some SyscallException \<or> e = ArithmeticTrap \<and>
          (\<exists>raw m'. ReadMem (cpu s1) (registers (cpu s1) PCReg) 4 = Inr (Access raw m') \<and>
             div_overflow (Decode raw) (cpu s1))))))"
  by (rule run_outcomes [OF assms])

theorem user_run_outcomes_witness:
  "\<exists>s'. Machine_Run 1 (file_host []) (empty_system\<lparr>cpu := empty_machine 8\<rparr>) = Inr (Goes ((), s')) \<and> machine_ok (cpu s')"
proof -
  let ?s = "empty_system\<lparr>cpu := empty_machine 8\<rparr>"
  have "0 < (8::nat)" "8 \<le> NumPhysPages" by (simp_all add: mem_sizes)
  note e = empty_machine_nop [OF this]
  obtain m where "User_Instruction (file_host []) ?s = Inr (Goes ((), ?s\<lparr>cpu := m\<rparr>))"
    using nop_runs [of ?s 0 "file_host []"] e by auto
  then have "Machine_Run 0 (file_host []) ?s = Inr (Goes ((), ?s))"
    "User_Instruction (file_host []) ?s \<noteq> Inr Halts" "User_Instruction (file_host []) ?s \<noteq> Inl x" for x
    by (simp_all add: ret_def)
  with user_run_outcomes [of ?s 1 "file_host []"] e(1) show ?thesis by auto
qed

end
