(* ===== verification/Coff2noff.thy ===== *)
theory Coff2noff
  imports Addr_Space
begin

text \<open>
  \<open>coff2noff/coff2noff.c\<close>, the tool that turns a COFF executable into the object file the kernel loads, as built with
  \<open>RDATA\<close> for a little-endian host.  Both files are lists of bytes: \<open>None\<close> is every way the tool stops with an
  error, after which the output file is removed.  A read that the file cannot satisfy stops it; writing the
  output succeeds.  Names and sizes it prints are left out.
\<close>

section \<open>The input format\<close>

definition MIPSELMAGIC :: u16 where "MIPSELMAGIC = 0x0162"
definition OMAGIC :: u16 where "OMAGIC = 263"

definition sizeof_filehdr :: nat where "sizeof_filehdr = 20"
definition sizeof_aouthdr :: nat where "sizeof_aouthdr = 56"
definition sizeof_scnhdr :: nat where "sizeof_scnhdr = 40"

definition half_at :: "nat \<Rightarrow> u8 list \<Rightarrow> u16" where
  "half_at i bs = ucast (bs ! i) OR push_bit 8 (ucast (bs ! (i + 1)))"

definition word_at :: "nat \<Rightarrow> u8 list \<Rightarrow> u32" where "word_at i bs = bytes_word (drop i bs)"

text \<open>The fields of a section header that are used; the name has 8 characters and may have no end.\<close>

record section_header =
  s_name :: "u8 list"
  s_paddr :: u32
  s_size :: u32
  s_scnptr :: u32

definition image_section :: "u8 list \<Rightarrow> section_header" where
  "image_section bs = \<lparr>s_name = take 8 bs, s_paddr = word_at 8 bs, s_size = word_at 16 bs, s_scnptr = word_at 20 bs\<rparr>"

definition swap_section :: "section_header \<Rightarrow> section_header" where
  "swap_section c =
     c\<lparr>s_paddr := WordToHost (s_paddr c), s_size := WordToHost (s_size c), s_scnptr := WordToHost (s_scnptr c)\<rparr>"

text \<open>\<open>strcmp\<close> with a name shorter than 8 is decided inside the field.\<close>

definition name_is :: "section_header \<Rightarrow> u8 list \<Rightarrow> bool" where
  "name_is c str \<longleftrightarrow> take (length str + 1) (s_name c) = str @ [0]"

definition text_name :: "u8 list" where "text_name = [46, 116, 101, 120, 116]"
definition data_name :: "u8 list" where "data_name = [46, 100, 97, 116, 97]"
definition rdata_name :: "u8 list" where "rdata_name = [46, 114, 100, 97, 116, 97]"
definition bss_name :: "u8 list" where "bss_name = [46, 98, 115, 115]"

section \<open>Reading and copying\<close>

text \<open>
  \<open>Read\<close>: the bytes and the new position.  The result of \<open>read\<close> is compared with the number of bytes asked for, so
  for -1, which \<open>read\<close> refuses with the result -1, the check passes without a byte read.
\<close>

definition Coff_Read :: "u8 list \<Rightarrow> nat \<Rightarrow> int \<Rightarrow> (u8 list \<times> nat) option" where
  "Coff_Read file pos nBytes =
     (if nBytes = -1 then Some ([], pos)
      else if 0 \<le> nBytes \<and> int pos + nBytes \<le> int (length file)
      then Some (take (nat nBytes) (drop pos file), pos + nat nBytes) else None)"

definition seek :: "nat \<Rightarrow> int \<Rightarrow> nat" where "seek pos offset = (if offset < 0 then pos else nat offset)"

text \<open>The header under construction, the place in the output, what is written there, and the place in the input.\<close>

record conversion =
  noffH :: noff_header
  inNoffFile :: u32
  written :: "u8 list"
  position :: nat

definition copy_section :: "u8 list \<Rightarrow> section_header \<Rightarrow> conversion \<Rightarrow> conversion option" where
  "copy_section file c s =
     (case Coff_Read file (seek (position s) (sint (s_scnptr c))) (sint (s_size c)) of
        None \<Rightarrow> None
      | Some (buffer, pos) \<Rightarrow>
          Some (s\<lparr>inNoffFile := inNoffFile s + s_size c, written := written s @ buffer, position := pos\<rparr>))"

definition segment_for :: "section_header \<Rightarrow> conversion \<Rightarrow> segment" where
  "segment_for c s = \<lparr>virtualAddr = s_paddr c, inFileAddr = inNoffFile s, size_of = s_size c\<rparr>"

definition convert_section :: "u8 list \<Rightarrow> section_header \<Rightarrow> conversion \<Rightarrow> conversion option" where
  "convert_section file c s =
     (if s_size c = 0 then Some s
      else if name_is c text_name then copy_section file c (s\<lparr>noffH := (noffH s)\<lparr>code := segment_for c s\<rparr>\<rparr>)
      else if name_is c data_name then copy_section file c (s\<lparr>noffH := (noffH s)\<lparr>initData := segment_for c s\<rparr>\<rparr>)
      else if name_is c rdata_name then copy_section file c (s\<lparr>noffH := (noffH s)\<lparr>readonlyData := segment_for c s\<rparr>\<rparr>)
      else if name_is c bss_name then
        let u = uninitData (noffH s) in
        if size_of u \<noteq> 0 then
          if s_paddr c = virtualAddr u + size_of u then None
          else Some (s\<lparr>noffH := (noffH s)\<lparr>uninitData := u\<lparr>size_of := size_of u + s_size c\<rparr>\<rparr>\<rparr>)
        else Some (s\<lparr>noffH := (noffH s)\<lparr>uninitData := u\<lparr>virtualAddr := s_paddr c, size_of := s_size c\<rparr>\<rparr>\<rparr>)
      else None)"

primrec convert_sections :: "u8 list \<Rightarrow> section_header list \<Rightarrow> conversion \<Rightarrow> conversion option" where
  "convert_sections file [] s = Some s"
| "convert_sections file (c # cs) s =
     (case convert_section file c s of None \<Rightarrow> None | Some s \<Rightarrow> convert_sections file cs s)"

definition segment_words :: "segment \<Rightarrow> u32 list" where
  "segment_words g = [virtualAddr g, inFileAddr g, size_of g]"

definition noff_image :: "noff_header \<Rightarrow> u8 list" where
  "noff_image n =
     words_bytes (noffMagic n # segment_words (code n) @ segment_words (initData n) @ segment_words (readonlyData n) @
       segment_words (uninitData n))"

primrec section_table :: "nat \<Rightarrow> u8 list \<Rightarrow> section_header list" where
  "section_table 0 bs = []"
| "section_table (Suc n) bs = image_section bs # section_table n (drop sizeof_scnhdr bs)"

text \<open>\<open>main\<close>, from the two open files on; \<open>garbage\<close> is what the header holds before it is set.\<close>

definition start_header :: "noff_header \<Rightarrow> noff_header" where
  "start_header garbage =
     garbage\<lparr>noffMagic := NOFFMAGIC, code := (code garbage)\<lparr>size_of := 0\<rparr>, initData := (initData garbage)\<lparr>size_of := 0\<rparr>,
       uninitData := (uninitData garbage)\<lparr>size_of := 0\<rparr>, readonlyData := (readonlyData garbage)\<lparr>size_of := 0\<rparr>\<rparr>"

definition coff2noff :: "noff_header \<Rightarrow> u8 list \<Rightarrow> u8 list option" where
  "coff2noff garbage file =
     (case Coff_Read file 0 (int sizeof_filehdr) of
        None \<Rightarrow> None
      | Some (fileh, pos) \<Rightarrow>
          if ShortToHost (half_at 0 fileh) \<noteq> MIPSELMAGIC then None
          else
            (case Coff_Read file pos (int sizeof_aouthdr) of
               None \<Rightarrow> None
             | Some (systemh, pos) \<Rightarrow>
                 if ShortToHost (half_at 0 systemh) \<noteq> OMAGIC then None
                 else
                   let numsections = unat (ShortToHost (half_at 2 fileh)) in
                   (case Coff_Read file pos (int (numsections * sizeof_scnhdr)) of
                      None \<Rightarrow> None
                    | Some (bs, pos) \<Rightarrow>
                        (case convert_sections file (map swap_section (section_table numsections bs))
                            \<lparr>noffH = start_header garbage, inNoffFile = 52, written = [], position = pos\<rparr> of
                           None \<Rightarrow> None
                         | Some s \<Rightarrow> Some (noff_image (SwapHeader (noffH s)) @ written s)))))"

end
