(* ===== verification/Coff2noff_Correct.thy ===== *)
theory Coff2noff_Correct
  imports Coff2noff Addr_Space_Correct
begin

text \<open>
  The way of a program from the linker into memory: what \<open>coff2noff\<close> writes describes the sections of its input,
  and \<open>AddrSpace::Load\<close> puts them where they were linked.
\<close>

section \<open>The output format is the input format of the kernel\<close>

lemma SwapHeader_id: "SwapHeader n = n"
  by (simp add: SwapHeader_def Swap_segment_def WordToHost_def)

lemma noff_image_length: "length (noff_image n) = 52"
  by (simp add: noff_image_def segment_words_def)

lemma image_noff_image: "image_noff (noff_image n) = n"
proof -
  let ?ws = "noffMagic n # segment_words (code n) @ segment_words (initData n) @ segment_words (readonlyData n) @
    segment_words (uninitData n)"
  have "bytes_words 13 (words_bytes ?ws) = ?ws"
    using bytes_words_bytes_n [of ?ws 13 "[]"] by (simp add: segment_words_def)
  then show ?thesis
    by (simp add: image_noff_def noff_image_def Let_def) (simp add: words_segment_def segment_words_def numeral_eq_Suc)
qed

section \<open>One section\<close>

text \<open>The kinds of sections that are copied, and where their description goes.\<close>

definition kinds :: "(u8 list \<times> (noff_header \<Rightarrow> segment)) set" where
  "kinds = {(text_name, code), (data_name, initData), (rdata_name, readonlyData)}"

lemma name_second: "name_is c (x # y # zs) \<Longrightarrow> s_name c ! 1 = y"
proof -
  assume "name_is c (x # y # zs)"
  then have t: "take (length zs + 3) (s_name c) = x # y # zs @ [0]" by (simp add: name_is_def numeral_3_eq_3)
  have "s_name c ! 1 = take (length zs + 3) (s_name c) ! 1" by (rule nth_take [symmetric]) simp
  also have "\<dots> = y" unfolding t by simp
  finally show ?thesis .
qed

lemma name_kinds:
  "name_is c text_name \<Longrightarrow> s_name c ! 1 = 116" "name_is c data_name \<Longrightarrow> s_name c ! 1 = 100"
  "name_is c rdata_name \<Longrightarrow> s_name c ! 1 = 114" "name_is c bss_name \<Longrightarrow> s_name c ! 1 = 98"
  unfolding text_name_def data_name_def rdata_name_def bss_name_def by (auto dest: name_second)

lemma names_exclusive:
  "name_is c data_name \<Longrightarrow> \<not> name_is c text_name"
  "name_is c rdata_name \<Longrightarrow> \<not> name_is c text_name \<and> \<not> name_is c data_name"
  "name_is c bss_name \<Longrightarrow> \<not> name_is c text_name \<and> \<not> name_is c data_name \<and> \<not> name_is c rdata_name"
  using name_kinds [of c] by auto

lemma copy_section_result:
  assumes "copy_section file c s = Some s'" "s_size c \<noteq> -1"
  shows "\<exists>bs pos. s' = s\<lparr>inNoffFile := inNoffFile s + s_size c, written := written s @ bs, position := pos\<rparr> \<and>
    length bs = unat (s_size c) \<and> (0 \<le> sint (s_scnptr c) \<longrightarrow>
      bs = take (unat (s_size c)) (drop (unat (s_scnptr c)) file) \<and> unat (s_scnptr c) + unat (s_size c) \<le> length file)"
proof -
  have "s_size c = -1" if "sint (s_size c) = -1" using arg_cong [OF that, of "word_of_int :: int \<Rightarrow> u32"] by simp
  then have m: "sint (s_size c) \<noteq> -1" using assms(2) by blast
  then have r: "0 \<le> sint (s_size c)" "int (seek (position s) (sint (s_scnptr c))) + sint (s_size c) \<le> int (length file)"
    using assms(1) by (auto simp: copy_section_def Coff_Read_def split: if_splits)
  have n: "nat (sint w) = unat w" if "0 \<le> sint w" for w :: u32
    unfolding unat_eq_nat_uint using that uint_nonneg [of w] by simp
  let ?bs = "take (unat (s_size c)) (drop (seek (position s) (sint (s_scnptr c))) file)"
  have "s' = s\<lparr>inNoffFile := inNoffFile s + s_size c, written := written s @ ?bs,
      position := seek (position s) (sint (s_scnptr c)) + unat (s_size c)\<rparr>"
    using assms(1) m r by (simp add: copy_section_def Coff_Read_def n)
  moreover have "length ?bs = unat (s_size c)" using r n [OF r(1)] by simp
  moreover have "?bs = take (unat (s_size c)) (drop (unat (s_scnptr c)) file)"
    "unat (s_scnptr c) + unat (s_size c) \<le> length file" if "0 \<le> sint (s_scnptr c)"
  proof -
    show "?bs = take (unat (s_size c)) (drop (unat (s_scnptr c)) file)" using that n [OF that] by (simp add: seek_def)
    have a: "seek (position s) (sint (s_scnptr c)) = unat (s_scnptr c)" using that n [OF that] by (simp add: seek_def)
    have "int (unat (s_size c)) = sint (s_size c)" using r(1) n [OF r(1)] by (metis int_nat_eq)
    then show "unat (s_scnptr c) + unat (s_size c) \<le> length file" using r(2) unfolding a by linarith
  qed
  ultimately show ?thesis by blast
qed

text \<open>What the conversion keeps, whatever sections follow.\<close>

definition place_ok :: "conversion \<Rightarrow> bool" where
  "place_ok s \<longleftrightarrow> inNoffFile s = word_of_nat (52 + length (written s)) \<and> noffMagic (noffH s) = NOFFMAGIC"

lemma convert_section_keeps:
  assumes "convert_section file c s = Some s'" "s_size c \<noteq> -1" "place_ok s"
  shows "place_ok s' \<and> (\<exists>x. written s' = written s @ x) \<and>
    (\<forall>(nm, sel) \<in> kinds. s_size c = 0 \<or> \<not> name_is c nm \<longrightarrow> sel (noffH s') = sel (noffH s))"
proof -
  have w: "word_of_nat (52 + length (written s)) + s_size c = word_of_nat (52 + length (written s @ bs))"
    if "length bs = unat (s_size c)" for bs :: "u8 list" using that by simp
  have copied: "place_ok s' \<and> (\<exists>x. written s' = written s @ x) \<and> noffH s' = n"
    if "copy_section file c (s\<lparr>noffH := n\<rparr>) = Some s'" "noffMagic n = noffMagic (noffH s)" for n
  proof -
    from copy_section_result [OF that(1) assms(2)] obtain bs pos where
      s': "s' = s\<lparr>noffH := n, inNoffFile := inNoffFile s + s_size c, written := written s @ bs, position := pos\<rparr>"
      and "length bs = unat (s_size c)" by (simp, blast)
    from w [OF this(2)] show ?thesis unfolding s' using assms(3) that(2) by (simp add: place_ok_def)
  qed
  consider "s_size c = 0" | "s_size c \<noteq> 0" "name_is c text_name" | "s_size c \<noteq> 0" "name_is c data_name"
    | "s_size c \<noteq> 0" "name_is c rdata_name" | "s_size c \<noteq> 0" "name_is c bss_name"
    | "s_size c \<noteq> 0" "\<not> name_is c text_name" "\<not> name_is c data_name" "\<not> name_is c rdata_name" "\<not> name_is c bss_name"
    by blast
  then show ?thesis
  proof cases
    case 1
    then show ?thesis using assms by (simp add: convert_section_def)
  next
    case 2
    then have "copy_section file c (s\<lparr>noffH := (noffH s)\<lparr>code := segment_for c s\<rparr>\<rparr>) = Some s'"
      using assms(1) by (simp add: convert_section_def)
    from copied [OF this] show ?thesis using 2 names_exclusive [of c] by (auto simp: kinds_def)
  next
    case 3
    then have "copy_section file c (s\<lparr>noffH := (noffH s)\<lparr>initData := segment_for c s\<rparr>\<rparr>) = Some s'"
      using assms(1) names_exclusive [of c] by (simp add: convert_section_def)
    from copied [OF this] show ?thesis using 3 names_exclusive [of c] by (auto simp: kinds_def)
  next
    case 4
    then have "copy_section file c (s\<lparr>noffH := (noffH s)\<lparr>readonlyData := segment_for c s\<rparr>\<rparr>) = Some s'"
      using assms(1) names_exclusive [of c] by (simp add: convert_section_def)
    from copied [OF this] show ?thesis using 4 names_exclusive [of c] by (auto simp: kinds_def)
  next
    case 5
    then show ?thesis using assms(1,3) names_exclusive(3) [of c]
      by (auto simp: convert_section_def Let_def place_ok_def kinds_def split: if_splits)
  next
    case 6
    then show ?thesis using assms(1) by (simp add: convert_section_def)
  qed
qed

lemma convert_section_sets:
  assumes "convert_section file c s = Some s'" "(nm, sel) \<in> kinds" "name_is c nm" "s_size c \<noteq> 0" "s_size c \<noteq> -1"
    and "0 \<le> sint (s_scnptr c)"
  shows "sel (noffH s') = segment_for c s \<and> unat (s_scnptr c) + unat (s_size c) \<le> length file \<and>
    written s' = written s @ take (unat (s_size c)) (drop (unat (s_scnptr c)) file)"
proof -
  have copied: "written s' = written s @ take (unat (s_size c)) (drop (unat (s_scnptr c)) file) \<and> noffH s' = n \<and>
      unat (s_scnptr c) + unat (s_size c) \<le> length file"
    if "copy_section file c (s\<lparr>noffH := n\<rparr>) = Some s'" for n
    using copy_section_result [OF that assms(5)] assms(6) by auto
  consider "nm = text_name" "sel = code" | "nm = data_name" "sel = initData" | "nm = rdata_name" "sel = readonlyData"
    using assms(2) by (auto simp: kinds_def)
  then show ?thesis
  proof cases
    case 1
    then have "copy_section file c (s\<lparr>noffH := (noffH s)\<lparr>code := segment_for c s\<rparr>\<rparr>) = Some s'"
      using assms(1,3,4) by (simp add: convert_section_def)
    from copied [OF this] 1 show ?thesis by simp
  next
    case 2
    then have "copy_section file c (s\<lparr>noffH := (noffH s)\<lparr>initData := segment_for c s\<rparr>\<rparr>) = Some s'"
      using assms(1,3,4) names_exclusive [of c] by (simp add: convert_section_def)
    from copied [OF this] 2 show ?thesis by simp
  next
    case 3
    then have "copy_section file c (s\<lparr>noffH := (noffH s)\<lparr>readonlyData := segment_for c s\<rparr>\<rparr>) = Some s'"
      using assms(1,3,4) names_exclusive [of c] by (simp add: convert_section_def)
    from copied [OF this] 3 show ?thesis by simp
  qed
qed

section \<open>All sections\<close>

definition silent :: "u8 list \<Rightarrow> section_header list \<Rightarrow> bool" where
  "silent nm cs \<longleftrightarrow> (\<forall>c\<in>set cs. s_size c = 0 \<or> \<not> name_is c nm)"

lemma convert_sections_keeps:
  assumes "convert_sections file cs s = Some s'" "\<forall>c\<in>set cs. s_size c \<noteq> -1" "place_ok s"
  shows "place_ok s' \<and> (\<exists>x. written s' = written s @ x) \<and>
    (\<forall>(nm, sel) \<in> kinds. silent nm cs \<longrightarrow> sel (noffH s') = sel (noffH s))"
  using assms
proof (induction cs arbitrary: s)
  case (Cons c cs)
  then obtain s1 where s1: "convert_section file c s = Some s1" "convert_sections file cs s1 = Some s'"
    by (auto split: option.splits)
  note a = convert_section_keeps [OF s1(1) _ Cons.prems(3)]
  have b: "place_ok s' \<and> (\<exists>x. written s' = written s1 @ x) \<and>
    (\<forall>(nm, sel) \<in> kinds. silent nm cs \<longrightarrow> sel (noffH s') = sel (noffH s1))"
    using Cons.IH [OF s1(2)] Cons.prems(2) a by auto
  show ?case using a b Cons.prems(2) by (fastforce simp: silent_def)
qed auto

lemma convert_sections_append:
  "convert_sections file (cs @ ds) s =
     (case convert_sections file cs s of None \<Rightarrow> None | Some s \<Rightarrow> convert_sections file ds s)"
  by (induction cs arbitrary: s) (auto split: option.splits)

text \<open>The section headers of a COFF file.\<close>

definition coff_sections :: "u8 list \<Rightarrow> section_header list" where
  "coff_sections file = section_table (unat (half_at 2 file)) (drop 76 file)"

lemma swap_section_id: "swap_section c = c"
  by (simp add: swap_section_def WordToHost_def)

lemma section_table_take:
  "n * 40 \<le> length bs \<Longrightarrow> section_table n (take (n * 40) bs) = section_table n bs"
proof (induction n arbitrary: bs)
  case (Suc n)
  have word: "bytes_word (drop i (take m bs)) = bytes_word (drop i bs)" if "i + 4 \<le> m" "m \<le> length bs" for i m
    using that by (simp add: bytes_word_def)
  have "image_section (take (Suc n * 40) bs) = image_section bs"
    using Suc.prems by (simp add: image_section_def word_at_def word)
  moreover have "drop 40 (take (Suc n * 40) bs) = take (n * 40) (drop 40 bs)" by (simp add: drop_take)
  ultimately show ?case using Suc.IH [of "drop 40 bs"] Suc.prems by (simp add: sizeof_scnhdr_def)
qed simp

lemma Coff_Read_nat:
  "Coff_Read file pos (int k) = (if pos + k \<le> length file then Some (take k (drop pos file), pos + k) else None)"
  by (simp add: Coff_Read_def)

lemma coff2noff_result:
  assumes "coff2noff garbage file = Some out"
  obtains pos s where "convert_sections file (coff_sections file)
      \<lparr>noffH = start_header garbage, inNoffFile = 52, written = [], position = pos\<rparr> = Some s"
    "out = noff_image (noffH s) @ written s"
proof -
  let ?n = "unat (half_at 2 (take 20 file))"
  from assms obtain s where len: "76 + ?n * 40 \<le> length file" and
    s: "convert_sections file (map swap_section (section_table ?n (take (?n * 40) (drop 76 file))))
      \<lparr>noffH = start_header garbage, inNoffFile = 52, written = [], position = 76 + ?n * 40\<rparr> = Some s"
      "out = noff_image (noffH s) @ written s"
    unfolding coff2noff_def Let_def Coff_Read_nat sizeof_filehdr_def sizeof_aouthdr_def sizeof_scnhdr_def ShortToHost_def
    by (auto simp: SwapHeader_id split: if_splits option.splits)
  have n: "half_at 2 (take 20 file) = half_at 2 file" using len by (simp add: half_at_def)
  have "map swap_section (section_table ?n (take (?n * 40) (drop 76 file))) = coff_sections file"
    using section_table_take [of ?n "drop 76 file"] len
    by (simp add: coff_sections_def n swap_section_id [abs_def] map_idI)
  with s show thesis using that by simp
qed

text \<open>A description and the section it describes.\<close>

definition describes :: "u8 list \<Rightarrow> u8 list \<Rightarrow> segment \<Rightarrow> section_header \<Rightarrow> bool" where
  "describes file out g c \<longleftrightarrow>
     virtualAddr g = s_paddr c \<and> size_of g = s_size c \<and> unat (inFileAddr g) + unat (s_size c) \<le> length out \<and>
     unat (s_scnptr c) + unat (s_size c) \<le> length file \<and>
     (\<forall>i < unat (s_size c). out ! (unat (inFileAddr g) + i) = file ! (unat (s_scnptr c) + i))"

lemma start_place: "place_ok \<lparr>noffH = start_header garbage, inNoffFile = 52, written = [], position = pos\<rparr>"
  by (simp add: place_ok_def start_header_def)

lemma coff2noff_describes:
  assumes "coff2noff garbage file = Some out" "\<forall>c\<in>set (coff_sections file). s_size c \<noteq> -1" "length out < 2 ^ 32"
    and "coff_sections file = cs @ c # ds" "(nm, sel) \<in> kinds" "name_is c nm" "s_size c \<noteq> 0" "silent nm ds"
    and "0 \<le> sint (s_scnptr c)"
  shows "describes file out (sel (image_noff (take 52 out))) c"
proof -
  obtain pos s where s: "convert_sections file (cs @ c # ds)
      \<lparr>noffH = start_header garbage, inNoffFile = 52, written = [], position = pos\<rparr> = Some s"
    and out: "out = noff_image (noffH s) @ written s"
    using coff2noff_result [OF assms(1)] unfolding assms(4) by blast
  then obtain s1 s2 where s1: "convert_sections file cs
      \<lparr>noffH = start_header garbage, inNoffFile = 52, written = [], position = pos\<rparr> = Some s1"
    and s2: "convert_section file c s1 = Some s2" "convert_sections file ds s2 = Some s"
    by (auto simp: convert_sections_append split: option.splits)
  have neg: "\<forall>c\<in>set cs. s_size c \<noteq> -1" "s_size c \<noteq> -1" "\<forall>c\<in>set ds. s_size c \<noteq> -1" using assms(2,4) by auto
  have p1: "place_ok s1" using convert_sections_keeps [OF s1 neg(1) start_place] by simp
  then have p2: "place_ok s2" using convert_section_keeps [OF s2(1) neg(2)] by simp
  note set = convert_section_sets [OF s2(1) assms(5-7) neg(2) assms(9)]
  from convert_sections_keeps [OF s2(2) neg(3) p2] obtain x where x: "written s = written s2 @ x"
    "sel (noffH s) = sel (noffH s2)" using assms(5,8) by auto
  have n: "image_noff (take 52 out) = noffH s" using noff_image_length image_noff_image by (simp add: out)
  have len: "length out = 52 + length (written s)" using noff_image_length by (simp add: out)
  let ?bs = "take (unat (s_size c)) (drop (unat (s_scnptr c)) file)"
  have w: "written s = written s1 @ ?bs @ x" and bs: "length ?bs = unat (s_size c)" using set x by (auto simp: min_def)
  have uk: "unat (word_of_nat k :: u32) = k" if "k < 2 ^ 32" for k using that by (simp add: unat_of_nat)
  have i0: "inNoffFile s1 = word_of_nat (52 + length (written s1))" using p1 by (simp only: place_ok_def)
  have "unat (inNoffFile s1) = 52 + length (written s1)"
    unfolding i0 by (rule uk) (use assms(3) len w in simp)
  then have i: "unat (inFileAddr (sel (noffH s))) = 52 + length (written s1)" using set x by (simp add: segment_for_def)
  have "out ! (52 + length (written s1) + i) = file ! (unat (s_scnptr c) + i)" if "i < unat (s_size c)" for i
  proof -
    have "out ! (52 + length (written s1) + i) = (?bs @ x) ! i"
      unfolding out w using noff_image_length [of "noffH s"] by (simp add: nth_append)
    also have "\<dots> = ?bs ! i" using that bs by (simp only: nth_append) simp
    also have "\<dots> = file ! (unat (s_scnptr c) + i)" using that set by simp
    finally show ?thesis .
  qed
  then show ?thesis unfolding describes_def n i using set x(2) len w bs by (simp add: segment_for_def)
qed

lemma coff2noff_missing:
  assumes "coff2noff garbage file = Some out" "\<forall>c\<in>set (coff_sections file). s_size c \<noteq> -1"
    and "(nm, sel) \<in> kinds" "silent nm (coff_sections file)"
  shows "size_of (sel (image_noff (take 52 out))) = 0"
proof -
  obtain pos s where s: "convert_sections file (coff_sections file)
      \<lparr>noffH = start_header garbage, inNoffFile = 52, written = [], position = pos\<rparr> = Some s"
    and out: "out = noff_image (noffH s) @ written s" by (rule coff2noff_result [OF assms(1)])
  have "sel (noffH s) = sel (start_header garbage)"
    using convert_sections_keeps [OF s assms(2) start_place] assms(3,4) by auto
  moreover have "size_of (sel (start_header garbage)) = 0" using assms(3) by (auto simp: kinds_def start_header_def)
  ultimately show ?thesis using noff_image_length image_noff_image by (simp add: out)
qed

lemma coff2noff_magic:
  assumes "coff2noff garbage file = Some out" "\<forall>c\<in>set (coff_sections file). s_size c \<noteq> -1"
  shows "noffMagic (image_noff (take 52 out)) = NOFFMAGIC" "52 \<le> length out"
proof -
  obtain pos s where s: "convert_sections file (coff_sections file)
      \<lparr>noffH = start_header garbage, inNoffFile = 52, written = [], position = pos\<rparr> = Some s"
    and out: "out = noff_image (noffH s) @ written s" by (rule coff2noff_result [OF assms(1)])
  have "noffMagic (noffH s) = NOFFMAGIC"
    using convert_sections_keeps [OF s assms(2) start_place] by (simp add: place_ok_def)
  then show "noffMagic (image_noff (take 52 out)) = NOFFMAGIC" "52 \<le> length out"
    using noff_image_length image_noff_image by (simp_all add: out)
qed

section \<open>From the linker into memory\<close>

definition loadable :: "u8 list \<Rightarrow> section_header list" where
  "loadable file =
     filter (\<lambda>c. s_size c \<noteq> 0 \<and> (name_is c text_name \<or> name_is c data_name \<or> name_is c rdata_name)) (coff_sections file)"

text \<open>
  What the linker must have done: at most one section of each kind that is loaded, each inside memory, no two
  overlapping, and no size or file position that the C code reads as negative.
\<close>

definition apart :: "section_header \<Rightarrow> section_header \<Rightarrow> bool" where
  "apart c d \<longleftrightarrow> unat (s_paddr c) + unat (s_size c) \<le> unat (s_paddr d) \<or> unat (s_paddr d) + unat (s_size d) \<le> unat (s_paddr c)"

definition linked_ok :: "u8 list \<Rightarrow> bool" where
  "linked_ok file \<longleftrightarrow>
     (\<forall>c\<in>set (coff_sections file). s_size c \<noteq> -1) \<and>
     (\<forall>nm\<in>{text_name, data_name, rdata_name}.
        length (filter (\<lambda>c. s_size c \<noteq> 0 \<and> name_is c nm) (coff_sections file)) \<le> 1) \<and>
     (\<forall>c\<in>set (loadable file). 0 \<le> sint (s_scnptr c) \<and> unat (s_paddr c) + unat (s_size c) \<le> MemorySize) \<and>
     (\<forall>c\<in>set (loadable file). \<forall>d\<in>set (loadable file). c \<noteq> d \<longrightarrow> apart c d)"

lemma split_single:
  assumes "length (filter P xs) \<le> 1" "x \<in> set xs" "P x"
  obtains ys zs where "xs = ys @ x # zs" "\<forall>z\<in>set zs. \<not> P z"
proof -
  obtain ys zs where xs: "xs = ys @ x # zs" using assms(2) by (auto simp: in_set_conv_decomp)
  then have "length (filter P zs) = 0" using assms(1,3) by simp
  then have "\<forall>z\<in>set zs. \<not> P z" by (simp add: filter_empty_conv)
  with xs show thesis by (rule that)
qed

lemma kinds_names: "(nm, sel) \<in> kinds \<Longrightarrow> nm \<in> {text_name, data_name, rdata_name}"
  by (auto simp: kinds_def)

lemma loadable_described:
  assumes "coff2noff garbage file = Some out" "linked_ok file" "length out < 2 ^ 31"
    and "c \<in> set (loadable file)" "(nm, sel) \<in> kinds" "name_is c nm"
  shows "describes file out (sel (image_noff (take 52 out))) c"
proof -
  have c: "c \<in> set (coff_sections file)" "s_size c \<noteq> 0 \<and> name_is c nm" "0 \<le> sint (s_scnptr c)"
    using assms(2,4,6) by (auto simp: loadable_def linked_ok_def)
  have "length (filter (\<lambda>c. s_size c \<noteq> 0 \<and> name_is c nm) (coff_sections file)) \<le> 1"
    using assms(2) kinds_names [OF assms(5)] unfolding linked_ok_def by blast
  from split_single [OF this c(1,2)] obtain cs ds where
    "coff_sections file = cs @ c # ds" "\<forall>d\<in>set ds. \<not> (s_size d \<noteq> 0 \<and> name_is d nm)" .
  moreover have "\<forall>c\<in>set (coff_sections file). s_size c \<noteq> -1" using assms(2) by (simp add: linked_ok_def)
  ultimately show ?thesis using coff2noff_describes [OF assms(1) _ _ _ assms(5,6)] assms(3) c by (auto simp: silent_def)
qed

lemma kind_cases:
  assumes "coff2noff garbage file = Some out" "linked_ok file" "length out < 2 ^ 31" "(nm, sel) \<in> kinds"
  obtains "size_of (sel (image_noff (take 52 out))) = 0"
  | c where "c \<in> set (loadable file)" "name_is c nm" "describes file out (sel (image_noff (take 52 out))) c"
proof (cases "silent nm (coff_sections file)")
  case True
  then show thesis using coff2noff_missing [OF assms(1) _ assms(4)] assms(2) that(1) by (simp add: linked_ok_def)
next
  case False
  then obtain c where "c \<in> set (loadable file)" "name_is c nm"
    using kinds_names [OF assms(4)] by (auto simp: silent_def loadable_def)
  with loadable_described [OF assms(1-3) this(1) assms(4)] show thesis using that(2) by blast
qed

lemma overlay_at:
  "describes file out g c \<Longrightarrow> i < unat (s_size c) \<Longrightarrow>
   overlay out g mem (unat (s_paddr c) + i) = file ! (unat (s_scnptr c) + i)"
  by (simp add: overlay_def describes_def)

text \<open>
  C18: A program is in memory as it was linked.  Whatever COFF file \<open>coff2noff\<close> accepts, if its code and data sections
  lie apart inside memory and it fits with its stack, then the kernel loads the file \<open>coff2noff\<close> wrote, and every
  byte of every such section is in main memory at the address the linker gave it.
\<close>

theorem linked_program_is_loaded:
  assumes "coff2noff garbage file = Some out" "linked_ok file" "length out < 2 ^ 31"
    and "total_size (image_noff (take 52 out)) \<le> int MemorySize" "serves h name fd out" "length header = 52"
  shows "\<exists>a' m' w'. AddrSpace_Load h header name a m w = Inr ((True, a', m'), w') \<and>
    (\<forall>c\<in>set (loadable file). \<forall>i < unat (s_size c). mainMemory m' (unat (s_paddr c) + i) = file ! (unat (s_scnptr c) + i))"
proof -
  let ?n = "image_noff (take 52 out)"
  note k = kind_cases [OF assms(1-3)]
  have k3: "(text_name, code) \<in> kinds" "(data_name, initData) \<in> kinds" "(rdata_name, readonlyData) \<in> kinds"
    by (simp_all add: kinds_def)
  have fits: "segment_fits out (sel ?n)" if "(nm, sel) \<in> kinds" for nm sel
    by (rule k [OF that]) (use assms(2,3) in \<open>auto simp: segment_fits_def describes_def linked_ok_def\<close>)
  have other: "overlay out (sel ?n) mem (unat (s_paddr c) + i) = mem (unat (s_paddr c) + i)"
    if "(nm, sel) \<in> kinds" "\<not> name_is c nm" "c \<in> set (loadable file)" "i < unat (s_size c)" for nm sel c i mem
  proof (rule k [OF that(1)])
    assume "size_of (sel ?n) = 0"
    then show ?thesis by (auto simp: overlay_def)
  next
    fix d assume d: "d \<in> set (loadable file)" "name_is d nm" "describes file out (sel ?n) d"
    then have "apart c d" using assms(2) that(2,3) by (auto simp: linked_ok_def)
    then show ?thesis using d(3) that(4) by (auto simp: overlay_def describes_def apart_def)
  qed
  have magic: "noffMagic ?n = NOFFMAGIC" "52 \<le> length out"
    using coff2noff_magic [OF assms(1)] assms(2) by (auto simp: linked_ok_def)
  let ?mem = "overlay out (readonlyData ?n) (overlay out (initData ?n) (overlay out (code ?n) (mainMemory m)))"
  have "?mem (unat (s_paddr c) + i) = file ! (unat (s_scnptr c) + i)"
    if c: "c \<in> set (loadable file)" and i: "i < unat (s_size c)" for c i
  proof -
    note at = overlay_at [OF loadable_described [OF assms(1-3) c] i]
    consider "name_is c text_name" | "name_is c data_name" | "name_is c rdata_name" using c by (auto simp: loadable_def)
    then show ?thesis
    proof cases
      case 1
      then have "\<not> name_is c data_name" "\<not> name_is c rdata_name" using names_exclusive [of c] by blast+
      then show ?thesis using other [OF k3(2) _ c i] other [OF k3(3) _ c i] at [OF k3(1) 1] by simp
    next
      case 2
      then have "\<not> name_is c rdata_name" using names_exclusive [of c] by blast
      then show ?thesis using other [OF k3(3) _ c i] at [OF k3(2) 2] by simp
    next
      case 3
      then show ?thesis using at [OF k3(3) 3] by simp
    qed
  qed
  moreover obtain w' where "AddrSpace_Load h header name a m w =
      Inr ((True, a\<lparr>numPages := pages_needed ?n\<rparr>, m\<lparr>mainMemory := ?mem\<rparr>), w')"
    using Load_ok [OF assms(5,6) magic(2) refl magic(1) assms(4) fits [OF k3(1)] fits [OF k3(2)] fits [OF k3(3)]] by blast
  ultimately show ?thesis by auto
qed

text \<open>A program of one instruction, linked at address 8.\<close>

definition tiny_coff :: "u8 list" where
  "tiny_coff = [0x62, 1, 1, 0] @ replicate 16 0 @ [7, 1] @ replicate 54 0 @
     [46, 116, 101, 120, 116, 0, 0, 0, 8, 0, 0, 0, 0, 0, 0, 0, 4, 0, 0, 0, 116, 0, 0, 0] @ replicate 16 0 @ [12, 0, 0, 0]"

definition no_header :: noff_header where
  "no_header = \<lparr>noffMagic = 0, code = \<lparr>virtualAddr = 0, inFileAddr = 0, size_of = 0\<rparr>,
     initData = \<lparr>virtualAddr = 0, inFileAddr = 0, size_of = 0\<rparr>, readonlyData = \<lparr>virtualAddr = 0, inFileAddr = 0, size_of = 0\<rparr>,
     uninitData = \<lparr>virtualAddr = 0, inFileAddr = 0, size_of = 0\<rparr>\<rparr>"

lemma tiny_sections:
  "coff_sections tiny_coff = [\<lparr>s_name = [46, 116, 101, 120, 116, 0, 0, 0], s_paddr = 8, s_size = 4, s_scnptr = 116\<rparr>]"
  by code_simp

lemma tiny_converted: "coff2noff no_header tiny_coff = Some (object_file 8 4 [12, 0, 0, 0])"
  by code_simp

lemma tiny_loadable: "loadable tiny_coff = [\<lparr>s_name = [46, 116, 101, 120, 116, 0, 0, 0], s_paddr = 8, s_size = 4, s_scnptr = 116\<rparr>]"
  by (simp add: loadable_def tiny_sections name_is_def text_name_def)

lemma tiny_linked_ok: "linked_ok tiny_coff"
  by (simp add: linked_ok_def tiny_loadable tiny_sections mem_sizes)

theorem linked_program_is_loaded_witness:
  "\<exists>a' m' w'. AddrSpace_Load (file_host (object_file 8 4 [12, 0, 0, 0])) (replicate 52 0) [] (fst (AddrSpace_AddrSpace 0 (Machine_Machine 0)))
     (Machine_Machine 0) 0 = Inr ((True, a', m'), w') \<and> mainMemory m' 8 = 12"
proof -
  let ?f = "object_file 8 4 [12, 0, 0, 0]"
  have len: "length ?f < 2 ^ 31" by (simp add: object_length)
  have t: "total_size (image_noff (take 52 ?f)) \<le> int MemorySize" unfolding object_header by (simp add: total_size_def mem_sizes)
  have b: "tiny_coff ! 116 = 12" by code_simp
  from linked_program_is_loaded [OF tiny_converted tiny_linked_ok len t file_host_serves, of "replicate 52 0" "[]"
      "fst (AddrSpace_AddrSpace 0 (Machine_Machine 0))" "Machine_Machine 0" 0]
  obtain a' m' w' where r: "AddrSpace_Load (file_host ?f) (replicate 52 0) [] (fst (AddrSpace_AddrSpace 0 (Machine_Machine 0)))
     (Machine_Machine 0) 0 = Inr ((True, a', m'), w')" and
    "\<forall>i < 4. mainMemory m' (8 + i) = tiny_coff ! (116 + i)" by (auto simp: tiny_loadable)
  then have "mainMemory m' (8 + 0) = tiny_coff ! (116 + 0)" by (metis zero_less_numeral)
  then show ?thesis using r b by auto
qed

end
