(* ===== verification/Post_Office.thy ===== *)
theory Post_Office
  imports Devices
begin

text \<open>
  The post office (\<open>network/post.h\<close>, \<open>network/post.cc\<close>): mailboxes on top of the network device.  The state is that
  of the devices with the mailboxes, the two semaphores and the lock of the post office added.

  An operation that waits, on a semaphore or for the first message of a mailbox, is cut at the place where it waits:
  the result \<open>None\<close> is a thread that stays blocked there.  How semaphores, locks and synchronized lists block and wake
  threads is the subject of the kernel theories.
\<close>

section \<open>Messages\<close>

record mail_header =
  box_to :: u32
  box_from :: u32
  mail_length :: u32

definition sizeof_MailHeader :: nat where "sizeof_MailHeader = 12"
definition MaxMailSize :: nat where "MaxMailSize = MaxPacketSize - sizeof_MailHeader"

definition mail_bytes :: "mail_header \<Rightarrow> u8 list" where
  "mail_bytes h = words_bytes [box_to h, box_from h, mail_length h]"

definition bytes_mail :: "u8 list \<Rightarrow> mail_header" where
  "bytes_mail bs = (let ws = bytes_words 3 bs in \<lparr>box_to = ws ! 0, box_from = ws ! 1, mail_length = ws ! 2\<rparr>)"

record mail =
  pktHdr :: packet_header
  mailHdr :: mail_header
  mail_data :: "u8 list"

text \<open>\<open>garbage\<close> is the fresh message's array of \<open>MaxMailSize\<close> characters.\<close>

definition Mail_Mail :: "u8 list \<Rightarrow> packet_header \<Rightarrow> mail_header \<Rightarrow> u8 list \<Rightarrow> mail res" where
  "Mail_Mail garbage pktH mailH msgData =
     bindr (ASSERT (mail_length mailH \<le> of_nat MaxMailSize)) (\<lambda>_.
     bindr (copy_into msgData 0 (uint (mail_length mailH)) garbage) (\<lambda>data.
     Inr \<lparr>pktHdr = pktH, mailHdr = mailH, mail_data = data\<rparr>))"

section \<open>The state\<close>

record post_office = devices +
  boxes :: "mail list list"
  messageAvailable :: nat
  messageSent :: nat
  sendLock :: bool

definition MailBox_MailBox :: "mail list" where "MailBox_MailBox = []"

definition MailBox_Put :: "u8 list \<Rightarrow> packet_header \<Rightarrow> mail_header \<Rightarrow> u8 list \<Rightarrow> mail list \<Rightarrow> mail list res" where
  "MailBox_Put garbage pktH mailH data messages =
     bindr (Mail_Mail garbage pktH mailH data) (\<lambda>mail. Inr (messages @ [mail]))"

text \<open>The headers, the caller's buffer after the message is copied into it, and the messages left.\<close>

definition MailBox_Get :: "u8 list \<Rightarrow> mail list \<Rightarrow> (packet_header \<times> mail_header \<times> u8 list \<times> mail list) option res" where
  "MailBox_Get data messages =
     (case messages of
        [] \<Rightarrow> Inr None
      | mail # rest \<Rightarrow>
          bindr (copy_into (mail_data mail) 0 (uint (mail_length (mailHdr mail))) data) (\<lambda>data.
          Inr (Some (pktHdr mail, mailHdr mail, data, rest))))"

section \<open>Incoming mail\<close>

text \<open>The worker thread that the constructor forks runs \<open>PostalDelivery\<close>.\<close>

definition PostOfficeInput_PostOfficeInput ::
    "u8 list option list \<Rightarrow> packet_header \<Rightarrow> u8 list \<Rightarrow> nat \<Rightarrow> post_office \<Rightarrow> post_office res" where
  "PostOfficeInput_PostOfficeInput socket garbage_hdr garbage nBoxes s =
     NetworkInput_NetworkInput socket garbage_hdr garbage
       (s\<lparr>messageAvailable := 0, boxes := replicate nBoxes MailBox_MailBox\<rparr>)"

definition PostOfficeInput_CallBack :: "post_office \<Rightarrow> post_office res" where
  "PostOfficeInput_CallBack s = Inr (s\<lparr>messageAvailable := messageAvailable s + 1\<rparr>)"

text \<open>One round of the worker; \<open>buffer\<close> is its buffer of \<open>MaxPacketSize\<close> characters, which it keeps.\<close>

definition PostalDelivery :: "u8 list \<Rightarrow> u8 list \<Rightarrow> post_office \<Rightarrow> (u8 list \<times> post_office) option res" where
  "PostalDelivery garbage buffer s =
     (if messageAvailable s = 0 then Inr None
      else
        bindr (NetworkInput_Receive buffer (s\<lparr>messageAvailable := messageAvailable s - 1\<rparr>)) (\<lambda>(pkt, buffer, s).
        let hdr = bytes_mail buffer in
        bindr (ASSERT (0 \<le> sint (box_to hdr) \<and> sint (box_to hdr) < int (length (boxes s)))) (\<lambda>_.
        bindr (ASSERT (mail_length hdr \<le> of_nat MaxMailSize)) (\<lambda>_.
        bindr (aget (boxes s) (sint (box_to hdr))) (\<lambda>messages.
        bindr (MailBox_Put garbage pkt hdr (drop sizeof_MailHeader buffer) messages) (\<lambda>messages.
        bindr (aset (boxes s) (sint (box_to hdr)) messages) (\<lambda>bs. Inr (Some (buffer, s\<lparr>boxes := bs\<rparr>)))))))))"

definition PostOfficeInput_Receive ::
    "int \<Rightarrow> u8 list \<Rightarrow> post_office \<Rightarrow> (packet_header \<times> mail_header \<times> u8 list \<times> post_office) option res" where
  "PostOfficeInput_Receive box data s =
     bindr (ASSERT (0 \<le> box \<and> box < int (length (boxes s)))) (\<lambda>_.
     bindr (aget (boxes s) box) (\<lambda>messages.
     bindr (MailBox_Get data messages) (\<lambda>r.
     case r of
       None \<Rightarrow> Inr None
     | Some (pkt, hdr, data, rest) \<Rightarrow>
         bindr (aset (boxes s) box rest) (\<lambda>bs.
         bindr (ASSERT (mail_length hdr \<le> of_nat MaxMailSize)) (\<lambda>_.
         Inr (Some (pkt, hdr, data, s\<lparr>boxes := bs\<rparr>)))))))"

section \<open>Outgoing mail\<close>

definition PostOfficeOutput_PostOfficeOutput :: "rat \<Rightarrow> post_office \<Rightarrow> post_office" where
  "PostOfficeOutput_PostOfficeOutput reliability s =
     s\<lparr>messageSent := 0, sendLock := False, networkOutput := NetworkOutput_NetworkOutput reliability\<rparr>"

text \<open>
  \<open>Send\<close> up to the wait for the interrupt, then the rest of it; \<open>None\<close> in the first is the wait for the lock.
  \<open>garbage\<close> is the fresh buffer, \<open>wire_garbage\<close> the one of the network device.
\<close>

definition PostOfficeOutput_Send ::
    "u8 list \<Rightarrow> u8 list \<Rightarrow> packet_header \<Rightarrow> mail_header \<Rightarrow> u8 list \<Rightarrow> post_office \<Rightarrow> post_office option res" where
  "PostOfficeOutput_Send garbage wire_garbage pkt hdr data s =
     bindr (ASSERT (mail_length hdr \<le> of_nat MaxMailSize)) (\<lambda>_.
     bindr (ASSERT (0 \<le> sint (box_to hdr))) (\<lambda>_.
     let pkt = pkt\<lparr>pkt_from := hostName s, pkt_length := mail_length hdr + of_nat sizeof_MailHeader\<rparr> in
     bindr (copy_into (mail_bytes hdr) 0 (int sizeof_MailHeader) garbage) (\<lambda>buffer.
     bindr (copy_into data (int sizeof_MailHeader) (uint (mail_length hdr)) buffer) (\<lambda>buffer.
     if sendLock s then Inr None
     else bindr (NetworkOutput_Send wire_garbage pkt buffer (s\<lparr>sendLock := True\<rparr>)) (\<lambda>s. Inr (Some s))))))"

definition Send_finish :: "post_office \<Rightarrow> post_office option" where
  "Send_finish s =
     (if messageSent s = 0 then None else Some (s\<lparr>messageSent := messageSent s - 1, sendLock := False\<rparr>))"

definition PostOfficeOutput_CallBack :: "post_office \<Rightarrow> post_office res" where
  "PostOfficeOutput_CallBack s = Inr (s\<lparr>messageSent := messageSent s + 1\<rparr>)"

end
