(* ===== verification/Post_Office_Correct.thy ===== *)
theory Post_Office_Correct
  imports Post_Office Devices_Correct
begin

text \<open>
  Mail between two hosts: a message that the network does not lose ends up in the mailbox it was sent to and is
  received as it was sent; and what a sender may put into a mail header can abort the kernel of the receiver.
\<close>

section \<open>Headers\<close>

lemma mail_bytes_length [simp]: "length (mail_bytes h) = 12"
  by (simp add: mail_bytes_def)

lemma bytes_mail_bytes [simp]: "bytes_mail (mail_bytes h @ bs) = h"
  using bytes_words_bytes [of "[box_to h, box_from h, mail_length h]" bs]
  by (simp add: bytes_mail_def mail_bytes_def Let_def numeral_3_eq_3)

lemmas mail_constants = network_constants sizeof_MailHeader_def MaxMailSize_def

lemma mail_size:
  assumes "len \<le> (40 :: u32)"
  shows "unat len \<le> 40" "uint len = int (unat len)" "unat (len + 12) = unat len + 12" "0 < len + 12" "len + 12 \<le> 52"
proof -
  show n: "unat len \<le> 40" "uint len = int (unat len)" using assms by (simp_all add: word_le_nat_alt)
  then show u: "unat (len + 12) = unat len + 12" by (simp add: unat_word_ariths)
  then show "0 < len + 12" by (simp add: word_less_nat_alt)
  show "len + 12 \<le> 52" using n u by (simp add: word_le_nat_alt)
qed

lemma copy_middle:
  assumes "length pre = 12" "n \<le> length data" "12 + n \<le> 12 + length suf"
  shows "copy_into data 12 (int n) (pre @ suf) = Inr (pre @ take n data @ drop n suf)"
  using copy_into_ok(1) [of "int n" data 12 "pre @ suf"] assms by (simp add: nat_add_distrib)

section \<open>Sending\<close>

definition sent_header :: "packet_header \<Rightarrow> mail_header \<Rightarrow> u32 \<Rightarrow> packet_header" where
  "sent_header pkt hdr host = pkt\<lparr>pkt_from := host, pkt_length := mail_length hdr + 12\<rparr>"

definition sent_data :: "u8 list \<Rightarrow> mail_header \<Rightarrow> u8 list \<Rightarrow> u8 list" where
  "sent_data garbage hdr data =
     mail_bytes hdr @ take (unat (mail_length hdr)) data @ drop (12 + unat (mail_length hdr)) garbage"

lemma sent_data_length:
  assumes "mail_length hdr \<le> 40" "unat (mail_length hdr) \<le> length data" "length garbage = 52"
  shows "length (sent_data garbage hdr data) = 52"
  using mail_size(1) [OF assms(1)] assms(2,3) by (simp add: sent_data_def)

definition on_wire :: "u8 list \<Rightarrow> u8 list \<Rightarrow> packet_header \<Rightarrow> u8 list" where
  "on_wire wire_garbage bs ph =
     header_bytes ph @ take (unat (pkt_length ph)) bs @ drop (12 + unat (pkt_length ph)) wire_garbage"

lemma Send_ok:
  fixes pkt :: packet_header
  assumes "devices_ok s" "mail_length hdr \<le> 40" "0 \<le> sint (box_to hdr)" "unat (mail_length hdr) \<le> length data"
    and "length garbage = 52" "length wire_garbage = 64" "\<not> sendLock s" "sendBusy (networkOutput s) = False"
    and "of_int (random_numbers s (random_used s) smod 100) < chanceToWork (networkOutput s) * 100"
  defines "ph \<equiv> sent_header pkt hdr (hostName s)"
  shows "\<exists>s'. PostOfficeOutput_Send garbage wire_garbage pkt hdr data s = Inr (Some s') \<and>
    wire (networkOutput s') = wire (networkOutput s) @ [(pkt_to pkt, on_wire wire_garbage (sent_data garbage hdr data) ph)]"
proof -
  let ?n = "unat (mail_length hdr)"
  note n = mail_size [OF assms(2)]
  have h: "copy_into (mail_bytes hdr) 0 12 garbage = Inr (mail_bytes hdr @ drop 12 garbage)"
    using copy_into_ok(1) [of 12 "mail_bytes hdr" 0 garbage] assms(5) by simp
  have d: "copy_into data 12 (uint (mail_length hdr)) (mail_bytes hdr @ drop 12 garbage) = Inr (sent_data garbage hdr data)"
    unfolding n(2) using copy_middle [of "mail_bytes hdr" ?n data "drop 12 garbage"] n(1) assms(4,5)
    by (simp add: sent_data_def add.commute)
  have ph: "pkt_length ph = mail_length hdr + 12" "pkt_from ph = hostName s" "pkt_to ph = pkt_to pkt"
    by (simp_all add: ph_def sent_header_def)
  have ok: "devices_ok (s\<lparr>sendLock := True\<rparr>)" using assms(1)
    by (simp add: devices_ok_def hardware_ok_def disk_ok_def keyboard_ok_def network_ok_def waiting_def)
  have "\<exists>s'. NetworkOutput_Send wire_garbage ph (sent_data garbage hdr data) (s\<lparr>sendLock := True\<rparr>) = Inr s' \<and>
      wire (networkOutput s') = wire (networkOutput s) @ [(pkt_to pkt, on_wire wire_garbage (sent_data garbage hdr data) ph)]"
    using packet_sent(1) [OF ok, of ph "sent_data garbage hdr data" wire_garbage] ph n assms(6,8,9)
      sent_data_length [OF assms(2,4,5)] by (simp add: on_wire_def network_constants)
  then obtain s' where "NetworkOutput_Send wire_garbage ph (sent_data garbage hdr data) (s\<lparr>sendLock := True\<rparr>) = Inr s'"
    "wire (networkOutput s') = wire (networkOutput s) @ [(pkt_to pkt, on_wire wire_garbage (sent_data garbage hdr data) ph)]"
    by blast
  moreover have "(of_nat MaxMailSize :: u32) = 40" "(of_nat sizeof_MailHeader :: u32) = 12" by (simp_all add: mail_constants)
  ultimately show ?thesis using assms(2,3,7) h d
    by (simp add: PostOfficeOutput_Send_def Let_def sizeof_MailHeader_def flip: sent_header_def ph_def) 
qed

section \<open>Arrival\<close>

text \<open>The interrupt, and the worker's buffer after it has received the packet.\<close>

lemma mail_arrives:
  fixes host :: u32
  assumes "devices_ok r" "hostName r = pkt_to pkt" "pkt_length (inHdr (networkInput r)) = 0"
    and "mail_length hdr \<le> 40" "unat (mail_length hdr) \<le> length data" "length garbage = 52" "length wire_garbage = 64"
    and "length buffer = 52"
  defines "ph \<equiv> sent_header pkt hdr host"
  shows "\<exists>r1 r2. NetworkInput_CallBack PostOfficeInput_CallBack (r\<lparr>networkInput := (networkInput r)\<lparr>arriving :=
        Some (on_wire wire_garbage (sent_data garbage hdr data) ph) # rest\<rparr>\<rparr>) = Inr r1 \<and>
      messageAvailable r1 = messageAvailable r + 1 \<and>
      NetworkInput_Receive buffer (r1\<lparr>messageAvailable := messageAvailable r1 - 1\<rparr>) = Inr (ph,
        mail_bytes hdr @ take (unat (mail_length hdr)) data @ drop (12 + unat (mail_length hdr)) buffer, r2) \<and>
      boxes r2 = boxes r \<and> boxes r1 = boxes r"
proof -
  let ?n = "unat (mail_length hdr)" and ?d = "sent_data garbage hdr data"
  note n = mail_size [OF assms(4)]
  have ph: "pkt_length ph = mail_length hdr + 12" "pkt_to ph = pkt_to pkt" by (simp_all add: ph_def sent_header_def)
  have len: "length ?d = 52" by (rule sent_data_length [OF assms(4-6)])
  have pre: "hostName r = pkt_to ph" "pkt_length ph \<le> 52" "unat (pkt_length ph) \<le> length ?d" "length wire_garbage = MaxWireSize"
    using assms(2,7) n(1,3,5) len by (simp_all add: ph network_constants)
  note arr = packet_arrives [OF assms(1) pre(1) assms(3) pre(2-4)]
  let ?new = "take (?n + 12) ?d @ drop (?n + 12) (inbox (networkInput r))"
  obtain q where q: "NetworkInput_CallBack PostOfficeInput_CallBack (r\<lparr>networkInput := (networkInput r)\<lparr>arriving :=
        Some (on_wire wire_garbage ?d ph) # rest\<rparr>\<rparr>) =
      PostOfficeInput_CallBack (r\<lparr>pending := q, next_address := next_address r + 1,
        networkInput := (networkInput r)\<lparr>arriving := rest, inHdr := ph, inbox := ?new\<rparr>,
        stats := (stats r)\<lparr>numPacketsRecvd := s32 (numPacketsRecvd (stats r) + 1)\<rparr>\<rparr>)"
    and new: "length ?new = 52"
proof -
    have c: "unat (pkt_length ph) = ?n + 12" "12 + unat (pkt_length ph) = 12 + (?n + 12)" using n(3) by (simp_all add: ph)
    show ?thesis using that arr(1) [of PostOfficeInput_CallBack rest] arr(2) unfolding on_wire_def c by blast
  qed
  have take_d: "take (?n + 12) ?d = mail_bytes hdr @ take ?n data" using assms(5) by (simp add: sent_data_def)
  let ?r1 = "r\<lparr>pending := q, next_address := next_address r + 1,
        networkInput := (networkInput r)\<lparr>arriving := rest, inHdr := ph, inbox := ?new\<rparr>,
        stats := (stats r)\<lparr>numPacketsRecvd := s32 (numPacketsRecvd (stats r) + 1)\<rparr>, messageAvailable := messageAvailable r + 1\<rparr>"
  have "NetworkInput_Receive buffer (?r1\<lparr>messageAvailable := messageAvailable ?r1 - 1\<rparr>) = Inr (ph,
      take (?n + 12) ?new @ drop (?n + 12) buffer,
      (?r1\<lparr>messageAvailable := messageAvailable ?r1 - 1\<rparr>)\<lparr>networkInput :=
        (networkInput ?r1)\<lparr>inHdr := ph\<lparr>pkt_length := 0\<rparr>\<rparr>\<rparr>)"
    using packet_taken [of "?r1\<lparr>messageAvailable := messageAvailable ?r1 - 1\<rparr>" "mail_length hdr + 12" buffer] n new assms(8) ph
    by simp
  moreover have "take (?n + 12) ?new = mail_bytes hdr @ take ?n data" using take_d len n(1) assms(5) by simp
  ultimately show ?thesis using q by (auto simp: PostOfficeInput_CallBack_def add.commute)
qed

definition arrived :: "packet_header \<Rightarrow> mail_header \<Rightarrow> u8 list \<Rightarrow> u8 list \<Rightarrow> mail" where
  "arrived ph hdr data garbage =
     \<lparr>pktHdr = ph, mailHdr = hdr,
      mail_data = take (unat (mail_length hdr)) data @ drop (unat (mail_length hdr)) garbage\<rparr>"

lemma Mail_arrived:
  assumes "mail_length hdr \<le> 40" "unat (mail_length hdr) \<le> length data" "length garbage = 40"
  shows "Mail_Mail garbage ph hdr (take (unat (mail_length hdr)) data @ rest) = Inr (arrived ph hdr data garbage)"
proof -
  note n = mail_size [OF assms(1)]
  have "copy_into (take (unat (mail_length hdr)) data @ rest) 0 (uint (mail_length hdr)) garbage =
      Inr (mail_data (arrived ph hdr data garbage))"
    unfolding n(2) using copy_front [of "unat (mail_length hdr)" "take (unat (mail_length hdr)) data @ rest" garbage]
      n(1) assms(2,3) by (simp add: arrived_def)
  moreover have "(of_nat MaxMailSize :: u32) = 40" by (simp add: mail_constants)
  ultimately show ?thesis using assms(1) by (simp add: Mail_Mail_def arrived_def)
qed

lemma delivered:
  assumes "messageAvailable r > 0" "mail_length hdr \<le> 40" "unat (mail_length hdr) \<le> length data" "length mgarbage = 40"
    and "NetworkInput_Receive buffer (r\<lparr>messageAvailable := messageAvailable r - 1\<rparr>) =
      Inr (ph, mail_bytes hdr @ take (unat (mail_length hdr)) data @ rest, r2)"
  shows "0 \<le> sint (box_to hdr) \<Longrightarrow> sint (box_to hdr) < int (length (boxes r2)) \<Longrightarrow>
      \<exists>buf. PostalDelivery mgarbage buffer r = Inr (Some (buf, r2\<lparr>boxes :=
        (boxes r2)[nat (sint (box_to hdr)) := boxes r2 ! nat (sint (box_to hdr)) @ [arrived ph hdr data mgarbage]]\<rparr>))"
    and "\<not> (0 \<le> sint (box_to hdr) \<and> sint (box_to hdr) < int (length (boxes r2))) \<Longrightarrow>
      PostalDelivery mgarbage buffer r = Inl AssertionFailed"
proof -
  have m: "(of_nat MaxMailSize :: u32) = 40" by (simp add: mail_constants)
  show "\<exists>buf. PostalDelivery mgarbage buffer r = Inr (Some (buf, r2\<lparr>boxes :=
        (boxes r2)[nat (sint (box_to hdr)) := boxes r2 ! nat (sint (box_to hdr)) @ [arrived ph hdr data mgarbage]]\<rparr>))"
    if "0 \<le> sint (box_to hdr)" "sint (box_to hdr) < int (length (boxes r2))"
    using that assms m Mail_arrived [OF assms(2-4), of ph rest]
    by (simp add: PostalDelivery_def MailBox_Put_def Let_def sizeof_MailHeader_def)
  show "PostalDelivery mgarbage buffer r = Inl AssertionFailed"
    if "\<not> (0 \<le> sint (box_to hdr) \<and> sint (box_to hdr) < int (length (boxes r2)))"
    using that assms(1,5) by (auto simp: PostalDelivery_def Let_def)
qed

lemma received:
  assumes "0 \<le> box" "box < int (length (boxes r))" "boxes r ! nat box = arrived ph hdr data garbage # rest"
    and "mail_length hdr \<le> 40" "unat (mail_length hdr) \<le> length data" "unat (mail_length hdr) \<le> length room"
  shows "PostOfficeInput_Receive box room r = Inr (Some (ph, hdr,
    take (unat (mail_length hdr)) data @ drop (unat (mail_length hdr)) room, r\<lparr>boxes := (boxes r)[nat box := rest]\<rparr>))"
proof -
  let ?m = "mail_data (arrived ph hdr data garbage)"
  note n = mail_size [OF assms(4)]
  have "copy_into ?m 0 (uint (mail_length hdr)) room = Inr (take (unat (mail_length hdr)) data @ drop (unat (mail_length hdr)) room)"
    unfolding n(2) using copy_front [of "unat (mail_length hdr)" ?m room] assms(5,6) by (simp add: arrived_def)
  moreover have "(of_nat MaxMailSize :: u32) = 40" by (simp add: mail_constants)
  ultimately show ?thesis using assms(1-4)
    by (simp add: PostOfficeInput_Receive_def MailBox_Get_def arrived_def)
qed

section \<open>From host to host\<close>

definition mail_fits :: "mail_header \<Rightarrow> u8 list \<Rightarrow> bool" where
  "mail_fits hdr data = (mail_length hdr \<le> of_nat MaxMailSize \<and> unat (mail_length hdr) \<le> length data)"

text \<open>A host whose network is idle and does not lose the next packet, and one that has taken every packet before.\<close>

definition can_send :: "post_office \<Rightarrow> bool" where
  "can_send s = (devices_ok s \<and> \<not> sendLock s \<and> \<not> sendBusy (networkOutput s) \<and>
     of_int (random_numbers s (random_used s) smod 100) < chanceToWork (networkOutput s) * 100)"

definition can_take :: "u32 \<Rightarrow> post_office \<Rightarrow> bool" where
  "can_take host r = (devices_ok r \<and> hostName r = host \<and> pkt_length (inHdr (networkInput r)) = 0)"

text \<open>A packet comes out of the socket, its interrupt is served and the postal worker makes one round.\<close>

definition packet_comes :: "u8 list \<Rightarrow> u8 list \<Rightarrow> u8 list \<Rightarrow> post_office \<Rightarrow> (u8 list \<times> post_office) option res" where
  "packet_comes garbage buffer packet r =
     bindr (NetworkInput_CallBack PostOfficeInput_CallBack
       (r\<lparr>networkInput := (networkInput r)\<lparr>arriving := Some packet # arriving (networkInput r)\<rparr>\<rparr>))
     (PostalDelivery garbage buffer)"

lemma mail_travels:
  assumes "mail_fits hdr data" "0 \<le> sint (box_to hdr)" "can_send s" "can_take (pkt_to pkt) r"
    and "length garbage = MaxPacketSize" "length wire_garbage = MaxWireSize"
    and "length buffer = MaxPacketSize" "length mgarbage = MaxMailSize"
  shows "\<exists>s' packet. PostOfficeOutput_Send garbage wire_garbage pkt hdr data s = Inr (Some s') \<and>
    wire (networkOutput s') = wire (networkOutput s) @ [(pkt_to pkt, packet)] \<and>
    (if sint (box_to hdr) < int (length (boxes r))
     then \<exists>buf r'. packet_comes mgarbage buffer packet r = Inr (Some (buf, r')) \<and> boxes r' =
       (boxes r)[nat (sint (box_to hdr)) := boxes r ! nat (sint (box_to hdr)) @
         [arrived (sent_header pkt hdr (hostName s)) hdr data mgarbage]]
     else packet_comes mgarbage buffer packet r = Inl AssertionFailed)"
proof -
  let ?ph = "sent_header pkt hdr (hostName s)"
  let ?w = "on_wire wire_garbage (sent_data garbage hdr data) ?ph"
  have fits: "mail_length hdr \<le> 40" "unat (mail_length hdr) \<le> length data"
    using assms(1) by (simp_all add: mail_fits_def mail_constants)
  have len: "length garbage = 52" "length wire_garbage = 64" "length buffer = 52" "length mgarbage = 40"
    using assms(5-8) by (simp_all add: mail_constants)
  obtain s' where s': "PostOfficeOutput_Send garbage wire_garbage pkt hdr data s = Inr (Some s')"
      "wire (networkOutput s') = wire (networkOutput s) @ [(pkt_to pkt, ?w)]"
    using Send_ok [OF _ fits(1) assms(2) fits(2) len(1,2)] assms(3) by (auto simp: can_send_def)
  obtain r1 r2 where r1: "NetworkInput_CallBack PostOfficeInput_CallBack (r\<lparr>networkInput := (networkInput r)\<lparr>arriving :=
        Some ?w # arriving (networkInput r)\<rparr>\<rparr>) = Inr r1" "messageAvailable r1 > 0"
      "NetworkInput_Receive buffer (r1\<lparr>messageAvailable := messageAvailable r1 - 1\<rparr>) = Inr (?ph,
        mail_bytes hdr @ take (unat (mail_length hdr)) data @ drop (12 + unat (mail_length hdr)) buffer, r2)"
      "boxes r2 = boxes r"
    using mail_arrives [OF _ _ _ fits len(1,2,3), of r pkt "hostName s" "arriving (networkInput r)"] assms(4)
    by (auto simp: can_take_def)
  note d = delivered [OF r1(2) fits len(4) r1(3)]
  have "if sint (box_to hdr) < int (length (boxes r))
     then \<exists>buf r'. packet_comes mgarbage buffer ?w r = Inr (Some (buf, r')) \<and> boxes r' =
       (boxes r)[nat (sint (box_to hdr)) := boxes r ! nat (sint (box_to hdr)) @ [arrived ?ph hdr data mgarbage]]
     else packet_comes mgarbage buffer ?w r = Inl AssertionFailed"
    using d assms(2) r1(1,4) by (auto simp: packet_comes_def)
  with s' show ?thesis by blast
qed

text \<open>
  C35: Mail that the network does not lose arrives as it was sent: the post office of the receiving host appends it to
  the mailbox it is addressed to and to no other, and the thread that takes it out of the mailbox, whenever that is,
  gets the sender's host and mailboxes and the same data.
\<close>

theorem mail_roundtrip:
  assumes "mail_fits hdr data" "can_send s" "can_take (pkt_to pkt) r"
    and "0 \<le> sint (box_to hdr)" "sint (box_to hdr) < int (length (boxes r))"
    and "length garbage = MaxPacketSize" "length wire_garbage = MaxWireSize"
    and "length buffer = MaxPacketSize" "length mgarbage = MaxMailSize"
  defines "b \<equiv> nat (sint (box_to hdr))"
  shows "\<exists>s' packet buf r' m. PostOfficeOutput_Send garbage wire_garbage pkt hdr data s = Inr (Some s') \<and>
    wire (networkOutput s') = wire (networkOutput s) @ [(pkt_to pkt, packet)] \<and>
    packet_comes mgarbage buffer packet r = Inr (Some (buf, r')) \<and> boxes r' = (boxes r)[b := boxes r ! b @ [m]] \<and>
    (\<forall>u rest room. b < length (boxes u) \<and> boxes u ! b = m # rest \<and> unat (mail_length hdr) \<le> length room \<longrightarrow>
       PostOfficeInput_Receive (sint (box_to hdr)) room u = Inr (Some
         (pkt\<lparr>pkt_from := hostName s, pkt_length := mail_length hdr + of_nat sizeof_MailHeader\<rparr>, hdr,
          take (unat (mail_length hdr)) data @ drop (unat (mail_length hdr)) room, u\<lparr>boxes := (boxes u)[b := rest]\<rparr>)))"
proof -
  let ?ph = "sent_header pkt hdr (hostName s)"
  have fits: "mail_length hdr \<le> 40" "unat (mail_length hdr) \<le> length data"
    using assms(1) by (simp_all add: mail_fits_def mail_constants)
  have hdr: "pkt\<lparr>pkt_from := hostName s, pkt_length := mail_length hdr + of_nat sizeof_MailHeader\<rparr> = ?ph"
    by (simp add: sent_header_def sizeof_MailHeader_def)
  have take: "PostOfficeInput_Receive (sint (box_to hdr)) room u = Inr (Some (?ph, hdr,
      take (unat (mail_length hdr)) data @ drop (unat (mail_length hdr)) room, u\<lparr>boxes := (boxes u)[b := rest]\<rparr>))"
    if "b < length (boxes u)" "boxes u ! b = arrived ?ph hdr data mgarbage # rest" "unat (mail_length hdr) \<le> length room"
    for u rest room
    using received [of "sint (box_to hdr)" u ?ph hdr data mgarbage rest room] that fits assms(4)
    by (simp add: b_def nat_less_iff)
  show ?thesis unfolding hdr using mail_travels [OF assms(1,4,2,3,6-9)] assms(5) take b_def by (simp, blast)
qed

text \<open>
  C36: A host can take another one down: \<open>PostOfficeOutput::Send\<close> sends mail for any mailbox whose number is not
  negative, for it cannot know how many the receiver has, and the receiver does not discard mail for a box it does not
  have but fails an assertion, which aborts its kernel.
\<close>

theorem unknown_mailbox_crashes:
  assumes "mail_fits hdr data" "can_send s" "can_take (pkt_to pkt) r"
    and "0 \<le> sint (box_to hdr)" "int (length (boxes r)) \<le> sint (box_to hdr)"
    and "length garbage = MaxPacketSize" "length wire_garbage = MaxWireSize"
    and "length buffer = MaxPacketSize" "length mgarbage = MaxMailSize"
  shows "\<exists>s' packet. PostOfficeOutput_Send garbage wire_garbage pkt hdr data s = Inr (Some s') \<and>
    wire (networkOutput s') = wire (networkOutput s) @ [(pkt_to pkt, packet)] \<and>
    packet_comes mgarbage buffer packet r = Inl AssertionFailed"
  using mail_travels [OF assms(1,4,2,3,6-9)] assms(5) by simp

section \<open>Witnesses\<close>

definition idle_office :: post_office where
  "idle_office = devices.extend idle_devices
     \<lparr>boxes = replicate 2 MailBox_MailBox, messageAvailable = 0, messageSent = 0, sendLock = False\<rparr>"

lemma idle_office_ready: "can_send idle_office" "can_take 0 idle_office" "boxes idle_office = [[], []]"
  by (simp_all add: can_send_def can_take_def devices_ok_def disk_ok_def keyboard_ok_def network_ok_def hardware_ok_def waiting_def
      ordered_by_def idle_office_def idle_devices_def devices.defs Disk_Disk_def Statistics_Statistics_def
      ConsoleOutput_ConsoleOutput_def NetworkOutput_NetworkOutput_def disk_constants network_constants
      MailBox_MailBox_def numeral_2_eq_2)

abbreviation hello_mail :: "u32 \<Rightarrow> mail_header" where
  "hello_mail box \<equiv> \<lparr>box_to = box, box_from = 0, mail_length = 3\<rparr>"

theorem mail_roundtrip_witness:
  "\<exists>s' packet buf r' m. PostOfficeOutput_Send (replicate 52 0) (replicate 64 0) hello_header (hello_mail 1) [1, 2, 3]
      idle_office = Inr (Some s') \<and> wire (networkOutput s') = wire (networkOutput idle_office) @ [(0, packet)] \<and>
    packet_comes (replicate 40 0) (replicate 52 0) packet idle_office = Inr (Some (buf, r')) \<and> boxes r' = [[], [m]]"
  using mail_roundtrip [of "hello_mail 1" "[1, 2, 3]" idle_office hello_header idle_office "replicate 52 0"
      "replicate 64 0" "replicate 52 0" "replicate 40 0"] idle_office_ready
  by (simp add: mail_fits_def mail_constants, blast)

theorem unknown_mailbox_crashes_witness:
  "\<exists>s' packet. PostOfficeOutput_Send (replicate 52 0) (replicate 64 0) hello_header (hello_mail 2) [1, 2, 3]
      idle_office = Inr (Some s') \<and> wire (networkOutput s') = wire (networkOutput idle_office) @ [(0, packet)] \<and>
    packet_comes (replicate 40 0) (replicate 52 0) packet idle_office = Inl AssertionFailed"
  using unknown_mailbox_crashes [of "hello_mail 2" "[1, 2, 3]" idle_office hello_header idle_office "replicate 52 0"
      "replicate 64 0" "replicate 52 0" "replicate 40 0"] idle_office_ready
  by (simp add: mail_fits_def mail_constants)

end
