(* ===== verification/Start_Up.thy ===== *)
theory Start_Up
  imports File_System Host_Files
begin

text \<open>
  The command line and what \<open>main\<close> does with it (\<open>threads/main.cc\<close>, the constructor in \<open>threads/kernel.cc\<close>).
  \<open>stub\<close> says whether the code is compiled with \<open>FILESYS_STUB\<close>.  Both loops read the same arguments, each for the
  flags it knows; \<open>argv\<close> is the list of the arguments after the name of the command.  What \<open>-u\<close> and \<open>-z\<close> print
  is left out.
\<close>

section \<open>Flags of the kernel\<close>

record kernel_flags =
  randomSlice :: bool
  randomSeed :: "u32 option"
  debugUserProg :: bool
  consoleIn :: "string option"
  consoleOut :: "string option"
  formatFlag :: bool
  reliability :: rat
  hostName_flag :: int

definition kernel_defaults :: kernel_flags where
  "kernel_defaults = \<lparr>randomSlice = False, randomSeed = None, debugUserProg = False, consoleIn = None,
     consoleOut = None, formatFlag = False, reliability = 1, hostName_flag = 0\<rparr>"

text \<open>\<open>atoi\<close> of the C library: white space, a sign, digits; a number that does not fit becomes the nearest that does.\<close>

definition isspace :: "char \<Rightarrow> bool" where
  "isspace c = (of_char c = (32 :: nat) \<or> 9 \<le> (of_char c :: nat) \<and> of_char c \<le> (13 :: nat))"

definition isdigit :: "char \<Rightarrow> bool" where
  "isdigit c = (48 \<le> (of_char c :: nat) \<and> of_char c \<le> (57 :: nat))"

definition digits :: "string \<Rightarrow> int" where
  "digits s = foldl (\<lambda>n c. 10 * n + (of_char c - 48)) 0 (takeWhile isdigit s)"

definition atoi :: "string \<Rightarrow> int" where
  "atoi s =
     (let n = (case dropWhile isspace s of
          [] \<Rightarrow> 0
        | c # t \<Rightarrow> if c = CHR ''-'' then - digits t else if c = CHR ''+'' then digits t else digits (c # t)) in
      max (- (2 ^ 31)) (min (2 ^ 31 - 1) n))"

text \<open>
  \<open>Kernel::Kernel\<close>.  The \<open>atof\<close> of the C library, which rounds to a \<open>double\<close>, is an argument.  \<open>RandomInit\<close> is
  the seed.
\<close>

fun Kernel_args :: "(string \<Rightarrow> rat) \<Rightarrow> bool \<Rightarrow> string list \<Rightarrow> kernel_flags \<Rightarrow> kernel_flags res" where
  "Kernel_args atof stub [] k = Inr k"
| "Kernel_args atof stub (a # as) k =
     (if a = ''-rs'' then
        (case as of [] \<Rightarrow> Inl AssertionFailed
         | v # as \<Rightarrow> Kernel_args atof stub as (k\<lparr>randomSeed := Some (of_int (atoi v)), randomSlice := True\<rparr>))
      else if a = ''-s'' then Kernel_args atof stub as (k\<lparr>debugUserProg := True\<rparr>)
      else if a = ''-ci'' then
        (case as of [] \<Rightarrow> Inl AssertionFailed | v # as \<Rightarrow> Kernel_args atof stub as (k\<lparr>consoleIn := Some v\<rparr>))
      else if a = ''-co'' then
        (case as of [] \<Rightarrow> Inl AssertionFailed | v # as \<Rightarrow> Kernel_args atof stub as (k\<lparr>consoleOut := Some v\<rparr>))
      else if \<not> stub \<and> a = ''-f'' then Kernel_args atof stub as (k\<lparr>formatFlag := True\<rparr>)
      else if a = ''-n'' then
        (case as of [] \<Rightarrow> Inl AssertionFailed | v # as \<Rightarrow> Kernel_args atof stub as (k\<lparr>reliability := atof v\<rparr>))
      else if a = ''-m'' then
        (case as of [] \<Rightarrow> Inl AssertionFailed | v # as \<Rightarrow> Kernel_args atof stub as (k\<lparr>hostName_flag := atoi v\<rparr>))
      else Kernel_args atof stub as k)"

section \<open>Flags of \<open>main\<close>\<close>

record main_flags =
  debugArg :: string
  userProgName :: "string option"
  threadTestFlag :: bool
  consoleTestFlag :: bool
  networkTestFlag :: bool
  copyUnixFileName :: "string option"
  copyNachosFileName :: "string option"
  printFileName :: "string option"
  removeFileName :: "string option"
  dirListFlag :: bool
  dumpFlag :: bool

definition main_defaults :: main_flags where
  "main_defaults = \<lparr>debugArg = [], userProgName = None, threadTestFlag = False, consoleTestFlag = False,
     networkTestFlag = False, copyUnixFileName = None, copyNachosFileName = None, printFileName = None,
     removeFileName = None, dirListFlag = False, dumpFlag = False\<rparr>"

fun main_args :: "bool \<Rightarrow> string list \<Rightarrow> main_flags \<Rightarrow> main_flags res" where
  "main_args stub [] m = Inr m"
| "main_args stub (a # as) m =
     (if a = ''-d'' then
        (case as of [] \<Rightarrow> Inl AssertionFailed | v # as \<Rightarrow> main_args stub as (m\<lparr>debugArg := v\<rparr>))
      else if a = ''-z'' then main_args stub as m
      else if a = ''-x'' then
        (case as of [] \<Rightarrow> Inl AssertionFailed | v # as \<Rightarrow> main_args stub as (m\<lparr>userProgName := Some v\<rparr>))
      else if a = ''-K'' then main_args stub as (m\<lparr>threadTestFlag := True\<rparr>)
      else if a = ''-C'' then main_args stub as (m\<lparr>consoleTestFlag := True\<rparr>)
      else if a = ''-N'' then main_args stub as (m\<lparr>networkTestFlag := True\<rparr>)
      else if \<not> stub \<and> a = ''-cp'' then
        (case as of [] \<Rightarrow> Inl AssertionFailed | [_] \<Rightarrow> Inl AssertionFailed
         | u # v # as \<Rightarrow> main_args stub as (m\<lparr>copyUnixFileName := Some u, copyNachosFileName := Some v\<rparr>))
      else if \<not> stub \<and> a = ''-p'' then
        (case as of [] \<Rightarrow> Inl AssertionFailed | v # as \<Rightarrow> main_args stub as (m\<lparr>printFileName := Some v\<rparr>))
      else if \<not> stub \<and> a = ''-r'' then
        (case as of [] \<Rightarrow> Inl AssertionFailed | v # as \<Rightarrow> main_args stub as (m\<lparr>removeFileName := Some v\<rparr>))
      else if \<not> stub \<and> a = ''-l'' then main_args stub as (m\<lparr>dirListFlag := True\<rparr>)
      else if \<not> stub \<and> a = ''-D'' then main_args stub as (m\<lparr>dumpFlag := True\<rparr>)
      else main_args stub as m)"

text \<open>
  What \<open>main\<close> does once the kernel is initialized, in its order.  A program that can be loaded never comes back
  (\<open>Run_program\<close> of \<open>Addr_Space\<close>), so \<open>Halt\<close> is for the other cases.
\<close>

datatype command = ThreadSelfTest | ConsoleTest | NetworkTest | RemoveFile string | CopyFile string string
  | DumpFileSystem | ListFiles | PrintFile string | RunProgram string | HaltMachine

definition main_commands :: "bool \<Rightarrow> main_flags \<Rightarrow> command list" where
  "main_commands stub m =
     (if threadTestFlag m then [ThreadSelfTest] else []) @
     (if consoleTestFlag m then [ConsoleTest] else []) @
     (if networkTestFlag m then [NetworkTest] else []) @
     (if stub then []
      else
        (case removeFileName m of None \<Rightarrow> [] | Some f \<Rightarrow> [RemoveFile f]) @
        (case (copyUnixFileName m, copyNachosFileName m) of (Some u, Some v) \<Rightarrow> [CopyFile u v] | _ \<Rightarrow> []) @
        (if dumpFlag m then [DumpFileSystem] else []) @
        (if dirListFlag m then [ListFiles] else []) @
        (case printFileName m of None \<Rightarrow> [] | Some f \<Rightarrow> [PrintFile f])) @
     (case userProgName m of None \<Rightarrow> [] | Some f \<Rightarrow> [RunProgram f]) @ [HaltMachine]"

text \<open>The flags and the work of a whole command line: \<open>main\<close> reads it first, then the constructor of the kernel does.\<close>

definition nachos_main :: "(string \<Rightarrow> rat) \<Rightarrow> bool \<Rightarrow> string list \<Rightarrow> (kernel_flags \<times> command list) res" where
  "nachos_main atof stub argv =
     bindr (main_args stub argv main_defaults) (\<lambda>m.
     bindr (Kernel_args atof stub argv kernel_defaults) (\<lambda>k.
     Inr (k, main_commands stub m)))"

section \<open>Copying files in and printing them\<close>

definition TransferSize :: int where "TransferSize = 128"

definition c_string :: "string \<Rightarrow> u8 list" where "c_string s = List.map of_char s @ [0]"

text \<open>
  The loops stop when a read delivers nothing; whether the host ever does is its affair, so a loop that never ends
  is \<open>None\<close>.  The file is the object the table of open files points to.
\<close>

partial_function (option) Copy_loop ::
    "'w host \<Rightarrow> (nat \<Rightarrow> nat \<Rightarrow> u8) \<Rightarrow> int \<Rightarrow> nat \<Rightarrow> open_file \<Rightarrow> platter \<Rightarrow> 'w \<Rightarrow> (open_file \<times> platter \<times> 'w) res option" where
  "Copy_loop h garbage fd i f d w =
     (case ReadPartial h fd TransferSize w of
        Inl e \<Rightarrow> Some (Inl e)
      | Inr ((amountRead, bs), w) \<Rightarrow>
          if amountRead > 0 then
            (case OpenFile_Write (garbage i) bs amountRead f d of
               Inl e \<Rightarrow> Some (Inl e)
             | Inr (_, f, d) \<Rightarrow> Copy_loop h garbage fd (i + 1) f d w)
          else Some (Inr (f, d, w)))"

definition Copy :: "'w host \<Rightarrow> (nat \<Rightarrow> fresh) \<Rightarrow> string \<Rightarrow> string \<Rightarrow> file_system \<Rightarrow> 'w \<Rightarrow> (file_system \<times> 'w) res option" where
  "Copy h g from to fs w =
     (case bindr (OpenForReadWrite h (c_string from) False w) (\<lambda>(fd, w).
           if fd < 0 then Inr (None, fs, w)
           else
             bindr (Lseek h fd 0 2 w) (\<lambda>w.
             bindr (Tell h fd w) (\<lambda>(fileLength, w).
             bindr (Lseek h fd 0 0 w) (\<lambda>w.
             bindr (FileSystem_Create (g 0) (c_string to) fileLength fs) (\<lambda>(created, fs).
             if \<not> created then bindr (Close h fd w) (\<lambda>(_, w). Inr (None, fs, w))
             else
               bindr (FileSystem_Open (g 1) (c_string to) fs) (\<lambda>openFile.
               case openFile of
                 None \<Rightarrow> Inl AssertionFailed
               | Some (f, _) \<Rightarrow> Inr (Some (fd, f), fs, w))))))) of
        Inl e \<Rightarrow> Some (Inl e)
      | Inr (None, fs, w) \<Rightarrow> Some (Inr (fs, w))
      | Inr (Some (fd, f), fs, w) \<Rightarrow>
          (case Copy_loop h (g_buf (g 2)) fd 0 f (fs_disk fs) w of
             None \<Rightarrow> None
           | Some r \<Rightarrow> Some (bindr r (\<lambda>(f, d, w). bindr (Close h fd w) (\<lambda>(_, w). Inr (fs\<lparr>fs_disk := d\<rparr>, w))))))"

text \<open>\<open>Print\<close>: the characters it writes, with \<open>None\<close> for the message that the file cannot be opened.\<close>

partial_function (option) Print_loop :: "open_file \<Rightarrow> platter \<Rightarrow> u8 list \<Rightarrow> u8 list res option" where
  "Print_loop f d out =
     (case OpenFile_Read TransferSize f d of
        Inl e \<Rightarrow> Some (Inl e)
      | Inr (amountRead, bs, f) \<Rightarrow>
          if amountRead > 0 then Print_loop f d (out @ take (nat amountRead) bs) else Some (Inr out))"

definition Print :: "fresh \<Rightarrow> string \<Rightarrow> file_system \<Rightarrow> u8 list option res option" where
  "Print g name fs =
     (case FileSystem_Open g (c_string name) fs of
        Inl e \<Rightarrow> Some (Inl e)
      | Inr None \<Rightarrow> Some (Inr None)
      | Inr (Some (f, _)) \<Rightarrow>
          (case Print_loop f (fs_disk fs) [] of None \<Rightarrow> None | Some r \<Rightarrow> Some (bindr r (\<lambda>out. Inr (Some out)))))"

end
