(* ===== verification/Start_Up_Correct.thy ===== *)
theory Start_Up_Correct
  imports Start_Up
begin

text \<open>
  How a command line is understood: two parsers that skip each other's flags read it as the list of options it was
  written as, provided no value looks like a flag; and what happens when one does, or when a value is missing.
\<close>

section \<open>Options\<close>

datatype opt = Seed string | SingleStep | ConsoleFrom string | ConsoleTo string | Format | Reliability string | Host string
  | DebugFlags string | Copyright | Program string | ThreadTest | TestConsole | TestNetwork | CopyIn string string
  | ShowFile string | Delete string | ListAll | Dump | Usage

fun opt_values :: "opt \<Rightarrow> string list" where
  "opt_values (Seed v) = [v]"
| "opt_values (ConsoleFrom v) = [v]"
| "opt_values (ConsoleTo v) = [v]"
| "opt_values (Reliability v) = [v]"
| "opt_values (Host v) = [v]"
| "opt_values (DebugFlags v) = [v]"
| "opt_values (Program v) = [v]"
| "opt_values (CopyIn u v) = [u, v]"
| "opt_values (ShowFile v) = [v]"
| "opt_values (Delete v) = [v]"
| "opt_values _ = []"

fun opt_flag :: "opt \<Rightarrow> string" where
  "opt_flag (Seed v) = ''-rs''"
| "opt_flag SingleStep = ''-s''"
| "opt_flag (ConsoleFrom v) = ''-ci''"
| "opt_flag (ConsoleTo v) = ''-co''"
| "opt_flag Format = ''-f''"
| "opt_flag (Reliability v) = ''-n''"
| "opt_flag (Host v) = ''-m''"
| "opt_flag (DebugFlags v) = ''-d''"
| "opt_flag Copyright = ''-z''"
| "opt_flag (Program v) = ''-x''"
| "opt_flag ThreadTest = ''-K''"
| "opt_flag TestConsole = ''-C''"
| "opt_flag TestNetwork = ''-N''"
| "opt_flag (CopyIn u v) = ''-cp''"
| "opt_flag (ShowFile v) = ''-p''"
| "opt_flag (Delete v) = ''-r''"
| "opt_flag ListAll = ''-l''"
| "opt_flag Dump = ''-D''"
| "opt_flag Usage = ''-u''"

definition opt_words :: "opt \<Rightarrow> string list" where "opt_words p = opt_flag p # opt_values p"

definition command_line :: "opt list \<Rightarrow> string list" where
  "command_line ps = concat (List.map opt_words ps)"

definition flags :: "string list" where
  "flags = [''-rs'', ''-s'', ''-ci'', ''-co'', ''-f'', ''-n'', ''-m'', ''-d'', ''-z'', ''-x'', ''-K'', ''-C'', ''-N'',
     ''-cp'', ''-p'', ''-r'', ''-l'', ''-D'', ''-u'']"

definition plain :: "opt \<Rightarrow> bool" where "plain p = (\<forall>v \<in> set (opt_values p). v \<notin> set flags)"

section \<open>What each option means\<close>

fun kernel_effect :: "(string \<Rightarrow> rat) \<Rightarrow> bool \<Rightarrow> opt \<Rightarrow> kernel_flags \<Rightarrow> kernel_flags" where
  "kernel_effect atof stub (Seed v) k = k\<lparr>randomSeed := Some (of_int (atoi v)), randomSlice := True\<rparr>"
| "kernel_effect atof stub SingleStep k = k\<lparr>debugUserProg := True\<rparr>"
| "kernel_effect atof stub (ConsoleFrom v) k = k\<lparr>consoleIn := Some v\<rparr>"
| "kernel_effect atof stub (ConsoleTo v) k = k\<lparr>consoleOut := Some v\<rparr>"
| "kernel_effect atof stub Format k = (if stub then k else k\<lparr>formatFlag := True\<rparr>)"
| "kernel_effect atof stub (Reliability v) k = k\<lparr>reliability := atof v\<rparr>"
| "kernel_effect atof stub (Host v) k = k\<lparr>hostName_flag := atoi v\<rparr>"
| "kernel_effect atof stub _ k = k"

fun main_effect :: "bool \<Rightarrow> opt \<Rightarrow> main_flags \<Rightarrow> main_flags" where
  "main_effect stub (DebugFlags v) m = m\<lparr>debugArg := v\<rparr>"
| "main_effect stub (Program v) m = m\<lparr>userProgName := Some v\<rparr>"
| "main_effect stub ThreadTest m = m\<lparr>threadTestFlag := True\<rparr>"
| "main_effect stub TestConsole m = m\<lparr>consoleTestFlag := True\<rparr>"
| "main_effect stub TestNetwork m = m\<lparr>networkTestFlag := True\<rparr>"
| "main_effect stub (CopyIn u v) m = (if stub then m else m\<lparr>copyUnixFileName := Some u, copyNachosFileName := Some v\<rparr>)"
| "main_effect stub (ShowFile v) m = (if stub then m else m\<lparr>printFileName := Some v\<rparr>)"
| "main_effect stub (Delete v) m = (if stub then m else m\<lparr>removeFileName := Some v\<rparr>)"
| "main_effect stub ListAll m = (if stub then m else m\<lparr>dirListFlag := True\<rparr>)"
| "main_effect stub Dump m = (if stub then m else m\<lparr>dumpFlag := True\<rparr>)"
| "main_effect stub _ m = m"

lemma main_args_step: "plain p \<Longrightarrow> main_args stub (opt_words p @ rest) m = main_args stub rest (main_effect stub p m)"
  by (cases p) (simp_all add: plain_def flags_def opt_words_def)

lemma Kernel_args_step:
  "plain p \<Longrightarrow> Kernel_args atof stub (opt_words p @ rest) k = Kernel_args atof stub rest (kernel_effect atof stub p k)"
  by (cases p) (simp_all add: plain_def flags_def opt_words_def)

lemma main_args_command_line:
  "list_all plain ps \<Longrightarrow> main_args stub (command_line ps @ rest) m = main_args stub rest (fold (main_effect stub) ps m)"
  by (induction ps arbitrary: m) (simp_all add: command_line_def main_args_step)

lemma Kernel_args_command_line:
  "list_all plain ps \<Longrightarrow>
   Kernel_args atof stub (command_line ps @ rest) k = Kernel_args atof stub rest (fold (kernel_effect atof stub) ps k)"
  by (induction ps arbitrary: k) (simp_all add: command_line_def Kernel_args_step)

text \<open>
  C39: A command line is understood as it was written: whatever the options and their order, each sets what it means
  and nothing else, the last of several wins, \<open>main\<close> and the kernel each skip the other's options with
  their values, and a command line that ends in a flag whose value is missing fails an assertion.
\<close>

theorem command_line_understood:
  assumes "list_all plain ps"
  shows "nachos_main atof stub (command_line ps) =
      Inr (fold (kernel_effect atof stub) ps kernel_defaults, main_commands stub (fold (main_effect stub) ps main_defaults)) \<and>
    (\<forall>p. opt_values p \<noteq> [] \<and> (stub \<longrightarrow> opt_flag p \<notin> {''-cp'', ''-p'', ''-r''}) \<longrightarrow>
      nachos_main atof stub (command_line ps @ [opt_flag p]) = Inl AssertionFailed)"
proof (intro conjI allI impI)
  show "nachos_main atof stub (command_line ps) =
      Inr (fold (kernel_effect atof stub) ps kernel_defaults, main_commands stub (fold (main_effect stub) ps main_defaults))"
    using main_args_command_line [OF assms, of stub "[]" main_defaults]
      Kernel_args_command_line [OF assms, of atof stub "[]" kernel_defaults] by (simp add: nachos_main_def)
  fix p
  assume "opt_values p \<noteq> [] \<and> (stub \<longrightarrow> opt_flag p \<notin> {''-cp'', ''-p'', ''-r''})"
  then show "nachos_main atof stub (command_line ps @ [opt_flag p]) = Inl AssertionFailed"
    unfolding nachos_main_def main_args_command_line [OF assms] Kernel_args_command_line [OF assms]
    by (cases p) simp_all
qed

theorem command_line_understood_witness:
  "nachos_main (\<lambda>_. 1) False [''-rs'', ''42'', ''-x'', ''halt'', ''-m'', ''1''] =
     Inr (kernel_defaults\<lparr>randomSlice := True, randomSeed := Some 42, hostName_flag := 1\<rparr>,
       [RunProgram ''halt'', HaltMachine]) \<and>
   nachos_main (\<lambda>_. 1) False [''-rs'', ''42'', ''-x'', ''halt'', ''-m'', ''1'', ''-cp''] = Inl AssertionFailed"
proof -
  let ?ps = "[Seed ''42'', Program ''halt'', Host ''1'']"
  have plain: "list_all plain ?ps" by (simp add: plain_def flags_def)
  have line: "command_line ?ps = [''-rs'', ''42'', ''-x'', ''halt'', ''-m'', ''1'']"
    by (simp add: command_line_def opt_words_def)
  have atoi: "atoi ''42'' = 42" "atoi ''1'' = 1" by (simp_all add: atoi_def digits_def isspace_def isdigit_def)
  show ?thesis
    using command_line_understood [OF plain, of "\<lambda>_. 1" False] line atoi
    by (auto simp: main_commands_def main_defaults_def dest: spec [of _ "CopyIn [] []"])
qed

text \<open>A value that looks like a flag of the other parser is taken for it, too: to print the file \<open>-f\<close> formats the disk.\<close>

lemma value_taken_for_a_flag:
  "nachos_main atof False [''-p'', ''-f''] = Inr (kernel_defaults\<lparr>formatFlag := True\<rparr>, [PrintFile ''-f'', HaltMachine])"
  by (simp add: nachos_main_def main_commands_def main_defaults_def)

section \<open>Files cannot be copied in or printed\<close>

lemma free_slot_empty:
  "FindFreeSlot_from i fs = -1 \<or> (\<exists>n < length fs. fs ! n = None \<and> FindFreeSlot_from i fs = int (i + n))"
proof (induction fs arbitrary: i)
  case (Cons f fs)
  show ?case
  proof (cases "f = None")
    case False
    then show ?thesis using Cons [of "i + 1"] by fastforce
  qed force
qed simp

lemma Open_never_a_file: "FileSystem_Open g name fs \<noteq> Inr (Some f)"
proof -
  have "aget (ListFile fs) (FindFreeSlot fs) \<noteq> Inr (Some f)"
    using free_slot_empty [of 2 "drop 2 (ListFile fs)"] by (auto simp: FindFreeSlot_def aget_def nat_add_distrib)
  then show ?thesis by (auto simp: FileSystem_Open_def Let_def bindr_Inr_iff)
qed

lemma Create_False_keeps: "FileSystem_Create g name n fs = Inr (False, fs') \<Longrightarrow> fs' = fs"
  by (auto simp: FileSystem_Create_def Let_def bindr_Inr_iff split: if_splits prod.splits)

text \<open>
  The commands \<open>-cp\<close> and \<open>-p\<close> never do anything: because \<open>Open\<close> returns an empty slot of the file table
  instead of the file it has opened, \<open>Copy\<close> either leaves the disk as it was or fails, on an assertion at the latest
  after it has created the file, and \<open>Print\<close> prints nothing but that the file cannot be opened.
\<close>

theorem files_neither_copied_nor_printed:
  "(\<exists>r. Copy h g from to fs w = Some r \<and> (case r of Inl e \<Rightarrow> True | Inr (fs', w') \<Rightarrow> fs' = fs)) \<and>
   Print g' name fs \<in> {Some (Inr None)} \<union> range (\<lambda>e. Some (Inl e))"
proof
  show "Print g' name fs \<in> {Some (Inr None)} \<union> range (\<lambda>e. Some (Inl e))"
    using Open_never_a_file [of g' "c_string name" fs] by (auto simp: Print_def split: sum.splits option.splits)
  show "\<exists>r. Copy h g from to fs w = Some r \<and> (case r of Inl e \<Rightarrow> True | Inr (fs', w') \<Rightarrow> fs' = fs)"
  proof -
    define opened where "opened = bindr (OpenForReadWrite h (c_string from) False w) (\<lambda>(fd, w).
        if fd < 0 then Inr (None, fs, w)
        else
          bindr (Lseek h fd 0 2 w) (\<lambda>w.
          bindr (Tell h fd w) (\<lambda>(fileLength, w).
          bindr (Lseek h fd 0 0 w) (\<lambda>w.
          bindr (FileSystem_Create (g 0) (c_string to) fileLength fs) (\<lambda>(created, fs).
          if \<not> created then bindr (Close h fd w) (\<lambda>(_, w). Inr (None, fs, w))
          else
            bindr (FileSystem_Open (g 1) (c_string to) fs) (\<lambda>openFile.
            case openFile of None \<Rightarrow> Inl AssertionFailed | Some (f, _) \<Rightarrow> Inr (Some (fd, f), fs, w)))))))"
    have "fd = None \<and> fs' = fs" if "opened = Inr (fd, fs', w')" for fd fs' w'
      using that Open_never_a_file unfolding opened_def
      by (auto simp: bindr_Inr_iff dest: Create_False_keeps split: if_splits prod.splits option.splits)
    then show ?thesis unfolding Copy_def opened_def [symmetric] by (cases opened) (auto split: prod.splits)
  qed
qed

end
