(* ===== verification/Lib_Test.thy ===== *)
theory Lib_Test
  imports Start_Up Hash_Table
begin

text \<open>
  The library's self test (\<open>lib/libtest.cc\<close>), which \<open>Kernel::ThreadSelfTest\<close> starts with: bitmaps, lists, sorted
  lists and hash tables on the sample values of the file.
\<close>

definition IntCompare :: "int \<Rightarrow> int \<Rightarrow> int" where
  "IntCompare x y = (if x < y then -1 else if x = y then 0 else 1)"

definition HashInt :: "int \<Rightarrow> u32" where "HashInt key = of_int key"

definition HashKey :: "string \<Rightarrow> int" where "HashKey str = atoi str"

definition listTestVector :: "int list" where "listTestVector = [9, 5, 7]"

definition hashTestVector :: "string list" where
  "hashTestVector = [''0'', ''1'', ''2'', ''3'', ''4'', ''5'', ''6'', ''7'', ''8'', ''9'', ''10'', ''11'', ''12'', ''13'', ''14'']"

definition LibSelfTest :: "unit res" where
  "LibSelfTest =
     bindr (Bitmap_Bitmap 200) (\<lambda>map.
     bindr (Bitmap_SelfTest map) (\<lambda>map.
     bindr (List_SelfTest List_List listTestVector) (\<lambda>list.
     bindr (SortedList_SelfTest IntCompare List_List listTestVector) (\<lambda>sortList.
     bindr (HashTable_SelfTest hashTestVector (HashTable_HashTable HashKey HashInt)) (\<lambda>hashTable. Inr ())))))"

lemma IntCompare_preorder: "total_preorder IntCompare"
  by (auto simp: total_preorder_def IntCompare_def split: if_splits)

lemma test_keys_distinct: "distinct (List.map HashKey hashTestVector)"
  by (simp add: hashTestVector_def HashKey_def atoi_def digits_def isspace_def isdigit_def)

text \<open>No assertion of the library's self test fails.\<close>

theorem LibSelfTest_passes: "LibSelfTest = Inr ()"
proof -
  obtain bm where bm: "Bitmap_Bitmap 200 = Inr bm" "bm_inv bm" "numBits bm = 200" "bm_used bm = {}"
    using Bitmap_Bitmap_in [of 200] by auto
  then obtain bm' where "Bitmap_SelfTest bm = Inr bm'" using Bitmap_SelfTest_passes [of bm] by auto
  moreover have d: "distinct listTestVector" by (simp add: listTestVector_def)
  obtain l where "List_SelfTest List_List listTestVector = Inr l"
    using list_rel_SelfTest [OF list_rel_List, of listTestVector] d by (auto simp: refines_Inr_right)
  moreover obtain q where "SortedList_SelfTest IntCompare List_List listTestVector = Inr q"
    using SortedList_SelfTest_passes [OF IntCompare_preorder list_rel_List d] by blast
  moreover obtain t where "HashTable_SelfTest hashTestVector (HashTable_HashTable HashKey HashInt) = Inr t"
    using HashTable_SelfTest_passes [OF test_keys_distinct] by blast
  ultimately show ?thesis using bm(1) by (simp add: LibSelfTest_def)
qed

end
