(* ===== verification/Sysdep.thy ===== *)
theory Sysdep
  imports Bytes
begin

text \<open>
  The rest of \<open>lib/sysdep.cc\<close> (the file calls are in \<open>Host_Files\<close>): polling, sockets, and arrays between two protected
  pages, as built for Linux.  The UNIX calls are the argument \<open>h\<close>, functions on a state \<open>'w\<close> of the host that
  nothing is assumed about, unless a lemma says so.
\<close>

section \<open>The host\<close>

text \<open>
  \<open>n_select\<close> is asked about one file with no time to wait; \<open>n_mprotect a n ok\<close> allows or forbids every access to
  the \<open>n\<close> bytes from address \<open>a\<close> on; \<open>n_new\<close> delivers the address of a block.
\<close>

record 'w unix =
  n_select :: "int \<Rightarrow> 'w \<Rightarrow> int \<times> 'w"
  n_read :: "int \<Rightarrow> int \<Rightarrow> 'w \<Rightarrow> (int \<times> u8 list) \<times> 'w"
  n_close :: "int \<Rightarrow> 'w \<Rightarrow> int \<times> 'w"
  n_unlink :: "u8 list \<Rightarrow> 'w \<Rightarrow> int \<times> 'w"
  n_socket :: "'w \<Rightarrow> int \<times> 'w"
  n_bind :: "int \<Rightarrow> u8 list \<Rightarrow> 'w \<Rightarrow> int \<times> 'w"
  n_recvfrom :: "int \<Rightarrow> int \<Rightarrow> 'w \<Rightarrow> (int \<times> u8 list) \<times> 'w"
  n_sendto :: "int \<Rightarrow> u8 list \<Rightarrow> u8 list \<Rightarrow> 'w \<Rightarrow> int \<times> 'w"
  n_sleep :: "u32 \<Rightarrow> 'w \<Rightarrow> 'w"
  n_new :: "int \<Rightarrow> 'w \<Rightarrow> int \<times> 'w"
  n_delete :: "int \<Rightarrow> 'w \<Rightarrow> 'w"
  n_pagesize :: int
  n_mprotect :: "int \<Rightarrow> int \<Rightarrow> bool \<Rightarrow> 'w \<Rightarrow> int \<times> 'w"

section \<open>Files and time\<close>

definition PollFile :: "'w unix \<Rightarrow> int \<Rightarrow> 'w \<Rightarrow> (bool \<times> 'w) res" where
  "PollFile h fd w =
     (let (retVal, w) = n_select h fd w in
      bindr (ASSERT (retVal = 0 \<or> retVal = 1)) (\<lambda>_. Inr (retVal \<noteq> 0, w)))"

definition ReadFile :: "'w unix \<Rightarrow> int \<Rightarrow> int \<Rightarrow> 'w \<Rightarrow> (u8 list \<times> 'w) res" where
  "ReadFile h fd nBytes w =
     (let ((retVal, bs), w) = n_read h fd nBytes w in bindr (ASSERT (retVal = nBytes)) (\<lambda>_. Inr (bs, w)))"

definition Delay :: "'w unix \<Rightarrow> int \<Rightarrow> 'w \<Rightarrow> 'w" where
  "Delay h seconds = n_sleep h (of_int seconds)"

section \<open>Sockets\<close>

definition OpenSocket :: "'w unix \<Rightarrow> 'w \<Rightarrow> (int \<times> 'w) res" where
  "OpenSocket h w = (let (sockID, w) = n_socket h w in bindr (ASSERT (sockID \<ge> 0)) (\<lambda>_. Inr (sockID, w)))"

definition CloseSocket :: "'w unix \<Rightarrow> int \<Rightarrow> 'w \<Rightarrow> 'w" where
  "CloseSocket h sockID w = snd (n_close h sockID w)"

text \<open>The name, a string without its terminating zero, is copied into \<open>sun_path\<close>, an array of 108 characters.\<close>

definition InitSocketName :: "u8 list \<Rightarrow> u8 list res" where
  "InitSocketName name = (if length name + 1 \<le> 108 then Inr name else Inl OutOfBounds)"

definition AssignNameToSocket :: "'w unix \<Rightarrow> u8 list \<Rightarrow> int \<Rightarrow> 'w \<Rightarrow> 'w res" where
  "AssignNameToSocket h socketName sockID w =
     (let (_, w) = n_unlink h socketName w in
      bindr (InitSocketName socketName) (\<lambda>uName.
      let (retVal, w) = n_bind h sockID uName w in
      bindr (ASSERT (retVal \<ge> 0)) (\<lambda>_. Inr w)))"

definition DeAssignNameToSocket :: "'w unix \<Rightarrow> u8 list \<Rightarrow> 'w \<Rightarrow> 'w" where
  "DeAssignNameToSocket h socketName w = snd (n_unlink h socketName w)"

definition PollSocket :: "'w unix \<Rightarrow> int \<Rightarrow> 'w \<Rightarrow> (bool \<times> 'w) res" where
  "PollSocket h sockID = PollFile h sockID"

definition ReadFromSocket :: "'w unix \<Rightarrow> int \<Rightarrow> int \<Rightarrow> 'w \<Rightarrow> (u8 list \<times> 'w) res" where
  "ReadFromSocket h sockID packetSize w =
     (let ((retVal, bs), w) = n_recvfrom h sockID packetSize w in
      bindr (ASSERT (retVal = packetSize)) (\<lambda>_. Inr (bs, w)))"

primrec SendToSocket_loop :: "nat \<Rightarrow> 'w unix \<Rightarrow> int \<Rightarrow> u8 list \<Rightarrow> int \<Rightarrow> u8 list \<Rightarrow> 'w \<Rightarrow> 'w res" where
  "SendToSocket_loop 0 h sockID bs packetSize uName w = Inr w"
| "SendToSocket_loop (Suc n) h sockID bs packetSize uName w =
     (let (retVal, w) = n_sendto h sockID bs uName w in
      if retVal = packetSize then Inr w
      else bindr (ASSERT (retVal < 0)) (\<lambda>_. SendToSocket_loop n h sockID bs packetSize uName (Delay h 1 w)))"

definition SendToSocket :: "'w unix \<Rightarrow> int \<Rightarrow> u8 list \<Rightarrow> int \<Rightarrow> u8 list \<Rightarrow> 'w \<Rightarrow> 'w res" where
  "SendToSocket h sockID buffer packetSize toName w =
     bindr (InitSocketName toName) (\<lambda>uName.
     bindr (bytes_at buffer 0 packetSize) (\<lambda>bs. SendToSocket_loop 10 h sockID bs packetSize uName w))"

section \<open>Bounded arrays\<close>

definition AllocBoundedArray :: "'w unix \<Rightarrow> int \<Rightarrow> 'w \<Rightarrow> int \<times> 'w" where
  "AllocBoundedArray h len w =
     (let pgSize = n_pagesize h;
          (ptr, w) = n_new h (pgSize * 2 + len) w;
          (_, w) = n_mprotect h ptr pgSize False w;
          (_, w) = n_mprotect h (ptr + pgSize + len) pgSize False w in
      (ptr + pgSize, w))"

definition DeallocBoundedArray :: "'w unix \<Rightarrow> int \<Rightarrow> int \<Rightarrow> 'w \<Rightarrow> 'w" where
  "DeallocBoundedArray h ptr len w =
     (let pgSize = n_pagesize h;
          (_, w) = n_mprotect h (ptr - pgSize) pgSize True w;
          (_, w) = n_mprotect h (ptr + len) pgSize True w in
      n_delete h (ptr - pgSize) w)"

section \<open>Sending\<close>

text \<open>The host after a failed attempt and the second that follows it.\<close>

definition failed_once :: "'w unix \<Rightarrow> int \<Rightarrow> u8 list \<Rightarrow> u8 list \<Rightarrow> 'w \<Rightarrow> 'w" where
  "failed_once h sockID bs uName w = n_sleep h 1 (snd (n_sendto h sockID bs uName w))"

lemma SendToSocket_loop_fails:
  assumes "0 \<le> packetSize" "k \<le> n"
    and "\<forall>i < k. fst (n_sendto h sockID bs uName ((failed_once h sockID bs uName ^^ i) w)) < 0"
  shows "SendToSocket_loop n h sockID bs packetSize uName w =
    SendToSocket_loop (n - k) h sockID bs packetSize uName ((failed_once h sockID bs uName ^^ k) w)"
  using assms(2,3)
proof (induction k arbitrary: n w)
  case (Suc k)
  then obtain m where n: "n = Suc m" "k \<le> m" by (cases n) simp_all
  have first: "fst (n_sendto h sockID bs uName w) < 0" using Suc.prems(2) by (auto dest: spec [of _ 0])
  have rest: "\<forall>i < k. fst (n_sendto h sockID bs uName
      ((failed_once h sockID bs uName ^^ i) (failed_once h sockID bs uName w))) < 0"
    using Suc.prems(2) by (auto simp: funpow_swap1 dest: spec [of _ "Suc _"])
  have step: "SendToSocket_loop n h sockID bs packetSize uName w =
      SendToSocket_loop m h sockID bs packetSize uName (failed_once h sockID bs uName w)"
    using first n(1) assms(1) by (auto simp: failed_once_def Delay_def split: prod.splits)
  show ?case unfolding step Suc.IH [OF n(2) rest] using n(1) by (simp add: funpow_swap1)
qed simp

text \<open>
  A packet is tried at most ten times with a second after each failure, it is sent at the first success and not again,
  and when all ten fail it is dropped without a word.
\<close>

theorem SendToSocket_ten_tries:
  assumes "0 \<le> packetSize" "packetSize \<le> int (length buffer)" "length toName \<le> 107"
    and "k \<le> 10"
    and "\<forall>i < k. fst (n_sendto h sockID (take (nat packetSize) buffer) toName
      ((failed_once h sockID (take (nat packetSize) buffer) toName ^^ i) w)) < 0"
  defines "w' \<equiv> (failed_once h sockID (take (nat packetSize) buffer) toName ^^ k) w"
  shows "k = 10 \<Longrightarrow> SendToSocket h sockID buffer packetSize toName w = Inr w'"
    and "k < 10 \<Longrightarrow> n_sendto h sockID (take (nat packetSize) buffer) toName w' = (packetSize, w'') \<Longrightarrow>
      SendToSocket h sockID buffer packetSize toName w = Inr w''"
proof -
  have s: "SendToSocket h sockID buffer packetSize toName w =
      SendToSocket_loop (10 - k) h sockID (take (nat packetSize) buffer) packetSize toName w'"
    using assms(1-3) SendToSocket_loop_fails [OF assms(1,4,5)]
    by (simp add: SendToSocket_def InitSocketName_def bytes_at_def w'_def)
  show "SendToSocket h sockID buffer packetSize toName w = Inr w'" if "k = 10" using s that by simp
  show "SendToSocket h sockID buffer packetSize toName w = Inr w''"
    if "k < 10" "n_sendto h sockID (take (nat packetSize) buffer) toName w' = (packetSize, w'')"
  proof -
    have "10 - k = Suc (9 - k)" using that(1) by simp
    then show ?thesis unfolding s using that(2) by simp
  qed
qed

text \<open>
  UNIX protects whole pages: \<open>mprotect\<close> refuses an address that is no multiple of the page len.  The block comes from
  \<open>new\<close>, which promises no such address, and the results of \<open>mprotect\<close> are not looked at; so for any other address
  nothing is protected and the array is an ordinary one.
\<close>

theorem unaligned_array_unprotected:
  assumes "\<And>a n ok w. a mod n_pagesize h \<noteq> 0 \<Longrightarrow> snd (n_mprotect h a n ok w) = w"
    and "n_new h (n_pagesize h * 2 + len) w = (ptr, w')" "ptr mod n_pagesize h \<noteq> 0" "len mod n_pagesize h = 0"
  shows "AllocBoundedArray h len w = (ptr + n_pagesize h, w')"
proof -
  have "(ptr + n_pagesize h + len) mod n_pagesize h \<noteq> 0"
    using assms(3,4) by (metis add.right_neutral mod_add_right_eq mod_add_self2)
  then show ?thesis using assms(1) [of ptr] assms(1) [of "ptr + n_pagesize h + len"] assms(2,3)
    by (simp add: AllocBoundedArray_def Let_def case_prod_beta)
qed

end
