(* ===== verification/Spec2Isabelle.thy ===== *)
theory Spec2Isabelle
  imports Nachos_Prelude Bitmap Linked_List Machine Mips Mips_Correct Interrupt Bytes Devices Devices_Correct Threads Thread_Stacks Threads_Inv Kernel_Interrupts Thread_Steps Kernel_Steps Kernel_Objects Kernel_Switch Kernel_Clock Kernel_Safety Kernel_Correct Hash_Table File_Header Open_File Directory File_System File_System_Correct Host_Files Syscalls Syscalls_Correct File_Calls_Correct Addr_Space Addr_Space_Correct Coff2noff Coff2noff_Correct Post_Office Post_Office_Correct Start_Up Start_Up_Correct Lib_Test Sysdep
begin

text \<open>
  \<^bold>\<open>NachOS 4.0\<close>: a verification library for the instructional operating system under \<open>Source/NachOS-4.0/code\<close> and
  the object file converter under \<open>Source/NachOS-4.0/coff2noff\<close>.  File names below are relative to \<open>code\<close>.

  \<^bold>\<open>The program.\<close>  NachOS is an operating system kernel and the machine it runs on, in one UNIX process.  The machine
  (\<open>machine/\<close>) has a MIPS processor with a page table or TLB, an interrupt controller with a simulated clock, a timer, a
  disk, a console and a network.  A device calls its owner back from an interrupt, and interrupts are served when the
  clock advances: at every user instruction, whenever the kernel turns interrupts on, and when no thread is ready.  The kernel
  (\<open>threads/\<close>) has threads that give up the processor voluntarily or at a timer interrupt, semaphores, locks, condition
  variables, and synchronized versions of list, disk and console.  On top of these are the file system (\<open>filesys/\<close>), address
  spaces and system calls for user programs (\<open>userprog/\<close>, \<open>threads/kernel.cc\<close>), and the post office (\<open>network/\<close>).
  \<open>lib/\<close> has the containers and the wrappers of UNIX calls.  \<open>coff2noff\<close> turns what the MIPS linker writes into
  what \<open>AddrSpace::Load\<close> reads.

  \<^bold>\<open>How it is modelled.\<close>  A class is a record, a method a function of the same name that takes and returns the object
  or the state it reaches through the global \<open>kernel\<close>.  The result is \<open>Inr\<close> of a value or \<open>Inl\<close> of the first fault: a
  failed \<open>ASSERT\<close>, a null or dangling pointer, an index outside an array, a division that traps, a wait or loop that never
  ends (\<open>Nachos_Prelude\<close>).  A C \<open>int\<close> is a 32-bit word where the hardware has a register, else an integer that is
  wrapped (\<open>s32\<close>) where the code can overflow, as the clock, the times of interrupts and the counters of
  \<open>Statistics\<close> do; the value of a semaphore is kept unbounded, which makes a difference only after 2^31 calls of \<open>V\<close> on
  one semaphore that no \<open>P\<close> takes up.  The build is that of \<open>build.linux/Makefile\<close>: 32-bit little-endian x86, with
  \<open>FILESYS_STUB\<close>, \<open>RDATA\<close> and \<open>SIM_FIX\<close> and without \<open>USE_TLB\<close>.  \<open>File_Header\<close> to \<open>File_System\<close>
  model the file system that is compiled without \<open>FILESYS_STUB\<close>, \<open>Host_Files\<close> the one compiled with it; \<open>Start_Up\<close>
  covers both.  Address translation covers page table and TLB.

  \<^bold>\<open>Theories and sources.\<close>

  \<^item> \<open>Nachos_Prelude\<close>: faults, checked array access, counting loops, the macros of \<open>lib/utility.h\<close> and \<open>lib/debug.h\<close>, and
    the locale \<open>simulation\<close>, by which one refining step gives refinement of every sequence of operations.
  \<^item> \<open>Bitmap\<close> (\<open>lib/bitmap.cc\<close>): bits in an array of words; an allocator (locale \<open>bit_allocator\<close>) and a refinement of
    finite sets.
  \<^item> \<open>Linked_List\<close> (\<open>lib/list.cc\<close>): cells and pointers, with deletion; a refinement of sequences (locales \<open>fifo\<close>,
    \<open>list_adt\<close>, \<open>priority_queue\<close>).  \<open>Hash_Table\<close> (\<open>lib/hash.cc\<close>): a refinement of finite maps across rehashing, and
    an iterator that visits each item once.
  \<^item> \<open>Machine\<close> (\<open>machine/machine.cc\<close>, \<open>machine/translate.cc\<close>): registers, memory, \<open>Translate\<close>, \<open>ReadMem\<close> and
    \<open>WriteMem\<close>.  \<open>Mips\<close> (\<open>machine/mipssim.cc\<close>): \<open>Decode\<close>, \<open>OneInstruction\<close> and \<open>Mult\<close>.  \<open>Mips_Correct\<close>: every
    instruction keeps the machine well formed, traps precisely and leaves foreign memory alone.
  \<^item> \<open>Interrupt\<close> (\<open>machine/interrupt.cc\<close>, \<open>machine/stats.cc\<close>): the queue of pending interrupts and the clock; the locale
    \<open>interrupt_handlers\<close> says what a handler must keep for \<open>OneTick\<close> and \<open>Idle\<close> to be safe.  The loop of \<open>CheckIfDue\<close> is a
    \<open>while_option\<close>: no handler makes an interrupt due while the clock is below \<open>clock_limit\<close> (\<open>2^31 - 2^16\<close>) and no interrupt
    is further away than \<open>horizon\<close> (\<open>2^15\<close>, more than any device asks for), so it ends then; near the end of the \<open>int\<close> range it may not.
  \<^item> \<open>Bytes\<close>: structures as the bytes they are copied as.
  \<^item> \<open>Devices\<close>, \<open>Devices_Correct\<close> (\<open>machine/timer.cc\<close>, \<open>disk.cc\<close>, \<open>console.cc\<close>, \<open>network.cc\<close>, \<open>threads/alarm.cc\<close>): the
    invariant \<open>devices_ok\<close> that ties each device to its pending interrupt; the locale \<open>device_software\<close> is the contract of
    the software above them.
  \<^item> \<open>Threads\<close> (\<open>threads/thread.cc\<close>, \<open>scheduler.cc\<close>, \<open>synch.cc\<close>, \<open>synchlist.cc\<close>, \<open>filesys/synchdisk.cc\<close>,
    \<open>userprog/synchconsole.cc\<close>, \<open>Kernel::Initialize\<close>): the kernel as a step relation.  A thread is a stack of frames, a frame a piece
    of kernel code between two points where the processor may be given away; \<open>SWITCH\<close> is the change of the current stack.
  \<^item> \<open>Thread_Stacks\<close> (which stacks a program can have), \<open>Threads_Inv\<close> (the invariant), \<open>Kernel_Interrupts\<close> (the kernel
    satisfies \<open>device_software\<close>), \<open>Thread_Steps\<close>, \<open>Kernel_Steps\<close>, \<open>Kernel_Objects\<close>, \<open>Kernel_Switch\<close> (each kind of step keeps
    the invariant), \<open>Kernel_Clock\<close> (and the distance of every interrupt from the clock), \<open>Kernel_Safety\<close> (all steps, and the initial state), \<open>Kernel_Correct\<close> (what follows for every reachable
    state).
  \<^item> \<open>File_Header\<close> (\<open>filesys/filehdr.cc\<close>), \<open>Open_File\<close> (\<open>filesys/openfile.cc\<close>), \<open>Directory\<close>
    (\<open>filesys/directory.cc\<close>), \<open>File_System\<close> (\<open>filesys/filesys.cc\<close>, \<open>filesys/pbitmap.cc\<close>), \<open>File_System_Correct\<close>: files are arrays of
    bytes, directories finite maps, and the invariant \<open>fs_ok\<close> says who owns each sector.
  \<^item> \<open>Host_Files\<close> (\<open>filesys/filesys.h\<close>, \<open>filesys/openfile.h\<close> with \<open>FILESYS_STUB\<close>; the file calls of \<open>lib/sysdep.cc\<close>),
    \<open>Sysdep\<close> (its polling, sockets and bounded arrays).
  \<^item> \<open>Syscalls\<close>, \<open>Syscalls_Correct\<close> (\<open>userprog/exception.cc\<close>, \<open>userprog/ksyscall.h\<close>, \<open>threads/kernel.cc\<close>): the trap
    handler; \<open>sys_frame\<close> is the locale by which a relation kept by the basic actions is kept by every call.
    \<open>File_Calls_Correct\<close>: on a host with the contract \<open>posix\<close>, a program reads back what it wrote.
  \<^item> \<open>Addr_Space\<close>, \<open>Addr_Space_Correct\<close> (\<open>userprog/addrspace.cc\<close>, \<open>Machine::Run\<close>): loading and running programs.
    \<open>Coff2noff\<close>, \<open>Coff2noff_Correct\<close> (\<open>coff2noff/coff2noff.c\<close>): the way of a program from the linker into memory.
  \<^item> \<open>Post_Office\<close>, \<open>Post_Office_Correct\<close> (\<open>network/post.cc\<close>): mailboxes on top of the network device.
  \<^item> \<open>Start_Up\<close>, \<open>Start_Up_Correct\<close> (\<open>threads/main.cc\<close>, \<open>Kernel::Kernel\<close>): the command line, and \<open>Copy\<close> and \<open>Print\<close>.
    \<open>Lib_Test\<close> (\<open>lib/libtest.cc\<close>): the library's self test passes.

  \<^bold>\<open>What is shown.\<close>  From its initialization on, a kernel whose threads run any well-formed program of kernel calls never gets
  stuck and never fails an assertion but the program's own and that of \<open>List::Append\<close> when the program appends an item twice,
  and it does not hang while the clock is below \<open>clock_limit\<close>, provided the network delivers well-formed packets and the
  keyboard can be read; locks exclude, the scheduler loses no thread, \<open>V\<close> and
  \<open>Yield\<close> are fair in the order of their queues, and due interrupts are served (\<open>Kernel_Correct\<close>).  A user program, whatever it
  does and whatever the host answers to its system calls, changes only the memory of its own pages, and an instruction that is no system call never
  makes the simulator fail, except the division of the least integer by -1 (\<open>Mips_Correct\<close>, \<open>Syscalls_Correct\<close>,
  \<open>Addr_Space_Correct\<close>); what the linker wrote is what ends up in memory (\<open>Coff2noff_Correct\<close>), and the
  bytes other than zero that a program writes to a file it reads back (\<open>File_Calls_Correct\<close>).  On the simulated disk,
  \<open>Create\<close> and \<open>Remove\<close> do all or nothing, files do not interfere, and formatting gives an empty file system in order
  (\<open>File_System_Correct\<close>).  Mail that is not lost arrives as it was sent (\<open>Post_Office_Correct\<close>).  The containers
  refine sets, sequences and maps.  Where the code does not do what it means to, the theorem says what it does instead: the
  file system's constructor dereferences null, file number 20 and reads of \<open>stdin\<close> crash the kernel, an object file can make
  \<open>Load\<close> write outside memory, a file larger than \<open>MaxFileSize\<close> overruns its header, logical shifts copy the sign,
  \<open>CheckIfDue\<close> serves the timer for ever when the clock overflows, \<open>PrintString\<close> cuts a string off after 223 bytes, and mail for
  a mailbox that does not exist aborts the receiver.

  \<^bold>\<open>Bounds and fuel.\<close>  Loops over a range are folds.  A loop over list cells takes as fuel the number of cells ever allocated:
  a longer walk has visited a cell twice and never ends, which is the fault \<open>Diverges\<close>; for a list that stands for a sequence
  the fuel suffices (\<open>lpath_fuel\<close>).  \<open>visit_all\<close> of the hash iterator ends with the number of items as
  fuel.  \<open>Machine_Run\<close>, \<open>hardware_steps\<close> and \<open>run_steps\<close> take the number of steps, and what is proved holds for every number.
  String loops of system calls take the bound the code passes.  The loops of \<open>Copy\<close> and \<open>Print\<close>, which depend on the host, are
  partial functions.

  \<^bold>\<open>Parameters.\<close>  UNIX calls and their state (\<open>host\<close>, \<open>unix\<close>), random numbers, what arrives from keyboard and network, the
  contents of fresh memory and the room an allocator leaves behind a block, \<open>atof\<close>, and the programs that threads run.  Nothing
  is assumed of the host except where a theorem says so.

  \<^bold>\<open>Not modelled.\<close>  Output that only informs the operator (\<open>DEBUG\<close>, \<open>Print\<close> of statistics, bitmaps on the disk, file headers
  and packets) and the single-step debugger, since nothing depends on them; destructors that only free memory.  The assembly of
  \<open>threads/switch.S\<close>, whose effect is the change of stacks above.  The self tests of threads, of the console and of the network, which
  are programs over the operations modelled here.  The user programs in \<open>test/\<close>: the theorems on user programs hold for
  all programs.  The C++ tutorial, the cross compiler's headers, and build files.  In the kernel theories a thread's program is a list of
  kernel calls, and of a user program they see the ticks of its instructions and the registers and page table that are saved and
  restored; the system call theories see the consoles as the characters to be read and the characters
  written, and the file system theories see the disk as what its sectors hold, one request at a time: the synchronized
  devices of \<open>Threads\<close> make both true, but that composition is not itself a theorem.
\<close>

end
